(* ===== verification/Prelude.thy ===== *)
theory Prelude
  imports Complex_Main "HOL-Library.Signed_Division" "HOL-Library.Word"
begin

text \<open>
  Shared vocabulary of the development.

  \<^item> Failure as a value: \<open>error\<close> lists the ways a run of the program can stop
    (a glog \<open>CHECK\<close> or \<open>LOG(FATAL)\<close>, an exception of the standard library, an
    operation whose behaviour C++ leaves undefined, a call of \<open>exit\<close>) or to wait for another thread, \<open>res\<close> is the result type and
    \<open>bindR\<close> sequences fallible steps.
  \<^item> C integers are HOL integers; where a value is packed into 32 bits the
    truncation is written with \<open>signed_take_bit 31\<close> (\<open>c_int\<close>). Division and
    remainder of the source are \<open>sdiv\<close> and \<open>smod\<close>, which truncate toward zero.
  \<^item> Checked access to vectors, the little-endian byte images of machine words, C strings
    and the decimal numbers of \<open>printf\<close> and \<open>scanf\<close>.

  The collections \<open>res_simps\<close>, \<open>okR_rules\<close> and \<open>vec_simps\<close> carry the rewriting that the
  component theories share.
\<close>

unbundle bit_operations_syntax

named_theorems res_simps \<open>rewriting of fallible computations\<close>
named_theorems okR_rules \<open>rules for runs that succeed\<close>
named_theorems vec_simps \<open>rewriting of vectors: lengths and checked access\<close>

section \<open>Failure as a value\<close>

datatype error =
    CheckFailed    \<comment> \<open>a glog CHECK or LOG(FATAL): the process aborts\<close>
  | OutOfRange     \<comment> \<open>at() of a vector or a map throws std::out\_of\_range\<close>
  | Undefined      \<comment> \<open>undefined behaviour: a null or end iterator is dereferenced, a division by zero\<close>
  | Exited         \<comment> \<open>the process ends itself by exit(0) on a broken connection\<close>
  | Blocked        \<comment> \<open>the thread waits for a change that only another thread or process can make\<close>

type_synonym 'a res = "error + 'a"

definition bindR :: "'a res \<Rightarrow> ('a \<Rightarrow> 'b res) \<Rightarrow> 'b res" where
  "bindR m f = (case m of Inl e \<Rightarrow> Inl e | Inr x \<Rightarrow> f x)"

definition checkR :: "bool \<Rightarrow> error \<Rightarrow> 'a res \<Rightarrow> 'a res" where
  "checkR b e m = (if b then m else Inl e)"

lemma bindR_Inl [simp, res_simps]: "bindR (Inl e) f = Inl e"
  and bindR_Inr [simp, res_simps]: "bindR (Inr x) f = f x"
  by (simp_all add: bindR_def)

lemma bindR_eq_Inr [res_simps]: "bindR m f = Inr y \<longleftrightarrow> (\<exists>x. m = Inr x \<and> f x = Inr y)"
  by (cases m) simp_all

lemma bindR_assoc: "bindR (bindR m f) g = bindR m (\<lambda>x. bindR (f x) g)"
  by (cases m) simp_all

lemma checkR_True [simp, res_simps]: "checkR True e m = m"
  and checkR_False [simp, res_simps]: "checkR False e m = Inl e"
  by (simp_all add: checkR_def)

lemma checkR_eq_Inr [res_simps]: "checkR b e m = Inr y \<longleftrightarrow> b \<and> m = Inr y"
  by (cases b) simp_all

text \<open>
  A run that succeeds with a result in \<open>Q\<close>: the form in which the specifications of operations
  on memory are composed, one rule per operation (collection \<open>okR_rules\<close>).
\<close>

definition okR :: "'a res \<Rightarrow> ('a \<Rightarrow> bool) \<Rightarrow> bool" where
  "okR m Q \<longleftrightarrow> (\<exists>x. m = Inr x \<and> Q x)"

lemma okR_Inr [simp]: "okR (Inr x) Q = Q x" and okR_Inl [simp]: "\<not> okR (Inl e) Q"
  by (simp_all add: okR_def)

lemma okR_bind: "okR m (\<lambda>x. okR (k x) Q) \<Longrightarrow> okR (bindR m k) Q"
  by (auto simp: okR_def)

lemma okR_mono: "okR m P \<Longrightarrow> (\<And>x. P x \<Longrightarrow> Q x) \<Longrightarrow> okR m Q"
  by (auto simp: okR_def)

lemma okR_check: "b \<Longrightarrow> okR m Q \<Longrightarrow> okR (checkR b e m) Q"
  by simp

text \<open>A loop over the elements of a vector whose body may fail.\<close>

fun foldR :: "('s \<Rightarrow> 'a \<Rightarrow> 's res) \<Rightarrow> 's \<Rightarrow> 'a list \<Rightarrow> 's res" where
  "foldR f s [] = Inr s"
| "foldR f s (x # xs) = bindR (f s x) (\<lambda>s'. foldR f s' xs)"

lemma foldR_append: "foldR f s (xs @ ys) = bindR (foldR f s xs) (\<lambda>s'. foldR f s' ys)"
  by (induction xs arbitrary: s) (simp_all add: bindR_assoc)

lemma foldR_invariant:
  assumes "foldR f s xs = Inr s'" and "P s"
    and "\<And>s x s'. x \<in> set xs \<Longrightarrow> P s \<Longrightarrow> f s x = Inr s' \<Longrightarrow> P s'"
  shows "P s'"
  using assms
proof (induction xs arbitrary: s)
  case (Cons x xs)
  then obtain t where "f s x = Inr t" "foldR f t xs = Inr s'"
    by (auto simp: bindR_eq_Inr)
  with Cons show ?case by (metis list.set_intros)
qed simp

text \<open>A step that may not return, may fail, or gives a result.\<close>

definition bindOR :: "'a res option \<Rightarrow> ('a \<Rightarrow> 'b res option) \<Rightarrow> 'b res option" where
  "bindOR m f = (case m of None \<Rightarrow> None | Some (Inl e) \<Rightarrow> Some (Inl e) | Some (Inr x) \<Rightarrow> f x)"

lemma bindOR_simps [simp]: "bindOR None f = None" "bindOR (Some (Inl e)) f = Some (Inl e)" "bindOR (Some (Inr x)) f = f x"
  by (simp_all add: bindOR_def)

section \<open>C integers\<close>

text \<open>Conversion of a mathematical integer to a 32-bit signed \<open>int\<close>.\<close>

definition c_int :: "int \<Rightarrow> int" where
  "c_int x = signed_take_bit 31 x"

definition is_c_int :: "int \<Rightarrow> bool" where
  "is_c_int x \<longleftrightarrow> - (2 ^ 31) \<le> x \<and> x < 2 ^ 31"

lemma c_int_id [simp]: "is_c_int x \<Longrightarrow> c_int x = x"
  by (simp add: c_int_def is_c_int_def signed_take_bit_int_eq_self)

lemma is_c_int_c_int [simp]: "is_c_int (c_int x)"
proof -
  have "- (2 ^ 31) \<le> signed_take_bit 31 x" "signed_take_bit 31 x < 2 ^ 31"
    by (rule signed_take_bit_int_greater_eq_minus_exp signed_take_bit_int_less_exp)+
  then show ?thesis by (simp add: c_int_def is_c_int_def)
qed

lemma sdiv_nonneg [simp]: "0 \<le> a \<Longrightarrow> 0 \<le> b \<Longrightarrow> a sdiv b = (a :: int) div b"
  by (cases "a = 0"; cases "b = 0") (simp_all add: signed_divide_int_def sgn_1_pos)

lemma smod_nonneg [simp]: "0 \<le> a \<Longrightarrow> 0 \<le> b \<Longrightarrow> a smod b = (a :: int) mod b"
  by (cases "a = 0"; cases "b = 0")
     (simp_all add: signed_modulo_int_def signed_divide_int_def minus_div_mult_eq_mod sgn_1_pos)

lemma abs_smod_less: "b \<noteq> 0 \<Longrightarrow> \<bar>a smod b\<bar> < \<bar>b :: int\<bar>"
proof -
  assume "b \<noteq> 0"
  have "a smod b = sgn a * (\<bar>a\<bar> mod \<bar>b\<bar>)"
    by (cases "a = 0"; cases "b > 0")
       (auto simp: signed_modulo_int_def signed_divide_int_def sgn_if abs_if
         minus_div_mult_eq_mod [symmetric] algebra_simps)
  then have "\<bar>a smod b\<bar> \<le> \<bar>a\<bar> mod \<bar>b\<bar>"
    using \<open>b \<noteq> 0\<close> by (auto simp: abs_mult sgn_if)
  also have "\<dots> < \<bar>b\<bar>" using \<open>b \<noteq> 0\<close> by simp
  finally show ?thesis .
qed

section \<open>Vectors\<close>

text \<open>
  \<open>atR\<close> is \<open>vector::at\<close>, which throws, \<open>idxR\<close> is \<open>operator[]\<close>, which is undefined
  out of range. Both take the C integer the source indexes with.
\<close>

definition atR :: "'a list \<Rightarrow> int \<Rightarrow> 'a res" where
  "atR xs i = (if 0 \<le> i \<and> i < int (length xs) then Inr (xs ! nat i) else Inl OutOfRange)"

definition idxR :: "'a list \<Rightarrow> int \<Rightarrow> 'a res" where
  "idxR xs i = (if 0 \<le> i \<and> i < int (length xs) then Inr (xs ! nat i) else Inl Undefined)"

lemma atR_eq_Inr [res_simps]:
  "atR xs i = Inr x \<longleftrightarrow> 0 \<le> i \<and> i < int (length xs) \<and> x = xs ! nat i"
  by (auto simp: atR_def)

lemma idxR_eq_Inr [res_simps]:
  "idxR xs i = Inr x \<longleftrightarrow> 0 \<le> i \<and> i < int (length xs) \<and> x = xs ! nat i"
  by (auto simp: idxR_def)

lemma atR_int [simp]: "n < length xs \<Longrightarrow> atR xs (int n) = Inr (xs ! n)"
  and idxR_int [simp]: "n < length xs \<Longrightarrow> idxR xs (int n) = Inr (xs ! n)"
  by (simp_all add: atR_def idxR_def)

text \<open>Overwriting a segment of a vector (\<open>memcpy\<close> into it).\<close>

definition blit :: "nat \<Rightarrow> 'a list \<Rightarrow> 'a list \<Rightarrow> 'a list" where
  "blit off new xs = take off xs @ new @ drop (off + length new) xs"

definition segment :: "nat \<Rightarrow> nat \<Rightarrow> 'a list \<Rightarrow> 'a list" where
  "segment off n xs = take n (drop off xs)"

lemma length_blit [simp, vec_simps]:
  "off + length new \<le> length xs \<Longrightarrow> length (blit off new xs) = length xs"
  by (simp add: blit_def)

lemma length_segment [simp, vec_simps]:
  "off + n \<le> length xs \<Longrightarrow> length (segment off n xs) = n"
  by (simp add: segment_def)

lemma segment_blit_same [simp, vec_simps]:
  "off + length new \<le> length xs \<Longrightarrow> segment off (length new) (blit off new xs) = new"
  by (simp add: segment_def blit_def)

lemma segment_blit_below [vec_simps]:
  "off' + n \<le> off \<Longrightarrow> off \<le> length xs \<Longrightarrow> segment off' n (blit off new xs) = segment off' n xs"
  by (simp add: segment_def blit_def take_drop min_def)

lemma segment_blit_above [vec_simps]:
  "off + length new \<le> off' \<Longrightarrow> off + length new \<le> length xs \<Longrightarrow>
   segment off' n (blit off new xs) = segment off' n xs"
  by (simp add: segment_def blit_def)

lemma blit_Nil [simp, vec_simps]: "blit off [] xs = xs"
  by (simp add: blit_def)

lemma blit_whole [simp, vec_simps]: "length new = length xs \<Longrightarrow> blit 0 new xs = new"
  by (simp add: blit_def)

lemma segment_whole [simp, vec_simps]: "segment 0 (length xs) xs = xs"
  by (simp add: segment_def)

lemma append_split:
  assumes "p @ q = a @ b" and "length a \<le> length p"
  obtains r where "p = a @ r" and "r @ q = b"
proof
  have "take (length a) (p @ q) = a" using assms(1) by simp
  then have "take (length a) p = a" using assms(2) by simp
  then show p: "p = a @ drop (length a) p" by (metis append_take_drop_id)
  then show "drop (length a) p @ q = b" using assms(1) by (metis append.assoc same_append_eq)
qed

section \<open>Byte images of machine words\<close>

text \<open>Bytes are characters; multi-byte values are little-endian (x86-64).\<close>

type_synonym bytes = "char list"

primrec le_bytes :: "nat \<Rightarrow> int \<Rightarrow> bytes" where
  "le_bytes 0 x = []"
| "le_bytes (Suc n) x = char_of (nat (x mod 256)) # le_bytes n (x div 256)"

primrec le_val :: "bytes \<Rightarrow> int" where
  "le_val [] = 0"
| "le_val (c # cs) = int (of_char c) + 256 * le_val cs"

lemma length_le_bytes [simp, vec_simps]: "length (le_bytes n x) = n"
  by (induction n arbitrary: x) simp_all

lemma le_val_le_bytes: "le_val (le_bytes n x) = x mod 256 ^ n"
proof (induction n arbitrary: x)
  case 0
  then show ?case by simp
next
  case (Suc n)
  have "of_char (char_of (nat (x mod 256)) :: char) = nat (x mod 256)"
    by (simp add: nat_less_iff)
  moreover have "x mod (256 * 256 ^ n) = 256 * (x div 256 mod 256 ^ n) + x mod 256"
    by (rule zmod_zmult2_eq) simp
  ultimately show ?case
    using Suc [of "x div 256"] by simp
qed

lemma le_val_nonneg: "0 \<le> le_val bs"
  by (induction bs) simp_all

lemma le_val_less: "le_val bs < 256 ^ length bs"
proof (induction bs)
  case Nil
  then show ?case by simp
next
  case (Cons c cs)
  have "of_char c < (256 :: nat)" by simp
  then have "int (of_char c) < 256" by linarith
  moreover have "256 * le_val cs + 256 \<le> 256 * 256 ^ length cs"
    using Cons by simp
  ultimately have "int (of_char c) + 256 * le_val cs < 256 * 256 ^ length cs"
    by linarith
  then show ?case by simp
qed

lemma c_int_le_val [simp]: "is_c_int x \<Longrightarrow> c_int (le_val (le_bytes 4 x)) = x"
proof -
  assume x: "is_c_int x"
  have "le_val (le_bytes 4 x) = take_bit 32 x"
    by (simp add: le_val_le_bytes take_bit_eq_mod)
  then have "c_int (le_val (le_bytes 4 x)) = signed_take_bit 31 (take_bit 32 x)"
    by (simp add: c_int_def)
  also have "\<dots> = signed_take_bit 31 x"
    by (simp add: signed_take_bit_eq_iff_take_bit_eq)
  finally show ?thesis using x by (simp add: c_int_def is_c_int_def signed_take_bit_int_eq_self)
qed

section \<open>C strings and decimal numbers\<close>

abbreviation NUL :: char where
  "NUL \<equiv> CHR 0x00"

definition cstr :: "bytes \<Rightarrow> string" where
  "cstr = takeWhile (\<lambda>c. c \<noteq> NUL)"

lemma cstr_append_NUL [simp]: "NUL \<notin> set x \<Longrightarrow> cstr (x @ NUL # y) = x"
  and cstr_no_NUL [simp]: "NUL \<notin> set x \<Longrightarrow> cstr x = x"
  by (induction x) (auto simp: cstr_def)

lemma cstr_NUL_notin [simp]: "NUL \<notin> set (cstr x)"
  by (auto simp: cstr_def dest: set_takeWhileD)

text \<open>\<open>printf\<close> and \<open>scanf\<close> of a decimal \<open>%d\<close>.\<close>

fun print_nat :: "nat \<Rightarrow> string" where
  "print_nat n =
     (if n < 10 then [char_of (48 + n)] else print_nat (n div 10) @ [char_of (48 + n mod 10)])"

definition print_d :: "int \<Rightarrow> string" where
  "print_d x = (if x < 0 then CHR ''-'' # print_nat (nat (- x)) else print_nat (nat x))"

definition is_digit :: "char \<Rightarrow> bool" where
  "is_digit c \<longleftrightarrow> 48 \<le> (of_char c :: nat) \<and> (of_char c :: nat) \<le> 57"

definition is_space :: "char \<Rightarrow> bool" where
  "is_space c \<longleftrightarrow> c = CHR '' '' \<or> (9 \<le> (of_char c :: nat) \<and> (of_char c :: nat) \<le> 13)"

fun scan_nat :: "nat \<Rightarrow> string \<Rightarrow> nat \<times> string" where
  "scan_nat acc (c # s) = (if is_digit c then scan_nat (10 * acc + (of_char c - 48)) s else (acc, c # s))"
| "scan_nat acc [] = (acc, [])"

definition scan_d :: "string \<Rightarrow> (int \<times> string) option" where
  "scan_d s0 =
     (let s = dropWhile is_space s0;
          neg = (s \<noteq> [] \<and> hd s = CHR ''-'');
          s' = (if s \<noteq> [] \<and> (hd s = CHR ''-'' \<or> hd s = CHR ''+'') then tl s else s) in
      if s' \<noteq> [] \<and> is_digit (hd s') then
        (let (n, rest) = scan_nat 0 s' in Some (if neg then - int n else int n, rest))
      else None)"

declare print_nat.simps [simp del]

lemma of_char_digit: "n < 10 \<Longrightarrow> of_char (char_of (48 + n) :: char) = 48 + (n :: nat)"
  by simp

lemma print_nat_digits: "\<forall>c \<in> set (print_nat n). is_digit c"
  and print_nat_nonempty: "print_nat n \<noteq> []"
proof (induction n rule: print_nat.induct)
  case (1 n)
  {
    case 1
    with \<open>\<not> n < 10 \<Longrightarrow> \<forall>c \<in> set (print_nat (n div 10)). is_digit c\<close>
    show ?case by (subst print_nat.simps) (auto simp: is_digit_def of_char_digit)
  next
    case 2
    then show ?case by (subst print_nat.simps) simp
  }
qed

lemma scan_nat_print:
  "scan_nat acc (print_nat n @ rest) = scan_nat (10 ^ length (print_nat n) * acc + n) rest"
proof (induction n arbitrary: acc rest rule: print_nat.induct)
  case (1 n)
  have digit: "is_digit (char_of (48 + k))" if "k < 10" for k :: nat
    using that by (simp add: is_digit_def of_char_digit)
  show ?case
  proof (cases "n < 10")
    case True
    then show ?thesis by (simp add: print_nat.simps [of n] digit)
  next
    case False
    with 1 have "scan_nat acc (print_nat (n div 10) @ char_of (48 + n mod 10) # rest) =
        scan_nat (10 ^ length (print_nat (n div 10)) * acc + n div 10) (char_of (48 + n mod 10) # rest)"
      by simp
    also have "\<dots> = scan_nat (10 ^ length (print_nat n) * acc + n) rest"
      using False by (simp add: digit print_nat.simps [of n] algebra_simps)
    finally show ?thesis using False by (simp add: print_nat.simps [of n])
  qed
qed

definition no_digit :: "string \<Rightarrow> bool" where
  "no_digit s \<longleftrightarrow> s = [] \<or> \<not> is_digit (hd s)"

lemma scan_nat_stop: "no_digit rest \<Longrightarrow> scan_nat acc rest = (acc, rest)"
  by (cases rest) (auto simp: no_digit_def)

lemma digit_chars: "is_digit c \<Longrightarrow> \<not> is_space c \<and> c \<noteq> CHR ''-'' \<and> c \<noteq> CHR ''+'' \<and> c \<noteq> NUL"
  by (auto simp: is_digit_def is_space_def)

lemma scan_d_print:
  assumes "no_digit rest"
  shows "scan_d (print_d x @ rest) = Some (x, rest)" and "scan_d ('' '' @ print_d x @ rest) = Some (x, rest)"
proof -
  have nat: "scan_nat 0 (print_nat n @ rest) = (n, rest)" for n
    using scan_nat_print [of 0 n rest] scan_nat_stop [OF assms] by simp
  obtain c cs where n: "print_nat (nat \<bar>x\<bar>) = c # cs" "is_digit c"
    using print_nat_nonempty [of "nat \<bar>x\<bar>"] print_nat_digits [of "nat \<bar>x\<bar>"]
    by (metis list.exhaust list.set_intros(1))
  have "\<not> is_space (CHR ''-'')" "is_space (CHR '' '')" by (simp_all add: is_space_def)
  then show "scan_d (print_d x @ rest) = Some (x, rest)"
    and "scan_d ('' '' @ print_d x @ rest) = Some (x, rest)"
    using n digit_chars [of c] nat [of "nat \<bar>x\<bar>"]
    by (auto simp: scan_d_def print_d_def Let_def)
qed

end
