(* ===== verification/Common.thy ===== *)
theory Common
  imports Prelude
begin

text \<open>
  Model of \<open>src/src/utils/common.cc\<close>: the integer helpers \<open>gcd\<close> and
  \<open>LeastCommonMultiple\<close>, the two load balancers \<open>Slice\<close> (which cuts parameters into
  slices) and \<open>PartitionSlices\<close> (which assigns slices to servers or server groups), and
  the performance counters of \<open>class Metric\<close>.

  The loops of the load balancers need not end, so they are
  \<open>partial_function (option)\<close>: \<open>None\<close> is a run that never returns.
\<close>

section \<open>Greatest common divisor\<close>

text \<open>\<open>for (;;) { if (a == 0) return b; b %= a; if (b == 0) return a; a %= b; }\<close>\<close>

function gcd_c :: "int \<Rightarrow> int \<Rightarrow> int" where
  "gcd_c a b =
     (if a = 0 then b
      else let b' = b smod a in
           if b' = 0 then a else gcd_c (a smod b') b')"
  by pat_completeness auto
termination
proof (relation "measure (\<lambda>(a, b). nat \<bar>a\<bar>)")
  show "wf (measure (\<lambda>(a :: int, b :: int). nat \<bar>a\<bar>))" by simp
next
  fix a b b' :: int
  assume "a \<noteq> 0" "b' = b smod a" "b' \<noteq> 0"
  then have "\<bar>a smod b'\<bar> < \<bar>b'\<bar>" "\<bar>b'\<bar> < \<bar>a\<bar>"
    by (simp_all add: abs_smod_less)
  then show "((a smod b', b'), (a, b)) \<in> measure (\<lambda>(a, b). nat \<bar>a\<bar>)" by simp
qed

declare gcd_c.simps [simp del]

definition LeastCommonMultiple :: "int \<Rightarrow> int \<Rightarrow> int" where
  "LeastCommonMultiple a b =
     (let temp = gcd_c a b in if temp \<noteq> 0 then a sdiv temp * b else 0)"

section \<open>Slicing parameters\<close>

text \<open>
  The average load of a box and the slack \<open>diff\<close> that both balancers use; \<open>num\<close> is not
  zero here, both callers return early on zero.
\<close>

definition box_avg :: "int \<Rightarrow> int list \<Rightarrow> int" where
  "box_avg num xs = sum_list xs sdiv num + sum_list xs smod num"

definition box_diff :: "int \<Rightarrow> int" where
  "box_diff avg = avg sdiv 10"

text \<open>
  The loop \<open>while (x > 0)\<close> over one parameter of \<open>x\<close> floats. \<open>sl\<close> collects the
  pieces; the result carries \<open>capacity\<close> and \<open>nbox\<close> on to the next parameter.
\<close>

partial_function (option) slice_while ::
  "int \<Rightarrow> int \<Rightarrow> int \<Rightarrow> int \<Rightarrow> int \<Rightarrow> int list \<Rightarrow> (int list \<times> int \<times> int) option" where
  "slice_while avg diff capacity nbox x sl =
     (if 0 < x then
        (if x \<le> capacity then slice_while avg diff (capacity - x) nbox 0 (sl @ [x])
         else if x \<le> capacity + diff then slice_while avg diff 0 nbox 0 (sl @ [x])
         else if diff \<le> capacity then
           slice_while avg diff avg (nbox + 1) (x - capacity)
             (if capacity \<noteq> 0 then sl @ [capacity] else sl)
         else slice_while avg diff avg (nbox + 1) x sl)
      else Some (sl, capacity, nbox))"

declare slice_while.simps [code]

fun slice_for ::
  "int \<Rightarrow> int \<Rightarrow> int \<Rightarrow> int \<Rightarrow> int list \<Rightarrow> (int list list \<times> int) option" where
  "slice_for avg diff capacity nbox [] = Some ([], nbox)"
| "slice_for avg diff capacity nbox (x # sizes) =
     (case slice_while avg diff capacity nbox x [] of
        None \<Rightarrow> None
      | Some (sl, capacity', nbox') \<Rightarrow>
          (case slice_for avg diff capacity' nbox' sizes of
             None \<Rightarrow> None
           | Some (slices, nbox'') \<Rightarrow> Some (sl # slices, nbox'')))"

definition Slice :: "int \<Rightarrow> int list \<Rightarrow> int list list res option" where
  "Slice num sizes =
     (if num = 0 then Some (Inr [])
      else let avg = box_avg num sizes; diff = box_diff avg in
           (case slice_for avg diff avg 0 sizes of
              None \<Rightarrow> None
            | Some (slices, nbox) \<Rightarrow>
                Some (if nbox \<le> num then Inr slices else Inl CheckFailed)))"

section \<open>Assigning slices to boxes\<close>

partial_function (option) partition_while ::
  "int \<Rightarrow> int \<Rightarrow> int \<Rightarrow> int \<Rightarrow> int list \<Rightarrow> int list \<Rightarrow> int list option" where
  "partition_while avg diff box boxid slices slice2box =
     (case slices of
        [] \<Rightarrow> Some slice2box
      | x # rest \<Rightarrow>
          (if x \<le> box then
             partition_while avg diff (box - x) boxid rest (slice2box @ [boxid])
           else if x \<le> box + diff then
             partition_while avg diff 0 boxid rest (slice2box @ [boxid])
           else partition_while avg diff avg (boxid + 1) slices slice2box))"

declare partition_while.simps [code]

definition PartitionSlices :: "int \<Rightarrow> int list \<Rightarrow> int list res option" where
  "PartitionSlices num slices =
     (if num = 0 then Some (Inr [])
      else let avg = box_avg num slices in
           (case partition_while avg (box_diff avg) avg 0 slices [] of
              None \<Rightarrow> None
            | Some slice2box \<Rightarrow>
                Some (if length slice2box = length slices then Inr slice2box
                      else Inl CheckFailed)))"

section \<open>Performance counters\<close>

text \<open>
  \<open>Metric::entry_\<close> maps a metric name to its count and accumulated value. The message
  \<open>MetricProto\<close> of \<open>src/src/proto/common.proto\<close> has three repeated fields. \<open>ToString\<close>
  walks the hash map in an order the library chooses: that order is the argument \<open>ks\<close>, the
  list of keys. Serialisation of the message to bytes is protobuf's and is left out:
  \<open>ToString\<close> gives the message, \<open>ParseFrom\<close> takes it.
\<close>

type_synonym 'f metric = "string \<rightharpoonup> int \<times> 'f"

record 'f MetricProto =
  mp_name :: "string list"
  mp_count :: "int list"
  mp_val :: "'f list"

definition Metric_Add :: "string \<Rightarrow> 'f :: plus \<Rightarrow> 'f metric \<Rightarrow> 'f metric" where
  "Metric_Add nm v entry =
     (case entry nm of
        None \<Rightarrow> entry(nm \<mapsto> (1, v))
      | Some (c, s) \<Rightarrow> entry(nm \<mapsto> (c + 1, s + v)))"

text \<open>\<open>for(auto e : entry_)\<close> copies every pair, so the assignments to \<open>e\<close> are lost.\<close>

definition Metric_Reset :: "'f metric \<Rightarrow> 'f metric" where
  "Metric_Reset entry = entry"

definition Metric_ToString :: "string list \<Rightarrow> 'f metric \<Rightarrow> 'f MetricProto" where
  "Metric_ToString ks entry =
     \<lparr>mp_name = ks, mp_count = map (\<lambda>k. fst (the (entry k))) ks, mp_val = map (\<lambda>k. snd (the (entry k))) ks\<rparr>"

fun metric_parse_loop ::
  "string list \<Rightarrow> int list \<Rightarrow> 'f list \<Rightarrow> 'f metric \<Rightarrow> 'f metric res" where
  "metric_parse_loop [] cs vs entry = Inr entry"
| "metric_parse_loop (n # ns) (c # cs) (v # vs) entry = metric_parse_loop ns cs vs (entry(n \<mapsto> (c, v)))"
| "metric_parse_loop (n # ns) _ _ entry = Inl Undefined"

definition Metric_ParseFrom :: "'f MetricProto \<Rightarrow> 'f metric \<Rightarrow> 'f metric res" where
  "Metric_ParseFrom proto entry =
     metric_parse_loop (mp_name proto) (mp_count proto) (mp_val proto) (Metric_Reset entry)"

section \<open>The slicing loop as a relation\<close>

text \<open>
  One run of the inner loop, branch by branch: \<open>slice_run avg diff c n x ps c' n'\<close> says
  that from capacity \<open>c\<close> and box number \<open>n\<close> the loop cuts \<open>x\<close> into the pieces \<open>ps\<close>
  and leaves capacity \<open>c'\<close> in box \<open>n'\<close>.
\<close>

inductive slice_run ::
  "int \<Rightarrow> int \<Rightarrow> int \<Rightarrow> int \<Rightarrow> int \<Rightarrow> int list \<Rightarrow> int \<Rightarrow> int \<Rightarrow> bool" for avg diff where
  placed: "x \<le> 0 \<Longrightarrow> slice_run avg diff c n x [] c n"
| fit: "0 < x \<Longrightarrow> x \<le> c \<Longrightarrow> slice_run avg diff c n x [x] (c - x) n"
| slack: "0 < x \<Longrightarrow> c < x \<Longrightarrow> x \<le> c + diff \<Longrightarrow> slice_run avg diff c n x [x] 0 n"
| cut: "0 < x \<Longrightarrow> c < x \<Longrightarrow> c + diff < x \<Longrightarrow> diff \<le> c \<Longrightarrow>
     slice_run avg diff avg (n + 1) (x - c) ps c' n' \<Longrightarrow>
     slice_run avg diff c n x ((if c \<noteq> 0 then [c] else []) @ ps) c' n'"
| skip: "0 < x \<Longrightarrow> c < x \<Longrightarrow> c + diff < x \<Longrightarrow> c < diff \<Longrightarrow>
     slice_run avg diff avg (n + 1) x ps c' n' \<Longrightarrow> slice_run avg diff c n x ps c' n'"

inductive_cases slice_run_pos: "slice_run avg diff c n x ps c' n'"

lemma slice_run_while:
  "slice_run avg diff c n x ps c' n' \<Longrightarrow>
   slice_while avg diff c n x sl = Some (sl @ ps, c', n')"
proof (induction arbitrary: sl rule: slice_run.induct)
  case (placed x c n)
  then show ?case by (simp add: slice_while.simps [of _ _ _ _ x])
next
  case (fit x c n)
  then show ?case
    by (simp add: slice_while.simps [of _ _ _ _ x] slice_while.simps [of _ _ _ _ 0])
next
  case (slack x c n)
  then show ?case
    by (simp add: slice_while.simps [of _ _ _ _ x] slice_while.simps [of _ _ _ _ 0])
next
  case (cut x c n ps c' n')
  then show ?case by (simp add: slice_while.simps [of _ _ c n x])
next
  case (skip x c n ps c' n')
  then show ?case by (simp add: slice_while.simps [of _ _ c n x])
qed

text \<open>
  The parameters the balancers compute satisfy \<open>box_params\<close>; then every run ends: the
  size to place goes down, or a box is opened at full capacity.
\<close>

definition box_params :: "int \<Rightarrow> int \<Rightarrow> bool" where
  "box_params avg diff \<longleftrightarrow> 0 < avg \<and> 0 \<le> diff \<and> 10 * diff \<le> avg"

lemma slice_run_total:
  assumes "box_params avg diff" and "0 \<le> c" and "c \<le> avg" and "0 \<le> x"
  shows "\<exists>ps c' n'. slice_run avg diff c n x ps c' n'"
  using assms
proof (induction "nat (2 * x + (if c = avg then 0 else 1))" arbitrary: c n x rule: less_induct)
  case less
  show ?case
  proof (cases "0 < x \<and> c + diff < x")
    case False
    then show ?thesis
      by (cases "x \<le> 0"; cases "x \<le> c") (meson placed fit slack not_le)+
  next
    case True
    show ?thesis
    proof (cases "diff \<le> c")
      case cut: True
      have "nat (2 * (x - c) + (if avg = avg then 0 else 1)) <
          nat (2 * x + (if c = avg then 0 else 1))"
        using True cut less.prems by (cases "c = avg") (auto simp: box_params_def)
      then obtain ps c' n' where "slice_run avg diff avg (n + 1) (x - c) ps c' n'"
        using True cut less.prems less.hyps [of "x - c" avg "n + 1"]
        by (auto simp: box_params_def)
      moreover have "c < x" using True less.prems by (simp add: box_params_def)
      ultimately show ?thesis using slice_run.cut [of x c diff] True cut by blast
    next
      case False
      have "nat (2 * x + (if avg = avg then 0 else 1)) <
          nat (2 * x + (if c = avg then 0 else 1))"
        using True False less.prems by (auto simp: box_params_def)
      then obtain ps c' n' where "slice_run avg diff avg (n + 1) x ps c' n'"
        using True False less.prems less.hyps [of x avg "n + 1"]
        by (auto simp: box_params_def)
      moreover have "c < x" using True less.prems by (simp add: box_params_def)
      ultimately show ?thesis using slice_run.skip [of x c diff] True False by force
    qed
  qed
qed

lemma slice_run_pieces:
  "slice_run avg diff c n x ps c' n' \<Longrightarrow> box_params avg diff \<Longrightarrow> 0 \<le> c \<Longrightarrow> c \<le> avg \<Longrightarrow>
   0 \<le> x \<Longrightarrow> sum_list ps = x \<and> (\<forall>p \<in> set ps. 0 < p \<and> p \<le> avg + diff) \<and>
   0 \<le> c' \<and> c' \<le> avg \<and> n \<le> n'"
  by (induction rule: slice_run.induct) (auto simp: box_params_def)

text \<open>
  Accounting. A box that is left holds at least \<open>avg - box_waste diff\<close>: the capacity left
  behind is less than \<open>diff\<close>.
\<close>

definition box_waste :: "int \<Rightarrow> int" where
  "box_waste diff = (if diff = 0 then 0 else diff - 1)"

lemma slice_run_account:
  "slice_run avg diff c n x ps c' n' \<Longrightarrow> box_params avg diff \<Longrightarrow> 0 \<le> c \<Longrightarrow> c \<le> avg \<Longrightarrow>
   0 \<le> x \<Longrightarrow> (n' - n) * (avg - box_waste diff) + c - c' \<le> x"
  by (induction rule: slice_run.induct)
     (auto simp: box_params_def box_waste_def algebra_simps split: if_splits)

lemma slice_run_first:
  assumes "slice_run avg diff avg n x ps c' n'" and "box_params avg diff" and "0 < x"
  shows "\<exists>ps'. ps = x # ps' \<or> ps = avg # ps'"
  using assms(1) by (rule slice_run_pos) (use assms in \<open>auto simp: box_params_def\<close>)

lemma partition_while_Nil: "partition_while avg diff b i [] acc = Some acc"
  by (simp add: partition_while.simps)

lemma partition_while_fit:
  "x \<le> b \<Longrightarrow> partition_while avg diff b i (x # xs) acc =
     partition_while avg diff (b - x) i xs (acc @ [i])"
  by (subst partition_while.simps) simp

lemma partition_while_slack:
  "b < x \<Longrightarrow> x \<le> b + diff \<Longrightarrow> partition_while avg diff b i (x # xs) acc =
     partition_while avg diff 0 i xs (acc @ [i])"
  by (subst partition_while.simps) simp

lemma partition_while_open:
  "b < x \<Longrightarrow> b + diff < x \<Longrightarrow> partition_while avg diff b i (x # xs) acc =
     partition_while avg diff avg (i + 1) (x # xs) acc"
  by (subst partition_while.simps) simp

lemmas partition_while_steps =
  partition_while_Nil partition_while_fit partition_while_slack

text \<open>
  \<open>PartitionSlices\<close> with the same number of boxes follows \<open>Slice\<close> box by box: it puts the
  pieces of a run into the boxes the run used.
\<close>

lemma slice_run_partition:
  "slice_run avg diff c n x ps c' n' \<Longrightarrow> box_params avg diff \<Longrightarrow> 0 \<le> c \<Longrightarrow> c \<le> avg \<Longrightarrow>
   \<exists>ids. length ids = length ps \<and> (\<forall>i \<in> set ids. n \<le> i \<and> i \<le> n') \<and>
     (\<forall>rest acc. partition_while avg diff c n (ps @ rest) acc =
        partition_while avg diff c' n' rest (acc @ ids))"
proof (induction rule: slice_run.induct)
  case (placed x c n)
  then show ?case by (intro exI [of _ "[]"]) simp
next
  case (fit x c n)
  then show ?case by (intro exI [of _ "[n]"]) (simp add: partition_while_fit)
next
  case (slack x c n)
  then show ?case by (intro exI [of _ "[n]"]) (simp add: partition_while_slack)
next
  case (cut x c n ps c' n')
  from cut.prems cut.IH obtain ids where ids: "length ids = length ps"
    "\<forall>i \<in> set ids. n + 1 \<le> i \<and> i \<le> n'"
    "\<And>rest acc. partition_while avg diff avg (n + 1) (ps @ rest) acc =
       partition_while avg diff c' n' rest (acc @ ids)"
    by (auto simp: box_params_def)
  from cut.hyps cut.prems obtain y ps' where y: "ps = y # ps'" "diff < y"
    using slice_run_first [OF cut.hyps(5) cut.prems(1)] by (auto simp: box_params_def)
  have le: "n \<le> n'"
    using slice_run_pieces [OF cut.hyps(5) cut.prems(1)] cut.hyps cut.prems
    by (auto simp: box_params_def)
  show ?case
  proof (cases "c = 0")
    case True
    then have "partition_while avg diff c n (ps @ rest) acc =
        partition_while avg diff c' n' rest (acc @ ids)" for rest acc
      using y ids(3) cut.prems(1) by (simp add: partition_while_open box_params_def)
    with True ids show ?thesis by (intro exI [of _ ids]) auto
  next
    case False
    then have "partition_while avg diff c n (c # ps @ rest) acc =
        partition_while avg diff c' n' rest (acc @ n # ids)" for rest acc
      using y ids(3) [of rest "acc @ [n]"] cut.prems(1)
      by (simp add: partition_while_fit partition_while_open box_params_def)
    with False ids le show ?thesis by (intro exI [of _ "n # ids"]) auto
  qed
next
  case (skip x c n ps c' n')
  from skip.prems skip.IH obtain ids where ids: "length ids = length ps"
    "\<forall>i \<in> set ids. n + 1 \<le> i \<and> i \<le> n'"
    "\<And>rest acc. partition_while avg diff avg (n + 1) (ps @ rest) acc =
       partition_while avg diff c' n' rest (acc @ ids)"
    by (auto simp: box_params_def)
  from skip.hyps skip.prems obtain y ps' where y: "ps = y # ps'" "c + diff < y"
    using slice_run_first [OF skip.hyps(5) skip.prems(1)] by (auto simp: box_params_def)
  then have "partition_while avg diff c n (ps @ rest) acc =
      partition_while avg diff c' n' rest (acc @ ids)" for rest acc
    using ids(3) skip.prems(1) by (simp add: partition_while_open box_params_def)
  with ids show ?case by (intro exI [of _ ids]) auto
qed

lemma slice_for_spec:
  assumes "box_params avg diff" and "0 \<le> c" and "c \<le> avg" and "\<forall>x \<in> set sizes. 0 \<le> x"
  shows "\<exists>slices c' n' ids. slice_for avg diff c n sizes = Some (slices, n') \<and>
    map sum_list slices = sizes \<and>
    (\<forall>ps \<in> set slices. \<forall>p \<in> set ps. 0 < p \<and> p \<le> avg + diff) \<and>
    n \<le> n' \<and> c' \<le> avg \<and> (n' - n) * (avg - box_waste diff) + c - c' \<le> sum_list sizes \<and>
    length ids = length (concat slices) \<and> (\<forall>i \<in> set ids. n \<le> i \<and> i \<le> n') \<and>
    (\<forall>acc. partition_while avg diff c n (concat slices) acc = Some (acc @ ids))"
  using assms
proof (induction sizes arbitrary: c n)
  case Nil
  then show ?case
    by - (rule exI [of _ "[]"], rule exI [of _ c], rule exI [of _ n], rule exI [of _ "[]"],
          simp add: partition_while_Nil)
next
  case (Cons x sizes)
  then have x: "0 \<le> x" by simp
  from slice_run_total [OF Cons.prems(1-3) x] obtain ps c1 n1
    where run: "slice_run avg diff c n x ps c1 n1" by blast
  note pieces = slice_run_pieces [OF run Cons.prems(1-3) x]
  from slice_run_partition [OF run Cons.prems(1-3)] obtain js
    where js: "length js = length ps" "\<forall>i \<in> set js. n \<le> i \<and> i \<le> n1"
      "\<And>rest acc. partition_while avg diff c n (ps @ rest) acc =
         partition_while avg diff c1 n1 rest (acc @ js)"
    by blast
  from Cons.IH [OF Cons.prems(1), of c1 n1] pieces Cons.prems(4) obtain slices c' n' ids
    where IH: "slice_for avg diff c1 n1 sizes = Some (slices, n')"
      "map sum_list slices = sizes"
      "\<forall>ps \<in> set slices. \<forall>p \<in> set ps. 0 < p \<and> p \<le> avg + diff"
      "n1 \<le> n'" "c' \<le> avg" "(n' - n1) * (avg - box_waste diff) + c1 - c' \<le> sum_list sizes"
      "length ids = length (concat slices)" "\<forall>i \<in> set ids. n1 \<le> i \<and> i \<le> n'"
      "\<And>acc. partition_while avg diff c1 n1 (concat slices) acc = Some (acc @ ids)"
    by auto
  have "(n' - n) * (avg - box_waste diff) + c - c' \<le> x + sum_list sizes"
    using slice_run_account [OF run Cons.prems(1-3) x] IH(6) by (simp add: algebra_simps)
  then show ?case
    using IH js pieces
    by - (rule exI [of _ "ps # slices"], rule exI [of _ c'], rule exI [of _ n'],
          rule exI [of _ "js @ ids"], auto simp: slice_run_while [OF run])
qed

lemma box_params_diff: "0 < avg \<Longrightarrow> box_params avg (box_diff avg)"
proof -
  assume "0 < avg"
  then have "0 \<le> avg div 10 \<and> 10 * (avg div 10) \<le> avg" by linarith
  with \<open>0 < avg\<close> show ?thesis by (simp add: box_params_def box_diff_def)
qed

lemma box_params_avg:
  assumes "0 < num" and "\<forall>x \<in> set xs. 0 \<le> x" and "0 < sum_list xs"
  shows "box_params (box_avg num xs) (box_diff (box_avg num xs))"
    and "sum_list xs \<le> num * box_avg num xs"
proof -
  let ?S = "sum_list xs"
  have S: "?S = num * (?S div num) + ?S mod num" by simp
  have d: "0 \<le> ?S div num" "0 \<le> ?S mod num"
    using assms by (simp_all add: pos_imp_zdiv_nonneg_iff)
  have "?S div num \<noteq> 0 \<or> ?S mod num \<noteq> 0"
    using assms(3) by (metis div_mult_mod_eq add.right_neutral mult_zero_left less_irrefl)
  then have "0 < ?S div num + ?S mod num" using d by linarith
  moreover have "num * (?S div num) + ?S mod num \<le> num * (?S div num + ?S mod num)"
  proof -
    have "1 * (?S mod num) \<le> num * (?S mod num)"
      using d assms by (intro mult_right_mono) auto
    then show ?thesis unfolding distrib_left by linarith
  qed
  ultimately show "box_params (box_avg num xs) (box_diff (box_avg num xs))"
    and "?S \<le> num * box_avg num xs"
    using assms S by (simp_all add: box_params_diff box_avg_def)
qed

lemma slice_for_zero:
  "\<forall>x \<in> set sizes. x = 0 \<Longrightarrow> slice_for avg diff c n sizes = Some (map (\<lambda>_. []) sizes, n)"
  by (induction sizes) (simp_all add: slice_while.simps)

lemma sum_list_zero:
  "sum_list xs \<le> 0 \<Longrightarrow> \<forall>x \<in> set xs. 0 \<le> (x :: int) \<Longrightarrow> \<forall>x \<in> set xs. x = 0"
  by (induction xs) (auto simp: add_nonneg_eq_0_iff sum_list_nonneg dest: order_antisym)

lemma box_avg_concat:
  "map sum_list slices = sizes \<Longrightarrow> box_avg num (concat slices) = box_avg num sizes"
proof -
  assume "map sum_list slices = sizes"
  then have "sum_list (concat slices) = sum_list sizes"
    by (induction slices arbitrary: sizes) auto
  then show ?thesis by (simp add: box_avg_def)
qed

text \<open>The two balancers on the same input, for any positive number of boxes.\<close>

lemma Slice_spec:
  assumes "0 < num" and "\<forall>x \<in> set sizes. 0 \<le> x"
  shows "\<exists>slices nbox ids. Slice num sizes = Some (if nbox \<le> num then Inr slices else Inl CheckFailed) \<and>
    map sum_list slices = sizes \<and>
    (\<forall>ps \<in> set slices. \<forall>p \<in> set ps. 0 < p \<and> p \<le> box_avg num sizes + box_diff (box_avg num sizes)) \<and>
    PartitionSlices num (concat slices) = Some (Inr ids) \<and>
    length ids = length (concat slices) \<and> (\<forall>i \<in> set ids. 0 \<le> i \<and> i \<le> nbox) \<and>
    (num \<le> 9 \<longrightarrow> nbox \<le> num)"
proof (cases "sum_list sizes \<le> 0")
  case True
  then have z: "\<forall>x \<in> set sizes. x = 0" using assms(2) by (rule sum_list_zero)
  have c: "concat (map (\<lambda>_. [] :: int list) sizes) = []" by (induction sizes) simp_all
  have "map sum_list (map (\<lambda>_. []) sizes) = sizes"
    using z by (induction sizes) simp_all
  moreover have "Slice num sizes = Some (Inr (map (\<lambda>_. []) sizes))"
    using assms z by (simp add: Slice_def slice_for_zero)
  moreover have "PartitionSlices num (concat (map (\<lambda>_. []) sizes)) = Some (Inr [])"
    unfolding c by (simp add: PartitionSlices_def partition_while_Nil)
  ultimately show ?thesis
    using assms
    by - (rule exI [of _ "map (\<lambda>_. []) sizes"], rule exI [of _ 0], rule exI [of _ "[]"], simp)
next
  case False
  let ?avg = "box_avg num sizes" and ?diff = "box_diff (box_avg num sizes)"
  have bp: "box_params ?avg ?diff" and S: "sum_list sizes \<le> num * ?avg"
    using assms False by (simp_all add: box_params_avg)
  then have "0 \<le> ?avg" by (simp add: box_params_def)
  from slice_for_spec [OF bp this order_refl assms(2), of 0] obtain slices c' nbox ids
    where r: "slice_for ?avg ?diff ?avg 0 sizes = Some (slices, nbox)"
      "map sum_list slices = sizes"
      "\<forall>ps \<in> set slices. \<forall>p \<in> set ps. 0 < p \<and> p \<le> ?avg + ?diff"
      "c' \<le> ?avg" "nbox * (?avg - box_waste ?diff) + ?avg - c' \<le> sum_list sizes"
      "length ids = length (concat slices)" "\<forall>i \<in> set ids. 0 \<le> i \<and> i \<le> nbox"
      "partition_while ?avg ?diff ?avg 0 (concat slices) [] = Some ids"
    by (metis (no_types, lifting) append_Nil diff_zero)
  have "nbox \<le> num" if "num \<le> 9"
  proof (rule ccontr)
    assume "\<not> nbox \<le> num"
    then have "(num + 1) * (?avg - box_waste ?diff) \<le> nbox * (?avg - box_waste ?diff)"
      using bp by (intro mult_right_mono) (auto simp: box_params_def box_waste_def)
    also have "\<dots> \<le> num * ?avg" using r(4,5) S by linarith
    finally have "?avg \<le> (num + 1) * box_waste ?diff" by (simp add: algebra_simps)
    also have "\<dots> \<le> 10 * box_waste ?diff"
      using that bp by (intro mult_right_mono) (auto simp: box_params_def box_waste_def)
    finally show False using bp by (auto simp: box_params_def box_waste_def split: if_splits)
  qed
  then show ?thesis
    using assms r box_avg_concat [OF r(2), of num]
    by - (rule exI [of _ slices], rule exI [of _ nbox], rule exI [of _ ids],
          simp add: Slice_def PartitionSlices_def Let_def)
qed

text \<open>
  When a slice is larger than a fresh box with its slack, \<open>PartitionSlices\<close> opens boxes for
  ever.
\<close>

lemma partition_while_diverges:
  assumes "avg + diff < x" and "avg < x" and "b < x" and "b + diff < x"
  shows "partition_while avg diff b i (x # xs) acc = None"
proof (rule ccontr)
  assume "partition_while avg diff b i (x # xs) acc \<noteq> None"
  then obtain r where ret: "partition_while avg diff b i (x # xs) acc = Some r" by blast
  have "\<not> (\<exists>x xs. sl = x # xs \<and> avg + diff < x \<and> avg < x \<and> b < x \<and> b + diff < x)"
    if "partition_while avg diff b i sl acc = Some r" for avg diff b i sl acc r
    using that
  proof (rule partition_while.raw_induct [where P = "\<lambda>avg diff b i sl acc r.
      \<not> (\<exists>x xs. sl = x # xs \<and> avg + diff < x \<and> avg < x \<and> b < x \<and> b + diff < x)", rotated])
  qed (fastforce split: list.splits if_splits)
  from this [OF ret] assms show False by blast
qed

section \<open>Correctness of the helpers\<close>

lemma gcd_smod: "gcd (a smod b) b = gcd a (b :: int)"
proof -
  have "a smod b = - (a sdiv b) * b + a"
    by (simp add: minus_sdiv_mult_eq_smod [symmetric])
  then have "gcd (a smod b) b = gcd (- (a sdiv b) * b + a) b" by (simp only:)
  also have "\<dots> = gcd b (- (a sdiv b) * b + a)" by (rule gcd.commute)
  also have "\<dots> = gcd b a" by (rule gcd_add_mult)
  finally show ?thesis by (simp add: gcd.commute)
qed

lemma gcd_c_is_gcd_aux: "\<bar>gcd_c a b\<bar> = gcd a b"
proof (induction a b rule: gcd_c.induct)
  case (1 a b)
  show ?case
  proof (cases "a = 0 \<or> b smod a = 0")
    case True
    then have "a \<noteq> 0 \<Longrightarrow> gcd a b = \<bar>a\<bar>"
      using gcd_smod [of b a] by (simp add: gcd.commute)
    with True show ?thesis by (subst gcd_c.simps) (auto simp: Let_def)
  next
    case False
    with 1 have "\<bar>gcd_c (a smod (b smod a)) (b smod a)\<bar> = gcd (a smod (b smod a)) (b smod a)"
      by simp
    also have "\<dots> = gcd a b" by (metis gcd_smod gcd.commute)
    finally show ?thesis using False by (subst gcd_c.simps) (simp add: Let_def)
  qed
qed

text \<open>
  The loop \<open>gcd\<close> of \<open>common.cc\<close> returns the greatest common divisor, up to the sign
  that C's truncating remainder leaves.
\<close>

theorem gcd_c_is_gcd: "\<bar>gcd_c a b\<bar> = gcd a b"
  by (rule gcd_c_is_gcd_aux)

lemma gcd_c_nonneg: "0 \<le> a \<Longrightarrow> 0 \<le> b \<Longrightarrow> 0 \<le> gcd_c a b"
proof (induction a b rule: gcd_c.induct)
  case (1 a b)
  then show ?case
    by (subst gcd_c.simps) (simp add: Let_def)
qed

text \<open>
  On the group counts it is called with, \<open>LeastCommonMultiple\<close> returns the least
  common multiple, and 0 when one of them is 0.
\<close>

theorem LeastCommonMultiple_is_lcm:
  assumes "0 \<le> a" and "0 \<le> b"
  shows "LeastCommonMultiple a b = lcm a b"
proof -
  have g: "gcd_c a b = gcd a b"
    using gcd_c_is_gcd_aux [of a b] gcd_c_nonneg [OF assms] by simp
  show ?thesis
  proof (cases "gcd a b = 0")
    case False
    then have "a div gcd a b * b = a * b div gcd a b"
      by (metis dvd_div_mult gcd_dvd1)
    with False g assms show ?thesis
      by (simp add: LeastCommonMultiple_def lcm_altdef_int Let_def)
  qed (simp add: LeastCommonMultiple_def g Let_def)
qed

theorem LeastCommonMultiple_is_lcm_witness: "LeastCommonMultiple 4 6 = 12 \<and> lcm 4 6 = (12 :: int)"
proof -
  have "LeastCommonMultiple 4 6 = 12" by code_simp
  then show ?thesis using LeastCommonMultiple_is_lcm [of 4 6] by simp
qed



text \<open>
  Up to nine boxes the \<open>CHECK\<close> on the number of boxes cannot fail: \<open>Slice\<close> succeeds.
\<close>

theorem Slice_succeeds_up_to_nine:
  assumes "0 < num" and "num \<le> 9" and "\<forall>x \<in> set sizes. 0 \<le> x"
  shows "\<exists>slices. Slice num sizes = Some (Inr slices)"
  using Slice_spec [OF assms(1,3)] assms(2) by auto

theorem Slice_succeeds_up_to_nine_witness: "\<exists>slices. Slice 9 [70, 0, 31] = Some (Inr slices)"
  using Slice_succeeds_up_to_nine [of 9 "[70, 0, 31]"] by simp

text \<open>
  Beyond nine boxes the \<open>CHECK\<close> aborts on an ordinary configuration: twenty servers and
  twenty-two parameters of 100 floats.
\<close>

theorem Slice_aborts_on_twenty: "Slice 20 (replicate 22 100) = Some (Inl CheckFailed)"
  by code_simp

text \<open>
  C32. \<open>PartitionSlices\<close> over the slices that \<open>Slice\<close> made for the same number of boxes
  returns a box for every slice, and no box number exceeds the number of boxes.
\<close>

theorem PartitionSlices_after_Slice:
  assumes "0 < num" and "\<forall>x \<in> set sizes. 0 \<le> x" and "Slice num sizes = Some (Inr slices)"
  shows "\<exists>ids. PartitionSlices num (concat slices) = Some (Inr ids) \<and>
    length ids = length (concat slices) \<and> (\<forall>i \<in> set ids. 0 \<le> i \<and> i \<le> num)"
proof -
  from Slice_spec [OF assms(1,2)] assms(3) obtain nbox ids
    where "PartitionSlices num (concat slices) = Some (Inr ids)"
      "length ids = length (concat slices)" "\<forall>i \<in> set ids. 0 \<le> i \<and> i \<le> nbox" "nbox \<le> num"
    by (auto split: if_splits)
  then show ?thesis by (intro exI [of _ ids]) fastforce
qed

theorem PartitionSlices_after_Slice_witness:
  "\<exists>ids. PartitionSlices 2 [4, 2, 2, 4] = Some (Inr ids) \<and> length ids = 4"
proof -
  have "Slice 2 [4, 4, 4] = Some (Inr [[4], [2, 2], [4]])" by code_simp
  then show ?thesis using PartitionSlices_after_Slice [of 2 "[4, 4, 4]"] by fastforce
qed

text \<open>
  The bound is attained: with three boxes, \<open>Slice\<close> accepts the sizes 28, 28, 34 and
  \<open>PartitionSlices\<close> then names box 3, although the boxes are 0, 1 and 2.
\<close>

theorem PartitionSlices_names_missing_box:
  "Slice 3 [28, 28, 34] = Some (Inr [[28], [28], [30, 4]]) \<and>
   PartitionSlices 3 [28, 28, 30, 4] = Some (Inr [0, 1, 2, 3])"
  by code_simp

text \<open>
  \<open>SliceParams\<close> cuts for the least common multiple of the group counts and
  \<open>SetupWorkerServer\<close> partitions for each count; on a net of 11 floats with three server
  groups of two servers the partition loop never ends.
\<close>

theorem PartitionSlices_diverges_after_Slice:
  "Slice (LeastCommonMultiple 3 2) [11] = Some (Inr [[6, 5]]) \<and> PartitionSlices 3 [6, 5] = None"
proof
  show "Slice (LeastCommonMultiple 3 2) [11] = Some (Inr [[6, 5]])" by code_simp
  show "PartitionSlices 3 [6, 5] = None"
    by (simp add: PartitionSlices_def box_avg_def box_diff_def partition_while_diverges Let_def)
qed

lemma Metric_Add_Some: "entry nm = Some (c, s) \<Longrightarrow> Metric_Add nm v entry = entry(nm \<mapsto> (c + 1, s + v))"
  by (simp add: Metric_Add_def)

lemma fold_Metric_Add:
  "entry nm = Some (c, s) \<Longrightarrow>
   fold (Metric_Add nm) vs entry = entry(nm \<mapsto> (c + int (length vs), foldl (+) s vs))"
proof (induction vs arbitrary: entry c s)
  case (Cons v vs)
  have "fold (Metric_Add nm) (v # vs) entry = fold (Metric_Add nm) vs (entry(nm \<mapsto> (c + 1, s + v)))"
    using Cons.prems by (simp only: fold_simps Metric_Add_Some)
  also have "\<dots> = entry(nm \<mapsto> (c + 1 + int (length vs), foldl (+) (s + v) vs))"
    using Cons.IH [of "entry(nm \<mapsto> (c + 1, s + v))" "c + 1" "s + v"]
    by (simp only: fun_upd_same fun_upd_upd)
  finally show ?case by (simp add: add.assoc add.commute [of 1])
qed auto

text \<open>
  Adding values under a new name counts them and accumulates them in order, and leaves
  every other name alone.
\<close>

theorem Metric_Add_accumulates:
  assumes "entry nm = None"
  shows "fold (Metric_Add nm) (v # vs) entry = entry(nm \<mapsto> (1 + int (length vs), foldl (+) v vs))"
  using assms by (simp add: Metric_Add_def [of nm v entry] fold_Metric_Add [of _ nm 1 v])

theorem Metric_Add_accumulates_witness:
  "fold (Metric_Add ''loss'') [2, 3 :: int] Map.empty = [''loss'' \<mapsto> (2, 5)]"
  using Metric_Add_accumulates [of Map.empty "''loss''" 2 "[3 :: int]"] by simp

lemma metric_parse_loop_map:
  "length cs = length ns \<Longrightarrow> length vs = length ns \<Longrightarrow>
   metric_parse_loop ns cs vs entry = Inr (entry(ns [\<mapsto>] zip cs vs))"
proof (induction ns arbitrary: cs vs entry)
  case (Cons n ns)
  then obtain c cs' v vs' where "cs = c # cs'" "vs = v # vs'" by (metis Suc_length_conv)
  with Cons show ?case by (simp del: fun_upd_apply)
qed simp

lemma map_upds_map: "m(ks [\<mapsto>] map f ks) = (\<lambda>k. if k \<in> set ks then Some (f k) else m k)"
proof (induction ks arbitrary: m)
  case (Cons k ks)
  show ?case
    unfolding list.map map_upds_Cons Cons.IH by (auto simp: fun_eq_iff)
qed simp

text \<open>
  A metric that was written with \<open>ToString\<close>, whatever the order of its hash map, is read
  back by \<open>ParseFrom\<close> into an empty metric unchanged.
\<close>

theorem Metric_roundtrip:
  assumes "set ks = dom entry"
  shows "Metric_ParseFrom (Metric_ToString ks entry) Map.empty = Inr entry"
proof -
  have "zip (map (\<lambda>k. fst (the (entry k))) ks) (map (\<lambda>k. snd (the (entry k))) ks) =
      map (\<lambda>k. the (entry k)) ks"
    by (induction ks) simp_all
  moreover have "[ks [\<mapsto>] map (\<lambda>k. the (entry k)) ks] = entry"
    unfolding map_upds_map
    by (rule ext) (metis assms domIff option.collapse)
  ultimately show ?thesis
    by (simp add: Metric_ParseFrom_def Metric_ToString_def Metric_Reset_def metric_parse_loop_map)
qed

theorem Metric_roundtrip_witness:
  "Metric_ParseFrom (Metric_ToString [''b'', ''a''] [''a'' \<mapsto> (1, 7 :: int), ''b'' \<mapsto> (2, 5)]) Map.empty =
   Inr [''a'' \<mapsto> (1, 7), ''b'' \<mapsto> (2, 5)]"
  by (rule Metric_roundtrip) auto

text \<open>
  \<open>Reset\<close> does not reset: after it every entry still has its count and value, so the
  counters of the next display period start from the old ones.
\<close>

theorem Metric_Reset_keeps_entries:
  "Metric_Reset (Metric_Add nm v Map.empty) nm = Some (1, v)"
  by (simp add: Metric_Reset_def Metric_Add_def)

end
