(* ===== verification/Msg.thy ===== *)
theory Msg
  imports Prelude
begin

text \<open>
  Model of \<open>src/include/communication/msg.h\<close> and \<open>src/src/communication/msg.cc\<close>.

  \<^item> Addresses: \<open>Addr\<close> packs group, id and entity type into one \<open>int\<close>.
  \<^item> Format frames at byte level: \<open>AddFormatFrame\<close> and \<open>ParseFormatFrame\<close> with the layout
    the code writes. The byte images of \<open>float\<close> and \<open>void*\<close> are the argument \<open>R\<close>.
  \<^item> Messages: the fields of \<open>class Msg\<close>, its frames and its cursor, over frames that keep
    their fields (\<open>frame\<close>); \<open>enc_frame\<close> gives the bytes of such a frame. The lemmas on
    \<open>enc_frame\<close> show that parsing the bytes and parsing the fields agree, so the other
    components work with the fields.
  \<^item> The message header that \<open>DumpToZmsg\<close> prints and \<open>ParseFromZmsg\<close> scans.
\<close>

section \<open>Enumerations of the protocol\<close>

text \<open>\<open>EntityType\<close> and \<open>MsgType\<close> of \<open>src/src/proto/common.proto\<close>.\<close>

definition kWorkerParam :: int where "kWorkerParam = 0"
definition kWorkerLayer :: int where "kWorkerLayer = 1"
definition kServer :: int where "kServer = 2"
definition kStub :: int where "kStub = 3"
definition kRuntime :: int where "kRuntime = 4"

lemmas entity_defs = kWorkerParam_def kWorkerLayer_def kServer_def kStub_def kRuntime_def

text \<open>Message types.\<close>

definition kGet :: int where "kGet = 0"
definition kPut :: int where "kPut = 1"
definition kSync :: int where "kSync = 2"
definition kUpdate :: int where "kUpdate = 3"
definition kSyncRequest :: int where "kSyncRequest = 4"
definition kSyncResponse :: int where "kSyncResponse = 5"
definition kStop :: int where "kStop = 6"
definition kData :: int where "kData = 7"
definition kRGet :: int where "kRGet = 8"
definition kRUpdate :: int where "kRUpdate = 9"
definition kConnect :: int where "kConnect = 10"
definition kMetric :: int where "kMetric = 11"
definition kSyncReminder :: int where "kSyncReminder = 12"

lemmas msg_type_defs = kGet_def kPut_def kSync_def kUpdate_def kSyncRequest_def kSyncResponse_def
  kStop_def kData_def kRGet_def kRUpdate_def kConnect_def kMetric_def kSyncReminder_def

section \<open>Addresses\<close>

definition Addr :: "int \<Rightarrow> int \<Rightarrow> int \<Rightarrow> int" where
  "Addr grp id_or_proc ty = c_int (push_bit 16 grp OR push_bit 8 id_or_proc OR ty)"

definition AddrGrp :: "int \<Rightarrow> int" where
  "AddrGrp addr = drop_bit 16 addr"

definition AddrID :: "int \<Rightarrow> int" where
  "AddrID addr = drop_bit 8 addr AND (push_bit 8 1 - 1)"

definition AddrProc :: "int \<Rightarrow> int" where
  "AddrProc addr = AddrID addr"

definition AddrType :: "int \<Rightarrow> int" where
  "AddrType addr = addr AND (push_bit 8 1 - 1)"

section \<open>Format frames at byte level\<close>

text \<open>
  A field of a format frame: the arguments of the variadic call, one constructor per format
  character.
\<close>

datatype ('f, 'p) field =
  FI int | FF 'f | F1 int | F2 int | F4 int | FS string | FP 'p

text \<open>How the machine stores a \<open>float\<close> and a \<open>void*\<close>.\<close>

record ('f, 'p) repr =
  fenc :: "'f \<Rightarrow> bytes"
  fdec :: "bytes \<Rightarrow> 'f"
  penc :: "'p \<Rightarrow> bytes"
  pdec :: "bytes \<Rightarrow> 'p"

definition FMARKER :: string where
  "FMARKER = ''*singa*''"

definition kMaxFrameLen :: nat where
  "kMaxFrameLen = 2048"

text \<open>
  One round of the writing loop: the bytes appended for the format character \<open>c\<close> and the
  arguments left. Taking an argument of another type with \<open>va_arg\<close> is undefined.
\<close>

definition put_field ::
  "('f, 'p) repr \<Rightarrow> char \<Rightarrow> ('f, 'p) field list \<Rightarrow> (bytes \<times> ('f, 'p) field list) res" where
  "put_field R c args =
     (if c = CHR ''i'' then
        (case args of FI x # as \<Rightarrow> Inr (CHR ''i'' # le_bytes 4 x, as) | _ \<Rightarrow> Inl Undefined)
      else if c = CHR ''f'' then
        (case args of FF x # as \<Rightarrow> Inr (CHR ''f'' # fenc R x, as) | _ \<Rightarrow> Inl Undefined)
      else if c = CHR ''1'' then
        (case args of F1 x # as \<Rightarrow> Inr (le_bytes 1 x, as) | _ \<Rightarrow> Inl Undefined)
      else if c = CHR ''2'' then
        (case args of F2 x # as \<Rightarrow> Inr (le_bytes 2 x, as) | _ \<Rightarrow> Inl Undefined)
      else if c = CHR ''4'' then
        (case args of F4 x # as \<Rightarrow> Inr (le_bytes 4 x, as) | _ \<Rightarrow> Inl Undefined)
      else if c = CHR ''s'' then
        (case args of FS x # as \<Rightarrow> Inr (CHR ''s'' # cstr x @ [NUL], as) | _ \<Rightarrow> Inl Undefined)
      else if c = CHR ''p'' then
        (case args of FP x # as \<Rightarrow> Inr (CHR ''p'' # penc R x, as) | _ \<Rightarrow> Inl Undefined)
      else Inr ([], args))"

text \<open>
  The buffer \<open>dst\<close> has \<open>kMaxFrameLen\<close> bytes and the \<open>CHECK_LE\<close> comes after the copy, so a
  frame that is too long has already been written past the end: undefined.
\<close>

fun add_loop ::
  "('f, 'p) repr \<Rightarrow> string \<Rightarrow> ('f, 'p) field list \<Rightarrow> bytes \<Rightarrow> bytes res" where
  "add_loop R [] args dst = Inr dst"
| "add_loop R (c # format) args dst =
     bindR (put_field R c args) (\<lambda>(b, as).
       checkR (length (dst @ b) \<le> kMaxFrameLen) Undefined
         (add_loop R format as (dst @ b)))"

definition AddFormatFrame_bytes ::
  "('f, 'p) repr \<Rightarrow> string \<Rightarrow> ('f, 'p) field list \<Rightarrow> bytes res" where
  "AddFormatFrame_bytes R format args = add_loop R format args (FMARKER @ [NUL])"

text \<open>Reading: a tag that is checked, and \<open>n\<close> bytes copied out of the frame.\<close>

definition read_tag :: "char \<Rightarrow> bytes \<Rightarrow> nat \<Rightarrow> 'a res \<Rightarrow> 'a res" where
  "read_tag c src sz k =
     checkR (sz < length src) Undefined (checkR (src ! sz = c) CheckFailed k)"

definition read_mem :: "nat \<Rightarrow> bytes \<Rightarrow> nat \<Rightarrow> bytes res" where
  "read_mem n src sz =
     checkR (sz + n \<le> length src) Undefined (Inr (segment sz n src))"

text \<open>
  In the \<open>'s'\<close> case the length is taken at the tag, before \<open>size\<close> moves past it, so it counts
  the tag and the position ends one byte behind the field.
\<close>

definition get_field ::
  "('f, 'p) repr \<Rightarrow> char \<Rightarrow> bytes \<Rightarrow> nat \<Rightarrow> (('f, 'p) field list \<times> nat) res" where
  "get_field R c src sz =
     (if c = CHR ''i'' then
        read_tag (CHR ''i'') src sz (bindR (read_mem 4 src (sz + 1))
          (\<lambda>b. Inr ([FI (c_int (le_val b))], sz + 1 + 4)))
      else if c = CHR ''f'' then
        read_tag (CHR ''f'') src sz (bindR (read_mem 4 src (sz + 1))
          (\<lambda>b. Inr ([FF (fdec R b)], sz + 1 + 4)))
      else if c = CHR ''1'' then
        bindR (read_mem 1 src sz) (\<lambda>b. Inr ([F1 (le_val b)], sz + 1))
      else if c = CHR ''2'' then
        bindR (read_mem 2 src sz) (\<lambda>b. Inr ([F2 (le_val b)], sz + 2))
      else if c = CHR ''4'' then
        bindR (read_mem 4 src sz) (\<lambda>b. Inr ([F4 (le_val b)], sz + 4))
      else if c = CHR ''s'' then
        checkR (sz < length src) Undefined
          (let len = length (cstr (drop sz src)) in
           read_tag (CHR ''s'') src sz (bindR (read_mem len src (sz + 1))
             (\<lambda>b. Inr ([FS (cstr b)], sz + 1 + (len + 1)))))
      else if c = CHR ''p'' then
        read_tag (CHR ''p'') src sz (bindR (read_mem 8 src (sz + 1))
          (\<lambda>b. Inr ([FP (pdec R b)], sz + 1 + 8)))
      else Inr ([], sz))"

fun parse_loop ::
  "('f, 'p) repr \<Rightarrow> string \<Rightarrow> bytes \<Rightarrow> nat \<Rightarrow> (('f, 'p) field list \<times> nat) res" where
  "parse_loop R [] src sz = Inr ([], sz)"
| "parse_loop R (c # format) src sz =
     bindR (get_field R c src sz) (\<lambda>(xs, sz').
       bindR (parse_loop R format src sz') (\<lambda>(ys, sz''). Inr (xs @ ys, sz'')))"

text \<open>\<open>zframe_strdup\<close> copies the frame and adds a terminating zero byte.\<close>

definition ParseFormatFrame_bytes ::
  "('f, 'p) repr \<Rightarrow> string \<Rightarrow> bytes \<Rightarrow> (('f, 'p) field list \<times> nat) res" where
  "ParseFormatFrame_bytes R format frame =
     (let src = frame @ [NUL] in
      checkR (cstr src = FMARKER) CheckFailed (parse_loop R format src (length FMARKER + 1)))"

section \<open>Frames and messages\<close>

text \<open>
  A frame as its sender built it: a format frame with its fields, an array of floats, or
  plain bytes.
\<close>

datatype ('f, 'p) frame =
  Fmt "('f, 'p) field list" | Floats "'f list" | Raw bytes

fun field_char :: "('f, 'p) field \<Rightarrow> char" where
  "field_char (FI _) = CHR ''i''"
| "field_char (FF _) = CHR ''f''"
| "field_char (F1 _) = CHR ''1''"
| "field_char (F2 _) = CHR ''2''"
| "field_char (F4 _) = CHR ''4''"
| "field_char (FS _) = CHR ''s''"
| "field_char (FP _) = CHR ''p''"

fun enc_field :: "('f, 'p) repr \<Rightarrow> ('f, 'p) field \<Rightarrow> bytes" where
  "enc_field R (FI x) = CHR ''i'' # le_bytes 4 x"
| "enc_field R (FF x) = CHR ''f'' # fenc R x"
| "enc_field R (F1 x) = le_bytes 1 x"
| "enc_field R (F2 x) = le_bytes 2 x"
| "enc_field R (F4 x) = le_bytes 4 x"
| "enc_field R (FS x) = CHR ''s'' # cstr x @ [NUL]"
| "enc_field R (FP x) = CHR ''p'' # penc R x"

fun enc_frame :: "('f, 'p) repr \<Rightarrow> ('f, 'p) frame \<Rightarrow> bytes" where
  "enc_frame R (Fmt fs) = FMARKER @ [NUL] @ concat (map (enc_field R) fs)"
| "enc_frame R (Floats xs) = concat (map (fenc R) xs)"
| "enc_frame R (Raw b) = b"

text \<open>The sizes of those bytes: a float has four, a pointer eight.\<close>

fun field_size :: "('f, 'p) field \<Rightarrow> nat" where
  "field_size (FI _) = 5"
| "field_size (FF _) = 5"
| "field_size (F1 _) = 1"
| "field_size (F2 _) = 2"
| "field_size (F4 _) = 4"
| "field_size (FS x) = length (cstr x) + 2"
| "field_size (FP _) = 9"

fun frame_size :: "('f, 'p) frame \<Rightarrow> nat" where
  "frame_size (Fmt fs) = length FMARKER + 1 + sum_list (map field_size fs)"
| "frame_size (Floats xs) = 4 * length xs"
| "frame_size (Raw b) = length b"

text \<open>
  \<open>class Msg\<close>. \<open>fptr\<close> is \<open>frame_\<close>, which points to a frame of the message; \<open>zcur\<close> is the cursor of the
  \<open>zmsg_t\<close>, which \<open>zmsg_first\<close>, \<open>zmsg_last\<close> and \<open>zmsg_next\<close> set and every change of the
  frame list leaves undetermined.
\<close>

record ('f, 'p) Msg =
  msg_src :: int
  msg_dst :: int
  msg_type :: int
  trgt_val :: int
  trgt_version :: int
  frames :: "('f, 'p) frame list"
  fptr :: "nat option"
  zcur :: "nat option"

definition Msg_new :: "int \<Rightarrow> int \<Rightarrow> ('f, 'p) Msg" where
  "Msg_new s d = \<lparr>msg_src = s, msg_dst = d, msg_type = 0, trgt_val = 0, trgt_version = 0, frames = [],
     fptr = None, zcur = None\<rparr>"

text \<open>The copy constructor copies the frames and leaves \<open>frame_\<close> null.\<close>

definition Msg_copy :: "('f, 'p) Msg \<Rightarrow> ('f, 'p) Msg" where
  "Msg_copy m = m\<lparr>fptr := None, zcur := None\<rparr>"

definition SwapAddr :: "('f, 'p) Msg \<Rightarrow> ('f, 'p) Msg" where
  "SwapAddr m = m\<lparr>msg_src := msg_dst m, msg_dst := msg_src m\<rparr>"

definition set_trgt :: "int \<Rightarrow> int \<Rightarrow> ('f, 'p) Msg \<Rightarrow> ('f, 'p) Msg" where
  "set_trgt v ver m = m\<lparr>trgt_val := v, trgt_version := ver\<rparr>"

definition Msg_size :: "('f, 'p) Msg \<Rightarrow> nat" where
  "Msg_size m = sum_list (map frame_size (frames m))"

definition AddFrame :: "('f, 'p) frame \<Rightarrow> ('f, 'p) Msg \<Rightarrow> ('f, 'p) Msg" where
  "AddFrame fr m = m\<lparr>frames := frames m @ [fr], zcur := None\<rparr>"

definition cur_frame :: "('f, 'p) Msg \<Rightarrow> ('f, 'p) frame res" where
  "cur_frame m =
     (case fptr m of
        None \<Rightarrow> Inl Undefined
      | Some i \<Rightarrow> if i < length (frames m) then Inr (frames m ! i) else Inl Undefined)"

definition FrameSize :: "('f, 'p) Msg \<Rightarrow> int res" where
  "FrameSize m = bindR (cur_frame m) (\<lambda>fr. Inr (int (frame_size fr)))"

text \<open>\<open>FrameData\<close> read as an array of floats, and written through.\<close>

definition FrameFloats :: "('f, 'p) Msg \<Rightarrow> 'f list res" where
  "FrameFloats m =
     bindR (cur_frame m) (\<lambda>fr. case fr of Floats xs \<Rightarrow> Inr xs | _ \<Rightarrow> Inl Undefined)"

definition FrameBytes :: "('f, 'p) Msg \<Rightarrow> bytes res" where
  "FrameBytes m =
     bindR (cur_frame m) (\<lambda>fr. case fr of Raw b \<Rightarrow> Inr b | _ \<Rightarrow> Inl Undefined)"

definition SetFrameFloats :: "'f list \<Rightarrow> ('f, 'p) Msg \<Rightarrow> ('f, 'p) Msg res" where
  "SetFrameFloats xs m =
     bindR (FrameFloats m) (\<lambda>old.
       checkR (length xs = length old) Undefined
         (Inr (m\<lparr>frames := (frames m)[the (fptr m) := Floats xs]\<rparr>)))"

definition frame_at :: "nat \<Rightarrow> ('f, 'p) Msg \<Rightarrow> ('f, 'p) Msg" where
  "frame_at i m =
     (let p = (if i < length (frames m) then Some i else None) in m\<lparr>fptr := p, zcur := p\<rparr>)"

definition FirstFrame :: "('f, 'p) Msg \<Rightarrow> ('f, 'p) Msg" where
  "FirstFrame m = frame_at 0 m"

definition LastFrame :: "('f, 'p) Msg \<Rightarrow> ('f, 'p) Msg" where
  "LastFrame m = frame_at (length (frames m) - 1) m"

definition NextFrame :: "('f, 'p) Msg \<Rightarrow> (bool \<times> ('f, 'p) Msg) res" where
  "NextFrame m =
     (case zcur m of
        None \<Rightarrow> Inl Undefined
      | Some i \<Rightarrow> let m' = frame_at (i + 1) m in Inr (fptr m' \<noteq> None, m'))"

text \<open>
  Format frames with their fields. \<open>AddFormatFrame\<close> gives the frame the byte-level routine
  writes, \<open>ParseFormatFrame\<close> compares the tags as the byte-level routine does.
\<close>

definition AddFormatFrame :: "('f, 'p) field list \<Rightarrow> ('f, 'p) Msg \<Rightarrow> (int \<times> ('f, 'p) Msg) res" where
  "AddFormatFrame fs m =
     checkR (frame_size (Fmt fs) \<le> kMaxFrameLen) Undefined
       (Inr (int (frame_size (Fmt fs)), AddFrame (Fmt fs) m))"

fun parse_fields :: "string \<Rightarrow> ('f, 'p) field list \<Rightarrow> ('f, 'p) field list res" where
  "parse_fields [] fs = Inr []"
| "parse_fields (c # format) (x # fs) =
     checkR (c = field_char x) CheckFailed
       (bindR (parse_fields format fs) (\<lambda>xs. Inr (x # xs)))"
| "parse_fields (c # format) [] = Inl CheckFailed"

definition parse_frame :: "string \<Rightarrow> ('f, 'p) frame \<Rightarrow> ('f, 'p) field list res" where
  "parse_frame format fr =
     (case fr of Fmt fs \<Rightarrow> parse_fields format fs | _ \<Rightarrow> Inl CheckFailed)"

definition ParseFormatFrame :: "string \<Rightarrow> ('f, 'p) Msg \<Rightarrow> ('f, 'p) field list res" where
  "ParseFormatFrame format m = bindR (cur_frame m) (parse_frame format)"

section \<open>The message header\<close>

text \<open>\<open>sscanf(tmp, "%d %d ...")\<close> stops at the first conversion that fails.\<close>

fun scan_ds :: "nat \<Rightarrow> string \<Rightarrow> int list" where
  "scan_ds 0 s = []"
| "scan_ds (Suc n) s = (case scan_d s of None \<Rightarrow> [] | Some (x, rest) \<Rightarrow> x # scan_ds n rest)"

definition print_header :: "int list \<Rightarrow> string" where
  "print_header xs = concat (map (\<lambda>x. print_d x @ '' '') (butlast xs)) @ print_d (last xs)"

definition DumpToZmsg :: "('f, 'p) Msg \<Rightarrow> ('f, 'p) frame list" where
  "DumpToZmsg m =
     Raw (print_header [msg_src m, msg_dst m, msg_type m, trgt_val m, trgt_version m]) # frames m"

definition ParseFromZmsg :: "('f, 'p) frame list \<Rightarrow> ('f, 'p) Msg \<Rightarrow> ('f, 'p) Msg res" where
  "ParseFromZmsg z m =
     (case z of
        Raw hdr # rest \<Rightarrow>
          (let xs = scan_ds 5 (cstr hdr);
               field = (\<lambda>i old. if i < length xs then xs ! i else old) in
           Inr (FirstFrame (m\<lparr>msg_src := field 0 (msg_src m), msg_dst := field 1 (msg_dst m),
             msg_type := field 2 (msg_type m), trgt_val := field 3 (trgt_val m),
             trgt_version := field 4 (trgt_version m), frames := rest\<rparr>)))
      | _ \<Rightarrow> Inl Undefined)"

section \<open>Addresses: round trip\<close>

lemma or_eq_add: "0 \<le> y \<Longrightarrow> y < 2 ^ n \<Longrightarrow> push_bit n x OR y = push_bit n x + (y :: int)"
proof -
  assume "0 \<le> y" "y < 2 ^ n"
  then have "take_bit n y = y" by (simp add: take_bit_int_eq_self)
  then have y: "bit y k \<Longrightarrow> k < n" for k by (metis bit_take_bit_iff)
  show ?thesis
  proof (rule disjunctive_add [symmetric])
    fix k
    show "\<not> bit (push_bit n x) k \<or> \<not> bit y k"
      using y [of k] by (auto simp: bit_push_bit_iff)
  qed
qed

lemma Addr_eq_add:
  assumes "0 \<le> i" and "i < 256" and "0 \<le> ty" and "ty < 256"
  shows "push_bit 16 grp OR push_bit 8 i OR ty = grp * 65536 + i * 256 + (ty :: int)"
proof -
  have "push_bit 8 i OR ty = push_bit 8 i + ty"
    using assms by (intro or_eq_add) simp_all
  moreover have "push_bit 16 grp OR (push_bit 8 i + ty) = push_bit 16 grp + (push_bit 8 i + ty)"
    using assms by (intro or_eq_add) (simp_all add: push_bit_eq_mult)
  ultimately show ?thesis by (simp add: push_bit_eq_mult)
qed

lemma Addr_eq:
  assumes "- 32768 \<le> grp" and "grp < 32768" and "0 \<le> i" and "i < 256" and "0 \<le> ty" and "ty < 256"
  shows "Addr grp i ty = grp * 65536 + i * 256 + ty"
proof -
  have "is_c_int (grp * 65536 + i * 256 + ty)"
    using assms by (simp add: is_c_int_def)
  then show ?thesis using assms by (simp add: Addr_def Addr_eq_add)
qed

lemma and_mask_8: "x AND (push_bit 8 1 - 1) = (x :: int) mod 256"
  using take_bit_eq_mask [of 8 x] by (simp add: take_bit_eq_mod mask_eq_exp_minus_1 push_bit_eq_mult)

lemma AddrID_eq: "AddrID a = a div 256 mod 256"
  and AddrType_eq: "AddrType a = a mod 256"
  and AddrGrp_eq: "AddrGrp a = a div 65536"
  by (simp_all add: AddrID_def AddrType_def AddrGrp_def and_mask_8 drop_bit_eq_div del: push_bit_of_1)

text \<open>
  C34. Group, id and type come back out of an address as they went in, for groups of 16 signed
  bits and ids and types of 8 bits, so distinct entities have distinct addresses.
\<close>

theorem Addr_roundtrip:
  assumes "- 32768 \<le> grp" and "grp < 32768" and "0 \<le> i" and "i < 256" and "0 \<le> ty" and "ty < 256"
  shows "AddrGrp (Addr grp i ty) = grp \<and> AddrID (Addr grp i ty) = i \<and>
    AddrProc (Addr grp i ty) = i \<and> AddrType (Addr grp i ty) = ty"
proof -
  have pack: "(k * 256 + r) div 256 = k \<and> (k * 256 + r) mod 256 = r"
    if "0 \<le> r" "r < 256" for k r :: int
    using that by simp
  have "Addr grp i ty = (grp * 256 + i) * 256 + ty" using assms by (simp add: Addr_eq)
  moreover have "((grp * 256 + i) * 256 + ty) div 65536 = ((grp * 256 + i) * 256 + ty) div 256 div 256"
    by (simp add: zdiv_zmult2_eq [symmetric])
  ultimately show ?thesis
    using pack [of ty "grp * 256 + i"] pack [of i grp] assms
    by (simp add: AddrID_eq AddrType_eq AddrGrp_eq AddrProc_def)
qed

theorem Addr_roundtrip_witness:
  "AddrGrp (Addr (- 1) 7 3) = - 1 \<and> AddrID (Addr (- 1) 7 3) = 7 \<and>
   AddrProc (Addr (- 1) 7 3) = 7 \<and> AddrType (Addr (- 1) 7 3) = 3"
  by (rule Addr_roundtrip) simp_all

section \<open>Format frames: round trip\<close>

text \<open>The range of a field's value: what the C type of its argument can hold.\<close>

fun wf_field :: "('f, 'p) field \<Rightarrow> bool" where
  "wf_field (FI x) \<longleftrightarrow> is_c_int x"
| "wf_field (F1 x) \<longleftrightarrow> 0 \<le> x \<and> x < 256"
| "wf_field (F2 x) \<longleftrightarrow> 0 \<le> x \<and> x < 256 ^ 2"
| "wf_field (F4 x) \<longleftrightarrow> 0 \<le> x \<and> x < 256 ^ 4"
| "wf_field (FS x) \<longleftrightarrow> NUL \<notin> set x"
| "wf_field _ \<longleftrightarrow> True"

text \<open>What the code relies on of the machine's \<open>float\<close> and \<open>void*\<close>.\<close>

locale machine_repr =
  fixes R :: "('f, 'p) repr"
  assumes length_fenc: "length (fenc R x) = 4"
    and fdec_fenc: "fdec R (fenc R x) = x"
    and length_penc: "length (penc R p) = 8"
    and pdec_penc: "pdec R (penc R p) = p"
begin

lemma length_enc_field: "length (enc_field R x) = field_size x"
  by (cases x) (simp_all add: length_fenc length_penc)

lemma length_enc_frame: "length (enc_frame R fr) = frame_size fr"
  by (cases fr)
     (simp_all add: length_concat length_enc_field length_fenc o_def sum_list_triv)

lemma put_field_enc: "put_field R (field_char x) (x # fs) = Inr (enc_field R x, fs)"
  by (cases x) (simp_all add: put_field_def)

lemma add_loop_enc:
  "length dst + sum_list (map field_size fs) \<le> kMaxFrameLen \<Longrightarrow>
   add_loop R (map field_char fs) fs dst = Inr (dst @ concat (map (enc_field R) fs))"
  by (induction fs arbitrary: dst) (simp_all add: put_field_enc length_enc_field)

lemma get_field_enc:
  assumes "wf_field x" and "field_char x \<noteq> CHR ''s''"
  shows "get_field R (field_char x) (pre @ enc_field R x @ post) (length pre) =
    Inr ([x], length pre + field_size x)"
proof -
  have "le_val (le_bytes n v) = v" if "0 \<le> v" "v < 256 ^ n" for n v
    using that by (simp add: le_val_le_bytes)
  moreover have "256 ^ 1 = (256 :: int)" "drop 1 (c # cs) = cs" for c :: char and cs by simp_all
  ultimately show ?thesis using assms
    by (cases x)
       (simp_all add: get_field_def read_tag_def read_mem_def segment_def nth_append
         length_fenc length_penc fdec_fenc pdec_penc del: One_nat_def le_bytes.simps)
qed

lemma get_field_string:
  assumes "NUL \<notin> set x"
  shows "get_field R (CHR ''s'') (pre @ enc_field R (FS x) @ post) (length pre) =
    Inr ([FS x], length pre + field_size (FS x) + 1)"
proof -
  have "cstr (CHR ''s'' # x @ NUL # post) = CHR ''s'' # x"
    using assms cstr_append_NUL [of "CHR ''s'' # x" post] by simp
  then show ?thesis using assms
    by (simp add: get_field_def read_tag_def read_mem_def segment_def nth_append)
qed

text \<open>A run of fields is parsed up to the first string field, which ends the format.\<close>

lemma parse_loop_enc:
  assumes "\<forall>x \<in> set fs. wf_field x \<and> field_char x \<noteq> CHR ''s''"
  shows "parse_loop R (map field_char fs @ format) (pre @ concat (map (enc_field R) fs) @ post) (length pre) =
    bindR (parse_loop R format (pre @ concat (map (enc_field R) fs) @ post)
        (length pre + sum_list (map field_size fs))) (\<lambda>(ys, n). Inr (fs @ ys, n))"
  using assms
proof (induction fs arbitrary: pre)
  case Nil
  show ?case by (cases "parse_loop R format (pre @ post) (length pre)") auto
next
  case (Cons x fs)
  let ?src = "pre @ enc_field R x @ concat (map (enc_field R) fs) @ post"
  have "get_field R (field_char x) ?src (length pre) = Inr ([x], length pre + field_size x)"
    using get_field_enc [of x pre "concat (map (enc_field R) fs) @ post"] Cons.prems by simp
  moreover have "parse_loop R (map field_char fs @ format) ?src (length pre + field_size x) =
    bindR (parse_loop R format ?src (length pre + field_size x + sum_list (map field_size fs)))
      (\<lambda>(ys, n). Inr (fs @ ys, n))"
    using Cons.IH [of "pre @ enc_field R x"] Cons.prems by (simp add: length_enc_field)
  ultimately show ?case
    by (cases "parse_loop R format ?src (length pre + field_size x + sum_list (map field_size fs))")
       (auto simp: add.assoc)
qed

lemma marker_ok: "cstr (enc_frame R (Fmt fs) @ [NUL]) = FMARKER"
  using cstr_append_NUL [of FMARKER "concat (map (enc_field R) fs) @ [NUL]"]
  by (simp add: FMARKER_def)

lemma AddFormatFrame_bytes_enc:
  "frame_size (Fmt fs) \<le> kMaxFrameLen \<Longrightarrow>
   AddFormatFrame_bytes R (map field_char fs) fs = Inr (enc_frame R (Fmt fs))"
  by (simp add: AddFormatFrame_bytes_def add_loop_enc)

lemma ParseFormatFrame_bytes_enc:
  assumes "\<forall>x \<in> set fs. wf_field x \<and> field_char x \<noteq> CHR ''s''"
  shows "ParseFormatFrame_bytes R (map field_char fs @ format)
      (FMARKER @ NUL # concat (map (enc_field R) fs) @ post) =
    bindR (parse_loop R format (FMARKER @ NUL # concat (map (enc_field R) fs) @ post @ [NUL])
        (frame_size (Fmt fs))) (\<lambda>(ys, n). Inr (fs @ ys, n))"
proof -
  have "cstr (FMARKER @ NUL # x) = FMARKER" for x
    using cstr_append_NUL [of FMARKER x] by (simp add: FMARKER_def)
  then show ?thesis
    using parse_loop_enc [OF assms, of format "FMARKER @ [NUL]" "post @ [NUL]"]
    by (simp add: ParseFormatFrame_bytes_def Let_def)
qed

lemma ParseFormatFrame_string:
  assumes "\<forall>x \<in> set fs. wf_field x \<and> field_char x \<noteq> CHR ''s''" and "NUL \<notin> set s"
  shows "ParseFormatFrame_bytes R (map field_char fs @ ''s'') (enc_frame R (Fmt (fs @ [FS s]))) =
    Inr (fs @ [FS s], frame_size (Fmt (fs @ [FS s])) + 1)"
proof -
  have "get_field R (CHR ''s'') ((FMARKER @ [NUL] @ concat (map (enc_field R) fs)) @ enc_field R (FS s) @ [NUL])
      (length (FMARKER @ [NUL] @ concat (map (enc_field R) fs))) =
    Inr ([FS s], frame_size (Fmt (fs @ [FS s])) + 1)"
    using get_field_string [OF assms(2), of "FMARKER @ [NUL] @ concat (map (enc_field R) fs)" "[NUL]"]
      length_enc_frame [of "Fmt fs"] by simp
  then show ?thesis
    using ParseFormatFrame_bytes_enc [OF assms(1), of "''s''" "enc_field R (FS s)"]
      length_enc_frame [of "Fmt fs"] by simp
qed

lemma get_field_mismatch:
  assumes "c \<in> set ''ifp''" and "s ! k \<noteq> c" and "k < length s"
  shows "get_field R c s k = Inl CheckFailed"
proof -
  from assms(1) consider "c = CHR ''i''" | "c = CHR ''f''" | "c = CHR ''p''" by auto
  then show ?thesis
    by cases (use assms(2,3) in \<open>simp_all add: get_field_def read_tag_def\<close>)
qed

lemma enc_field_tag: "field_char x \<in> set ''ifps'' \<Longrightarrow> enc_field R x \<noteq> [] \<and> hd (enc_field R x) = field_char x"
  by (cases x) simp_all

lemma parse_loop_fields:
  assumes "set format \<subseteq> set ''ifp''"
    and "\<forall>x \<in> set fs. wf_field x \<and> field_char x \<in> set ''ifps''"
  shows "bindR (parse_loop R format (pre @ concat (map (enc_field R) fs) @ [NUL]) (length pre))
      (\<lambda>(ys, n). Inr ys) = parse_fields format fs"
  using assms
proof (induction format arbitrary: fs pre)
  case (Cons c format)
  show ?case
  proof (cases fs)
    case Nil
    then show ?thesis
      using Cons.prems get_field_mismatch [of c "pre @ [NUL]" "length pre"] by fastforce
  next
    case (Cons x xs)
    let ?s = "pre @ enc_field R x @ concat (map (enc_field R) xs) @ [NUL]"
    have x: "enc_field R x \<noteq> []" "hd (enc_field R x) = field_char x" "wf_field x"
      using Cons \<open>\<forall>x \<in> set fs. _ x\<close> enc_field_tag [of x] by auto
    show ?thesis
    proof (cases "c = field_char x")
      case True
      then have "field_char x \<noteq> CHR ''s''" using Cons.prems(1) by auto
      then have "get_field R c ?s (length pre) = Inr ([x], length (pre @ enc_field R x))"
        using x True get_field_enc [of x pre] by (simp add: length_enc_field)
      then show ?thesis
        using Cons.IH [of xs "pre @ enc_field R x"] Cons.prems True \<open>fs = x # xs\<close>
        by (cases "parse_loop R format ?s (length (pre @ enc_field R x))")
           (auto simp: bindR_def split: sum.splits prod.splits)
    next
      case False
      have "?s ! length pre = field_char x"
        using x by (simp add: nth_append hd_conv_nth)
      then have "get_field R c ?s (length pre) = Inl CheckFailed"
        using False Cons.prems(1) by (intro get_field_mismatch) auto
      then show ?thesis using False \<open>fs = x # xs\<close> by simp
    qed
  qed
qed simp

end

text \<open>Bytes of a 32-bit pattern and a 64-bit address: the representation of x86-64.\<close>

definition word_repr :: "(32 word, 64 word) repr" where
  "word_repr = \<lparr>fenc = (\<lambda>w. le_bytes 4 (uint w)), fdec = (\<lambda>b. word_of_int (le_val b)),
     penc = (\<lambda>w. le_bytes 8 (uint w)), pdec = (\<lambda>b. word_of_int (le_val b))\<rparr>"

lemma uint_bytes: "LENGTH('a :: len) = 8 * n \<Longrightarrow> word_of_int (le_val (le_bytes n (uint w))) = (w :: 'a word)"
proof -
  assume "LENGTH('a) = 8 * n"
  then have "uint w < 256 ^ n"
    using uint_bounded [of w] by (simp add: power_mult)
  then show ?thesis by (simp add: le_val_le_bytes)
qed

interpretation x86: machine_repr word_repr
  by unfold_locales (simp_all add: word_repr_def uint_bytes)



text \<open>
  A string is read back when it is the last field, but the position returned is one byte
  behind the frame: the length of a string is taken at its tag.
\<close>

theorem FormatFrame_string_last:
  assumes "machine_repr R" and "\<forall>x \<in> set fs. wf_field x \<and> field_char x \<noteq> CHR ''s''"
    and "NUL \<notin> set s" and "frame_size (Fmt (fs @ [FS s])) \<le> kMaxFrameLen"
  shows "\<exists>b. AddFormatFrame_bytes R (map field_char fs @ ''s'') (fs @ [FS s]) = Inr b \<and>
    ParseFormatFrame_bytes R (map field_char fs @ ''s'') b = Inr (fs @ [FS s], length b + 1)"
  using machine_repr.AddFormatFrame_bytes_enc [OF assms(1,4)]
    machine_repr.ParseFormatFrame_string [OF assms(1-3)]
    machine_repr.length_enc_frame [OF assms(1), of "Fmt (fs @ [FS s])"]
  by auto

theorem FormatFrame_string_last_witness:
  "\<exists>b. AddFormatFrame_bytes word_repr ''is'' [FI 5, FS ''Train''] = Inr b \<and>
    ParseFormatFrame_bytes word_repr ''is'' b = Inr ([FI 5, FS ''Train''], length b + 1)"
  using FormatFrame_string_last [OF x86.machine_repr_axioms, of "[FI 5]" "''Train''"]
  by (simp add: is_c_int_def kMaxFrameLen_def FMARKER_def cstr_def)

text \<open>
  A field behind a string is lost: a frame written with the format \<open>si\<close> cannot be parsed
  with that format.
\<close>

theorem FormatFrame_field_after_string:
  "\<exists>b. AddFormatFrame_bytes word_repr ''si'' [FS ''ab'', FI 5] = Inr b \<and>
    ParseFormatFrame_bytes word_repr ''si'' b = Inl CheckFailed"
proof -
  have "AddFormatFrame_bytes word_repr ''si'' [FS ''ab'', FI 5] =
      Inr (FMARKER @ [NUL] @ ''sab'' @ [NUL] @ ''i'' @ le_bytes 4 5)"
    by code_simp
  moreover have "ParseFormatFrame_bytes word_repr ''si''
      (FMARKER @ [NUL] @ ''sab'' @ [NUL] @ ''i'' @ le_bytes 4 5) = Inl CheckFailed"
    by code_simp
  ultimately show ?thesis by blast
qed



section \<open>The message header: round trip\<close>

lemma scan_header:
  "scan_ds 5 (print_header [a, b, c, d, e]) = [a, b, c, d, e]"
proof -
  have stop: "no_digit ('' '' @ s)" "no_digit []" for s
    by (simp_all add: no_digit_def is_digit_def)
  have "print_header [a, b, c, d, e] = print_d a @ '' '' @ print_d b @ '' '' @ print_d c @
      '' '' @ print_d d @ '' '' @ print_d e @ []"
    by (simp add: print_header_def)
  moreover have "scan_ds (Suc (Suc (Suc (Suc (Suc 0))))) (print_d a @ '' '' @ print_d b @ '' '' @
      print_d c @ '' '' @ print_d d @ '' '' @ print_d e @ []) = [a, b, c, d, e]"
    unfolding scan_ds.simps scan_d_print [OF stop(1)] scan_d_print [OF stop(2)] option.case prod.case ..
  ultimately show ?thesis by (simp add: eval_nat_numeral)
qed

lemma print_header_no_NUL: "NUL \<notin> set (print_header xs)"
proof -
  have "NUL \<notin> set (print_nat n)" for n
    using print_nat_digits digit_chars by blast
  then have "NUL \<notin> set (print_d x)" for x
    by (simp add: print_d_def)
  then show ?thesis by (auto simp: print_header_def)
qed

lemma zmsg_roundtrip:
  "ParseFromZmsg (DumpToZmsg m) (Msg_new s d) = Inr (FirstFrame m)"
proof -
  have "cstr (print_header xs) = print_header xs" for xs
    using print_header_no_NUL by simp
  then show ?thesis
    by (cases m)
       (simp add: ParseFromZmsg_def DumpToZmsg_def Msg_new_def FirstFrame_def frame_at_def Let_def
         scan_header)
qed

text \<open>
  A message that is dumped to a \<open>zmsg_t\<close> and parsed at the other end arrives with its
  addresses, type, target and frames, with the cursor on the first frame.
\<close>

theorem Msg_zmsg_roundtrip:
  "ParseFromZmsg (DumpToZmsg m) (Msg_new s d) = Inr (FirstFrame m)"
  by (rule zmsg_roundtrip)

end
