(* ===== verification/Graph.thy ===== *)
theory Graph
  imports Prelude
begin

text \<open>
  Model of \<open>src/include/utils/graph.h\<close> and \<open>src/src/utils/graph.cc\<close>: the layer graph that
  \<open>NeuralNet\<close> builds, its edges and the topological sort.

  Nodes are objects that point to each other, so they live in a store: a node is an address,
  \<open>heap\<close> gives the object at an address and \<open>fresh\<close> the next address. \<open>Sort\<close> may run
  forever, so its loop is a \<open>partial_function (option)\<close>.
\<close>

section \<open>Nodes and graphs\<close>

text \<open>\<open>partition_id\<close> is uninitialised in a node made by \<open>Node(string name)\<close>: \<open>None\<close>.\<close>

record Node =
  node_name :: string
  origin :: string
  partition_id :: "int option"
  proto :: "nat option"
  srcnodes :: "nat list"
  dstnodes :: "nat list"

record Graph =
  heap :: "nat \<Rightarrow> Node"
  fresh :: nat
  nodes_ids :: "nat list"
  name2node :: "string \<rightharpoonup> nat"

definition Node_of_name :: "string \<Rightarrow> Node" where
  "Node_of_name nm = \<lparr>node_name = nm, origin = [], partition_id = None, proto = None,
     srcnodes = [], dstnodes = []\<rparr>"

definition Node_full :: "string \<Rightarrow> string \<Rightarrow> int \<Rightarrow> nat option \<Rightarrow> Node" where
  "Node_full nm orig pid pr = \<lparr>node_name = nm, origin = orig, partition_id = Some pid, proto = pr,
     srcnodes = [], dstnodes = []\<rparr>"

definition Graph_new :: Graph where
  "Graph_new = \<lparr>heap = (\<lambda>_. Node_of_name []), fresh = 0, nodes_ids = [], name2node = Map.empty\<rparr>"

abbreviation nd :: "Graph \<Rightarrow> nat \<Rightarrow> Node" where
  "nd g a \<equiv> heap g a"

definition upd_node :: "nat \<Rightarrow> (Node \<Rightarrow> Node) \<Rightarrow> Graph \<Rightarrow> Graph" where
  "upd_node a f g = g\<lparr>heap := (heap g)(a := f (heap g a))\<rparr>"

definition AddDstNode :: "nat \<Rightarrow> nat \<Rightarrow> Graph \<Rightarrow> Graph" where
  "AddDstNode a d = upd_node a (\<lambda>n. n\<lparr>dstnodes := dstnodes n @ [d]\<rparr>)"

definition AddSrcNode :: "nat \<Rightarrow> nat \<Rightarrow> Graph \<Rightarrow> Graph" where
  "AddSrcNode a s = upd_node a (\<lambda>n. n\<lparr>srcnodes := srcnodes n @ [s]\<rparr>)"

text \<open>
  The removal loops compare names and read \<open>*iter\<close> before they compare \<open>iter\<close> with the end,
  so a name that is not there is read past the end.
\<close>

fun erase_named :: "(nat \<Rightarrow> string) \<Rightarrow> string \<Rightarrow> nat list \<Rightarrow> nat list res" where
  "erase_named nm x [] = Inl Undefined"
| "erase_named nm x (a # as) =
     (if nm a = x then Inr as else bindR (erase_named nm x as) (\<lambda>r. Inr (a # r)))"

definition RemoveDstNode :: "nat \<Rightarrow> nat \<Rightarrow> Graph \<Rightarrow> Graph res" where
  "RemoveDstNode a d g =
     bindR (erase_named (\<lambda>b. node_name (nd g b)) (node_name (nd g d)) (dstnodes (nd g a)))
       (\<lambda>ds. Inr (upd_node a (\<lambda>n. n\<lparr>dstnodes := ds\<rparr>) g))"

definition RemoveSrcNode :: "nat \<Rightarrow> nat \<Rightarrow> Graph \<Rightarrow> Graph res" where
  "RemoveSrcNode a s g =
     bindR (erase_named (\<lambda>b. node_name (nd g b)) (node_name (nd g s)) (srcnodes (nd g a)))
       (\<lambda>ss. Inr (upd_node a (\<lambda>n. n\<lparr>srcnodes := ss\<rparr>) g))"

text \<open>\<open>new Node(...)\<close>, \<open>AddNode(Node*)\<close> and \<open>AddNode(const string&)\<close>.\<close>

definition new_node :: "Node \<Rightarrow> Graph \<Rightarrow> nat \<times> Graph" where
  "new_node n g = (fresh g, g\<lparr>heap := (heap g)(fresh g := n), fresh := fresh g + 1\<rparr>)"

definition AddNode_ptr :: "nat \<Rightarrow> Graph \<Rightarrow> Graph" where
  "AddNode_ptr a g =
     g\<lparr>nodes_ids := nodes_ids g @ [a], name2node := (name2node g)(node_name (nd g a) \<mapsto> a)\<rparr>"

definition AddNode :: "string \<Rightarrow> Graph \<Rightarrow> nat \<times> Graph" where
  "AddNode nm g = (let (a, g') = new_node (Node_of_name nm) g in (a, AddNode_ptr a g'))"

definition node :: "string \<Rightarrow> Graph \<Rightarrow> nat res" where
  "node nm g = (case name2node g nm of None \<Rightarrow> Inl OutOfRange | Some a \<Rightarrow> Inr a)"

definition AddEdge_ptr :: "nat \<Rightarrow> nat \<Rightarrow> Graph \<Rightarrow> Graph" where
  "AddEdge_ptr s d g = AddSrcNode d s (AddDstNode s d g)"

definition AddEdge :: "string \<Rightarrow> string \<Rightarrow> Graph \<Rightarrow> Graph res" where
  "AddEdge s d g =
     (case (name2node g s, name2node g d) of
        (Some a, Some b) \<Rightarrow> Inr (AddEdge_ptr a b g)
      | _ \<Rightarrow> Inl CheckFailed)"

definition RemoveEdge_ptr :: "nat \<Rightarrow> nat \<Rightarrow> Graph \<Rightarrow> Graph res" where
  "RemoveEdge_ptr s d g = bindR (RemoveDstNode s d g) (RemoveSrcNode d s)"

definition RemoveEdge :: "string \<Rightarrow> string \<Rightarrow> Graph \<Rightarrow> Graph res" where
  "RemoveEdge s d g =
     (case (name2node g s, name2node g d) of
        (Some a, Some b) \<Rightarrow> RemoveEdge_ptr a b g
      | _ \<Rightarrow> Inl CheckFailed)"

section \<open>JSON dump\<close>

text \<open>\<open>snprintf\<close> into a buffer of 1024 characters keeps at most 1023 of them.\<close>

definition snprintf1024 :: "string \<Rightarrow> string" where
  "snprintf1024 s = take 1023 s"

abbreviation QUOTE :: string where
  "QUOTE \<equiv> [CHR 0x22]"

definition quoted :: "string \<Rightarrow> string" where
  "quoted s = QUOTE @ s @ QUOTE"

abbreviation NL :: string where
  "NL \<equiv> [CHR 0x0A]"

fun contains_hashes :: "string \<Rightarrow> bool" where
  "contains_hashes (a # b # s) \<longleftrightarrow> (a = CHR ''#'' \<and> b = CHR ''#'') \<or> contains_hashes (b # s)"
| "contains_hashes _ \<longleftrightarrow> False"

text \<open>
  The colour is picked with \<open>partition_id % colors.size()\<close>, a remainder of unsigned 64-bit
  numbers; of an uninitialised \<open>partition_id\<close> it is undefined.
\<close>

definition node_json :: "(string \<rightharpoonup> string) \<Rightarrow> Node \<Rightarrow> string res" where
  "node_json info n =
     (case partition_id n of
        None \<Rightarrow> Inl Undefined
      | Some pid \<Rightarrow>
          bindR (idxR [''red'', ''blue'', ''black'', ''green''] (pid mod 2 ^ 64 mod 4)) (\<lambda>color.
            let shape = (if contains_hashes (origin n) then ''ellipse'' else ''box'') in
            Inr (snprintf1024
              (''{'' @ quoted ''id'' @ '':'' @
               quoted (cstr (node_name n) @ (case info (node_name n) of None \<Rightarrow> [] | Some s \<Rightarrow> cstr s)) @
               '', '' @ quoted ''color'' @ '':'' @ quoted color @ '','' @
               quoted ''shape'' @ '':'' @ quoted shape @ ''}'' @ NL))))"

definition link_json :: "int \<Rightarrow> int \<Rightarrow> string" where
  "link_json s d = snprintf1024
     (''{'' @ quoted ''source'' @ '':'' @ print_d s @ '', '' @ quoted ''target'' @ '':'' @
      print_d d @ '', '' @ quoted ''color'' @ '':'' @ quoted ''black'' @ ''}'' @ NL)"

fun with_commas :: "string list \<Rightarrow> string" where
  "with_commas [] = []"
| "with_commas [s] = s"
| "with_commas (s # t # ss) = s @ '','' @ with_commas (t # ss)"

definition json_loop :: "(string \<rightharpoonup> string) \<Rightarrow> Graph \<Rightarrow> (string list \<times> (string \<rightharpoonup> int) \<times> int) res" where
  "json_loop info g =
     foldR (\<lambda>(strs, nodeid, i) a.
         bindR (node_json info (nd g a)) (\<lambda>s.
           Inr (strs @ [s], nodeid(node_name (nd g a) \<mapsto> i), i + 1)))
       ([], Map.empty, 0) (nodes_ids g)"

text \<open>\<open>nodeid[...]\<close> of a name that was not inserted gives 0.\<close>

definition links :: "(string \<rightharpoonup> int) \<Rightarrow> Graph \<Rightarrow> string list" where
  "links nodeid g =
     (let num = (\<lambda>a. case nodeid (node_name (nd g a)) of None \<Rightarrow> 0 | Some i \<Rightarrow> i) in
      concat (map (\<lambda>a. map (\<lambda>d. link_json (num a) (num d)) (dstnodes (nd g a))) (nodes_ids g)))"

definition ToJson :: "(string \<rightharpoonup> string) \<Rightarrow> Graph \<Rightarrow> string res" where
  "ToJson info g =
     bindR (json_loop info g) (\<lambda>(strs, nodeid, _).
       Inr (''{'' @ quoted ''directed'' @ '':1,'' @ NL @ quoted ''nodes'' @ '':['' @ NL @
         with_commas strs @ '']'' @ NL @ '','' @ quoted ''links'' @ '':['' @ NL @
         with_commas (links nodeid g) @ '']'' @ NL @ ''}''))"

section \<open>Topological sort\<close>

definition bi_direction :: "Graph \<Rightarrow> nat \<Rightarrow> bool" where
  "bi_direction g a \<longleftrightarrow>
     list_ex (\<lambda>s. list_ex (\<lambda>ss. cstr (node_name (nd g ss)) = cstr (node_name (nd g a)))
       (srcnodes (nd g s))) (srcnodes (nd g a))"

definition may_visit :: "Graph \<Rightarrow> nat set \<Rightarrow> nat \<Rightarrow> bool" where
  "may_visit g visited a \<longleftrightarrow>
     (if bi_direction g a \<and> 1 < length (srcnodes (nd g a))
      then hd (srcnodes (nd g a)) \<in> visited
      else list_all (\<lambda>s. s \<in> visited) (srcnodes (nd g a)))"

fun queue_dsts :: "nat list \<Rightarrow> nat list \<Rightarrow> nat set \<Rightarrow> nat list \<times> nat set" where
  "queue_dsts [] q visit_set = (q, visit_set)"
| "queue_dsts (d # ds) q visit_set =
     (if d \<in> visit_set then queue_dsts ds q visit_set
      else queue_dsts ds (q @ [d]) (insert d visit_set))"

partial_function (option) sort_loop ::
  "Graph \<Rightarrow> nat list \<Rightarrow> nat set \<Rightarrow> nat set \<Rightarrow> nat list \<Rightarrow> nat list option" where
  "sort_loop g queue visited visit_set out =
     (case queue of
        [] \<Rightarrow> Some out
      | a # q \<Rightarrow>
          (if may_visit g visited a then
             sort_loop g (fst (queue_dsts (dstnodes (nd g a)) q visit_set)) (insert a visited)
               (snd (queue_dsts (dstnodes (nd g a)) q visit_set)) (out @ [a])
           else sort_loop g (q @ [a]) visited visit_set out))"

declare sort_loop.simps [code]

definition roots :: "Graph \<Rightarrow> nat list" where
  "roots g = filter (\<lambda>a. srcnodes (nd g a) = []) (nodes_ids g)"

definition Sort :: "Graph \<Rightarrow> Graph res option" where
  "Sort g =
     (case sort_loop g (roots g) {} (set (roots g)) [] of
        None \<Rightarrow> None
      | Some out \<Rightarrow>
          Some (if length out = length (nodes_ids g) then Inr (g\<lparr>nodes_ids := out\<rparr>)
                else Inl CheckFailed))"

section \<open>Well-formed graphs\<close>

text \<open>
  Every node is registered under its own name, both ends of an edge list it equally often, and
  edges stay inside the graph. Names are C strings.
\<close>

definition wf_graph :: "Graph \<Rightarrow> bool" where
  "wf_graph g \<longleftrightarrow>
     distinct (nodes_ids g) \<and> (\<forall>a \<in> set (nodes_ids g). a < fresh g) \<and>
     (\<forall>nm a. name2node g nm = Some a \<longleftrightarrow> a \<in> set (nodes_ids g) \<and> node_name (nd g a) = nm) \<and>
     (\<forall>a \<in> set (nodes_ids g). NUL \<notin> set (node_name (nd g a))) \<and>
     (\<forall>a \<in> set (nodes_ids g). set (srcnodes (nd g a)) \<union> set (dstnodes (nd g a)) \<subseteq> set (nodes_ids g)) \<and>
     (\<forall>a \<in> set (nodes_ids g). \<forall>b \<in> set (nodes_ids g).
        count_list (dstnodes (nd g a)) b = count_list (srcnodes (nd g b)) a)"

definition edge :: "Graph \<Rightarrow> (nat \<times> nat) set" where
  "edge g = {(s, d). d \<in> set (nodes_ids g) \<and> s \<in> set (srcnodes (nd g d))}"

lemma wf_graphD:
  assumes "wf_graph g" and "a \<in> set (nodes_ids g)"
  shows "a < fresh g" and "name2node g (node_name (nd g a)) = Some a"
    and "NUL \<notin> set (node_name (nd g a))" and "set (srcnodes (nd g a)) \<subseteq> set (nodes_ids g)"
    and "set (dstnodes (nd g a)) \<subseteq> set (nodes_ids g)"
  using assms by (auto simp: wf_graph_def)

lemma wf_graphI:
  assumes "distinct (nodes_ids g)" and "\<And>a. a \<in> set (nodes_ids g) \<Longrightarrow> a < fresh g"
    and "\<And>nm a. name2node g nm = Some a \<longleftrightarrow> a \<in> set (nodes_ids g) \<and> node_name (nd g a) = nm"
    and "\<And>a. a \<in> set (nodes_ids g) \<Longrightarrow> NUL \<notin> set (node_name (nd g a))"
    and "\<And>a. a \<in> set (nodes_ids g) \<Longrightarrow> set (srcnodes (nd g a)) \<subseteq> set (nodes_ids g)"
    and "\<And>a. a \<in> set (nodes_ids g) \<Longrightarrow> set (dstnodes (nd g a)) \<subseteq> set (nodes_ids g)"
    and "\<And>a b. a \<in> set (nodes_ids g) \<Longrightarrow> b \<in> set (nodes_ids g) \<Longrightarrow>
      count_list (dstnodes (nd g a)) b = count_list (srcnodes (nd g b)) a"
  shows "wf_graph g"
  using assms by (simp add: wf_graph_def)

lemma wf_graph_count:
  "wf_graph g \<Longrightarrow> a \<in> set (nodes_ids g) \<Longrightarrow> b \<in> set (nodes_ids g) \<Longrightarrow>
   count_list (dstnodes (nd g a)) b = count_list (srcnodes (nd g b)) a"
  by (simp add: wf_graph_def)

lemma wf_graph_distinct: "wf_graph g \<Longrightarrow> distinct (nodes_ids g)"
  by (simp add: wf_graph_def)

lemma wf_graph_name_inj:
  "wf_graph g \<Longrightarrow> a \<in> set (nodes_ids g) \<Longrightarrow> b \<in> set (nodes_ids g) \<Longrightarrow>
   node_name (nd g a) = node_name (nd g b) \<Longrightarrow> a = b"
  by (metis option.inject wf_graphD(2))

lemma wf_graph_edge_iff:
  assumes "wf_graph g" and "a \<in> set (nodes_ids g)" and "b \<in> set (nodes_ids g)"
  shows "b \<in> set (dstnodes (nd g a)) \<longleftrightarrow> a \<in> set (srcnodes (nd g b))"
proof -
  have "count_list (dstnodes (nd g a)) b = count_list (srcnodes (nd g b)) a"
    using assms by (simp add: wf_graph_def)
  then show ?thesis by (metis count_list_0_iff)
qed

section \<open>The sort on acyclic graphs\<close>

lemma acyclic_no_bi_direction:
  assumes "wf_graph g" and "acyclic (edge g)" and "a \<in> set (nodes_ids g)"
  shows "\<not> bi_direction g a"
proof
  assume "bi_direction g a"
  then obtain s ss where s: "s \<in> set (srcnodes (nd g a))" "ss \<in> set (srcnodes (nd g s))"
    "cstr (node_name (nd g ss)) = cstr (node_name (nd g a))"
    by (auto simp: bi_direction_def list_ex_iff)
  then have in_g: "s \<in> set (nodes_ids g)" "ss \<in> set (nodes_ids g)"
    using assms wf_graphD(4) by blast+
  then have "ss = a"
    using s(3) assms wf_graphD(3) [OF assms(1)] wf_graph_name_inj [OF assms(1)] by simp
  then have "(a, s) \<in> edge g" "(s, a) \<in> edge g"
    using s in_g assms(3) by (auto simp: edge_def)
  then show False using assms(2) by (meson acyclic_def trancl.simps)
qed

lemma may_visit_acyclic:
  assumes "wf_graph g" and "acyclic (edge g)" and "a \<in> set (nodes_ids g)"
  shows "may_visit g visited a \<longleftrightarrow> set (srcnodes (nd g a)) \<subseteq> visited"
  using acyclic_no_bi_direction [OF assms] by (auto simp: may_visit_def list_all_iff)

lemma queue_dsts_spec:
  assumes "distinct q" and "set q \<subseteq> vs"
  shows "\<exists>new. queue_dsts ds q vs = (q @ new, vs \<union> set ds) \<and> distinct (q @ new) \<and>
    set new = set ds - vs"
  using assms
proof (induction ds arbitrary: q vs)
  case (Cons d ds)
  show ?case
  proof (cases "d \<in> vs")
    case True
    then show ?thesis using Cons.IH [OF Cons.prems] by (auto simp: insert_absorb)
  next
    case False
    then obtain new where "queue_dsts ds (q @ [d]) (insert d vs) = ((q @ [d]) @ new, insert d vs \<union> set ds)"
      "distinct ((q @ [d]) @ new)" "set new = set ds - insert d vs"
      using Cons.IH [of "q @ [d]" "insert d vs"] Cons.prems by auto
    then show ?thesis using False by (intro exI [of _ "d # new"]) auto
  qed
qed simp

text \<open>
  The invariant of the loop: the queue holds exactly the nodes that were reached and not yet
  placed, the nodes placed so far are in topological order, and every root and every successor
  of a placed node was reached.
\<close>

definition topo :: "Graph \<Rightarrow> nat list \<Rightarrow> bool" where
  "topo g out \<longleftrightarrow> (\<forall>xs a ys. out = xs @ a # ys \<longrightarrow> set (srcnodes (nd g a)) \<subseteq> set xs)"

definition sort_inv :: "Graph \<Rightarrow> nat list \<Rightarrow> nat set \<Rightarrow> nat set \<Rightarrow> nat list \<Rightarrow> bool" where
  "sort_inv g q visited vs out \<longleftrightarrow>
     visited = set out \<and> vs = set q \<union> set out \<and> distinct (q @ out) \<and>
     vs \<subseteq> set (nodes_ids g) \<and> topo g out \<and> set (roots g) \<subseteq> vs \<and>
     (\<forall>a \<in> set out. set (dstnodes (nd g a)) \<subseteq> vs)"

lemma topo_snoc: "topo g out \<Longrightarrow> set (srcnodes (nd g a)) \<subseteq> set out \<Longrightarrow> topo g (out @ [a])"
  unfolding topo_def
proof (intro allI impI)
  fix xs b ys
  assume topo: "\<forall>xs a ys. out = xs @ a # ys \<longrightarrow> set (srcnodes (nd g a)) \<subseteq> set xs"
    and a: "set (srcnodes (nd g a)) \<subseteq> set out" and eq: "out @ [a] = xs @ b # ys"
  show "set (srcnodes (nd g b)) \<subseteq> set xs"
  proof (cases ys rule: rev_cases)
    case Nil
    then show ?thesis using a eq by simp
  next
    case (snoc zs z)
    then have "out = xs @ b # zs" using eq by simp
    then show ?thesis using topo by blast
  qed
qed

lemma sort_inv_visit:
  assumes "sort_inv g (a # q) visited vs out" and "wf_graph g"
    and "set (srcnodes (nd g a)) \<subseteq> visited"
  shows "sort_inv g (fst (queue_dsts (dstnodes (nd g a)) q vs)) (insert a visited)
    (snd (queue_dsts (dstnodes (nd g a)) q vs)) (out @ [a])"
proof -
  have inv: "visited = set out" "vs = insert a (set q \<union> set out)" "distinct (q @ out)"
    "a \<notin> set q" "a \<notin> set out" "vs \<subseteq> set (nodes_ids g)" "topo g out" "set (roots g) \<subseteq> vs"
    "\<forall>a \<in> set out. set (dstnodes (nd g a)) \<subseteq> vs"
    using assms(1) by (auto simp: sort_inv_def)
  obtain new where new: "queue_dsts (dstnodes (nd g a)) q vs = (q @ new, vs \<union> set (dstnodes (nd g a)))"
    "distinct (q @ new)" "set new = set (dstnodes (nd g a)) - vs"
    using queue_dsts_spec [of q vs "dstnodes (nd g a)"] inv by auto
  have "set (dstnodes (nd g a)) \<subseteq> set (nodes_ids g)"
    using wf_graphD(5) [OF assms(2)] inv by auto
  then show ?thesis
    using inv new assms(3) by (auto simp: sort_inv_def intro: topo_snoc)
qed

lemma sort_inv_rotate:
  "sort_inv g (a # q) visited vs out \<Longrightarrow> sort_inv g (q @ [a]) visited vs out"
  by (auto simp: sort_inv_def)

text \<open>A smallest unplaced node is ready and waits in the queue.\<close>

lemma ready_in_queue:
  assumes "sort_inv g q visited vs out" and "wf_graph g" and "acyclic (edge g)"
    and "set out \<noteq> set (nodes_ids g)"
  shows "\<exists>a \<in> set q. set (srcnodes (nd g a)) \<subseteq> visited"
proof -
  have "finite (edge g)"
    by (rule finite_subset [of _ "set (nodes_ids g) \<times> set (nodes_ids g)"])
       (use wf_graphD(4) [OF assms(2)] in \<open>auto simp: edge_def\<close>)
  then have wf: "wf (edge g)" using assms(3) by (rule finite_acyclic_wf)
  obtain b where "b \<in> set (nodes_ids g) - set out"
    using assms(1,4) by (auto simp: sort_inv_def)
  with wf obtain a where a: "a \<in> set (nodes_ids g)" "a \<notin> set out"
    "\<And>s. (s, a) \<in> edge g \<Longrightarrow> s \<notin> set (nodes_ids g) - set out"
    by (rule wfE_min) blast
  then have ready: "set (srcnodes (nd g a)) \<subseteq> set out"
    using wf_graphD(4) [OF assms(2)] by (auto simp: edge_def)
  have "a \<in> vs"
  proof (cases "srcnodes (nd g a)")
    case Nil
    then show ?thesis using a assms(1) by (auto simp: sort_inv_def roots_def)
  next
    case (Cons s ss)
    then have "s \<in> set out" using ready by simp
    moreover have "a \<in> set (dstnodes (nd g s))"
      using Cons a wf_graph_edge_iff [OF assms(2), of s a] wf_graphD(4) [OF assms(2), of a] by simp
    ultimately show ?thesis using assms(1) by (auto simp: sort_inv_def)
  qed
  then show ?thesis using ready a assms(1) by (auto simp: sort_inv_def)
qed

lemma sort_loop_rotate:
  "\<forall>x \<in> set xs. \<not> may_visit g visited x \<Longrightarrow>
   sort_loop g (xs @ ys) visited vs out = sort_loop g (ys @ xs) visited vs out"
proof (induction xs arbitrary: ys)
  case (Cons x xs)
  have "sort_loop g ((x # xs) @ ys) visited vs out = sort_loop g (xs @ ys @ [x]) visited vs out"
    using Cons.prems by (subst sort_loop.simps) simp
  also have "\<dots> = sort_loop g ((ys @ [x]) @ xs) visited vs out"
    using Cons by simp
  finally show ?case by simp
qed simp

lemma sort_inv_rotates: "sort_inv g (xs @ ys) visited vs out \<Longrightarrow> sort_inv g (ys @ xs) visited vs out"
  by (auto simp: sort_inv_def)

lemma sort_loop_total:
  assumes "sort_inv g q visited vs out" and "wf_graph g" and "acyclic (edge g)"
  shows "\<exists>out'. sort_loop g q visited vs out = Some out' \<and> distinct out' \<and>
    set out' = set (nodes_ids g) \<and> topo g out'"
  using assms(1)
proof (induction "card (set (nodes_ids g) - set out)" arbitrary: q visited vs out rule: less_induct)
  case less
  show ?case
  proof (cases q)
    case Nil
    then have "set out = set (nodes_ids g)"
      using ready_in_queue [OF less.prems assms(2,3)] by auto
    then show ?thesis
      using Nil less.prems by (subst sort_loop.simps) (auto simp: sort_inv_def)
  next
    case (Cons b bs)
    have N: "set q \<subseteq> set (nodes_ids g)" "visited = set out" and "set out \<noteq> set (nodes_ids g)"
      using less.prems Cons by (auto simp: sort_inv_def)
    then have "\<exists>x \<in> set q. may_visit g visited x"
      using ready_in_queue [OF less.prems assms(2,3)] may_visit_acyclic [OF assms(2,3)] by blast
    then obtain xs a ys where q: "q = xs @ a # ys" "may_visit g visited a"
      "\<forall>x \<in> set xs. \<not> may_visit g visited x"
      using split_list_first_prop [of q "may_visit g visited"] by blast
    have a: "a \<in> set (nodes_ids g)" "a \<notin> set out" "set (srcnodes (nd g a)) \<subseteq> visited"
      using q less.prems N may_visit_acyclic [OF assms(2,3), of a] by (auto simp: sort_inv_def)
    let ?qd = "queue_dsts (dstnodes (nd g a)) (ys @ xs) vs"
    have "sort_loop g q visited vs out = sort_loop g (a # ys @ xs) visited vs out"
      using sort_loop_rotate [OF q(3), of "a # ys" vs out] q(1) by simp
    also have "\<dots> = sort_loop g (fst ?qd) (insert a visited) (snd ?qd) (out @ [a])"
      using q(2) by (subst sort_loop.simps) simp
    finally have step: "sort_loop g q visited vs out = \<dots>" .
    have "sort_inv g (a # ys @ xs) visited vs out"
      using less.prems q(1) sort_inv_rotates [of g xs "a # ys"] by simp
    then have inv: "sort_inv g (fst ?qd) (insert a visited) (snd ?qd) (out @ [a])"
      by (rule sort_inv_visit [OF _ assms(2) a(3)])
    have "card (set (nodes_ids g) - set (out @ [a])) < card (set (nodes_ids g) - set out)"
      using a by (intro psubset_card_mono) auto
    from less.hyps [OF this inv] show ?thesis unfolding step .
  qed
qed

lemma sort_inv_start: "wf_graph g \<Longrightarrow> sort_inv g (roots g) {} (set (roots g)) []"
  by (auto simp: sort_inv_def roots_def topo_def wf_graph_def)

lemma Sort_acyclic:
  assumes "wf_graph g" and "acyclic (edge g)"
  shows "\<exists>out. Sort g = Some (Inr (g\<lparr>nodes_ids := out\<rparr>)) \<and> distinct out \<and>
    set out = set (nodes_ids g) \<and> topo g out"
proof -
  obtain out where out: "sort_loop g (roots g) {} (set (roots g)) [] = Some out" "distinct out"
    "set out = set (nodes_ids g)" "topo g out"
    using sort_loop_total [OF sort_inv_start assms] assms(1) by blast
  moreover have "length out = length (nodes_ids g)"
    using out(2,3) assms(1) distinct_card [of out] distinct_card [of "nodes_ids g"]
    by (simp add: wf_graph_def)
  ultimately show ?thesis by (auto simp: Sort_def)
qed

section \<open>The sort on cyclic graphs\<close>

text \<open>Whatever the loop returns satisfies the invariant with an empty queue.\<close>

definition sort_ok :: "Graph \<Rightarrow> nat list \<Rightarrow> nat set \<Rightarrow> nat set \<Rightarrow> nat list \<Rightarrow> bool" where
  "sort_ok g q visited vs out \<longleftrightarrow> wf_graph g \<and> (\<forall>a \<in> set (nodes_ids g). \<not> bi_direction g a) \<and>
     sort_inv g q visited vs out"

lemma sort_ok_step:
  assumes "sort_ok g (a # q) visited vs out"
  shows "if may_visit g visited a
    then sort_ok g (fst (queue_dsts (dstnodes (nd g a)) q vs)) (insert a visited)
      (snd (queue_dsts (dstnodes (nd g a)) q vs)) (out @ [a])
    else sort_ok g (q @ [a]) visited vs out"
proof -
  have "a \<in> set (nodes_ids g)" using assms by (auto simp: sort_ok_def sort_inv_def)
  then have "may_visit g visited a \<longleftrightarrow> set (srcnodes (nd g a)) \<subseteq> visited"
    using assms by (auto simp: sort_ok_def may_visit_def list_all_iff)
  then show ?thesis
    using assms sort_inv_visit [of g a q visited vs out] sort_inv_rotate [of g a q visited vs out]
    by (simp add: sort_ok_def)
qed

lemma sort_loop_partial:
  assumes "sort_loop g q visited vs out = Some r"
  shows "sort_ok g q visited vs out \<longrightarrow> sort_inv g [] (set r) (set r) r"
  using assms
proof (rule sort_loop.raw_induct [where P = "\<lambda>g q visited vs out r.
    sort_ok g q visited vs out \<longrightarrow> sort_inv g [] (set r) (set r) r", rotated])
  fix f g q visited vs out r
  assume IH: "\<And>g q visited vs out r. f g q visited vs out = Some r \<Longrightarrow>
      sort_ok g q visited vs out \<longrightarrow> sort_inv g [] (set r) (set r) r"
    and eq: "(case q of [] \<Rightarrow> Some out
      | a # q \<Rightarrow> if may_visit g visited a
          then f g (fst (queue_dsts (dstnodes (nd g a)) q vs)) (insert a visited)
            (snd (queue_dsts (dstnodes (nd g a)) q vs)) (out @ [a])
          else f g (q @ [a]) visited vs out) = Some r"
  show "sort_ok g q visited vs out \<longrightarrow> sort_inv g [] (set r) (set r) r"
  proof (cases q)
    case Nil
    then show ?thesis using eq by (auto simp: sort_ok_def sort_inv_def)
  next
    case (Cons a q')
    then show ?thesis
      using eq IH sort_ok_step [of g a q' visited vs out] by (cases "may_visit g visited a") simp_all
  qed
qed

lemma topo_acyclic:
  assumes "topo g out" and "set (nodes_ids g) \<subseteq> set out" and "distinct out"
  shows "acyclic (edge g)"
proof -
  let ?pos = "\<lambda>x. length (takeWhile (\<lambda>y. y \<noteq> x) out)"
  have "edge g \<subseteq> measure ?pos"
  proof (clarsimp simp: edge_def)
    fix s d
    assume "d \<in> set (nodes_ids g)" "s \<in> set (srcnodes (nd g d))"
    then obtain xs ys where out: "out = xs @ d # ys" "s \<in> set xs"
      using assms(1,2) by (metis in_mono split_list topo_def)
    then obtain xs1 xs2 where "xs = xs1 @ s # xs2" "s \<notin> set xs1"
      by (metis split_list_first)
    then show "?pos s < ?pos d"
      using out assms(3) by (auto simp: takeWhile_append)
  qed
  then show ?thesis by (metis wf_acyclic wf_measure wf_subset)
qed

lemma Sort_success_acyclic:
  assumes "wf_graph g" and "\<forall>a \<in> set (nodes_ids g). \<not> bi_direction g a"
    and "Sort g = Some (Inr g')"
  shows "acyclic (edge g)"
proof -
  obtain out where out: "sort_loop g (roots g) {} (set (roots g)) [] = Some out"
    "length out = length (nodes_ids g)"
    using assms(3) by (auto simp: Sort_def split: option.splits if_splits)
  have inv: "sort_inv g [] (set out) (set out) out"
    using sort_loop_partial [OF out(1)] assms(1,2) sort_inv_start by (simp add: sort_ok_def)
  then have "distinct out" "set out \<subseteq> set (nodes_ids g)" by (auto simp: sort_inv_def)
  moreover have "card (set (nodes_ids g)) = card (set out)"
    using out(2) assms(1) \<open>distinct out\<close> by (simp add: distinct_card wf_graph_def)
  ultimately have "set out = set (nodes_ids g)" by (metis card_subset_eq List.finite_set)
  then show ?thesis using inv topo_acyclic [of g out] by (simp add: sort_inv_def)
qed

section \<open>The graph as a multigraph of names\<close>

text \<open>
  What the clients of \<open>Graph\<close> see: a set of names and how often each pair of names is joined.
\<close>

definition names :: "Graph \<Rightarrow> string set" where
  "names g = dom (name2node g)"

definition mult :: "Graph \<Rightarrow> string \<Rightarrow> string \<Rightarrow> nat" where
  "mult g s d =
     (case (name2node g s, name2node g d) of
        (Some a, Some b) \<Rightarrow> count_list (dstnodes (nd g a)) b
      | _ \<Rightarrow> 0)"

lemma mult_Some:
  "name2node g s = Some a \<Longrightarrow> name2node g d = Some b \<Longrightarrow> mult g s d = count_list (dstnodes (nd g a)) b"
  by (simp add: mult_def)

lemma name2node_iff:
  "wf_graph g \<Longrightarrow> name2node g nm = Some a \<longleftrightarrow> a \<in> set (nodes_ids g) \<and> node_name (nd g a) = nm"
  by (simp add: wf_graph_def)

lemma name2node_eq_iff:
  "wf_graph g \<Longrightarrow> name2node g s = Some a \<Longrightarrow> name2node g s' = Some a \<Longrightarrow> s = s'"
  by (auto simp: name2node_iff)

lemma wf_graph_new: "wf_graph Graph_new"
  by (simp add: wf_graph_def Graph_new_def)

lemma AddNode_spec:
  assumes "wf_graph g" and "nm \<notin> names g" and "NUL \<notin> set nm"
  shows "wf_graph (snd (AddNode nm g))" and "names (snd (AddNode nm g)) = insert nm (names g)"
    and "mult (snd (AddNode nm g)) = mult g"
proof -
  have g': "snd (AddNode nm g) = g\<lparr>heap := (heap g)(fresh g := Node_of_name nm), fresh := fresh g + 1,
      nodes_ids := nodes_ids g @ [fresh g], name2node := (name2node g)(nm \<mapsto> fresh g)\<rparr>"
    by (simp add: AddNode_def new_node_def AddNode_ptr_def Node_of_name_def)
  have fr: "fresh g \<notin> set (nodes_ids g)" using wf_graphD(1) [OF assms(1)] by blast
  have no: "name2node g nm = None" using assms(2) by (auto simp: names_def)
  then have nm: "node_name (nd g a) \<noteq> nm" if "a \<in> set (nodes_ids g)" for a
    using wf_graphD(2) [OF assms(1) that] by auto
  have edges: "fresh g \<notin> set (srcnodes (nd g a))" "fresh g \<notin> set (dstnodes (nd g a))"
    if "a \<in> set (nodes_ids g)" for a
    using fr wf_graphD(4,5) [OF assms(1) that] by blast+
  have emp: "srcnodes (Node_of_name nm) = []" "dstnodes (Node_of_name nm) = []"
    "node_name (Node_of_name nm) = nm"
    by (simp_all add: Node_of_name_def)
  have "count_list xs (fresh g) = 0" if "fresh g \<notin> set xs" for xs
    using that by (simp add: count_list_0_iff)
  then show "wf_graph (snd (AddNode nm g))"
    using assms fr nm no edges emp unfolding g' wf_graph_def by (auto simp: less_Suc_eq)
  show "names (snd (AddNode nm g)) = insert nm (names g)"
    by (auto simp: g' names_def)
  have "name2node g s = Some a \<Longrightarrow> a \<in> set (nodes_ids g)" for s a
    using assms(1) by (simp add: name2node_iff)
  then show "mult (snd (AddNode nm g)) = mult g"
    using fr edges no emp \<open>\<And>xs. fresh g \<notin> set xs \<Longrightarrow> count_list xs (fresh g) = 0\<close>
    by (intro ext) (auto simp: g' mult_def split: option.splits)
qed

lemma AddEdge_ptr_simps [simp]:
  "fresh (AddEdge_ptr a b g) = fresh g" "nodes_ids (AddEdge_ptr a b g) = nodes_ids g"
  "name2node (AddEdge_ptr a b g) = name2node g"
  "node_name (nd (AddEdge_ptr a b g) c) = node_name (nd g c)"
  "dstnodes (nd (AddEdge_ptr a b g) c) = (if c = a then dstnodes (nd g a) @ [b] else dstnodes (nd g c))"
  "srcnodes (nd (AddEdge_ptr a b g) c) = (if c = b then srcnodes (nd g b) @ [a] else srcnodes (nd g c))"
  by (auto simp: AddEdge_ptr_def AddSrcNode_def AddDstNode_def upd_node_def)

lemma wf_AddEdge_ptr:
  assumes "wf_graph g" and "a \<in> set (nodes_ids g)" and "b \<in> set (nodes_ids g)"
  shows "wf_graph (AddEdge_ptr a b g)"
proof (rule wf_graphI)
  show "name2node (AddEdge_ptr a b g) nm = Some c \<longleftrightarrow>
      c \<in> set (nodes_ids (AddEdge_ptr a b g)) \<and> node_name (nd (AddEdge_ptr a b g) c) = nm" for nm c
    using assms(1) by (simp add: wf_graph_def)
  show "count_list (dstnodes (nd (AddEdge_ptr a b g) c)) d = count_list (srcnodes (nd (AddEdge_ptr a b g) d)) c"
    if "c \<in> set (nodes_ids (AddEdge_ptr a b g))" "d \<in> set (nodes_ids (AddEdge_ptr a b g))" for c d
    using that wf_graph_count [OF assms(1), of c d] by auto
qed (use assms(2,3) wf_graphD [OF assms(1)] wf_graph_distinct [OF assms(1)] in auto)

lemma AddEdge_spec:
  assumes "wf_graph g" and "s \<in> names g" and "d \<in> names g"
  shows "\<exists>g'. AddEdge s d g = Inr g' \<and> wf_graph g' \<and> names g' = names g \<and>
    mult g' = (\<lambda>x y. mult g x y + (if (x, y) = (s, d) then 1 else 0))"
proof -
  obtain a b where ab: "name2node g s = Some a" "name2node g d = Some b"
    using assms by (auto simp: names_def)
  have "mult (AddEdge_ptr a b g) x y = mult g x y + (if (x, y) = (s, d) then 1 else 0)" for x y
  proof (cases "name2node g x"; cases "name2node g y")
    fix a' b'
    assume "name2node g x = Some a'" "name2node g y = Some b'"
    moreover have "a' = a \<longleftrightarrow> x = s" "b' = b \<longleftrightarrow> y = d"
      using calculation ab name2node_eq_iff [OF assms(1)] by auto
    ultimately show ?thesis using ab by (auto simp: mult_def)
  qed (use ab in \<open>auto simp: mult_def\<close>)
  moreover have "wf_graph (AddEdge_ptr a b g)"
    using ab assms(1) by (intro wf_AddEdge_ptr) (auto simp: name2node_iff)
  ultimately show ?thesis using ab by (auto simp: AddEdge_def names_def fun_eq_iff)
qed

lemma AddEdge_missing: "s \<notin> names g \<or> d \<notin> names g \<Longrightarrow> AddEdge s d g = Inl CheckFailed"
  by (auto simp: AddEdge_def names_def dom_def split: option.splits)

text \<open>Removing by name is removing the first occurrence of the node when names are unique.\<close>

lemma erase_named_remove1:
  assumes "\<forall>a \<in> set as. nm a = nm b \<longrightarrow> a = b"
  shows "erase_named nm (nm b) as = (if b \<in> set as then Inr (remove1 b as) else Inl Undefined)"
  using assms by (induction as) auto

lemma count_list_remove1: "count_list (remove1 b xs) c = count_list xs c - (if c = b then 1 else 0)"
  by (induction xs) auto

lemma RemoveEdge_ptr_eq:
  assumes "wf_graph g" and "a \<in> set (nodes_ids g)" and "b \<in> set (nodes_ids g)"
    and "b \<in> set (dstnodes (nd g a))"
  shows "RemoveEdge_ptr a b g = Inr (upd_node b (\<lambda>n. n\<lparr>srcnodes := remove1 a (srcnodes (nd g b))\<rparr>)
    (upd_node a (\<lambda>n. n\<lparr>dstnodes := remove1 b (dstnodes (nd g a))\<rparr>) g))"
proof -
  let ?g = "upd_node a (\<lambda>n. n\<lparr>dstnodes := remove1 b (dstnodes (nd g a))\<rparr>) g"
  have keep: "node_name (nd ?g c) = node_name (nd g c)" "srcnodes (nd ?g c) = srcnodes (nd g c)" for c
    by (simp_all add: upd_node_def)
  have inj: "\<forall>c \<in> set (dstnodes (nd g a)). node_name (nd g c) = node_name (nd g b) \<longrightarrow> c = b"
    "\<forall>c \<in> set (srcnodes (nd g b)). node_name (nd g c) = node_name (nd g a) \<longrightarrow> c = a"
    using assms wf_graph_name_inj [OF assms(1)] wf_graphD(4,5) [OF assms(1)] by blast+
  have "RemoveDstNode a b g = Inr ?g"
    using erase_named_remove1 [OF inj(1)] assms(4) by (simp add: RemoveDstNode_def)
  moreover have "a \<in> set (srcnodes (nd g b))"
    using assms wf_graph_edge_iff by blast
  then have "erase_named (\<lambda>c. node_name (nd ?g c)) (node_name (nd ?g a)) (srcnodes (nd ?g b)) =
      Inr (remove1 a (srcnodes (nd g b)))"
    using erase_named_remove1 [OF inj(2)] by (simp add: keep)
  ultimately show ?thesis by (simp add: RemoveEdge_ptr_def RemoveSrcNode_def)
qed

lemma RemoveEdge_spec:
  assumes "wf_graph g" and "0 < mult g s d"
  shows "\<exists>g'. RemoveEdge s d g = Inr g' \<and> wf_graph g' \<and> names g' = names g \<and>
    mult g' = (\<lambda>x y. mult g x y - (if (x, y) = (s, d) then 1 else 0))"
proof -
  obtain a b where ab: "name2node g s = Some a" "name2node g d = Some b"
    and "count_list (dstnodes (nd g a)) b > 0"
    using assms(2) by (auto simp: mult_def split: option.splits)
  then have b: "b \<in> set (dstnodes (nd g a))" by (metis count_list_0_iff less_numeral_extra(3))
  have in_g: "a \<in> set (nodes_ids g)" "b \<in> set (nodes_ids g)"
    using ab assms(1) by (auto simp: name2node_iff)
  define g' where "g' = upd_node b (\<lambda>n. n\<lparr>srcnodes := remove1 a (srcnodes (nd g b))\<rparr>)
    (upd_node a (\<lambda>n. n\<lparr>dstnodes := remove1 b (dstnodes (nd g a))\<rparr>) g)"
  have g' [simp]: "fresh g' = fresh g" "nodes_ids g' = nodes_ids g" "name2node g' = name2node g"
    "node_name (nd g' c) = node_name (nd g c)"
    "dstnodes (nd g' c) = (if c = a then remove1 b (dstnodes (nd g a)) else dstnodes (nd g c))"
    "srcnodes (nd g' c) = (if c = b then remove1 a (srcnodes (nd g b)) else srcnodes (nd g c))" for c
    by (auto simp: g'_def upd_node_def)
  have ret: "RemoveEdge s d g = Inr g'"
    using RemoveEdge_ptr_eq [OF assms(1) in_g b] ab by (simp add: RemoveEdge_def g'_def)
  have sub: "set (remove1 a (srcnodes (nd g b))) \<subseteq> set (nodes_ids g)"
    "set (remove1 b (dstnodes (nd g a))) \<subseteq> set (nodes_ids g)"
    using wf_graphD(4,5) [OF assms(1)] in_g by (meson order_trans set_remove1_subset)+
  have "wf_graph g'"
  proof (rule wf_graphI)
    show "count_list (dstnodes (nd g' c)) e = count_list (srcnodes (nd g' e)) c"
      if "c \<in> set (nodes_ids g')" "e \<in> set (nodes_ids g')" for c e
      using that wf_graph_count [OF assms(1), of c e] by (auto simp: count_list_remove1)
    show "name2node g' nm = Some c \<longleftrightarrow> c \<in> set (nodes_ids g') \<and> node_name (nd g' c) = nm" for nm c
      using assms(1) by (simp add: name2node_iff)
  qed (use wf_graphD [OF assms(1)] wf_graph_distinct [OF assms(1)] sub in auto)
  moreover have "mult g' x y = mult g x y - (if (x, y) = (s, d) then 1 else 0)" for x y
  proof (cases "name2node g x"; cases "name2node g y")
    fix a' b'
    assume "name2node g x = Some a'" "name2node g y = Some b'"
    moreover have "a' = a \<longleftrightarrow> x = s" "b' = b \<longleftrightarrow> y = d"
      using calculation ab name2node_eq_iff [OF assms(1)] by auto
    ultimately show ?thesis using ab by (auto simp: mult_def count_list_remove1)
  qed (use ab in \<open>auto simp: mult_def\<close>)
  ultimately show ?thesis using ret by (auto simp: names_def fun_eq_iff)
qed

section \<open>The graph interface\<close>

text \<open>
  The contract the builders of a network rely on: a multigraph over names whose operations
  either do their work or stop.
\<close>

locale multigraph =
  fixes inv :: "'g \<Rightarrow> bool"
    and verts :: "'g \<Rightarrow> string set"
    and arcs :: "'g \<Rightarrow> string \<Rightarrow> string \<Rightarrow> nat"
    and add_edge :: "string \<Rightarrow> string \<Rightarrow> 'g \<Rightarrow> 'g res"
    and remove_edge :: "string \<Rightarrow> string \<Rightarrow> 'g \<Rightarrow> 'g res"
  assumes add_edge_ok: "inv g \<Longrightarrow> s \<in> verts g \<Longrightarrow> d \<in> verts g \<Longrightarrow>
      \<exists>g'. add_edge s d g = Inr g' \<and> inv g' \<and> verts g' = verts g \<and>
        arcs g' = (\<lambda>x y. arcs g x y + (if (x, y) = (s, d) then 1 else 0))"
    and remove_edge_ok: "inv g \<Longrightarrow> 0 < arcs g s d \<Longrightarrow>
      \<exists>g'. remove_edge s d g = Inr g' \<and> inv g' \<and> verts g' = verts g \<and>
        arcs g' = (\<lambda>x y. arcs g x y - (if (x, y) = (s, d) then 1 else 0))"
begin

lemma add_edges:
  assumes "inv g" and "\<forall>(s, d) \<in> set es. s \<in> verts g \<and> d \<in> verts g"
  shows "\<exists>g'. foldR (\<lambda>g (s, d). add_edge s d g) g es = Inr g' \<and> inv g' \<and> verts g' = verts g \<and>
    (\<forall>x y. arcs g' x y = arcs g x y + count_list es (x, y))"
  using assms
proof (induction es arbitrary: g)
  case (Cons e es)
  obtain s d where e: "e = (s, d)" by (cases e)
  obtain g1 where g1: "add_edge s d g = Inr g1" "inv g1" "verts g1 = verts g"
    "arcs g1 = (\<lambda>x y. arcs g x y + (if (x, y) = (s, d) then 1 else 0))"
    using add_edge_ok [of g s d] Cons.prems e by auto
  obtain g2 where "foldR (\<lambda>g (s, d). add_edge s d g) g1 es = Inr g2" "inv g2" "verts g2 = verts g1"
    "\<forall>x y. arcs g2 x y = arcs g1 x y + count_list es (x, y)"
    using Cons.IH [OF g1(2)] Cons.prems g1(3) by auto
  with g1 e show ?case by auto
qed auto

lemma remove_added_edge:
  assumes "inv g" and "s \<in> verts g" and "d \<in> verts g"
  shows "\<exists>g'. bindR (add_edge s d g) (remove_edge s d) = Inr g' \<and> inv g' \<and> verts g' = verts g \<and>
    arcs g' = arcs g"
proof -
  obtain g1 where g1: "add_edge s d g = Inr g1" "inv g1" "verts g1 = verts g"
    "arcs g1 = (\<lambda>x y. arcs g x y + (if (x, y) = (s, d) then 1 else 0))"
    using add_edge_ok [OF assms] by auto
  then have "0 < arcs g1 s d" by simp
  from remove_edge_ok [OF g1(2) this] obtain g2 where "remove_edge s d g1 = Inr g2" "inv g2"
    "verts g2 = verts g1" "arcs g2 = (\<lambda>x y. arcs g1 x y - (if (x, y) = (s, d) then 1 else 0))"
    by blast
  with g1 show ?thesis by (auto simp: fun_eq_iff)
qed

end

interpretation graph: multigraph wf_graph names mult AddEdge RemoveEdge
  by unfold_locales (auto dest: AddEdge_spec RemoveEdge_spec)

section \<open>Properties\<close>

text \<open>A graph built from nothing: nodes for the names, then the edges in order.\<close>

definition build_graph :: "string list \<Rightarrow> (string \<times> string) list \<Rightarrow> Graph res" where
  "build_graph nms es =
     foldR (\<lambda>g (s, d). AddEdge s d g) (fold (\<lambda>nm g. snd (AddNode nm g)) nms Graph_new) es"

lemma AddNodes_spec:
  assumes "wf_graph g" and "distinct nms" and "set nms \<inter> names g = {}" and "\<forall>nm \<in> set nms. NUL \<notin> set nm"
  shows "wf_graph (fold (\<lambda>nm g. snd (AddNode nm g)) nms g) \<and>
    names (fold (\<lambda>nm g. snd (AddNode nm g)) nms g) = names g \<union> set nms \<and>
    mult (fold (\<lambda>nm g. snd (AddNode nm g)) nms g) = mult g"
  using assms
proof (induction nms arbitrary: g)
  case (Cons nm nms)
  have "wf_graph (snd (AddNode nm g))" "names (snd (AddNode nm g)) = insert nm (names g)"
    "mult (snd (AddNode nm g)) = mult g"
    using AddNode_spec [of g nm] Cons.prems by auto
  then show ?case using Cons.IH [of "snd (AddNode nm g)"] Cons.prems by auto
qed simp

lemma build_graph_spec:
  assumes "distinct nms" and "\<forall>nm \<in> set nms. NUL \<notin> set nm"
    and "\<forall>(s, d) \<in> set es. s \<in> set nms \<and> d \<in> set nms"
  shows "\<exists>g. build_graph nms es = Inr g \<and> wf_graph g \<and> names g = set nms \<and>
    (\<forall>x y. mult g x y = count_list es (x, y))"
proof -
  have new: "names Graph_new = {}" "mult Graph_new = (\<lambda>x y. 0)"
    by (auto simp: names_def Graph_new_def mult_def fun_eq_iff)
  show ?thesis
    using AddNodes_spec [OF wf_graph_new assms(1)] assms(2,3)
      graph.add_edges [of "fold (\<lambda>nm g. snd (AddNode nm g)) nms Graph_new" es]
    by (auto simp: build_graph_def new)
qed

text \<open>
  Building a graph from distinct names and a list of edges over them succeeds and gives a
  well-formed graph whose edges are exactly that list, with multiplicity.
\<close>

theorem build_graph_ok:
  assumes "distinct nms" and "\<forall>nm \<in> set nms. NUL \<notin> set nm"
    and "\<forall>(s, d) \<in> set es. s \<in> set nms \<and> d \<in> set nms"
  shows "\<exists>g. build_graph nms es = Inr g \<and> wf_graph g \<and> names g = set nms \<and>
    (\<forall>x y. mult g x y = count_list es (x, y))"
  by (rule build_graph_spec [OF assms])

theorem build_graph_ok_witness:
  "\<exists>g. build_graph [''a'', ''b''] [(''a'', ''b''), (''a'', ''b'')] = Inr g \<and> wf_graph g \<and>
    names g = set [''a'', ''b''] \<and>
    (\<forall>x y. mult g x y = count_list [(''a'', ''b''), (''a'', ''b'')] (x, y))"
  by (rule build_graph_ok) auto

text \<open>
  \<open>AddEdge\<close> followed by \<open>RemoveEdge\<close> of the same edge leaves the nodes and the edges of a
  well-formed graph as they were.
\<close>

theorem RemoveEdge_undoes_AddEdge:
  assumes "wf_graph g" and "s \<in> names g" and "d \<in> names g"
  shows "\<exists>g'. bindR (AddEdge s d g) (RemoveEdge s d) = Inr g' \<and> wf_graph g' \<and>
    names g' = names g \<and> mult g' = mult g"
  by (rule graph.remove_added_edge [OF assms])

lemma wf_single: "wf_graph (snd (AddNode ''a'' Graph_new))" "''a'' \<in> names (snd (AddNode ''a'' Graph_new))"
  using AddNode_spec [OF wf_graph_new, of "''a''"] by (simp_all add: names_def Graph_new_def)

theorem RemoveEdge_undoes_AddEdge_witness:
  "\<exists>g'. bindR (AddEdge ''a'' ''a'' (snd (AddNode ''a'' Graph_new))) (RemoveEdge ''a'' ''a'') = Inr g' \<and>
    wf_graph g' \<and> names g' = names (snd (AddNode ''a'' Graph_new)) \<and>
    mult g' = mult (snd (AddNode ''a'' Graph_new))"
  by (rule RemoveEdge_undoes_AddEdge [OF wf_single wf_single(2)])

text \<open>Two graphs to run: a diamond, and a ring behind a root.\<close>

definition diamond :: Graph where
  "diamond = projr (build_graph [''d'', ''b'', ''c'', ''a'']
     [(''a'', ''b''), (''a'', ''c''), (''b'', ''d''), (''c'', ''d'')])"

definition ring :: Graph where
  "ring = projr (build_graph [''r'', ''a'', ''b'', ''c'']
     [(''r'', ''a''), (''a'', ''b''), (''b'', ''c''), (''c'', ''a'')])"

fun topo_from :: "Graph \<Rightarrow> nat set \<Rightarrow> nat list \<Rightarrow> bool" where
  "topo_from g seen [] \<longleftrightarrow> True"
| "topo_from g seen (a # as) \<longleftrightarrow> set (srcnodes (nd g a)) \<subseteq> seen \<and> topo_from g (insert a seen) as"

lemma topo_Nil: "topo g []"
  by (simp add: topo_def)

lemma topo_from_topo: "topo_from g (set xs) ys \<Longrightarrow> topo g xs \<Longrightarrow> topo g (xs @ ys)"
proof (induction ys arbitrary: xs)
  case (Cons y ys)
  then show ?case using Cons.IH [of "xs @ [y]"] topo_snoc [of g xs y] by simp
qed simp

lemma wf_projr_build:
  assumes "distinct nms" and "list_all (\<lambda>nm. NUL \<notin> set nm) nms"
    and "list_all (\<lambda>e. fst e \<in> set nms \<and> snd e \<in> set nms) es"
  shows "wf_graph (projr (build_graph nms es))"
proof -
  have "\<forall>(s, d) \<in> set es. s \<in> set nms \<and> d \<in> set nms"
    using assms(3) by (auto simp: list_all_iff)
  then obtain g where "build_graph nms es = Inr g" "wf_graph g"
    using build_graph_spec [OF assms(1), of es] assms(2) by (auto simp: list_all_iff)
  then show ?thesis by simp
qed

lemma wf_diamond: "wf_graph diamond" and wf_ring: "wf_graph ring"
  unfolding diamond_def ring_def by (rule wf_projr_build; code_simp)+

lemma acyclic_diamond: "acyclic (edge diamond)"
proof (rule topo_acyclic)
  have "topo_from diamond (set []) [3, 1, 2, 0]" by code_simp
  then show "topo diamond [3, 1, 2, 0]"
    using topo_from_topo [of diamond "[]" "[3, 1, 2, 0]"] topo_Nil [of diamond]
    by (simp only: append_Nil)
  show "set (nodes_ids diamond) \<subseteq> set [3, 1, 2, 0]" by code_simp
  show "distinct [3, 1, 2, 0 :: nat]" by simp
qed





text \<open>
  Nodes each of which has a source among them are never placed, so the loop cannot empty a queue
  that holds one of them.
\<close>

lemma sort_loop_stuck:
  assumes "sort_loop g q visited vs out = Some r"
  shows "(\<forall>a \<in> C. \<not> bi_direction g a \<and> set (srcnodes (nd g a)) \<inter> C \<noteq> {}) \<longrightarrow> C \<inter> visited = {} \<longrightarrow>
    C \<inter> set q = {}"
  using assms
proof (rule sort_loop.raw_induct [where P = "\<lambda>g q visited vs out r.
    (\<forall>a \<in> C. \<not> bi_direction g a \<and> set (srcnodes (nd g a)) \<inter> C \<noteq> {}) \<longrightarrow> C \<inter> visited = {} \<longrightarrow>
    C \<inter> set q = {}", rotated])
  fix f g q visited vs out r
  assume IH: "\<And>g q visited vs out r. f g q visited vs out = Some r \<Longrightarrow>
      (\<forall>a \<in> C. \<not> bi_direction g a \<and> set (srcnodes (nd g a)) \<inter> C \<noteq> {}) \<longrightarrow> C \<inter> visited = {} \<longrightarrow>
      C \<inter> set q = {}"
    and eq: "(case q of [] \<Rightarrow> Some out
      | a # q \<Rightarrow> if may_visit g visited a
          then f g (fst (queue_dsts (dstnodes (nd g a)) q vs)) (insert a visited)
            (snd (queue_dsts (dstnodes (nd g a)) q vs)) (out @ [a])
          else f g (q @ [a]) visited vs out) = Some r"
  have grows: "set q \<subseteq> set (fst (queue_dsts ds q vs))" for ds q vs
    by (induction ds q vs rule: queue_dsts.induct) auto
  show "(\<forall>a \<in> C. \<not> bi_direction g a \<and> set (srcnodes (nd g a)) \<inter> C \<noteq> {}) \<longrightarrow> C \<inter> visited = {} \<longrightarrow>
    C \<inter> set q = {}"
  proof (intro impI)
    assume C: "\<forall>a \<in> C. \<not> bi_direction g a \<and> set (srcnodes (nd g a)) \<inter> C \<noteq> {}" "C \<inter> visited = {}"
    show "C \<inter> set q = {}"
    proof (cases q)
      case (Cons a q')
      show ?thesis
      proof (cases "may_visit g visited a")
        case True
        then have "a \<notin> C" using C by (fastforce simp: may_visit_def list_all_iff)
        then show ?thesis
          using True Cons eq C grows [of q' "dstnodes (nd g a)" vs]
            IH [of g "fst (queue_dsts (dstnodes (nd g a)) q' vs)" "insert a visited"
              "snd (queue_dsts (dstnodes (nd g a)) q' vs)" "out @ [a]" r] by auto
      next
        case False
        then show ?thesis using Cons eq IH [of g "q' @ [a]" visited] C by auto
      qed
    qed simp
  qed
qed

text \<open>
  On a cycle that a root leads into, \<open>Sort\<close> runs forever: the \<open>CHECK\<close> behind the loop that
  would report the cycle is never reached.
\<close>

theorem Sort_diverges_on_cycle: "Sort ring = None"
proof -
  have "sort_loop ring [1] {0} {0, 1} [0] = None"
  proof (rule ccontr)
    assume "sort_loop ring [1] {0} {0, 1} [0] \<noteq> None"
    then obtain r where "sort_loop ring [1] {0} {0, 1} [0] = Some r" by auto
    from sort_loop_stuck [OF this, of "set [1, 2, 3]"]
    have "\<not> list_all (\<lambda>a. \<not> bi_direction ring a \<and>
        list_ex (\<lambda>s. s \<in> set [1, 2, 3]) (srcnodes (nd ring a))) [1, 2, 3]"
      by (auto simp: list_ex_iff)
    moreover have "list_all (\<lambda>a. \<not> bi_direction ring a \<and>
        list_ex (\<lambda>s. s \<in> set [1, 2, 3]) (srcnodes (nd ring a))) [1, 2, 3]"
      by code_simp
    ultimately show False by contradiction
  qed
  moreover have "roots ring = [0]" by code_simp
  moreover have "may_visit ring {} 0" by code_simp
  moreover have "queue_dsts (dstnodes (nd ring 0)) [] {0} = ([1], {0, 1})" by code_simp
  ultimately show ?thesis
    by (simp add: Sort_def sort_loop.simps [of ring "[0]"])
qed

end
