(* ===== verification/DataShard.thy ===== *)
theory DataShard
  imports Prelude
begin

text \<open>
  Model of \<open>src/include/utils/data_shard.h\<close> and \<open>src/src/utils/data_shard.cc\<close>: the record
  file that feeds training data to the input layers.

  The file is a list of bytes, or \<open>None\<close> when it does not exist; every operation takes it and
  writers return it changed. The \<open>fstream\<close> of the class is its position and its \<open>eof\<close> and
  \<open>fail\<close> flags. \<open>buf\<close> holds the first \<open>bufsize_\<close> bytes of the buffer, the ones that were
  written. The scans of \<open>Count\<close> and \<open>PrepareForAppend\<close> move by lengths read from the file and
  may not end on a damaged file: they are \<open>partial_function (option)\<close>.
\<close>

section \<open>State\<close>

record Shard =
  sh_mode :: int
  keys :: "string set"
  buf :: bytes
  offset :: int
  capacity :: int
  spos :: nat
  seof :: bool
  sfail :: bool

definition kRead :: int where "kRead = 0"
definition kCreate :: int where "kCreate = 1"
definition kAppend :: int where "kAppend = 2"

abbreviation bufsize :: "Shard \<Rightarrow> int" where
  "bufsize s \<equiv> int (length (buf s))"

section \<open>The file stream\<close>

text \<open>Writing at a position; a gap behind the end of the file is filled with zero bytes.\<close>

definition write_at :: "nat \<Rightarrow> bytes \<Rightarrow> bytes \<Rightarrow> bytes" where
  "write_at p data file = take p (file @ replicate (p - length file) NUL) @ data @ drop (p + length data) file"

definition stream_write :: "bytes \<Rightarrow> Shard \<Rightarrow> bytes \<Rightarrow> Shard \<times> bytes" where
  "stream_write data s file =
     (if sh_mode s = kRead \<or> seof s \<or> sfail s then (s\<lparr>sfail := True\<rparr>, file)
      else (s\<lparr>spos := spos s + length data\<rparr>, write_at (spos s) data file))"

text \<open>
  \<open>istream::read\<close>: nothing on a stream that is not good; otherwise as many bytes as there are,
  with \<open>eof\<close> and \<open>fail\<close> set when they are fewer than asked for.
\<close>

definition stream_read :: "nat \<Rightarrow> Shard \<Rightarrow> bytes \<Rightarrow> bytes \<times> Shard" where
  "stream_read n s file =
     (if sh_mode s = kCreate \<or> seof s \<or> sfail s then ([], s\<lparr>sfail := True\<rparr>)
      else let got = segment (spos s) n file in
           (got, s\<lparr>spos := spos s + length got, seof := length got < n, sfail := length got < n\<rparr>))"

section \<open>Reading\<close>

definition PrepareNextField :: "int \<Rightarrow> bytes \<Rightarrow> Shard \<Rightarrow> bool \<times> Shard" where
  "PrepareNextField sz file s =
     (if bufsize s < offset s + sz then
        (let s1 = s\<lparr>buf := drop (nat (offset s)) (buf s), offset := 0\<rparr> in
         if seof s1 then (False, s1)
         else let (got, s2) = stream_read (nat (capacity s1 - bufsize s1)) s1 file;
                  s3 = s2\<lparr>buf := buf s2 @ got\<rparr> in
              (\<not> bufsize s3 < sz, s3))
      else (True, s))"

text \<open>\<open>n\<close> bytes of the buffer from \<open>offset_\<close> on.\<close>

definition buf_at :: "int \<Rightarrow> Shard \<Rightarrow> bytes res" where
  "buf_at n s =
     checkR (0 \<le> offset s \<and> offset s + n \<le> bufsize s) Undefined
       (Inr (segment (nat (offset s)) (nat n) (buf s)))"

definition advance :: "int \<Rightarrow> Shard \<Rightarrow> Shard" where
  "advance n s = s\<lparr>offset := offset s + n\<rparr>"

text \<open>
  A length field: a \<open>size_t\<close> of eight bytes that is stored in an \<open>int\<close>. \<open>None\<close> stands for the
  early return 0.
\<close>

definition next_len :: "bytes \<Rightarrow> Shard \<Rightarrow> (int option \<times> Shard) res" where
  "next_len file s =
     (case PrepareNextField 8 file s of
        (False, s1) \<Rightarrow> Inr (None, s1)
      | (True, s1) \<Rightarrow>
          bindR (buf_at 8 s1) (\<lambda>b. Inr (Some (c_int (le_val b)), advance 8 s1)))"

definition Next_key :: "bytes \<Rightarrow> Shard \<Rightarrow> (int \<times> string \<times> Shard) res" where
  "Next_key file s =
     bindR (next_len file s) (\<lambda>(k, s1).
       case k of
         None \<Rightarrow> Inr (0, [], s1)
       | Some keylen \<Rightarrow>
           (case PrepareNextField keylen file s1 of
              (False, s2) \<Rightarrow> Inr (0, [], s2)
            | (True, s2) \<Rightarrow>
                bindR (if 0 < keylen then buf_at keylen s2 else Inr []) (\<lambda>key.
                bindR (next_len file (advance keylen s2)) (\<lambda>(v, s3).
                  case v of
                    None \<Rightarrow> Inr (0, key, s3)
                  | Some vallen \<Rightarrow>
                      (case PrepareNextField vallen file s3 of
                         (False, s4) \<Rightarrow> Inr (0, key, s4)
                       | (True, s4) \<Rightarrow> Inr (vallen, key, s4))))))"

text \<open>\<open>Next(string*, string*)\<close>: \<open>None\<close> when it returns false.\<close>

definition Next :: "bytes \<Rightarrow> Shard \<Rightarrow> ((string \<times> string) option \<times> Shard) res" where
  "Next file s =
     bindR (Next_key file s) (\<lambda>(vallen, key, s1).
       if vallen = 0 then Inr (None, s1)
       else bindR (if 0 < vallen then buf_at vallen s1 else Inr []) (\<lambda>val.
              Inr (Some (key, val), advance vallen s1)))"

definition SeekToFirst :: "Shard \<Rightarrow> Shard res" where
  "SeekToFirst s =
     checkR (sh_mode s = kRead) CheckFailed
       (Inr (s\<lparr>buf := [], offset := 0, spos := 0, seof := False, sfail := False\<rparr>))"

section \<open>Writing\<close>

definition size_bytes :: "nat \<Rightarrow> bytes" where
  "size_bytes n = le_bytes 8 (int n)"

definition enc_tuple :: "string \<times> string \<Rightarrow> bytes" where
  "enc_tuple t = size_bytes (length (fst t)) @ fst t @ size_bytes (length (snd t)) @ snd t"

definition Insert :: "string \<Rightarrow> string \<Rightarrow> Shard \<Rightarrow> bytes \<Rightarrow> (bool \<times> Shard \<times> bytes) res" where
  "Insert key val s file =
     (if key \<in> keys s \<or> val = [] then Inr (False, s, file)
      else
        let sz = c_int (int (length key + length val + 16)) in
        checkR (is_c_int (bufsize s + sz)) Undefined
        (bindR
          (if capacity s < bufsize s + sz then
             (let (s1, file1) = stream_write (buf s) s file in
              checkR (sz \<le> capacity s) CheckFailed (Inr (s1\<lparr>buf := []\<rparr>, file1)))
           else Inr (s, file))
          (\<lambda>(s2, file2).
            checkR (bufsize s2 + int (length key + length val + 16) \<le> capacity s2) Undefined
              (Inr (True, s2\<lparr>buf := buf s2 @ size_bytes (length key) @ key @
                 size_bytes (length val) @ val\<rparr>, file2)))))"

definition Flush :: "Shard \<Rightarrow> bytes \<Rightarrow> Shard \<times> bytes" where
  "Flush s file = (let (s1, file1) = stream_write (buf s) s file in (s1\<lparr>buf := []\<rparr>, file1))"

section \<open>Scanning\<close>

text \<open>
  The scans use an \<open>ifstream\<close> of their own: \<open>p\<close> is its position. A read that comes short ends
  the scan; \<open>seekg\<close> only fails when it would go before the beginning, it may well go behind the
  end of the file. The length is a \<open>size_t\<close> taken as a signed offset.
\<close>

definition fin_len :: "bytes \<Rightarrow> nat \<Rightarrow> int option" where
  "fin_len file p = (if p + 8 \<le> length file then Some (le_val (segment p 8 file)) else None)"

definition fin_seek :: "nat \<Rightarrow> int \<Rightarrow> nat option" where
  "fin_seek p len =
     (let p' = int p + signed_take_bit 63 len in if 0 \<le> p' then Some (nat p') else None)"

partial_function (option) count_loop :: "bytes \<Rightarrow> nat \<Rightarrow> int \<Rightarrow> int option" where
  "count_loop file p cnt =
     (case fin_len file p of None \<Rightarrow> Some cnt | Some klen \<Rightarrow>
     (case fin_seek (p + 8) klen of None \<Rightarrow> Some cnt | Some p1 \<Rightarrow>
     (case fin_len file p1 of None \<Rightarrow> Some cnt | Some vlen \<Rightarrow>
     (case fin_seek (p1 + 8) vlen of None \<Rightarrow> Some cnt | Some p2 \<Rightarrow>
        count_loop file p2 (cnt + 1)))))"

declare count_loop.simps [code]

definition Count :: "bytes \<Rightarrow> int option" where
  "Count file = count_loop file 0 0"

text \<open>
  \<open>PrepareForAppend\<close> reads a key into \<open>char buf[256]\<close> and puts a zero behind it, so a key
  length of 256 or more is written out of bounds. The key is kept as a C string.
\<close>

partial_function (option) append_loop ::
  "bytes \<Rightarrow> nat \<Rightarrow> string set \<Rightarrow> int \<Rightarrow> (string set \<times> int) res option" where
  "append_loop file p ks pos =
     (case fin_len file p of None \<Rightarrow> Some (Inr (ks, pos)) | Some klen \<Rightarrow>
      if 256 \<le> klen then Some (Inl Undefined)
      else if length file < p + 8 + nat klen then Some (Inr (ks, pos))
      else
     (case fin_len file (p + 8 + nat klen) of None \<Rightarrow> Some (Inr (ks, pos)) | Some vlen \<Rightarrow>
     (case fin_seek (p + 8 + nat klen + 8) vlen of None \<Rightarrow> Some (Inr (ks, pos)) | Some p2 \<Rightarrow>
        append_loop file p2 (insert (cstr (segment (p + 8) (nat klen) file)) ks) (c_int (int p2)))))"

declare append_loop.simps [code]

definition PrepareForAppend :: "bytes option \<Rightarrow> (string set \<times> int) res option" where
  "PrepareForAppend fopt =
     (case fopt of
        None \<Rightarrow> Some (Inr ({}, 0))
      | Some file \<Rightarrow> append_loop file 0 {} 0)"

section \<open>Construction\<close>

definition shard0 :: "int \<Rightarrow> int \<Rightarrow> Shard" where
  "shard0 mode cap = \<lparr>sh_mode = mode, keys = {}, buf = [], offset = 0, capacity = cap, spos = 0,
     seof = False, sfail = False\<rparr>"

text \<open>
  The constructor. \<open>folder\<close> tells whether the directory exists, \<open>fopt\<close> is \<open>shard.dat\<close> in it.
  A negative position makes \<open>seekp\<close> fail.
\<close>

definition DataShard_open :: "bool \<Rightarrow> bytes option \<Rightarrow> int \<Rightarrow> int \<Rightarrow> (Shard \<times> bytes option) res option" where
  "DataShard_open folder fopt mode cap =
     (if \<not> folder then Some (Inl CheckFailed)
      else if mode = kRead then
        Some (case fopt of None \<Rightarrow> Inl CheckFailed | Some file \<Rightarrow> Inr (shard0 mode cap, fopt))
      else if mode = kCreate then Some (Inr (shard0 mode cap, Some []))
      else if mode = kAppend then
        (case PrepareForAppend fopt of
           None \<Rightarrow> None
         | Some r \<Rightarrow> Some (bindR r (\<lambda>(ks, last_tuple).
             case fopt of
               None \<Rightarrow> Inl CheckFailed
             | Some file \<Rightarrow>
                 Inr ((shard0 mode cap)\<lparr>keys := ks, spos := nat last_tuple, sfail := last_tuple < 0\<rparr>, fopt))))
      else Some (Inr ((shard0 mode cap)\<lparr>sfail := True\<rparr>, fopt)))"

section \<open>The reader\<close>

text \<open>
  What is left to read: the unread bytes of the buffer and the rest of the file. The invariant
  keeps the buffer within its capacity and the flags meaningful.
\<close>

definition remaining :: "bytes \<Rightarrow> Shard \<Rightarrow> bytes" where
  "remaining file s = drop (nat (offset s)) (buf s) @ drop (spos s) file"

definition reader_inv :: "bytes \<Rightarrow> Shard \<Rightarrow> bool" where
  "reader_inv file s \<longleftrightarrow> sh_mode s = kRead \<and> 0 \<le> offset s \<and> offset s \<le> bufsize s \<and>
     bufsize s \<le> capacity s \<and> (seof s \<longrightarrow> length file \<le> spos s) \<and> (sfail s \<longrightarrow> seof s)"

lemma mode_distinct [simp]: "kRead \<noteq> kCreate" "kCreate \<noteq> kRead" "kRead \<noteq> kAppend" "kAppend \<noteq> kRead"
  "kCreate \<noteq> kAppend" "kAppend \<noteq> kCreate"
  by (simp_all add: kRead_def kCreate_def kAppend_def)

lemma stream_read_spec:
  assumes "reader_inv file s" and "\<not> seof s" and "stream_read n s file = (got, s')"
  shows "got = take n (drop (spos s) file)" and "drop (spos s') file = drop n (drop (spos s) file)"
    and "buf s' = buf s" and "offset s' = offset s" and "capacity s' = capacity s"
    and "sh_mode s' = sh_mode s" and "seof s' \<longrightarrow> length file \<le> spos s'" and "sfail s' \<longrightarrow> seof s'"
proof -
  have s': "s' = s\<lparr>spos := spos s + length got, seof := length got < n, sfail := length got < n\<rparr>"
    and got: "got = take n (drop (spos s) file)"
    using assms by (auto simp: stream_read_def reader_inv_def Let_def segment_def)
  have len: "length got = min n (length file - spos s)" by (simp add: got)
  show "drop (spos s') file = drop n (drop (spos s) file)"
    by (simp add: s' len drop_drop add.commute min_def)
  show "seof s' \<longrightarrow> length file \<le> spos s'" by (auto simp: s' len min_def split: if_splits)
qed (use assms in \<open>auto simp: stream_read_def reader_inv_def Let_def segment_def\<close>)

lemma PrepareNextField_spec:
  assumes "reader_inv file s" and "0 \<le> sz" and "sz \<le> capacity s"
    and "PrepareNextField sz file s = (ok, s')"
  shows "ok \<longleftrightarrow> sz \<le> int (length (remaining file s))" and "reader_inv file s'"
    and "remaining file s' = remaining file s" and "capacity s' = capacity s"
    and "ok \<Longrightarrow> offset s' + sz \<le> bufsize s'"
proof -
  let ?s1 = "s\<lparr>buf := drop (nat (offset s)) (buf s), offset := 0\<rparr>"
  have inv1: "reader_inv file ?s1" and rem1: "remaining file ?s1 = remaining file s"
    using assms(1) by (auto simp: reader_inv_def remaining_def)
  consider (fits) "offset s + sz \<le> bufsize s" "ok" "s' = s"
    | (over) "bufsize s < offset s + sz" "seof s" "\<not> ok" "s' = ?s1"
    | (read) got s2 where "bufsize s < offset s + sz" "\<not> seof s"
        "stream_read (nat (capacity s - bufsize ?s1)) ?s1 file = (got, s2)"
        "s' = s2\<lparr>buf := buf s2 @ got\<rparr>" "ok \<longleftrightarrow> sz \<le> int (length (buf s2 @ got))"
    using assms(4) by (auto simp: PrepareNextField_def Let_def split: if_splits prod.splits)
  then have "(ok \<longleftrightarrow> sz \<le> int (length (remaining file s))) \<and> reader_inv file s' \<and>
    remaining file s' = remaining file s \<and> capacity s' = capacity s \<and>
    (ok \<longrightarrow> offset s' + sz \<le> bufsize s')"
  proof cases
    case fits
    then show ?thesis using assms(1) by (auto simp: reader_inv_def remaining_def)
  next
    case over
    then show ?thesis using assms(1) inv1 rem1 by (auto simp: reader_inv_def remaining_def)
  next
    case read
    note sr = stream_read_spec [OF inv1 _ read(3)]
    let ?n = "nat (capacity s - bufsize ?s1)"
    have got: "got = take ?n (drop (spos s) file)" "drop (spos s2) file = drop ?n (drop (spos s) file)"
      "buf s2 = drop (nat (offset s)) (buf s)" "offset s2 = 0" "capacity s2 = capacity s"
      "sh_mode s2 = sh_mode s" "seof s2 \<longrightarrow> length file \<le> spos s2" "sfail s2 \<longrightarrow> seof s2"
      using sr read(2) by simp_all
    have rem: "remaining file s' = remaining file s"
      using got read(4) by (simp add: remaining_def del: drop_drop)
    have cap: "bufsize ?s1 \<le> capacity s" using inv1 by (simp add: reader_inv_def)
    then have size: "int (length (buf s2 @ got)) = min (capacity s) (int (length (remaining file s)))"
      using assms(1) by (auto simp: got remaining_def reader_inv_def min_def)
    have "reader_inv file s'"
      using got read(4) size assms(1) by (auto simp: reader_inv_def min_def split: if_splits)
    moreover have "ok \<longleftrightarrow> sz \<le> int (length (remaining file s))"
      unfolding read(5) size using assms(3) by auto
    ultimately show ?thesis using rem got read by simp
  qed
  then show "ok \<longleftrightarrow> sz \<le> int (length (remaining file s))" and "reader_inv file s'"
    and "remaining file s' = remaining file s" and "capacity s' = capacity s"
    and "ok \<Longrightarrow> offset s' + sz \<le> bufsize s'"
    by blast+
qed

lemma buf_at_spec:
  assumes "reader_inv file s" and "0 \<le> n" and "offset s + n \<le> bufsize s"
  shows "buf_at n s = Inr (take (nat n) (remaining file s))" and "reader_inv file (advance n s)"
    and "remaining file (advance n s) = drop (nat n) (remaining file s)"
    and "capacity (advance n s) = capacity s"
proof -
  have le: "nat n + nat (offset s) \<le> length (buf s)"
    and add: "nat (offset s + n) = nat n + nat (offset s)"
    using assms by (auto simp: reader_inv_def nat_add_distrib)
  then show "buf_at n s = Inr (take (nat n) (remaining file s))"
    and "remaining file (advance n s) = drop (nat n) (remaining file s)"
    using assms by (simp_all add: buf_at_def remaining_def segment_def advance_def reader_inv_def)
qed (use assms in \<open>auto simp: reader_inv_def advance_def\<close>)

text \<open>A field of the expected size at the front of what remains is delivered and consumed.\<close>

lemma field_spec:
  assumes "reader_inv file s" and "remaining file s = fld @ rest" and "int (length fld) = n" and "n \<le> capacity s"
  shows "\<exists>s'. PrepareNextField n file s = (True, s') \<and> buf_at n s' = Inr fld \<and> reader_inv file s' \<and>
    remaining file s' = fld @ rest \<and> capacity s' = capacity s \<and>
    reader_inv file (advance n s') \<and> remaining file (advance n s') = rest \<and>
    capacity (advance n s') = capacity s"
proof -
  obtain ok s' where p: "PrepareNextField n file s = (ok, s')" by fastforce
  note sp = PrepareNextField_spec [OF assms(1) _ assms(4) p]
  have "0 \<le> n" "nat n = length fld" using assms(3) by auto
  then have ok: "ok" "reader_inv file s'" "remaining file s' = fld @ rest" "capacity s' = capacity s"
    "offset s' + n \<le> bufsize s'"
    using sp assms(2,3) by auto
  show ?thesis
    using p ok buf_at_spec [OF ok(2) \<open>0 \<le> n\<close> ok(5)] \<open>nat n = length fld\<close> by simp
qed

lemma next_len_spec:
  assumes "reader_inv file s" and "8 \<le> capacity s" and "n < 2 ^ 31"
    and "remaining file s = size_bytes n @ rest"
  shows "\<exists>s'. next_len file s = Inr (Some (int n), s') \<and> reader_inv file s' \<and>
    remaining file s' = rest \<and> capacity s' = capacity s"
proof -
  obtain s' where s': "PrepareNextField 8 file s = (True, s')" "buf_at 8 s' = Inr (size_bytes n)"
    "reader_inv file (advance 8 s')" "remaining file (advance 8 s') = rest"
    "capacity (advance 8 s') = capacity s"
    using field_spec [OF assms(1,4) _ assms(2)] by (auto simp: size_bytes_def)
  have "int n < 2 ^ 31" using assms(3) by (simp add: less_numeral_extra)
  then have "c_int (le_val (size_bytes n)) = int n"
    by (simp add: size_bytes_def le_val_le_bytes is_c_int_def)
  then show ?thesis using s' by (simp add: next_len_def)
qed

lemma next_len_end:
  assumes "reader_inv file s" and "8 \<le> capacity s" and "length (remaining file s) < 8"
  shows "\<exists>s'. next_len file s = Inr (None, s') \<and> reader_inv file s' \<and>
    remaining file s' = remaining file s \<and> capacity s' = capacity s"
proof -
  obtain ok s' where p: "PrepareNextField 8 file s = (ok, s')" by fastforce
  then show ?thesis
    using PrepareNextField_spec [OF assms(1) _ assms(2) p] assms(3) by (simp add: next_len_def)
qed

definition fits :: "int \<Rightarrow> string \<times> string \<Rightarrow> bool" where
  "fits cap t \<longleftrightarrow> int (length (fst t)) \<le> cap \<and> int (length (snd t)) \<le> cap \<and> snd t \<noteq> [] \<and>
     length (fst t) < 2 ^ 31 \<and> length (snd t) < 2 ^ 31"

lemma Next_tuple:
  assumes "reader_inv file s" and "8 \<le> capacity s" and "fits (capacity s) t"
    and "remaining file s = enc_tuple t @ rest"
  shows "\<exists>s'. Next file s = Inr (Some t, s') \<and> reader_inv file s' \<and> remaining file s' = rest \<and>
    capacity s' = capacity s"
proof -
  obtain k v where t: "t = (k, v)" by (cases t)
  have f: "int (length k) \<le> capacity s" "int (length v) \<le> capacity s" "v \<noteq> []"
    "length k < 2 ^ 31" "length v < 2 ^ 31"
    using assms(3) by (simp_all add: fits_def t)
  have "remaining file s = size_bytes (length k) @ k @ size_bytes (length v) @ v @ rest"
    using assms(4) by (simp add: enc_tuple_def t)
  from next_len_spec [OF assms(1,2) f(4) this] obtain s1 where s1:
    "next_len file s = Inr (Some (int (length k)), s1)" "reader_inv file s1"
    "remaining file s1 = k @ size_bytes (length v) @ v @ rest" "capacity s1 = capacity s"
    by blast
  from field_spec [OF s1(2,3), of "int (length k)"] f(1) s1(4) obtain s2 where s2:
    "PrepareNextField (int (length k)) file s1 = (True, s2)" "buf_at (int (length k)) s2 = Inr k"
    "reader_inv file (advance (int (length k)) s2)"
    "remaining file (advance (int (length k)) s2) = size_bytes (length v) @ v @ rest"
    "capacity (advance (int (length k)) s2) = capacity s"
    by auto
  from next_len_spec [OF s2(3) _ f(5) s2(4)] assms(2) s2(5) obtain s3 where s3:
    "next_len file (advance (int (length k)) s2) = Inr (Some (int (length v)), s3)"
    "reader_inv file s3" "remaining file s3 = v @ rest" "capacity s3 = capacity s"
    by auto
  from field_spec [OF s3(2,3), of "int (length v)"] f(2) s3(4) obtain s4 where s4:
    "PrepareNextField (int (length v)) file s3 = (True, s4)" "buf_at (int (length v)) s4 = Inr v"
    "reader_inv file (advance (int (length v)) s4)"
    "remaining file (advance (int (length v)) s4) = rest"
    "capacity (advance (int (length v)) s4) = capacity s"
    by auto
  have key: "(if 0 < int (length k) then buf_at (int (length k)) s2 else Inr []) = Inr k"
    using s2(2) by simp
  have "Next_key file s = Inr (int (length v), k, s4)"
    unfolding Next_key_def s1(1) s2(1) bindR_Inr prod.case option.case bool.case key s3(1) s4(1) ..
  then have "Next file s = Inr (Some t, advance (int (length v)) s4)"
    using s4(2) f(3) by (simp add: Next_def t)
  then show ?thesis using s4 by blast
qed

text \<open>
  A tuple cut off at any byte, as a crash of the writer leaves it, makes \<open>Next\<close> return false.
\<close>

lemma short_field:
  assumes "reader_inv file s" and "remaining file s = p" and "length p < n" and "int n \<le> capacity s"
  shows "\<exists>s'. PrepareNextField (int n) file s = (False, s')"
proof -
  obtain ok s' where p: "PrepareNextField (int n) file s = (ok, s')" by fastforce
  then show ?thesis
    using PrepareNextField_spec(1) [OF assms(1) _ assms(4) p] assms(2,3) by auto
qed

lemma Next_truncated:
  assumes "reader_inv file s" and "8 \<le> capacity s" and "fits (capacity s) t"
    and "remaining file s = p" and "p @ q = enc_tuple t" and "q \<noteq> []"
  shows "\<exists>s'. Next file s = Inr (None, s')"
proof -
  obtain k v where t: "t = (k, v)" by (cases t)
  have f: "int (length k) \<le> capacity s" "int (length v) \<le> capacity s"
    "length k < 2 ^ 31" "length v < 2 ^ 31"
    using assms(3) by (simp_all add: fits_def t)
  have pq: "p @ q = size_bytes (length k) @ k @ size_bytes (length v) @ v"
    using assms(5) by (simp add: enc_tuple_def t)
  show ?thesis
  proof (cases "length p < 8")
    case True
    then show ?thesis
      using next_len_end [OF assms(1,2)] assms(4) by (auto simp: Next_def Next_key_def)
  next
    case False
    then obtain p1 where p1: "p = size_bytes (length k) @ p1" "p1 @ q = k @ size_bytes (length v) @ v"
      using append_split [OF pq] by (auto simp: size_bytes_def)
    from next_len_spec [OF assms(1,2) f(3)] assms(4) p1(1) obtain s1 where s1:
      "next_len file s = Inr (Some (int (length k)), s1)" "reader_inv file s1"
      "remaining file s1 = p1" "capacity s1 = capacity s"
      by blast
    show ?thesis
    proof (cases "length p1 < length k")
      case True
      then show ?thesis
        using short_field [OF s1(2,3) True] f(1) s1 by (auto simp: Next_def Next_key_def)
    next
      case False
      then obtain p2 where p2: "p1 = k @ p2" "p2 @ q = size_bytes (length v) @ v"
        using append_split [OF p1(2)] by auto
      from field_spec [OF s1(2), of k p2 "int (length k)"] p2(1) f(1) s1(3,4) obtain s2 where s2:
        "PrepareNextField (int (length k)) file s1 = (True, s2)" "buf_at (int (length k)) s2 = Inr k"
        "reader_inv file (advance (int (length k)) s2)"
        "remaining file (advance (int (length k)) s2) = p2"
        "capacity (advance (int (length k)) s2) = capacity s"
        by auto
      have key: "(if 0 < int (length k) then buf_at (int (length k)) s2 else Inr []) = Inr k"
        using s2(2) by simp
      show ?thesis
      proof (cases "length p2 < 8")
        case True
        then obtain s3 where "next_len file (advance (int (length k)) s2) = Inr (None, s3)"
          using next_len_end [OF s2(3)] s2(4,5) assms(2) by auto
        then have "Next_key file s = Inr (0, k, s3)"
          unfolding Next_key_def s1(1) s2(1) bindR_Inr prod.case option.case bool.case key by simp
        then show ?thesis by (simp add: Next_def)
      next
        case False
        then obtain p3 where p3: "p2 = size_bytes (length v) @ p3" "p3 @ q = v"
          using append_split [OF p2(2)] by (auto simp: size_bytes_def)
        then have "length p3 < length v" using assms(6) by auto
        from next_len_spec [OF s2(3) _ f(4)] s2(4,5) p3(1) assms(2) obtain s3 where s3:
          "next_len file (advance (int (length k)) s2) = Inr (Some (int (length v)), s3)"
          "reader_inv file s3" "remaining file s3 = p3" "capacity s3 = capacity s"
          by auto
        from short_field [OF s3(2,3) \<open>length p3 < length v\<close>] f(2) s3(4)
        obtain s4 where "PrepareNextField (int (length v)) file s3 = (False, s4)" by auto
        then have "Next_key file s = Inr (0, k, s4)"
          unfolding Next_key_def s1(1) s2(1) bindR_Inr prod.case option.case bool.case key s3(1) by simp
        then show ?thesis by (simp add: Next_def)
      qed
    qed
  qed
qed

lemma Next_end:
  assumes "reader_inv file s" and "8 \<le> capacity s" and "remaining file s = []"
  shows "\<exists>s'. Next file s = Inr (None, s')"
  using next_len_end [OF assms(1,2)] assms(3) by (auto simp: Next_def Next_key_def)

section \<open>Sources of tuples\<close>

text \<open>
  The interface an input layer reads from: a state that holds some tuples and delivers them one
  by one. \<open>read_tuples\<close> is its loop, at most \<open>n\<close> calls.
\<close>

fun read_tuples :: "('s \<Rightarrow> ('t option \<times> 's) res) \<Rightarrow> nat \<Rightarrow> 's \<Rightarrow> 't list res" where
  "read_tuples nxt 0 s = Inr []"
| "read_tuples nxt (Suc n) s =
     bindR (nxt s) (\<lambda>(r, s').
       case r of
         None \<Rightarrow> Inr []
       | Some t \<Rightarrow> bindR (read_tuples nxt n s') (\<lambda>ts. Inr (t # ts)))"

locale tuple_source =
  fixes holds :: "'s \<Rightarrow> 't list \<Rightarrow> bool"
    and nxt :: "'s \<Rightarrow> ('t option \<times> 's) res"
  assumes nxt_Cons: "holds s (t # ts) \<Longrightarrow> \<exists>s'. nxt s = Inr (Some t, s') \<and> holds s' ts"
    and nxt_Nil: "holds s [] \<Longrightarrow> \<exists>s'. nxt s = Inr (None, s')"
begin

lemma read_tuples_all: "holds s ts \<Longrightarrow> length ts < n \<Longrightarrow> read_tuples nxt n s = Inr ts"
proof (induction ts arbitrary: s n)
  case Nil
  then obtain s' m where "nxt s = Inr (None, s')" "n = Suc m"
    using nxt_Nil [of s] by (auto simp: gr0_conv_Suc)
  then show ?case by simp
next
  case (Cons t ts)
  obtain s' where s': "nxt s = Inr (Some t, s')" "holds s' ts" using nxt_Cons [OF Cons.prems(1)] by blast
  obtain m where "n = Suc m" "length ts < m" using Cons.prems(2) by (cases n) auto
  then show ?case using Cons.IH [OF s'(2)] s'(1) by simp
qed

end

text \<open>A reader holds the complete tuples ahead of it; behind them may be a tuple that is cut off.\<close>

definition shard_holds :: "bytes \<Rightarrow> Shard \<Rightarrow> (string \<times> string) list \<Rightarrow> bool" where
  "shard_holds file s ts \<longleftrightarrow> reader_inv file s \<and> 8 \<le> capacity s \<and> list_all (fits (capacity s)) ts \<and>
     (\<exists>p. remaining file s = concat (map enc_tuple ts) @ p \<and>
       (p = [] \<or> (\<exists>t q. fits (capacity s) t \<and> p @ q = enc_tuple t \<and> q \<noteq> [])))"

interpretation shard_src: tuple_source "shard_holds contents" "Next contents" for contents
proof unfold_locales
  fix s t ts
  assume "shard_holds contents s (t # ts)"
  then obtain p where h: "reader_inv contents s" "8 \<le> capacity s" "fits (capacity s) t"
    "list_all (fits (capacity s)) ts" "remaining contents s = enc_tuple t @ concat (map enc_tuple ts) @ p"
    "p = [] \<or> (\<exists>t q. fits (capacity s) t \<and> p @ q = enc_tuple t \<and> q \<noteq> [])"
    by (auto simp: shard_holds_def)
  from Next_tuple [OF h(1-3,5)] obtain s' where "Next contents s = Inr (Some t, s')" "reader_inv contents s'"
    "remaining contents s' = concat (map enc_tuple ts) @ p" "capacity s' = capacity s"
    by blast
  with h show "\<exists>s'. Next contents s = Inr (Some t, s') \<and> shard_holds contents s' ts"
    unfolding shard_holds_def by (intro exI [of _ s']) simp
next
  fix s
  assume "shard_holds contents s []"
  then show "\<exists>s'. Next contents s = Inr (None, s')"
    using Next_end [of contents s] Next_truncated [of contents s] by (auto simp: shard_holds_def)
qed

section \<open>The writer\<close>

text \<open>
  A writer at the end of its file: what was inserted so far is the file followed by the buffer.
\<close>

definition writer_inv :: "bytes \<Rightarrow> Shard \<Rightarrow> bool" where
  "writer_inv file s \<longleftrightarrow> sh_mode s \<noteq> kRead \<and> \<not> seof s \<and> \<not> sfail s \<and> spos s = length file \<and>
     bufsize s \<le> capacity s \<and> capacity s < 2 ^ 30"

lemma write_at_end: "write_at (length file) data file = file @ data"
  by (simp add: write_at_def)

lemma length_enc_tuple: "length (enc_tuple (k, v)) = length k + length v + 16"
  by (simp add: enc_tuple_def size_bytes_def)

lemma Insert_spec:
  assumes "writer_inv file s" and "k \<notin> keys s" and "v \<noteq> []" and "int (length (enc_tuple (k, v))) \<le> capacity s"
  shows "\<exists>s' file'. Insert k v s file = Inr (True, s', file') \<and> writer_inv file' s' \<and>
    file' @ buf s' = file @ buf s @ enc_tuple (k, v) \<and> keys s' = keys s \<and> capacity s' = capacity s"
proof -
  let ?n = "int (length k + length v + 16)"
  have n: "?n \<le> capacity s" "c_int ?n = ?n" "is_c_int (bufsize s + ?n)"
    using assms(1,4) by (simp_all add: length_enc_tuple writer_inv_def is_c_int_def)
  show ?thesis
  proof (cases "capacity s < bufsize s + ?n")
    case True
    have "stream_write (buf s) s file = (s\<lparr>spos := length (file @ buf s)\<rparr>, file @ buf s)"
      using assms(1) by (simp add: stream_write_def writer_inv_def write_at_end)
    then have "Insert k v s file =
        Inr (True, s\<lparr>spos := length (file @ buf s), buf := enc_tuple (k, v)\<rparr>, file @ buf s)"
      using assms(2,3) n True by (simp add: Insert_def Let_def enc_tuple_def)
    then show ?thesis using assms(1,4) by (simp add: writer_inv_def)
  next
    case False
    then have "Insert k v s file = Inr (True, s\<lparr>buf := buf s @ enc_tuple (k, v)\<rparr>, file)"
      using assms(2,3) n by (simp add: Insert_def Let_def enc_tuple_def)
    then show ?thesis using assms(1) False by (simp add: writer_inv_def length_enc_tuple)
  qed
qed

lemma Flush_spec:
  assumes "writer_inv file s"
  shows "snd (Flush s file) = file @ buf s" and "writer_inv (snd (Flush s file)) (fst (Flush s file))"
    and "buf (fst (Flush s file)) = []"
  using assms by (simp_all add: Flush_def stream_write_def writer_inv_def write_at_end)

text \<open>The tool that creates a shard: insert every tuple in order, then flush.\<close>

definition insert_all ::
  "(string \<times> string) list \<Rightarrow> Shard \<times> bytes \<Rightarrow> (Shard \<times> bytes) res" where
  "insert_all ts st =
     foldR (\<lambda>(s, file) (k, v). bindR (Insert k v s file) (\<lambda>(_, s', file'). Inr (s', file'))) st ts"

definition write_shard :: "int \<Rightarrow> (string \<times> string) list \<Rightarrow> bytes res" where
  "write_shard cap ts =
     bindR (insert_all ts (shard0 kCreate cap, [])) (\<lambda>(s, file). Inr (snd (Flush s file)))"

definition insertable :: "int \<Rightarrow> string set \<Rightarrow> string \<times> string \<Rightarrow> bool" where
  "insertable cap ks t \<longleftrightarrow> fst t \<notin> ks \<and> snd t \<noteq> [] \<and> int (length (enc_tuple t)) \<le> cap"

lemma insert_all_spec:
  assumes "writer_inv fl s" and "\<forall>t \<in> set ts. insertable (capacity s) (keys s) t"
  shows "\<exists>s' fl'. insert_all ts (s, fl) = Inr (s', fl') \<and> writer_inv fl' s' \<and>
    fl' @ buf s' = fl @ buf s @ concat (map enc_tuple ts)"
  using assms
proof (induction ts arbitrary: s fl)
  case (Cons t ts)
  obtain k v where t: "t = (k, v)" by (cases t)
  have "k \<notin> keys s" "v \<noteq> []" "int (length (enc_tuple (k, v))) \<le> capacity s"
    using Cons.prems(2) by (simp_all add: insertable_def t)
  from Insert_spec [OF Cons.prems(1) this] obtain s1 file1 where s1:
    "Insert k v s fl = Inr (True, s1, file1)" "writer_inv file1 s1"
    "file1 @ buf s1 = fl @ buf s @ enc_tuple (k, v)" "keys s1 = keys s" "capacity s1 = capacity s"
    by blast
  obtain s2 file2 where s2: "insert_all ts (s1, file1) = Inr (s2, file2)" "writer_inv file2 s2"
    "file2 @ buf s2 = file1 @ buf s1 @ concat (map enc_tuple ts)"
    using Cons.IH [OF s1(2)] Cons.prems(2) s1(4,5) by auto
  have "file2 @ buf s2 = (file1 @ buf s1) @ concat (map enc_tuple ts)" using s2(3) by simp
  also have "\<dots> = fl @ buf s @ concat (map enc_tuple (t # ts))" unfolding s1(3) by (simp add: t)
  finally show ?case using s1(1) s2(1,2) by (simp add: insert_all_def t)
qed (simp add: insert_all_def)

lemma write_shard_spec:
  assumes "\<forall>t \<in> set ts. insertable cap {} t" and "0 \<le> cap" and "cap < 2 ^ 30"
  shows "write_shard cap ts = Inr (concat (map enc_tuple ts))"
proof -
  have "writer_inv [] (shard0 kCreate cap)"
    using assms(2,3) by (simp add: writer_inv_def shard0_def)
  then obtain s fl where s: "insert_all ts (shard0 kCreate cap, []) = Inr (s, fl)" "writer_inv fl s"
    "fl @ buf s = concat (map enc_tuple ts)"
    using insert_all_spec [of "[]" "shard0 kCreate cap" ts] assms(1) by (auto simp: shard0_def)
  then show ?thesis using Flush_spec(1) [OF s(2)] by (simp add: write_shard_def)
qed

section \<open>Scans of a complete file\<close>

lemma fin_len_enc:
  assumes "n < 2 ^ 31"
  shows "fin_len (pre @ size_bytes n @ post) (length pre) = Some (int n)"
proof -
  have "int n < 256 ^ 8" using assms by simp
  then show ?thesis by (simp add: fin_len_def size_bytes_def segment_def le_val_le_bytes)
qed

lemma fin_seek_nat: "n < 2 ^ 31 \<Longrightarrow> fin_seek p (int n) = Some (p + n)"
  by (simp add: fin_seek_def signed_take_bit_int_eq_self Let_def nat_add_distrib)

definition small :: "string \<times> string \<Rightarrow> bool" where
  "small t \<longleftrightarrow> length (fst t) < 2 ^ 31 \<and> length (snd t) < 2 ^ 31"

lemma fin_tuple:
  assumes "small (k, v)"
  shows "fin_len (pre @ enc_tuple (k, v) @ post) (length pre) = Some (int (length k))"
    and "fin_len (pre @ enc_tuple (k, v) @ post) (length pre + 8 + length k) = Some (int (length v))"
proof -
  show "fin_len (pre @ enc_tuple (k, v) @ post) (length pre) = Some (int (length k))"
    using fin_len_enc [of "length k" pre "k @ size_bytes (length v) @ v @ post"] assms
    by (simp add: enc_tuple_def small_def)
  show "fin_len (pre @ enc_tuple (k, v) @ post) (length pre + 8 + length k) = Some (int (length v))"
    using fin_len_enc [of "length v" "pre @ size_bytes (length k) @ k" "v @ post"] assms
    by (simp add: enc_tuple_def small_def size_bytes_def add.assoc)
qed

lemma count_loop_step:
  assumes "small (k, v)"
  shows "count_loop (pre @ enc_tuple (k, v) @ post) (length pre) c =
    count_loop (pre @ enc_tuple (k, v) @ post) (length (pre @ enc_tuple (k, v))) (c + 1)"
  using assms fin_tuple [OF assms, of pre post]
  by (subst count_loop.simps) (simp add: fin_seek_nat small_def length_enc_tuple add_ac)

lemma count_loop_all:
  assumes "\<forall>t \<in> set ts. small t"
  shows "count_loop (pre @ concat (map enc_tuple ts)) (length pre) c = Some (c + int (length ts))"
  using assms
proof (induction ts arbitrary: pre c)
  case Nil
  then show ?case by (subst count_loop.simps) (simp add: fin_len_def)
next
  case (Cons t ts)
  obtain k v where t: "t = (k, v)" by (cases t)
  then show ?case
    using count_loop_step [of k v pre "concat (map enc_tuple ts)" c]
      Cons.IH [of "pre @ enc_tuple t" "c + 1"] Cons.prems by simp
qed

definition appendable :: "string \<times> string \<Rightarrow> bool" where
  "appendable t \<longleftrightarrow> length (fst t) < 256 \<and> length (snd t) < 2 ^ 31 \<and> NUL \<notin> set (fst t)"

lemma append_loop_step:
  assumes "appendable (k, v)" and "length (pre @ enc_tuple (k, v)) < 2 ^ 31"
  shows "append_loop (pre @ enc_tuple (k, v) @ post) (length pre) ks last0 =
    append_loop (pre @ enc_tuple (k, v) @ post) (length (pre @ enc_tuple (k, v))) (insert k ks)
      (int (length (pre @ enc_tuple (k, v))))"
proof -
  have small: "small (k, v)" using assms(1) by (simp add: appendable_def small_def)
  have key: "segment (length pre + 8) (length k) (pre @ enc_tuple (k, v) @ post) = k"
    by (simp add: segment_def enc_tuple_def size_bytes_def)
  have pos: "c_int (int (length (pre @ enc_tuple (k, v)))) = int (length (pre @ enc_tuple (k, v)))"
    using assms(2) by (intro c_int_id) (simp add: is_c_int_def)
  have len: "length pre + 8 + length k + 8 + length v = length (pre @ enc_tuple (k, v))"
    "length pre + 8 + length k \<le> length (pre @ enc_tuple (k, v) @ post)"
    by (simp_all add: length_enc_tuple)
  have seek: "fin_seek (length pre + 8 + length k + 8) (int (length v)) = Some (length (pre @ enc_tuple (k, v)))"
    using assms(1) len(1) by (simp only: fin_seek_nat appendable_def snd_conv)
  have klen: "\<not> 256 \<le> int (length k)" "cstr k = k" using assms(1) by (simp_all add: appendable_def)
  show ?thesis
    by (subst append_loop.simps)
       (simp only: fin_tuple [OF small] option.case nat_int key klen if_False seek pos
         linorder_not_less [THEN iffD2, OF len(2)])
qed

lemma append_loop_all:
  assumes "\<forall>t \<in> set ts. appendable t" and "length (pre @ concat (map enc_tuple ts)) < 2 ^ 31"
    and "last0 = int (length pre)"
  shows "append_loop (pre @ concat (map enc_tuple ts)) (length pre) ks last0 =
    Some (Inr (ks \<union> fst ` set ts, int (length (pre @ concat (map enc_tuple ts)))))"
  using assms
proof (induction ts arbitrary: pre ks last0)
  case Nil
  then show ?case by (subst append_loop.simps) (simp add: fin_len_def)
next
  case (Cons t ts)
  obtain k v where t: "t = (k, v)" by (cases t)
  have "append_loop (pre @ enc_tuple t @ concat (map enc_tuple ts)) (length pre) ks last0 =
    append_loop ((pre @ enc_tuple t) @ concat (map enc_tuple ts)) (length (pre @ enc_tuple t)) (insert k ks)
      (int (length (pre @ enc_tuple t)))"
    using append_loop_step [of k v pre "concat (map enc_tuple ts)" ks last0] Cons.prems t by simp
  also have "\<dots> = Some (Inr (insert k ks \<union> fst ` set ts,
      int (length ((pre @ enc_tuple t) @ concat (map enc_tuple ts)))))"
    using Cons.prems by (intro Cons.IH) simp_all
  finally show ?case by (simp add: t insert_commute)
qed

lemma open_append:
  assumes "\<forall>t \<in> set ts. appendable t" and "length (concat (map enc_tuple ts)) < 2 ^ 31"
  shows "DataShard_open True (Some (concat (map enc_tuple ts))) kAppend cap =
    Some (Inr ((shard0 kAppend cap)\<lparr>keys := fst ` set ts, spos := length (concat (map enc_tuple ts))\<rparr>,
      Some (concat (map enc_tuple ts))))"
  using append_loop_all [of ts "[]" 0 "{}"] assms
  by (simp add: DataShard_open_def PrepareForAppend_def shard0_def)

section \<open>Properties\<close>

text \<open>
  C24. What is inserted into a new shard and flushed is what a reader gets: the tuples in order,
  then the end, whatever the two buffer capacities are, as long as every tuple fits the writer's
  buffer and every field the reader's; and \<open>Count\<close> gives their number.
\<close>

theorem Shard_roundtrip:
  assumes "\<forall>t \<in> set ts. insertable cap {} t" and "0 \<le> cap" and "cap < 2 ^ 30"
    and "\<forall>t \<in> set ts. fits rcap t" and "8 \<le> rcap"
  shows "\<exists>contents. write_shard cap ts = Inr contents \<and>
    read_tuples (Next contents) (length ts + 1) (shard0 kRead rcap) = Inr ts \<and>
    Count contents = Some (int (length ts))"
proof -
  let ?f = "concat (map enc_tuple ts)"
  have "shard_holds ?f (shard0 kRead rcap) ts"
    using assms(4,5) by (auto simp: shard_holds_def shard0_def reader_inv_def remaining_def list_all_iff)
  then have "read_tuples (Next ?f) (length ts + 1) (shard0 kRead rcap) = Inr ts"
    by (rule shard_src.read_tuples_all) simp
  moreover have "\<forall>t \<in> set ts. small t" using assms(4) by (auto simp: fits_def small_def)
  then have "Count ?f = Some (int (length ts))"
    using count_loop_all [of ts "[]" 0] by (simp add: Count_def)
  ultimately show ?thesis using write_shard_spec [OF assms(1-3)] by blast
qed

theorem Shard_roundtrip_witness:
  "\<exists>contents. write_shard 20 [(''k1'', ''v''), (''k2'', ''w'')] = Inr contents \<and>
    read_tuples (Next contents) (length [(''k1'', ''v''), (''k2'', ''w'')] + 1) (shard0 kRead 8) =
      Inr [(''k1'', ''v''), (''k2'', ''w'')] \<and>
    Count contents = Some (int (length [(''k1'', ''v''), (''k2'', ''w'')]))"
  by (rule Shard_roundtrip) (simp_all add: insertable_def fits_def length_enc_tuple)

text \<open>
  A file that a crash cut off anywhere inside its last tuple still delivers every complete
  tuple before it, and then the end.
\<close>

theorem Shard_truncated:
  assumes "\<forall>t \<in> set ts. fits cap t" and "8 \<le> cap" and "fits cap t" and "p @ q = enc_tuple t" and "q \<noteq> []"
  shows "read_tuples (Next (concat (map enc_tuple ts) @ p)) (length ts + 1) (shard0 kRead cap) = Inr ts"
proof -
  have "\<exists>t q. fits cap t \<and> p @ q = enc_tuple t \<and> q \<noteq> []" using assms(3-5) by blast
  then have "shard_holds (concat (map enc_tuple ts) @ p) (shard0 kRead cap) ts"
    using assms(1,2) unfolding shard_holds_def
    by (simp add: shard0_def reader_inv_def remaining_def list_all_iff)
  then show ?thesis by (rule shard_src.read_tuples_all) simp
qed

theorem Shard_truncated_witness:
  "read_tuples (Next (concat (map enc_tuple [(''a'', ''x'')]) @ size_bytes 1 @ ''b'' @ size_bytes 2 @ ''y''))
     (length [(''a'', ''x'')] + 1) (shard0 kRead 16) = Inr [(''a'', ''x'')]"
proof (rule Shard_truncated [where t = "(''b'', ''yz'')" and q = "''z''"])
  show "(size_bytes 1 @ ''b'' @ size_bytes 2 @ ''y'') @ ''z'' = enc_tuple (''b'', ''yz'')" by code_simp
qed (simp_all add: fits_def)

text \<open>
  A shard opened for append refuses the keys it holds and adds new tuples behind the old ones,
  when its keys have fewer than 256 characters and no zero byte.
\<close>

theorem Shard_append:
  assumes "\<forall>t \<in> set ts. appendable t" and "length (concat (map enc_tuple ts)) < 2 ^ 31"
    and "0 \<le> cap" and "cap < 2 ^ 30" and "\<forall>t \<in> set us. insertable cap (fst ` set ts) t"
  shows "\<exists>s contents s' contents'.
    DataShard_open True (Some (concat (map enc_tuple ts))) kAppend cap = Some (Inr (s, Some contents)) \<and>
    (\<forall>k v. k \<in> fst ` set ts \<longrightarrow> Insert k v s contents = Inr (False, s, contents)) \<and>
    insert_all us (s, contents) = Inr (s', contents') \<and>
    snd (Flush s' contents') = concat (map enc_tuple (ts @ us))"
proof -
  let ?f = "concat (map enc_tuple ts)"
  let ?s = "(shard0 kAppend cap)\<lparr>keys := fst ` set ts, spos := length ?f\<rparr>"
  have "writer_inv ?f ?s" using assms(3,4) by (simp add: writer_inv_def shard0_def)
  moreover have "capacity ?s = cap" "keys ?s = fst ` set ts" "buf ?s = []"
    by (simp_all add: shard0_def)
  ultimately obtain s' c where s': "insert_all us (?s, ?f) = Inr (s', c)" "writer_inv c s'"
    "c @ buf s' = ?f @ concat (map enc_tuple us)"
    using insert_all_spec [of ?f ?s us] assms(5) by (metis append_Nil)
  have refuse: "\<forall>k v. k \<in> fst ` set ts \<longrightarrow> Insert k v ?s ?f = Inr (False, ?s, ?f)"
    by (simp add: Insert_def)
  have flush: "snd (Flush s' c) = concat (map enc_tuple (ts @ us))"
    using Flush_spec(1) [OF s'(2)] s'(3) by simp
  show ?thesis
    using open_append [OF assms(1,2)] refuse s'(1) flush
    by - (rule exI [of _ ?s], rule exI [of _ ?f], rule exI [of _ s'], rule exI [of _ c], simp)
qed

theorem Shard_append_witness:
  "\<exists>s contents s' contents'.
    DataShard_open True (Some (concat (map enc_tuple [(''a'', ''x'')]))) kAppend 64 =
      Some (Inr (s, Some contents)) \<and>
    (\<forall>k v. k \<in> fst ` set [(''a'', ''x'')] \<longrightarrow> Insert k v s contents = Inr (False, s, contents)) \<and>
    insert_all [(''b'', ''y'')] (s, contents) = Inr (s', contents') \<and>
    snd (Flush s' contents') = concat (map enc_tuple ([(''a'', ''x'')] @ [(''b'', ''y'')]))"
  by (rule Shard_append) (simp_all add: appendable_def insertable_def length_enc_tuple)

text \<open>
  A key inserted in the running session is not remembered: \<open>Insert\<close> accepts it again and the
  file holds it twice.
\<close>

theorem Insert_accepts_duplicate:
  "write_shard 64 [(''a'', ''x''), (''a'', ''y'')] = Inr (enc_tuple (''a'', ''x'') @ enc_tuple (''a'', ''y''))"
  using write_shard_spec [of "[(''a'', ''x''), (''a'', ''y'')]" 64]
  by (simp add: insertable_def length_enc_tuple)

text \<open>
  A tuple whose value was cut off is taken for complete when the shard is opened for append:
  \<open>seekg\<close> past the end of the file does not fail, so its key is kept and writing resumes behind
  the end of the file.
\<close>

theorem Append_keeps_truncated_tuple:
  "length (take 19 (enc_tuple (''k'', ''xyz''))) = 19 \<and>
   PrepareForAppend (Some (take 19 (enc_tuple (''k'', ''xyz'')))) = Some (Inr ({''k''}, 20))"
  by (intro conjI; code_simp)

end
