(* ===== verification/Cluster.thy ===== *)
theory Cluster
  imports Msg
begin

text \<open>
  Model of \<open>src/include/utils/cluster.h\<close> and \<open>src/src/utils/cluster.cc\<close>: the configuration of
  the cluster, the number of processes, and the table that tells on which process a worker or a
  server runs. The cluster runtime (ZooKeeper) that hands out process ids and endpoints is an
  argument of the operations that ask it.
\<close>

section \<open>Configuration\<close>

text \<open>The fields of \<open>ClusterProto\<close> that decide the topology.\<close>

record ClusterProto =
  nworker_groups :: int
  nserver_groups :: int
  nworkers_per_group :: int
  nservers_per_group :: int
  nworkers_per_procs :: int
  nservers_per_procs :: int
  server_worker_separate :: bool
  workspace :: string
  bandwidth :: int
  poll_time :: int
  server_update :: bool
  share_memory :: bool

record Cluster =
  cluster_conf :: ClusterProto
  procs_id :: int
  nprocs :: int
  endpoints :: "string list"
  procs_ids :: "int \<rightharpoonup> int"

definition nworker_groups_per_server_group :: "ClusterProto \<Rightarrow> int" where
  "nworker_groups_per_server_group c =
     (if nserver_groups c = 0 \<or> nservers_per_group c = 0 then 1
      else nworker_groups c sdiv nserver_groups c)"

definition nworker_procs :: "ClusterProto \<Rightarrow> int" where
  "nworker_procs c = nworker_groups c * nworkers_per_group c sdiv nworkers_per_procs c"

definition nserver_procs :: "ClusterProto \<Rightarrow> int" where
  "nserver_procs c = nserver_groups c * nservers_per_group c sdiv nservers_per_procs c"

definition has_server :: "Cluster \<Rightarrow> bool res" where
  "has_server cl =
     (let c = cluster_conf cl in
      if server_worker_separate c then
        checkR (procs_id cl < nprocs cl) CheckFailed (Inr (nworker_procs c \<le> procs_id cl))
      else Inr (procs_id cl < nserver_procs c))"

definition has_worker :: "Cluster \<Rightarrow> bool" where
  "has_worker cl \<longleftrightarrow> procs_id cl < nworker_procs (cluster_conf cl)"

definition vis_folder :: "ClusterProto \<Rightarrow> string" where
  "vis_folder c = workspace c @ ''/visualization''"

definition checkpoint_folder :: "ClusterProto \<Rightarrow> string" where
  "checkpoint_folder c = workspace c @ ''/checkpoint''"

section \<open>The process table\<close>

definition Hash :: "ClusterProto \<Rightarrow> int \<Rightarrow> int \<Rightarrow> int \<Rightarrow> int" where
  "Hash c gid i flag =
     (if flag = kServer then (flag * nserver_groups c + gid) * nservers_per_group c + i
      else (flag * nworker_groups c + gid) * nworkers_per_group c + i)"

text \<open>The nested loops \<open>for i < ngrps, for j < grp_size\<close>.\<close>

definition slots :: "int \<Rightarrow> int \<Rightarrow> (int \<times> int) list" where
  "slots ngrps grp_size = concat (map (\<lambda>i. map (\<lambda>j. (i, j)) [0..grp_size - 1]) [0..ngrps - 1])"

definition worker_proc :: "ClusterProto \<Rightarrow> int \<Rightarrow> int \<Rightarrow> int" where
  "worker_proc c i j = (i * nworkers_per_group c + j) sdiv nworkers_per_procs c"

definition server_proc :: "ClusterProto \<Rightarrow> int \<Rightarrow> int \<Rightarrow> int" where
  "server_proc c i j = (i * nservers_per_group c + j) sdiv nservers_per_procs c"

text \<open>
  The assignments to \<open>procs_ids_\<close> in the order the constructor makes them. After the worker loops
  \<open>procs\<close> is the process of the last worker, 0 when there is none.
\<close>

definition worker_slots :: "ClusterProto \<Rightarrow> (int \<times> int) list" where
  "worker_slots c = slots (nworker_groups c) (nworkers_per_group c)"

definition server_slots :: "ClusterProto \<Rightarrow> (int \<times> int) list" where
  "server_slots c = slots (nserver_groups c) (nservers_per_group c)"

definition worker_entries :: "ClusterProto \<Rightarrow> (int \<times> int) list" where
  "worker_entries c =
     concat (map (\<lambda>(i, j). [(Hash c i j kWorkerLayer, worker_proc c i j),
                            (Hash c i j kWorkerParam, worker_proc c i j)]) (worker_slots c))"

definition server_offset :: "ClusterProto \<Rightarrow> int" where
  "server_offset c =
     (let procs = fold (\<lambda>(i, j) _. worker_proc c i j) (worker_slots c) 0 in
      if server_worker_separate c then procs + 1 else 0)"

definition server_entries :: "ClusterProto \<Rightarrow> (int \<times> int) list" where
  "server_entries c =
     map (\<lambda>(i, j). (Hash c i j kServer, server_proc c i j + server_offset c)) (server_slots c)"

definition assign :: "(int \<times> int) list \<Rightarrow> (int \<rightharpoonup> int) \<Rightarrow> (int \<rightharpoonup> int)" where
  "assign es m = fold (\<lambda>(k, v) m. m(k \<mapsto> v)) es m"

definition Cluster_new :: "ClusterProto \<Rightarrow> Cluster res" where
  "Cluster_new c =
     checkR (nworkers_per_procs c \<noteq> 0 \<and> nservers_per_procs c \<noteq> 0) Undefined
       (Inr \<lparr>cluster_conf = c, procs_id = 0,
          nprocs = (if server_worker_separate c then nworker_procs c + nserver_procs c
                    else max (nworker_procs c) (nserver_procs c)),
          endpoints = [],
          procs_ids = assign (server_entries c) (assign (worker_entries c) Map.empty)\<rparr>)"

definition ProcsIDOf :: "Cluster \<Rightarrow> int \<Rightarrow> int \<Rightarrow> int \<Rightarrow> int res" where
  "ProcsIDOf cl group_id i flag =
     (case procs_ids cl (Hash (cluster_conf cl) group_id i flag) of
        None \<Rightarrow> Inl OutOfRange
      | Some p \<Rightarrow> Inr p)"

text \<open>\<open>RegistProc\<close> and \<open>GetProcHost\<close> are the runtime's.\<close>

definition Register :: "(string \<Rightarrow> int \<Rightarrow> int) \<Rightarrow> int \<Rightarrow> string \<Rightarrow> Cluster \<Rightarrow> Cluster res" where
  "Register RegistProc pid ep cl =
     (let p = RegistProc ep pid in
      checkR (0 \<le> p \<and> p < nprocs cl) CheckFailed (Inr (cl\<lparr>procs_id := p\<rparr>)))"

definition endpoint :: "(int \<Rightarrow> string) \<Rightarrow> int \<Rightarrow> Cluster \<Rightarrow> string res" where
  "endpoint GetProcHost procsid cl =
     checkR (procsid < nprocs cl \<and> 0 \<le> procsid) CheckFailed
       (if endpoints cl \<noteq> [] then atR (endpoints cl) procsid else Inr (GetProcHost procsid))"

section \<open>Lookup in the process table\<close>

lemma assign_append: "assign (es @ fs) m = assign fs (assign es m)"
  by (simp add: assign_def)

lemma assign_notin: "k \<notin> fst ` set es \<Longrightarrow> assign es m k = m k"
  by (induction es arbitrary: m) (auto simp: assign_def)

lemma assign_in:
  "(k, v) \<in> set es \<Longrightarrow> (\<And>v'. (k, v') \<in> set es \<Longrightarrow> v' = v) \<Longrightarrow> assign es m k = Some v"
proof (induction es arbitrary: m)
  case (Cons e es)
  show ?case
  proof (cases "k \<in> fst ` set es")
    case True
    then obtain w where w: "(k, w) \<in> set es" by auto
    have "w = v" using Cons.prems(2) w by simp
    then have "(k, v) \<in> set es" using w by simp
    moreover have "v' = v" if "(k, v') \<in> set es" for v' using Cons.prems(2) that by simp
    ultimately have "assign es m' k = Some v" for m' by (rule Cons.IH)
    then show ?thesis by (simp add: assign_def)
  next
    case False
    then have "e = (k, v)" using Cons.prems(1) by force
    then show ?thesis using False assign_notin [of k es] by (simp add: assign_def)
  qed
qed simp

lemma slots_iff: "(i, j) \<in> set (slots n m) \<longleftrightarrow> 0 \<le> i \<and> i < n \<and> 0 \<le> j \<and> j < m"
  by (fastforce simp: slots_def)

lemma pack_inj:
  assumes "a * m + j = a' * m + (j' :: int)" and "0 \<le> j" and "j < m" and "0 \<le> j'" and "j' < m"
  shows "a = a' \<and> j = j'"
proof -
  have "(x * m + y) div m = x" if "0 \<le> y" "y < m" for x y using that by simp
  then have "a = a'" using assms by metis
  then show ?thesis using assms(1) by simp
qed

definition worker_at :: "ClusterProto \<Rightarrow> int \<Rightarrow> int \<Rightarrow> bool" where
  "worker_at c i j \<longleftrightarrow> 0 \<le> i \<and> i < nworker_groups c \<and> 0 \<le> j \<and> j < nworkers_per_group c"

definition server_at :: "ClusterProto \<Rightarrow> int \<Rightarrow> int \<Rightarrow> bool" where
  "server_at c i j \<longleftrightarrow> 0 \<le> i \<and> i < nserver_groups c \<and> 0 \<le> j \<and> j < nservers_per_group c"

abbreviation nworkers :: "ClusterProto \<Rightarrow> int" where
  "nworkers c \<equiv> nworker_groups c * nworkers_per_group c"

abbreviation nservers :: "ClusterProto \<Rightarrow> int" where
  "nservers c \<equiv> nserver_groups c * nservers_per_group c"

lemma worker_entries_iff:
  "(k, v) \<in> set (worker_entries c) \<longleftrightarrow>
   (\<exists>i j flag. worker_at c i j \<and> flag \<in> {kWorkerParam, kWorkerLayer} \<and> k = Hash c i j flag \<and> v = worker_proc c i j)"
proof -
  have "set (worker_slots c) = {p. worker_at c (fst p) (snd p)}"
    by (auto simp: worker_slots_def worker_at_def slots_iff)
  then show ?thesis by (fastforce simp: worker_entries_def)
qed

lemma server_entries_iff:
  "(k, v) \<in> set (server_entries c) \<longleftrightarrow>
   (\<exists>i j. server_at c i j \<and> k = Hash c i j kServer \<and> v = server_proc c i j + server_offset c)"
proof -
  have "set (server_slots c) = {p. server_at c (fst p) (snd p)}"
    by (auto simp: server_slots_def server_at_def slots_iff)
  then show ?thesis by (fastforce simp: server_entries_def)
qed

lemma slot_bounds:
  assumes "0 \<le> i" and "i < n" and "0 \<le> j" and "j < (m :: int)"
  shows "0 \<le> i * m + j" and "i * m + j < n * m"
proof -
  show "0 \<le> i * m + j" using assms by simp
  have "i * m + j < (i + 1) * m" using assms by (simp add: algebra_simps)
  also have "\<dots> \<le> n * m" using assms by (intro mult_right_mono) simp_all
  finally show "i * m + j < n * m" .
qed

lemma Hash_worker_bounds:
  assumes "worker_at c i j" and "flag \<in> {kWorkerParam, kWorkerLayer}"
  shows "Hash c i j flag < 2 * nworkers c"
proof -
  have b: "0 \<le> i * nworkers_per_group c + j" "i * nworkers_per_group c + j < nworkers c"
    using slot_bounds [of i "nworker_groups c" j "nworkers_per_group c"] assms(1)
    by (simp_all add: worker_at_def)
  have "Hash c i j flag = flag * nworkers c + (i * nworkers_per_group c + j)"
    using assms(2) by (auto simp: Hash_def entity_defs distrib_right)
  then show ?thesis using b assms(2) by (auto simp: entity_defs)
qed

lemma Hash_server_bounds: "server_at c i j \<Longrightarrow> 2 * nservers c \<le> Hash c i j kServer"
  by (simp add: Hash_def entity_defs server_at_def algebra_simps)

lemma Hash_worker_inj:
  assumes "worker_at c i j" and "worker_at c i' j'" and "f \<in> {kWorkerParam, kWorkerLayer}"
    and "f' \<in> {kWorkerParam, kWorkerLayer}" and "Hash c i j f = Hash c i' j' f'"
  shows "i = i' \<and> j = j'"
proof -
  have "f \<noteq> kServer" "f' \<noteq> kServer" and f: "f \<in> {0, 1}" "f' \<in> {0, 1}"
    using assms(3,4) by (auto simp: entity_defs)
  then have "f * nworker_groups c + i = f' * nworker_groups c + i' \<and> j = j'"
    using assms(1,2,5) by (intro pack_inj [of _ "nworkers_per_group c"]) (auto simp: Hash_def worker_at_def)
  then show ?thesis using f assms(1,2) by (auto simp: worker_at_def)
qed

lemma Hash_server_inj:
  assumes "server_at c i j" and "server_at c i' j'" and "Hash c i j kServer = Hash c i' j' kServer"
  shows "i = i' \<and> j = j'"
  using pack_inj [of "2 * nserver_groups c + i" "nservers_per_group c" j "2 * nserver_groups c + i'" j'] assms
  by (simp add: Hash_def server_at_def kServer_def)

lemma lookup_server:
  assumes "server_at c i j"
  shows "assign (server_entries c) m (Hash c i j kServer) = Some (server_proc c i j + server_offset c)"
  using assms by (intro assign_in) (auto simp: server_entries_iff dest: Hash_server_inj)

lemma lookup_worker:
  assumes "worker_at c i j" and "flag \<in> {kWorkerParam, kWorkerLayer}"
    and "nworkers c \<le> nservers c \<or> nservers c = 0"
  shows "assign (server_entries c) (assign (worker_entries c) m) (Hash c i j flag) = Some (worker_proc c i j)"
proof -
  have "Hash c i j flag \<notin> fst ` set (server_entries c)"
  proof
    assume "Hash c i j flag \<in> fst ` set (server_entries c)"
    then obtain i' j' where s: "server_at c i' j'" "Hash c i j flag = Hash c i' j' kServer"
      by (auto simp: server_entries_iff)
    then have "0 < nservers c" by (simp add: server_at_def)
    then show False
      using Hash_server_bounds [OF s(1)] Hash_worker_bounds [OF assms(1,2)] s(2) assms(3) by auto
  qed
  moreover have "assign (worker_entries c) m (Hash c i j flag) = Some (worker_proc c i j)"
  proof (rule assign_in)
    show "(Hash c i j flag, worker_proc c i j) \<in> set (worker_entries c)"
      unfolding worker_entries_iff using assms(1,2) by blast
  next
    fix v
    assume "(Hash c i j flag, v) \<in> set (worker_entries c)"
    then obtain i' j' f' where "worker_at c i' j'" "f' \<in> {kWorkerParam, kWorkerLayer}"
      "Hash c i j flag = Hash c i' j' f'" "v = worker_proc c i' j'"
      unfolding worker_entries_iff by blast
    then show "v = worker_proc c i j" using Hash_worker_inj [OF assms(1) _ assms(2)] by blast
  qed
  ultimately show ?thesis by (simp add: assign_notin)
qed

section \<open>Processes\<close>

definition wf_conf :: "ClusterProto \<Rightarrow> bool" where
  "wf_conf c \<longleftrightarrow> 0 < nworker_groups c \<and> 0 < nworkers_per_group c \<and> 0 \<le> nserver_groups c \<and>
     0 \<le> nservers_per_group c \<and> 0 < nworkers_per_procs c \<and> 0 < nservers_per_procs c \<and>
     nworkers_per_procs c dvd nworkers c \<and> nservers_per_procs c dvd nservers c"

lemma div_dvd_less: "0 < k \<Longrightarrow> k dvd n \<Longrightarrow> x < n \<Longrightarrow> x div k < (n div k :: int)"
proof (rule ccontr)
  assume "0 < k" "k dvd n" "x < n" "\<not> x div k < n div k"
  then have "k * (n div k) \<le> k * (x div k)" by (intro mult_left_mono) simp_all
  also have "\<dots> \<le> x" using \<open>0 < k\<close> by (simp add: minus_mod_eq_mult_div [symmetric])
  finally show False using \<open>k dvd n\<close> \<open>x < n\<close> by simp
qed

lemma worker_proc_range:
  assumes "wf_conf c" and "worker_at c i j"
  shows "0 \<le> worker_proc c i j" and "worker_proc c i j < nworker_procs c"
  using slot_bounds [of i "nworker_groups c" j "nworkers_per_group c"] assms
    div_dvd_less [of "nworkers_per_procs c" "nworkers c" "i * nworkers_per_group c + j"]
  by (simp_all add: worker_proc_def nworker_procs_def wf_conf_def worker_at_def pos_imp_zdiv_nonneg_iff)

lemma server_proc_range:
  assumes "wf_conf c" and "server_at c i j"
  shows "0 \<le> server_proc c i j" and "server_proc c i j < nserver_procs c"
  using slot_bounds [of i "nserver_groups c" j "nservers_per_group c"] assms
    div_dvd_less [of "nservers_per_procs c" "nservers c" "i * nservers_per_group c + j"]
  by (simp_all add: server_proc_def nserver_procs_def wf_conf_def server_at_def pos_imp_zdiv_nonneg_iff)

lemma slots_snoc:
  assumes "0 < n" and "0 < m"
  shows "\<exists>xs. slots n m = xs @ [(n - 1, m - 1)]"
proof -
  have "[0..k - 1] = [0..k - 1 - 1] @ [k - 1]" if "0 < k" for k :: int
    using that upto_rec2 [of 0 "k - 1"] by simp
  from this [OF assms(1)] this [OF assms(2)] show ?thesis
    unfolding slots_def by simp
qed

lemma server_offset_eq:
  assumes "wf_conf c"
  shows "server_offset c = (if server_worker_separate c then nworker_procs c else 0)"
proof -
  have pos: "0 < nworker_groups c" "0 < nworkers_per_group c" "0 < nworkers_per_procs c"
    "nworkers_per_procs c dvd nworkers c"
    using assms by (simp_all add: wf_conf_def)
  from slots_snoc [OF pos(1,2)] obtain xs where
    "worker_slots c = xs @ [(nworker_groups c - 1, nworkers_per_group c - 1)]"
    unfolding worker_slots_def by blast
  then have "server_offset c = (if server_worker_separate c
      then worker_proc c (nworker_groups c - 1) (nworkers_per_group c - 1) + 1 else 0)"
    by (simp add: server_offset_def)
  moreover have "worker_proc c (nworker_groups c - 1) (nworkers_per_group c - 1) =
      (nworkers c - 1) div nworkers_per_procs c"
    using pos by (simp add: worker_proc_def left_diff_distrib)
  moreover have "(nworkers c - 1) div nworkers_per_procs c + 1 = nworker_procs c"
  proof -
    obtain q where q: "nworkers c = nworkers_per_procs c * q" using pos(4) by (auto simp: dvd_def)
    have "((q - 1) * nworkers_per_procs c + (nworkers_per_procs c - 1)) div nworkers_per_procs c = q - 1"
      using pos(3) by simp
    moreover have "(q - 1) * nworkers_per_procs c + (nworkers_per_procs c - 1) = nworkers_per_procs c * q - 1"
      by (simp add: algebra_simps)
    ultimately have "(nworkers_per_procs c * q - 1) div nworkers_per_procs c = q - 1" by simp
    moreover have "nworker_procs c = nworkers c div nworkers_per_procs c"
      using pos by (simp add: nworker_procs_def)
    ultimately show ?thesis using pos(3) q by simp
  qed
  ultimately show ?thesis by simp
qed

lemma Cluster_new_eq:
  "Cluster_new c = Inr cl \<Longrightarrow> cluster_conf cl = c \<and>
     procs_ids cl = assign (server_entries c) (assign (worker_entries c) Map.empty) \<and>
     nprocs cl = (if server_worker_separate c then nworker_procs c + nserver_procs c
       else max (nworker_procs c) (nserver_procs c))"
  by (auto simp: Cluster_new_def checkR_eq_Inr)

section \<open>Properties\<close>


text \<open>A cluster of one group of two workers and two servers, two of them per process.\<close>

definition small_conf :: ClusterProto where
  "small_conf = \<lparr>nworker_groups = 1, nserver_groups = 1, nworkers_per_group = 2,
     nservers_per_group = 2, nworkers_per_procs = 1, nservers_per_procs = 2,
     server_worker_separate = True, workspace = ''w'', bandwidth = 134217728, poll_time = 100,
     server_update = True, share_memory = True\<rparr>"

definition small_cluster :: Cluster where
  "small_cluster = projr (Cluster_new small_conf)"

lemma small_cluster: "wf_conf small_conf" "Cluster_new small_conf = Inr small_cluster"
  by (simp_all add: wf_conf_def small_conf_def small_cluster_def Cluster_new_def)


text \<open>
  When there are at least as many servers as workers, or none, every worker is found on its
  own process, under both of its flags, and that process has workers.
\<close>

theorem ProcsIDOf_worker:
  assumes "wf_conf c" and "Cluster_new c = Inr cl" and "worker_at c i j"
    and "flag = kWorkerParam \<or> flag = kWorkerLayer" and "nworkers c \<le> nservers c \<or> nservers c = 0"
  shows "\<exists>p. ProcsIDOf cl i j flag = Inr p \<and> p = worker_proc c i j \<and> 0 \<le> p \<and> p < nprocs cl \<and>
    has_worker (cl\<lparr>procs_id := p\<rparr>)"
proof -
  note cl = Cluster_new_eq [OF assms(2)]
  have "ProcsIDOf cl i j flag = Inr (worker_proc c i j)"
    using cl lookup_worker [OF assms(3) _ assms(5), of flag] assms(4) by (simp add: ProcsIDOf_def)
  moreover have "0 \<le> nserver_procs c"
    using assms(1) by (simp add: wf_conf_def nserver_procs_def pos_imp_zdiv_nonneg_iff)
  ultimately show ?thesis
    using cl worker_proc_range [OF assms(1,3)] by (auto simp: has_worker_def)
qed

theorem ProcsIDOf_worker_witness:
  "\<exists>p. ProcsIDOf small_cluster 0 1 kWorkerLayer = Inr p \<and> p = worker_proc small_conf 0 1 \<and> 0 \<le> p \<and>
    p < nprocs small_cluster \<and> has_worker (small_cluster\<lparr>procs_id := p\<rparr>)"
  by (rule ProcsIDOf_worker [OF small_cluster]) (simp_all add: worker_at_def small_conf_def)

text \<open>
  With fewer servers than workers the hash keys of servers and workers overlap: with three
  workers and one server on processes of their own, worker 2 is looked up on the server's process 3.
\<close>

theorem ProcsIDOf_collision:
  "bindR (Cluster_new (small_conf\<lparr>nworkers_per_group := 3, nservers_per_group := 1, nservers_per_procs := 1\<rparr>))
     (\<lambda>cl. ProcsIDOf cl 0 2 kWorkerParam) = Inr 3 \<and>
   worker_proc (small_conf\<lparr>nworkers_per_group := 3, nservers_per_group := 1, nservers_per_procs := 1\<rparr>) 0 2 = 2"
  by (intro conjI; code_simp)

text \<open>
  When the workers do not divide evenly over the processes, the last one is placed on a process
  that the cluster does not count.
\<close>

theorem ProcsIDOf_uneven:
  "bindR (Cluster_new (small_conf\<lparr>nworkers_per_group := 3, nworkers_per_procs := 2, nserver_groups := 0,
       server_worker_separate := False\<rparr>))
     (\<lambda>cl. bindR (ProcsIDOf cl 0 2 kWorkerParam) (\<lambda>p. Inr (p, nprocs cl))) = Inr (1, 1)"
  by code_simp

end
