(* ===== verification/Blob.thy ===== *)
theory Blob
  imports Prelude
begin

text \<open>
  Model of \<open>src/include/utils/blob.h\<close> and \<open>src/src/utils/blob.cc\<close> as the build compiles them
  (\<open>CPU_ONLY\<close>): \<open>SyncedMemory\<close> and \<open>Blob\<close>.

  Parameters, servers and workers of one process share memory through pointers, so memory is
  explicit: \<open>blocks\<close> holds the arrays that \<open>malloc\<close> returned, a pointer is a block and an offset,
  and \<open>SyncedMemory\<close> and \<open>Blob\<close> objects live in stores of their own, because \<open>shared_ptr\<close>s
  to both are copied around. Freed blocks become \<open>None\<close>; the destructors are not modelled, so an
  object that is no longer used stays allocated. The element type is a type variable: nothing is
  assumed of its arithmetic.
\<close>

section \<open>Memory\<close>

datatype ptr = Null | Ptr nat nat

datatype SyncedHead = UNINITIALIZED | HEAD_AT_CPU | HEAD_AT_GPU | SYNCED

record SyncedMemory =
  cpu_ptr :: ptr
  sm_size :: nat
  sm_head :: SyncedHead
  own_cpu_data :: bool

record Blob =
  shape :: "int list"
  bcount :: int
  bcapacity :: int
  bversion :: int
  bdata :: "nat option"

record 'f heap =
  blocks :: "nat \<rightharpoonup> 'f list"
  nblock :: nat
  syncs :: "nat \<Rightarrow> SyncedMemory"
  nsync :: nat
  blobs :: "nat \<Rightarrow> Blob"
  nblob :: nat

definition mem_read :: "ptr \<Rightarrow> nat \<Rightarrow> 'f heap \<Rightarrow> 'f list res" where
  "mem_read p n h =
     (if n = 0 then Inr []
      else case p of
        Null \<Rightarrow> Inl Undefined
      | Ptr b off \<Rightarrow>
          (case blocks h b of
             None \<Rightarrow> Inl Undefined
           | Some xs \<Rightarrow> checkR (off + n \<le> length xs) Undefined (Inr (segment off n xs))))"

definition mem_write :: "ptr \<Rightarrow> 'f list \<Rightarrow> 'f heap \<Rightarrow> 'f heap res" where
  "mem_write p ys h =
     (if ys = [] then Inr h
      else case p of
        Null \<Rightarrow> Inl Undefined
      | Ptr b off \<Rightarrow>
          (case blocks h b of
             None \<Rightarrow> Inl Undefined
           | Some xs \<Rightarrow>
               checkR (off + length ys \<le> length xs) Undefined
                 (Inr (h\<lparr>blocks := (blocks h)(b \<mapsto> blit off ys xs)\<rparr>))))"

text \<open>\<open>MallocHost\<close> of \<open>n\<close> elements, filled as \<open>memset\<close> leaves them.\<close>

definition malloc0 :: "nat \<Rightarrow> ('f :: zero) heap \<Rightarrow> ptr \<times> 'f heap" where
  "malloc0 n h =
     (Ptr (nblock h) 0, h\<lparr>blocks := (blocks h)(nblock h \<mapsto> replicate n 0), nblock := nblock h + 1\<rparr>)"

definition FreeHost :: "ptr \<Rightarrow> 'f heap \<Rightarrow> 'f heap res" where
  "FreeHost p h =
     (case p of
        Null \<Rightarrow> Inr h
      | Ptr b off \<Rightarrow> checkR (off = 0 \<and> b \<in> dom (blocks h)) Undefined (Inr (h\<lparr>blocks := (blocks h)(b := None)\<rparr>)))"

definition ptr_add :: "ptr \<Rightarrow> nat \<Rightarrow> ptr" where
  "ptr_add p n = (case p of Null \<Rightarrow> Null | Ptr b off \<Rightarrow> Ptr b (off + n))"

section \<open>SyncedMemory\<close>

definition SyncedMemory_new :: "nat \<Rightarrow> 'f heap \<Rightarrow> nat \<times> 'f heap" where
  "SyncedMemory_new n h =
     (nsync h, h\<lparr>syncs := (syncs h)(nsync h := \<lparr>cpu_ptr = Null, sm_size = n,
        sm_head = UNINITIALIZED, own_cpu_data = False\<rparr>), nsync := nsync h + 1\<rparr>)"

definition upd_sync :: "nat \<Rightarrow> (SyncedMemory \<Rightarrow> SyncedMemory) \<Rightarrow> 'f heap \<Rightarrow> 'f heap" where
  "upd_sync s f h = h\<lparr>syncs := (syncs h)(s := f (syncs h s))\<rparr>"

definition to_cpu :: "nat \<Rightarrow> ('f :: zero) heap \<Rightarrow> 'f heap res" where
  "to_cpu s h =
     (case sm_head (syncs h s) of
        UNINITIALIZED \<Rightarrow>
          (let (p, h1) = malloc0 (sm_size (syncs h s)) h in
           Inr (upd_sync s (\<lambda>m. m\<lparr>cpu_ptr := p, sm_head := HEAD_AT_CPU, own_cpu_data := True\<rparr>) h1))
      | HEAD_AT_GPU \<Rightarrow> Inl CheckFailed
      | HEAD_AT_CPU \<Rightarrow> Inr h
      | SYNCED \<Rightarrow> Inr h)"

text \<open>\<open>to_gpu\<close>, \<open>gpu_data\<close> and \<open>mutable_gpu_data\<close> are \<open>NO_GPU\<close>: a fatal log entry.\<close>

definition to_gpu :: "nat \<Rightarrow> 'f heap \<Rightarrow> 'f heap res" where
  "to_gpu s h = Inl CheckFailed"

definition sm_cpu_data :: "nat \<Rightarrow> ('f :: zero) heap \<Rightarrow> (ptr \<times> 'f heap) res" where
  "sm_cpu_data s h = bindR (to_cpu s h) (\<lambda>h1. Inr (cpu_ptr (syncs h1 s), h1))"

definition sm_set_cpu_data :: "nat \<Rightarrow> ptr \<Rightarrow> 'f heap \<Rightarrow> 'f heap res" where
  "sm_set_cpu_data s p h =
     checkR (p \<noteq> Null) CheckFailed
       (bindR (if own_cpu_data (syncs h s) then FreeHost (cpu_ptr (syncs h s)) h else Inr h)
         (\<lambda>h1. Inr (upd_sync s (\<lambda>m. m\<lparr>cpu_ptr := p, sm_head := HEAD_AT_CPU, own_cpu_data := False\<rparr>) h1)))"

definition sm_mutable_cpu_data :: "nat \<Rightarrow> ('f :: zero) heap \<Rightarrow> (ptr \<times> 'f heap) res" where
  "sm_mutable_cpu_data s h =
     bindR (to_cpu s h) (\<lambda>h1.
       let h2 = upd_sync s (\<lambda>m. m\<lparr>sm_head := HEAD_AT_CPU\<rparr>) h1 in Inr (cpu_ptr (syncs h2 s), h2))"

section \<open>Blob\<close>

definition upd_blob :: "nat \<Rightarrow> (Blob \<Rightarrow> Blob) \<Rightarrow> 'f heap \<Rightarrow> 'f heap" where
  "upd_blob b f h = h\<lparr>blobs := (blobs h)(b := f (blobs h b))\<rparr>"

definition Blob_new :: "'f heap \<Rightarrow> nat \<times> 'f heap" where
  "Blob_new h =
     (nblob h, h\<lparr>blobs := (blobs h)(nblob h := \<lparr>shape = [], bcount = 0, bcapacity = 0,
        bversion = - 1, bdata = None\<rparr>), nblob := nblob h + 1\<rparr>)"

definition shape_count :: "int list \<Rightarrow> int res" where
  "shape_count sh =
     foldR (\<lambda>c x. checkR (x \<noteq> 0) CheckFailed (checkR (is_c_int (c * x)) Undefined (Inr (c * x)))) 1 sh"

definition Reshape :: "nat \<Rightarrow> int list \<Rightarrow> 'f heap \<Rightarrow> 'f heap res" where
  "Reshape b sh h =
     bindR (shape_count sh) (\<lambda>cnt.
       let h1 = upd_blob b (\<lambda>x. x\<lparr>shape := sh, bcount := cnt\<rparr>) h in
       if bcapacity (blobs h b) < cnt then
         (let (s, h2) = SyncedMemory_new (nat cnt) h1 in
          Inr (upd_blob b (\<lambda>x. x\<lparr>bcapacity := cnt, bdata := Some s\<rparr>) h2))
       else Inr h1)"

definition Blob_new_shape :: "int list \<Rightarrow> 'f heap \<Rightarrow> (nat \<times> 'f heap) res" where
  "Blob_new_shape sh h =
     (let (b, h1) = Blob_new h in bindR (Reshape b sh h1) (\<lambda>h2. Inr (b, h2)))"

definition ReshapeLike :: "nat \<Rightarrow> nat \<Rightarrow> 'f heap \<Rightarrow> 'f heap res" where
  "ReshapeLike b other h = Reshape b (shape (blobs h other)) h"

definition set_version :: "nat \<Rightarrow> int \<Rightarrow> 'f heap \<Rightarrow> 'f heap" where
  "set_version b v h = upd_blob b (\<lambda>x. x\<lparr>bversion := v\<rparr>) h"

definition with_data :: "nat \<Rightarrow> error \<Rightarrow> (nat \<Rightarrow> 'a res) \<Rightarrow> 'f heap \<Rightarrow> 'a res" where
  "with_data b e k h = (case bdata (blobs h b) of None \<Rightarrow> Inl e | Some s \<Rightarrow> k s)"

definition cpu_data :: "nat \<Rightarrow> ('f :: zero) heap \<Rightarrow> (ptr \<times> 'f heap) res" where
  "cpu_data b h = with_data b CheckFailed (\<lambda>s. sm_cpu_data s h) h"

definition set_cpu_data :: "nat \<Rightarrow> ptr \<Rightarrow> 'f heap \<Rightarrow> 'f heap res" where
  "set_cpu_data b p h =
     checkR (p \<noteq> Null) CheckFailed (with_data b Undefined (\<lambda>s. sm_set_cpu_data s p h) h)"

definition mutable_cpu_data :: "nat \<Rightarrow> ('f :: zero) heap \<Rightarrow> (ptr \<times> 'f heap) res" where
  "mutable_cpu_data b h = with_data b CheckFailed (\<lambda>s. sm_mutable_cpu_data s h) h"

definition gpu_data :: "nat \<Rightarrow> 'f heap \<Rightarrow> 'f heap res" where
  "gpu_data b h = with_data b CheckFailed (\<lambda>s. to_gpu s h) h"

definition ShareData :: "nat \<Rightarrow> nat \<Rightarrow> 'f heap \<Rightarrow> 'f heap res" where
  "ShareData b other h =
     checkR (bcount (blobs h b) = bcount (blobs h other)) CheckFailed
       (with_data other CheckFailed (\<lambda>s. Inr (upd_blob b (\<lambda>x. x\<lparr>bdata := Some s\<rparr>) h)) h)"

text \<open>
  The elements of a blob, read through \<open>cpu_data\<close> (which may allocate), and an overwrite of all
  of them through \<open>mutable_cpu_data\<close>.
\<close>

definition blob_read :: "nat \<Rightarrow> ('f :: zero) heap \<Rightarrow> ('f list \<times> 'f heap) res" where
  "blob_read b h =
     bindR (cpu_data b h) (\<lambda>(p, h1).
     bindR (mem_read p (nat (bcount (blobs h1 b))) h1) (\<lambda>xs. Inr (xs, h1)))"

definition blob_write :: "nat \<Rightarrow> 'f list \<Rightarrow> ('f :: zero) heap \<Rightarrow> 'f heap res" where
  "blob_write b xs h = bindR (mutable_cpu_data b h) (\<lambda>(p, h1). mem_write p xs h1)"

text \<open>A copy into the memory of a blob, from the element \<open>off\<close> on.\<close>

definition slice_write :: "nat \<Rightarrow> nat \<Rightarrow> 'f list \<Rightarrow> ('f :: zero) heap \<Rightarrow> 'f heap res" where
  "slice_write b off xs h = bindR (mutable_cpu_data b h) (\<lambda>(p, h1). mem_write (ptr_add p off) xs h1)"

text \<open>\<open>cblas_sasum\<close> and the conversion of \<open>int\<close> to the element type are arguments.\<close>

definition asum_data ::
  "('f list \<Rightarrow> 'f) \<Rightarrow> (int \<Rightarrow> 'f) \<Rightarrow> nat \<Rightarrow> ('f :: {zero, divide}) heap \<Rightarrow> ('f \<times> 'f heap) res" where
  "asum_data cblas_sasum of_count b h =
     (if bcount (blobs h b) = 0 then Inr (0, h)
      else bindR (blob_read b h) (\<lambda>(xs, h1). Inr (cblas_sasum xs div of_count (bcount (blobs h b)), h1)))"

definition sum_data :: "(int \<Rightarrow> 'f) \<Rightarrow> nat \<Rightarrow> ('f :: {zero, plus, divide}) heap \<Rightarrow> ('f \<times> 'f heap) res" where
  "sum_data of_count b h =
     (if bcount (blobs h b) = 0 then Inr (0, h)
      else bindR (blob_read b h) (\<lambda>(xs, h1). Inr (foldl (+) 0 xs div of_count (bcount (blobs h b)), h1)))"

text \<open>
  \<open>std::equal(a.begin(), a.end(), b.begin())\<close>: stops at the first difference, and runs past the
  end of a shorter \<open>b\<close> that agrees so far.
\<close>

fun std_equal :: "'a list \<Rightarrow> 'a list \<Rightarrow> bool res" where
  "std_equal [] bs = Inr True"
| "std_equal (a # as) (b # bs) = (if a = b then std_equal as bs else Inr False)"
| "std_equal (a # as) [] = Inl Undefined"

definition Swap :: "nat \<Rightarrow> nat \<Rightarrow> 'f heap \<Rightarrow> 'f heap res" where
  "Swap b other h =
     checkR (bcount (blobs h other) = bcount (blobs h b)) CheckFailed
       (bindR (std_equal (shape (blobs h b)) (shape (blobs h other))) (\<lambda>eq.
         checkR eq CheckFailed
           (Inr (upd_blob other (\<lambda>x. x\<lparr>bdata := bdata (blobs h b), bcapacity := bcapacity (blobs h b)\<rparr>)
             (upd_blob b (\<lambda>x. x\<lparr>bdata := bdata (blobs h other), bcapacity := bcapacity (blobs h other)\<rparr>) h)))))"

definition CopyFrom :: "nat \<Rightarrow> nat \<Rightarrow> bool \<Rightarrow> ('f :: zero) heap \<Rightarrow> 'f heap res" where
  "CopyFrom b source reshape h =
     bindR (std_equal (shape (blobs h b)) (shape (blobs h source))) (\<lambda>eq.
     bindR (if eq then Inr h
            else if reshape then Reshape b (shape (blobs h source)) h
            else Inl CheckFailed) (\<lambda>h1.
       with_data b Undefined (\<lambda>s.
         bindR (sm_mutable_cpu_data s h1) (\<lambda>(p, h2).
         bindR (cpu_data source h2) (\<lambda>(q, h3).
         bindR (mem_read q (nat (bcount (blobs h3 b))) h3) (\<lambda>xs.
           mem_write p xs h3)))) h1))"

record 'f BlobProto =
  bp_shape :: "int list"
  bp_data :: "'f list"

definition FromProto :: "nat \<Rightarrow> 'f BlobProto \<Rightarrow> ('f :: zero) heap \<Rightarrow> 'f heap res" where
  "FromProto b proto h =
     bindR (Reshape b (bp_shape proto) h) (\<lambda>h1.
       let n = nat (bcount (blobs h1 b)) in
       bindR (mutable_cpu_data b h1) (\<lambda>(p, h2).
         checkR (n \<le> length (bp_data proto)) Undefined
           (mem_write p (take n (bp_data proto)) h2)))"

text \<open>\<open>ToProto\<close> adds the shape to what the message holds and replaces the data.\<close>

definition ToProto :: "nat \<Rightarrow> 'f BlobProto \<Rightarrow> ('f :: zero) heap \<Rightarrow> ('f BlobProto \<times> 'f heap) res" where
  "ToProto b proto h =
     bindR (blob_read b h) (\<lambda>(xs, h1).
       Inr (\<lparr>bp_shape = bp_shape proto @ shape (blobs h b), bp_data = xs\<rparr>, h1))"

section \<open>Well-formed memory\<close>

definition region :: "'f heap \<Rightarrow> ptr \<Rightarrow> nat \<Rightarrow> bool" where
  "region h p n \<longleftrightarrow> n = 0 \<or> (\<exists>b off xs. p = Ptr b off \<and> blocks h b = Some xs \<and> off + n \<le> length xs)"

lemma region_Null: "region h Null n \<longleftrightarrow> n = 0"
  and region_Ptr: "region h (Ptr b off) n \<longleftrightarrow>
    n = 0 \<or> (case blocks h b of None \<Rightarrow> False | Some xs \<Rightarrow> off + n \<le> length xs)"
  by (auto simp: region_def split: option.splits)

text \<open>
  Every initialised \<open>SyncedMemory\<close> points to as many elements as it was made for, and every blob
  stays within the capacity it has. \<open>CPU_ONLY\<close> never puts the head at the GPU.
\<close>

definition wf_sync :: "'f heap \<Rightarrow> SyncedMemory \<Rightarrow> bool" where
  "wf_sync h m \<longleftrightarrow> sm_head m \<noteq> HEAD_AT_GPU \<and>
     (sm_head m = UNINITIALIZED \<or> region h (cpu_ptr m) (sm_size m))"

definition wf_blob :: "'f heap \<Rightarrow> Blob \<Rightarrow> bool" where
  "wf_blob h x \<longleftrightarrow> bcount x \<le> bcapacity x \<and>
     (case bdata x of
        None \<Rightarrow> bcapacity x \<le> 0
      | Some s \<Rightarrow> s < nsync h \<and> nat (bcapacity x) \<le> sm_size (syncs h s))"

definition wf_heap :: "'f heap \<Rightarrow> bool" where
  "wf_heap h \<longleftrightarrow> (\<forall>b \<in> dom (blocks h). b < nblock h) \<and>
     (\<forall>s < nsync h. wf_sync h (syncs h s)) \<and> (\<forall>b < nblob h. wf_blob h (blobs h b))"

text \<open>
  The elements a blob stands for: zeros while its memory is not allocated, else what its
  pointer designates.
\<close>

definition block_of :: "ptr \<Rightarrow> 'f heap \<Rightarrow> 'f list" where
  "block_of p h =
     (case p of Null \<Rightarrow> [] | Ptr b off \<Rightarrow> drop off (case blocks h b of None \<Rightarrow> [] | Some xs \<Rightarrow> xs))"

definition contents :: "('f :: zero) heap \<Rightarrow> nat \<Rightarrow> 'f list" where
  "contents h b =
     (let n = nat (bcount (blobs h b)) in
      case bdata (blobs h b) of
        None \<Rightarrow> replicate n 0
      | Some s \<Rightarrow>
          (if sm_head (syncs h s) = UNINITIALIZED then replicate n 0
           else take n (block_of (cpu_ptr (syncs h s)) h)))"

lemma mem_read_region: "region h p n \<Longrightarrow> mem_read p n h = Inr (take n (block_of p h))"
  by (auto simp: region_def mem_read_def block_of_def segment_def)

lemma region_mono: "region h p n \<Longrightarrow> m \<le> n \<Longrightarrow> region h p m"
  by (auto simp: region_def)

lemma length_block_of: "region h p n \<Longrightarrow> n \<le> length (block_of p h)"
  by (auto simp: region_def block_of_def)

lemma wf_blob_sync:
  assumes "wf_heap h" and "b < nblob h" and "bdata (blobs h b) = Some s"
  shows "wf_sync h (syncs h s)" and "nat (bcount (blobs h b)) \<le> sm_size (syncs h s)" and "s < nsync h"
proof -
  have "wf_blob h (blobs h b)" using assms by (simp add: wf_heap_def)
  then show "wf_sync h (syncs h s)" "nat (bcount (blobs h b)) \<le> sm_size (syncs h s)" "s < nsync h"
    using assms by (auto simp: wf_blob_def wf_heap_def)
qed

lemma length_contents:
  assumes "wf_heap h" and "b < nblob h"
  shows "length (contents h b) = nat (bcount (blobs h b))"
proof (cases "bdata (blobs h b)")
  case (Some s)
  show ?thesis
  proof (cases "sm_head (syncs h s) = UNINITIALIZED")
    case False
    then have "region h (cpu_ptr (syncs h s)) (sm_size (syncs h s))"
      using wf_blob_sync(1) [OF assms Some] by (simp add: wf_sync_def)
    then show ?thesis
      using length_block_of wf_blob_sync(2) [OF assms Some] Some False
      by (fastforce simp: contents_def Let_def)
  qed (simp add: contents_def Some Let_def)
qed (simp add: contents_def Let_def)

section \<open>Allocation on first use\<close>

text \<open>\<open>to_cpu\<close> changes no element of any blob and keeps the memory well-formed.\<close>

lemma blocks_malloc:
  "wf_heap h \<Longrightarrow> blocks h b = Some xs \<Longrightarrow> blocks (snd (malloc0 k h)) b = Some xs"
  by (fastforce simp: malloc0_def wf_heap_def)

lemma region_malloc: "wf_heap h \<Longrightarrow> region h p n \<Longrightarrow> region (snd (malloc0 k h)) p n"
  unfolding region_def using blocks_malloc by blast

lemma block_of_malloc:
  "wf_heap h \<Longrightarrow> region h p n \<Longrightarrow> 0 < n \<Longrightarrow> block_of p (snd (malloc0 k h)) = block_of p h"
  unfolding region_def block_of_def using blocks_malloc [of h _ _ k] by fastforce

lemma to_cpu_spec:
  assumes "wf_heap h" and "s < nsync h"
  shows "\<exists>h1. to_cpu s h = Inr h1 \<and> wf_heap h1 \<and> blobs h1 = blobs h \<and> nblob h1 = nblob h \<and>
    nsync h1 = nsync h \<and> (\<forall>b < nblob h. contents h1 b = contents h b) \<and> sm_head (syncs h1 s) \<noteq> UNINITIALIZED \<and>
    (\<forall>t. sm_size (syncs h1 t) = sm_size (syncs h t)) \<and>
    (\<forall>t. t \<noteq> s \<longrightarrow> syncs h1 t = syncs h t)"
proof (cases "sm_head (syncs h s) = UNINITIALIZED")
  case False
  then show ?thesis
    using assms by (cases "sm_head (syncs h s)") (auto simp: to_cpu_def wf_heap_def wf_sync_def)
next
  case True
  let ?n = "sm_size (syncs h s)"
  let ?h0 = "snd (malloc0 ?n h)"
  define h1 where "h1 = upd_sync s (\<lambda>m. m\<lparr>cpu_ptr := Ptr (nblock h) 0, sm_head := HEAD_AT_CPU,
    own_cpu_data := True\<rparr>) ?h0"
  have h1: "to_cpu s h = Inr h1" "blobs h1 = blobs h" "nblob h1 = nblob h" "nsync h1 = nsync h"
    "\<And>t. t \<noteq> s \<Longrightarrow> syncs h1 t = syncs h t" "sm_size (syncs h1 s) = ?n"
    "cpu_ptr (syncs h1 s) = Ptr (nblock h) 0" "sm_head (syncs h1 s) = HEAD_AT_CPU"
    "blocks h1 = (blocks h)(nblock h \<mapsto> replicate ?n 0)" "nblock h1 = nblock h + 1"
    by (simp_all add: to_cpu_def True malloc0_def h1_def upd_sync_def)
  have reg: "region h1 p n = region ?h0 p n" "block_of p h1 = block_of p ?h0" for p n
    by (simp_all add: h1_def upd_sync_def region_def block_of_def split: ptr.splits)
  have new: "region h1 (Ptr (nblock h) 0) ?n" by (simp add: region_def h1(9))
  have sizes: "sm_size (syncs h1 t) = sm_size (syncs h t)" for t
    using h1(5,6) by (cases "t = s") simp_all
  have "wf_sync h1 (syncs h1 t)" if "t < nsync h" for t
  proof (cases "t = s")
    case True
    then show ?thesis using h1(6-8) new by (simp add: wf_sync_def)
  next
    case False
    then show ?thesis
      using h1(5) that assms(1) region_malloc [OF assms(1)] by (auto simp: wf_sync_def reg wf_heap_def)
  qed
  moreover have "wf_blob h1 (blobs h1 b)" if "b < nblob h" for b
    using that assms(1) by (auto simp: wf_blob_def wf_heap_def h1 sizes split: option.splits)
  moreover have "\<forall>b \<in> dom (blocks h1). b < nblock h1"
    using assms(1) by (auto simp: wf_heap_def h1(9,10) less_Suc_eq)
  ultimately have wf: "wf_heap h1" by (simp add: wf_heap_def h1)
  have "contents h1 b = contents h b" if b: "b < nblob h" for b
  proof (cases "bdata (blobs h b)")
    case (Some t)
    note t = wf_blob_sync [OF assms(1) b Some]
    show ?thesis
    proof (cases "t = s")
      case True
      then show ?thesis
        using Some h1 t(2) \<open>sm_head (syncs h s) = UNINITIALIZED\<close> by (simp add: contents_def block_of_def Let_def)
    next
      case False
      then show ?thesis
        using Some h1(2,5) t block_of_malloc [OF assms(1), of "cpu_ptr (syncs h t)" "nat (bcount (blobs h b))" ?n]
          region_mono [of h "cpu_ptr (syncs h t)" "sm_size (syncs h t)" "nat (bcount (blobs h b))"]
        by (cases "nat (bcount (blobs h b)) = 0") (auto simp: contents_def Let_def reg wf_sync_def)
    qed
  qed (simp add: contents_def h1(2))
  then show ?thesis using h1 wf sizes by auto
qed

section \<open>Reading and writing blobs\<close>

lemma blob_read_spec:
  assumes "wf_heap h" and "b < nblob h" and "bdata (blobs h b) \<noteq> None"
  shows "\<exists>h1. blob_read b h = Inr (contents h b, h1) \<and> wf_heap h1 \<and> blobs h1 = blobs h \<and>
    nblob h1 = nblob h \<and> (\<forall>c < nblob h. contents h1 c = contents h c)"
proof -
  obtain s where s: "bdata (blobs h b) = Some s" using assms(3) by blast
  obtain h1 where h1: "to_cpu s h = Inr h1" "wf_heap h1" "blobs h1 = blobs h" "nblob h1 = nblob h"
    "\<forall>c < nblob h. contents h1 c = contents h c" "sm_head (syncs h1 s) \<noteq> UNINITIALIZED"
    using to_cpu_spec [OF assms(1) wf_blob_sync(3) [OF assms(1,2) s]] by blast
  have "bdata (blobs h1 b) = Some s" "b < nblob h1" using s h1 assms(2) by simp_all
  note t = wf_blob_sync [OF h1(2) this(2,1)]
  have "region h1 (cpu_ptr (syncs h1 s)) (nat (bcount (blobs h b)))"
    using t(1,2) h1(3,6) by (auto simp: wf_sync_def intro: region_mono)
  then have "mem_read (cpu_ptr (syncs h1 s)) (nat (bcount (blobs h1 b))) h1 = Inr (contents h1 b)"
    using s h1(3,6) by (simp add: mem_read_region contents_def Let_def)
  then show ?thesis
    using h1 s assms(2) by (simp add: blob_read_def cpu_data_def with_data_def sm_cpu_data_def)
qed

text \<open>
  The pointers that \<open>cpu_data\<close> and \<open>mutable_cpu_data\<close> hand out read every part of the blob.
\<close>

definition reads_blob :: "ptr \<Rightarrow> nat \<Rightarrow> ('f :: zero) heap \<Rightarrow> 'f heap \<Rightarrow> bool" where
  "reads_blob q b h h1 \<longleftrightarrow> wf_heap h1 \<and> blobs h1 = blobs h \<and> nblob h1 = nblob h \<and>
     (\<forall>c < nblob h. contents h1 c = contents h c) \<and>
     (\<forall>off n. off + n \<le> nat (bcount (blobs h b)) \<longrightarrow>
        mem_read (ptr_add q off) n h1 = Inr (segment off n (contents h b)))"

lemma region_ptr_add: "region h q n \<Longrightarrow> off + m \<le> n \<Longrightarrow> region h (ptr_add q off) m"
  by (cases q) (auto simp: ptr_add_def region_Ptr region_Null split: option.splits)

lemma block_of_ptr_add: "block_of (ptr_add p off) h = drop off (block_of p h)"
  by (simp add: block_of_def ptr_add_def add.commute split: ptr.split)

lemma ptr_add_0 [simp]: "ptr_add p 0 = p"
  by (cases p) (simp_all add: ptr_add_def)

lemma cpu_data_spec:
  assumes "wf_heap h" and "b < nblob h" and "bdata (blobs h b) \<noteq> None"
  shows "\<exists>q h1. cpu_data b h = Inr (q, h1) \<and> reads_blob q b h h1"
    and "\<exists>q h1. mutable_cpu_data b h = Inr (q, h1) \<and> reads_blob q b h h1"
proof -
  obtain s where s: "bdata (blobs h b) = Some s" using assms(3) by blast
  obtain g where g: "to_cpu s h = Inr g" "wf_heap g" "blobs g = blobs h" "nblob g = nblob h"
    "\<forall>c < nblob h. contents g c = contents h c" "sm_head (syncs g s) \<noteq> UNINITIALIZED"
    using to_cpu_spec [OF assms(1) wf_blob_sync(3) [OF assms(1,2) s]] by blast
  define g' where "g' = upd_sync s (\<lambda>m. m\<lparr>sm_head := HEAD_AT_CPU\<rparr>) g"
  let ?q = "cpu_ptr (syncs g s)"
  have bs: "bdata (blobs g b) = Some s" "b < nblob g" using s g assms(2) by simp_all
  have reg: "region g ?q (nat (bcount (blobs h b)))"
    using wf_blob_sync(1,2) [OF g(2) bs(2,1)] g(3,6) by (auto simp: wf_sync_def intro: region_mono)
  have cont: "contents h b = take (nat (bcount (blobs h b))) (block_of ?q g)"
  proof -
    have "contents g b = contents h b" using g(5) assms(2) by blast
    moreover have "contents g b = take (nat (bcount (blobs h b))) (block_of ?q g)"
      using g(3,6) s by (simp add: contents_def Let_def)
    ultimately show ?thesis by simp
  qed
  have rd: "mem_read (ptr_add ?q off) n g = Inr (segment off n (contents h b))"
    if "off + n \<le> nat (bcount (blobs h b))" for off n
    using that mem_read_region [OF region_ptr_add [OF reg that]]
    by (simp add: cont segment_def block_of_ptr_add take_drop min_def)
  have same: "sm_head (syncs g' t) = UNINITIALIZED \<longleftrightarrow> sm_head (syncs g t) = UNINITIALIZED"
    "cpu_ptr (syncs g' t) = cpu_ptr (syncs g t)" "blobs g' = blobs g" "nblob g' = nblob g"
    "blocks g' = blocks g" "sm_size (syncs g' t) = sm_size (syncs g t)" "nsync g' = nsync g" "nblock g' = nblock g"
    "sm_head (syncs g' t) = HEAD_AT_GPU \<longrightarrow> sm_head (syncs g t) = HEAD_AT_GPU" for t
    using g(6) by (auto simp: g'_def upd_sync_def)
  have blk: "block_of p g' = block_of p g" "region g' p n = region g p n" "mem_read p n g' = mem_read p n g" for p n
    by (simp_all add: block_of_def region_def mem_read_def same(5) split: ptr.split)
  have "contents g' c = contents g c" for c
    by (simp add: contents_def same blk Let_def split: option.split)
  moreover have "wf_heap g'"
    using g(2) same by (auto simp: wf_heap_def wf_sync_def blk wf_blob_def split: option.splits)
  ultimately have "reads_blob ?q b h g" "reads_blob ?q b h g'"
    using g rd by (simp_all add: reads_blob_def same blk)
  then show "\<exists>q h1. cpu_data b h = Inr (q, h1) \<and> reads_blob q b h h1"
    and "\<exists>q h1. mutable_cpu_data b h = Inr (q, h1) \<and> reads_blob q b h h1"
    using s g(1) same(2) [of s]
    by (simp_all add: cpu_data_def mutable_cpu_data_def with_data_def sm_cpu_data_def
        sm_mutable_cpu_data_def Let_def g'_def)
qed

definition ptr_disj :: "ptr \<Rightarrow> nat \<Rightarrow> ptr \<Rightarrow> nat \<Rightarrow> bool" where
  "ptr_disj p n q m \<longleftrightarrow>
     (case (p, q) of (Ptr b i, Ptr c j) \<Rightarrow> b \<noteq> c \<or> i + n \<le> j \<or> j + m \<le> i | _ \<Rightarrow> True)"

text \<open>Two blobs that do not share memory.\<close>

definition separate :: "'f heap \<Rightarrow> nat \<Rightarrow> nat \<Rightarrow> bool" where
  "separate h b c \<longleftrightarrow>
     (case (bdata (blobs h b), bdata (blobs h c)) of
        (Some s, Some t) \<Rightarrow> s \<noteq> t \<and>
          (sm_head (syncs h s) = UNINITIALIZED \<or> sm_head (syncs h t) = UNINITIALIZED \<or>
           ptr_disj (cpu_ptr (syncs h s)) (sm_size (syncs h s)) (cpu_ptr (syncs h t)) (sm_size (syncs h t)))
      | _ \<Rightarrow> True)"

lemma mem_write_region:
  assumes "region h p (length xs)"
  shows "\<exists>h1. mem_write p xs h = Inr h1 \<and> take (length xs) (block_of p h1) = xs \<and>
    syncs h1 = syncs h \<and> nsync h1 = nsync h \<and> blobs h1 = blobs h \<and> nblob h1 = nblob h \<and>
    nblock h1 = nblock h \<and> dom (blocks h1) = dom (blocks h) \<and> (\<forall>q n. region h1 q n = region h q n) \<and>
    (\<forall>q n m k. ptr_disj p n q m \<longrightarrow> length xs \<le> n \<longrightarrow> k \<le> m \<longrightarrow>
      take k (block_of q h1) = take k (block_of q h)) \<and>
    (\<forall>q off n. p = ptr_add q off \<longrightarrow> off + length xs \<le> n \<longrightarrow> region h q n \<longrightarrow>
      take n (block_of q h1) = blit off xs (take n (block_of q h)))"
proof (cases "xs = []")
  case True
  then show ?thesis by (simp add: mem_write_def blit_Nil)
next
  case False
  then obtain b off ys where p: "p = Ptr b off" "blocks h b = Some ys" "off + length xs \<le> length ys"
    using assms by (auto simp: region_def)
  let ?h1 = "h\<lparr>blocks := (blocks h)(b \<mapsto> blit off xs ys)\<rparr>"
  have "mem_write p xs h = Inr ?h1" using p False by (simp add: mem_write_def)
  moreover have "take (length xs) (block_of p ?h1) = xs"
    using p by (simp add: block_of_def blit_def)
  moreover have "region ?h1 q n = region h q n" for q n
    using p by (cases q) (auto simp: region_Ptr region_Null split: option.splits)
  moreover have "take k (block_of q ?h1) = take k (block_of q h)"
    if "ptr_disj p n q m" "length xs \<le> n" "k \<le> m" for q n m k
  proof (cases q)
    case (Ptr c j)
    show ?thesis
    proof (cases "c = b")
      case True
      then have "off + length xs \<le> j \<or> j + k \<le> off" using that Ptr p(1) by (auto simp: ptr_disj_def)
      then have "segment j k (blit off xs ys) = segment j k ys"
        using p(3) segment_blit_above [of off xs j ys k] segment_blit_below [of j k off ys xs] by auto
      then show ?thesis using True Ptr p(2) by (simp add: block_of_def segment_def)
    qed (simp add: block_of_def Ptr)
  qed (simp add: block_of_def)
  moreover have "take n (block_of q ?h1) = blit k xs (take n (block_of q h))"
    if t: "p = ptr_add q k" "k + length xs \<le> n" "region h q n" for q k n
  proof -
    obtain i where q: "q = Ptr b i" "off = i + k" using t(1) p(1) by (cases q) (auto simp: ptr_add_def)
    then have "i + n \<le> length ys" using t(2,3) p(2) False by (auto simp: region_Ptr)
    moreover have "k < n" using False t(2) by (cases xs) simp_all
    ultimately show ?thesis
      using q p(2,3) t(2) by (auto simp: block_of_def blit_def take_drop min_def add_ac)
  qed
  ultimately show ?thesis using p(2) by (intro exI [of _ ?h1]) auto
qed

lemma separate_to_cpu:
  assumes "wf_heap h" and "b < nblob h" and "c < nblob h" and "separate h b c"
    and "bdata (blobs h b) = Some s" and "to_cpu s h = Inr h1" and "0 < bcount (blobs h c)"
  shows "separate h1 b c"
proof (cases "sm_head (syncs h s) = UNINITIALIZED")
  case True
  have h1: "blobs h1 = blobs h" "cpu_ptr (syncs h1 s) = Ptr (nblock h) 0" "\<And>t. t \<noteq> s \<Longrightarrow> syncs h1 t = syncs h t"
    using assms(6) by (auto simp: to_cpu_def True malloc0_def upd_sync_def)
  show ?thesis
  proof (cases "bdata (blobs h c)")
    case (Some t)
    then have "t \<noteq> s" using assms(4,5) by (auto simp: separate_def)
    note wt = wf_blob_sync [OF assms(1,3) Some]
    have "ptr_disj (Ptr (nblock h) 0) n (cpu_ptr (syncs h t)) m"
      if init: "sm_head (syncs h t) \<noteq> UNINITIALIZED" for n m
    proof -
      have "0 < sm_size (syncs h t)" using wt(2) assms(7) by linarith
      then obtain d off ys where "cpu_ptr (syncs h t) = Ptr d off" "blocks h d = Some ys"
        using wt(1) init by (auto simp: wf_sync_def region_def)
      then show ?thesis using assms(1) by (fastforce simp: ptr_disj_def wf_heap_def)
    qed
    then show ?thesis using Some assms(5) h1 \<open>t \<noteq> s\<close> by (auto simp: separate_def)
  qed (simp add: separate_def h1(1) split: option.splits)
next
  case False
  then have "h1 = h" using assms(6) by (auto simp: to_cpu_def split: SyncedHead.splits)
  then show ?thesis using assms(4) by simp
qed

lemma contents_cong:
  assumes "blobs h1 = blobs h" and "bdata (blobs h c) = Some t"
    and "sm_head (syncs h1 t) = UNINITIALIZED \<longleftrightarrow> sm_head (syncs h t) = UNINITIALIZED"
    and "cpu_ptr (syncs h1 t) = cpu_ptr (syncs h t)"
    and "sm_head (syncs h t) \<noteq> UNINITIALIZED \<Longrightarrow>
      take (nat (bcount (blobs h c))) (block_of (cpu_ptr (syncs h t)) h1) =
      take (nat (bcount (blobs h c))) (block_of (cpu_ptr (syncs h t)) h)"
  shows "contents h1 c = contents h c"
  using assms by (simp add: contents_def Let_def)

lemma slice_write_spec:
  assumes "wf_heap h" and "b < nblob h" and "bdata (blobs h b) \<noteq> None"
    and "off + length xs \<le> nat (bcount (blobs h b))"
  shows "\<exists>h1. slice_write b off xs h = Inr h1 \<and> wf_heap h1 \<and> blobs h1 = blobs h \<and> nblob h1 = nblob h \<and>
    contents h1 b = blit off xs (contents h b) \<and>
    (\<forall>c < nblob h. separate h b c \<longrightarrow> contents h1 c = contents h c) \<and>
    (\<forall>c < nblob h. separate h b c \<longrightarrow> 0 < bcount (blobs h c) \<longrightarrow> separate h1 b c)"
proof -
  obtain s where s: "bdata (blobs h b) = Some s" using assms(3) by blast
  obtain g where g: "to_cpu s h = Inr g" "wf_heap g" "blobs g = blobs h" "nblob g = nblob h"
    "nsync g = nsync h" "\<forall>c < nblob h. contents g c = contents h c" "sm_head (syncs g s) \<noteq> UNINITIALIZED"
    using to_cpu_spec [OF assms(1) wf_blob_sync(3) [OF assms(1,2) s]] by blast
  define g' where "g' = upd_sync s (\<lambda>m. m\<lparr>sm_head := HEAD_AT_CPU\<rparr>) g"
  have g': "blobs g' = blobs g" "nblob g' = nblob g" "nsync g' = nsync g" "blocks g' = blocks g"
    "nblock g' = nblock g" "\<And>t. cpu_ptr (syncs g' t) = cpu_ptr (syncs g t)"
    "\<And>t. sm_size (syncs g' t) = sm_size (syncs g t)"
    "\<And>t. sm_head (syncs g' t) = (if t = s then HEAD_AT_CPU else sm_head (syncs g t))"
    by (auto simp: g'_def upd_sync_def)
  have reg: "region g' p n = region g p n" "block_of p g' = block_of p g" for p n
    by (simp_all add: region_def block_of_def g'(4) split: ptr.split)
  have ms: "mutable_cpu_data b h = Inr (cpu_ptr (syncs g s), g')"
    using s g(1) by (simp add: mutable_cpu_data_def with_data_def sm_mutable_cpu_data_def g'_def upd_sync_def)
  have bs: "bdata (blobs g b) = Some s" "b < nblob g" using s g assms(2) by simp_all
  note wb = wf_blob_sync [OF g(2) bs(2,1)]
  let ?q = "cpu_ptr (syncs g s)" and ?n = "nat (bcount (blobs h b))"
  have le: "off + length xs \<le> sm_size (syncs g s)" using wb(2) g(3) assms(4) by simp
  have rg: "region g' ?q ?n"
    using wb(1,2) g(3,7) by (auto simp: reg wf_sync_def intro: region_mono)
  have "region g' (ptr_add ?q off) (length xs)"
    using rg assms(4) by (cases ?q) (auto simp: ptr_add_def region_Ptr region_Null split: option.splits)
  from mem_write_region [OF this] obtain h1 where h1: "mem_write (ptr_add ?q off) xs g' = Inr h1"
    "take ?n (block_of ?q h1) = blit off xs (take ?n (block_of ?q g'))" "syncs h1 = syncs g'" "nsync h1 = nsync g'"
    "blobs h1 = blobs g'" "nblob h1 = nblob g'" "nblock h1 = nblock g'" "dom (blocks h1) = dom (blocks g')"
    "\<And>q n. region h1 q n = region g' q n"
    "\<And>q n m k. ptr_disj (ptr_add ?q off) n q m \<Longrightarrow> length xs \<le> n \<Longrightarrow> k \<le> m \<Longrightarrow>
      take k (block_of q h1) = take k (block_of q g')"
    using rg assms(4) by blast
  have wf: "wf_heap h1"
  proof -
    have "wf_sync h1 (syncs h1 t)" if "t < nsync g" for t
      using that g(2) g(7) h1(3,9) g'(6-8) by (auto simp: wf_sync_def wf_heap_def reg)
    moreover have "wf_blob h1 (blobs h1 c)" if "c < nblob g" for c
      using that g(2) h1(3-5) g'(1,3,7) by (auto simp: wf_blob_def wf_heap_def split: option.splits)
    ultimately show ?thesis using g(2) h1 g' by (simp add: wf_heap_def)
  qed
  have "contents g b = take ?n (block_of ?q g)"
    using s g(3,7) by (simp add: contents_def Let_def)
  moreover have "contents h1 b = take ?n (block_of ?q h1)"
    using s h1(3,5) g'(1,6,8) g(3) by (simp add: contents_def Let_def)
  ultimately have "contents h1 b = blit off xs (contents h b)"
    using h1(2) g(6) assms(2) by (simp add: reg)
  moreover have "contents h1 c = contents h c" if c: "c < nblob h" "separate h b c" for c
  proof (cases "bdata (blobs h c)")
    case None
    then show ?thesis using h1(5) g'(1) g(3) by (simp add: contents_def)
  next
    case (Some t)
    show ?thesis
    proof (cases "0 < bcount (blobs h c)")
      case True
      have sep: "separate g b c" by (rule separate_to_cpu [OF assms(1,2) c s g(1) True])
      have ct: "bdata (blobs g c) = Some t" "c < nblob g" using Some g c by simp_all
      have "t \<noteq> s" using c(2) s Some by (auto simp: separate_def)
      have "contents h1 c = contents g c"
      proof (rule contents_cong [OF _ ct(1)])
        assume "sm_head (syncs g t) \<noteq> UNINITIALIZED"
        then have "ptr_disj ?q (sm_size (syncs g s)) (cpu_ptr (syncs g t)) (sm_size (syncs g t))"
          using sep bs(1) ct(1) g(7) by (simp add: separate_def)
        then have "ptr_disj (ptr_add ?q off) (sm_size (syncs g s) - off) (cpu_ptr (syncs g t)) (sm_size (syncs g t))"
          using le by (auto simp: ptr_disj_def ptr_add_def split: ptr.splits)
        from h1(10) [OF this]
        show "take (nat (bcount (blobs g c))) (block_of (cpu_ptr (syncs g t)) h1) =
            take (nat (bcount (blobs g c))) (block_of (cpu_ptr (syncs g t)) g)"
          using le wf_blob_sync(2) [OF g(2) ct(2,1)] by (simp add: reg)
      qed (use h1 g' \<open>t \<noteq> s\<close> in simp_all)
      then show ?thesis using g(6) c(1) by simp
    next
      case False
      then show ?thesis using h1(5) g'(1) g(3) by (simp add: contents_def split: option.splits)
    qed
  qed
  moreover have "separate h1 b c" if c: "c < nblob h" "separate h b c" "0 < bcount (blobs h c)" for c
  proof -
    have "separate g b c" by (rule separate_to_cpu [OF assms(1,2) c(1,2) s g(1) c(3)])
    moreover have "sm_head (syncs h1 t) = UNINITIALIZED \<longleftrightarrow> sm_head (syncs g t) = UNINITIALIZED"
      "cpu_ptr (syncs h1 t) = cpu_ptr (syncs g t)" "sm_size (syncs h1 t) = sm_size (syncs g t)" for t
      using h1(3) g'(6-8) g(7) by auto
    ultimately show ?thesis using h1(5) g'(1) by (simp add: separate_def split: option.splits)
  qed
  moreover have "slice_write b off xs h = Inr h1" using ms h1(1) by (simp add: slice_write_def)
  ultimately show ?thesis using wf h1(5,6) g' g by auto
qed

lemma blob_write_slice: "blob_write b xs h = slice_write b 0 xs h"
  by (simp add: blob_write_def slice_write_def)

lemma blob_write_spec:
  assumes "wf_heap h" and "b < nblob h" and "bdata (blobs h b) \<noteq> None"
    and "length xs = nat (bcount (blobs h b))"
  shows "\<exists>h1. blob_write b xs h = Inr h1 \<and> wf_heap h1 \<and> blobs h1 = blobs h \<and> nblob h1 = nblob h \<and>
    contents h1 b = xs \<and> (\<forall>c < nblob h. separate h b c \<longrightarrow> contents h1 c = contents h c) \<and>
    (\<forall>c < nblob h. separate h b c \<longrightarrow> 0 < bcount (blobs h c) \<longrightarrow> separate h1 b c)"
  using slice_write_spec [OF assms(1-3), of 0 xs] assms(4) length_contents [OF assms(1,2)]
  by (fastforce simp: blob_write_slice)

section \<open>Shapes and fresh memory\<close>

lemma wf_blob_cong:
  "wf_blob h x \<Longrightarrow> nsync h \<le> nsync h1 \<Longrightarrow> (\<And>t. t < nsync h \<Longrightarrow> sm_size (syncs h1 t) = sm_size (syncs h t)) \<Longrightarrow>
   wf_blob h1 x"
  by (auto simp: wf_blob_def split: option.splits)

lemma Reshape_spec:
  assumes "wf_heap h" and "b < nblob h" and "shape_count sh = Inr cnt"
  shows "\<exists>h1. Reshape b sh h = Inr h1 \<and> wf_heap h1 \<and> nblob h1 = nblob h \<and>
    shape (blobs h1 b) = sh \<and> bcount (blobs h1 b) = cnt \<and> bversion (blobs h1 b) = bversion (blobs h b) \<and>
    (0 < cnt \<longrightarrow> bdata (blobs h1 b) \<noteq> None) \<and>
    (if bcapacity (blobs h b) < cnt then contents h1 b = replicate (nat cnt) 0
     else cnt \<le> bcount (blobs h b) \<longrightarrow> contents h1 b = take (nat cnt) (contents h b)) \<and>
    (\<forall>c < nblob h. c \<noteq> b \<longrightarrow> blobs h1 c = blobs h c \<and> contents h1 c = contents h c)"
proof (cases "bcapacity (blobs h b) < cnt")
  case False
  let ?h1 = "upd_blob b (\<lambda>x. x\<lparr>shape := sh, bcount := cnt\<rparr>) h"
  have "Reshape b sh h = Inr ?h1" using assms(3) False by (simp add: Reshape_def Let_def)
  moreover have wb: "wf_blob h (blobs h b)" using assms by (simp add: wf_heap_def)
  have "wf_heap ?h1"
    using assms(1,2) False wb
    by (auto simp: wf_heap_def wf_sync_def upd_blob_def wf_blob_def region_def split: option.splits)
  moreover have "cnt \<le> bcount (blobs h b) \<longrightarrow> contents ?h1 b = take (nat cnt) (contents h b)"
    by (auto simp: contents_def upd_blob_def block_of_def Let_def min_def split: option.splits ptr.splits)
  moreover have "contents ?h1 c = contents h c" if "c \<noteq> b" for c
    using that by (simp add: contents_def upd_blob_def block_of_def Let_def split: option.split ptr.split)
  moreover have "0 < cnt \<longrightarrow> bdata (blobs h b) \<noteq> None" using False wb by (auto simp: wf_blob_def split: option.splits)
  ultimately show ?thesis using False by (auto simp: upd_blob_def)
next
  case True
  define s where "s = nsync h"
  define h1 where "h1 = h\<lparr>syncs := (syncs h)(s := \<lparr>cpu_ptr = Null, sm_size = nat cnt,
     sm_head = UNINITIALIZED, own_cpu_data = False\<rparr>), nsync := nsync h + 1,
     blobs := (blobs h)(b := (blobs h b)\<lparr>shape := sh, bcount := cnt, bcapacity := cnt, bdata := Some s\<rparr>)\<rparr>"
  have "Reshape b sh h = Inr h1"
    using assms(3) True by (simp add: Reshape_def Let_def SyncedMemory_new_def upd_blob_def h1_def s_def)
  moreover have syncs: "syncs h1 t = syncs h t" if "t < nsync h" for t
    using that by (simp add: h1_def s_def)
  have reg: "region h1 p n = region h p n" "block_of p h1 = block_of p h" for p n
    by (simp_all add: h1_def region_def block_of_def split: ptr.split)
  have keep: "contents h1 c = contents h c" if "c < nblob h" "c \<noteq> b" for c
  proof -
    have "blobs h1 c = blobs h c" using that(2) by (simp add: h1_def)
    then show ?thesis
      using syncs wf_blob_sync(3) [OF assms(1) that(1)]
      by (auto simp: contents_def Let_def reg split: option.splits)
  qed
  have "wf_heap h1"
    unfolding wf_heap_def
  proof (intro conjI allI impI)
    fix t assume "t < nsync h1"
    show "wf_sync h1 (syncs h1 t)"
    proof (cases "t = s")
      case True
      then show ?thesis by (simp add: wf_sync_def h1_def)
    next
      case False
      then have "t < nsync h" using \<open>t < nsync h1\<close> by (simp add: h1_def s_def)
      then show ?thesis using syncs assms(1) by (simp add: wf_heap_def wf_sync_def reg)
    qed
  next
    fix c assume "c < nblob h1"
    then show "wf_blob h1 (blobs h1 c)"
    proof (cases "c = b")
      case False
      then have "wf_blob h (blobs h1 c)" using assms(1) \<open>c < nblob h1\<close> by (simp add: wf_heap_def h1_def)
      then show ?thesis by (rule wf_blob_cong) (use syncs in \<open>auto simp: h1_def\<close>)
    qed (simp add: wf_blob_def h1_def s_def)
  qed (use assms(1) in \<open>auto simp: wf_heap_def h1_def\<close>)
  ultimately show ?thesis using True keep by (auto simp: h1_def contents_def)
qed

section \<open>Sharing memory\<close>

text \<open>
  \<open>aliases h b w off\<close>: blob \<open>b\<close> stands on the elements of blob \<open>w\<close> from \<open>off\<close> on.
\<close>

definition aliases :: "'f heap \<Rightarrow> nat \<Rightarrow> nat \<Rightarrow> nat \<Rightarrow> bool" where
  "aliases h b w off \<longleftrightarrow>
     (\<exists>s t. bdata (blobs h b) = Some s \<and> bdata (blobs h w) = Some t \<and>
        sm_head (syncs h s) \<noteq> UNINITIALIZED \<and> sm_head (syncs h t) \<noteq> UNINITIALIZED \<and>
        cpu_ptr (syncs h s) = ptr_add (cpu_ptr (syncs h t)) off \<and>
        int off + bcount (blobs h b) \<le> bcount (blobs h w))"

lemma aliases_contents:
  assumes "aliases h b w off"
  shows "contents h b = segment off (nat (bcount (blobs h b))) (contents h w)"
  using assms
  by (auto simp: aliases_def contents_def block_of_ptr_add segment_def Let_def take_drop min_def)

lemma blob_write_shape:
  assumes "blob_write c xs h = Inr h1"
  shows "blobs h1 = blobs h \<and>
    (\<forall>s. sm_head (syncs h s) \<noteq> UNINITIALIZED \<longrightarrow>
      sm_head (syncs h1 s) \<noteq> UNINITIALIZED \<and> cpu_ptr (syncs h1 s) = cpu_ptr (syncs h s))"
  using assms
  by (auto simp: blob_write_def mutable_cpu_data_def with_data_def sm_mutable_cpu_data_def to_cpu_def
      malloc0_def upd_sync_def mem_write_def checkR_def bindR_eq_Inr Let_def
      split: option.splits SyncedHead.splits if_splits ptr.splits)

lemma aliases_write: "blob_write c xs h = Inr h1 \<Longrightarrow> aliases h b w off \<Longrightarrow> aliases h1 b w off"
  using blob_write_shape [of c xs h h1] unfolding aliases_def by metis

lemma set_cpu_data_aliases:
  assumes "wf_heap h" and "b < nblob h" and "w < nblob h"
    and "bdata (blobs h b) = Some s" and "sm_head (syncs h s) = UNINITIALIZED"
    and "bdata (blobs h w) = Some t" and "sm_head (syncs h t) \<noteq> UNINITIALIZED"
    and "off + sm_size (syncs h s) \<le> nat (bcount (blobs h w))" and "0 < bcount (blobs h w)"
    and "own_cpu_data (syncs h s) = False"
  shows "\<exists>h1. set_cpu_data b (ptr_add (cpu_ptr (syncs h t)) off) h = Inr h1 \<and> wf_heap h1 \<and>
    blobs h1 = blobs h \<and> nblob h1 = nblob h \<and> contents h1 w = contents h w \<and> aliases h1 b w off"
proof -
  note wt = wf_blob_sync [OF assms(1,3,6)] and ws = wf_blob_sync [OF assms(1,2,4)]
  have "s \<noteq> t" using assms(5,7) by auto
  obtain d i xs where p: "cpu_ptr (syncs h t) = Ptr d i" "blocks h d = Some xs"
    "i + sm_size (syncs h t) \<le> length xs"
    using wt(1,2) assms(7,9) by (auto simp: wf_sync_def region_def)
  define h1 where "h1 = upd_sync s (\<lambda>m. m\<lparr>cpu_ptr := Ptr d (i + off), sm_head := HEAD_AT_CPU,
    own_cpu_data := False\<rparr>) h"
  have h1: "blobs h1 = blobs h" "nblob h1 = nblob h" "nsync h1 = nsync h" "blocks h1 = blocks h"
    "nblock h1 = nblock h" "\<And>u. u \<noteq> s \<Longrightarrow> syncs h1 u = syncs h u"
    "\<And>u. sm_size (syncs h1 u) = sm_size (syncs h u)" "cpu_ptr (syncs h1 s) = Ptr d (i + off)"
    "sm_head (syncs h1 s) = HEAD_AT_CPU"
    by (auto simp: h1_def upd_sync_def)
  have reg: "region h1 q n = region h q n" "block_of q h1 = block_of q h" for q n
    by (simp_all add: region_def block_of_def h1(4) split: ptr.split)
  have "set_cpu_data b (ptr_add (cpu_ptr (syncs h t)) off) h = Inr h1"
    using assms(4,10) p(1) by (simp add: set_cpu_data_def with_data_def sm_set_cpu_data_def ptr_add_def h1_def)
  moreover have "wf_heap h1"
  proof -
    have "wf_sync h1 (syncs h1 u)" if "u < nsync h" for u
    proof (cases "u = s")
      case True
      then show ?thesis
        using h1 p assms(8) wt(2) by (auto simp: wf_sync_def region_Ptr)
    next
      case False
      then show ?thesis using that assms(1) h1(6) by (simp add: wf_heap_def wf_sync_def reg)
    qed
    moreover have "wf_blob h1 (blobs h1 c)" if "c < nblob h" for c
      using that assms(1) h1(1,3,7) by (auto simp: wf_heap_def intro: wf_blob_cong)
    ultimately show ?thesis using assms(1) h1 by (simp add: wf_heap_def)
  qed
  moreover have "contents h1 w = contents h w"
    using assms(6) h1 \<open>s \<noteq> t\<close> by (simp add: contents_def reg Let_def)
  moreover have "int off + bcount (blobs h b) \<le> bcount (blobs h w)"
    using assms(8,9) ws(2) by linarith
  then have "aliases h1 b w off"
    using assms(4,6,7) h1 \<open>s \<noteq> t\<close> p(1) by (auto simp: aliases_def ptr_add_def)
  ultimately show ?thesis using h1(1,2) by blast
qed

section \<open>Round trip through the protocol buffer\<close>

lemma ToProto_spec:
  assumes "wf_heap h" and "b < nblob h" and "bdata (blobs h b) \<noteq> None"
  shows "\<exists>h1. ToProto b \<lparr>bp_shape = [], bp_data = []\<rparr> h =
      Inr (\<lparr>bp_shape = shape (blobs h b), bp_data = contents h b\<rparr>, h1) \<and> wf_heap h1 \<and>
    blobs h1 = blobs h \<and> nblob h1 = nblob h \<and> (\<forall>c < nblob h. contents h1 c = contents h c)"
  using blob_read_spec [OF assms] by (auto simp: ToProto_def)

lemma FromProto_spec:
  assumes "wf_heap h" and "b < nblob h" and "shape_count (bp_shape proto) = Inr cnt" and "0 < cnt"
    and "length (bp_data proto) = nat cnt"
  shows "\<exists>h1. FromProto b proto h = Inr h1 \<and> wf_heap h1 \<and> nblob h1 = nblob h \<and>
    shape (blobs h1 b) = bp_shape proto \<and> contents h1 b = bp_data proto"
proof -
  obtain g where g: "Reshape b (bp_shape proto) h = Inr g" "wf_heap g" "nblob g = nblob h"
    "shape (blobs g b) = bp_shape proto" "bcount (blobs g b) = cnt" "bdata (blobs g b) \<noteq> None"
    using Reshape_spec [OF assms(1-3)] assms(4) by blast
  from blob_write_spec [OF g(2) _ g(6), of "bp_data proto"] assms(2,5) g(3,5)
  obtain h1 where "blob_write b (bp_data proto) g = Inr h1" "wf_heap h1" "blobs h1 = blobs g"
    "nblob h1 = nblob g" "contents h1 b = bp_data proto"
    by auto
  then show ?thesis
    using g assms(5) by (auto simp: FromProto_def blob_write_def Let_def)
qed

section \<open>Properties\<close>

definition heap0 :: "'f heap" where
  "heap0 = \<lparr>blocks = Map.empty, nblock = 0, syncs = (\<lambda>_. \<lparr>cpu_ptr = Null, sm_size = 0,
     sm_head = UNINITIALIZED, own_cpu_data = False\<rparr>), nsync = 0,
     blobs = (\<lambda>_. \<lparr>shape = [], bcount = 0, bcapacity = 0, bversion = - 1, bdata = None\<rparr>), nblob = 0\<rparr>"

lemma wf_heap0: "wf_heap heap0"
  by (simp add: wf_heap_def heap0_def)

lemma Blob_new_spec:
  assumes "wf_heap h"
  shows "wf_heap (snd (Blob_new h))" and "nblob (snd (Blob_new h)) = nblob h + 1"
    and "\<And>c. c < nblob h \<Longrightarrow> contents (snd (Blob_new h)) c = contents h c"
    and "\<And>c. c < nblob h \<Longrightarrow> blobs (snd (Blob_new h)) c = blobs h c"
  using assms
  by (auto simp: Blob_new_def wf_heap_def wf_sync_def region_def wf_blob_def less_Suc_eq
      contents_def block_of_def Let_def split: option.splits ptr.splits)

text \<open>
  \<open>Reshape\<close> allocates only when the blob grows beyond its capacity: then the blob holds
  zeros; otherwise a blob that gets no larger keeps the front of its elements. Other blobs are
  not touched.
\<close>

theorem Reshape_contents:
  assumes "wf_heap h" and "b < nblob h" and "shape_count sh = Inr cnt"
  shows "\<exists>h1. Reshape b sh h = Inr h1 \<and> wf_heap h1 \<and> shape (blobs h1 b) = sh \<and>
    bcount (blobs h1 b) = cnt \<and>
    (if bcapacity (blobs h b) < cnt then contents h1 b = replicate (nat cnt) 0
     else cnt \<le> bcount (blobs h b) \<longrightarrow> contents h1 b = take (nat cnt) (contents h b)) \<and>
    (\<forall>c < nblob h. c \<noteq> b \<longrightarrow> blobs h1 c = blobs h c \<and> contents h1 c = contents h c)"
  using Reshape_spec [OF assms] by blast

lemma blob_in_heap0:
  "wf_heap (snd (Blob_new (heap0 :: ('f :: zero) heap)))"
  "0 < nblob (snd (Blob_new (heap0 :: ('f :: zero) heap)))"
  by (rule Blob_new_spec(1) [OF wf_heap0]) (simp add: Blob_new_def heap0_def)

theorem Reshape_contents_witness:
  "\<exists>h1. Reshape 0 [2, 3] (snd (Blob_new (heap0 :: int heap))) = Inr h1 \<and> wf_heap h1 \<and>
    shape (blobs h1 0) = [2, 3] \<and> bcount (blobs h1 0) = 6 \<and> contents h1 0 = replicate 6 0"
  using Reshape_contents [OF blob_in_heap0, of "[2, 3]" 6]
  by (auto simp: shape_count_def is_c_int_def Blob_new_def heap0_def)

text \<open>
  A blob written to a \<open>BlobProto\<close> and read back into another blob gives that blob the shape
  and the elements of the first.
\<close>

theorem Blob_proto_roundtrip:
  assumes "wf_heap h" and "b < nblob h" and "c < nblob h" and "bdata (blobs h b) \<noteq> None"
    and "shape_count (shape (blobs h b)) = Inr (bcount (blobs h b))" and "0 < bcount (blobs h b)"
  shows "\<exists>h1. bindR (ToProto b \<lparr>bp_shape = [], bp_data = []\<rparr> h) (\<lambda>(proto, g). FromProto c proto g) = Inr h1 \<and>
    wf_heap h1 \<and> shape (blobs h1 c) = shape (blobs h b) \<and> contents h1 c = contents h b"
proof -
  obtain g where g: "ToProto b \<lparr>bp_shape = [], bp_data = []\<rparr> h =
      Inr (\<lparr>bp_shape = shape (blobs h b), bp_data = contents h b\<rparr>, g)" "wf_heap g" "nblob g = nblob h"
    using ToProto_spec [OF assms(1,2,4)] by blast
  then show ?thesis
    using FromProto_spec [OF g(2), of c "\<lparr>bp_shape = shape (blobs h b), bp_data = contents h b\<rparr>"]
      length_contents [OF assms(1,2)] assms(3,5,6) by auto
qed

definition two_blobs :: "int heap" where
  "two_blobs = snd (Blob_new (projr (Reshape 0 [2] (snd (Blob_new heap0)))))"

lemma two_blobs_wf: "wf_heap two_blobs" "nblob two_blobs = 2" "bdata (blobs two_blobs 0) = Some 0"
  "shape (blobs two_blobs 0) = [2]" "bcount (blobs two_blobs 0) = 2"
proof -
  obtain h1 where h1: "Reshape 0 [2] (snd (Blob_new (heap0 :: int heap))) = Inr h1" "wf_heap h1"
    using Reshape_spec [OF blob_in_heap0, of "[2]" 2] by (auto simp: shape_count_def is_c_int_def)
  then show "wf_heap two_blobs"
    using Blob_new_spec(1) [of h1] by (simp add: two_blobs_def)
qed (simp_all add: two_blobs_def Reshape_def shape_count_def is_c_int_def Blob_new_def heap0_def
       upd_blob_def SyncedMemory_new_def Let_def)

theorem Blob_proto_roundtrip_witness:
  "\<exists>h1. bindR (ToProto 0 \<lparr>bp_shape = [], bp_data = []\<rparr> two_blobs) (\<lambda>(proto, g). FromProto 1 proto g) = Inr h1 \<and>
    wf_heap h1 \<and> shape (blobs h1 1) = shape (blobs two_blobs 0) \<and> contents h1 1 = contents two_blobs 0"
  by (rule Blob_proto_roundtrip)
     (simp_all add: two_blobs_wf shape_count_def is_c_int_def)

text \<open>
  A blob that was given a pointer into another one shares its elements: after any write to
  either of them, or to a third blob, it still shows the current elements of the other.
\<close>

theorem set_cpu_data_shares:
  assumes "wf_heap h" and "b < nblob h" and "w < nblob h"
    and "bdata (blobs h b) = Some s" and "sm_head (syncs h s) = UNINITIALIZED" and "\<not> own_cpu_data (syncs h s)"
    and "bdata (blobs h w) = Some t" and "sm_head (syncs h t) \<noteq> UNINITIALIZED"
    and "off + sm_size (syncs h s) \<le> nat (bcount (blobs h w))" and "0 < bcount (blobs h w)"
  shows "\<exists>h1. set_cpu_data b (ptr_add (cpu_ptr (syncs h t)) off) h = Inr h1 \<and>
    contents h1 b = segment off (nat (bcount (blobs h b))) (contents h w) \<and>
    (\<forall>c xs h2. blob_write c xs h1 = Inr h2 \<longrightarrow>
       contents h2 b = segment off (nat (bcount (blobs h b))) (contents h2 w))"
proof -
  obtain h1 where h1: "set_cpu_data b (ptr_add (cpu_ptr (syncs h t)) off) h = Inr h1"
    "blobs h1 = blobs h" "contents h1 w = contents h w" "aliases h1 b w off"
    using set_cpu_data_aliases [OF assms(1-5,7-10)] assms(6) by blast
  have "contents h2 b = segment off (nat (bcount (blobs h b))) (contents h2 w)"
    if "blob_write c xs h1 = Inr h2" for c xs h2
    using aliases_contents [OF aliases_write [OF that h1(4)]] blob_write_shape [OF that] h1(2) by simp
  then show ?thesis using aliases_contents [OF h1(4)] h1 by auto
qed

definition shared_blobs :: "int heap" where
  "shared_blobs = projr (Reshape 1 [1] (projr (blob_write 0 [7, 8] two_blobs)))"

theorem set_cpu_data_shares_witness:
  "\<exists>h1. set_cpu_data 1 (ptr_add (cpu_ptr (syncs shared_blobs 0)) 1) shared_blobs = Inr h1 \<and>
    contents h1 1 = segment 1 (nat (bcount (blobs shared_blobs 1))) (contents shared_blobs 0) \<and>
    (\<forall>c xs h2. blob_write c xs h1 = Inr h2 \<longrightarrow>
       contents h2 1 = segment 1 (nat (bcount (blobs shared_blobs 1))) (contents h2 0))"
proof (rule set_cpu_data_shares)
  obtain g where g: "blob_write 0 [7, 8] two_blobs = Inr g" "wf_heap g" "nblob g = 2"
    using blob_write_spec [of two_blobs 0 "[7, 8]"] two_blobs_wf by auto
  obtain h1 where "Reshape 1 [1] g = Inr h1" "wf_heap h1" "nblob h1 = 2"
    using Reshape_spec [OF g(2), of 1 "[1]" 1] g(3) by (auto simp: shape_count_def is_c_int_def)
  then show "wf_heap shared_blobs" "1 < nblob shared_blobs" "0 < nblob shared_blobs"
    using g(1) by (simp_all add: shared_blobs_def)
qed code_simp+

end
