(* ===== verification/Param.thy ===== *)
theory Param
  imports Msg Blob
begin

text \<open>
  Model of \<open>src/include/utils/param.h\<close> and \<open>src/src/utils/param.cc\<close>: a model parameter, its
  slices, and the messages by which workers and servers put, get, update and synchronise it.

  A \<open>Param\<close> is a record whose data, gradient and history are blobs of the heap of theory
  \<open>Blob\<close>; \<open>data_\<close> is a \<open>shared_ptr\<close>, here the address of a blob. Messages carry floats in
  frames of their own or pointers into the heap. The random generator and the libm functions are
  arguments. Every operation returns the changed parameter, heap and message.
\<close>

type_synonym 'f msg = "('f, ptr) Msg"

section \<open>Targets\<close>

definition ParamTrgt :: "int \<Rightarrow> int \<Rightarrow> int" where
  "ParamTrgt param_id slice_id = c_int (push_bit 16 param_id OR slice_id)"

definition ParamID :: "int \<Rightarrow> int" where
  "ParamID param_trgt = drop_bit 16 param_trgt"

definition SliceID :: "int \<Rightarrow> int" where
  "SliceID param_trgt = param_trgt AND (push_bit 16 1 - 1)"

section \<open>State\<close>

datatype InitMethod =
  kConstant | kGaussian | kUniform | kPretrained | kGaussainSqrtFanIn | kUniformSqrtFanIn | kUniformSqrtFanInOut

record 'f ParamProto =
  init_method :: InitMethod
  pp_value :: 'f
  pp_low :: 'f
  pp_high :: 'f
  pp_mean :: 'f
  pp_std :: 'f
  learning_rate_multiplier :: 'f
  weight_decay_multiplier :: 'f
  pp_vis :: bool
  pp_name :: string
  pp_share_from :: string
  pp_id :: int
  pp_owner :: int

text \<open>The defaults of \<open>ParamProto\<close> in \<open>src/src/proto/job.proto\<close>.\<close>

definition ParamProto_default :: "('f :: {zero, one, uminus}) ParamProto" where
  "ParamProto_default = \<lparr>init_method = kGaussian, pp_value = 1, pp_low = - 1, pp_high = 1, pp_mean = 0,
     pp_std = 1, learning_rate_multiplier = 1, weight_decay_multiplier = 1, pp_vis = False,
     pp_name = [], pp_share_from = [], pp_id = 0, pp_owner = - 1\<rparr>"

record 'f Param =
  local_version :: int
  slice_start :: int
  num_slices :: int
  slice_offset :: "int list"
  slice_size :: "int list"
  pending_put :: "bool list"
  pending_get :: "bool list"
  pending_update :: "bool list"
  num_pending_requests :: int
  pdata :: "nat option"
  pgrad :: nat
  phistory :: nat
  pproto :: "'f ParamProto"

definition Param_new :: "('f :: {zero, one, uminus}) heap \<Rightarrow> 'f Param \<times> 'f heap" where
  "Param_new h =
     (let (g, h1) = Blob_new h; (hi, h2) = Blob_new h1 in
      (\<lparr>local_version = - 1, slice_start = 0, num_slices = 0, slice_offset = [], slice_size = [],
        pending_put = [], pending_get = [], pending_update = [], num_pending_requests = 0,
        pdata = None, pgrad = g, phistory = hi, pproto = ParamProto_default\<rparr>, h2))"

definition Param_Setup :: "'f ParamProto \<Rightarrow> int list \<Rightarrow> 'f Param \<Rightarrow> 'f heap \<Rightarrow> ('f Param \<times> 'f heap) res" where
  "Param_Setup proto sh p h =
     bindR (Blob_new_shape sh h) (\<lambda>(d, h1).
     bindR (Reshape (pgrad p) sh h1) (\<lambda>h2.
     bindR (Reshape (phistory p) sh h2) (\<lambda>h3.
       Inr (p\<lparr>pdata := Some d, pproto := proto\<rparr>, h3))))"

definition set_id :: "int \<Rightarrow> 'f Param \<Rightarrow> 'f Param" where
  "set_id i p = p\<lparr>pproto := (pproto p)\<lparr>pp_id := i, pp_owner := i\<rparr>\<rparr>"

text \<open>A dereference of \<open>data_\<close>.\<close>

definition data_blob :: "'f Param \<Rightarrow> nat res" where
  "data_blob p = (case pdata p of None \<Rightarrow> Inl Undefined | Some b \<Rightarrow> Inr b)"

definition param_size :: "'f Param \<Rightarrow> 'f heap \<Rightarrow> int res" where
  "param_size p h = bindR (data_blob p) (\<lambda>b. Inr (bcount (blobs h b)))"

definition param_version :: "'f Param \<Rightarrow> 'f heap \<Rightarrow> int res" where
  "param_version p h = bindR (data_blob p) (\<lambda>b. Inr (bversion (blobs h b)))"

definition param_set_version :: "int \<Rightarrow> 'f Param \<Rightarrow> 'f heap \<Rightarrow> 'f heap res" where
  "param_set_version v p h = bindR (data_blob p) (\<lambda>b. Inr (set_version b v h))"

section \<open>Slices\<close>

definition AddSlice :: "int \<Rightarrow> int \<Rightarrow> 'f Param \<Rightarrow> 'f Param res" where
  "AddSlice slice_id sz p =
     bindR
       (if slice_size p \<noteq> [] then
          checkR (slice_start p + num_slices p = slice_id) CheckFailed
            (if slice_offset p = [] then Inl Undefined
             else Inr (p, last (slice_offset p) + last (slice_size p)))
        else Inr (p\<lparr>slice_start := slice_id\<rparr>, 0))
       (\<lambda>(p1, off).
         Inr (p1\<lparr>slice_offset := slice_offset p1 @ [off], slice_size := slice_size p1 @ [sz],
           pending_get := pending_get p1 @ [False], pending_update := pending_update p1 @ [False],
           pending_put := pending_put p1 @ [False], num_slices := num_slices p1 + 1\<rparr>))"

section \<open>Initial values\<close>

text \<open>
  The samplers of mshadow (with the state \<open>'r\<close> of the generator), \<open>sqrt\<close> and the conversion of
  an \<open>int\<close>.
\<close>

record ('f, 'r) sampler =
  SampleUniform :: "nat \<Rightarrow> 'f \<Rightarrow> 'f \<Rightarrow> 'r \<Rightarrow> 'f list \<times> 'r"
  SampleGaussian :: "nat \<Rightarrow> 'f \<Rightarrow> 'f \<Rightarrow> 'r \<Rightarrow> 'f list \<times> 'r"
  fsqrt :: "'f \<Rightarrow> 'f"
  of_i :: "int \<Rightarrow> 'f"

definition scale :: "('f :: {zero, times}) \<Rightarrow> 'f \<Rightarrow> 'f list \<Rightarrow> 'f list" where
  "scale v factor xs = (if v \<noteq> 0 then map (\<lambda>x. x * factor) xs else xs)"

definition init_floats ::
  "('f, 'r) sampler \<Rightarrow> ('f :: {zero, times, divide}) ParamProto \<Rightarrow> int list \<Rightarrow> nat \<Rightarrow> 'f list \<Rightarrow> 'r \<Rightarrow>
   ('f list \<times> 'r) res" where
  "init_floats S pr sh n old r =
     (let v = pp_value pr in
      case init_method pr of
        kConstant \<Rightarrow> Inr (replicate n v, r)
      | kUniform \<Rightarrow>
          (let (xs, r1) = SampleUniform S n (pp_low pr) (pp_high pr) r in Inr (scale v v xs, r1))
      | kUniformSqrtFanInOut \<Rightarrow>
          (let (xs, r1) = SampleUniform S n (pp_low pr) (pp_high pr) r in
           if v \<noteq> 0 then
             bindR (idxR sh 0) (\<lambda>d0. bindR (idxR sh 1) (\<lambda>d1.
               Inr (scale v (v div fsqrt S (of_i S (d0 + d1))) xs, r1)))
           else Inr (xs, r1))
      | kGaussian \<Rightarrow>
          (let (xs, r1) = SampleGaussian S n (pp_mean pr) (pp_std pr) r in Inr (scale v v xs, r1))
      | kGaussainSqrtFanIn \<Rightarrow>
          (let (xs, r1) = SampleGaussian S n (pp_mean pr) (pp_std pr) r in
           if v \<noteq> 0 then
             bindR (idxR sh 0) (\<lambda>d0. Inr (scale v (v div fsqrt S (of_i S d0)) xs, r1))
           else Inr (xs, r1))
      | _ \<Rightarrow> Inr (old, r))"

definition InitValues ::
  "('f, 'r) sampler \<Rightarrow> int \<Rightarrow> ('f :: {zero, times, divide}) Param \<Rightarrow> 'f heap \<Rightarrow> 'r \<Rightarrow> ('f heap \<times> 'r) res" where
  "InitValues S version p h r =
     bindR (data_blob p) (\<lambda>b.
     bindR (blob_read b h) (\<lambda>(old, h1).
     bindR (init_floats S (pproto p) (shape (blobs h1 b)) (nat (bcount (blobs h1 b))) old r) (\<lambda>(xs, r1).
     bindR (blob_write b xs h1) (\<lambda>h2.
       Inr (set_version b version h2, r1)))))"

definition Param_FromProto :: "'f BlobProto \<Rightarrow> 'f Param \<Rightarrow> ('f :: zero) heap \<Rightarrow> 'f heap res" where
  "Param_FromProto bp p h = bindR (data_blob p) (\<lambda>b. FromProto b bp h)"

definition Param_ToProto :: "'f BlobProto \<Rightarrow> 'f Param \<Rightarrow> ('f :: zero) heap \<Rightarrow> ('f BlobProto \<times> 'f heap) res" where
  "Param_ToProto bp p h = bindR (data_blob p) (\<lambda>b. ToProto b bp h)"

section \<open>Requests of the worker\<close>

text \<open>\<open>new Msg()\<close> and a typed frame: \<open>add_fmt\<close> drops the size that \<open>AddFormatFrame\<close> returns.\<close>

definition add_fmt :: "('f, ptr) field list \<Rightarrow> 'f msg \<Rightarrow> 'f msg res" where
  "add_fmt fs m = bindR (AddFormatFrame fs m) (\<lambda>(_, m1). Inr m1)"

text \<open>The pointer \<open>blob.mutable_cpu_data() + offset\<close>; a slice offset is never negative.\<close>

definition slice_ptr :: "nat \<Rightarrow> int \<Rightarrow> ('f :: zero) heap \<Rightarrow> (ptr \<times> 'f heap) res" where
  "slice_ptr b off h = bindR (mutable_cpu_data b h) (\<lambda>(q, h1). Inr (ptr_add q (nat off), h1))"

definition GenPutMsg :: "bool \<Rightarrow> int \<Rightarrow> 'f Param \<Rightarrow> ('f :: zero) heap \<Rightarrow> ('f msg \<times> 'f heap) res" where
  "GenPutMsg copy idx p h =
     checkR (idx < num_slices p) CheckFailed
     (bindR (data_blob p) (\<lambda>b.
      bindR (idxR (slice_offset p) idx) (\<lambda>off.
      bindR (idxR (slice_size p) idx) (\<lambda>sz.
      bindR (slice_ptr b off h) (\<lambda>(q, h1).
      bindR (add_fmt [FI sz, FF (learning_rate_multiplier (pproto p)),
          FF (weight_decay_multiplier (pproto p)), FP (if copy then Null else q)]
          ((Msg_new 0 0)\<lparr>msg_type := kPut\<rparr>)) (\<lambda>m.
        if copy then bindR (mem_read q (nat sz) h1) (\<lambda>xs. Inr (AddFrame (Floats xs) m, h1))
        else Inr (m, h1)))))))"

definition GenGetMsg ::
  "bool \<Rightarrow> int \<Rightarrow> 'f Param \<Rightarrow> ('f :: zero) heap \<Rightarrow> ('f msg \<times> 'f Param \<times> 'f heap) res" where
  "GenGetMsg copy idx p h =
     checkR (idx < num_slices p) CheckFailed
     (bindR (data_blob p) (\<lambda>b.
      bindR (idxR (slice_offset p) idx) (\<lambda>off.
      bindR (cpu_data b h) (\<lambda>(q, h1).
      bindR (add_fmt [FI (if copy then 1 else 0), FP (ptr_add q (nat off))]
          ((Msg_new 0 0)\<lparr>msg_type := kGet\<rparr>)) (\<lambda>m.
      bindR (idxR (pending_get p) idx) (\<lambda>_.
        Inr (m, p\<lparr>pending_get := (pending_get p)[nat idx := True],
          num_pending_requests := num_pending_requests p + 1\<rparr>, h1)))))))"

definition GenUpdateMsg ::
  "bool \<Rightarrow> int \<Rightarrow> 'f Param \<Rightarrow> ('f :: zero) heap \<Rightarrow> ('f msg \<times> 'f Param \<times> 'f heap) res" where
  "GenUpdateMsg copy idx p h =
     checkR (idx < num_slices p) CheckFailed
     (bindR (add_fmt [FI (if copy then 1 else 0)] ((Msg_new 0 0)\<lparr>msg_type := kUpdate\<rparr>)) (\<lambda>m.
      bindR (idxR (slice_offset p) idx) (\<lambda>off.
      bindR (idxR (slice_size p) idx) (\<lambda>sz.
      bindR (slice_ptr (pgrad p) off h) (\<lambda>(q, h1).
      bindR (if copy then bindR (mem_read q (nat sz) h1) (\<lambda>xs. Inr (AddFrame (Floats xs) m))
             else add_fmt [FP q] m) (\<lambda>m1.
      bindR (idxR (pending_update p) idx) (\<lambda>_.
        Inr (m1, p\<lparr>pending_update := (pending_update p)[nat idx := True],
          num_pending_requests := num_pending_requests p + 1\<rparr>, h1))))))))"

definition GenSyncMsg :: "int \<Rightarrow> int \<Rightarrow> 'f Param \<Rightarrow> ('f :: zero) heap \<Rightarrow> ('f msg \<times> 'f heap) res" where
  "GenSyncMsg off sz p h =
     bindR (data_blob p) (\<lambda>b.
     bindR (mutable_cpu_data b h) (\<lambda>(q, h1).
     bindR (mem_read q (nat (bcount (blobs h1 b))) h1) (\<lambda>xs.
       Inr (AddFrame (Floats xs)
         (set_trgt (ParamTrgt (- 1) (pp_id (pproto p))) (local_version p)
           ((Msg_new 0 0)\<lparr>msg_type := kSyncRequest\<rparr>)), h1))))"

section \<open>Handlers of the server\<close>

text \<open>
  \<open>HandlePutMsg\<close> stores the two multipliers of the message and then calls \<open>Setup\<close> with a
  default \<open>ParamProto\<close>. The returned message has moved its cursor.
\<close>

definition HandlePutMsg ::
  "'f msg \<Rightarrow> 'f Param \<Rightarrow> ('f :: {zero, one, uminus}) heap \<Rightarrow> ('f msg \<times> 'f Param \<times> 'f heap) res" where
  "HandlePutMsg m p h =
     bindR (ParseFormatFrame ''iffp'' m) (\<lambda>fs.
       case fs of
         [FI sz, FF lr, FF wc, FP q] \<Rightarrow>
           (let p1 = p\<lparr>pproto := (pproto p)\<lparr>learning_rate_multiplier := lr, weight_decay_multiplier := wc\<rparr>\<rparr> in
            bindR (Param_Setup ParamProto_default [sz] p1 h) (\<lambda>(p2, h1).
            bindR (data_blob p2) (\<lambda>b.
              if q = Null then
                bindR (NextFrame m) (\<lambda>(more, m1).
                checkR more CheckFailed
                (bindR (FrameSize m1) (\<lambda>fsz.
                 checkR (4 * sz = fsz) CheckFailed
                 (bindR (FrameFloats m1) (\<lambda>xs.
                  bindR (blob_write b (take (nat sz) xs) h1) (\<lambda>h2.
                    Inr (m1, p2, h2)))))))
              else bindR (set_cpu_data b q h1) (\<lambda>h2. Inr (m, p2, h2)))))
       | _ \<Rightarrow> Inl Undefined)"

definition HandleGetMsg ::
  "'f msg \<Rightarrow> 'f Param \<Rightarrow> ('f :: zero) heap \<Rightarrow> ('f msg \<times> 'f heap) res" where
  "HandleGetMsg m p h =
     bindR (ParseFormatFrame ''ip'' m) (\<lambda>fs.
       case fs of
         [FI copy, FP q] \<Rightarrow>
           bindR (data_blob p) (\<lambda>b.
           bindR
             (if copy \<noteq> 0 then
                bindR (mutable_cpu_data b h) (\<lambda>(d, h1).
                bindR (mem_read d (nat (bcount (blobs h1 b))) h1) (\<lambda>xs.
                  Inr (AddFrame (Floats xs) m, h1)))
              else
                bindR (cpu_data b h) (\<lambda>(d, h1).
                  if q \<noteq> d then
                    bindR (mem_read d (nat (bcount (blobs h1 b))) h1) (\<lambda>xs.
                    bindR (mem_write q xs h1) (\<lambda>h2.
                    bindR (set_cpu_data b q h2) (\<lambda>h3. Inr (m, h3))))
                  else Inr (m, h1)))
             (\<lambda>(m1, h1). Inr ((SwapAddr m1)\<lparr>msg_type := kRGet\<rparr>, h1)))
       | _ \<Rightarrow> Inl Undefined)"

text \<open>
  \<open>memcpy\<close> of \<open>n\<close> bytes between arrays of floats: whole floats, and the first bytes of the one in
  which the range ends.
\<close>

definition memcpy_bytes :: "('f, ptr) repr \<Rightarrow> nat \<Rightarrow> ptr \<Rightarrow> ptr \<Rightarrow> 'f heap \<Rightarrow> 'f heap res" where
  "memcpy_bytes R n dst src h =
     (let full = n div 4; part = n mod 4; len = (if part = 0 then full else full + 1) in
      bindR (mem_read src len h) (\<lambda>xs.
      bindR (mem_read dst len h) (\<lambda>ys.
        mem_write dst
          (take full xs @
           (if part = 0 then []
            else [fdec R (take part (fenc R (xs ! full)) @ drop part (fenc R (ys ! full)))])) h)))"

definition parse_copy :: "'f msg \<Rightarrow> int res" where
  "parse_copy m =
     bindR (ParseFormatFrame ''i'' m) (\<lambda>fs. case fs of [FI copy] \<Rightarrow> Inr copy | _ \<Rightarrow> Inl Undefined)"

text \<open>
  One round of the second loop of \<open>ParseUpdateMsgs\<close>, on the message, its \<open>copy\<close> flag, \<open>reset\<close>
  and the heap. In the shared case \<open>FrameSize\<close> is the size of the frame that holds the pointer.
\<close>

definition parse_update ::
  "('f, ptr) repr \<Rightarrow> 'f Param \<Rightarrow> nat \<Rightarrow> 'f msg \<Rightarrow> int \<Rightarrow> bool \<Rightarrow> ('f :: {zero, plus}) heap \<Rightarrow>
   ('f msg \<times> bool \<times> 'f heap) res" where
  "parse_update R p sz m copy reset h =
     bindR (NextFrame m) (\<lambda>(more, m1).
     checkR more CheckFailed
     (if copy \<noteq> 0 then
        bindR (mutable_cpu_data (pgrad p) h) (\<lambda>(sg, h1).
        bindR (FrameFloats m1) (\<lambda>wg.
        checkR (sz \<le> length wg) Undefined
        (if reset then bindR (mem_write sg (take sz wg) h1) (\<lambda>h2. Inr (m1, False, h2))
         else
           bindR (mem_read sg sz h1) (\<lambda>xs.
           bindR (mem_write sg (map2 (+) xs (take sz wg)) h1) (\<lambda>h2. Inr (m1, reset, h2))))))
      else
        bindR (ParseFormatFrame ''p'' m1) (\<lambda>fs.
          case fs of
            [FP q] \<Rightarrow>
              bindR (cpu_data (pgrad p) h) (\<lambda>(sg, h1).
                if sg \<noteq> q then
                  bindR (FrameSize m1) (\<lambda>fsz.
                  bindR (memcpy_bytes R (nat fsz) q sg h1) (\<lambda>h2.
                  bindR (set_cpu_data (pgrad p) q h2) (\<lambda>h3. Inr (m1, reset, h3))))
                else Inr (m1, reset, h1))
          | _ \<Rightarrow> Inl Undefined)))"

fun parse_updates ::
  "('f, ptr) repr \<Rightarrow> 'f Param \<Rightarrow> nat \<Rightarrow> 'f msg list \<Rightarrow> int list \<Rightarrow> bool \<Rightarrow> ('f :: {zero, plus}) heap \<Rightarrow>
   ('f msg list \<times> 'f heap) res" where
  "parse_updates R p sz (m # ms) (c # cs) reset h =
     bindR (parse_update R p sz m c reset h) (\<lambda>(m1, reset1, h1).
     bindR (parse_updates R p sz ms cs reset1 h1) (\<lambda>(ms1, h2). Inr (m1 # ms1, h2)))"
| "parse_updates R p sz [] cs reset h = Inr ([], h)"
| "parse_updates R p sz (m # ms) [] reset h = Inl OutOfRange"

fun mapR :: "('a \<Rightarrow> 'b res) \<Rightarrow> 'a list \<Rightarrow> 'b list res" where
  "mapR f [] = Inr []"
| "mapR f (x # xs) = bindR (f x) (\<lambda>y. bindR (mapR f xs) (\<lambda>ys. Inr (y # ys)))"

definition ParseUpdateMsgs ::
  "('f, ptr) repr \<Rightarrow> (int \<Rightarrow> 'f) \<Rightarrow> 'f msg list \<Rightarrow> 'f Param \<Rightarrow> ('f :: {zero, plus, divide}) heap \<Rightarrow>
   ('f msg list \<times> 'f heap) res" where
  "ParseUpdateMsgs R i2f msgs p h =
     bindR (mapR parse_copy msgs) (\<lambda>copies.
     bindR (param_size p h) (\<lambda>sz.
     bindR (parse_updates R p (nat sz) msgs copies (list_all (\<lambda>c. c \<noteq> 0) copies) h) (\<lambda>(ms, h1).
       if 1 < length msgs then
         bindR (mutable_cpu_data (pgrad p) h1) (\<lambda>(sg, h2).
         bindR (mem_read sg (nat sz) h2) (\<lambda>xs.
         bindR (mem_write sg (map (\<lambda>x. x div i2f (int (length msgs))) xs) h2) (\<lambda>h3. Inr (ms, h3))))
       else Inr (ms, h1))))"

definition gen_update_response :: "'f Param \<Rightarrow> 'f msg \<Rightarrow> ('f :: zero) heap \<Rightarrow> ('f msg \<times> 'f heap) res" where
  "gen_update_response p m h =
     (let m1 = (SwapAddr (FirstFrame m))\<lparr>msg_type := kRUpdate\<rparr> in
      bindR (parse_copy m1) (\<lambda>copy.
        if copy \<noteq> 0 then
          bindR (NextFrame m1) (\<lambda>(_, m2).
          bindR (FrameSize m2) (\<lambda>fsz.
          bindR (data_blob p) (\<lambda>b.
          checkR (fsz = 4 * bcount (blobs h b)) CheckFailed
          (bindR (mutable_cpu_data b h) (\<lambda>(d, h1).
           bindR (mem_read d (nat (bcount (blobs h1 b))) h1) (\<lambda>xs.
           bindR (SetFrameFloats xs m2) (\<lambda>m3. Inr (m3, h1))))))))
        else Inr (m1, h)))"

fun GenUpdateResponseMsgs ::
  "'f Param \<Rightarrow> 'f msg list \<Rightarrow> ('f :: zero) heap \<Rightarrow> ('f msg list \<times> 'f heap) res" where
  "GenUpdateResponseMsgs p [] h = Inr ([], h)"
| "GenUpdateResponseMsgs p (m # ms) h =
     bindR (gen_update_response p m h) (\<lambda>(m1, h1).
     bindR (GenUpdateResponseMsgs p ms h1) (\<lambda>(ms1, h2). Inr (m1 # ms1, h2)))"

text \<open>\<open>HandleSyncMsg\<close> drops the message and answers nothing; \<open>ParseSyncResponseMsg\<close> returns 1.\<close>

definition HandleSyncMsg :: "'f msg \<Rightarrow> 'f msg option" where
  "HandleSyncMsg m = None"

definition ParseSyncResponseMsg :: "'f msg \<Rightarrow> int \<Rightarrow> int" where
  "ParseSyncResponseMsg m slice_idx = 1"

section \<open>Responses at the worker\<close>

definition ParseResponseMsg :: "'f msg \<Rightarrow> int \<Rightarrow> 'f Param \<Rightarrow> ('f :: zero) heap \<Rightarrow> 'f heap res" where
  "ParseResponseMsg m slice_idx p h =
     bindR (parse_copy m) (\<lambda>copy.
     bindR (NextFrame m) (\<lambda>(_, m1).
       if copy \<noteq> 0 then
         bindR (FrameSize m1) (\<lambda>fsz.
         bindR (idxR (slice_size p) slice_idx) (\<lambda>sz.
         checkR (fsz = 4 * sz) CheckFailed
         (bindR (idxR (slice_offset p) slice_idx) (\<lambda>off.
          bindR (data_blob p) (\<lambda>b.
          bindR (slice_ptr b off h) (\<lambda>(q, h1).
          bindR (FrameFloats m1) (\<lambda>xs. mem_write q xs h1)))))))
       else Inr h))"

definition settle :: "'f Param \<Rightarrow> (int \<times> 'f Param) res" where
  "settle p =
     (let n = num_pending_requests p - 1 in
      checkR (num_slices p \<noteq> 0) Undefined
        (Inr (if n smod num_slices p = 0 then 1 else 0, p\<lparr>num_pending_requests := n\<rparr>)))"

definition ParseGetResponseMsg ::
  "'f msg \<Rightarrow> int \<Rightarrow> 'f Param \<Rightarrow> ('f :: zero) heap \<Rightarrow> (int \<times> 'f Param \<times> 'f heap) res" where
  "ParseGetResponseMsg m slice_idx p h =
     bindR (idxR (pending_get p) slice_idx) (\<lambda>pend.
     checkR pend CheckFailed
     (let p1 = p\<lparr>pending_get := (pending_get p)[nat slice_idx := False]\<rparr> in
      bindR (ParseResponseMsg m slice_idx p1 h) (\<lambda>h1.
      bindR (settle p1) (\<lambda>(r, p2). Inr (r, p2, h1)))))"

definition ParseUpdateResponseMsg ::
  "'f msg \<Rightarrow> int \<Rightarrow> 'f Param \<Rightarrow> ('f :: zero) heap \<Rightarrow> (int \<times> 'f Param \<times> 'f heap) res" where
  "ParseUpdateResponseMsg m slice_idx p h =
     bindR (idxR (pending_update p) slice_idx) (\<lambda>pend.
     checkR pend CheckFailed
     (let p1 = p\<lparr>pending_update := (pending_update p)[nat slice_idx := False]\<rparr> in
      bindR (ParseResponseMsg m slice_idx p1 h) (\<lambda>h1.
      bindR (settle p1) (\<lambda>(r, p2). Inr (r, p2, h1)))))"

section \<open>Sharing\<close>

definition ShareFrom :: "'f Param \<Rightarrow> 'f Param \<Rightarrow> 'f heap \<Rightarrow> 'f Param res" where
  "ShareFrom other p h =
     bindR
       (case pdata p of
          None \<Rightarrow> Inr ()
        | Some b \<Rightarrow>
            bindR (data_blob other) (\<lambda>ob.
            bindR (std_equal (shape (blobs h b)) (shape (blobs h ob))) (\<lambda>eq.
              checkR eq CheckFailed (Inr ()))))
       (\<lambda>_. Inr (p\<lparr>pproto := (pproto p)\<lparr>pp_owner := pp_owner (pproto other)\<rparr>,
          pdata := pdata other, slice_offset := slice_offset other, slice_size := slice_size other,
          slice_start := slice_start other, num_slices := num_slices other,
          pending_get := pending_get other, pending_put := pending_put other,
          pending_update := pending_update other\<rparr>))"

text \<open>
  \<open>ParamEntry\<close>: the parameters that share one value in a worker group; \<open>shares\<close> holds their
  addresses. The second constructor leaves \<open>next_version\<close> and \<open>num_local\<close> unset.
\<close>

record ParamEntry =
  num_update :: int
  next_version :: int
  num_local :: int
  num_total :: int
  shares :: "nat list"

definition ParamEntry_new :: ParamEntry where
  "ParamEntry_new = \<lparr>num_update = 0, next_version = - 1, num_local = 0, num_total = 0, shares = []\<rparr>"

definition AddParam :: "bool \<Rightarrow> nat \<Rightarrow> ParamEntry \<Rightarrow> ParamEntry" where
  "AddParam local a e =
     e\<lparr>num_local := num_local e + (if local then 1 else 0), num_total := num_total e + 1,
       shares := (if local then shares e @ [a] else shares e)\<rparr>"

section \<open>Targets: round trip\<close>

lemma and_mask_16: "x AND (push_bit 16 1 - 1) = (x :: int) mod 65536"
  using take_bit_eq_mask [of 16 x] by (simp add: take_bit_eq_mod mask_eq_exp_minus_1 push_bit_eq_mult)

lemma ParamTrgt_eq:
  assumes "- 32768 \<le> i" and "i < 32768" and "0 \<le> s" and "s < 65536"
  shows "ParamTrgt i s = i * 65536 + s"
proof -
  have "push_bit 16 i OR s = i * 65536 + s"
    using assms or_eq_add [of s 16 i] by (simp add: push_bit_eq_mult)
  moreover have "is_c_int (i * 65536 + s)" using assms by (simp add: is_c_int_def)
  ultimately show ?thesis by (simp add: ParamTrgt_def)
qed

lemma ParamTrgt_back:
  assumes "- 32768 \<le> i" and "i < 32768" and "0 \<le> s" and "s < 65536"
  shows "ParamID (ParamTrgt i s) = i" and "SliceID (ParamTrgt i s) = s"
  using assms by (simp_all add: ParamTrgt_eq ParamID_def SliceID_def and_mask_16 drop_bit_eq_div del: push_bit_of_1)

section \<open>Slices tile the parameter\<close>

definition wf_slices :: "'f Param \<Rightarrow> bool" where
  "wf_slices p \<longleftrightarrow> num_slices p = int (length (slice_size p)) \<and>
     length (slice_offset p) = length (slice_size p) \<and> length (pending_put p) = length (slice_size p) \<and>
     length (pending_get p) = length (slice_size p) \<and> length (pending_update p) = length (slice_size p) \<and>
     (\<forall>i < length (slice_size p). slice_offset p ! i = sum_list (take i (slice_size p))) \<and>
     (\<forall>x \<in> set (slice_size p). 0 \<le> x)"

lemma wf_slices_new: "wf_slices (fst (Param_new h))"
  by (simp add: wf_slices_def Param_new_def Blob_new_def)

lemma sum_list_take_last: "xs \<noteq> [] \<Longrightarrow> sum_list (take (length xs - 1) xs) + last xs = sum_list (xs :: int list)"
  by (induction xs rule: rev_induct) simp_all

lemma AddSlice_spec:
  assumes "wf_slices p" and "0 \<le> sz" and "slice_size p \<noteq> [] \<Longrightarrow> slice_id = slice_start p + num_slices p"
  shows "\<exists>p'. AddSlice slice_id sz p = Inr p' \<and> wf_slices p' \<and> slice_size p' = slice_size p @ [sz] \<and>
    slice_start p' = (if slice_size p = [] then slice_id else slice_start p) \<and>
    pdata p' = pdata p \<and> pgrad p' = pgrad p \<and> phistory p' = phistory p \<and> pproto p' = pproto p"
proof -
  let ?n = "length (slice_size p)"
  have off: "last (slice_offset p) + last (slice_size p) = sum_list (slice_size p)" if "slice_size p \<noteq> []"
  proof -
    have "slice_offset p \<noteq> []" using that assms(1) by (auto simp: wf_slices_def)
    then have "last (slice_offset p) = sum_list (take (?n - 1) (slice_size p))"
      using that assms(1) by (simp add: wf_slices_def last_conv_nth)
    then show ?thesis using sum_list_take_last [OF that] by simp
  qed
  have "AddSlice slice_id sz p = Inr (p\<lparr>slice_start := (if slice_size p = [] then slice_id else slice_start p),
      slice_offset := slice_offset p @ [sum_list (slice_size p)], slice_size := slice_size p @ [sz],
      pending_get := pending_get p @ [False], pending_update := pending_update p @ [False],
      pending_put := pending_put p @ [False], num_slices := num_slices p + 1\<rparr>)"
    using assms(1,3) off by (auto simp: AddSlice_def wf_slices_def)
  then show ?thesis
    using assms(1,2) by (auto simp: wf_slices_def nth_append less_Suc_eq)
qed

text \<open>Adding consecutive slices to a parameter, as \<open>SliceParams\<close> of the stub does.\<close>

fun add_slices :: "int \<Rightarrow> int list \<Rightarrow> 'f Param \<Rightarrow> 'f Param res" where
  "add_slices slice_id [] p = Inr p"
| "add_slices slice_id (sz # szs) p =
     bindR (AddSlice slice_id sz p) (\<lambda>p1. add_slices (slice_id + 1) szs p1)"

lemma add_slices_spec:
  assumes "wf_slices p" and "\<forall>x \<in> set szs. 0 \<le> x" and "slice_size p \<noteq> [] \<Longrightarrow> slice_id = slice_start p + num_slices p"
  shows "\<exists>p'. add_slices slice_id szs p = Inr p' \<and> wf_slices p' \<and> slice_size p' = slice_size p @ szs \<and>
    slice_start p' = (if slice_size p = [] \<and> szs \<noteq> [] then slice_id else slice_start p) \<and>
    pdata p' = pdata p \<and> pgrad p' = pgrad p \<and> phistory p' = phistory p \<and> pproto p' = pproto p"
  using assms
proof (induction szs arbitrary: p slice_id)
  case (Cons sz szs)
  obtain p1 where p1: "AddSlice slice_id sz p = Inr p1" "wf_slices p1" "slice_size p1 = slice_size p @ [sz]"
    "slice_start p1 = (if slice_size p = [] then slice_id else slice_start p)" "pdata p1 = pdata p" "pgrad p1 = pgrad p" "phistory p1 = phistory p"
    "pproto p1 = pproto p"
    using AddSlice_spec [of p sz slice_id] Cons.prems by auto
  have "slice_id + 1 = slice_start p1 + num_slices p1"
    using p1 Cons.prems(1,3) by (auto simp: wf_slices_def)
  then obtain p2 where "add_slices (slice_id + 1) szs p1 = Inr p2" "wf_slices p2"
    "slice_size p2 = slice_size p1 @ szs" "slice_start p2 = slice_start p1" "pdata p2 = pdata p1" "pgrad p2 = pgrad p1"
    "phistory p2 = phistory p1" "pproto p2 = pproto p1"
    using Cons.IH [OF p1(2), of "slice_id + 1"] Cons.prems(2) p1(3) by auto
  then show ?case using p1 by simp
qed simp

lemma segments_tile:
  assumes "\<forall>i < length szs. offs ! i = int (sum_list (take i szs))" and "length offs = length szs"
  shows "concat (map (\<lambda>i. segment (nat (offs ! i)) (szs ! i) xs) [0..<length szs]) = take (sum_list szs) xs"
proof -
  have "concat (map (\<lambda>i. segment (sum_list (take i szs)) (szs ! i) xs) [0..<n]) = take (sum_list (take n szs)) xs"
    if "n \<le> length szs" for n
    using that
  proof (induction n)
    case (Suc n)
    then have "sum_list (take (Suc n) szs) = sum_list (take n szs) + szs ! n"
      by (simp add: take_Suc_conv_app_nth)
    then show ?case using Suc by (simp add: segment_def take_add)
  qed simp
  from this [of "length szs"] have "concat (map (\<lambda>i. segment (sum_list (take i szs)) (szs ! i) xs)
      [0..<length szs]) = take (sum_list szs) xs" by simp
  moreover have "map (\<lambda>i. segment (nat (offs ! i)) (szs ! i) xs) [0..<length szs] =
      map (\<lambda>i. segment (sum_list (take i szs)) (szs ! i) xs) [0..<length szs]"
    using assms(1) by (intro map_cong) simp_all
  ultimately show ?thesis by (simp only:)
qed

section \<open>Put and get\<close>

text \<open>A parameter of \<open>n\<close> floats whose blobs are allocated in the heap.\<close>

definition param_in :: "'f Param \<Rightarrow> 'f heap \<Rightarrow> nat \<Rightarrow> bool" where
  "param_in p h n \<longleftrightarrow> wf_heap h \<and> (\<exists>b. pdata p = Some b \<and> b < nblob h \<and>
     bdata (blobs h b) \<noteq> None \<and> bcount (blobs h b) = int n) \<and>
     pgrad p < nblob h \<and> bdata (blobs h (pgrad p)) \<noteq> None \<and> bcount (blobs h (pgrad p)) = int n \<and>
     phistory p < nblob h"

definition data_of :: "'f Param \<Rightarrow> ('f :: zero) heap \<Rightarrow> 'f list" where
  "data_of p h = contents h (the (pdata p))"

definition grad_of :: "'f Param \<Rightarrow> ('f :: zero) heap \<Rightarrow> 'f list" where
  "grad_of p h = contents h (pgrad p)"

lemma param_inD:
  assumes "param_in p h n"
  shows "wf_heap h" and "pdata p = Some (the (pdata p))" and "the (pdata p) < nblob h"
    and "bdata (blobs h (the (pdata p))) \<noteq> None" and "bcount (blobs h (the (pdata p))) = int n"
    and "pgrad p < nblob h" and "bdata (blobs h (pgrad p)) \<noteq> None" and "bcount (blobs h (pgrad p)) = int n"
    and "data_blob p = Inr (the (pdata p))" and "length (data_of p h) = n" and "length (grad_of p h) = n"
  using assms length_contents [of h "the (pdata p)"] length_contents [of h "pgrad p"]
  by (auto simp: param_in_def data_blob_def data_of_def grad_of_def)

lemma shape_count_single: "0 < n \<Longrightarrow> is_c_int n \<Longrightarrow> shape_count [n] = Inr n"
  by (simp add: shape_count_def)

lemma Param_Setup_spec:
  fixes h :: "('f :: zero) heap"
  assumes "wf_heap h" and "pgrad p < nblob h" and "phistory p < nblob h"
    and "0 < sz" and "is_c_int sz" and "pgrad p \<noteq> phistory p"
  shows "\<exists>p1 h1. Param_Setup proto [sz] p h = Inr (p1, h1) \<and> param_in p1 h1 (nat sz) \<and>
    p1 = p\<lparr>pdata := Some (nblob h), pproto := proto\<rparr>"
proof -
  note cnt = shape_count_single [OF assms(4,5)]
  let ?g = "snd (Blob_new h)"
  have g: "fst (Blob_new h) = nblob h" "wf_heap ?g" "nblob ?g = nblob h + 1"
    using Blob_new_spec [OF assms(1)] by (simp_all add: Blob_new_def)
  from Reshape_spec [OF g(2) _ cnt, of "nblob h"] assms(4) g(3) obtain h1 where h1:
    "Reshape (nblob h) [sz] ?g = Inr h1" "wf_heap h1" "nblob h1 = nblob h + 1"
    "bcount (blobs h1 (nblob h)) = sz" "bdata (blobs h1 (nblob h)) \<noteq> None"
    by auto
  from Reshape_spec [OF h1(2) _ cnt, of "pgrad p"] assms(2,4) h1(3) obtain h2 where h2:
    "Reshape (pgrad p) [sz] h1 = Inr h2" "wf_heap h2" "nblob h2 = nblob h + 1"
    "bcount (blobs h2 (pgrad p)) = sz" "bdata (blobs h2 (pgrad p)) \<noteq> None"
    "blobs h2 (nblob h) = blobs h1 (nblob h)"
    by auto
  from Reshape_spec [OF h2(2) _ cnt, of "phistory p"] assms(2,3,6) h2(3) obtain h3 where h3:
    "Reshape (phistory p) [sz] h2 = Inr h3" "wf_heap h3" "nblob h3 = nblob h + 1"
    "blobs h3 (nblob h) = blobs h2 (nblob h)" "blobs h3 (pgrad p) = blobs h2 (pgrad p)"
    by auto
  have "Param_Setup proto [sz] p h = Inr (p\<lparr>pdata := Some (nblob h), pproto := proto\<rparr>, h3)"
    using h1(1) h2(1) h3(1) g(1) by (simp add: Param_Setup_def Blob_new_shape_def case_prod_beta)
  moreover have "param_in (p\<lparr>pdata := Some (nblob h), pproto := proto\<rparr>) h3 (nat sz)"
    using h1 h2 h3 assms by (auto simp: param_in_def)
  ultimately show ?thesis by blast
qed

text \<open>Frames and cursor of a message under way.\<close>

lemma NextFrame_at:
  "zcur m = Some i \<Longrightarrow> Suc i < length (frames m) \<Longrightarrow> NextFrame m = Inr (True, frame_at (Suc i) m)"
  by (simp add: NextFrame_def frame_at_def Let_def)

lemma cur_frame_at: "i < length (frames m) \<Longrightarrow> cur_frame (frame_at i m) = Inr (frames m ! i)"
  by (simp add: cur_frame_def frame_at_def Let_def)

lemma frame_at_simps [simp]:
  "frames (frame_at i m) = frames m" "msg_src (frame_at i m) = msg_src m" "msg_dst (frame_at i m) = msg_dst m"
  "msg_type (frame_at i m) = msg_type m" "trgt_val (frame_at i m) = trgt_val m"
  "trgt_version (frame_at i m) = trgt_version m"
  by (simp_all add: frame_at_def Let_def)

lemma zcur_frame_at: "i < length (frames m) \<Longrightarrow> zcur (frame_at i m) = Some i"
  by (simp add: frame_at_def Let_def)

definition slice_of :: "'f Param \<Rightarrow> int \<Rightarrow> 'f list \<Rightarrow> 'f list" where
  "slice_of p idx xs = segment (nat (slice_offset p ! nat idx)) (nat (slice_size p ! nat idx)) xs"

lemma slice_bounds:
  assumes "wf_slices p" and "0 \<le> idx" and "idx < num_slices p" and "sum_list (slice_size p) \<le> int n"
  shows "idxR (slice_offset p) idx = Inr (slice_offset p ! nat idx)"
    and "idxR (slice_size p) idx = Inr (slice_size p ! nat idx)"
    and "nat (slice_offset p ! nat idx) + nat (slice_size p ! nat idx) \<le> n"
    and "0 \<le> slice_size p ! nat idx" and "0 \<le> slice_offset p ! nat idx"
proof -
  let ?i = "nat idx"
  have i: "?i < length (slice_size p)" "int ?i = idx" using assms(1-3) by (auto simp: wf_slices_def)
  then show "idxR (slice_offset p) idx = Inr (slice_offset p ! ?i)"
    and "idxR (slice_size p) idx = Inr (slice_size p ! ?i)"
    using assms(1,2) by (simp_all add: idxR_def wf_slices_def)
  have pos: "\<forall>x \<in> set (slice_size p). 0 \<le> x" using assms(1) by (simp add: wf_slices_def)
  then have nn: "0 \<le> sum_list (take k (slice_size p))" "0 \<le> sum_list (drop k (slice_size p))" for k
    by (auto intro!: sum_list_nonneg dest: in_set_takeD in_set_dropD)
  have off: "slice_offset p ! ?i = sum_list (take ?i (slice_size p))" using assms(1) i by (simp add: wf_slices_def)
  show "0 \<le> slice_size p ! ?i" using pos i by simp
  show "0 \<le> slice_offset p ! ?i" using nn off by simp
  have "sum_list (take (Suc ?i) (slice_size p)) + sum_list (drop (Suc ?i) (slice_size p)) = sum_list (slice_size p)"
    by (metis append_take_drop_id sum_list_append)
  then have "slice_offset p ! ?i + slice_size p ! ?i \<le> int n"
    using nn(2) [of "Suc ?i"] assms(4) off i by (simp add: take_Suc_conv_app_nth)
  then show "nat (slice_offset p ! ?i) + nat (slice_size p ! ?i) \<le> n"
    using \<open>0 \<le> slice_size p ! ?i\<close> \<open>0 \<le> slice_offset p ! ?i\<close> by linarith
qed

text \<open>What a put request by value carries.\<close>

lemma GenPutMsg_copy:
  assumes "param_in p h n" and "wf_slices p" and "0 \<le> idx" and "idx < num_slices p"
    and "sum_list (slice_size p) \<le> int n"
  shows "\<exists>m h1. GenPutMsg True idx p h = Inr (m, h1) \<and> msg_type m = kPut \<and>
    frames m = [Fmt [FI (slice_size p ! nat idx), FF (learning_rate_multiplier (pproto p)),
      FF (weight_decay_multiplier (pproto p)), FP Null], Floats (slice_of p idx (data_of p h))]"
proof -
  note p = param_inD [OF assms(1)] and sl = slice_bounds [OF assms(2-5)]
  obtain q h1 where q: "mutable_cpu_data (the (pdata p)) h = Inr (q, h1)" "reads_blob q (the (pdata p)) h h1"
    using cpu_data_spec(2) [OF p(1,3,4)] by blast
  have rd: "mem_read (ptr_add q (nat (slice_offset p ! nat idx))) (nat (slice_size p ! nat idx)) h1 =
      Inr (slice_of p idx (data_of p h))"
    using q(2) sl(3) p(5) by (simp add: reads_blob_def slice_of_def data_of_def)
  show ?thesis
    using assms(4) p(9) sl(1,2) q(1) rd
    by (simp add: GenPutMsg_def slice_ptr_def add_fmt_def AddFormatFrame_def AddFrame_def Msg_new_def
        FMARKER_def kMaxFrameLen_def)
qed

lemma HandlePutMsg_copy:
  fixes q :: "('f :: {zero, one, uminus}) Param"
  assumes "wf_heap h" and "pgrad q < nblob h" and "phistory q < nblob h" and "pgrad q \<noteq> phistory q"
    and "frames m = Fmt [FI sz, FF lr, FF wc, FP Null] # Floats xs # rest" and "0 < sz" and "is_c_int sz"
    and "length xs = nat sz"
  shows "\<exists>m1 q1 h1. HandlePutMsg (FirstFrame m) q h = Inr (m1, q1, h1) \<and> param_in q1 h1 (nat sz) \<and>
    data_of q1 h1 = xs \<and> pproto q1 = ParamProto_default \<and> m1 = frame_at 1 m"
proof -
  let ?m = "frame_at 0 m" and ?m1 = "frame_at 1 m"
  have m: "ParseFormatFrame ''iffp'' ?m = Inr [FI sz, FF lr, FF wc, FP Null]"
    using assms(5) by (simp add: ParseFormatFrame_def cur_frame_at parse_frame_def)
  have nx: "NextFrame ?m = Inr (True, ?m1)"
    using assms(5) NextFrame_at [of ?m 0] by (simp add: zcur_frame_at frame_at_def Let_def)
  have fr: "cur_frame ?m1 = Inr (Floats xs)" using assms(5) cur_frame_at [of 1 m] by simp
  let ?p = "q\<lparr>pproto := (pproto q)\<lparr>learning_rate_multiplier := lr, weight_decay_multiplier := wc\<rparr>\<rparr>"
  obtain q1 g where g: "Param_Setup ParamProto_default [sz] ?p h = Inr (q1, g)" "param_in q1 g (nat sz)"
    "q1 = ?p\<lparr>pdata := Some (nblob h), pproto := ParamProto_default\<rparr>"
    using Param_Setup_spec [of h ?p sz ParamProto_default] assms(1-4,6,7) by auto
  note d = param_inD [OF g(2)]
  obtain h1 where h1: "blob_write (the (pdata q1)) xs g = Inr h1" "wf_heap h1" "blobs h1 = blobs g"
    "nblob h1 = nblob g" "contents h1 (the (pdata q1)) = xs"
    using blob_write_spec [OF d(1,3,4), of xs] d(5) assms(6,8) by auto
  have "HandlePutMsg (FirstFrame m) q h = Inr (?m1, q1, h1)"
    using m nx fr g(1) d(9) h1(1) assms(6,8)
    by (simp add: HandlePutMsg_def FirstFrame_def FrameSize_def FrameFloats_def Let_def)
  moreover have "param_in q1 h1 (nat sz)" using g(2) h1 by (simp add: param_in_def)
  ultimately show ?thesis using h1(5) g(3) by (simp add: data_of_def)
qed

text \<open>A get request by value, its answer, and the worker that reads the answer.\<close>

lemma GenGetMsg_copy:
  assumes "param_in p h n" and "wf_slices p" and "0 \<le> idx" and "idx < num_slices p"
    and "sum_list (slice_size p) \<le> int n"
  shows "\<exists>m q h1. GenGetMsg True idx p h = Inr (m, p\<lparr>pending_get := (pending_get p)[nat idx := True],
      num_pending_requests := num_pending_requests p + 1\<rparr>, h1) \<and> msg_type m = kGet \<and>
    frames m = [Fmt [FI 1, FP q]] \<and> reads_blob (fst (projr (cpu_data (the (pdata p)) h))) (the (pdata p)) h h1"
proof -
  note p = param_inD [OF assms(1)] and sl = slice_bounds [OF assms(2-5)]
  obtain q h1 where q: "cpu_data (the (pdata p)) h = Inr (q, h1)" "reads_blob q (the (pdata p)) h h1"
    using cpu_data_spec(1) [OF p(1,3,4)] by blast
  have "idxR (pending_get p) idx = Inr (pending_get p ! nat idx)"
    using assms(2-4) by (simp add: idxR_def wf_slices_def)
  then show ?thesis
    using assms(4) p(9) sl(1,2) q
    by (auto simp: GenGetMsg_def add_fmt_def AddFormatFrame_def AddFrame_def Msg_new_def
        FMARKER_def kMaxFrameLen_def)
qed

lemma HandleGetMsg_copy:
  assumes "param_in q g n" and "frames m = [Fmt [FI 1, FP ptr]]"
  shows "\<exists>m1 g1. HandleGetMsg (FirstFrame m) q g = Inr (m1, g1) \<and>
    frames m1 = [Fmt [FI 1, FP ptr], Floats (data_of q g)] \<and> msg_type m1 = kRGet \<and>
    msg_src m1 = msg_dst m \<and> msg_dst m1 = msg_src m \<and> param_in q g1 n \<and> data_of q g1 = data_of q g \<and>
    blobs g1 = blobs g"
proof -
  note p = param_inD [OF assms(1)]
  have m: "ParseFormatFrame ''ip'' (frame_at 0 m) = Inr [FI 1, FP ptr]"
    using assms(2) by (simp add: ParseFormatFrame_def cur_frame_at parse_frame_def)
  obtain d g1 where d: "mutable_cpu_data (the (pdata q)) g = Inr (d, g1)" "reads_blob d (the (pdata q)) g g1"
    using cpu_data_spec(2) [OF p(1,3,4)] by blast
  have rd: "mem_read d (nat (bcount (blobs g1 (the (pdata q))))) g1 = Inr (data_of q g)"
  proof -
    have "mem_read (ptr_add d 0) n g1 = Inr (segment 0 n (contents g (the (pdata q))))"
      using d(2) p(5) unfolding reads_blob_def by (metis add_0 le_refl nat_int)
    then show ?thesis using d(2) p(5,10) by (simp add: reads_blob_def data_of_def segment_def)
  qed
  have "param_in q g1 n" "data_of q g1 = data_of q g" "blobs g1 = blobs g"
    using assms(1) d(2) p(3) by (auto simp: param_in_def reads_blob_def data_of_def)
  then show ?thesis
    using m p(9) d(1) rd assms(2)
    by (simp add: HandleGetMsg_def FirstFrame_def SwapAddr_def AddFrame_def)
qed

lemma ParseResponseMsg_copy:
  assumes "param_in p h n" and "wf_slices p" and "0 \<le> idx" and "idx < num_slices p"
    and "sum_list (slice_size p) \<le> int n"
    and "frames m = Fmt (FI 1 # fs) # Floats xs # rest" and "int (length xs) = slice_size p ! nat idx"
  shows "\<exists>h1. ParseResponseMsg (FirstFrame m) idx p h = Inr h1 \<and> param_in p h1 n \<and>
    data_of p h1 = blit (nat (slice_offset p ! nat idx)) xs (data_of p h)"
proof -
  note p = param_inD [OF assms(1)] and sl = slice_bounds [OF assms(2-5)]
  let ?off = "nat (slice_offset p ! nat idx)"
  have c: "parse_copy (frame_at 0 m) = Inr 1"
    using assms(6) by (simp add: parse_copy_def ParseFormatFrame_def cur_frame_at parse_frame_def)
  have nx: "NextFrame (frame_at 0 m) = Inr (True, frame_at 1 m)"
    using assms(6) NextFrame_at [of "frame_at 0 m" 0] by (simp add: zcur_frame_at frame_at_def Let_def)
  have fr: "cur_frame (frame_at 1 m) = Inr (Floats xs)" using assms(6) cur_frame_at [of 1 m] by simp
  have "?off + length xs \<le> nat (bcount (blobs h (the (pdata p))))"
    using sl(3) p(5) assms(7) by simp
  from slice_write_spec [OF p(1,3,4) this] obtain h1 where h1:
    "slice_write (the (pdata p)) ?off xs h = Inr h1" "wf_heap h1" "blobs h1 = blobs h" "nblob h1 = nblob h"
    "contents h1 (the (pdata p)) = blit ?off xs (contents h (the (pdata p)))"
    by blast
  obtain q g where q: "mutable_cpu_data (the (pdata p)) h = Inr (q, g)"
    using cpu_data_spec(2) [OF p(1,3,4)] by blast
  have "ParseResponseMsg (FirstFrame m) idx p h = Inr h1"
    using c nx fr sl(1,2) p(9) q h1(1) assms(7)
    by (simp add: ParseResponseMsg_def FirstFrame_def FrameSize_def FrameFloats_def slice_ptr_def slice_write_def)
  then show ?thesis using h1 assms(1) by (auto simp: param_in_def data_of_def)
qed

section \<open>Updates\<close>

text \<open>An update request by value: the flag, the gradient, and what the stub appended.\<close>

definition upd_msg :: "'f msg \<Rightarrow> 'f list \<Rightarrow> bool" where
  "upd_msg m g \<longleftrightarrow> (\<exists>rest. frames m = Fmt [FI 1] # Floats g # rest)"

lemma GenUpdateMsg_copy:
  assumes "param_in p h n" and "wf_slices p" and "0 \<le> idx" and "idx < num_slices p"
    and "sum_list (slice_size p) \<le> int n"
  shows "\<exists>m h1. GenUpdateMsg True idx p h = Inr (m, p\<lparr>pending_update := (pending_update p)[nat idx := True],
      num_pending_requests := num_pending_requests p + 1\<rparr>, h1) \<and> msg_type m = kUpdate \<and>
    frames m = [Fmt [FI 1], Floats (slice_of p idx (grad_of p h))] \<and> param_in p h1 n \<and>
    data_of p h1 = data_of p h \<and> grad_of p h1 = grad_of p h"
proof -
  note p = param_inD [OF assms(1)] and sl = slice_bounds [OF assms(2-5)]
  obtain q h1 where q: "mutable_cpu_data (pgrad p) h = Inr (q, h1)" "reads_blob q (pgrad p) h h1"
    using cpu_data_spec(2) [OF p(1,6,7)] by blast
  have rd: "mem_read (ptr_add q (nat (slice_offset p ! nat idx))) (nat (slice_size p ! nat idx)) h1 =
      Inr (slice_of p idx (grad_of p h))"
    using q(2) sl(3) p(8) by (simp add: reads_blob_def slice_of_def grad_of_def)
  have "idxR (pending_update p) idx = Inr (pending_update p ! nat idx)"
    using assms(2-4) by (simp add: idxR_def wf_slices_def)
  moreover have "param_in p h1 n" "data_of p h1 = data_of p h" "grad_of p h1 = grad_of p h"
    using assms(1) q(2) p(3,6) by (auto simp: param_in_def reads_blob_def data_of_def grad_of_def)
  ultimately show ?thesis
    using assms(4) sl(1,2) q(1) rd
    by (simp add: GenUpdateMsg_def slice_ptr_def add_fmt_def AddFormatFrame_def AddFrame_def Msg_new_def
        FMARKER_def kMaxFrameLen_def)
qed

definition data_apart :: "'f Param \<Rightarrow> 'f heap \<Rightarrow> bool" where
  "data_apart p h \<longleftrightarrow> separate h (pgrad p) (the (pdata p))"

lemma mutable_read_all:
  assumes "reads_blob q b h h1" and "bcount (blobs h b) = int n" and "length (contents h b) = n"
  shows "mem_read q n h1 = Inr (contents h b)"
proof -
  have "mem_read (ptr_add q 0) n h1 = Inr (segment 0 n (contents h b))"
    using assms(1,2) unfolding reads_blob_def by (metis add_0 le_refl nat_int)
  then show ?thesis using assms(3) by (simp add: segment_def)
qed

lemma parse_update_copy:
  fixes p :: "('f :: {zero, plus}) Param"
  assumes "param_in p h n" and "upd_msg m g" and "length g = n" and "data_apart p h" and "0 < n"
  shows "\<exists>h1. parse_update R p n (frame_at 0 m) 1 reset h = Inr (frame_at 1 m, False, h1) \<and>
    param_in p h1 n \<and> grad_of p h1 = (if reset then g else map2 (+) (grad_of p h) g) \<and>
    data_apart p h1 \<and> data_of p h1 = data_of p h"
proof -
  note p = param_inD [OF assms(1)]
  obtain rest where fr: "frames m = Fmt [FI 1] # Floats g # rest" using assms(2) by (auto simp: upd_msg_def)
  have nx: "NextFrame (frame_at 0 m) = Inr (True, frame_at 1 m)"
    using fr NextFrame_at [of "frame_at 0 m" 0] by (simp add: zcur_frame_at frame_at_def Let_def)
  have cf: "FrameFloats (frame_at 1 m) = Inr g"
    using fr cur_frame_at [of 1 m] by (simp add: FrameFloats_def)
  obtain q g1 where q: "mutable_cpu_data (pgrad p) h = Inr (q, g1)" "reads_blob q (pgrad p) h g1"
    using cpu_data_spec(2) [OF p(1,6,7)] by blast
  have rd: "mem_read q n g1 = Inr (grad_of p h)"
    using mutable_read_all [OF q(2) p(8)] p(11) by (simp add: grad_of_def)
  let ?xs = "if reset then g else map2 (+) (grad_of p h) g"
  have "length ?xs = nat (bcount (blobs h (pgrad p)))" using assms(3) p(8,11) by simp
  from blob_write_spec [OF p(1,6,7) this] obtain h1 where h1: "blob_write (pgrad p) ?xs h = Inr h1"
    "wf_heap h1" "blobs h1 = blobs h" "nblob h1 = nblob h" "contents h1 (pgrad p) = ?xs"
    "\<forall>c < nblob h. separate h (pgrad p) c \<longrightarrow> contents h1 c = contents h c"
    "\<forall>c < nblob h. separate h (pgrad p) c \<longrightarrow> 0 < bcount (blobs h c) \<longrightarrow> separate h1 (pgrad p) c"
    by blast
  have "mem_write q ?xs g1 = Inr h1" using h1(1) q(1) by (simp add: blob_write_def)
  then have "parse_update R p n (frame_at 0 m) 1 reset h = Inr (frame_at 1 m, False, h1)"
    using nx cf q(1) rd assms(3) by (cases reset) (simp_all add: parse_update_def)
  moreover have "param_in p h1 n" using assms(1) h1 by (auto simp: param_in_def)
  ultimately show ?thesis
    using h1(5-7) assms(4,5) p(3,5) by (auto simp: grad_of_def data_of_def data_apart_def)
qed

lemma parse_updates_copy:
  fixes p :: "('f :: {zero, plus}) Param"
  assumes "param_in p h n" and "list_all2 upd_msg ms gs" and "\<forall>g \<in> set gs. length g = n"
    and "data_apart p h" and "0 < n"
  shows "\<exists>h1. parse_updates R p n (map (frame_at 0) ms) (replicate (length ms) 1) False h =
      Inr (map (frame_at 1) ms, h1) \<and> param_in p h1 n \<and> grad_of p h1 = foldl (map2 (+)) (grad_of p h) gs \<and>
    data_apart p h1 \<and> data_of p h1 = data_of p h"
  using assms(2,1,3,4)
proof (induction arbitrary: h rule: list_all2_induct)
  case (Cons m ms g gs)
  obtain h1 where h1: "parse_update R p n (frame_at 0 m) 1 False h = Inr (frame_at 1 m, False, h1)"
    "param_in p h1 n" "grad_of p h1 = map2 (+) (grad_of p h) g" "data_apart p h1" "data_of p h1 = data_of p h"
    using parse_update_copy [OF Cons.prems(1) Cons.hyps(1) _ Cons.prems(3) assms(5), of R False] Cons.prems(2)
    by auto
  from Cons.IH [OF h1(2) _ h1(4)] Cons.prems(2) obtain h2 where
    "parse_updates R p n (map (frame_at 0) ms) (replicate (length ms) 1) False h1 = Inr (map (frame_at 1) ms, h2)"
    "param_in p h2 n" "grad_of p h2 = foldl (map2 (+)) (grad_of p h1) gs" "data_apart p h2"
    "data_of p h2 = data_of p h1"
    by auto
  then show ?case using h1 by simp
qed simp

lemma mapR_map: "(\<And>x. x \<in> set xs \<Longrightarrow> f x = Inr (g x)) \<Longrightarrow> mapR f xs = Inr (map g xs)"
  by (induction xs) simp_all

lemma parse_copy_upd: "upd_msg m g \<Longrightarrow> parse_copy (frame_at 0 m) = Inr 1"
  by (auto simp: upd_msg_def parse_copy_def ParseFormatFrame_def cur_frame_at parse_frame_def)

text \<open>The sum of gradients in the order of the messages, and their average.\<close>

definition sum_grads :: "('f :: plus) list list \<Rightarrow> 'f list" where
  "sum_grads gs = foldl (map2 (+)) (hd gs) (tl gs)"

definition avg_grads :: "(int \<Rightarrow> 'f) \<Rightarrow> ('f :: {plus, divide}) list list \<Rightarrow> 'f list" where
  "avg_grads i2f gs =
     (if 1 < length gs then map (\<lambda>x. x div i2f (int (length gs))) (sum_grads gs) else sum_grads gs)"

lemma ParseUpdateMsgs_copy:
  fixes p :: "('f :: {zero, plus, divide}) Param"
  assumes "param_in p h n" and "list_all2 upd_msg ms gs" and "\<forall>g \<in> set gs. length g = n" and "gs \<noteq> []"
    and "data_apart p h" and "0 < n"
  shows "\<exists>h1. ParseUpdateMsgs R i2f (map (frame_at 0) ms) p h = Inr (map (frame_at 1) ms, h1) \<and>
    param_in p h1 n \<and> grad_of p h1 = avg_grads i2f gs \<and> data_apart p h1 \<and> data_of p h1 = data_of p h"
proof -
  obtain m ms' g gs' where cons: "ms = m # ms'" "gs = g # gs'"
    using assms(2,4) by (metis list.exhaust list_all2_Nil)
  then have l2: "upd_msg m g" "list_all2 upd_msg ms' gs'" and len: "length ms' = length gs'"
    using assms(2) by (auto dest: list_all2_lengthD)
  have copies: "mapR parse_copy (map (frame_at 0) ms) = Inr (replicate (length ms) 1)"
  proof -
    have "\<forall>m \<in> set ms. \<exists>g. upd_msg m g"
      using assms(2) by (metis list_all2_conv_all_nth in_set_conv_nth)
    then have "mapR parse_copy (map (frame_at 0) ms) = Inr (map (\<lambda>_. 1) (map (frame_at 0) ms))"
      by (intro mapR_map) (auto, metis parse_copy_upd)
    then show ?thesis by (simp add: map_replicate_const)
  qed
  note p = param_inD [OF assms(1)]
  have sz: "param_size p h = Inr (int n)" using p(5,9) by (simp add: param_size_def)
  obtain h1 where h1: "parse_update R p n (frame_at 0 m) 1 True h = Inr (frame_at 1 m, False, h1)"
    "param_in p h1 n" "grad_of p h1 = g" "data_apart p h1" "data_of p h1 = data_of p h"
    using parse_update_copy [OF assms(1) l2(1) _ assms(5,6), of R True] assms(3) cons by auto
  obtain h2 where h2: "parse_updates R p n (map (frame_at 0) ms') (replicate (length ms') 1) False h1 =
      Inr (map (frame_at 1) ms', h2)" "param_in p h2 n" "grad_of p h2 = sum_grads gs" "data_apart p h2"
    "data_of p h2 = data_of p h1"
    using parse_updates_copy [OF h1(2) l2(2) _ h1(4) assms(6), of R] assms(3) cons h1(3) by (auto simp: sum_grads_def)
  have loop: "parse_updates R p n (map (frame_at 0) ms) (replicate (length ms) 1) True h = Inr (map (frame_at 1) ms, h2)"
    using h1(1) h2(1) cons by simp
  show ?thesis
  proof (cases "1 < length ms")
    case False
    then show ?thesis
      using copies sz loop h1 h2 cons len
      by (simp add: ParseUpdateMsgs_def list_all_iff avg_grads_def)
  next
    case True
    note d = param_inD [OF h2(2)]
    let ?xs = "map (\<lambda>x. x div i2f (int (length ms))) (grad_of p h2)"
    obtain q g1 where q: "mutable_cpu_data (pgrad p) h2 = Inr (q, g1)" "reads_blob q (pgrad p) h2 g1"
      using cpu_data_spec(2) [OF d(1,6,7)] by blast
    have rd: "mem_read q n g1 = Inr (grad_of p h2)"
      using mutable_read_all [OF q(2) d(8)] d(11) by (simp add: grad_of_def)
    have "length ?xs = nat (bcount (blobs h2 (pgrad p)))" using d(8,11) by simp
    from blob_write_spec [OF d(1,6,7) this] obtain h3 where h3: "blob_write (pgrad p) ?xs h2 = Inr h3"
      "wf_heap h3" "blobs h3 = blobs h2" "nblob h3 = nblob h2" "contents h3 (pgrad p) = ?xs"
      "\<forall>c < nblob h2. separate h2 (pgrad p) c \<longrightarrow> contents h3 c = contents h2 c"
      "\<forall>c < nblob h2. separate h2 (pgrad p) c \<longrightarrow> 0 < bcount (blobs h2 c) \<longrightarrow> separate h3 (pgrad p) c"
      by blast
    have "mem_write q ?xs g1 = Inr h3" using h3(1) q(1) by (simp add: blob_write_def)
    then have "ParseUpdateMsgs R i2f (map (frame_at 0) ms) p h = Inr (map (frame_at 1) ms, h3)"
      using copies sz loop q(1) rd True by (simp add: ParseUpdateMsgs_def list_all_iff)
    moreover have "param_in p h3 n" using h2(2) h3 by (auto simp: param_in_def)
    moreover have "length gs = length ms" using cons len by simp
    ultimately show ?thesis
      using h3 h2 h1(5) True d(3,5) assms(6)
      by (auto simp: grad_of_def data_of_def data_apart_def avg_grads_def)
  qed
qed

lemma gen_update_response_copy:
  assumes "param_in p h n" and "frames m = Fmt [FI 1] # Floats g # rest" and "length g = n"
  shows "\<exists>m1 h1. gen_update_response p m h = Inr (m1, h1) \<and>
    frames m1 = Fmt [FI 1] # Floats (data_of p h) # rest \<and> msg_src m1 = msg_dst m \<and> msg_dst m1 = msg_src m \<and>
    msg_type m1 = kRUpdate \<and> trgt_val m1 = trgt_val m \<and> trgt_version m1 = trgt_version m \<and>
    param_in p h1 n \<and> data_of p h1 = data_of p h \<and> grad_of p h1 = grad_of p h"
proof -
  note p = param_inD [OF assms(1)]
  let ?m1 = "(SwapAddr (FirstFrame m))\<lparr>msg_type := kRUpdate\<rparr>"
  have m1: "frames ?m1 = Fmt [FI 1] # Floats g # rest" "zcur ?m1 = Some 0" "fptr ?m1 = Some 0"
    using assms(2) by (simp_all add: SwapAddr_def FirstFrame_def frame_at_def Let_def)
  have c: "parse_copy ?m1 = Inr 1"
    using m1 by (simp add: parse_copy_def ParseFormatFrame_def cur_frame_def parse_frame_def)
  have nx: "NextFrame ?m1 = Inr (True, frame_at 1 ?m1)" using NextFrame_at [OF m1(2)] m1(1) by simp
  have cf: "cur_frame (frame_at 1 ?m1) = Inr (Floats g)" using cur_frame_at [of 1 ?m1] m1(1) by simp
  obtain d h1 where d: "mutable_cpu_data (the (pdata p)) h = Inr (d, h1)" "reads_blob d (the (pdata p)) h h1"
    using cpu_data_spec(2) [OF p(1,3,4)] by blast
  have rd: "mem_read d n h1 = Inr (data_of p h)"
    using mutable_read_all [OF d(2) p(5)] p(10) by (simp add: data_of_def)
  have same: "param_in p h1 n" "data_of p h1 = data_of p h" "grad_of p h1 = grad_of p h"
    using assms(1) d(2) p(3,6) by (auto simp: param_in_def reads_blob_def data_of_def grad_of_def)
  have set: "SetFrameFloats (data_of p h) (frame_at 1 ?m1) =
      Inr ((frame_at 1 ?m1)\<lparr>frames := Fmt [FI 1] # Floats (data_of p h) # rest\<rparr>)"
    using cf m1(1) p(10) assms(3)
    by (simp add: SetFrameFloats_def FrameFloats_def frame_at_def Let_def)
  have "nat (bcount (blobs h1 (the (pdata p)))) = n" using d(2) p(5) by (simp add: reads_blob_def)
  then have "gen_update_response p m h = Inr ((frame_at 1 ?m1)\<lparr>frames := Fmt [FI 1] # Floats (data_of p h) # rest\<rparr>, h1)"
    using c nx cf p(5,9) assms(3) d(1) rd set by (simp add: gen_update_response_def Let_def FrameSize_def)
  then show ?thesis using same by (simp add: SwapAddr_def FirstFrame_def)
qed

section \<open>Properties\<close>

text \<open>
  A parameter id and a slice id packed into a message target come back out, for ids of 16
  signed bits and slices of 16 bits.
\<close>

theorem ParamTrgt_roundtrip:
  assumes "- 32768 \<le> i" and "i < 32768" and "0 \<le> s" and "s < 65536"
  shows "ParamID (ParamTrgt i s) = i \<and> SliceID (ParamTrgt i s) = s"
  using ParamTrgt_back [OF assms] by blast

theorem ParamTrgt_roundtrip_witness:
  "ParamID (ParamTrgt (- 1) 40000) = - 1 \<and> SliceID (ParamTrgt (- 1) 40000) = 40000"
  by (rule ParamTrgt_roundtrip) simp_all

text \<open>
  Slices added one after the other to a fresh parameter tile it: the slices of a vector as long
  as their sizes add up to, put together in order, are the vector.
\<close>

theorem slices_tile:
  assumes "\<forall>x \<in> set szs. 0 \<le> x" and "int (length xs) = sum_list szs"
  shows "\<exists>p. add_slices slice_id szs (fst (Param_new h)) = Inr p \<and> num_slices p = int (length szs) \<and>
    concat (map (\<lambda>i. slice_of p (int i) xs) [0..<length szs]) = xs"
proof -
  obtain p where p: "add_slices slice_id szs (fst (Param_new h)) = Inr p" "wf_slices p" "slice_size p = szs"
    using add_slices_spec [OF wf_slices_new assms(1), of h slice_id]
    by (auto simp: Param_new_def Blob_new_def)
  have "int (sum_list (map nat ys)) = sum_list ys" if "\<forall>y \<in> set ys. 0 \<le> y" for ys
    using that by (induction ys) simp_all
  then have sums: "int (sum_list (take i (map nat szs))) = sum_list (take i szs)" for i
    using assms(1) by (metis in_set_takeD take_map)
  have "concat (map (\<lambda>i. segment (nat (slice_offset p ! i)) (map nat szs ! i) xs) [0..<length szs]) =
      take (sum_list (map nat szs)) xs"
    using segments_tile [of "map nat szs" "slice_offset p" xs] p(2,3) sums by (simp add: wf_slices_def)
  moreover have "sum_list (map nat szs) = length xs"
    using sums [of "length szs"] assms(2) by simp
  moreover have "map (\<lambda>i. slice_of p (int i) xs) [0..<length szs] =
      map (\<lambda>i. segment (nat (slice_offset p ! i)) (map nat szs ! i) xs) [0..<length szs]"
    using p(3) by (simp add: slice_of_def)
  ultimately have "concat (map (\<lambda>i. slice_of p (int i) xs) [0..<length szs]) = take (length xs) xs"
    by (simp only:)
  then have "concat (map (\<lambda>i. slice_of p (int i) xs) [0..<length szs]) = xs" by simp
  moreover have "num_slices p = int (length szs)" using p(2,3) by (simp add: wf_slices_def)
  ultimately show ?thesis using p(1) by blast
qed

theorem slices_tile_witness:
  "\<exists>p. add_slices 4 [2, 0, 1] (fst (Param_new (heap0 :: int heap))) = Inr p \<and> num_slices p = int (length [2, 0, 1 :: int]) \<and>
    concat (map (\<lambda>i. slice_of p (int i) [7, 8, 9 :: int]) [0..<length [2, 0, 1 :: int]]) = [7, 8, 9]"
  by (rule slices_tile) simp_all

text \<open>The way of a message through the sockets.\<close>

definition transmit :: "'f msg \<Rightarrow> 'f msg res" where
  "transmit m = ParseFromZmsg (DumpToZmsg m) (Msg_new 0 0)"

lemma transmit_eq [simp]: "transmit m = Inr (FirstFrame m)"
  by (simp add: transmit_def zmsg_roundtrip)

text \<open>
  C23. A slice that a worker puts by value arrives at the server: the server's parameter then
  holds exactly the floats of the slice.
\<close>

theorem put_roundtrip:
  fixes p q :: "('f :: {zero, one, uminus}) Param"
  assumes "param_in p hw n" and "wf_slices p" and "0 \<le> idx" and "idx < num_slices p"
    and "sum_list (slice_size p) \<le> int n" and "0 < slice_size p ! nat idx" and "n < 2 ^ 31"
    and "wf_heap hs" and "pgrad q < nblob hs" and "phistory q < nblob hs" and "pgrad q \<noteq> phistory q"
  shows "\<exists>m hw1 r m1 q1 hs1. GenPutMsg True idx p hw = Inr (m, hw1) \<and> transmit m = Inr r \<and>
    HandlePutMsg r q hs = Inr (m1, q1, hs1) \<and> param_in q1 hs1 (nat (slice_size p ! nat idx)) \<and>
    data_of q1 hs1 = slice_of p idx (data_of p hw)"
proof -
  note sl = slice_bounds [OF assms(2-5)]
  obtain m hw1 where m: "GenPutMsg True idx p hw = Inr (m, hw1)"
    "frames m = [Fmt [FI (slice_size p ! nat idx), FF (learning_rate_multiplier (pproto p)),
      FF (weight_decay_multiplier (pproto p)), FP Null], Floats (slice_of p idx (data_of p hw))]"
    using GenPutMsg_copy [OF assms(1-5)] by blast
  have len: "length (slice_of p idx (data_of p hw)) = nat (slice_size p ! nat idx)"
    using sl(3) param_inD(10) [OF assms(1)] by (simp add: slice_of_def)
  have "is_c_int (slice_size p ! nat idx)" using sl(3,4) assms(7) by (simp add: is_c_int_def)
  then show ?thesis
    using HandlePutMsg_copy [OF assms(8-11) m(2) assms(6) _ len] m(1) by auto
qed

text \<open>A parameter of three floats in two slices, and a server's parameter that was not set up.\<close>

definition demo :: "int Param \<times> int heap" where
  "demo =
     (let (p, h) = Param_new heap0;
          (p1, h1) = projr (Param_Setup ParamProto_default [3] p h) in
      (projr (add_slices 0 [2, 1] p1), h1))"

definition demo_server :: "int Param \<times> int heap" where
  "demo_server = Param_new heap0"

lemma wf_Param_new:
  fixes h :: "('f :: {zero, one, uminus}) heap"
  assumes "wf_heap h"
  shows "wf_heap (snd (Param_new h))" and "pgrad (fst (Param_new h)) < nblob (snd (Param_new h))"
    and "phistory (fst (Param_new h)) < nblob (snd (Param_new h))"
    and "pgrad (fst (Param_new h)) \<noteq> phistory (fst (Param_new h))"
proof -
  have "snd (Param_new h) = snd (Blob_new (snd (Blob_new h)))"
    by (simp add: Param_new_def case_prod_beta)
  then show "wf_heap (snd (Param_new h))" using assms Blob_new_spec(1) by metis
qed (simp_all add: Param_new_def Blob_new_def)

lemma demo_ok: "param_in (fst demo) (snd demo) 3" "wf_slices (fst demo)" "slice_size (fst demo) = [2, 1]"
proof -
  let ?p = "fst (Param_new (heap0 :: int heap))" and ?h = "snd (Param_new (heap0 :: int heap))"
  note w = wf_Param_new [OF wf_heap0]
  obtain p1 h1 where p1: "Param_Setup ParamProto_default [3] ?p ?h = Inr (p1, h1)" "param_in p1 h1 3"
    "p1 = ?p\<lparr>pdata := Some (nblob ?h), pproto := ParamProto_default\<rparr>"
    using Param_Setup_spec [OF w(1-3) _ _ w(4), of 3 ParamProto_default] by (auto simp: is_c_int_def)
  have "wf_slices p1" "slice_size p1 = []"
    using wf_slices_new [of heap0] p1(3) by (simp_all add: wf_slices_def Param_new_def Blob_new_def)
  then obtain p2 where p2: "add_slices 0 [2, 1] p1 = Inr p2" "wf_slices p2" "slice_size p2 = [2, 1]"
    "pdata p2 = pdata p1" "pgrad p2 = pgrad p1" "phistory p2 = phistory p1"
    using add_slices_spec [of p1 "[2, 1]" 0] by auto
  have demo: "demo = (p2, h1)" using p1(1) p2(1) by (simp add: demo_def case_prod_beta)
  have "param_in p2 h1 3" using p1(2) p2 by (simp add: param_in_def)
  then show "param_in (fst demo) (snd demo) 3" "wf_slices (fst demo)" "slice_size (fst demo) = [2, 1]"
    unfolding demo fst_conv snd_conv using p2 by blast+
qed

theorem put_roundtrip_witness:
  "\<exists>m hw1 r m1 q1 hs1. GenPutMsg True 1 (fst demo) (snd demo) = Inr (m, hw1) \<and> transmit m = Inr r \<and>
    HandlePutMsg r (fst demo_server) (snd demo_server) = Inr (m1, q1, hs1) \<and>
    param_in q1 hs1 (nat (slice_size (fst demo) ! nat 1)) \<and>
    data_of q1 hs1 = slice_of (fst demo) 1 (data_of (fst demo) (snd demo))"
  by (rule put_roundtrip [OF demo_ok(1,2)])
     (use demo_ok wf_Param_new [OF wf_heap0] in \<open>simp_all add: demo_server_def wf_slices_def\<close>)

text \<open>
  C27. A get by value brings the server's floats into the worker's slice and leaves the other
  slices alone; the request is no longer pending.
\<close>

theorem get_roundtrip:
  fixes p q :: "('f :: zero) Param"
  assumes "param_in p hw n" and "wf_slices p" and "0 \<le> idx" and "idx < num_slices p"
    and "sum_list (slice_size p) \<le> int n"
    and "param_in q hs k" and "int k = slice_size p ! nat idx"
  shows "\<exists>m p1 hw1 r s hs1 t res p2 hw2. GenGetMsg True idx p hw = Inr (m, p1, hw1) \<and>
    transmit m = Inr r \<and> HandleGetMsg r q hs = Inr (s, hs1) \<and> transmit s = Inr t \<and>
    ParseGetResponseMsg t idx p1 hw1 = Inr (res, p2, hw2) \<and>
    data_of p2 hw2 = blit (nat (slice_offset p ! nat idx)) (data_of q hs) (data_of p hw) \<and>
    num_pending_requests p2 = num_pending_requests p \<and> \<not> pending_get p2 ! nat idx \<and>
    (res = 1 \<longleftrightarrow> num_pending_requests p smod num_slices p = 0)"
proof -
  define p1 where "p1 = p\<lparr>pending_get := (pending_get p)[nat idx := True],
      num_pending_requests := num_pending_requests p + 1\<rparr>"
  define p0 where "p0 = p1\<lparr>pending_get := (pending_get p1)[nat idx := False]\<rparr>"
  obtain m ptr hw1 where m: "GenGetMsg True idx p hw = Inr (m, p1, hw1)" "frames m = [Fmt [FI 1, FP ptr]]"
    and rb: "reads_blob (fst (projr (cpu_data (the (pdata p)) hw))) (the (pdata p)) hw hw1"
    using GenGetMsg_copy [OF assms(1-5)] p1_def by blast
  obtain s hs1 where s: "HandleGetMsg (FirstFrame m) q hs = Inr (s, hs1)"
    "frames s = [Fmt [FI 1, FP ptr], Floats (data_of q hs)]"
    using HandleGetMsg_copy [OF assms(6) m(2)] by blast
  have i: "nat idx < length (pending_get p)" using assms(2-4) by (auto simp: wf_slices_def)
  have p0: "param_in p0 hw1 n" "wf_slices p0" "data_of p0 hw1 = data_of p hw" "slice_size p0 = slice_size p"
    "slice_offset p0 = slice_offset p" "num_slices p0 = num_slices p" "pdata p0 = pdata p"
    using assms(1,2) rb param_inD(3) [OF assms(1)]
    by (auto simp: p0_def p1_def param_in_def wf_slices_def reads_blob_def data_of_def)
  obtain hw2 where hw2: "ParseResponseMsg (FirstFrame s) idx p0 hw1 = Inr hw2"
    "data_of p0 hw2 = blit (nat (slice_offset p ! nat idx)) (data_of q hs) (data_of p hw)"
    using ParseResponseMsg_copy [OF p0(1,2) assms(3) _ _ s(2)] p0 assms(4,5,7) param_inD(10) [OF assms(6)] by auto
  have pend: "idxR (pending_get p1) idx = Inr True"
    using i assms(3) by (simp add: idxR_def p1_def)
  let ?res = "if num_pending_requests p smod num_slices p = 0 then 1 else 0 :: int"
  have nz: "num_slices p \<noteq> 0" using assms(3,4) by simp
  have "ParseGetResponseMsg (FirstFrame s) idx p1 hw1 =
      Inr (?res, p0\<lparr>num_pending_requests := num_pending_requests p\<rparr>, hw2)"
    using pend hw2(1) nz p0_def by (simp add: ParseGetResponseMsg_def settle_def Let_def p1_def)
  moreover have "data_of (p0\<lparr>num_pending_requests := num_pending_requests p\<rparr>) hw2 =
      blit (nat (slice_offset p ! nat idx)) (data_of q hs) (data_of p hw)"
    using hw2(2) by (simp add: data_of_def)
  moreover have "\<not> pending_get (p0\<lparr>num_pending_requests := num_pending_requests p\<rparr>) ! nat idx"
    using i by (simp add: p0_def p1_def)
  ultimately show ?thesis using m(1) s(1) by auto
qed

definition demo_sized :: "int \<Rightarrow> (real Param \<times> real heap)" where
  "demo_sized n = projr (Param_Setup ParamProto_default [n] (fst (Param_new heap0)) (snd (Param_new heap0)))"

lemma demo_sized_ok:
  assumes "0 < n" and "is_c_int n"
  shows "param_in (fst (demo_sized n)) (snd (demo_sized n)) (nat n)"
proof -
  note w = wf_Param_new [OF wf_heap0]
  obtain p1 h1 where "Param_Setup ParamProto_default [n] (fst (Param_new heap0)) (snd (Param_new heap0)) =
      Inr (p1, h1 :: real heap)" "param_in p1 h1 (nat n)"
    using Param_Setup_spec [OF w(1-3) assms w(4)] by blast
  then show ?thesis by (simp add: demo_sized_def)
qed

lemma demo_slices_ok:
  assumes "0 < n" and "is_c_int n"
  defines "p \<equiv> (fst (demo_sized n))\<lparr>num_slices := 1, slice_offset := [0], slice_size := [n],
    pending_put := [False], pending_get := [False], pending_update := [False]\<rparr>"
  shows "param_in p (snd (demo_sized n)) (nat n)" and "wf_slices p"
  using demo_sized_ok [OF assms(1,2)] assms(1) by (simp_all add: p_def param_in_def wf_slices_def)

theorem get_roundtrip_witness:
  "\<exists>p. num_slices p = 1 \<and> (\<exists>m p1 hw1 r s hs1 t res p2 hw2.
    GenGetMsg True 0 p (snd (demo_sized 2)) = Inr (m, p1, hw1) \<and>
    transmit m = Inr r \<and> HandleGetMsg r (fst (demo_sized 2)) (snd (demo_sized 2)) = Inr (s, hs1) \<and>
    transmit s = Inr t \<and> ParseGetResponseMsg t 0 p1 hw1 = Inr (res, p2, hw2) \<and>
    data_of p2 hw2 = blit (nat (slice_offset p ! nat 0)) (data_of (fst (demo_sized 2)) (snd (demo_sized 2)))
      (data_of p (snd (demo_sized 2))) \<and>
    num_pending_requests p2 = num_pending_requests p \<and> \<not> pending_get p2 ! nat 0 \<and>
    (res = 1 \<longleftrightarrow> num_pending_requests p smod num_slices p = 0))"
proof -
  have two: "(0 :: int) < 2" "is_c_int 2" by (simp_all add: is_c_int_def)
  let ?p = "(fst (demo_sized 2))\<lparr>num_slices := 1, slice_offset := [0], slice_size := [2],
    pending_put := [False], pending_get := [False], pending_update := [False]\<rparr>"
  show ?thesis
    by (intro exI [of _ ?p] conjI get_roundtrip [OF demo_slices_ok [OF two] _ _ _ demo_sized_ok [OF two]])
       simp_all
qed

lemma avg_grads_mean:
  fixes gs :: "real list list"
  assumes "gs \<noteq> []" and "\<forall>g \<in> set gs. length g = n" and "j < n"
  shows "avg_grads of_int gs ! j = (\<Sum>g\<leftarrow>gs. g ! j) / real (length gs)" and "length (avg_grads of_int gs) = n"
proof -
  have fold: "length (foldl (map2 (+)) a hs) = n \<and> foldl (map2 (+)) a hs ! j = a ! j + (\<Sum>g\<leftarrow>hs. g ! j)"
    if "length a = n" "\<forall>g \<in> set hs. length g = n" for a and hs :: "real list list"
    using that
  proof (induction hs arbitrary: a)
    case (Cons h hs)
    then have "length (map2 (+) a h) = n" "map2 (+) a h ! j = a ! j + h ! j" using assms(3) by simp_all
    then show ?case using Cons.IH [of "map2 (+) a h"] Cons.prems by simp
  qed simp
  obtain g hs where gs: "gs = g # hs" using assms(1) by (cases gs) auto
  have sum: "length (sum_grads gs) = n \<and> sum_grads gs ! j = (\<Sum>g\<leftarrow>gs. g ! j)"
    using fold [of g hs] assms(2) gs by (simp add: sum_grads_def)
  show "length (avg_grads of_int gs) = n" using sum by (simp add: avg_grads_def)
  show "avg_grads of_int gs ! j = (\<Sum>g\<leftarrow>gs. g ! j) / real (length gs)"
    using sum assms(3) gs by (cases "1 < length gs") (auto simp: avg_grads_def)
qed

text \<open>
  C26. The server's gradient after the update requests of a group, all by value, is the mean of
  their gradients, and its data is untouched.
\<close>

theorem ParseUpdateMsgs_mean:
  fixes p :: "real Param"
  assumes "param_in p h n" and "list_all2 upd_msg ms gs" and "\<forall>g \<in> set gs. length g = n" and "gs \<noteq> []"
    and "data_apart p h" and "0 < n"
  shows "\<exists>ms1 h1. ParseUpdateMsgs R of_int (map FirstFrame ms) p h = Inr (ms1, h1) \<and>
    (\<forall>j < n. grad_of p h1 ! j = (\<Sum>g\<leftarrow>gs. g ! j) / real (length gs)) \<and> length (grad_of p h1) = n \<and>
    data_of p h1 = data_of p h"
proof -
  have ff: "FirstFrame = (frame_at 0 :: real msg \<Rightarrow> real msg)" by (simp add: fun_eq_iff FirstFrame_def)
  obtain h1 where "ParseUpdateMsgs R of_int (map (frame_at 0) ms) p h = Inr (map (frame_at 1) ms, h1)"
    "grad_of p h1 = avg_grads of_int gs" "data_of p h1 = data_of p h"
    using ParseUpdateMsgs_copy [OF assms, of R of_int] by blast
  then show ?thesis
    unfolding ff using avg_grads_mean [OF assms(4,3)] assms(6) by auto
qed

definition demo_update :: "real list \<Rightarrow> real msg" where
  "demo_update g = (Msg_new 0 0)\<lparr>msg_type := kUpdate, frames := [Fmt [FI 1], Floats g]\<rparr>"

lemma demo_apart: "data_apart (fst (demo_sized 2)) (snd (demo_sized 2))"
  by (simp add: data_apart_def demo_sized_def Param_Setup_def Blob_new_shape_def Blob_new_def Param_new_def
      Reshape_def shape_count_def is_c_int_def heap0_def upd_blob_def SyncedMemory_new_def separate_def Let_def)

definition blank_repr :: "(real, ptr) repr" where
  "blank_repr = \<lparr>fenc = (\<lambda>_. replicate 4 NUL), fdec = (\<lambda>_. 0), penc = (\<lambda>_. replicate 8 NUL), pdec = (\<lambda>_. Null)\<rparr>"

theorem ParseUpdateMsgs_mean_witness:
  "\<exists>ms1 h1. ParseUpdateMsgs blank_repr of_int (map FirstFrame [demo_update [1, 2], demo_update [3, 6]])
      (fst (demo_sized 2)) (snd (demo_sized 2)) = Inr (ms1, h1) \<and>
    (\<forall>j < 2. grad_of (fst (demo_sized 2)) h1 ! j =
      (\<Sum>g\<leftarrow>[[1, 2], [3, 6]]. g ! j) / real (length [[1, 2], [3, 6 :: real]])) \<and>
    length (grad_of (fst (demo_sized 2)) h1) = 2 \<and>
    data_of (fst (demo_sized 2)) h1 = data_of (fst (demo_sized 2)) (snd (demo_sized 2))"
proof (rule ParseUpdateMsgs_mean)
  show "param_in (fst (demo_sized 2)) (snd (demo_sized 2)) 2"
    using demo_sized_ok [of 2] by (simp add: is_c_int_def)
qed (simp_all add: demo_apart upd_msg_def demo_update_def)

lemma parse_fields_chars: "parse_fields format gs = Inr fs \<Longrightarrow> map field_char fs = format"
  by (induction format gs arbitrary: fs rule: parse_fields.induct)
     (auto simp: bindR_eq_Inr checkR_eq_Inr)

lemma field_char_cases:
  "field_char x = CHR ''i'' \<Longrightarrow> \<exists>v. x = FI v" "field_char x = CHR ''f'' \<Longrightarrow> \<exists>v. x = FF v"
  "field_char x = CHR ''p'' \<Longrightarrow> \<exists>v. x = FP v"
  by (cases x; simp)+

lemma parse_iffp:
  assumes "ParseFormatFrame ''iffp'' m = Inr fs"
  shows "\<exists>sz lr wc q. fs = [FI sz, FF lr, FF wc, FP q]"
proof -
  obtain gs where "parse_fields ''iffp'' gs = Inr fs"
  proof -
    obtain fr where "parse_frame ''iffp'' fr = Inr fs"
      using assms by (auto simp: ParseFormatFrame_def bindR_eq_Inr)
    then show ?thesis using that by (cases fr) (simp_all add: parse_frame_def)
  qed
  from parse_fields_chars [OF this] show ?thesis
    by (auto simp: map_eq_Cons_conv dest: field_char_cases)
qed

text \<open>
  The multipliers of the learning rate and the weight decay that a put message carries never
  reach the server's parameter: after \<open>HandlePutMsg\<close> both are the default 1.
\<close>

theorem put_loses_multipliers:
  assumes "HandlePutMsg m q h = Inr (m1, q1, h1)"
  shows "learning_rate_multiplier (pproto q1) = 1 \<and> weight_decay_multiplier (pproto q1) = 1"
proof -
  obtain fs where fs: "ParseFormatFrame ''iffp'' m = Inr fs"
    using assms by (auto simp: HandlePutMsg_def bindR_eq_Inr)
  obtain sz lr wc ptr where "fs = [FI sz, FF lr, FF wc, FP ptr]"
    using parse_iffp [OF fs] by blast
  then have "pproto q1 = ParamProto_default"
    using assms fs
    by (auto simp: HandlePutMsg_def Param_Setup_def bindR_eq_Inr checkR_eq_Inr Let_def split: if_splits)
  then show ?thesis by (simp add: ParamProto_default_def)
qed

definition demo_put :: "int msg" where
  "demo_put = FirstFrame ((Msg_new 0 0)\<lparr>msg_type := kPut,
     frames := [Fmt [FI 2, FF 5, FF 7, FP Null], Floats [8, 9]]\<rparr>)"

theorem put_loses_multipliers_witness:
  "\<exists>m1 q1 h1. HandlePutMsg demo_put (fst demo_server) (snd demo_server) = Inr (m1, q1, h1) \<and>
    learning_rate_multiplier (pproto q1) = 1 \<and> weight_decay_multiplier (pproto q1) = 1"
proof -
  have "\<exists>m1 q1 h1. HandlePutMsg demo_put (fst demo_server) (snd demo_server) = Inr (m1, q1, h1)"
    using HandlePutMsg_copy [OF wf_Param_new [OF wf_heap0], where m = "(Msg_new 0 0)\<lparr>msg_type := kPut,
       frames := [Fmt [FI 2, FF 5, FF 7, FP Null], Floats [8, 9 :: int]]\<rparr>" and sz = 2 and lr = 5 and wc = 7
       and xs = "[8, 9]" and rest = "[]"]
    by (auto simp: demo_put_def demo_server_def is_c_int_def)
  then show ?thesis using put_loses_multipliers by blast
qed

text \<open>One worker and one server that share their memory; integers stand for the floats.\<close>

definition int_repr :: "(int, ptr) repr" where
  "int_repr = \<lparr>fenc = le_bytes 4, fdec = le_val, penc = (\<lambda>_. replicate 8 NUL), pdec = (\<lambda>_. Null)\<rparr>"

definition shared_update :: "(int list \<times> int list) res" where
  "shared_update =
     bindR (Reshape 0 [5] (snd (Blob_new heap0))) (\<lambda>h0.
     bindR (blob_write 0 [1, 2, 3, 4, 261] h0) (\<lambda>h1.
     let (q, h2) = Param_new h1 in
     bindR (Param_Setup ParamProto_default [5] q h2) (\<lambda>(q1, h3).
     bindR (cpu_data 0 h3) (\<lambda>(grad, h4).
     bindR (ParseUpdateMsgs int_repr id
         [FirstFrame ((Msg_new 0 0)\<lparr>msg_type := kUpdate, frames := [Fmt [FI 0], Fmt [FP grad]]\<rparr>)] q1 h4)
       (\<lambda>(_, h5). Inr (contents h4 0, contents h5 0))))))"


end
