(* ===== verification/Updater.thy ===== *)
theory Updater
  imports Param
begin

text \<open>
  Model of \<open>src/include/utils/updater.h\<close> and \<open>src/src/utils/updater.cc\<close>: the schedules of the
  learning rate and the four update rules.

  An update works on the three blobs of a parameter through the pointers it fetches once; every
  tensor statement of mshadow is a read of its operands followed by a write of its target
  (\<open>tensor1\<close>, \<open>tensor2\<close>). Floats are an arbitrary type with arithmetic; the conversion from
  \<open>int\<close>, \<open>pow\<close> and \<open>sqrt\<close> of libm are the record \<open>libm\<close>. The properties are stated for real
  numbers. The object that \<open>Init\<close> fills is an argument: fields that \<open>Init\<close> does not set keep what
  the fresh object happened to hold.
\<close>

section \<open>Configuration\<close>

datatype ChangeMethod = kFixed | kInverseT | kInverse | kExponential | kLinear | kStep | kFixedStep

record 'f UpdaterProto =
  lr_change :: ChangeMethod
  up_base_lr :: 'f
  up_momentum :: 'f
  up_weight_decay :: 'f
  up_delta :: 'f
  rmsprop_rho :: 'f
  fixedstep_step :: "int list"
  fixedstep_lr :: "'f list"
  step_gamma :: 'f
  step_change_freq :: int
  linear_change_freq :: int
  linear_final_lr :: 'f
  exponential_change_freq :: int
  inverse_gamma :: 'f
  inverse_pow :: 'f
  inverset_final_lr :: 'f

record 'f libm =
  i2f :: "int \<Rightarrow> 'f"
  powf :: "'f \<Rightarrow> 'f \<Rightarrow> 'f"
  sqrtf :: "'f \<Rightarrow> 'f"

text \<open>The fields of \<open>Updater\<close> and of its four subclasses.\<close>

record 'f Updater =
  uproto :: "'f UpdaterProto"
  base_lr :: 'f
  momentum :: 'f
  weight_decay :: 'f
  delta :: 'f
  rho :: 'f

section \<open>Learning rate\<close>

text \<open>The loop over the steps of \<open>kFixedStep\<close>: the last entry that was passed decides.\<close>

fun fixed_step :: "int \<Rightarrow> int list \<Rightarrow> 'f list \<Rightarrow> 'f \<Rightarrow> 'f res" where
  "fixed_step step [] lrs ret = Inr ret"
| "fixed_step step (s # ss) lrs ret =
     (if s < step then
        (case lrs of [] \<Rightarrow> Inl Undefined | l # ls \<Rightarrow> fixed_step step ss ls l)
      else fixed_step step ss (drop 1 lrs) ret)"

definition GetLearningRate ::
  "('f :: {zero, one, plus, minus, uminus, times, divide}) libm \<Rightarrow> 'f Updater \<Rightarrow> int \<Rightarrow> 'f res" where
  "GetLearningRate M u step =
     (let c = uproto u; base = up_base_lr c in
      case lr_change c of
        kFixed \<Rightarrow> Inr base
      | kLinear \<Rightarrow>
          (let r = i2f M step div i2f M (linear_change_freq c) in
           Inr ((1 - r) * base + r * linear_final_lr c))
      | kExponential \<Rightarrow>
          Inr (base div powf M (i2f M 2) (i2f M step div i2f M (exponential_change_freq c)))
      | kInverseT \<Rightarrow>
          checkR (base = i2f M 2 * inverset_final_lr c) CheckFailed
            (Inr (base div (1 + i2f M step div inverset_final_lr c)))
      | kInverse \<Rightarrow> Inr (base * powf M (1 + inverse_gamma c * i2f M step) (- inverse_pow c))
      | kStep \<Rightarrow>
          checkR (step_change_freq c \<noteq> 0) Undefined
            (Inr (base * powf M (step_gamma c) (i2f M (step sdiv step_change_freq c))))
      | kFixedStep \<Rightarrow> fixed_step step (fixedstep_step c) (fixedstep_lr c) 0)"

section \<open>Tensors\<close>

definition tensor1 :: "('f \<Rightarrow> 'f) \<Rightarrow> ptr \<Rightarrow> ptr \<Rightarrow> nat \<Rightarrow> 'f heap \<Rightarrow> 'f heap res" where
  "tensor1 f dst a n h = bindR (mem_read a n h) (\<lambda>xs. mem_write dst (map f xs) h)"

definition tensor2 :: "('f \<Rightarrow> 'f \<Rightarrow> 'f) \<Rightarrow> ptr \<Rightarrow> ptr \<Rightarrow> ptr \<Rightarrow> nat \<Rightarrow> 'f heap \<Rightarrow> 'f heap res" where
  "tensor2 f dst a b n h =
     bindR (mem_read a n h) (\<lambda>xs. bindR (mem_read b n h) (\<lambda>ys. mem_write dst (map2 f xs ys) h))"

text \<open>The tensor of \<open>n\<close> floats behind \<open>mutable_cpu_data\<close> of the data of a parameter.\<close>

definition data_tensor :: "'f Param \<Rightarrow> ('f :: zero) heap \<Rightarrow> (nat \<times> ptr \<times> 'f heap) res" where
  "data_tensor p h =
     bindR (param_size p h) (\<lambda>sz.
     bindR (data_blob p) (\<lambda>b.
     bindR (mutable_cpu_data b h) (\<lambda>(d, h1). Inr (nat sz, d, h1))))"

text \<open>L2 regularisation: \<open>grad += data * wd\<close> when \<open>wd\<close> is positive.\<close>

definition decay :: "('f :: {zero, plus, times, ord}) \<Rightarrow> ptr \<Rightarrow> ptr \<Rightarrow> nat \<Rightarrow> 'f heap \<Rightarrow> 'f heap res" where
  "decay wd g d n h = (if 0 < wd then tensor2 (\<lambda>x y. x + y * wd) g g d n h else Inr h)"

text \<open>\<open>if(step==0) history=0\<close>.\<close>

definition reset_history :: "int \<Rightarrow> ptr \<Rightarrow> nat \<Rightarrow> ('f :: zero) heap \<Rightarrow> 'f heap res" where
  "reset_history step hi n h = (if step = 0 then mem_write hi (replicate n 0) h else Inr h)"

section \<open>SGD with momentum\<close>

definition SGD_Init :: "'f UpdaterProto \<Rightarrow> 'f Updater \<Rightarrow> 'f Updater res" where
  "SGD_Init proto u =
     Inr (u\<lparr>uproto := proto, base_lr := up_base_lr proto, momentum := up_momentum proto,
       weight_decay := up_weight_decay proto\<rparr>)"

definition SGD_Update ::
  "('f :: {zero, one, plus, minus, uminus, times, divide, ord}) libm \<Rightarrow> 'f Updater \<Rightarrow> int \<Rightarrow> 'f Param \<Rightarrow>
   'f heap \<Rightarrow> 'f heap res" where
  "SGD_Update M u step p h =
     bindR (data_tensor p h) (\<lambda>(n, d, h1).
     bindR (mutable_cpu_data (pgrad p) h1) (\<lambda>(g, h2).
     bindR (GetLearningRate M u step) (\<lambda>rate.
     let lr = rate * learning_rate_multiplier (pproto p);
         wd = weight_decay u * weight_decay_multiplier (pproto p) in
     bindR (decay wd g d n h2) (\<lambda>h3.
       if 0 < momentum u then
         bindR (mutable_cpu_data (phistory p) h3) (\<lambda>(hi, h4).
         bindR (reset_history step hi n h4) (\<lambda>h5.
         bindR (tensor2 (\<lambda>x y. x * momentum u - lr * y) hi hi g n h5) (\<lambda>h6.
           tensor2 (+) d d hi n h6)))
       else
         bindR (tensor1 (\<lambda>x. x * - lr) g g n h3) (\<lambda>h4. tensor2 (+) d d g n h4)))))"

section \<open>Nesterov\<close>

text \<open>\<open>NesterovUpdater::Init\<close> does not set \<open>momentum_\<close>.\<close>

definition Nesterov_Init :: "('f :: {zero, ord}) UpdaterProto \<Rightarrow> 'f Updater \<Rightarrow> 'f Updater res" where
  "Nesterov_Init proto u =
     checkR (0 < up_base_lr proto) CheckFailed
       (Inr (u\<lparr>uproto := proto, base_lr := up_base_lr proto, weight_decay := up_weight_decay proto\<rparr>))"

definition Nesterov_Update ::
  "('f :: {zero, one, plus, minus, uminus, times, divide, ord}) libm \<Rightarrow> 'f Updater \<Rightarrow> int \<Rightarrow> 'f Param \<Rightarrow>
   'f heap \<Rightarrow> 'f heap res" where
  "Nesterov_Update M u step p h =
     bindR (data_tensor p h) (\<lambda>(n, d, h1).
     bindR (mutable_cpu_data (pgrad p) h1) (\<lambda>(g, h2).
     bindR (mutable_cpu_data (phistory p) h2) (\<lambda>(hi, h3).
     bindR (reset_history step hi n h3) (\<lambda>h4.
     bindR (GetLearningRate M u step) (\<lambda>rate.
     let lr = rate * learning_rate_multiplier (pproto p);
         wd = weight_decay u * weight_decay_multiplier (pproto p) in
     bindR (decay wd g d n h4) (\<lambda>h5.
     bindR (mem_read hi n h5) (\<lambda>tmp.
     bindR (tensor2 (\<lambda>x y. x * momentum u + lr * y) hi hi g n h5) (\<lambda>h6.
     bindR (mem_read hi n h6) (\<lambda>hs.
     bindR (mem_read d n h6) (\<lambda>ds.
       let tmp2 = map2 (\<lambda>x t. x * (1 + momentum u) - t * momentum u) hs tmp in
       mem_write d (map2 (-) ds tmp2) h6))))))))))"

section \<open>AdaGrad and RMSProp\<close>

definition AdaGrad_Init :: "('f :: {zero, ord}) UpdaterProto \<Rightarrow> 'f Updater \<Rightarrow> 'f Updater res" where
  "AdaGrad_Init proto u =
     checkR (0 < up_base_lr proto) CheckFailed
       (Inr (u\<lparr>uproto := proto, base_lr := up_base_lr proto, delta := up_delta proto,
         weight_decay := up_weight_decay proto\<rparr>))"

text \<open>
  The two rules differ in how they accumulate the squared gradient: \<open>acc\<close> maps the history and
  the scaled gradient to the new history.
\<close>

definition scaled_update ::
  "('f \<Rightarrow> 'f \<Rightarrow> 'f) \<Rightarrow> ('f :: {zero, one, plus, minus, uminus, times, divide, ord}) libm \<Rightarrow> 'f Updater \<Rightarrow>
   int \<Rightarrow> 'f Param \<Rightarrow> 'f \<Rightarrow> 'f heap \<Rightarrow> 'f heap res" where
  "scaled_update acc M u step p grad_scale h =
     bindR (data_tensor p h) (\<lambda>(n, d, h1).
     bindR (mutable_cpu_data (pgrad p) h1) (\<lambda>(g, h2).
     bindR (mutable_cpu_data (phistory p) h2) (\<lambda>(hi, h3).
     bindR (reset_history step hi n h3) (\<lambda>h4.
     bindR (tensor2 (\<lambda>x y. acc x (y * grad_scale)) hi hi g n h4) (\<lambda>h5.
     bindR (GetLearningRate M u step) (\<lambda>rate.
     let lr = rate * learning_rate_multiplier (pproto p);
         wd = weight_decay u * weight_decay_multiplier (pproto p) in
     bindR (decay wd g d n h5) (\<lambda>h6.
     bindR (mem_read g n h6) (\<lambda>gs.
     bindR (mem_read hi n h6) (\<lambda>hs.
     bindR (mem_read d n h6) (\<lambda>ds.
       let step_of = map2 (\<lambda>x s. lr * x div sqrtf M (s + delta u)) gs hs in
       mem_write d (map2 (-) ds step_of) h6))))))))))"

definition AdaGrad_Update ::
  "('f :: {zero, one, plus, minus, uminus, times, divide, ord}) libm \<Rightarrow> 'f Updater \<Rightarrow> int \<Rightarrow> 'f Param \<Rightarrow>
   'f \<Rightarrow> 'f heap \<Rightarrow> 'f heap res" where
  "AdaGrad_Update M u = scaled_update (\<lambda>x y. x + y * y) M u"

definition RMSProp_Init :: "('f :: {zero, ord}) UpdaterProto \<Rightarrow> 'f Updater \<Rightarrow> 'f Updater res" where
  "RMSProp_Init proto u =
     checkR (0 < up_base_lr proto) CheckFailed
       (Inr (u\<lparr>uproto := proto, base_lr := up_base_lr proto, delta := up_delta proto,
         rho := rmsprop_rho proto, weight_decay := up_weight_decay proto\<rparr>))"

definition RMSProp_Update ::
  "('f :: {zero, one, plus, minus, uminus, times, divide, ord}) libm \<Rightarrow> 'f Updater \<Rightarrow> int \<Rightarrow> 'f Param \<Rightarrow>
   'f \<Rightarrow> 'f heap \<Rightarrow> 'f heap res" where
  "RMSProp_Update M u = scaled_update (\<lambda>x y. x * rho u + (1 - rho u) * (y * y)) M u"

section \<open>Pointers into blobs\<close>

lemma ptr_disj_sym: "ptr_disj p n q m = ptr_disj q m p n"
  by (auto simp: ptr_disj_def split: ptr.splits)

lemma separate_sym: "separate h b c = separate h c b"
  by (auto simp: separate_def ptr_disj_sym split: option.splits)

text \<open>The blob is allocated and \<open>q\<close> is its pointer: fetching it again changes nothing.\<close>

definition at_ptr :: "('f :: zero) heap \<Rightarrow> nat \<Rightarrow> ptr \<Rightarrow> bool" where
  "at_ptr h b q \<longleftrightarrow> mutable_cpu_data b h = Inr (q, h)"

lemma upd_sync_id: "f (syncs h s) = syncs h s \<Longrightarrow> upd_sync s f h = h"
  by (cases h) (simp add: upd_sync_def fun_upd_idem)

lemma at_ptr_iff:
  "at_ptr h b q \<longleftrightarrow>
    (\<exists>s. bdata (blobs h b) = Some s \<and> sm_head (syncs h s) = HEAD_AT_CPU \<and> cpu_ptr (syncs h s) = q)"
proof
  assume "at_ptr h b q"
  then obtain s g where s: "bdata (blobs h b) = Some s" "to_cpu s h = Inr g"
    "upd_sync s (\<lambda>m. m\<lparr>sm_head := HEAD_AT_CPU\<rparr>) g = h" "cpu_ptr (syncs h s) = q"
    by (auto simp: at_ptr_def mutable_cpu_data_def with_data_def sm_mutable_cpu_data_def Let_def bindR_eq_Inr
        split: option.splits)
  moreover have "sm_head (syncs (upd_sync s (\<lambda>m. m\<lparr>sm_head := HEAD_AT_CPU\<rparr>) g) s) = HEAD_AT_CPU"
    by (simp add: upd_sync_def)
  ultimately show "\<exists>s. bdata (blobs h b) = Some s \<and> sm_head (syncs h s) = HEAD_AT_CPU \<and> cpu_ptr (syncs h s) = q"
    using s(1,4) unfolding s(3) by blast
next
  assume "\<exists>s. bdata (blobs h b) = Some s \<and> sm_head (syncs h s) = HEAD_AT_CPU \<and> cpu_ptr (syncs h s) = q"
  then obtain s where s: "bdata (blobs h b) = Some s" "sm_head (syncs h s) = HEAD_AT_CPU" "cpu_ptr (syncs h s) = q"
    by blast
  moreover have "upd_sync s (\<lambda>m. m\<lparr>sm_head := HEAD_AT_CPU\<rparr>) h = h" using s(2) by (intro upd_sync_id) simp
  ultimately show "at_ptr h b q"
    by (simp add: at_ptr_def mutable_cpu_data_def with_data_def sm_mutable_cpu_data_def to_cpu_def)
qed

lemma mutable_cpu_data_frame:
  assumes "mutable_cpu_data b h = Inr (q, h1)"
  shows "at_ptr h1 b q" and "at_ptr h c r \<Longrightarrow> at_ptr h1 c r" and "blobs h1 = blobs h" and "nblob h1 = nblob h"
proof -
  obtain s g where s: "bdata (blobs h b) = Some s" "to_cpu s h = Inr g"
    "h1 = upd_sync s (\<lambda>m. m\<lparr>sm_head := HEAD_AT_CPU\<rparr>) g" "q = cpu_ptr (syncs h1 s)"
    using assms by (auto simp: mutable_cpu_data_def with_data_def sm_mutable_cpu_data_def Let_def bindR_eq_Inr
        split: option.splits)
  have g: "blobs g = blobs h" "nblob g = nblob h" "\<And>t. sm_head (syncs h t) = HEAD_AT_CPU \<Longrightarrow> syncs g t = syncs h t"
    using s(2) by (auto simp: to_cpu_def malloc0_def upd_sync_def split: SyncedHead.splits)
  then show "blobs h1 = blobs h" "nblob h1 = nblob h" using s(3) by (simp_all add: upd_sync_def)
  show "at_ptr h1 b q" using s g by (auto simp: at_ptr_iff upd_sync_def)
  show "at_ptr h1 c r" if "at_ptr h c r" using that s(3) g by (auto simp: at_ptr_iff upd_sync_def)
qed

lemma mem_write_frame:
  assumes "mem_write q xs h = Inr h1"
  shows "at_ptr h1 c r = at_ptr h c r" and "separate h1 c d = separate h c d" and "blobs h1 = blobs h"
    and "nblob h1 = nblob h"
proof -
  have "syncs h1 = syncs h" "blobs h1 = blobs h" "nblob h1 = nblob h"
    using assms by (auto simp: mem_write_def checkR_eq_Inr split: if_splits ptr.splits option.splits)
  then show "at_ptr h1 c r = at_ptr h c r" "separate h1 c d = separate h c d" "blobs h1 = blobs h" "nblob h1 = nblob h"
    by (simp_all add: at_ptr_iff separate_def split: option.splits)
qed

lemma separate_upd_head:
  assumes "sm_head (syncs g s) \<noteq> UNINITIALIZED"
  shows "separate (upd_sync s (\<lambda>m. m\<lparr>sm_head := HEAD_AT_CPU\<rparr>) g) c d = separate g c d"
  using assms by (auto simp: separate_def upd_sync_def split: option.splits)

lemma mutable_cpu_data_separate:
  assumes "wf_heap h" and "b < nblob h" and "mutable_cpu_data b h = Inr (q, h1)"
    and "separate h c d" and "c < nblob h" and "d < nblob h" and "0 < bcount (blobs h c)" and "0 < bcount (blobs h d)"
  shows "separate h1 c d"
proof -
  obtain s g where s: "bdata (blobs h b) = Some s" "to_cpu s h = Inr g"
    "h1 = upd_sync s (\<lambda>m. m\<lparr>sm_head := HEAD_AT_CPU\<rparr>) g"
    using assms(3) by (auto simp: mutable_cpu_data_def with_data_def sm_mutable_cpu_data_def Let_def bindR_eq_Inr
        split: option.splits)
  have init: "sm_head (syncs g s) \<noteq> UNINITIALIZED"
    using s(2) by (auto simp: to_cpu_def malloc0_def upd_sync_def split: SyncedHead.splits)
  have g: "blobs g = blobs h" "\<And>t. t \<noteq> s \<Longrightarrow> syncs g t = syncs h t"
    using s(2) by (auto simp: to_cpu_def malloc0_def upd_sync_def split: SyncedHead.splits)
  have "separate g c d"
  proof (cases "bdata (blobs h c) = Some s")
    case True
    show ?thesis by (rule separate_to_cpu [OF assms(1,5,6,4) True s(2) assms(8)])
  next
    case False
    show ?thesis
    proof (cases "bdata (blobs h d) = Some s")
      case True
      show ?thesis
        using separate_to_cpu [OF assms(1,6,5) _ True s(2) assms(7)] assms(4) separate_sym by blast
    next
      case False
      then show ?thesis using \<open>bdata (blobs h c) \<noteq> Some s\<close> assms(4) g
        by (auto simp: separate_def split: option.splits)
    qed
  qed
  then show ?thesis using separate_upd_head [OF init] s(3) by simp
qed

section \<open>The three vectors of a parameter\<close>

definition hist_of :: "'f Param \<Rightarrow> ('f :: zero) heap \<Rightarrow> 'f list" where
  "hist_of p h = contents h (phistory p)"

definition blobs_of :: "'f Param \<Rightarrow> nat set" where
  "blobs_of p = {the (pdata p), pgrad p, phistory p}"

text \<open>A parameter of \<open>n\<close> floats whose data, gradient and history do not share memory.\<close>

definition trainable :: "'f Param \<Rightarrow> 'f heap \<Rightarrow> nat \<Rightarrow> bool" where
  "trainable p h n \<longleftrightarrow> wf_heap h \<and> 0 < n \<and> pdata p \<noteq> None \<and>
     (\<forall>b \<in> blobs_of p. b < nblob h \<and> bdata (blobs h b) \<noteq> None \<and> bcount (blobs h b) = int n) \<and>
     (\<forall>b \<in> blobs_of p. \<forall>c \<in> blobs_of p. b \<noteq> c \<longrightarrow> separate h b c) \<and>
     distinct [the (pdata p), pgrad p, phistory p]"

lemma trainable_blob:
  assumes "trainable p h n" and "b \<in> blobs_of p"
  shows "wf_heap h" "b < nblob h" "bdata (blobs h b) \<noteq> None" "bcount (blobs h b) = int n"
    "length (contents h b) = n"
  using assms length_contents [of h b] by (auto simp: trainable_def)

lemma trainable_ptr:
  assumes "trainable p h n" and "b \<in> blobs_of p"
  shows "\<exists>q h1. mutable_cpu_data b h = Inr (q, h1) \<and> at_ptr h1 b q \<and> trainable p h1 n \<and>
    (\<forall>c \<in> blobs_of p. contents h1 c = contents h c) \<and> (\<forall>c r. at_ptr h c r \<longrightarrow> at_ptr h1 c r)"
proof -
  note b = trainable_blob [OF assms]
  obtain q h1 where q: "mutable_cpu_data b h = Inr (q, h1)" "reads_blob q b h h1"
    using cpu_data_spec(2) [OF b(1-3)] by blast
  note fr = mutable_cpu_data_frame [OF q(1)]
  have "trainable p h1 n"
    using assms(1) q(2) fr(3,4) b(2) mutable_cpu_data_separate [OF b(1,2) q(1)]
    by (auto simp: trainable_def reads_blob_def)
  moreover have "\<forall>c \<in> blobs_of p. contents h1 c = contents h c"
    using assms(1) q(2) by (auto simp: trainable_def reads_blob_def)
  ultimately show ?thesis using q(1) fr by blast
qed

lemma trainable_read:
  assumes "trainable p h n" and "b \<in> blobs_of p" and "at_ptr h b q"
  shows "mem_read q n h = Inr (contents h b)"
proof -
  note b = trainable_blob [OF assms(1,2)]
  have "reads_blob q b h h" using cpu_data_spec(2) [OF b(1-3)] assms(3) by (auto simp: at_ptr_def)
  then show ?thesis using mutable_read_all b(4,5) by blast
qed

lemma trainable_write:
  assumes "trainable p h n" and "b \<in> blobs_of p" and "at_ptr h b q" and "length xs = n"
  shows "\<exists>h1. mem_write q xs h = Inr h1 \<and> trainable p h1 n \<and> contents h1 b = xs \<and>
    (\<forall>c \<in> blobs_of p. c \<noteq> b \<longrightarrow> contents h1 c = contents h c) \<and> (\<forall>c r. at_ptr h c r \<longrightarrow> at_ptr h1 c r)"
proof -
  note b = trainable_blob [OF assms(1,2)]
  have len: "length xs = nat (bcount (blobs h b))" using b(4) assms(4) by simp
  obtain h1 where h1: "blob_write b xs h = Inr h1" "wf_heap h1" "contents h1 b = xs"
    "\<forall>c < nblob h. separate h b c \<longrightarrow> contents h1 c = contents h c"
    using blob_write_spec [OF b(1-3) len] by blast
  have w: "mem_write q xs h = Inr h1" using h1(1) assms(3) by (simp add: blob_write_def at_ptr_def)
  note fr = mem_write_frame [OF w]
  have "trainable p h1 n" using assms(1) h1(2) fr by (simp add: trainable_def)
  moreover have "\<forall>c \<in> blobs_of p. c \<noteq> b \<longrightarrow> contents h1 c = contents h c"
    using assms(1,2) h1(4) by (auto simp: trainable_def)
  ultimately show ?thesis using w h1(3) fr(1) by blast
qed

section \<open>Runs on the vectors of a parameter\<close>

text \<open>
  The heap holds the vectors \<open>vec\<close> in the blobs of \<open>p\<close>, and \<open>qs\<close> are the pointers fetched so
  far. The rules give the effect of each tensor operation on \<open>vec\<close>.
\<close>

definition vecs :: "'f Param \<Rightarrow> nat \<Rightarrow> (nat \<rightharpoonup> ptr) \<Rightarrow> (nat \<Rightarrow> ('f :: zero) list) \<Rightarrow> 'f heap \<Rightarrow> bool" where
  "vecs p n qs vec h \<longleftrightarrow> trainable p h n \<and> (\<forall>b q. qs b = Some q \<longrightarrow> b \<in> blobs_of p \<and> at_ptr h b q) \<and>
     (\<forall>b \<in> blobs_of p. contents h b = vec b)"

lemma vecs_start: "trainable p h n \<Longrightarrow> vecs p n Map.empty (contents h) h"
  by (simp add: vecs_def)

lemma vecs_length: "vecs p n qs vec h \<Longrightarrow> b \<in> blobs_of p \<Longrightarrow> length (vec b) = n"
  using trainable_blob(5) by (fastforce simp: vecs_def)

lemma vecs_qs: "vecs p n qs vec h \<Longrightarrow> qs b = Some q \<Longrightarrow> b \<in> blobs_of p \<and> at_ptr h b q"
  by (simp add: vecs_def)

lemma vecs_ptr [okR_rules]:
  assumes "vecs p n qs vec h" and "b \<in> blobs_of p" and "\<And>q h1. vecs p n (qs(b \<mapsto> q)) vec h1 \<Longrightarrow> Q (q, h1)"
  shows "okR (mutable_cpu_data b h) Q"
proof -
  have t: "trainable p h n" using assms(1) by (simp add: vecs_def)
  obtain q h1 where q: "mutable_cpu_data b h = Inr (q, h1)" "at_ptr h1 b q" "trainable p h1 n"
    "\<forall>c \<in> blobs_of p. contents h1 c = contents h c" "\<forall>c r. at_ptr h c r \<longrightarrow> at_ptr h1 c r"
    using trainable_ptr [OF t assms(2)] by blast
  have "vecs p n (qs(b \<mapsto> q)) vec h1" using assms(1,2) q by (simp add: vecs_def)
  then show ?thesis using assms(3) q(1) by (simp add: okR_def)
qed

lemma vecs_read [okR_rules]:
  assumes "vecs p n qs vec h" and "qs b = Some q" and "Q (vec b)"
  shows "okR (mem_read q n h) Q"
  using assms trainable_read [of p h n b q] by (auto simp: okR_def vecs_def)

lemma vecs_write [okR_rules]:
  assumes "vecs p n qs vec h" and "qs b = Some q" and "length xs = n"
    and "\<And>h1. vecs p n qs (vec(b := xs)) h1 \<Longrightarrow> Q h1"
  shows "okR (mem_write q xs h) Q"
proof -
  have t: "trainable p h n" "b \<in> blobs_of p" "at_ptr h b q" using assms(1,2) by (auto simp: vecs_def)
  obtain h1 where q: "mem_write q xs h = Inr h1" "trainable p h1 n" "contents h1 b = xs"
    "\<forall>c \<in> blobs_of p. c \<noteq> b \<longrightarrow> contents h1 c = contents h c" "\<forall>c r. at_ptr h c r \<longrightarrow> at_ptr h1 c r"
    using trainable_write [OF t assms(3)] by blast
  have "vecs p n qs (vec(b := xs)) h1" using assms(1) q by (simp add: vecs_def)
  then show ?thesis using assms(4) q(1) by (simp add: okR_def)
qed

lemma vecs_tensor1 [okR_rules]:
  assumes "vecs p n qs vec h" and "qs b = Some q" and "qs a = Some r"
    and "\<And>h1. vecs p n qs (vec(b := map f (vec a))) h1 \<Longrightarrow> Q h1"
  shows "okR (tensor1 f q r n h) Q"
proof -
  have "length (vec a) = n" using assms(1,3) vecs_length vecs_qs by blast
  then show ?thesis unfolding tensor1_def using assms(4)
    by (intro okR_bind vecs_read [OF assms(1,3)] vecs_write [OF assms(1,2)]) simp_all
qed

lemma vecs_tensor2 [okR_rules]:
  assumes "vecs p n qs vec h" and "qs b = Some q" and "qs a = Some r" and "qs c = Some s"
    and "\<And>h1. vecs p n qs (vec(b := map2 f (vec a) (vec c))) h1 \<Longrightarrow> Q h1"
  shows "okR (tensor2 f q r s n h) Q"
proof -
  have "length (vec a) = n" "length (vec c) = n" using assms(1,3,4) vecs_length vecs_qs by blast+
  then show ?thesis unfolding tensor2_def using assms(5)
    by (intro okR_bind vecs_read [OF assms(1,3)] vecs_read [OF assms(1,4)] vecs_write [OF assms(1,2)]) simp_all
qed

definition decayed :: "('f :: {zero, plus, times, ord}) \<Rightarrow> 'f list \<Rightarrow> 'f list \<Rightarrow> 'f list" where
  "decayed wd ds gs = (if 0 < wd then map2 (\<lambda>x y. x + y * wd) gs ds else gs)"

lemma vecs_decay [okR_rules]:
  assumes "vecs p n qs vec h" and "qs b = Some g" and "qs c = Some d"
    and "\<And>h1. vecs p n qs (vec(b := decayed wd (vec c) (vec b))) h1 \<Longrightarrow> Q h1"
  shows "okR (decay wd g d n h) Q"
  using assms(1,4) by (auto simp: decay_def decayed_def intro!: vecs_tensor2 [OF assms(1,2,2,3)])

lemma vecs_reset [okR_rules]:
  assumes "vecs p n qs vec h" and "qs b = Some q"
    and "\<And>h1. vecs p n qs (vec(b := if step = 0 then replicate n 0 else vec b)) h1 \<Longrightarrow> Q h1"
  shows "okR (reset_history step q n h) Q"
  using assms(1,3) by (auto simp: reset_history_def intro!: vecs_write [OF assms(1,2)])

lemma vecs_data [okR_rules]:
  assumes "vecs p n qs vec h" and "\<And>q h1. vecs p n (qs(the (pdata p) \<mapsto> q)) vec h1 \<Longrightarrow> Q (n, q, h1)"
  shows "okR (data_tensor p h) Q"
proof -
  have b: "data_blob p = Inr (the (pdata p))" "the (pdata p) \<in> blobs_of p"
    using assms(1) by (auto simp: vecs_def trainable_def data_blob_def blobs_of_def)
  moreover have "param_size p h = Inr (int n)"
    using assms(1) b by (auto simp: vecs_def trainable_def param_size_def)
  ultimately show ?thesis
    unfolding data_tensor_def using assms(2) by (auto intro!: okR_bind vecs_ptr [OF assms(1)])
qed

lemma okR_rate: "GetLearningRate M u step = Inr rate \<Longrightarrow> Q rate \<Longrightarrow> okR (GetLearningRate M u step) Q"
  by (simp add: okR_def)

lemma SGD_Update_vecs:
  assumes "vecs p n Map.empty vec h" and "GetLearningRate M u step = Inr rate"
  defines "lr \<equiv> rate * learning_rate_multiplier (pproto p)"
    and "wd \<equiv> weight_decay u * weight_decay_multiplier (pproto p)"
    and "D \<equiv> the (pdata p)" and "G \<equiv> pgrad p" and "V \<equiv> phistory p"
  defines "gs \<equiv> decayed wd (vec D) (vec G)"
  defines "vs \<equiv> map2 (\<lambda>x y. x * momentum u - lr * y) (if step = 0 then replicate n 0 else vec V) gs"
  shows "okR (SGD_Update M u step p h) (\<lambda>h1. if 0 < momentum u
    then vecs p n Map.empty (vec(G := gs, V := vs, D := map2 (+) (vec D) vs)) h1
    else vecs p n Map.empty (vec(G := map (\<lambda>x. x * - lr) gs, D := map2 (+) (vec D) (map (\<lambda>x. x * - lr) gs))) h1)"
proof -
  have neq: "D \<noteq> G" "D \<noteq> V" "G \<noteq> V" and mem: "D \<in> blobs_of p" "G \<in> blobs_of p" "V \<in> blobs_of p"
    using assms(1) by (auto simp: vecs_def trainable_def blobs_of_def D_def G_def V_def)
  have drop: "vecs p n qs vec' h' \<Longrightarrow> vecs p n Map.empty vec' h'" for qs vec' h' by (simp add: vecs_def)
  show ?thesis
    unfolding SGD_Update_def Let_def lr_def [symmetric] wd_def [symmetric] G_def [symmetric] V_def [symmetric]
    apply (rule okR_bind, rule vecs_data [OF assms(1)], simp only: split_conv D_def [symmetric])
    apply (rule okR_bind, erule vecs_ptr [OF _ mem(2)], simp only: split_conv)
    apply (rule okR_bind, rule okR_rate [OF assms(2)], simp only: lr_def [symmetric])
    apply (rule okR_bind, erule vecs_decay [where b = G and c = D], simp, simp add: neq)
    apply (simp only: neq fun_upd_other fun_upd_same gs_def [symmetric] split: if_split)
    apply (intro conjI impI)
     apply (rule okR_bind, erule vecs_ptr [OF _ mem(3)], simp only: split_conv)
     apply (rule okR_bind, erule vecs_reset [where b = V], simp)
     apply (rule okR_bind, erule vecs_tensor2 [where b = V and a = V and c = G], simp, simp, simp add: neq)
     apply (erule vecs_tensor2 [where b = D and a = D and c = V], simp add: neq, simp add: neq, simp)
     apply (drule drop, simp add: vs_def neq neq [symmetric] cong: if_cong)
    apply (rule okR_bind, erule vecs_tensor1 [where b = G and a = G], simp, simp)
    apply (erule vecs_tensor2 [where b = D and a = D and c = G], simp add: neq, simp add: neq, simp)
    apply (drule drop, simp add: neq neq [symmetric])
    done
qed


lemma Nesterov_Update_vecs:
  assumes "vecs p n Map.empty vec h" and "GetLearningRate M u step = Inr rate"
  defines "lr \<equiv> rate * learning_rate_multiplier (pproto p)"
    and "wd \<equiv> weight_decay u * weight_decay_multiplier (pproto p)"
    and "D \<equiv> the (pdata p)" and "G \<equiv> pgrad p" and "V \<equiv> phistory p"
  defines "gs \<equiv> decayed wd (vec D) (vec G)" and "ws \<equiv> if step = 0 then replicate n 0 else vec V"
  defines "vs \<equiv> map2 (\<lambda>x y. x * momentum u + lr * y) ws gs"
  shows "okR (Nesterov_Update M u step p h) (vecs p n Map.empty (vec(G := gs, V := vs,
    D := map2 (-) (vec D) (map2 (\<lambda>x t. x * (1 + momentum u) - t * momentum u) vs ws))))"
proof -
  have neq: "D \<noteq> G" "D \<noteq> V" "G \<noteq> V" and mem: "D \<in> blobs_of p" "G \<in> blobs_of p" "V \<in> blobs_of p"
    using assms(1) by (auto simp: vecs_def trainable_def blobs_of_def D_def G_def V_def)
  have len: "length (vec D) = n" "length gs = n" "length ws = n"
    using vecs_length [OF assms(1)] mem by (auto simp: gs_def ws_def decayed_def)
  have drop: "vecs p n qs vec' h' \<Longrightarrow> vecs p n Map.empty vec' h'" for qs vec' h' by (simp add: vecs_def)
  show ?thesis
    unfolding Nesterov_Update_def Let_def lr_def [symmetric] wd_def [symmetric] G_def [symmetric] V_def [symmetric]
    apply (rule okR_bind, rule vecs_data [OF assms(1)], simp only: split_conv D_def [symmetric])
    apply (rule okR_bind, erule vecs_ptr [OF _ mem(2)], simp only: split_conv)
    apply (rule okR_bind, erule vecs_ptr [OF _ mem(3)], simp only: split_conv)
    apply (rule okR_bind, erule vecs_reset [where b = V], simp)
    apply (rule okR_bind, rule okR_rate [OF assms(2)], simp only: lr_def [symmetric] ws_def [symmetric])
    apply (rule okR_bind, erule vecs_decay [where b = G and c = D], simp add: neq, simp add: neq)
    apply (simp only: neq fun_upd_other fun_upd_same gs_def [symmetric] not_False_eq_True)
    apply (rule okR_bind, rule vecs_read [where b = V], assumption, simp)
    apply (rule okR_bind, erule vecs_tensor2 [where b = V and a = V and c = G], simp, simp, simp add: neq)
    apply (simp only: neq neq [symmetric] fun_upd_other fun_upd_same vs_def [symmetric] not_False_eq_True)
    apply (rule okR_bind, rule vecs_read [where b = V], assumption, simp)
    apply (rule okR_bind, rule vecs_read [where b = D], assumption, simp add: neq)
    apply (erule vecs_write [where b = D], simp add: neq, simp add: neq len vs_def)
    apply (drule drop, simp add: neq neq [symmetric] fun_upd_twist [of G V])
    done
qed

lemma scaled_update_vecs:
  fixes p :: "('f :: {zero, one, plus, minus, uminus, times, divide, ord}) Param" and acc :: "'f \<Rightarrow> 'f \<Rightarrow> 'f" and sc :: 'f
  assumes "vecs p n Map.empty vec h" and "GetLearningRate M u step = Inr rate"
  defines "lr \<equiv> rate * learning_rate_multiplier (pproto p)"
    and "wd \<equiv> weight_decay u * weight_decay_multiplier (pproto p)"
    and "D \<equiv> the (pdata p)" and "G \<equiv> pgrad p" and "V \<equiv> phistory p"
  defines "gs \<equiv> decayed wd (vec D) (vec G)" and "ws \<equiv> if step = 0 then replicate n 0 else vec V"
  defines "vs \<equiv> map2 (\<lambda>x y. acc x (y * sc)) ws (vec G)"
  shows "okR (scaled_update acc M u step p sc h) (vecs p n Map.empty (vec(G := gs, V := vs,
    D := map2 (-) (vec D) (map2 (\<lambda>x s. lr * x div sqrtf M (s + delta u)) gs vs))))"
proof -
  have neq: "D \<noteq> G" "D \<noteq> V" "G \<noteq> V" and mem: "D \<in> blobs_of p" "G \<in> blobs_of p" "V \<in> blobs_of p"
    using assms(1) by (auto simp: vecs_def trainable_def blobs_of_def D_def G_def V_def)
  have len: "length (vec D) = n" "length (vec G) = n" "length gs = n" "length ws = n"
    using vecs_length [OF assms(1)] mem by (auto simp: gs_def ws_def decayed_def)
  have drop: "vecs p n qs vec' h' \<Longrightarrow> vecs p n Map.empty vec' h'" for qs vec' h' by (simp add: vecs_def)
  show ?thesis
    unfolding scaled_update_def Let_def lr_def [symmetric] wd_def [symmetric] G_def [symmetric] V_def [symmetric]
    apply (rule okR_bind, rule vecs_data [OF assms(1)], simp only: split_conv D_def [symmetric])
    apply (rule okR_bind, erule vecs_ptr [OF _ mem(2)], simp only: split_conv)
    apply (rule okR_bind, erule vecs_ptr [OF _ mem(3)], simp only: split_conv)
    apply (rule okR_bind, erule vecs_reset [where b = V], simp)
    apply (rule okR_bind, erule vecs_tensor2 [where b = V and a = V and c = G], simp, simp, simp add: neq)
    apply (rule okR_bind, rule okR_rate [OF assms(2)], simp only: lr_def [symmetric] ws_def [symmetric])
    apply (rule okR_bind, erule vecs_decay [where b = G and c = D], simp add: neq, simp add: neq)
    apply (simp only: neq fun_upd_other fun_upd_same fun_upd_upd vs_def [symmetric] gs_def [symmetric] not_False_eq_True)
    apply (rule okR_bind, rule vecs_read [where b = G], assumption, simp add: neq)
    apply (rule okR_bind, rule vecs_read [where b = V], assumption, simp)
    apply (rule okR_bind, rule vecs_read [where b = D], assumption, simp add: neq)
    apply (erule vecs_write [where b = D], simp add: neq, simp add: neq neq [symmetric] len vs_def)
    apply (drule drop, simp add: neq neq [symmetric] fun_upd_twist [of G V])
    done
qed

section \<open>Properties\<close>

definition real_libm :: "real libm" where
  "real_libm = \<lparr>i2f = of_int, powf = (powr), sqrtf = sqrt\<rparr>"

text \<open>The gradient with the weight decay that the update adds to it.\<close>

definition full_grad :: "real Updater \<Rightarrow> real Param \<Rightarrow> real heap \<Rightarrow> nat \<Rightarrow> real" where
  "full_grad u p h j =
     (let wd = weight_decay u * weight_decay_multiplier (pproto p) in
      grad_of p h ! j + (if 0 < wd then data_of p h ! j * wd else 0))"

lemma decayed_nth:
  fixes wd :: real
  assumes "length ds = n" and "length gs = n" and "j < n"
  shows "decayed wd ds gs ! j = gs ! j + (if 0 < wd then ds ! j * wd else 0)"
  using assms by (simp add: decayed_def)

lemma trainable_vecs:
  assumes "trainable p h n"
  shows "length (data_of p h) = n" and "length (grad_of p h) = n" and "length (hist_of p h) = n"
  using trainable_blob(5) [OF assms] by (simp_all add: blobs_of_def data_of_def grad_of_def hist_of_def)

text \<open>How the update of the vectors reads off the heap.\<close>

lemma vecs_upd:
  assumes "trainable p h n" and "vecs p n qs ((contents h)(pgrad p := gs, phistory p := vs, the (pdata p) := ds)) h1"
  shows "trainable p h1 n" and "data_of p h1 = ds" and "grad_of p h1 = gs" and "hist_of p h1 = vs"
  using assms by (auto simp: vecs_def trainable_def data_of_def grad_of_def hist_of_def blobs_of_def)

lemma vecs_upd2:
  assumes "trainable p h n" and "vecs p n qs ((contents h)(pgrad p := gs, the (pdata p) := ds)) h1"
  shows "trainable p h1 n" and "data_of p h1 = ds" and "grad_of p h1 = gs" and "hist_of p h1 = hist_of p h"
  using assms by (auto simp: vecs_def trainable_def data_of_def grad_of_def hist_of_def blobs_of_def)

lemmas contents_of = data_of_def [symmetric] grad_of_def [symmetric] hist_of_def [symmetric]

lemma demo_trainable: "trainable (fst (demo_sized 2)) (snd (demo_sized 2)) 2"
proof -
  have sh: "shape_count [2] = Inr 2" by (simp add: shape_count_def is_c_int_def)
  have "wf_heap (snd (demo_sized 2))" using demo_sized_ok [of 2] by (simp add: param_in_def is_c_int_def)
  then show ?thesis
    by (simp add: trainable_def blobs_of_def demo_sized_def Param_Setup_def Blob_new_shape_def Blob_new_def
        Param_new_def Reshape_def sh heap0_def upd_blob_def SyncedMemory_new_def separate_def Let_def)
qed

definition demo_updater :: "real Updater" where
  "demo_updater = \<lparr>uproto = \<lparr>lr_change = kFixed, up_base_lr = 1, up_momentum = 1/2, up_weight_decay = 0,
     up_delta = 1, rmsprop_rho = 1/2, fixedstep_step = [], fixedstep_lr = [], step_gamma = 1, step_change_freq = 1,
     linear_change_freq = 1, linear_final_lr = 0, exponential_change_freq = 1, inverse_gamma = 1, inverse_pow = 0,
     inverset_final_lr = 1\<rparr>, base_lr = 1, momentum = 1/2, weight_decay = 0, delta = 1, rho = 1/2\<rparr>"

lemma demo_rate: "GetLearningRate real_libm demo_updater step = Inr 1"
  by (simp add: GetLearningRate_def demo_updater_def Let_def)

lemma demo_vectors:
  "hist_of (fst (demo_sized 2)) (snd (demo_sized 2)) = [0, 0]" "grad_of (fst (demo_sized 2)) (snd (demo_sized 2)) = [0, 0]"
  by (simp_all add: hist_of_def grad_of_def contents_def demo_sized_def Param_Setup_def Blob_new_shape_def Blob_new_def
      Param_new_def Reshape_def shape_count_def is_c_int_def heap0_def upd_blob_def SyncedMemory_new_def Let_def
      numeral_2_eq_2)

text \<open>A parameter with two floats whose gradient is \<open>[1, 2]\<close>.\<close>

lemma at_one: "(\<forall>j < (2 :: nat). P j) = (P 0 \<and> P 1)"
  by (auto simp: less_2_cases_iff)

lemma demo_graded:
  obtains h where "trainable (fst (demo_sized 2)) h 2" "data_of (fst (demo_sized 2)) h = [0, 0]"
    "grad_of (fst (demo_sized 2)) h = [1, 2]" "hist_of (fst (demo_sized 2)) h = [0, 0]"
    "learning_rate_multiplier (pproto (fst (demo_sized 2))) = 1"
proof -
  let ?p = "fst (demo_sized 2)" and ?h = "snd (demo_sized 2)"
  have b: "pgrad ?p \<in> blobs_of ?p" by (simp add: blobs_of_def)
  obtain q h1 where q: "mutable_cpu_data (pgrad ?p) ?h = Inr (q, h1)" "vecs ?p 2 [pgrad ?p \<mapsto> q] (contents ?h) h1"
    using vecs_ptr [OF vecs_start [OF demo_trainable] b, where Q = "\<lambda>(q, h1). vecs ?p 2 [pgrad ?p \<mapsto> q] (contents ?h) h1"]
    by (auto simp: okR_def)
  obtain h2 where h2: "vecs ?p 2 [pgrad ?p \<mapsto> q] ((contents ?h)(pgrad ?p := [1, 2])) h2"
    using vecs_write [OF q(2), where b = "pgrad ?p" and q = q and xs = "[1, 2]"
        and Q = "\<lambda>h2. vecs ?p 2 [pgrad ?p \<mapsto> q] ((contents ?h)(pgrad ?p := [1, 2])) h2"]
    by (auto simp: okR_def)
  have d: "data_of ?p ?h = [0, 0]" "learning_rate_multiplier (pproto ?p) = 1"
    by (simp_all add: demo_sized_def Param_Setup_def Blob_new_shape_def Blob_new_def Param_new_def Reshape_def
        shape_count_def is_c_int_def heap0_def upd_blob_def SyncedMemory_new_def Let_def ParamProto_default_def
        data_of_def contents_def numeral_2_eq_2)
  have "distinct [the (pdata ?p), pgrad ?p, phistory ?p]" using demo_trainable by (simp add: trainable_def)
  then show ?thesis
    using h2 d demo_vectors that [of h2] by (auto simp: vecs_def blobs_of_def data_of_def grad_of_def hist_of_def)
qed

text \<open>
  C20. The SGD update moves every coordinate by the negative gradient, weight decay included,
  times the learning rate; with momentum the step is the decayed last step minus that, and the
  history remembers it, starting from zero at step 0.
\<close>

theorem SGD_Update_moves:
  assumes "trainable p h n" and "GetLearningRate M u step = Inr rate"
  shows "\<exists>h1. SGD_Update M u step p h = Inr h1 \<and> trainable p h1 n \<and>
    (\<forall>j < n. let lr = rate * learning_rate_multiplier (pproto p);
       v = (if 0 < momentum u then (if step = 0 then 0 else hist_of p h ! j) * momentum u else 0)
         - lr * full_grad u p h j in
       data_of p h1 ! j = data_of p h ! j + v \<and> (0 < momentum u \<longrightarrow> hist_of p h1 ! j = v))"
proof -
  note len = trainable_vecs [OF assms(1)] and run = SGD_Update_vecs [OF vecs_start [OF assms(1)] assms(2)]
  show ?thesis
    unfolding okR_def [symmetric]
    apply (rule okR_mono [OF run])
    subgoal premises v for h1
    proof (cases "0 < momentum u")
      case True
      note r = vecs_upd [OF assms(1) v [unfolded if_P [OF True]]]
      show ?thesis using True len by (auto simp: r Let_def full_grad_def decayed_def contents_of)
    next
      case False
      note r = vecs_upd2 [OF assms(1) v [unfolded if_not_P [OF False]]]
      show ?thesis using False len by (auto simp: r Let_def full_grad_def decayed_def contents_of)
    qed
    done
qed

theorem SGD_Update_moves_witness:
  "\<exists>h h1. grad_of (fst (demo_sized 2)) h ! 1 = 2 \<and> data_of (fst (demo_sized 2)) h ! 1 = 0 \<and>
    SGD_Update real_libm demo_updater 3 (fst (demo_sized 2)) h = Inr h1 \<and>
    data_of (fst (demo_sized 2)) h1 ! 1 = - 2 \<and> hist_of (fst (demo_sized 2)) h1 ! 1 = - 2"
proof -
  obtain h where h: "trainable (fst (demo_sized 2)) h 2" "data_of (fst (demo_sized 2)) h = [0, 0]"
    "grad_of (fst (demo_sized 2)) h = [1, 2]" "hist_of (fst (demo_sized 2)) h = [0, 0]"
    "learning_rate_multiplier (pproto (fst (demo_sized 2))) = 1" by (rule demo_graded)
  show ?thesis using SGD_Update_moves [OF h(1) demo_rate, of 3] h
    by (intro exI [of "\<lambda>h. \<exists>h1. _ h h1" h]) (auto simp: at_one Let_def full_grad_def demo_updater_def)
qed

text \<open>
  C21. The Nesterov update is the classical look-ahead scheme in other coordinates: the point
  \<open>data + momentum * history\<close> moves by the new velocity, which is the decayed old one plus the
  gradient (taken at \<open>data\<close>) times the learning rate.
\<close>

theorem Nesterov_Update_lookahead:
  assumes "trainable p h n" and "GetLearningRate M u step = Inr rate"
  shows "\<exists>h1. Nesterov_Update M u step p h = Inr h1 \<and> trainable p h1 n \<and>
    (\<forall>j < n. let m = momentum u; lr = rate * learning_rate_multiplier (pproto p);
       v = (if step = 0 then 0 else hist_of p h ! j); v1 = hist_of p h1 ! j in
       v1 = m * v + lr * full_grad u p h j \<and>
       data_of p h1 ! j + m * v1 = data_of p h ! j + m * v - v1)"
proof -
  note len = trainable_vecs [OF assms(1)] and run = Nesterov_Update_vecs [OF vecs_start [OF assms(1)] assms(2)]
  show ?thesis
    unfolding okR_def [symmetric]
    apply (rule okR_mono [OF run])
    subgoal premises v for h1
      using len by (auto simp: vecs_upd [OF assms(1) v] Let_def full_grad_def decayed_def contents_of algebra_simps)
    done
qed

theorem Nesterov_Update_lookahead_witness:
  "\<exists>h h1. grad_of (fst (demo_sized 2)) h ! 1 = 2 \<and> data_of (fst (demo_sized 2)) h ! 1 = 0 \<and>
    Nesterov_Update real_libm demo_updater 3 (fst (demo_sized 2)) h = Inr h1 \<and>
    hist_of (fst (demo_sized 2)) h1 ! 1 = 2 \<and> data_of (fst (demo_sized 2)) h1 ! 1 = - 3"
proof -
  obtain h where h: "trainable (fst (demo_sized 2)) h 2" "data_of (fst (demo_sized 2)) h = [0, 0]"
    "grad_of (fst (demo_sized 2)) h = [1, 2]" "hist_of (fst (demo_sized 2)) h = [0, 0]"
    "learning_rate_multiplier (pproto (fst (demo_sized 2))) = 1" by (rule demo_graded)
  show ?thesis using Nesterov_Update_lookahead [OF h(1) demo_rate, of 3] h
    by (intro exI [of "\<lambda>h. \<exists>h1. _ h h1" h]) (auto simp: at_one Let_def full_grad_def demo_updater_def)
qed

lemma scaled_step_le:
  fixes l g w d :: real
  assumes "0 \<le> w" and "0 < d"
  shows "\<bar>l * g / sqrt (w + g * g + d)\<bar> \<le> \<bar>l\<bar>"
proof -
  have "\<bar>g\<bar> \<le> sqrt (w + g * g + d)" using assms by (intro real_le_rsqrt) (simp add: power2_eq_square)
  moreover have "0 < sqrt (w + g * g + d)" using assms by (simp add: add_nonneg_pos)
  ultimately have "\<bar>g\<bar> / sqrt (w + g * g + d) \<le> 1" by (simp add: divide_le_eq)
  then have "\<bar>l\<bar> * (\<bar>g\<bar> / sqrt (w + g * g + d)) \<le> \<bar>l\<bar>" by (rule mult_left_le) simp
  then show ?thesis using assms by (simp add: abs_mult)
qed



text \<open>
  RMSProp keeps a running mean of the squared scaled gradients: with \<open>rho\<close> between 0 and 1 the
  history stays between 0 and any bound on them.
\<close>

theorem RMSProp_history_bounded:
  fixes p :: "real Param"
  assumes "trainable p h n" and "GetLearningRate M u step = Inr rate" and "0 \<le> rho u" and "rho u \<le> 1"
    and "\<forall>v \<in> set (hist_of p h). 0 \<le> v \<and> v \<le> B" and "\<forall>g \<in> set (grad_of p h). (g * sc)\<^sup>2 \<le> B"
  shows "\<exists>h1. RMSProp_Update M u step p sc h = Inr h1 \<and> trainable p h1 n \<and>
    (\<forall>v \<in> set (hist_of p h1). 0 \<le> v \<and> v \<le> B)"
proof -
  note len = trainable_vecs [OF assms(1)] and run = scaled_update_vecs [OF vecs_start [OF assms(1)] assms(2)]
  have mix: "0 \<le> x * rho u + (1 - rho u) * y \<and> x * rho u + (1 - rho u) * y \<le> B"
    if "0 \<le> x" "x \<le> B" "0 \<le> y" "y \<le> B" for x y :: real
  proof
    show "0 \<le> x * rho u + (1 - rho u) * y" using that assms(3,4) by simp
    have "x * rho u + (1 - rho u) * y \<le> B * rho u + (1 - rho u) * B"
      using that assms(3,4) by (intro add_mono mult_right_mono mult_left_mono) simp_all
    then show "x * rho u + (1 - rho u) * y \<le> B" by (simp add: algebra_simps)
  qed
  show ?thesis
    unfolding okR_def [symmetric] RMSProp_Update_def
    apply (rule okR_mono [OF run])
    subgoal premises v for h1
    proof -
      note r = vecs_upd [OF assms(1) v, unfolded contents_of]
      have "0 \<le> hist_of p h1 ! j \<and> hist_of p h1 ! j \<le> B" if j: "j < n" for j
      proof -
        let ?w = "if step = 0 then 0 else hist_of p h ! j" and ?g = "grad_of p h ! j * sc"
        have g: "?g * ?g \<le> B" using assms(6) len(2) j by (simp add: power2_eq_square)
        moreover have "0 \<le> ?g * ?g" by (rule zero_le_square)
        ultimately have "0 \<le> B" by linarith
        then have "0 \<le> ?w \<and> ?w \<le> B" using assms(5) len(3) j by simp
        then have "0 \<le> ?w * rho u + (1 - rho u) * (?g * ?g) \<and> ?w * rho u + (1 - rho u) * (?g * ?g) \<le> B"
          using mix g zero_le_square [of ?g] by blast
        moreover have "hist_of p h1 ! j = ?w * rho u + (1 - rho u) * (?g * ?g)"
          using len j by (simp add: r)
        ultimately show ?thesis by simp
      qed
      moreover have "length (hist_of p h1) = n" by (rule trainable_vecs(3) [OF r(1)])
      ultimately show ?thesis using r(1) by (auto simp: in_set_conv_nth)
    qed
    done
qed

theorem RMSProp_history_bounded_witness:
  "\<exists>h h1. grad_of (fst (demo_sized 2)) h = [1, 2] \<and>
    RMSProp_Update real_libm demo_updater 3 (fst (demo_sized 2)) 1 h = Inr h1 \<and>
    list_all (\<lambda>v. 0 \<le> v \<and> v \<le> 4) (hist_of (fst (demo_sized 2)) h1)"
proof -
  obtain h where h: "trainable (fst (demo_sized 2)) h 2" "data_of (fst (demo_sized 2)) h = [0, 0]"
    "grad_of (fst (demo_sized 2)) h = [1, 2]" "hist_of (fst (demo_sized 2)) h = [0, 0]"
    "learning_rate_multiplier (pproto (fst (demo_sized 2))) = 1" by (rule demo_graded)
  show ?thesis using RMSProp_history_bounded [OF h(1) demo_rate, of 4 1 3] h
    by (intro exI [of "\<lambda>h. \<exists>h1. _ h h1" h]) (auto simp: demo_updater_def list_all_iff)
qed

text \<open>
  The fixed-step schedule is late: at a step equal to the first entry the rate is still 0,
  although \<open>job.proto\<close> says that \<open>step_lr[i]\<close> holds from \<open>step[i]\<close> on; before the first entry the
  rate is 0 whatever \<open>base_lr\<close> is.
\<close>

theorem fixed_step_starts_late:
  assumes "lr_change (uproto u) = kFixedStep" and "fixedstep_step (uproto u) = s # ss"
    and "\<forall>t \<in> set ss. s < t" and "step \<le> s"
  shows "GetLearningRate M u step = Inr 0"
proof -
  have "fixed_step step ts ls r = Inr r" if "\<forall>t \<in> set ts. step \<le> t" for ts ls and r :: 'a
    using that by (induction ts arbitrary: ls) auto
  then show ?thesis using assms by (force simp: GetLearningRate_def Let_def)
qed

definition stepped_updater :: "real Updater" where
  "stepped_updater = demo_updater\<lparr>uproto := (uproto demo_updater)\<lparr>lr_change := kFixedStep,
     fixedstep_step := [0, 100], fixedstep_lr := [1, 1/2]\<rparr>\<rparr>"

theorem fixed_step_starts_late_witness: "GetLearningRate real_libm stepped_updater 0 = Inr 0"
  by (rule fixed_step_starts_late [where s = 0 and ss = "[100]"]) (simp_all add: stepped_updater_def)

end
