(* ===== verification/Socket.thy ===== *)
theory Socket
  imports Msg "HOL-Library.AList"
begin

text \<open>
  Model of \<open>src/include/communication/socket.h\<close> and \<open>src/src/communication/socket.cc\<close>: the
  poller, the dealer sockets of workers and servers and the router socket of the stub.

  The sockets of czmq are outside the program: what \<open>zmsg_recv\<close>, \<open>zpoller_wait\<close>, \<open>zsock_connect\<close> and
  \<open>zsock_bind\<close> return is an argument, and what \<open>zmsg_send\<close> is given is appended to the output of
  the socket (\<open>rout\<close>, paired with the identity frame the router prepends). A \<open>zmsg_t\<close> is a list of
  frames. The properties say which messages leave a router, to whom and in which order.
\<close>

type_synonym ('f, 'p) zmsg = "('f, 'p) frame list"

section \<open>Poller\<close>

record ('z, 's) Poller =
  zsock2Socket :: "('z \<times> 's) list"

definition Poller_new :: "('z, 's) Poller" where
  "Poller_new = \<lparr>zsock2Socket = []\<rparr>"

definition Poller_Add :: "'z \<Rightarrow> 's \<Rightarrow> ('z, 's) Poller \<Rightarrow> ('z, 's) Poller" where
  "Poller_Add zsock sock p = p\<lparr>zsock2Socket := AList.update zsock sock (zsock2Socket p)\<rparr>"

text \<open>
  \<open>ready\<close> is what \<open>zpoller_wait\<close> returned. A socket that was never added is found as the null
  pointer that \<open>operator[]\<close> creates.
\<close>

definition Poller_Wait :: "'z option \<Rightarrow> ('z, 's) Poller \<Rightarrow> 's option" where
  "Poller_Wait ready p = (case ready of None \<Rightarrow> None | Some z \<Rightarrow> map_of (zsock2Socket p) z)"

section \<open>Dealer\<close>

record ('f, 'p) Dealer =
  dealer_id :: int
  dout :: "('f, 'p) zmsg list"

definition Dealer_new :: "int \<Rightarrow> ('f, 'p) Dealer" where
  "Dealer_new i = \<lparr>dealer_id = i, dout = []\<rparr>"

text \<open>\<open>rc\<close> is the result of \<open>zsock_connect\<close>.\<close>

definition Dealer_Connect :: "string \<Rightarrow> int \<Rightarrow> int res" where
  "Dealer_Connect endpoint rc =
     checkR (endpoint \<noteq> []) CheckFailed (checkR (rc = 0) CheckFailed (Inr 1))"

definition Dealer_Send :: "('f, 'p) Msg \<Rightarrow> ('f, 'p) Dealer \<Rightarrow> ('f, 'p) Dealer" where
  "Dealer_Send m d = d\<lparr>dout := dout d @ [DumpToZmsg m]\<rparr>"

definition Dealer_Receive :: "('f, 'p) zmsg option \<Rightarrow> ('f, 'p) Msg option res" where
  "Dealer_Receive z =
     (case z of
        None \<Rightarrow> Inr None
      | Some zm \<Rightarrow> bindR (ParseFromZmsg zm (Msg_new 0 0)) (\<lambda>m. Inr (Some m)))"

section \<open>Router\<close>

record ('a, 'f, 'p) Router =
  nBufmsg :: int
  bufsize :: int
  id2addr :: "(int \<times> 'a) list"
  bufmsg :: "(int \<times> ('f, 'p) zmsg list) list"
  rout :: "('a \<times> ('f, 'p) zmsg) list"

definition Router_new :: "int \<Rightarrow> ('a, 'f, 'p) Router" where
  "Router_new n = \<lparr>nBufmsg = 0, bufsize = n, id2addr = [], bufmsg = [], rout = []\<rparr>"

text \<open>\<open>rc\<close> is the result of \<open>zsock_bind\<close>, a port or -1.\<close>

definition Router_Bind :: "string \<Rightarrow> int \<Rightarrow> int res" where
  "Router_Bind endpoint rc =
     (let port = (if endpoint \<noteq> [] then rc else - 1) in checkR (port \<noteq> - 1) CheckFailed (Inr port))"

definition buffered :: "int \<Rightarrow> ('a, 'f, 'p) Router \<Rightarrow> ('f, 'p) zmsg list" where
  "buffered i r = (case map_of (bufmsg r) i of None \<Rightarrow> [] | Some zs \<Rightarrow> zs)"

definition Router_Send :: "('f, 'p) Msg \<Rightarrow> ('a, 'f, 'p) Router \<Rightarrow> ('a, 'f, 'p) Router res" where
  "Router_Send m r =
     (let zmsg = DumpToZmsg m; dstid = msg_dst m in
      case map_of (id2addr r) dstid of
        Some addr \<Rightarrow> Inr (r\<lparr>rout := rout r @ [(addr, zmsg)]\<rparr>)
      | None \<Rightarrow>
          (let n = (if bufmsg r = [] then 0 else nBufmsg r) + 1 in
           checkR (n \<le> bufsize r) CheckFailed
             (Inr (r\<lparr>nBufmsg := n, bufmsg := AList.update dstid (buffered dstid r @ [zmsg]) (bufmsg r)\<rparr>))))"

text \<open>\<open>received\<close> is what \<open>zmsg_recv\<close> returned: the identity frame of the sender and the message.\<close>

definition Router_Receive ::
  "('a \<times> ('f, 'p) zmsg) option \<Rightarrow> ('a, 'f, 'p) Router \<Rightarrow> (('f, 'p) Msg \<times> ('a, 'f, 'p) Router) res" where
  "Router_Receive received r =
     (case received of
        None \<Rightarrow> Inl Exited
      | Some (dealer, zmsg) \<Rightarrow>
          bindR (ParseFromZmsg zmsg (Msg_new 0 0)) (\<lambda>m.
            case map_of (id2addr r) (msg_src m) of
              Some addr \<Rightarrow> Inr (m, r)
            | None \<Rightarrow>
                Inr (m, r\<lparr>id2addr := AList.update (msg_src m) dealer (id2addr r),
                  rout := rout r @ map (\<lambda>z. (dealer, z)) (buffered (msg_src m) r),
                  bufmsg := AList.delete (msg_src m) (bufmsg r)\<rparr>)))"

section \<open>Delivery\<close>

text \<open>One event of a socket: a message is sent (\<open>Inl\<close>) or something arrives (\<open>Inr\<close>).\<close>

definition event :: "('m \<Rightarrow> 's \<Rightarrow> 's res) \<Rightarrow> ('c \<Rightarrow> 's \<Rightarrow> ('m \<times> 's) res) \<Rightarrow> 's \<Rightarrow> 'm + 'c \<Rightarrow> 's res" where
  "event send connect s e =
     (case e of Inl m \<Rightarrow> send m s | Inr c \<Rightarrow> bindR (connect c s) (\<lambda>(_, s1). Inr s1))"

definition sent_msgs :: "('m + 'c) list \<Rightarrow> 'm list" where
  "sent_msgs es = concat (map (\<lambda>e. case e of Inl m \<Rightarrow> [m] | Inr _ \<Rightarrow> []) es)"

text \<open>
  The contract of a store-and-forward socket: \<open>out d\<close> is what it has passed on for \<open>d\<close> and
  \<open>held d\<close> what it keeps for \<open>d\<close>. A message that is sent is appended to one of them, and a
  connection moves everything held for its address to the output.
\<close>

locale store_forward =
  fixes send :: "'m \<Rightarrow> 's \<Rightarrow> 's res" and connect :: "'c \<Rightarrow> 's \<Rightarrow> ('m \<times> 's) res"
    and dest :: "'m \<Rightarrow> 'd" and image :: "'m \<Rightarrow> 'z"
    and out :: "'d \<Rightarrow> 's \<Rightarrow> 'z list" and held :: "'d \<Rightarrow> 's \<Rightarrow> 'z list" and inv :: "'s \<Rightarrow> bool"
  assumes send_stream: "\<And>m s s1 d. inv s \<Longrightarrow> send m s = Inr s1 \<Longrightarrow>
      out d s1 @ held d s1 = out d s @ held d s @ (if d = dest m then [image m] else [])"
    and send_inv: "\<And>m s s1. inv s \<Longrightarrow> send m s = Inr s1 \<Longrightarrow> inv s1"
    and connect_stream: "\<And>c s m s1 d. inv s \<Longrightarrow> connect c s = Inr (m, s1) \<Longrightarrow>
      out d s1 @ held d s1 = out d s @ held d s"
    and connect_inv: "\<And>c s m s1. inv s \<Longrightarrow> connect c s = Inr (m, s1) \<Longrightarrow> inv s1"
begin

lemma event_stream:
  assumes "inv s" and "event send connect s e = Inr s1"
  shows "inv s1" and "out d s1 @ held d s1 = out d s @ held d s @ map image (filter (\<lambda>m. dest m = d) (sent_msgs [e]))"
proof -
  have "inv s1 \<and> out d s1 @ held d s1 = out d s @ held d s @ map image (filter (\<lambda>m. dest m = d) (sent_msgs [e]))"
  proof (cases e)
    case (Inl m)
    then have "send m s = Inr s1" using assms(2) by (simp add: event_def)
    then show ?thesis
      using send_stream [OF assms(1), of m s1 d] send_inv [OF assms(1), of m s1] Inl by (simp add: sent_msgs_def)
  next
    case (Inr c)
    then obtain m where "connect c s = Inr (m, s1)" using assms(2) by (auto simp: event_def bindR_eq_Inr)
    then show ?thesis
      using connect_stream [OF assms(1), of c m s1 d] connect_inv [OF assms(1), of c m s1] Inr by (simp add: sent_msgs_def)
  qed
  then show "inv s1"
    and "out d s1 @ held d s1 = out d s @ held d s @ map image (filter (\<lambda>m. dest m = d) (sent_msgs [e]))"
    by simp_all
qed

lemma run_stream:
  assumes "inv s" and "foldR (event send connect) s es = Inr s1"
  shows "inv s1 \<and> out d s1 @ held d s1 =
    out d s @ held d s @ map image (filter (\<lambda>m. dest m = d) (sent_msgs es))"
  using assms
proof (induction es arbitrary: s)
  case (Cons e es)
  then obtain t where t: "event send connect s e = Inr t" "foldR (event send connect) t es = Inr s1"
    by (auto simp: bindR_eq_Inr)
  note ev = event_stream [OF Cons.prems(1) t(1)]
  have "sent_msgs (e # es) = sent_msgs [e] @ sent_msgs es" by (simp add: sent_msgs_def)
  then show ?case using Cons.IH [OF ev(1) t(2)] ev(2) [of d] by simp
qed (simp add: sent_msgs_def)

end

text \<open>
  The destination that the header of a \<open>zmsg_t\<close> names, and what the router has passed on for an
  address.
\<close>

definition zdst :: "('f, 'p) zmsg \<Rightarrow> int option" where
  "zdst z = (case ParseFromZmsg z (Msg_new 0 0) of Inl _ \<Rightarrow> None | Inr m \<Rightarrow> Some (msg_dst m))"

lemma zdst_Dump: "zdst (DumpToZmsg m) = Some (msg_dst m)"
  by (simp add: zdst_def zmsg_roundtrip FirstFrame_def frame_at_def Let_def)

definition routed :: "int \<Rightarrow> ('a, 'f, 'p) Router \<Rightarrow> ('f, 'p) zmsg list" where
  "routed d r = map snd (filter (\<lambda>(a, z). zdst z = Some d) (rout r))"

definition wf_router :: "('a, 'f, 'p) Router \<Rightarrow> bool" where
  "wf_router r \<longleftrightarrow> distinct (map fst (bufmsg r)) \<and>
     (\<forall>(d, zs) \<in> set (bufmsg r). map_of (id2addr r) d = None \<and> (\<forall>z \<in> set zs. zdst z = Some d)) \<and>
     (\<forall>(a, z) \<in> set (rout r). \<exists>d. zdst z = Some d \<and> map_of (id2addr r) d = Some a) \<and>
     int (sum_list (map (length \<circ> snd) (bufmsg r))) \<le> nBufmsg r \<and> nBufmsg r \<le> max 0 (bufsize r)"

abbreviation load :: "(int \<times> ('f, 'p) zmsg list) list \<Rightarrow> nat" where
  "load b \<equiv> sum_list (map (length \<circ> snd) b)"

lemma load_update:
  "load (AList.update d (zs @ [z]) b) = load b + 1" if "zs = (case map_of b d of None \<Rightarrow> [] | Some ys \<Rightarrow> ys)"
  using that by (induction b) auto

lemma load_delete: "load (AList.delete d b) \<le> load b"
  by (induction b) (auto simp: AList.delete_eq)

lemma buffered_update:
  "bufmsg r1 = AList.update d zs (bufmsg r) \<Longrightarrow> buffered e r1 = (if e = d then zs else buffered e r)"
  by (simp add: buffered_def update_conv')

lemma buffered_delete:
  "bufmsg r1 = AList.delete d (bufmsg r) \<Longrightarrow> buffered e r1 = (if e = d then [] else buffered e r)"
  by (simp add: buffered_def delete_conv')

lemma wf_router_buffered:
  assumes "wf_router r" and "buffered d r \<noteq> []"
  shows "map_of (id2addr r) d = None" and "\<forall>z \<in> set (buffered d r). zdst z = Some d"
proof -
  obtain zs where "map_of (bufmsg r) d = Some zs" using assms(2) by (auto simp: buffered_def split: option.splits)
  then have "(d, zs) \<in> set (bufmsg r)" "buffered d r = zs" by (auto simp: buffered_def dest: map_of_SomeD)
  then show "map_of (id2addr r) d = None" "\<forall>z \<in> set (buffered d r). zdst z = Some d"
    using assms(1) by (auto simp: wf_router_def)
qed

lemma set_update_alist: "x \<in> set (AList.update k v xs) \<Longrightarrow> x = (k, v) \<or> x \<in> set xs"
  by (induction xs) (auto split: if_splits)

lemma Router_Send_wf:
  assumes "wf_router r" and "Router_Send m r = Inr r1"
  shows "wf_router r1"
proof (cases "map_of (id2addr r) (msg_dst m)")
  case (Some a)
  then have "r1 = r\<lparr>rout := rout r @ [(a, DumpToZmsg m)]\<rparr>" using assms(2) by (simp add: Router_Send_def)
  then show ?thesis using assms(1) Some by (simp add: wf_router_def zdst_Dump)
next
  case None
  let ?n = "(if bufmsg r = [] then 0 else nBufmsg r) + 1"
  let ?b = "AList.update (msg_dst m) (buffered (msg_dst m) r @ [DumpToZmsg m]) (bufmsg r)"
  have r1: "r1 = r\<lparr>nBufmsg := ?n, bufmsg := ?b\<rparr>" "?n \<le> bufsize r"
    using assms(2) None by (auto simp: Router_Send_def Let_def checkR_eq_Inr)
  have zs: "\<forall>z \<in> set (buffered (msg_dst m) r). zdst z = Some (msg_dst m)"
    using wf_router_buffered(2) [OF assms(1)] by (cases "buffered (msg_dst m) r = []") auto
  have "map_of (id2addr r) d = None \<and> (\<forall>z \<in> set ys. zdst z = Some d)" if "(d, ys) \<in> set ?b" for d ys
    using set_update_alist [OF that] None zs assms(1) by (auto simp: wf_router_def zdst_Dump)
  moreover have "load ?b = load (bufmsg r) + 1" by (rule load_update) (simp add: buffered_def)
  ultimately show ?thesis
    using assms(1) r1 by (auto simp: wf_router_def distinct_update)
qed

lemma Router_Receive_new:
  assumes "Router_Receive (Some (a, z)) r = Inr (m, r1)" and "map_of (id2addr r) (msg_src m) = None"
  shows "r1 = r\<lparr>id2addr := AList.update (msg_src m) a (id2addr r),
    rout := rout r @ map (\<lambda>z. (a, z)) (buffered (msg_src m) r), bufmsg := AList.delete (msg_src m) (bufmsg r)\<rparr>"
proof -
  obtain m' where "ParseFromZmsg z (Msg_new 0 0) = Inr m'" using assms(1) by (auto simp: Router_Receive_def bindR_eq_Inr)
  moreover from this have "m' = m" using assms(1) by (auto simp: Router_Receive_def split: option.splits)
  ultimately show ?thesis using assms by (simp add: Router_Receive_def)
qed

lemma Router_Receive_wf:
  assumes "wf_router r" and "Router_Receive rc r = Inr (m, r1)"
  shows "wf_router r1"
proof -
  obtain a z where rc: "rc = Some (a, z)" using assms(2) by (cases rc) (auto simp: Router_Receive_def)
  show ?thesis
  proof (cases "map_of (id2addr r) (msg_src m)")
    case (Some b)
    then show ?thesis using assms rc by (auto simp: Router_Receive_def bindR_eq_Inr split: option.splits)
  next
    case None
    note r1 = Router_Receive_new [OF assms(2) [unfolded rc] None]
    have zs: "\<forall>z \<in> set (buffered (msg_src m) r). zdst z = Some (msg_src m)"
      using wf_router_buffered(2) [OF assms(1)] by (cases "buffered (msg_src m) r = []") auto
    have out: "\<exists>d. zdst z = Some d \<and> map_of (id2addr r1) d = Some b" if "(b, z) \<in> set (rout r1)" for b z
      using that r1 zs None assms(1) by (fastforce simp: wf_router_def update_conv')
    have buf: "map_of (id2addr r1) d = None \<and> (\<forall>z \<in> set ys. zdst z = Some d)" if "(d, ys) \<in> set (bufmsg r1)" for d ys
      using that r1 assms(1) by (auto simp: wf_router_def update_conv' AList.delete_eq)
    have "load (bufmsg r1) \<le> load (bufmsg r)" using r1 load_delete by simp
    then show ?thesis
      using out buf assms(1) r1 by (auto simp: wf_router_def distinct_delete)
  qed
qed

lemma Router_Send_stream:
  assumes "wf_router r" and "Router_Send m r = Inr r1"
  shows "routed d r1 @ buffered d r1 = routed d r @ buffered d r @ (if d = msg_dst m then [DumpToZmsg m] else [])"
proof (cases "map_of (id2addr r) (msg_dst m)")
  case (Some a)
  then have "r1 = r\<lparr>rout := rout r @ [(a, DumpToZmsg m)]\<rparr>" using assms(2) by (simp add: Router_Send_def)
  moreover have "buffered (msg_dst m) r = []" using wf_router_buffered(1) [OF assms(1)] Some by fastforce
  ultimately show ?thesis by (auto simp: routed_def zdst_Dump buffered_def)
next
  case None
  then show ?thesis
    using assms(2) by (auto simp: Router_Send_def Let_def checkR_eq_Inr routed_def buffered_def update_conv')
qed

lemma Router_Receive_stream:
  assumes "wf_router r" and "Router_Receive rc r = Inr (m, r1)"
  shows "routed d r1 @ buffered d r1 = routed d r @ buffered d r"
proof -
  obtain a z where rc: "rc = Some (a, z)" using assms(2) by (cases rc) (auto simp: Router_Receive_def)
  show ?thesis
  proof (cases "map_of (id2addr r) (msg_src m)")
    case (Some b)
    then show ?thesis using assms rc by (auto simp: Router_Receive_def bindR_eq_Inr split: option.splits)
  next
    case None
    have r1: "rout r1 = rout r @ map (\<lambda>z. (a, z)) (buffered (msg_src m) r)"
      "bufmsg r1 = AList.delete (msg_src m) (bufmsg r)"
      using Router_Receive_new [OF assms(2) [unfolded rc] None] by simp_all
    have zs: "\<forall>z \<in> set (buffered (msg_src m) r). zdst z = Some (msg_src m)"
      using wf_router_buffered(2) [OF assms(1)] by (cases "buffered (msg_src m) r = []") auto
    then have "filter (\<lambda>z. zdst z = Some d) (buffered (msg_src m) r) = (if d = msg_src m then buffered (msg_src m) r else [])"
      by (auto simp: filter_id_conv filter_empty_conv)
    then have "routed d r1 = routed d r @ (if d = msg_src m then buffered (msg_src m) r else [])"
      using r1(1) by (simp add: routed_def filter_map comp_def)
    then show ?thesis using buffered_delete [OF r1(2)] by simp
  qed
qed

interpretation router: store_forward Router_Send Router_Receive msg_dst DumpToZmsg routed buffered wf_router
  by unfold_locales (fact Router_Send_stream Router_Send_wf Router_Receive_stream Router_Receive_wf)+


section \<open>Properties\<close>

lemma wf_Router_new: "wf_router (Router_new n)"
  by (simp add: wf_router_def Router_new_def)

text \<open>
  C14. A router loses, duplicates and reorders nothing: after any sequence of sends and arrivals,
  what it has passed on for an address followed by what it holds for it is the messages sent to
  that address, in order; it holds messages only for addresses that have not connected, passes on
  to the identity that connected under the address, and never holds more than its buffer size.
\<close>

theorem Router_delivers_in_order:
  fixes r :: "('a, 'f, 'p) Router"
  assumes "foldR (event Router_Send Router_Receive) (Router_new n) es = Inr r"
  shows "routed d r @ buffered d r = map DumpToZmsg (filter (\<lambda>m. msg_dst m = d) (sent_msgs es)) \<and>
    (buffered d r \<noteq> [] \<longrightarrow> map_of (id2addr r) d = None) \<and>
    (\<forall>(a, z) \<in> set (rout r). zdst z = Some d \<longrightarrow> map_of (id2addr r) d = Some a) \<and>
    int (length (buffered d r)) \<le> max 0 (bufsize r)"
proof -
  have run: "wf_router r" "routed d r @ buffered d r =
      routed d (Router_new n :: ('a, 'f, 'p) Router) @ buffered d (Router_new n :: ('a, 'f, 'p) Router) @
      map DumpToZmsg (filter (\<lambda>m. msg_dst m = d) (sent_msgs es))"
    using router.run_stream [OF wf_Router_new assms, of d] by auto
  have "length (buffered d r) \<le> load (bufmsg r)"
  proof (cases "map_of (bufmsg r) d")
    case (Some zs)
    then have "length zs \<in> set (map (length \<circ> snd) (bufmsg r))" by (force dest: map_of_SomeD)
    then show ?thesis using member_le_sum_list [of "length zs"] Some by (simp add: buffered_def)
  qed (simp add: buffered_def)
  moreover have "int (load (bufmsg r)) \<le> max 0 (bufsize r)" using run(1) by (simp add: wf_router_def)
  ultimately have "int (length (buffered d r)) \<le> max 0 (bufsize r)" by linarith
  moreover have "\<forall>(a, z) \<in> set (rout r). zdst z = Some d \<longrightarrow> map_of (id2addr r) d = Some a"
    using run(1) by (fastforce simp: wf_router_def)
  moreover have "routed d (Router_new n :: ('a, 'f, 'p) Router) = []" "buffered d (Router_new n :: ('a, 'f, 'p) Router) = []"
    by (simp_all add: routed_def buffered_def Router_new_def)
  ultimately show ?thesis using run wf_router_buffered(1) by auto
qed

text \<open>Two messages to a server that connects after the first.\<close>

definition to_addr :: "int \<Rightarrow> int \<Rightarrow> (unit, unit) Msg" where
  "to_addr d v = (Msg_new 0 d)\<lparr>msg_type := kGet, trgt_version := v\<rparr>"

definition hello :: "int \<Rightarrow> (unit, unit) zmsg" where
  "hello s = DumpToZmsg ((Msg_new s 0)\<lparr>msg_type := kConnect\<rparr>)"

definition late_server :: "((unit, unit) Msg + (nat \<times> (unit, unit) zmsg) option) list" where
  "late_server = [Inl (to_addr 7 1), Inr (Some (42, hello 7)), Inl (to_addr 7 2)]"

definition late_router :: "(nat, unit, unit) Router" where
  "late_router = \<lparr>nBufmsg = 1, bufsize = 2, id2addr = [(7, 42)], bufmsg = [],
     rout = [(42, DumpToZmsg (to_addr 7 1)), (42, DumpToZmsg (to_addr 7 2))]\<rparr>"

lemma Router_Receive_hello:
  "Router_Receive (Some (a, hello s)) r =
     (let m = FirstFrame ((Msg_new s 0)\<lparr>msg_type := kConnect\<rparr>) in
      case map_of (id2addr r) s of
        Some addr \<Rightarrow> Inr (m, r)
      | None \<Rightarrow> Inr (m, r\<lparr>id2addr := AList.update s a (id2addr r),
          rout := rout r @ map (\<lambda>z. (a, z)) (buffered s r), bufmsg := AList.delete s (bufmsg r)\<rparr>))"
proof -
  have "msg_src (FirstFrame ((Msg_new s 0 :: (unit, unit) Msg)\<lparr>msg_type := kConnect\<rparr>)) = s"
    by (simp add: FirstFrame_def frame_at_def Let_def Msg_new_def)
  then show ?thesis by (simp add: Router_Receive_def hello_def zmsg_roundtrip Let_def split: option.split)
qed

lemma dst_to_addr: "msg_dst (to_addr d v) = d"
  by (simp add: to_addr_def Msg_new_def)

lemmas router_run = event_def Router_Send_def Router_Receive_hello Router_new_def Let_def buffered_def
  dst_to_addr AList.delete_eq

lemma late_run: "foldR (event Router_Send Router_Receive) (Router_new 2) late_server = Inr late_router"
  by (simp add: late_server_def late_router_def router_run)

theorem Router_delivers_in_order_witness:
  "foldR (event Router_Send Router_Receive) (Router_new 2) late_server = Inr late_router \<and>
    routed 7 late_router @ buffered 7 late_router = [DumpToZmsg (to_addr 7 1), DumpToZmsg (to_addr 7 2)]"
  using Router_delivers_in_order [OF late_run, of 7] late_run
  by (simp add: late_server_def sent_msgs_def dst_to_addr)

text \<open>
  The count of buffered messages is not taken back when they are delivered while others
  wait: a router for two messages aborts on the third address although only one message waits.
\<close>

theorem Router_aborts_with_room:
  "\<exists>r. foldR (event Router_Send Router_Receive) (Router_new 2)
      [Inl (to_addr 7 1), Inl (to_addr 8 1), Inr (Some (42 :: nat, hello 7))] = Inr r \<and>
    map snd (bufmsg r) = [[DumpToZmsg (to_addr 8 1)]] \<and> bufsize r = 2 \<and>
    Router_Send (to_addr 9 1) r = Inl CheckFailed"
  by (simp add: router_run)

end
