(* ===== verification/Server.thy ===== *)
theory Server
  imports Updater Cluster
begin

text \<open>
  Model of \<open>src/include/trainer/server.h\<close> and \<open>src/src/trainer/server.cc\<close>: the thread that keeps
  slices of the parameters, answers put, get and update requests and synchronises its slices with
  the other server groups.

  The state is split as the code splits it: \<open>Server\<close> holds the members of the object, \<open>store\<close> what the
  threads of a process share (the \<open>Param\<close> objects by address, the heap and the map from slices to
  entries), \<open>loop_state\<close> the local variables of \<open>Run\<close>. A handler returns the changed parts and the
  messages it sends; \<open>server_step\<close> is one iteration of the receive loop. Handlers are atomic here.
\<close>

section \<open>State\<close>

record 'f store =
  params :: "nat \<Rightarrow> 'f Param"
  nparam :: nat
  mem :: "'f heap"
  server_shard :: "int \<rightharpoonup> ParamEntry"

record 'f Server =
  thread_id :: int
  grp_id :: int
  server_id :: int
  updater :: "'f Updater"
  slice2group :: "int list"
  last_data :: "int \<rightharpoonup> nat"
  buffer_requests :: "int \<Rightarrow> 'f msg list"

record loop_state =
  master_params :: "nat list"
  syncEntry :: nat

definition set_param :: "nat \<Rightarrow> 'f Param \<Rightarrow> 'f store \<Rightarrow> 'f store" where
  "set_param a p st = st\<lparr>params := (params st)(a := p)\<rparr>"

text \<open>The constructor, and \<open>Setup\<close>; the updater that the factory makes is an \<open>SGDUpdater\<close>.\<close>

definition Server_new :: "int \<Rightarrow> int \<Rightarrow> int \<Rightarrow> 'f Updater \<Rightarrow> 'f Server" where
  "Server_new t g i u0 = \<lparr>thread_id = t, grp_id = g, server_id = i, updater = u0, slice2group = [],
     last_data = Map.empty, buffer_requests = (\<lambda>_. [])\<rparr>"

definition Server_Setup :: "'f UpdaterProto \<Rightarrow> int list \<Rightarrow> 'f Server \<Rightarrow> 'f Server res" where
  "Server_Setup proto s2g s =
     bindR (SGD_Init proto (updater s)) (\<lambda>u. Inr (s\<lparr>updater := u, slice2group := s2g\<rparr>))"

text \<open>\<open>shard_->at(slice)->shares.at(0)\<close>.\<close>

definition entry_at :: "int \<Rightarrow> 'f store \<Rightarrow> ParamEntry res" where
  "entry_at slc st = (case server_shard st slc of None \<Rightarrow> Inl OutOfRange | Some e \<Rightarrow> Inr e)"

definition slice_param :: "int \<Rightarrow> 'f store \<Rightarrow> nat res" where
  "slice_param slc st = bindR (entry_at slc st) (\<lambda>e. atR (shares e) 0)"

section \<open>Put\<close>

text \<open>
  The second constructor of \<open>ParamEntry\<close>: \<open>raw\<close> is the fresh memory, whose \<open>next_version\<close> and
  \<open>num_local\<close> stay as they are.
\<close>

definition ParamEntry_put :: "ParamEntry \<Rightarrow> int \<Rightarrow> nat \<Rightarrow> ParamEntry" where
  "ParamEntry_put raw tot a = raw\<lparr>num_update := 0, num_total := tot, shares := [a]\<rparr>"

text \<open>The number of shares, from the frame that the stub appended.\<close>

definition put_shares :: "'f msg \<Rightarrow> int res" where
  "put_shares m =
     bindR (NextFrame m) (\<lambda>(more, m1). if more then parse_copy m1 else Inr 1)"

text \<open>The copy of a slice that another group masters.\<close>

definition keep_last :: "int \<Rightarrow> 'f Param \<Rightarrow> 'f Server \<Rightarrow> ('f :: zero) heap \<Rightarrow> ('f Server \<times> 'f heap) res" where
  "keep_last slc p s h =
     (let (b, h1) = Blob_new h in
      bindR (data_blob p) (\<lambda>d.
      bindR (ReshapeLike b d h1) (\<lambda>h2.
      bindR (CopyFrom b d False h2) (\<lambda>h3.
        Inr (s\<lparr>last_data := (last_data s)(slc \<mapsto> b)\<rparr>, h3)))))"

definition Server_HandlePut ::
  "ClusterProto \<Rightarrow> ParamEntry \<Rightarrow> 'f msg \<Rightarrow> 'f Server \<Rightarrow> ('f :: {zero, one, uminus}) store \<Rightarrow> ('f Server \<times> 'f store) res" where
  "Server_HandlePut conf raw m s st =
     (let version = trgt_version m; slc = SliceID (trgt_val m); a = nparam st in
      checkR (server_shard st slc = None) CheckFailed
      (let (p0, h0) = Param_new (mem st) in
       bindR (HandlePutMsg m p0 h0) (\<lambda>(m1, p1, h1).
       bindR (put_shares m1) (\<lambda>num_shares.
       bindR (param_set_version version p1 h1) (\<lambda>h2.
       let p2 = set_id slc (p1\<lparr>local_version := version\<rparr>) in
       bindR
         (if 1 < nserver_groups conf then
            bindR (idxR (slice2group s) slc) (\<lambda>g. if g \<noteq> grp_id s then keep_last slc p2 s h2 else Inr (s, h2))
          else Inr (s, h2))
         (\<lambda>(s1, h3).
           Inr (s1, st\<lparr>params := (params st)(a := p2), nparam := a + 1, mem := h3,
             server_shard := (server_shard st)(slc \<mapsto> ParamEntry_put raw num_shares a)\<rparr>)))))))"

section \<open>Get\<close>

definition Server_HandleGet :: "'f msg \<Rightarrow> ('f :: zero) store \<Rightarrow> ('f msg \<times> 'f store) res" where
  "Server_HandleGet m st =
     (let val = trgt_val m in
      bindR (slice_param (SliceID val) st) (\<lambda>a.
      let p = params st a in
      bindR (param_version p (mem st)) (\<lambda>v.
        if v < trgt_version m then Inr (m, st)
        else
          bindR (HandleGetMsg m p (mem st)) (\<lambda>(reply, h1).
          bindR (param_version p h1) (\<lambda>v1.
            Inr (set_trgt val v1 reply, st\<lparr>mem := h1\<rparr>))))))"

section \<open>Update\<close>

text \<open>The aggregation and the update when the last share of a slice has arrived.\<close>

definition apply_updates ::
  "('f, ptr) repr \<Rightarrow> ('f :: {zero, one, plus, minus, uminus, times, divide, ord}) libm \<Rightarrow> 'f Updater \<Rightarrow>
   int \<Rightarrow> int \<Rightarrow> 'f msg list \<Rightarrow> 'f Param \<Rightarrow> 'f heap \<Rightarrow> ('f msg list \<times> 'f Param \<times> 'f heap) res" where
  "apply_updates R M u val step request p h =
     bindR (ParseUpdateMsgs R (i2f M) request p h) (\<lambda>(ms, h1).
     bindR (SGD_Update M u step p h1) (\<lambda>h2.
     let p1 = p\<lparr>local_version := local_version p + 1\<rparr> in
     bindR (GenUpdateResponseMsgs p1 ms h2) (\<lambda>(rs, h3).
       Inr (map (set_trgt val (local_version p1)) rs, p1, h3))))"

definition Server_HandleUpdate ::
  "('f, ptr) repr \<Rightarrow> ('f :: {zero, one, plus, minus, uminus, times, divide, ord}) libm \<Rightarrow> 'f msg \<Rightarrow> 'f Server \<Rightarrow>
   'f store \<Rightarrow> ('f msg list \<times> 'f Server \<times> 'f store) res" where
  "Server_HandleUpdate R M m s st =
     (let slc = SliceID (trgt_val m) in
      bindR (entry_at slc st) (\<lambda>e.
      bindR (parse_copy (LastFrame m)) (\<lambda>n.
      let request = buffer_requests s slc @ [FirstFrame m];
          e1 = e\<lparr>num_update := num_update e + n\<rparr> in
      if num_total e1 \<le> num_update e1 then
        checkR (num_update e1 = num_total e1) CheckFailed
        (bindR (atR (shares e1) 0) (\<lambda>a.
         bindR (apply_updates R M (updater s) (trgt_val m) (trgt_version m) request (params st a) (mem st))
           (\<lambda>(rs, p1, h1).
             Inr (rs, s\<lparr>buffer_requests := (buffer_requests s)(slc := [])\<rparr>,
               st\<lparr>params := (params st)(a := p1), mem := h1,
                 server_shard := (server_shard st)(slc \<mapsto> e1\<lparr>num_update := 0\<rparr>)\<rparr>))))
      else
        Inr ([], s\<lparr>buffer_requests := (buffer_requests s)(slc := request)\<rparr>,
          st\<lparr>server_shard := (server_shard st)(slc \<mapsto> e1)\<rparr>))))"

section \<open>Synchronisation between server groups\<close>

text \<open>
  The message for every other group; the last group gets the message that \<open>GenSyncMsg\<close> made, the
  others copies of it.
\<close>

definition GenSyncMsgs :: "ClusterProto \<Rightarrow> 'f Server \<Rightarrow> nat \<Rightarrow> ('f :: zero) store \<Rightarrow> ('f msg list \<times> 'f store) res" where
  "GenSyncMsgs conf s a st =
     (let p = params st a; ng = nserver_groups conf;
          others = filter (\<lambda>i. i \<noteq> grp_id s) [0..ng - 1] in
      bindR (GenSyncMsg 0 0 p (mem st)) (\<lambda>(msg, h1).
      bindR (if others = [] then Inr h1 else param_set_version (local_version p) p h1) (\<lambda>h2.
        Inr (map (\<lambda>i. (if i < ng - 1 then Msg_copy msg else msg)
            \<lparr>msg_dst := Addr i 0 kServer, msg_src := Addr (grp_id s) (server_id s) kServer\<rparr>) others,
          st\<lparr>mem := h2\<rparr>))))"

text \<open>
  \<open>tmp\<close> is the tensor in the message, \<open>cur\<close> the data of the slice, \<open>prev\<close> the copy kept since the
  last exchange.
\<close>

definition Server_HandleSyncRequest ::
  "'f msg \<Rightarrow> 'f Server \<Rightarrow> ('f :: {zero, plus, minus}) store \<Rightarrow> ('f msg option \<times> 'f store) res" where
  "Server_HandleSyncRequest m s st =
     (let slc = SliceID (trgt_val m) in
      bindR (slice_param slc st) (\<lambda>a.
      let p = params st a in
      bindR (param_size p (mem st)) (\<lambda>sz.
      bindR (FrameSize m) (\<lambda>fsz.
      checkR (fsz = 4 * sz) CheckFailed
      (bindR (FrameFloats m) (\<lambda>tmp.
       bindR (data_tensor p (mem st)) (\<lambda>(n, cur, h1).
       bindR (idxR (slice2group s) slc) (\<lambda>g.
         if g = grp_id s then
           bindR (mem_read cur n h1) (\<lambda>xs.
           bindR (mem_write cur (map2 (+) xs tmp) h1) (\<lambda>h2.
             Inr (None, st\<lparr>mem := h2, params := (params st)(a := p\<lparr>local_version := local_version p + 1\<rparr>)\<rparr>)))
         else
           (case last_data s (pp_id (pproto p)) of
              None \<Rightarrow> Inl Undefined
            | Some lb \<Rightarrow>
                bindR (mutable_cpu_data lb h1) (\<lambda>(prev, h2).
                bindR (mem_read cur n h2) (\<lambda>xs.
                bindR (mem_read prev n h2) (\<lambda>ys.
                let diff = map2 (-) xs ys in
                bindR (NextFrame m) (\<lambda>(_, m1).
                bindR (parse_copy m1) (\<lambda>bandwidth.
                  if 0 < bandwidth then
                    bindR (param_version p h2) (\<lambda>v.
                    let reply = AddFrame (Floats diff) (set_trgt (pp_id (pproto p)) v
                          ((Msg_new (msg_dst m) (msg_src m))\<lparr>msg_type := kSyncRequest\<rparr>)) in
                    bindR (mem_write prev (map2 (+) diff tmp) h2) (\<lambda>h3.
                    bindR (mem_read prev n h3) (\<lambda>zs.
                    bindR (mem_write cur zs h3) (\<lambda>h4.
                      Inr (Some reply, st\<lparr>mem := h4\<rparr>)))))
                  else
                    bindR (mem_write prev tmp h2) (\<lambda>h3.
                    bindR (mem_write cur (map2 (+) tmp diff) h3) (\<lambda>h4.
                      Inr (None, st\<lparr>mem := h4\<rparr>)))))))))))))))))"

section \<open>The receive loop\<close>

definition Server_hello :: "'f Server \<Rightarrow> 'f msg" where
  "Server_hello s =
     (Msg_new (Addr (grp_id s) (server_id s) kServer) (Addr (- 1) (- 1) kStub))\<lparr>msg_type := kConnect\<rparr>"

definition Server_bye :: "'f Server \<Rightarrow> 'f msg" where
  "Server_bye s =
     (Msg_new (Addr (grp_id s) (server_id s) kServer) (Addr (- 1) (- 1) kStub))\<lparr>msg_type := kStop\<rparr>"

text \<open>A \<open>kSyncReminder\<close> asks for the next of the mastered slices.\<close>

definition sync_reminder ::
  "ClusterProto \<Rightarrow> 'f Server \<Rightarrow> ('f :: zero) store \<Rightarrow> loop_state \<Rightarrow> ('f msg list \<times> 'f store \<times> loop_state) res" where
  "sync_reminder conf s st ls =
     (if length (master_params ls) \<le> syncEntry ls then Inr ([], st, ls)
      else
        (let a = master_params ls ! syncEntry ls; p = params st a in
         bindR (param_version p (mem st)) (\<lambda>v.
           if nserver_groups conf \<le> \<bar>local_version p - v\<bar> then
             bindR (GenSyncMsgs conf s a st) (\<lambda>(ms, st1).
               Inr (ms, st1, ls\<lparr>syncEntry := (syncEntry ls + 1) mod length (master_params ls)\<rparr>))
           else Inr ([], st, ls))))"

definition server_step ::
  "('f, ptr) repr \<Rightarrow> ('f :: {zero, one, plus, minus, uminus, times, divide, ord}) libm \<Rightarrow> ClusterProto \<Rightarrow> ParamEntry \<Rightarrow>
   'f msg \<Rightarrow> 'f Server \<Rightarrow> 'f store \<Rightarrow> loop_state \<Rightarrow> ('f msg list \<times> 'f Server \<times> 'f store \<times> loop_state) res" where
  "server_step R M conf raw m s st ls =
     (let type = msg_type m; slc = SliceID (trgt_val m) in
      if type = kPut then
        bindR (Server_HandlePut conf raw m s st) (\<lambda>(s1, st1).
        bindR (idxR (slice2group s1) slc) (\<lambda>g.
          if g = grp_id s1 then
            bindR (slice_param slc st1) (\<lambda>a. Inr ([], s1, st1, ls\<lparr>master_params := master_params ls @ [a]\<rparr>))
          else Inr ([], s1, st1, ls)))
      else if server_shard st slc = None then Inr ([m], s, st, ls)
      else if type = kSyncReminder then
        bindR (sync_reminder conf s st ls) (\<lambda>(ms, st1, ls1). Inr (ms, s, st1, ls1))
      else if type = kGet then
        bindR (Server_HandleGet m st) (\<lambda>(r, st1). Inr ([r], s, st1, ls))
      else if type = kUpdate then
        bindR (Server_HandleUpdate R M m s st) (\<lambda>(rs, s1, st1). Inr (rs, s1, st1, ls))
      else if type = kSyncRequest then
        bindR (Server_HandleSyncRequest m s st) (\<lambda>(r, st1).
          Inr (case r of None \<Rightarrow> [] | Some x \<Rightarrow> [x], s, st1, ls))
      else Inr ([], s, st, ls))"

section \<open>Aggregation and update of a slice\<close>

lemma vecs_forget: "vecs p n qs vec h \<Longrightarrow> vecs p n Map.empty vec h"
  by (simp add: vecs_def)

lemma vecs_size: "vecs p n qs vec h \<Longrightarrow> param_size p h = Inr (int n)"
  by (auto simp: vecs_def trainable_def param_size_def data_blob_def blobs_of_def)

lemma grad_in: "pgrad p \<in> blobs_of p" and hist_in: "phistory p \<in> blobs_of p" and data_in: "the (pdata p) \<in> blobs_of p"
  by (simp_all add: blobs_of_def)

lemma parse_update_vecs:
  assumes "vecs p n Map.empty vec h" and "upd_msg m g" and "length g = n"
  shows "okR (parse_update R p n (frame_at 0 m) 1 reset h) (\<lambda>(m1, r, h1). m1 = frame_at 1 m \<and> \<not> r \<and>
    vecs p n Map.empty (vec(pgrad p := if reset then g else map2 (+) (vec (pgrad p)) g)) h1)"
proof -
  obtain rest where fr: "frames m = Fmt [FI 1] # Floats g # rest" using assms(2) by (auto simp: upd_msg_def)
  have nx: "NextFrame (frame_at 0 m) = Inr (True, frame_at 1 m)"
    using fr NextFrame_at [of "frame_at 0 m" 0] by (simp add: zcur_frame_at frame_at_def Let_def)
  have cf: "FrameFloats (frame_at 1 m) = Inr g" using fr cur_frame_at [of 1 m] by (simp add: FrameFloats_def)
  have len: "length (vec (pgrad p)) = n" by (rule vecs_length [OF assms(1) grad_in])
  have body: "okR (if reset then bindR (mem_write q (take n g) h1) (\<lambda>h2. Inr (frame_at 1 m, False, h2))
       else bindR (mem_read q n h1) (\<lambda>xs. bindR (mem_write q (map2 (+) xs (take n g)) h1)
         (\<lambda>h2. Inr (frame_at 1 m, reset, h2))))
      (\<lambda>(m1, r, h1). m1 = frame_at 1 m \<and> \<not> r \<and>
        vecs p n Map.empty (vec(pgrad p := if reset then g else map2 (+) (vec (pgrad p)) g)) h1)"
    if v: "vecs p n [pgrad p \<mapsto> q] vec h1" for q h1
  proof (cases reset)
    case True
    then show ?thesis
      using assms(3) by (auto intro!: okR_bind vecs_write [OF v, where b = "pgrad p"] dest: vecs_forget)
  next
    case False
    have "okR (mem_write q (map2 (+) (vec (pgrad p)) g) h1)
        (\<lambda>h2. vecs p n Map.empty (vec(pgrad p := map2 (+) (vec (pgrad p)) g)) h2)"
      using assms(3) len by (intro vecs_write [OF v, where b = "pgrad p"]) (simp_all add: vecs_forget)
    moreover have "mem_read q n h1 = Inr (vec (pgrad p))"
      using vecs_read [OF v, where b = "pgrad p" and Q = "\<lambda>x. x = vec (pgrad p)"] by (simp add: okR_def)
    ultimately show ?thesis using False assms(3) by (auto simp: okR_def)
  qed
  show ?thesis
    unfolding parse_update_def nx bindR_Inr split_conv checkR_True
    apply (simp only: one_neq_zero not_False_eq_True if_True)
    apply (rule okR_bind, rule vecs_ptr [OF assms(1) grad_in])
    apply (simp only: split_conv cf bindR_Inr assms(3) order_refl checkR_True)
    apply (erule body)
    done
qed

lemma parse_updates_vecs:
  assumes "list_all2 upd_msg ms gs" and "\<forall>g \<in> set gs. length g = n" and "vecs p n Map.empty vec h"
  shows "okR (parse_updates R p n (map (frame_at 0) ms) (replicate (length ms) 1) False h)
    (\<lambda>(ms1, h1). ms1 = map (frame_at 1) ms \<and>
      vecs p n Map.empty (vec(pgrad p := foldl (map2 (+)) (vec (pgrad p)) gs)) h1)"
  using assms
proof (induction arbitrary: h vec rule: list_all2_induct)
  case (Cons m ms g gs)
  let ?vec = "vec(pgrad p := map2 (+) (vec (pgrad p)) g)"
  obtain h1 where h1: "parse_update R p n (frame_at 0 m) 1 False h = Inr (frame_at 1 m, False, h1)"
    "vecs p n Map.empty ?vec h1"
    using parse_update_vecs [OF Cons.prems(2) Cons.hyps(1), of R False] Cons.prems(1) by (auto simp: okR_def)
  have "okR (parse_updates R p n (map (frame_at 0) ms) (replicate (length ms) 1) False h1)
    (\<lambda>(ms1, h2). ms1 = map (frame_at 1) ms \<and>
      vecs p n Map.empty (?vec(pgrad p := foldl (map2 (+)) (?vec (pgrad p)) gs)) h2)"
    using Cons.IH [OF _ h1(2)] Cons.prems(1) by (simp add: fun_upd_def cong: if_cong)
  then have "okR (parse_updates R p n (map (frame_at 0) ms) (replicate (length ms) 1) False h1)
    (\<lambda>(ms1, h2). ms1 = map (frame_at 1) ms \<and>
      vecs p n Map.empty (vec(pgrad p := foldl (map2 (+)) (vec (pgrad p)) (g # gs))) h2)"
    by (simp only: fun_upd_upd fun_upd_same foldl_Cons)
  then show ?case using h1(1) by (auto simp: okR_def fun_upd_def)
qed simp

lemma ParseUpdateMsgs_vecs:
  fixes p :: "('f :: {zero, plus, divide}) Param"
  assumes "vecs p n Map.empty vec h" and "list_all2 upd_msg ms gs" and "\<forall>g \<in> set gs. length g = n" and "gs \<noteq> []"
  shows "okR (ParseUpdateMsgs R cv (map (frame_at 0) ms) p h) (\<lambda>(ms1, h1). ms1 = map (frame_at 1) ms \<and>
    vecs p n Map.empty (vec(pgrad p := avg_grads cv gs)) h1)"
proof -
  obtain m ms' g gs' where cons: "ms = m # ms'" "gs = g # gs'"
    using assms(2,4) by (metis list.exhaust list_all2_Nil)
  then have l2: "upd_msg m g" "list_all2 upd_msg ms' gs'" and len: "length ms' = length gs'"
    using assms(2) by (auto dest: list_all2_lengthD)
  have copies: "mapR parse_copy (map (frame_at 0) ms) = Inr (replicate (length ms) 1)"
  proof -
    have "\<forall>m \<in> set ms. \<exists>g. upd_msg m g"
      using assms(2) by (metis list_all2_conv_all_nth in_set_conv_nth)
    then have "mapR parse_copy (map (frame_at 0) ms) = Inr (map (\<lambda>_. 1) (map (frame_at 0) ms))"
      by (intro mapR_map) (auto, metis parse_copy_upd)
    then show ?thesis by (simp add: map_replicate_const)
  qed
  obtain h1 where h1: "parse_update R p n (frame_at 0 m) 1 True h = Inr (frame_at 1 m, False, h1)"
    "vecs p n Map.empty (vec(pgrad p := g)) h1"
    using parse_update_vecs [OF assms(1) l2(1), of R True] assms(3) cons by (auto simp: okR_def)
  obtain h2 where h2: "parse_updates R p n (map (frame_at 0) ms') (replicate (length ms') 1) False h1 =
      Inr (map (frame_at 1) ms', h2)" "vecs p n Map.empty (vec(pgrad p := sum_grads gs)) h2"
    using parse_updates_vecs [OF l2(2) _ h1(2), of R] assms(3) cons by (auto simp: okR_def sum_grads_def)
  have loop: "parse_updates R p n (map (frame_at 0) ms) (replicate (length ms) 1) True h = Inr (map (frame_at 1) ms, h2)"
    using h1(1) h2(1) cons by simp
  have sg: "length (sum_grads gs) = n" using vecs_length [OF h2(2) grad_in] by simp
  have all: "list_all (\<lambda>c. c \<noteq> 0) (replicate (length ms) (1 :: int))" by (simp add: list_all_iff)
  show ?thesis
  proof (cases "1 < length ms")
    case False
    then have avg: "avg_grads cv gs = sum_grads gs" using cons len by (simp add: avg_grads_def)
    show ?thesis
      using False h2(2) unfolding ParseUpdateMsgs_def copies bindR_Inr vecs_size [OF assms(1)] nat_int avg
      by (simp add: loop all)
  next
    case True
    have avg: "avg_grads cv gs = map (\<lambda>x. x div cv (int (length ms))) (sum_grads gs)"
      using True cons len by (simp add: avg_grads_def)
    have "okR (bindR (mutable_cpu_data (pgrad p) h2) (\<lambda>(sg, h3).
        bindR (mem_read sg n h3) (\<lambda>xs.
        bindR (mem_write sg (map (\<lambda>x. x div cv (int (length ms))) xs) h3) (\<lambda>h4. Inr (map (frame_at 1) ms, h4)))))
      (\<lambda>(ms1, h1). ms1 = map (frame_at 1) ms \<and> vecs p n Map.empty (vec(pgrad p := avg_grads cv gs)) h1)"
      apply (rule okR_bind, rule vecs_ptr [OF h2(2) grad_in])
      subgoal premises v for q h3
        apply (simp only: split_conv)
        apply (rule okR_bind, rule vecs_read [OF v, where b = "pgrad p"], simp)
        apply (rule okR_bind, rule vecs_write [OF v, where b = "pgrad p"], simp, simp add: sg)
        apply (drule vecs_forget, simp add: avg)
        done
      done
    then show ?thesis
      using True unfolding ParseUpdateMsgs_def copies bindR_Inr vecs_size [OF assms(1)] nat_int
      by (simp add: loop all)
  qed
qed


lemma gen_update_response_vecs:
  assumes "vecs p n Map.empty vec h" and "frames m = Fmt [FI 1] # Floats g # rest" and "length g = n"
  shows "okR (gen_update_response p m h) (\<lambda>(m1, h1).
    frames m1 = Fmt [FI 1] # Floats (vec (the (pdata p))) # rest \<and> msg_src m1 = msg_dst m \<and> msg_dst m1 = msg_src m \<and>
    msg_type m1 = kRUpdate \<and> vecs p n Map.empty vec h1)"
proof -
  let ?m1 = "(SwapAddr (FirstFrame m))\<lparr>msg_type := kRUpdate\<rparr>" and ?d = "vec (the (pdata p))"
  have m1: "frames ?m1 = Fmt [FI 1] # Floats g # rest" "zcur ?m1 = Some 0" "fptr ?m1 = Some 0"
    using assms(2) by (simp_all add: SwapAddr_def FirstFrame_def frame_at_def Let_def)
  have c: "parse_copy ?m1 = Inr 1"
    using m1 by (simp add: parse_copy_def ParseFormatFrame_def cur_frame_def parse_frame_def)
  have nx: "NextFrame ?m1 = Inr (True, frame_at 1 ?m1)" using NextFrame_at [OF m1(2)] m1(1) by simp
  have cf: "cur_frame (frame_at 1 ?m1) = Inr (Floats g)" using cur_frame_at [of 1 ?m1] m1(1) by simp
  have len: "length ?d = n" by (rule vecs_length [OF assms(1) data_in])
  have set: "SetFrameFloats ?d (frame_at 1 ?m1) = Inr ((frame_at 1 ?m1)\<lparr>frames := Fmt [FI 1] # Floats ?d # rest\<rparr>)"
    using cf m1(1) len assms(3) by (simp add: SetFrameFloats_def FrameFloats_def frame_at_def Let_def)
  have b: "data_blob p = Inr (the (pdata p))" "bcount (blobs h' (the (pdata p))) = int n"
    if "vecs p n qs vec h'" for qs h'
    using that by (auto simp: vecs_def trainable_def data_blob_def blobs_of_def)
  show ?thesis
    unfolding gen_update_response_def Let_def c bindR_Inr nx split_conv b(1) [OF assms(1)] FrameSize_def cf b(2) [OF assms(1)]
    using assms(3)
    apply simp
    apply (rule okR_bind, rule vecs_ptr [OF assms(1) data_in])
    subgoal premises v for q h1
      apply (simp only: split_conv b(2) [OF v(2)] nat_int)
      apply (rule okR_bind, rule vecs_read [OF v(2), where b = "the (pdata p)"], simp)
      using set vecs_forget [OF v(2)] apply (simp add: SwapAddr_def FirstFrame_def)
      done
    done
qed

text \<open>What a response carries: the new floats, to the sender of the request.\<close>

definition answers :: "'f list \<Rightarrow> 'f msg \<Rightarrow> 'f msg \<Rightarrow> bool" where
  "answers d m r \<longleftrightarrow> (\<exists>rest. frames r = Fmt [FI 1] # Floats d # rest) \<and> msg_type r = kRUpdate \<and>
     msg_dst r = msg_src m \<and> msg_src r = msg_dst m"

lemma GenUpdateResponseMsgs_vecs:
  assumes "\<forall>m \<in> set ms. \<exists>g. upd_msg m g \<and> length g = n" and "vecs p n Map.empty vec h"
  shows "okR (GenUpdateResponseMsgs p ms h) (\<lambda>(rs, h1).
    list_all2 (answers (vec (the (pdata p)))) ms rs \<and> vecs p n Map.empty vec h1)"
  using assms
proof (induction ms arbitrary: h)
  case (Cons m ms)
  obtain g rest where g: "frames m = Fmt [FI 1] # Floats g # rest" "length g = n"
    using Cons.prems(1) by (auto simp: upd_msg_def)
  obtain m1 h1 where m1: "gen_update_response p m h = Inr (m1, h1)" "answers (vec (the (pdata p))) m m1"
    "vecs p n Map.empty vec h1"
    using gen_update_response_vecs [OF Cons.prems(2) g] by (auto simp: okR_def answers_def)
  obtain rs h2 where "GenUpdateResponseMsgs p ms h1 = Inr (rs, h2)" "vecs p n Map.empty vec h2"
    "list_all2 (answers (vec (the (pdata p)))) ms rs"
    using Cons.IH [OF _ m1(3)] Cons.prems(1) by (auto simp: okR_def)
  then show ?case using m1 by (simp add: okR_def)
qed (simp add: okR_def)

lemma vecs_local: "vecs (p\<lparr>local_version := v\<rparr>) n qs vec h = vecs p n qs vec h"
  by (simp add: vecs_def trainable_def blobs_of_def)

text \<open>The vectors after one SGD step with the average of the gradients \<open>gs\<close>.\<close>

definition sgd_vec ::
  "'f Updater \<Rightarrow> int \<Rightarrow> 'f \<Rightarrow> 'f Param \<Rightarrow> nat \<Rightarrow> ('f :: {zero, one, plus, minus, uminus, times, divide, ord}) list \<Rightarrow>
   (nat \<Rightarrow> 'f list) \<Rightarrow> nat \<Rightarrow> 'f list" where
  "sgd_vec u step rate p n g vec =
     (let lr = rate * learning_rate_multiplier (pproto p);
          wd = weight_decay u * weight_decay_multiplier (pproto p);
          D = the (pdata p); G = pgrad p; V = phistory p;
          gs = decayed wd (vec D) g;
          vs = map2 (\<lambda>x y. x * momentum u - lr * y) (if step = 0 then replicate n 0 else vec V) gs in
      if 0 < momentum u then vec(G := gs, V := vs, D := map2 (+) (vec D) vs)
      else vec(G := map (\<lambda>x. x * - lr) gs, D := map2 (+) (vec D) (map (\<lambda>x. x * - lr) gs)))"

lemma apply_updates_vecs:
  assumes "vecs p n Map.empty vec h" and "list_all2 upd_msg ms gs" and "\<forall>g \<in> set gs. length g = n" and "gs \<noteq> []"
    and "GetLearningRate M u step = Inr rate"
  shows "okR (apply_updates R M u val step (map (frame_at 0) ms) p h) (\<lambda>(rs, p1, h1).
    p1 = p\<lparr>local_version := local_version p + 1\<rparr> \<and>
    vecs p n Map.empty (sgd_vec u step rate p n (avg_grads (i2f M) gs) vec) h1 \<and>
    list_all2 (\<lambda>m r. answers (sgd_vec u step rate p n (avg_grads (i2f M) gs) vec (the (pdata p))) m r \<and>
      trgt_val r = val \<and> trgt_version r = local_version p + 1) ms rs)"
proof -
  let ?v = "sgd_vec u step rate p n (avg_grads (i2f M) gs) vec" and ?p = "p\<lparr>local_version := local_version p + 1\<rparr>"
  obtain h1 where h1: "ParseUpdateMsgs R (i2f M) (map (frame_at 0) ms) p h = Inr (map (frame_at 1) ms, h1)"
    "vecs p n Map.empty (vec(pgrad p := avg_grads (i2f M) gs)) h1"
    using ParseUpdateMsgs_vecs [OF assms(1-4), of R "i2f M"] by (auto simp: okR_def)
  have neq: "the (pdata p) \<noteq> pgrad p" "phistory p \<noteq> pgrad p"
    using assms(1) by (auto simp: vecs_def trainable_def)
  have "okR (SGD_Update M u step p h1) (\<lambda>h2. vecs p n Map.empty ?v h2)"
    using SGD_Update_vecs [OF h1(2) assms(5)] neq
    by (cases "0 < momentum u") (simp_all add: sgd_vec_def Let_def cong: if_cong)
  then obtain h2 where h2: "SGD_Update M u step p h1 = Inr h2" "vecs ?p n Map.empty ?v h2"
    by (auto simp: okR_def vecs_local)
  have "\<forall>m \<in> set (map (frame_at 1) ms). \<exists>g. upd_msg m g \<and> length g = n"
    using assms(2,3) by (fastforce simp: list_all2_conv_all_nth in_set_conv_nth upd_msg_def)
  from GenUpdateResponseMsgs_vecs [OF this h2(2)] obtain rs h3 where
    rs: "GenUpdateResponseMsgs ?p (map (frame_at 1) ms) h2 = Inr (rs, h3)" "vecs p n Map.empty ?v h3"
    "list_all2 (answers (?v (the (pdata p)))) (map (frame_at 1) ms) rs"
    by (auto simp: okR_def vecs_local)
  have "list_all2 (\<lambda>m r. answers (?v (the (pdata p))) m r \<and> trgt_val r = val \<and> trgt_version r = local_version p + 1) ms
      (map (set_trgt val (local_version p + 1)) rs)"
    using rs(3) by (simp add: list_all2_conv_all_nth answers_def set_trgt_def)
  then show ?thesis
    using h1(1) h2(1) rs(1,2) by (simp add: apply_updates_def Let_def)
qed

section \<open>A group of update requests\<close>

text \<open>
  An update request as the stub of a worker process makes it: the gradient by value and the
  number of workers it stands for.
\<close>

definition upd_req :: "int \<Rightarrow> 'f msg \<Rightarrow> 'f list \<Rightarrow> int \<Rightarrow> bool" where
  "upd_req slc m g k \<longleftrightarrow> frames m = [Fmt [FI 1], Floats g, Fmt [FI k]] \<and> SliceID (trgt_val m) = slc"

lemma upd_req_facts:
  assumes "upd_req slc m g k"
  shows "upd_msg m g" "parse_copy (LastFrame m) = Inr k" "SliceID (trgt_val m) = slc"
proof -
  have "cur_frame (LastFrame m) = Inr (Fmt [FI k])"
    using assms by (simp add: upd_req_def cur_frame_at LastFrame_def eval_nat_numeral)
  then show "parse_copy (LastFrame m) = Inr k" by (simp add: parse_copy_def ParseFormatFrame_def parse_frame_def)
qed (use assms in \<open>simp_all add: upd_req_def upd_msg_def\<close>)

fun handle_updates ::
  "('f, ptr) repr \<Rightarrow> ('f :: {zero, one, plus, minus, uminus, times, divide, ord}) libm \<Rightarrow> 'f msg list \<Rightarrow> 'f Server \<Rightarrow>
   'f store \<Rightarrow> ('f msg list \<times> 'f Server \<times> 'f store) res" where
  "handle_updates R M [] s st = Inr ([], s, st)"
| "handle_updates R M (m # ms) s st =
     bindR (Server_HandleUpdate R M m s st) (\<lambda>(rs, s1, st1).
     bindR (handle_updates R M ms s1 st1) (\<lambda>(rs2, s2, st2). Inr (rs @ rs2, s2, st2)))"

lemma HandleUpdate_waits:
  assumes "upd_req slc m g k" and "server_shard st slc = Some e" and "num_update e + k < num_total e"
  shows "Server_HandleUpdate R M m s st =
    Inr ([], s\<lparr>buffer_requests := (buffer_requests s)(slc := buffer_requests s slc @ [FirstFrame m])\<rparr>,
      st\<lparr>server_shard := (server_shard st)(slc \<mapsto> e\<lparr>num_update := num_update e + k\<rparr>)\<rparr>)"
  using upd_req_facts [OF assms(1)] assms(2,3)
  by (simp add: Server_HandleUpdate_def Let_def entry_at_def)

lemma handle_updates_waits:
  assumes "list_all2 (\<lambda>m (g, k). upd_req slc m g k \<and> 0 < k) ms gks" and "server_shard st slc = Some e"
    and "num_update e + sum_list (map snd gks) < num_total e"
  shows "handle_updates R M ms s st =
    Inr ([], s\<lparr>buffer_requests := (buffer_requests s)(slc := buffer_requests s slc @ map FirstFrame ms)\<rparr>,
      st\<lparr>server_shard := (server_shard st)(slc \<mapsto> e\<lparr>num_update := num_update e + sum_list (map snd gks)\<rparr>)\<rparr>)"
  using assms
proof (induction arbitrary: s st e rule: list_all2_induct)
  case Nil
  then show ?case by (simp add: fun_upd_idem)
next
  case (Cons m ms x gks)
  obtain g k where x: "x = (g, k)" by (cases x)
  have nn: "0 \<le> sum_list (map snd gks)"
    using Cons.hyps(2) by (intro sum_list_nonneg) (fastforce simp: list_all2_conv_all_nth in_set_conv_nth)
  let ?e = "e\<lparr>num_update := num_update e + k\<rparr>"
  let ?s = "s\<lparr>buffer_requests := (buffer_requests s)(slc := buffer_requests s slc @ [FirstFrame m])\<rparr>"
  let ?st = "st\<lparr>server_shard := (server_shard st)(slc \<mapsto> ?e)\<rparr>"
  have "Server_HandleUpdate R M m s st = Inr ([], ?s, ?st)"
    using HandleUpdate_waits [of slc m g k st e R M s] Cons.hyps(1) Cons.prems x nn by simp
  moreover have "handle_updates R M ms ?s ?st =
      Inr ([], ?s\<lparr>buffer_requests := (buffer_requests ?s)(slc := buffer_requests ?s slc @ map FirstFrame ms)\<rparr>,
      ?st\<lparr>server_shard := (server_shard ?st)(slc \<mapsto> ?e\<lparr>num_update := num_update ?e + sum_list (map snd gks)\<rparr>)\<rparr>)"
    using Cons.prems x by (intro Cons.IH) simp_all
  ultimately show ?case using x by (simp add: add.assoc fun_upd_def cong: if_cong)
qed

text \<open>The vectors of the parameter that a slice stands for.\<close>

definition slice_vec :: "int \<Rightarrow> ('f :: zero) store \<Rightarrow> nat \<Rightarrow> nat \<Rightarrow> (nat \<Rightarrow> 'f list) \<Rightarrow> bool" where
  "slice_vec slc st a n vec \<longleftrightarrow> slice_param slc st = Inr a \<and> vecs (params st a) n Map.empty vec (mem st)"

lemma HandleUpdate_fires:
  assumes "upd_req slc m g k" and "server_shard st slc = Some e" and "num_update e + k = num_total e"
    and "slice_vec slc st a n vec" and "buffer_requests s slc = map FirstFrame ms"
    and "list_all2 upd_msg (ms @ [m]) gs" and "\<forall>g \<in> set gs. length g = n"
    and "GetLearningRate M (updater s) (trgt_version m) = Inr rate"
  defines "p \<equiv> params st a"
  defines "v \<equiv> sgd_vec (updater s) (trgt_version m) rate p n (avg_grads (i2f M) gs) vec"
  shows "okR (Server_HandleUpdate R M m s st) (\<lambda>(rs, s1, st1).
    s1 = s\<lparr>buffer_requests := (buffer_requests s)(slc := [])\<rparr> \<and>
    params st1 = (params st)(a := p\<lparr>local_version := local_version p + 1\<rparr>) \<and> nparam st1 = nparam st \<and>
    server_shard st1 = (server_shard st)(slc \<mapsto> e\<lparr>num_update := 0\<rparr>) \<and> slice_vec slc st1 a n v \<and>
    list_all2 (\<lambda>m' r. answers (v (the (pdata p))) m' r \<and> trgt_val r = trgt_val m \<and>
      trgt_version r = local_version p + 1) (ms @ [m]) rs)"
proof -
  note req = upd_req_facts [OF assms(1)]
  have a: "atR (shares e) 0 = Inr a" "vecs p n Map.empty vec (mem st)"
    using assms(2,4) by (auto simp: slice_vec_def slice_param_def entry_at_def p_def)
  have ne: "gs \<noteq> []" using assms(6) by auto
  have ff: "FirstFrame = (frame_at 0 :: 'a msg \<Rightarrow> 'a msg)" by (simp add: fun_eq_iff FirstFrame_def)
  obtain rs h1 where run: "apply_updates R M (updater s) (trgt_val m) (trgt_version m)
      (map (frame_at 0) (ms @ [m])) p (mem st) = Inr (rs, p\<lparr>local_version := local_version p + 1\<rparr>, h1)"
    "vecs p n Map.empty v h1" "list_all2 (\<lambda>m' r. answers (v (the (pdata p))) m' r \<and> trgt_val r = trgt_val m \<and>
      trgt_version r = local_version p + 1) (ms @ [m]) rs"
    using apply_updates_vecs [OF a(2) assms(6,7) ne assms(8), of R "trgt_val m"] unfolding v_def by (auto simp: okR_def)
  have "Server_HandleUpdate R M m s st = Inr (rs, s\<lparr>buffer_requests := (buffer_requests s)(slc := [])\<rparr>,
      st\<lparr>params := (params st)(a := p\<lparr>local_version := local_version p + 1\<rparr>), mem := h1,
        server_shard := (server_shard st)(slc \<mapsto> e\<lparr>num_update := 0\<rparr>)\<rparr>)"
    using req assms(2,3,5) a(1) run(1)
    by (simp add: Server_HandleUpdate_def Let_def entry_at_def ff p_def)
  then show ?thesis
    using run(2,3) a(1) by (simp add: slice_vec_def slice_param_def entry_at_def vecs_local okR_def)
qed

section \<open>Properties\<close>

lemma handle_updates_append:
  "handle_updates R M (xs @ ys) s st =
    bindR (handle_updates R M xs s st) (\<lambda>(rs, s1, st1).
    bindR (handle_updates R M ys s1 st1) (\<lambda>(rs2, s2, st2). Inr (rs @ rs2, s2, st2)))"
proof (induction xs arbitrary: s st)
  case Nil
  then show ?case by (cases "handle_updates R M ys s st") auto
next
  case (Cons x xs)
  then show ?case
    by (cases "Server_HandleUpdate R M x s st") (auto simp: bindR_assoc case_prod_beta)
qed

lemma sgd_vec_nth:
  fixes p :: "real Param"
  assumes "trainable p h n" and "length g = n" and "j < n"
  shows "sgd_vec u step rate p n g (contents h) (the (pdata p)) ! j =
    (let lr = rate * learning_rate_multiplier (pproto p); wd = weight_decay u * weight_decay_multiplier (pproto p) in
     data_of p h ! j + ((if 0 < momentum u then (if step = 0 then 0 else hist_of p h ! j) * momentum u else 0)
       - lr * (g ! j + (if 0 < wd then data_of p h ! j * wd else 0))))"
  using trainable_vecs [OF assms(1)] assms(2,3) by (simp add: sgd_vec_def Let_def contents_of decayed_def)

text \<open>A complete group of requests, in terms of the vectors.\<close>

lemma handle_updates_group:
  assumes "list_all2 (\<lambda>m (g, k). upd_req slc m g k \<and> 0 < k) ms gks" and "ms \<noteq> []"
    and "server_shard st slc = Some e" and "num_update e = 0" and "sum_list (map snd gks) = num_total e"
    and "buffer_requests s slc = []" and "slice_vec slc st a n vec"
    and "\<forall>(g, k) \<in> set gks. length g = n"
    and "GetLearningRate M (updater s) (trgt_version (last ms)) = Inr rate"
  defines "p \<equiv> params st a"
  defines "v \<equiv> sgd_vec (updater s) (trgt_version (last ms)) rate p n (avg_grads (i2f M) (map fst gks)) vec"
  shows "okR (handle_updates R M ms s st) (\<lambda>(rs, s1, st1).
    params st1 a = p\<lparr>local_version := local_version p + 1\<rparr> \<and> slice_vec slc st1 a n v \<and>
    buffer_requests s1 slc = [] \<and> server_shard st1 slc = Some e \<and> list_all2 (answers (v (the (pdata p)))) ms rs)"
proof -
  obtain ms0 m where ms: "ms = ms0 @ [m]" using assms(2) by (metis rev_exhaust)
  obtain gks0 g k where gks: "gks = gks0 @ [(g, k)]" and l0: "list_all2 (\<lambda>m (g, k). upd_req slc m g k \<and> 0 < k) ms0 gks0"
    and last: "upd_req slc m g k" "0 < k"
    using assms(1) unfolding ms by (auto simp: list_all2_append1 list_all2_Cons1 split: prod.splits)
  let ?e = "e\<lparr>num_update := num_update e + sum_list (map snd gks0)\<rparr>"
  let ?s = "s\<lparr>buffer_requests := (buffer_requests s)(slc := map FirstFrame ms0)\<rparr>"
  let ?st = "st\<lparr>server_shard := (server_shard st)(slc \<mapsto> ?e)\<rparr>"
  have wait: "handle_updates R M ms0 s st = Inr ([], ?s, ?st)"
    using handle_updates_waits [OF l0 assms(3), of R M s] assms(4-6) gks last(2) by simp
  have vec: "slice_vec slc ?st a n vec"
    using assms(3,7) by (simp add: slice_vec_def slice_param_def entry_at_def)
  have ug: "list_all2 upd_msg (ms0 @ [m]) (map fst gks)"
    using assms(1) unfolding ms
    by (auto simp: list_all2_map2 case_prod_beta elim!: list_all2_mono dest: upd_req_facts(1))
  have lg: "\<forall>g \<in> set (map fst gks). length g = n" using assms(8) by auto
  have fire: "okR (Server_HandleUpdate R M m ?s ?st) (\<lambda>(rs, s1, st1).
      s1 = ?s\<lparr>buffer_requests := (buffer_requests ?s)(slc := [])\<rparr> \<and>
      params st1 = (params ?st)(a := p\<lparr>local_version := local_version p + 1\<rparr>) \<and> nparam st1 = nparam ?st \<and>
      server_shard st1 = (server_shard ?st)(slc \<mapsto> ?e\<lparr>num_update := 0\<rparr>) \<and> slice_vec slc st1 a n v \<and>
      list_all2 (\<lambda>m' r. answers (v (the (pdata p))) m' r \<and> trgt_val r = trgt_val m \<and>
        trgt_version r = local_version p + 1) (ms0 @ [m]) rs)"
    using HandleUpdate_fires [OF last(1) _ _ vec _ ug lg, of ?e ?s M rate R] assms(4,5,9) gks ms
    by (simp add: p_def v_def)
  have "e\<lparr>num_update := 0\<rparr> = e" using assms(4) by simp
  then show ?thesis
    unfolding ms handle_updates_append wait bindR_Inr split_conv
    using fire by (fastforce simp: okR_def elim: list_all2_mono)
qed

text \<open>
  C7. Synchronous training of a group: the server buffers the update requests of a slice until
  they account for all workers, then makes exactly one SGD step with the mean of the gradients,
  counts one version up, answers every request with the new values and is ready for the next round.
\<close>

theorem update_group_sgd:
  assumes "list_all2 (\<lambda>m (g, k). upd_req slc m g k \<and> 0 < k) ms gks" and "ms \<noteq> []"
    and "server_shard st slc = Some e" and "num_update e = 0" and "sum_list (map snd gks) = num_total e"
    and "buffer_requests s slc = []" and "slice_param slc st = Inr a" and "trainable (params st a) (mem st) n"
    and "\<forall>(g, k) \<in> set gks. length g = n"
    and "GetLearningRate M (updater s) (trgt_version (last ms)) = Inr rate" and "i2f M = real_of_int"
  shows "\<exists>rs s1 st1. handle_updates R M ms s st = Inr (rs, s1, st1) \<and>
    (let p = params st a; p1 = params st1 a; u = updater s; lr = rate * learning_rate_multiplier (pproto p);
         wd = weight_decay u * weight_decay_multiplier (pproto p) in
     (\<forall>j < n.
        let g = (\<Sum>(g, k)\<leftarrow>gks. g ! j) / real (length gks) + (if 0 < wd then data_of p (mem st) ! j * wd else 0);
            old = (if trgt_version (last ms) = 0 then 0 else hist_of p (mem st) ! j);
            v = (if 0 < momentum u then old * momentum u else 0) - lr * g in
        data_of p1 (mem st1) ! j = data_of p (mem st) ! j + v) \<and>
     slice_param slc st1 = Inr a \<and> trainable p1 (mem st1) n \<and> local_version p1 = local_version p + 1 \<and>
     list_all2 (answers (data_of p1 (mem st1))) ms rs \<and>
     buffer_requests s1 slc = [] \<and> server_shard st1 slc = Some e)"
proof -
  let ?p = "params st a" and ?avg = "avg_grads (i2f M) (map fst gks)"
  let ?v = "sgd_vec (updater s) (trgt_version (last ms)) rate ?p n ?avg (contents (mem st))"
  have vec: "slice_vec slc st a n (contents (mem st))" using assms(7,8) by (simp add: slice_vec_def vecs_start)
  obtain rs s1 st1 where run: "handle_updates R M ms s st = Inr (rs, s1, st1)"
    "params st1 a = ?p\<lparr>local_version := local_version ?p + 1\<rparr>" "slice_vec slc st1 a n ?v"
    "buffer_requests s1 slc = []" "server_shard st1 slc = Some e" "list_all2 (answers (?v (the (pdata ?p)))) ms rs"
    using handle_updates_group [OF assms(1-6) vec assms(9,10), of R] by (auto simp: okR_def)
  have tr: "trainable (params st1 a) (mem st1) n" "data_of (params st1 a) (mem st1) = ?v (the (pdata ?p))"
    using run(2,3) by (auto simp: slice_vec_def vecs_def vecs_local data_of_def trainable_def blobs_of_def)
  have ne: "map fst gks \<noteq> []" using assms(1,2) by (auto dest: list_all2_lengthD)
  have lg: "\<forall>g \<in> set (map fst gks). length g = n" using assms(9) by auto
  have avg: "length ?avg = n" "?avg ! j = (\<Sum>(g, k)\<leftarrow>gks. g ! j) / real (length gks)" if "j < n" for j
    using avg_grads_mean [OF ne lg that] assms(11) by (simp_all add: case_prod_unfold comp_def)
  have data: "?v (the (pdata ?p)) ! j = (let lr = rate * learning_rate_multiplier (pproto ?p);
      wd = weight_decay (updater s) * weight_decay_multiplier (pproto ?p) in
      data_of ?p (mem st) ! j + ((if 0 < momentum (updater s)
        then (if trgt_version (last ms) = 0 then 0 else hist_of ?p (mem st) ! j) * momentum (updater s) else 0)
       - lr * ((\<Sum>(g, k)\<leftarrow>gks. g ! j) / real (length gks) + (if 0 < wd then data_of ?p (mem st) ! j * wd else 0))))"
    if "j < n" for j
    using sgd_vec_nth [OF assms(8) avg(1) [OF that] that] avg(2) [OF that] by simp
  show ?thesis
    using run tr data by (auto simp: Let_def slice_vec_def)
qed

definition demo_store :: "real store" where
  "demo_store = \<lparr>params = (\<lambda>_. fst (demo_sized 2)), nparam = 1, mem = snd (demo_sized 2),
     server_shard = [0 \<mapsto> \<lparr>num_update = 0, next_version = - 1, num_local = 0, num_total = 3, shares = [0]\<rparr>]\<rparr>"

definition demo_srv :: "real Server" where
  "demo_srv = Server_new 1 0 0 demo_updater"

definition demo_upd :: "real list \<Rightarrow> int \<Rightarrow> real msg" where
  "demo_upd g k = (Msg_new 0 0)\<lparr>msg_type := kUpdate, frames := [Fmt [FI 1], Floats g, Fmt [FI k]]\<rparr>"

lemma demo_upd_req: "upd_req 0 (demo_upd g k) g k"
  by (simp add: upd_req_def demo_upd_def Msg_new_def SliceID_def)

theorem update_group_sgd_witness:
  "\<exists>rs s1 st1. handle_updates blank_repr real_libm [demo_upd [1, 2] 2, demo_upd [3, 6] 1] demo_srv demo_store = Inr (rs, s1, st1) \<and>
    data_of (params st1 0) (mem st1) ! 1 = - 4 \<and> local_version (params st1 0) = 0 \<and> length rs = 2"
proof -
  have mult: "learning_rate_multiplier (pproto (fst (demo_sized 2))) = 1" "local_version (fst (demo_sized 2)) = - 1"
    "data_of (fst (demo_sized 2)) (snd (demo_sized 2)) = [0, 0]"
    by (simp_all add: demo_sized_def Param_Setup_def Blob_new_shape_def Blob_new_def Param_new_def Reshape_def
        shape_count_def is_c_int_def heap0_def upd_blob_def SyncedMemory_new_def Let_def ParamProto_default_def
        data_of_def contents_def numeral_2_eq_2)
  obtain rs s1 st1 where run: "handle_updates blank_repr real_libm [demo_upd [1, 2] 2, demo_upd [3, 6] 1] demo_srv demo_store =
      Inr (rs, s1, st1)"
    "let p = params demo_store 0; p1 = params st1 0; u = updater demo_srv; lr = 1 * learning_rate_multiplier (pproto p);
         wd = weight_decay u * weight_decay_multiplier (pproto p) in
     (\<forall>j < 2. let g = (\<Sum>(g, k)\<leftarrow>[([1, 2], 2), ([3, 6], 1 :: int)]. g ! j) / real (length [([1, 2 :: real], 2 :: int), ([3, 6], 1)]) +
            (if 0 < wd then data_of p (mem demo_store) ! j * wd else 0);
            old = (if trgt_version (last [demo_upd [1, 2] 2, demo_upd [3, 6] 1]) = 0 then 0 else hist_of p (mem demo_store) ! j);
            v = (if 0 < momentum u then old * momentum u else 0) - lr * g in
        data_of p1 (mem st1) ! j = data_of p (mem demo_store) ! j + v) \<and>
     slice_param 0 st1 = Inr 0 \<and> trainable p1 (mem st1) 2 \<and> local_version p1 = local_version p + 1 \<and>
     list_all2 (answers (data_of p1 (mem st1))) [demo_upd [1, 2] 2, demo_upd [3, 6] 1] rs \<and>
     buffer_requests s1 0 = [] \<and> server_shard st1 0 = server_shard demo_store 0"
    using update_group_sgd [of 0 "[demo_upd [1, 2] 2, demo_upd [3, 6] 1]" "[([1, 2], 2), ([3, 6], 1)]" demo_store
        "the (server_shard demo_store 0)" demo_srv 0 2 real_libm 1 blank_repr]
    by (auto simp: demo_upd_req demo_store_def demo_srv_def Server_new_def slice_param_def entry_at_def atR_def
        demo_trainable demo_rate real_libm_def [THEN arg_cong [of _ _ i2f]])
  have "data_of (params st1 0) (mem st1) ! 1 = - 4" "local_version (params st1 0) = 0" "length rs = 2"
    using run(2) by (auto simp: Let_def demo_store_def demo_srv_def Server_new_def mult demo_updater_def demo_upd_def
        Msg_new_def dest: list_all2_lengthD)
  then show ?thesis using run(1) by blast
qed

section \<open>Synchronisation of server groups\<close>

text \<open>
  A replica of a slice: the data of its parameter and the copy \<open>prev\<close> that is kept since the
  last exchange. The copy is a blob like the three of the parameter, so the rules for the vectors
  of a parameter apply with the copy in the place of the history.
\<close>

definition replica :: "int \<Rightarrow> 'f Server \<Rightarrow> ('f :: zero) store \<Rightarrow> nat \<Rightarrow> 'f list \<Rightarrow> 'f list \<Rightarrow> bool" where
  "replica slc s st n cur prev \<longleftrightarrow> (\<exists>a lb g. slice_param slc st = Inr a \<and> pp_id (pproto (params st a)) = slc \<and>
     last_data s slc = Some lb \<and> idxR (slice2group s) slc = Inr g \<and> g \<noteq> grp_id s \<and>
     trainable ((params st a)\<lparr>phistory := lb\<rparr>) (mem st) n \<and>
     data_of (params st a) (mem st) = cur \<and> contents (mem st) lb = prev)"

definition master :: "int \<Rightarrow> 'f Server \<Rightarrow> ('f :: zero) store \<Rightarrow> nat \<Rightarrow> 'f list \<Rightarrow> bool" where
  "master slc s st n cur \<longleftrightarrow> (\<exists>a. slice_param slc st = Inr a \<and> idxR (slice2group s) slc = Inr (grp_id s) \<and>
     trainable (params st a) (mem st) n \<and> data_of (params st a) (mem st) = cur)"

lemma master_length: "master slc s st n cur \<Longrightarrow> length cur = n"
  using trainable_vecs(1) by (auto simp: master_def)

lemma replica_length:
  assumes "replica slc s st n cur prev"
  shows "length cur = n \<and> length prev = n"
proof -
  obtain a lb where t: "trainable ((params st a)\<lparr>phistory := lb\<rparr>) (mem st) n"
    and eq: "data_of (params st a) (mem st) = cur" "contents (mem st) lb = prev"
    using assms by (auto simp: replica_def)
  show ?thesis
    using trainable_blob(5) [OF t, of "the (pdata (params st a))"] trainable_blob(5) [OF t, of lb] eq
    by (simp add: blobs_of_def data_of_def)
qed

lemma sync_frames:
  assumes "frames m = [Floats tmp, Fmt [FI bw]]" and "zcur m = Some 0" and "fptr m = Some 0"
  shows "FrameFloats m = Inr tmp" and "FrameSize m = Inr (4 * int (length tmp))"
    and "NextFrame m = Inr (True, frame_at 1 m)" and "parse_copy (frame_at 1 m) = Inr bw"
  using assms NextFrame_at [OF assms(2)] cur_frame_at [of 1 m]
  by (simp_all add: FrameFloats_def FrameSize_def cur_frame_def parse_copy_def ParseFormatFrame_def parse_frame_def)

lemma data_tensor_history: "data_tensor (p\<lparr>phistory := b\<rparr>) h = data_tensor p h"
  by (simp add: data_tensor_def param_size_def data_blob_def)

lemma sync_master:
  assumes "master slc s st n cur" and "frames m = Floats tmp # rest" and "fptr m = Some 0" and "length tmp = n"
    and "SliceID (trgt_val m) = slc"
  shows "\<exists>st1. Server_HandleSyncRequest m s st = Inr (None, st1) \<and> master slc s st1 n (map2 (+) cur tmp) \<and>
    (\<forall>a. slice_param slc st = Inr a \<longrightarrow> local_version (params st1 a) = local_version (params st a) + 1)"
proof -
  obtain a where a: "slice_param slc st = Inr a" "idxR (slice2group s) slc = Inr (grp_id s)"
    "trainable (params st a) (mem st) n" "data_of (params st a) (mem st) = cur"
    using assms(1) by (auto simp: master_def)
  let ?p = "params st a" and ?p1 = "(params st a)\<lparr>local_version := local_version (params st a) + 1\<rparr>"
  let ?D = "the (pdata (params st a))"
  have fr: "FrameFloats m = Inr tmp" "FrameSize m = Inr (4 * int n)"
    using assms(2-4) by (simp_all add: FrameFloats_def FrameSize_def cur_frame_def)
  note v0 = vecs_start [OF a(3)]
  have "okR (bindR (data_tensor ?p (mem st)) (\<lambda>(n, q, h1). bindR (mem_read q n h1) (\<lambda>xs. mem_write q (map2 (+) xs tmp) h1)))
      (\<lambda>h2. vecs ?p n Map.empty ((contents (mem st))(?D := map2 (+) (contents (mem st) ?D) tmp)) h2)"
    apply (rule okR_bind, rule vecs_data [OF v0], simp only: split_conv)
    subgoal premises v for q h1
      apply (rule okR_bind, rule vecs_read [OF v, where b = ?D], simp)
      apply (rule vecs_write [OF v, where b = ?D], simp)
       apply (simp add: assms(4) vecs_length [OF v0 data_in])
      apply (erule vecs_forget)
      done
    done
  then obtain k q h1 xs h2 where run: "data_tensor ?p (mem st) = Inr (k, q, h1)" "mem_read q k h1 = Inr xs"
    "mem_write q (map2 (+) xs tmp) h1 = Inr h2"
    "vecs ?p n Map.empty ((contents (mem st))(?D := map2 (+) cur tmp)) h2"
    using a(4) by (auto simp: okR_def bindR_eq_Inr data_of_def)
  let ?st1 = "st\<lparr>mem := h2, params := (params st)(a := ?p1)\<rparr>"
  have "Server_HandleSyncRequest m s st = Inr (None, ?st1)"
    using a(1,2) fr run(1-3) vecs_size [OF v0] assms(5) by (simp add: Server_HandleSyncRequest_def Let_def)
  moreover have "master slc s ?st1 n (map2 (+) cur tmp)"
    using a(1,2) run(4) by (auto simp: master_def slice_param_def entry_at_def vecs_def trainable_def blobs_of_def data_of_def)
  ultimately show ?thesis using a(1) by auto
qed

text \<open>The pointers that the handler fetches, and its two writes.\<close>

lemma replica_open:
  assumes "trainable (p\<lparr>phistory := lb\<rparr>) h n"
  shows "\<exists>c h1 pv h2. data_tensor p h = Inr (n, c, h1) \<and> mutable_cpu_data lb h1 = Inr (pv, h2) \<and>
    vecs (p\<lparr>phistory := lb\<rparr>) n [the (pdata p) \<mapsto> c, lb \<mapsto> pv] (contents h) h2 \<and>
    mem_read c n h2 = Inr (data_of p h) \<and> mem_read pv n h2 = Inr (contents h lb)"
proof -
  let ?q = "p\<lparr>phistory := lb\<rparr>" and ?D = "the (pdata p)"
  have mem: "lb \<in> blobs_of ?q" and ne: "?D \<noteq> lb" using assms by (auto simp: blobs_of_def trainable_def)
  obtain c h1 where c: "data_tensor p h = Inr (n, c, h1)" "vecs ?q n [?D \<mapsto> c] (contents h) h1"
    using vecs_data [OF vecs_start [OF assms], where Q = "\<lambda>(k, c, h1). k = n \<and> vecs ?q n [?D \<mapsto> c] (contents h) h1"]
    by (auto simp: okR_def data_tensor_history)
  obtain pv h2 where pv: "mutable_cpu_data lb h1 = Inr (pv, h2)" "vecs ?q n [?D \<mapsto> c, lb \<mapsto> pv] (contents h) h2"
    using vecs_ptr [OF c(2) mem, where Q = "\<lambda>(pv, h2). vecs ?q n [?D \<mapsto> c, lb \<mapsto> pv] (contents h) h2"]
    by (auto simp: okR_def)
  have "mem_read c n h2 = Inr (data_of p h)" "mem_read pv n h2 = Inr (contents h lb)"
    using vecs_read [OF pv(2), where b = ?D and q = c and Q = "\<lambda>x. x = contents h ?D"]
      vecs_read [OF pv(2), where b = lb and q = pv and Q = "\<lambda>x. x = contents h lb"] ne
    by (simp_all add: okR_def data_of_def)
  then show ?thesis using c(1) pv by blast
qed

lemma replica_write:
  assumes "vecs q n [D \<mapsto> c, lb \<mapsto> pv] vec h2" and "D \<noteq> lb" and "length xs = n" and "length ys = n"
  shows "\<exists>h3 h4. mem_write pv xs h2 = Inr h3 \<and> mem_read pv n h3 = Inr xs \<and> mem_write c ys h3 = Inr h4 \<and>
    vecs q n Map.empty (vec(lb := xs, D := ys)) h4"
proof -
  obtain h3 where h3: "mem_write pv xs h2 = Inr h3" "vecs q n [D \<mapsto> c, lb \<mapsto> pv] (vec(lb := xs)) h3"
    using vecs_write [OF assms(1), where b = lb and q = pv and xs = xs
        and Q = "\<lambda>h3. vecs q n [D \<mapsto> c, lb \<mapsto> pv] (vec(lb := xs)) h3"] assms(3) by (auto simp: okR_def)
  have "mem_read pv n h3 = Inr xs"
    using vecs_read [OF h3(2), where b = lb and q = pv and Q = "\<lambda>x. x = xs"] by (simp add: okR_def)
  moreover have "okR (mem_write c ys h3) (vecs q n Map.empty (vec(lb := xs, D := ys)))"
    using assms(2,4) by (intro vecs_write [OF h3(2), where b = D]) (auto intro: vecs_forget)
  ultimately show ?thesis using h3(1) by (auto simp: okR_def)
qed

lemma sync_replica:
  assumes "replica slc s st n cur prev" and "frames m = [Floats tmp, Fmt [FI bw]]" and "zcur m = Some 0"
    and "fptr m = Some 0" and "length tmp = n" and "SliceID (trgt_val m) = slc"
  defines "diff \<equiv> map2 (-) cur prev"
  shows "\<exists>r st1. Server_HandleSyncRequest m s st = Inr (r, st1) \<and>
    (if 0 < bw then (\<exists>x. r = Some x \<and> frames x = [Floats diff] \<and> msg_dst x = msg_src m \<and> msg_src x = msg_dst m \<and>
         msg_type x = kSyncRequest \<and> trgt_val x = slc) \<and> replica slc s st1 n (map2 (+) diff tmp) (map2 (+) diff tmp)
     else r = None \<and> replica slc s st1 n (map2 (+) tmp diff) tmp)"
proof -
  obtain a lb g where a: "slice_param slc st = Inr a" "pp_id (pproto (params st a)) = slc" "last_data s slc = Some lb"
    "idxR (slice2group s) slc = Inr g" "g \<noteq> grp_id s" and t: "trainable ((params st a)\<lparr>phistory := lb\<rparr>) (mem st) n"
    and cur: "data_of (params st a) (mem st) = cur" "contents (mem st) lb = prev"
    using assms(1) by (auto simp: replica_def)
  let ?p = "params st a" and ?D = "the (pdata (params st a))" and ?q = "(params st a)\<lparr>phistory := lb\<rparr>"
  have mem: "?D \<in> blobs_of ?q" "lb \<in> blobs_of ?q" and ne: "?D \<noteq> lb" using t by (auto simp: blobs_of_def trainable_def)
  have len: "length diff = n"
    using trainable_blob(5) [OF t mem(1)] trainable_blob(5) [OF t mem(2)] cur by (auto simp: data_of_def diff_def)
  obtain c h1 pv h2 where o: "data_tensor ?p (mem st) = Inr (n, c, h1)" "mutable_cpu_data lb h1 = Inr (pv, h2)"
    "vecs ?q n [?D \<mapsto> c, lb \<mapsto> pv] (contents (mem st)) h2" "mem_read c n h2 = Inr cur" "mem_read pv n h2 = Inr prev"
    using replica_open [OF t] cur by auto
  note wr = replica_write [OF o(3) ne]
  have rep: "replica slc s (st\<lparr>mem := h4\<rparr>) n ys xs"
    if "vecs ?q n Map.empty ((contents (mem st))(lb := xs, ?D := ys)) h4" for xs ys h4
    using that a ne mem by (auto simp: replica_def slice_param_def entry_at_def vecs_def data_of_def)
  obtain v where v: "param_version ?p h2 = Inr v" using t by (auto simp: param_version_def data_blob_def trainable_def)
  have sz: "param_size ?p (mem st) = Inr (int n)"
    using vecs_size [OF vecs_start [OF t]] by (simp add: param_size_def data_blob_def)
  note go = a sync_frames [OF assms(2-4)] o(1,2,4,5) sz assms(5,6) diff_def [symmetric]
  show ?thesis
  proof (cases "0 < bw")
    case True
    obtain h3 h4 where "mem_write pv (map2 (+) diff tmp) h2 = Inr h3" "mem_read pv n h3 = Inr (map2 (+) diff tmp)"
      "mem_write c (map2 (+) diff tmp) h3 = Inr h4"
      "vecs ?q n Map.empty ((contents (mem st))(lb := map2 (+) diff tmp, ?D := map2 (+) diff tmp)) h4"
      using wr [of "map2 (+) diff tmp" "map2 (+) diff tmp"] len assms(5) by auto
    then show ?thesis
      using True go v rep by (simp add: Server_HandleSyncRequest_def Let_def AddFrame_def set_trgt_def Msg_new_def)
  next
    case False
    obtain h3 h4 where "mem_write pv tmp h2 = Inr h3" "mem_write c (map2 (+) tmp diff) h3 = Inr h4"
      "vecs ?q n Map.empty ((contents (mem st))(lb := tmp, ?D := map2 (+) tmp diff)) h4"
      using wr [of tmp "map2 (+) tmp diff"] len assms(5) by auto
    then show ?thesis using False go rep by (simp add: Server_HandleSyncRequest_def Let_def)
  qed
qed

text \<open>
  C10. One exchange between the group that masters a slice and another group, with bandwidth to
  answer: the replica sends back what it added since the last exchange and takes over the master's
  values with its own additions, the master adds them, and both hold the same values; no update
  of either side is lost.
\<close>

theorem sync_round_agrees:
  fixes old :: "real list"
  assumes "master slc sm stm n old" and "replica slc sr str n cur prev" and "0 \<le> slc" and "slc < 65536"
    and "frames m = [Floats old, Fmt [FI bw]]" and "0 < bw" and "SliceID (trgt_val m) = slc"
  shows "\<exists>r str1 stm1 new. Server_HandleSyncRequest (FirstFrame m) sr str = Inr (Some r, str1) \<and>
    Server_HandleSyncRequest (FirstFrame (AddFrame (Fmt [FI bw2]) r)) sm stm = Inr (None, stm1) \<and>
    replica slc sr str1 n new new \<and> master slc sm stm1 n new \<and>
    (\<forall>j < n. new ! j = old ! j + (cur ! j - prev ! j))"
proof -
  let ?diff = "map2 (-) cur prev" and ?m = "FirstFrame m"
  have lens: "length old = n" "length cur = n" "length prev = n"
    using master_length [OF assms(1)] replica_length [OF assms(2)] by auto
  have m: "frames ?m = [Floats old, Fmt [FI bw]]" "zcur ?m = Some 0" "fptr ?m = Some 0" "SliceID (trgt_val ?m) = slc"
    using assms(5,7) by (simp_all add: FirstFrame_def frame_at_def Let_def)
  obtain r str1 where r: "Server_HandleSyncRequest ?m sr str = Inr (Some r, str1)" "frames r = [Floats ?diff]"
    "trgt_val r = slc" "replica slc sr str1 n (map2 (+) ?diff old) (map2 (+) ?diff old)"
    using sync_replica [OF assms(2) m(1-3) lens(1) m(4)] assms(6) by auto
  have "SliceID slc = slc" using assms(3,4) and_mask_16 [of slc] by (simp add: SliceID_def)
  then obtain stm1 where "Server_HandleSyncRequest (FirstFrame (AddFrame (Fmt [FI bw2]) r)) sm stm = Inr (None, stm1)"
    "master slc sm stm1 n (map2 (+) old ?diff)"
    using sync_master [OF assms(1), of "FirstFrame (AddFrame (Fmt [FI bw2]) r)" ?diff "[Fmt [FI bw2]]"] r(2,3) lens
    by (auto simp: FirstFrame_def frame_at_def AddFrame_def Let_def)
  moreover have "map2 (+) ?diff old = map2 (+) old ?diff" using lens by (intro nth_equalityI) simp_all
  ultimately show ?thesis using r lens by (intro exI [of _ r] exI [of _ str1] exI [of _ stm1] exI [of _ "map2 (+) old ?diff"]) simp
qed


text \<open>Two processes with the same slice; the history blob of the parameter serves as the kept copy.\<close>

definition demo_master :: "real Server" where
  "demo_master = demo_srv\<lparr>slice2group := [0]\<rparr>"

definition demo_replica :: "real Server" where
  "demo_replica = demo_srv\<lparr>grp_id := 1, slice2group := [0], last_data := [0 \<mapsto> phistory (fst (demo_sized 2))]\<rparr>"

lemma demo_replica_ok:
  "master 0 demo_master demo_store 2 [0, 0]" "replica 0 demo_replica demo_store 2 [0, 0] [0, 0]"
proof -
  have "data_of (fst (demo_sized 2)) (snd (demo_sized 2)) = [0, 0]" "pp_id (pproto (fst (demo_sized 2))) = 0"
    by (simp_all add: demo_sized_def Param_Setup_def Blob_new_shape_def Blob_new_def Param_new_def Reshape_def
        shape_count_def is_c_int_def heap0_def upd_blob_def SyncedMemory_new_def Let_def ParamProto_default_def
        data_of_def contents_def numeral_2_eq_2)
  then show "master 0 demo_master demo_store 2 [0, 0]" "replica 0 demo_replica demo_store 2 [0, 0] [0, 0]"
    using demo_trainable demo_vectors(1)
    by (simp_all add: master_def replica_def demo_master_def demo_replica_def demo_store_def demo_srv_def Server_new_def
        slice_param_def entry_at_def atR_def idxR_def hist_of_def)
qed

theorem sync_round_agrees_witness:
  "\<exists>m :: real msg. \<exists>r str1 stm1 new. Server_HandleSyncRequest (FirstFrame m) demo_replica demo_store = Inr (Some r, str1) \<and>
    Server_HandleSyncRequest (FirstFrame (AddFrame (Fmt [FI 1]) r)) demo_master demo_store = Inr (None, stm1) \<and>
    replica 0 demo_replica str1 2 new new \<and> master 0 demo_master stm1 2 new \<and> new ! 1 = 0"
proof -
  let ?m = "(Msg_new 0 0)\<lparr>msg_type := kSyncRequest, frames := [Floats [0, 0], Fmt [FI 5]]\<rparr> :: real msg"
  have "frames ?m = [Floats [0, 0], Fmt [FI 5]]" "SliceID (trgt_val ?m) = 0" by (simp_all add: Msg_new_def SliceID_def)
  note run = sync_round_agrees [OF demo_replica_ok _ _ this(1) _ this(2), simplified]
  show ?thesis by (rule exI [of _ ?m]) (use run in \<open>force dest: spec [of _ 1]\<close>)
qed

section \<open>Put and get\<close>

lemma at_ptr_cpu: "at_ptr h b q \<Longrightarrow> cpu_data b h = Inr (q, h)"
  by (auto simp: at_ptr_iff cpu_data_def with_data_def sm_cpu_data_def to_cpu_def)

lemma vecs_ext:
  assumes "vecs p n qs vec h" and "wf_heap h1" and "nblob h \<le> nblob h1" and "blocks h1 = blocks h"
    and "\<And>b. b < nblob h \<Longrightarrow> bdata (blobs h1 b) = bdata (blobs h b) \<and> bcount (blobs h1 b) = bcount (blobs h b)"
    and "\<And>s. s < nsync h \<Longrightarrow> syncs h1 s = syncs h s"
  shows "vecs p n qs vec h1"
proof -
  have t: "trainable p h n" using assms(1) by (simp add: vecs_def)
  have s: "s < nsync h" if "b \<in> blobs_of p" "bdata (blobs h b) = Some s" for b s
    using that t wf_blob_sync(3) by (auto simp: trainable_def)
  have blk: "block_of q h1 = block_of q h" for q by (simp add: block_of_def assms(4) split: ptr.split)
  have "contents h1 b = contents h b" if mb: "b \<in> blobs_of p" for b
  proof -
    obtain z where "bdata (blobs h b) = Some z" "b < nblob h" using t mb by (auto simp: trainable_def)
    then show ?thesis using assms(5) [of b] assms(6) [of z] s [OF mb] by (simp add: contents_def Let_def blk)
  qed
  moreover have "at_ptr h1 b q" if "b \<in> blobs_of p" "at_ptr h b q" for b q
    using that t s [OF that(1)] assms(5) [of b] assms(6) by (auto simp: at_ptr_iff trainable_def)
  moreover have "separate h1 b c = separate h b c" if "b \<in> blobs_of p" "c \<in> blobs_of p" for b c
    using that t s assms(5,6) by (auto simp: separate_def trainable_def split: option.splits)
  ultimately show ?thesis
    using assms(1-3,5) t by (auto simp: vecs_def trainable_def)
qed

lemma Param_Setup_trainable:
  fixes h :: "('f :: {zero, one, uminus}) heap"
  assumes "wf_heap h" and "0 < sz" and "is_c_int sz"
  shows "\<exists>p1 h1. Param_Setup proto [sz] (fst (Param_new h)) (snd (Param_new h)) = Inr (p1, h1) \<and>
    trainable p1 h1 (nat sz) \<and> p1 = (fst (Param_new h))\<lparr>pdata := Some (nblob h + 2), pproto := proto\<rparr> \<and>
    shape (blobs h1 (nblob h + 2)) = [sz]"
proof -
  note w = wf_Param_new [OF assms(1)]
  obtain p1 h1 where p1: "Param_Setup proto [sz] (fst (Param_new h)) (snd (Param_new h)) = Inr (p1, h1)"
    "param_in p1 h1 (nat sz)" "p1 = (fst (Param_new h))\<lparr>pdata := Some (nblob (snd (Param_new h))), pproto := proto\<rparr>"
    using Param_Setup_spec [OF w(1-3) assms(2,3) w(4)] by blast
  have "trainable p1 h1 (nat sz)"
    using p1 assms(2) shape_count_single [OF assms(2,3)]
    by (auto simp: trainable_def blobs_of_def param_in_def Param_Setup_def Blob_new_shape_def Blob_new_def
        Param_new_def Reshape_def upd_blob_def SyncedMemory_new_def separate_def Let_def split: option.splits)
  moreover have "shape (blobs h1 (nblob h + 2)) = [sz]"
    using p1(1,3) assms(2) shape_count_single [OF assms(2,3)]
    by (auto simp: Param_Setup_def Blob_new_shape_def Blob_new_def Param_new_def Reshape_def upd_blob_def
        SyncedMemory_new_def Let_def)
  ultimately show ?thesis using p1 by (simp add: Param_new_def Blob_new_def)
qed


lemma Param_Setup_proto: "Param_Setup proto sh (p\<lparr>pproto := x\<rparr>) h = Param_Setup proto sh p h"
  by (simp add: Param_Setup_def)

lemma HandlePutMsg_vecs:
  fixes h :: "('f :: {zero, one, uminus}) heap"
  assumes "wf_heap h" and "frames m = Fmt [FI sz, FF lr, FF wc, FP Null] # Floats xs # rest"
    and "0 < sz" and "is_c_int sz" and "length xs = nat sz"
  shows "\<exists>p1 h1 c vec. HandlePutMsg (frame_at 0 m) (fst (Param_new h)) (snd (Param_new h)) = Inr (frame_at 1 m, p1, h1) \<and>
    p1 = (fst (Param_new h))\<lparr>pdata := Some (nblob h + 2), pproto := ParamProto_default\<rparr> \<and>
    vecs p1 (nat sz) [the (pdata p1) \<mapsto> c] vec h1 \<and> vec (the (pdata p1)) = xs \<and>
    shape (blobs h1 (the (pdata p1))) = [sz]"
proof -
  have ps: "ParseFormatFrame ''iffp'' (frame_at 0 m) = Inr [FI sz, FF lr, FF wc, FP Null]"
    using assms(2) by (simp add: ParseFormatFrame_def cur_frame_at parse_frame_def)
  have nx: "NextFrame (frame_at 0 m) = Inr (True, frame_at 1 m)"
    using assms(2) NextFrame_at [of "frame_at 0 m" 0] by (simp add: zcur_frame_at frame_at_def Let_def)
  have fr: "FrameFloats (frame_at 1 m) = Inr xs" "FrameSize (frame_at 1 m) = Inr (4 * int (length xs))"
    using assms(2) cur_frame_at [of 1 m] by (simp_all add: FrameFloats_def FrameSize_def)
  obtain p1 h1 where p1: "Param_Setup ParamProto_default [sz] (fst (Param_new h)) (snd (Param_new h)) = Inr (p1, h1)"
    "trainable p1 h1 (nat sz)" "p1 = (fst (Param_new h))\<lparr>pdata := Some (nblob h + 2), pproto := ParamProto_default\<rparr>"
    "shape (blobs h1 (nblob h + 2)) = [sz]"
    using Param_Setup_trainable [OF assms(1,3,4)] by blast
  let ?D = "the (pdata p1)"
  obtain c h2 where c: "mutable_cpu_data ?D h1 = Inr (c, h2)" "vecs p1 (nat sz) [?D \<mapsto> c] (contents h1) h2"
    using vecs_ptr [OF vecs_start [OF p1(2)] data_in, where Q = "\<lambda>(c, h2). vecs p1 (nat sz) [?D \<mapsto> c] (contents h1) h2"]
    by (auto simp: okR_def)
  obtain h3 where h3: "mem_write c xs h2 = Inr h3" "vecs p1 (nat sz) [?D \<mapsto> c] ((contents h1)(?D := xs)) h3"
    using vecs_write [OF c(2), where b = ?D and q = c and xs = xs
        and Q = "\<lambda>h3. vecs p1 (nat sz) [?D \<mapsto> c] ((contents h1)(?D := xs)) h3"] assms(5) by (auto simp: okR_def)
  have db: "data_blob p1 = Inr ?D" using p1(3) by (simp add: data_blob_def)
  have "HandlePutMsg (frame_at 0 m) (fst (Param_new h)) (snd (Param_new h)) = Inr (frame_at 1 m, p1, h3)"
    using ps nx fr p1(1) c(1) h3(1) db assms(3,5)
    by (simp add: HandlePutMsg_def Let_def Param_Setup_proto blob_write_def)
  moreover have "shape (blobs h3 ?D) = [sz]"
    using p1(3,4) mutable_cpu_data_frame(3) [OF c(1)] mem_write_frame(3) [OF h3(1)] by simp
  ultimately show ?thesis using p1(3) h3(2) by (intro exI [of _ p1] exI [of _ h3] exI [of _ c] exI) auto
qed

lemma std_equal_refl: "std_equal xs xs = Inr True"
  by (induction xs) simp_all

lemma keep_fresh:
  assumes "vecs p n [the (pdata p) \<mapsto> c] vec h" and "is_c_int (int n)"
  defines "D \<equiv> the (pdata p)" and "b \<equiv> nblob h"
  shows "\<exists>h1. Reshape b [int n] (snd (Blob_new h)) = Inr h1 \<and> vecs (p\<lparr>phistory := b\<rparr>) n [D \<mapsto> c] (contents h1) h1 \<and>
    contents h1 D = vec D \<and> shape (blobs h1 b) = [int n] \<and> bcount (blobs h1 b) = int n \<and> bdata (blobs h1 b) \<noteq> None \<and>
    blobs h1 D = blobs h D"
proof -
  let ?h0 = "snd (Blob_new h)"
  have t: "trainable p h n" using assms(1) by (simp add: vecs_def)
  then have wf: "wf_heap h" "0 < n" by (simp_all add: trainable_def)
  have h0: "wf_heap ?h0" "nblob ?h0 = b + 1" using Blob_new_spec [OF wf(1)] by (simp_all add: Blob_new_def b_def)
  have sc: "shape_count [int n] = Inr (int n)" using shape_count_single [of "int n"] wf(2) assms(2) by simp
  obtain h1 where h1: "Reshape b [int n] ?h0 = Inr h1" "wf_heap h1"
    using Reshape_spec [OF h0(1) _ sc, of b] h0(2) wf(2) by auto
  have eff: "h1 = (let h2 = snd (SyncedMemory_new n (upd_blob b (\<lambda>x. x\<lparr>shape := [int n], bcount := int n\<rparr>) ?h0)) in
      upd_blob b (\<lambda>x. x\<lparr>bcapacity := int n, bdata := Some (nsync h)\<rparr>) h2)"
    using h1(1) sc wf(2) by (simp add: Reshape_def Let_def Blob_new_def upd_blob_def SyncedMemory_new_def b_def)
  note eff1 = eff Let_def Blob_new_def upd_blob_def SyncedMemory_new_def b_def
  have v1: "vecs p n [D \<mapsto> c] vec h1"
    using h1(2) by (intro vecs_ext [OF assms(1) [folded D_def]]) (simp_all add: eff1)
  have b1: "shape (blobs h1 b) = [int n]" "bcount (blobs h1 b) = int n" "bdata (blobs h1 b) = Some (nsync h)"
    "sm_head (syncs h1 (nsync h)) = UNINITIALIZED" "nblob h1 = b + 1" "blobs h1 D = blobs h D"
    using trainable_blob(2) [OF t data_in] by (simp_all add: eff1 D_def)
  have sep: "separate h1 b d" "separate h1 d b" if "d \<in> blobs_of p" for d
    using that t wf_blob_sync(3) [OF wf(1)] b1(3,4) v1 trainable_blob(2) [OF t that]
    by (auto simp: separate_def eff1 split: option.splits)
  have t1: "trainable (p\<lparr>phistory := b\<rparr>) h1 n"
    using v1 sep b1(2,3,5) trainable_blob(2) [OF t grad_in] trainable_blob(2) [OF t data_in]
    by (auto simp: vecs_def trainable_def blobs_of_def b_def)
  then show ?thesis using v1 h1(1) b1 by (auto simp: vecs_def blobs_of_def D_def)
qed

lemma keep_last_spec:
  assumes "vecs p n [the (pdata p) \<mapsto> c] vec h" and "shape (blobs h (the (pdata p))) = [int n]" and "is_c_int (int n)"
  shows "\<exists>h1. keep_last slc p s h = Inr (s\<lparr>last_data := (last_data s)(slc \<mapsto> nblob h)\<rparr>, h1) \<and>
    trainable (p\<lparr>phistory := nblob h\<rparr>) h1 n \<and> data_of p h1 = vec (the (pdata p)) \<and>
    contents h1 (nblob h) = vec (the (pdata p)) \<and> bversion (blobs h1 (the (pdata p))) = bversion (blobs h (the (pdata p)))"
proof -
  let ?D = "the (pdata p)" and ?b = "nblob h" and ?q = "p\<lparr>phistory := nblob h\<rparr>"
  have t: "trainable p h n" using assms(1) by (simp add: vecs_def)
  obtain h1 where h1: "Reshape ?b [int n] (snd (Blob_new h)) = Inr h1" "vecs ?q n [?D \<mapsto> c] (contents h1) h1"
    "contents h1 ?D = vec ?D" "shape (blobs h1 ?b) = [int n]" "bcount (blobs h1 ?b) = int n" "bdata (blobs h1 ?b) \<noteq> None"
    "blobs h1 ?D = blobs h ?D"
    using keep_fresh [OF assms(1,3)] assms(2) by auto
  have bq: "?b \<in> blobs_of ?q" and ne: "?b \<noteq> ?D" using trainable_blob(2) [OF t data_in] by (auto simp: blobs_of_def)
  obtain pv h2 where pv: "mutable_cpu_data ?b h1 = Inr (pv, h2)" "vecs ?q n [?D \<mapsto> c, ?b \<mapsto> pv] (contents h1) h2"
    using vecs_ptr [OF h1(2) bq, where Q = "\<lambda>(pv, h2). vecs ?q n [?D \<mapsto> c, ?b \<mapsto> pv] (contents h1) h2"] by (auto simp: okR_def)
  have cd: "cpu_data ?D h2 = Inr (c, h2)" using vecs_qs [OF pv(2), of ?D c] ne by (intro at_ptr_cpu) simp
  have rd: "mem_read c n h2 = Inr (vec ?D)"
    using vecs_read [OF pv(2), where b = ?D and q = c and Q = "\<lambda>x. x = contents h1 ?D"] ne h1(3) by (simp add: okR_def)
  have "okR (mem_write pv (vec ?D) h2) (vecs ?q n Map.empty ((contents h1)(?b := vec ?D)))"
    using vecs_length [OF assms(1) data_in]
    by (intro vecs_write [OF pv(2), where b = ?b]) (auto intro: vecs_forget)
  then obtain h3 where h3: "mem_write pv (vec ?D) h2 = Inr h3" "vecs ?q n Map.empty ((contents h1)(?b := vec ?D)) h3"
    by (auto simp: okR_def split: sum.splits)
  have cnt: "bcount (blobs h2 ?b) = int n" using mutable_cpu_data_frame(3) [OF pv(1)] h1(5) by simp
  have "CopyFrom ?b ?D False h1 = Inr h3"
    using pv(1) cd rd h3(1) h1(4,6,7) cnt assms(2)
    by (auto simp: CopyFrom_def std_equal_refl with_data_def mutable_cpu_data_def)
  moreover have "data_blob p = Inr ?D" using t by (auto simp: trainable_def data_blob_def)
  moreover have "ReshapeLike ?b ?D (snd (Blob_new h)) = Inr h1"
    using h1(1) assms(2) trainable_blob(2) [OF t data_in] by (simp add: ReshapeLike_def Blob_new_def)
  ultimately have "keep_last slc p s h = Inr (s\<lparr>last_data := (last_data s)(slc \<mapsto> ?b)\<rparr>, h3)"
    by (simp add: keep_last_def case_prod_beta) (simp add: Blob_new_def)
  moreover have "blobs h3 ?D = blobs h ?D"
    using mutable_cpu_data_frame(3) [OF pv(1)] mem_write_frame(3) [OF h3(1)] h1(7) by simp
  ultimately show ?thesis
    using h3(2) ne h1(3) by (auto simp: vecs_def data_of_def blobs_of_def)
qed


definition put_req :: "int \<Rightarrow> 'f msg \<Rightarrow> 'f list \<Rightarrow> int \<Rightarrow> bool" where
  "put_req slc m xs k \<longleftrightarrow> m = FirstFrame m \<and> SliceID (trgt_val m) = slc \<and> xs \<noteq> [] \<and> is_c_int (int (length xs)) \<and>
     (\<exists>lr wc. frames m = [Fmt [FI (int (length xs)), FF lr, FF wc, FP Null], Floats xs, Fmt [FI k]])"

lemma put_req_shares:
  assumes "put_req slc m xs k"
  shows "put_shares (frame_at 1 m) = Inr k"
proof -
  have len: "length (frames m) = 3" and f2: "frames m ! 2 = Fmt [FI k]" using assms by (auto simp: put_req_def)
  have "NextFrame (frame_at 1 m) = Inr (True, frame_at 2 m)"
    using NextFrame_at [of "frame_at 1 m" 1] len zcur_frame_at [of 1 m]
    by (simp add: frame_at_def Let_def numeral_2_eq_2)
  moreover have "parse_copy (frame_at 2 m) = Inr k"
    using cur_frame_at [of 2 m] len f2 by (simp add: parse_copy_def ParseFormatFrame_def parse_frame_def)
  ultimately show ?thesis by (simp add: put_shares_def)
qed

lemma vecs_versions:
  assumes "vecs p n qs vec h"
  shows "vecs (set_id i (p\<lparr>local_version := v\<rparr>)) n qs vec (set_version b w h)"
proof -
  have wf: "wf_heap h" using assms by (simp add: vecs_def trainable_def)
  have "wf_heap (set_version b w h)"
    using wf by (auto simp: wf_heap_def wf_sync_def wf_blob_def region_def set_version_def upd_blob_def split: option.splits)
  then have "vecs p n qs vec (set_version b w h)"
    by (intro vecs_ext [OF assms]) (auto simp: set_version_def upd_blob_def)
  then show ?thesis by (simp add: vecs_def trainable_def blobs_of_def set_id_def)
qed

text \<open>
  What a server holds for a slice: one parameter of \<open>n\<close> floats \<open>xs\<close>, at version \<open>v\<close>.
\<close>

definition serves :: "int \<Rightarrow> ('f :: zero) store \<Rightarrow> nat \<Rightarrow> 'f list \<Rightarrow> int \<Rightarrow> bool" where
  "serves slc st n xs v \<longleftrightarrow> (\<exists>a. slice_param slc st = Inr a \<and> param_in (params st a) (mem st) n \<and>
     data_of (params st a) (mem st) = xs \<and> param_version (params st a) (mem st) = Inr v)"

lemma HandlePut_opens:
  fixes st :: "('f :: {zero, one, uminus}) store"
  assumes "wf_heap (mem st)" and "put_req slc m xs k" and "server_shard st slc = None"
  shows "\<exists>p h c vec. vecs p (length xs) [the (pdata p) \<mapsto> c] vec h \<and> vec (the (pdata p)) = xs \<and>
    shape (blobs h (the (pdata p))) = [int (length xs)] \<and> bversion (blobs h (the (pdata p))) = trgt_version m \<and>
    local_version p = trgt_version m \<and> pp_id (pproto p) = slc \<and>
    Server_HandlePut conf raw m s st =
      bindR (if 1 < nserver_groups conf then
          bindR (idxR (slice2group s) slc) (\<lambda>g. if g \<noteq> grp_id s then keep_last slc p s h else Inr (s, h))
        else Inr (s, h))
      (\<lambda>(s1, h3). Inr (s1, st\<lparr>params := (params st)(nparam st := p), nparam := nparam st + 1, mem := h3,
        server_shard := (server_shard st)(slc \<mapsto> ParamEntry_put raw k (nparam st))\<rparr>))"
proof -
  obtain lr wc where m: "frames m = [Fmt [FI (int (length xs)), FF lr, FF wc, FP Null], Floats xs, Fmt [FI k]]"
    "m = frame_at 0 m" "SliceID (trgt_val m) = slc" "0 < int (length xs)" "is_c_int (int (length xs))"
    using assms(2) by (auto simp: put_req_def FirstFrame_def)
  obtain p1 h1 c vec where p1: "HandlePutMsg m (fst (Param_new (mem st))) (snd (Param_new (mem st))) = Inr (frame_at 1 m, p1, h1)"
    "p1 = (fst (Param_new (mem st)))\<lparr>pdata := Some (nblob (mem st) + 2), pproto := ParamProto_default\<rparr>"
    "vecs p1 (length xs) [the (pdata p1) \<mapsto> c] vec h1" "vec (the (pdata p1)) = xs"
    "shape (blobs h1 (the (pdata p1))) = [int (length xs)]"
    using HandlePutMsg_vecs [OF assms(1) m(1,4,5)] m(2) by auto
  define p where "p = set_id slc (p1\<lparr>local_version := trgt_version m\<rparr>)"
  define h where "h = set_version (the (pdata p1)) (trgt_version m) h1"
  have pd: "pdata p = pdata p1" "data_blob p1 = Inr (the (pdata p1))" using p1(2) by (simp_all add: p_def set_id_def data_blob_def)
  have v: "vecs p (length xs) [the (pdata p) \<mapsto> c] vec h" using vecs_versions [OF p1(3)] pd by (simp add: p_def h_def)
  have "Server_HandlePut conf raw m s st = bindR (if 1 < nserver_groups conf then
          bindR (idxR (slice2group s) slc) (\<lambda>g. if g \<noteq> grp_id s then keep_last slc p s h else Inr (s, h))
        else Inr (s, h))
      (\<lambda>(s1, h3). Inr (s1, st\<lparr>params := (params st)(nparam st := p), nparam := nparam st + 1, mem := h3,
        server_shard := (server_shard st)(slc \<mapsto> ParamEntry_put raw k (nparam st))\<rparr>))"
    using assms(3) m(3) p1(1) put_req_shares [OF assms(2)] pd
    by (simp add: Server_HandlePut_def Let_def case_prod_beta param_set_version_def p_def h_def cong: if_cong)
  then show ?thesis
    using v p1(4,5) pd
    by (intro exI [of _ p] exI [of _ h] exI [of _ c] exI [of _ vec])
       (simp add: h_def p_def set_id_def set_version_def upd_blob_def)
qed

lemma trainable_other_history:
  fixes p :: "('f :: zero) Param"
  assumes "trainable (p\<lparr>phistory := b\<rparr>) h n" and "phistory p < nblob h"
  shows "param_in p h n"
  using assms(2) trainable_blob [OF assms(1)] assms(1) unfolding param_in_def
  by (auto simp: trainable_def blobs_of_def)

lemma trainable_param_in:
  fixes p :: "('f :: zero) Param"
  assumes "trainable p h n"
  shows "param_in p h n"
  using trainable_other_history [where p = p and b = "phistory p"] assms trainable_blob(2) [OF assms hist_in] by simp

lemma slice_param_put:
  "slice_param slc (st\<lparr>params := q, nparam := k, mem := h, server_shard := (server_shard st)(slc \<mapsto> ParamEntry_put raw t a)\<rparr>) = Inr a"
  by (simp add: slice_param_def entry_at_def ParamEntry_put_def atR_def)

text \<open>
  C11. A put by value on a server that does not have the slice succeeds and leaves the server with
  the floats of the message at the version of the message, and with an entry that waits for as many
  shares as the stub announced. With several server groups the server of the mastering group is
  then a master of the slice, every other one a replica whose copy of the last exchange equals its
  data, which are the hypotheses of a synchronisation round. A second put of the slice aborts.
\<close>

theorem put_installs:
  fixes st :: "('f :: {zero, one, uminus}) store"
  assumes "wf_heap (mem st)" and "put_req slc m xs k" and "server_shard st slc = None"
    and "idxR (slice2group s) slc = Inr g"
  shows "\<exists>s1 st1. Server_HandlePut conf raw m s st = Inr (s1, st1) \<and>
    serves slc st1 (length xs) xs (trgt_version m) \<and>
    map_option num_total (server_shard st1 slc) = Some k \<and> map_option num_update (server_shard st1 slc) = Some 0 \<and>
    (\<forall>slc2. slc2 \<noteq> slc \<longrightarrow> server_shard st1 slc2 = server_shard st slc2) \<and>
    (1 < nserver_groups conf \<longrightarrow>
      (if g = grp_id s then master slc s1 st1 (length xs) xs else replica slc s1 st1 (length xs) xs xs)) \<and>
    (\<forall>m2. SliceID (trgt_val m2) = slc \<longrightarrow> Server_HandlePut conf raw m2 s1 st1 = Inl CheckFailed)"
proof -
  obtain p h c vec where p: "vecs p (length xs) [the (pdata p) \<mapsto> c] vec h" "vec (the (pdata p)) = xs"
    "shape (blobs h (the (pdata p))) = [int (length xs)]" "bversion (blobs h (the (pdata p))) = trgt_version m"
    "local_version p = trgt_version m" "pp_id (pproto p) = slc"
    and eq: "Server_HandlePut conf raw m s st =
      bindR (if 1 < nserver_groups conf then
          bindR (idxR (slice2group s) slc) (\<lambda>g. if g \<noteq> grp_id s then keep_last slc p s h else Inr (s, h))
        else Inr (s, h))
      (\<lambda>(s1, h3). Inr (s1, st\<lparr>params := (params st)(nparam st := p), nparam := nparam st + 1, mem := h3,
        server_shard := (server_shard st)(slc \<mapsto> ParamEntry_put raw k (nparam st))\<rparr>))"
    using HandlePut_opens [OF assms(1-3), of conf raw s] by blast
  define st1 where "st1 h3 = st\<lparr>params := (params st)(nparam st := p), nparam := nparam st + 1, mem := h3,
        server_shard := (server_shard st)(slc \<mapsto> ParamEntry_put raw k (nparam st))\<rparr>" for h3
  have sp: "slice_param slc (st1 h3) = Inr (nparam st)" "params (st1 h3) (nparam st) = p" "mem (st1 h3) = h3" for h3
    using slice_param_put by (simp_all add: st1_def)
  have again: "Server_HandlePut conf raw m2 s1 (st1 h3) = Inl CheckFailed" if "SliceID (trgt_val m2) = slc" for m2 s1 h3
    using that by (simp add: Server_HandlePut_def Let_def st1_def)
  have pd: "data_blob p = Inr (the (pdata p))" using p(1) by (auto simp: vecs_def trainable_def data_blob_def)
  have t: "trainable p h (length xs)" "data_of p h = xs" using p(1,2) by (auto simp: vecs_def data_of_def blobs_of_def)
  have stay: "serves slc (st1 h3) (length xs) xs (trgt_version m)"
    if "param_in p h3 (length xs)" "data_of p h3 = xs" "bversion (blobs h3 (the (pdata p))) = trgt_version m" for h3
    using that pd sp by (auto simp: serves_def param_version_def)
  show ?thesis
  proof (cases "1 < nserver_groups conf \<and> g \<noteq> grp_id s")
    case True
    let ?b = "nblob h" and ?s = "s\<lparr>last_data := (last_data s)(slc \<mapsto> nblob h)\<rparr>"
    have "is_c_int (int (length xs))" using assms(2) by (simp add: put_req_def)
    then obtain h3 where h3: "keep_last slc p s h = Inr (?s, h3)" "trainable (p\<lparr>phistory := ?b\<rparr>) h3 (length xs)"
      "data_of p h3 = xs" "contents h3 ?b = xs" "bversion (blobs h3 (the (pdata p))) = trgt_version m"
      using keep_last_spec [OF p(1,3)] p(2,4) by auto
    have "Server_HandlePut conf raw m s st = Inr (?s, st1 h3)" using eq True assms(4) h3(1) by (simp add: st1_def)
    moreover have "replica slc ?s (st1 h3) (length xs) xs xs"
      using True assms(4) sp p(6) h3(2-4) by (auto simp: replica_def)
    moreover have "serves slc (st1 h3) (length xs) xs (trgt_version m)"
      using trainable_blob(2) [OF t(1) hist_in] trainable_blob(2) [OF h3(2) hist_in]
      by (intro stay [OF trainable_other_history [OF h3(2)] h3(3,5)]) simp
    ultimately show ?thesis using True again by (auto simp: st1_def ParamEntry_put_def)
  next
    case False
    have "Server_HandlePut conf raw m s st = Inr (s, st1 h)" using eq False assms(4) by (auto simp: st1_def)
    moreover have "serves slc (st1 h) (length xs) xs (trgt_version m)"
      by (rule stay [OF trainable_param_in [OF t(1)] t(2) p(4)])
    moreover have "g = grp_id s \<Longrightarrow> master slc s (st1 h) (length xs) xs"
      using assms(4) sp t by (auto simp: master_def)
    ultimately show ?thesis using False again by (auto simp: st1_def ParamEntry_put_def)
  qed
qed

definition empty_store :: "real store" where
  "empty_store = \<lparr>params = (\<lambda>_. fst (Param_new heap0)), nparam = 0, mem = heap0, server_shard = Map.empty\<rparr>"

definition demo_put :: "real msg" where
  "demo_put = FirstFrame ((Msg_new 0 0)\<lparr>msg_type := kPut, trgt_version := 4,
     frames := [Fmt [FI 2, FF 1, FF 1, FP Null], Floats [5, 7], Fmt [FI 3]]\<rparr>)"

definition demo_entry :: ParamEntry where
  "demo_entry = \<lparr>num_update = 0, next_version = - 1, num_local = 0, num_total = 0, shares = []\<rparr>"

definition two_groups :: ClusterProto where
  "two_groups = small_conf\<lparr>nserver_groups := 2\<rparr>"

lemma demo_put_req: "put_req 0 demo_put [5, 7] 3"
  by (simp add: put_req_def demo_put_def FirstFrame_def frame_at_def Let_def Msg_new_def SliceID_def is_c_int_def)

theorem put_installs_witness:
  "\<exists>s1 st1. Server_HandlePut two_groups demo_entry demo_put (demo_replica\<lparr>last_data := Map.empty\<rparr>) empty_store = Inr (s1, st1) \<and>
    serves 0 st1 2 [5, 7] 4 \<and> replica 0 s1 st1 2 [5, 7] [5, 7]"
proof -
  have v: "trgt_version demo_put = 4" by (simp add: demo_put_def FirstFrame_def frame_at_def Let_def)
  show ?thesis
    using put_installs [OF _ demo_put_req, of empty_store "demo_replica\<lparr>last_data := Map.empty\<rparr>" 0 two_groups demo_entry]
    by (auto simp: empty_store_def wf_heap0 two_groups_def demo_replica_def demo_srv_def Server_new_def idxR_def v
        eval_nat_numeral)
qed

text \<open>
  C12. A server that has a slice answers a get by value for any version it has reached with its
  floats, its version and the addresses swapped, and its floats stay; a get for a version it has
  not reached is handed back as it came, so that it is queued again, and nothing changes.
\<close>

theorem get_serves:
  fixes st :: "('f :: zero) store"
  assumes "serves (SliceID (trgt_val m)) st n xs v" and "frames m = [Fmt [FI 1, FP q]]" and "m = FirstFrame m"
  shows "if v < trgt_version m then Server_HandleGet m st = Inr (m, st)
    else \<exists>r st1. Server_HandleGet m st = Inr (r, st1) \<and> msg_type r = kRGet \<and>
      frames r = [Fmt [FI 1, FP q], Floats xs] \<and> trgt_val r = trgt_val m \<and> trgt_version r = v \<and>
      msg_src r = msg_dst m \<and> msg_dst r = msg_src m \<and> serves (SliceID (trgt_val m)) st1 n xs v"
proof -
  obtain a where a: "slice_param (SliceID (trgt_val m)) st = Inr a" "param_in (params st a) (mem st) n"
    "data_of (params st a) (mem st) = xs" "param_version (params st a) (mem st) = Inr v"
    using assms(1) by (auto simp: serves_def)
  have new: "Server_HandleGet m st = Inr (m, st)" if "v < trgt_version m"
    using that a by (simp add: Server_HandleGet_def Let_def)
  obtain r h1 where r: "HandleGetMsg m (params st a) (mem st) = Inr (r, h1)"
    "frames r = [Fmt [FI 1, FP q], Floats xs]" "msg_type r = kRGet" "msg_src r = msg_dst m" "msg_dst r = msg_src m"
    "param_in (params st a) h1 n" "data_of (params st a) h1 = xs" "blobs h1 = blobs (mem st)"
    using HandleGetMsg_copy [OF a(2) assms(2)] assms(3) a(3) by metis
  have v: "param_version (params st a) h1 = Inr v" using a(4) r(8) by (simp add: param_version_def)
  have "Server_HandleGet m st = Inr (set_trgt (trgt_val m) v r, st\<lparr>mem := h1\<rparr>)" if "\<not> v < trgt_version m"
    using a that r(1) v by (simp add: Server_HandleGet_def Let_def)
  moreover have "serves (SliceID (trgt_val m)) (st\<lparr>mem := h1\<rparr>) n xs v"
    using r(6,7) a(1) v by (auto simp: serves_def slice_param_def entry_at_def)
  ultimately show ?thesis using new r(2-5) by (auto simp: set_trgt_def)
qed

lemma demo_serves: "serves 0 demo_store 2 [0, 0] (- 1)"
proof -
  have "param_in (fst (demo_sized 2)) (snd (demo_sized 2)) 2" using demo_sized_ok [of 2] by (simp add: is_c_int_def)
  moreover have "data_of (fst (demo_sized 2)) (snd (demo_sized 2)) = [0, 0]"
    "param_version (fst (demo_sized 2)) (snd (demo_sized 2)) = Inr (- 1)"
    by (simp_all add: demo_sized_def Param_Setup_def Blob_new_shape_def Blob_new_def Param_new_def Reshape_def
        shape_count_def is_c_int_def heap0_def upd_blob_def SyncedMemory_new_def Let_def ParamProto_default_def
        data_of_def contents_def numeral_2_eq_2 param_version_def data_blob_def)
  ultimately show ?thesis by (simp add: serves_def demo_store_def slice_param_def entry_at_def atR_def)
qed

definition demo_get :: "real msg" where
  "demo_get = FirstFrame ((Msg_new 5 6)\<lparr>trgt_version := - 1, frames := [Fmt [FI 1, FP Null]]\<rparr>)"

theorem get_serves_witness:
  "\<exists>r st1. Server_HandleGet demo_get demo_store = Inr (r, st1) \<and>
    frames r = [Fmt [FI 1, FP Null], Floats [0, 0]] \<and> msg_dst r = 5"
proof -
  have m: "SliceID (trgt_val demo_get) = 0" "trgt_version demo_get = - 1" "msg_src demo_get = 5"
    "demo_get = FirstFrame demo_get" "frames demo_get = [Fmt [FI 1, FP Null]]"
    by (simp_all add: demo_get_def FirstFrame_def frame_at_def Let_def Msg_new_def SliceID_def)
  have "serves (SliceID (trgt_val demo_get)) demo_store 2 [0, 0] (- 1)" using demo_serves m(1) by simp
  from get_serves [OF this m(5,4)] show ?thesis using m(2,3) by auto
qed

end
