(* ===== verification/Worker.thy ===== *)
theory Worker
  imports Server Common
begin

text \<open>
  Model of \<open>src/include/trainer/worker.h\<close> and \<open>src/src/trainer/worker.cc\<close>: the thread that computes
  features and gradients of the layers of one partition and asks for put, get and update of their
  parameters; back-propagation and contrastive divergence.

  A neural net is a list of layers, addressed by a number (the \<open>shared_ptr\<close>), so that a worker that
  has two pointers to one net sees one net. What the virtual methods \<open>ComputeFeature\<close>,
  \<open>ComputeGradient\<close> and \<open>ComputeLoss\<close> of the layers do is the argument \<open>ops\<close>, except for the bridge
  layers, whose methods are in \<open>src/include/neuralnet/base_layer.h\<close>. \<open>wstate\<close> holds what the methods
  change: the nets, the counters, the parameters with the heap, the messages that arrive for the
  layer dealer and those that both dealers send. Waiting for another thread is the outcome
  \<open>Blocked\<close>.
\<close>

section \<open>Configuration, layers and state\<close>

datatype Phase = kTrain | kValidation | kTest | kPositive | kNegative | kForward | kBackward | kLoss

datatype GradCalcAlg = kBackPropagation | kContrastiveDivergence

record 'f ModelProto =
  display_frequency :: int
  train_steps :: int
  mp_updater :: "'f UpdaterProto"
  alg :: GradCalcAlg
  validation_steps :: int
  test_steps :: int
  validation_frequency :: int
  test_frequency :: int
  checkpoint_frequency :: int
  vis_frequency :: int
  vis_samples :: int
  display_after :: int
  checkpoint_after :: int
  test_after :: int
  validation_after :: int
  vis_after :: int
  mp_step :: int
  debug :: bool
  checkpoint :: "string list"
  reset_param_version :: bool
  pcd_k :: int

text \<open>
  \<open>class Layer\<close>: \<open>l_data\<close> is the blob of \<open>data(nullptr)\<close>, \<open>dstlayers\<close> are positions in the net,
  \<open>l_obj\<close> is the object whose methods are called.
\<close>

record Layer =
  l_obj :: nat
  l_name :: string
  partition_id :: int
  l_params :: "nat list"
  l_data :: nat
  dstlayers :: "nat list"
  is_bridgesrclayer :: bool
  is_bridgedstlayer :: bool
  is_vislayer :: bool
  is_hidlayer :: bool
  ready :: bool

definition is_bridgelayer :: "Layer \<Rightarrow> bool" where
  "is_bridgelayer l \<longleftrightarrow> is_bridgesrclayer l \<or> is_bridgedstlayer l"

record 'f layer_ops =
  ComputeFeature_of :: "nat \<Rightarrow> Phase \<Rightarrow> 'f metric \<Rightarrow> 'f heap \<Rightarrow> ('f metric \<times> 'f heap) res"
  ComputeGradient_of :: "nat \<Rightarrow> Phase \<Rightarrow> 'f heap \<Rightarrow> 'f heap res"
  ComputeLoss_of :: "nat \<Rightarrow> 'f metric \<Rightarrow> 'f heap \<Rightarrow> ('f metric \<times> 'f heap) res"

record 'f Worker =
  wthread :: int
  wgrp :: int
  wid :: int
  wstep :: int
  modelproto :: "'f ModelProto"
  train_net :: "nat option"
  test_net :: "nat option"
  validation_net :: "nat option"
  wupdater :: "'f Updater option"
  wworkspace :: string

record 'f wstate =
  nets :: "nat \<Rightarrow> Layer list"
  perf :: "'f metric"
  wst :: "'f store"
  inbox :: "'f msg list"
  layer_out :: "'f msg list"
  param_out :: "'f msg list"

text \<open>The constructor sets three members and the pointers; \<open>raw\<close> is the fresh memory.\<close>

definition Worker_new :: "'f Worker \<Rightarrow> int \<Rightarrow> int \<Rightarrow> int \<Rightarrow> 'f Worker" where
  "Worker_new raw t g i = raw\<lparr>wthread := t, wgrp := g, wid := i, train_net := None, test_net := None,
     validation_net := None, wupdater := None, wworkspace := []\<rparr>"

definition Worker_Setup ::
  "ClusterProto \<Rightarrow> 'f Updater \<Rightarrow> 'f ModelProto \<Rightarrow> nat option \<Rightarrow> nat option \<Rightarrow> nat option \<Rightarrow> 'f Worker \<Rightarrow> 'f Worker res" where
  "Worker_Setup conf u0 model train valid test w =
     (let w1 = w\<lparr>modelproto := model, train_net := train, validation_net := valid, test_net := test,
            wworkspace := workspace conf\<rparr> in
      if \<not> (nserver_groups conf \<noteq> 0 \<and> server_update conf) then
        bindR (SGD_Init (mp_updater model) u0) (\<lambda>u. Inr (w1\<lparr>wupdater := Some u\<rparr>))
      else Inr w1)"

text \<open>The parameters of the layers that this worker computes.\<close>

definition local_params :: "int \<Rightarrow> Layer list \<Rightarrow> nat list" where
  "local_params i ls = concat (map l_params (filter (\<lambda>l. partition_id l = i) ls))"

definition owns :: "'f Param \<Rightarrow> bool" where
  "owns p \<longleftrightarrow> pp_owner (pproto p) = pp_id (pproto p)"

section \<open>Initial values and checkpoints\<close>

record 'f BlobProtos =
  bps_version :: "int list"
  bps_name :: "string list"
  bps_blob :: "'f BlobProto list"

text \<open>\<open>name2param\<close> as an association list.\<close>

fun name_params :: "(nat \<Rightarrow> 'f Param) \<Rightarrow> nat list \<Rightarrow> (string \<times> nat) list \<Rightarrow> (string \<times> nat) list res" where
  "name_params ps [] acc = Inr acc"
| "name_params ps (a # as) acc =
     (if owns (ps a) then
        checkR (map_of acc (pp_name (pproto (ps a))) = None) CheckFailed
          (name_params ps as (acc @ [(pp_name (pproto (ps a)), a)]))
      else name_params ps as acc)"

definition load_blob ::
  "'f ModelProto \<Rightarrow> (nat \<Rightarrow> 'f Param) \<Rightarrow> (string \<times> nat) list \<Rightarrow> 'f BlobProtos \<Rightarrow> ('f :: zero) heap \<Rightarrow> nat \<Rightarrow> 'f heap res" where
  "load_blob model ps n2p bps h i =
     (case map_of n2p (bps_name bps ! i) of
        None \<Rightarrow> Inr h
      | Some a \<Rightarrow>
          bindR (idxR (bps_blob bps) (int i)) (\<lambda>bp.
          bindR (Param_FromProto bp (ps a) h) (\<lambda>h1.
          bindR (if reset_param_version model then Inr (mp_step model) else idxR (bps_version bps) (int i)) (\<lambda>v.
            param_set_version v (ps a) h1))))"

text \<open>\<open>ReadProtoFromBinaryFile\<close> checks that the file is there; \<open>fs\<close> are the files that parse.\<close>

definition load_checkpoint ::
  "(string \<rightharpoonup> 'f BlobProtos) \<Rightarrow> 'f ModelProto \<Rightarrow> (nat \<Rightarrow> 'f Param) \<Rightarrow> (string \<times> nat) list \<Rightarrow> ('f :: zero) heap \<Rightarrow>
   string \<Rightarrow> 'f heap res" where
  "load_checkpoint fs model ps n2p h file =
     (case fs file of
        None \<Rightarrow> Inl CheckFailed
      | Some bps \<Rightarrow> foldR (load_blob model ps n2p bps) h [0..<length (bps_name bps)])"

definition init_unset ::
  "('f, 'r) sampler \<Rightarrow> int \<Rightarrow> (nat \<Rightarrow> ('f :: {zero, times, divide}) Param) \<Rightarrow> 'f heap \<times> 'r \<Rightarrow> string \<times> nat \<Rightarrow>
   ('f heap \<times> 'r) res" where
  "init_unset S step ps hr e =
     bindR (param_version (ps (snd e)) (fst hr)) (\<lambda>v.
       if v < 0 then InitValues S step (ps (snd e)) (fst hr) (snd hr) else Inr hr)"

text \<open>\<open>ord\<close> is the order in which the hash map is walked.\<close>

definition InitLocalParams ::
  "ClusterProto \<Rightarrow> (string \<rightharpoonup> 'f BlobProtos) \<Rightarrow> ((string \<times> nat) list \<Rightarrow> (string \<times> nat) list) \<Rightarrow> ('f, 'r) sampler \<Rightarrow>
   'f Worker \<Rightarrow> Layer list \<Rightarrow> (nat \<Rightarrow> ('f :: {zero, times, divide}) Param) \<Rightarrow> 'f heap \<times> 'r \<Rightarrow> ('f heap \<times> 'r) res" where
  "InitLocalParams conf fs ord S w ls ps hr =
     checkR (nworker_groups_per_server_group conf \<noteq> 0) Undefined
     (if wgrp w smod nworker_groups_per_server_group conf = 0 then
        bindR (name_params ps (local_params (wid w) ls) []) (\<lambda>n2p.
        bindR (foldR (load_checkpoint fs (modelproto w) ps n2p) (fst hr) (checkpoint (modelproto w))) (\<lambda>h1.
          foldR (init_unset S (mp_step (modelproto w)) ps) (h1, snd hr) (ord n2p)))
      else Inr hr)"

definition dump_param ::
  "(nat \<Rightarrow> 'f Param) \<Rightarrow> 'f BlobProtos \<times> ('f :: zero) heap \<Rightarrow> nat \<Rightarrow> ('f BlobProtos \<times> 'f heap) res" where
  "dump_param ps s a =
     (let p = ps a; bps = fst s in
      if owns p then
        bindR (Param_ToProto \<lparr>bp_shape = [], bp_data = []\<rparr> p (snd s)) (\<lambda>(bp, h1).
        bindR (param_version p h1) (\<lambda>v.
          Inr (bps\<lparr>bps_version := bps_version bps @ [v], bps_name := bps_name bps @ [pp_name (pproto p)],
            bps_blob := bps_blob bps @ [bp]\<rparr>, h1)))
      else Inr s)"

text \<open>The path is cut off by \<open>snprintf\<close> with a buffer of 256; the file is the result.\<close>

definition checkpoint_path :: "ClusterProto \<Rightarrow> int \<Rightarrow> int \<Rightarrow> string" where
  "checkpoint_path conf step i =
     take 255 (checkpoint_folder conf @ ''/step'' @ print_d step @ ''-worker'' @ print_d i @ ''.bin'')"

definition Checkpoint ::
  "ClusterProto \<Rightarrow> int \<Rightarrow> 'f Worker \<Rightarrow> Layer list \<Rightarrow> (nat \<Rightarrow> 'f Param) \<Rightarrow> ('f :: zero) heap \<Rightarrow>
   ((string \<times> 'f BlobProtos) option \<times> 'f heap) res" where
  "Checkpoint conf step w ls ps h =
     (if wgrp w = 0 then
        bindR (foldR (dump_param ps) (\<lparr>bps_version = [], bps_name = [], bps_blob = []\<rparr>, h) (local_params (wid w) ls))
          (\<lambda>(bps, h1). Inr (Some (checkpoint_path conf step (wid w), bps), h1))
      else Inr (None, h))"

section \<open>Requests\<close>

definition to_stub :: "'f Worker \<Rightarrow> int \<Rightarrow> 'f msg" where
  "to_stub w type = (Msg_new (Addr (wgrp w) (wid w) kWorkerParam) (Addr (- 1) (- 1) kStub))\<lparr>msg_type := type\<rparr>"

definition ConnectStub :: "int \<Rightarrow> int \<Rightarrow> int \<Rightarrow> 'f msg" where
  "ConnectStub g i entity = (Msg_new (Addr g i entity) (Addr (- 1) (- 1) kStub))\<lparr>msg_type := kConnect\<rparr>"

definition Worker_request :: "'f Worker \<Rightarrow> int \<Rightarrow> 'f Param \<Rightarrow> int \<Rightarrow> 'f msg" where
  "Worker_request w type p step = set_trgt (ParamTrgt (pp_owner (pproto p)) 0) step (to_stub w type)"

definition Worker_Put :: "'f Worker \<Rightarrow> 'f Param \<Rightarrow> int \<Rightarrow> 'f wstate \<Rightarrow> 'f wstate" where
  "Worker_Put w p step s = s\<lparr>param_out := param_out s @ [Worker_request w kPut p step]\<rparr>"

definition Worker_Get :: "'f Worker \<Rightarrow> 'f Param \<Rightarrow> int \<Rightarrow> 'f wstate \<Rightarrow> 'f wstate res" where
  "Worker_Get w p step s =
     bindR (param_version p (mem (wst s))) (\<lambda>v.
       if step \<le> v then Inr s
       else Inr (s\<lparr>param_out := param_out s @ [Worker_request w kGet p step]\<rparr>))"

definition Worker_Update ::
  "('f :: {zero, one, plus, minus, uminus, times, divide, ord}) libm \<Rightarrow> 'f Worker \<Rightarrow> int \<Rightarrow> 'f wstate \<Rightarrow> nat \<Rightarrow> 'f wstate res" where
  "Worker_Update M w step s a =
     (let st = wst s; p = params st a in
      bindR (param_version p (mem st)) (\<lambda>v.
      let p1 = p\<lparr>local_version := v\<rparr>; st1 = st\<lparr>params := (params st)(a := p1)\<rparr> in
      (case wupdater w of
         Some u \<Rightarrow>
           bindR (SGD_Update M u step p1 (mem st)) (\<lambda>h1.
           bindR (param_version p1 h1) (\<lambda>v1.
           bindR (param_set_version (v1 + 1) p1 h1) (\<lambda>h2.
             Inr (s\<lparr>wst := st1\<lparr>mem := h2\<rparr>\<rparr>))))
       | None \<Rightarrow> Inr (s\<lparr>wst := st1, param_out := param_out s @ [Worker_request w kUpdate p1 step]\<rparr>))))"

text \<open>The wait until the version of a parameter has passed the one of the last update request.\<close>

definition Collect :: "'f wstate \<Rightarrow> nat \<Rightarrow> 'f wstate res" where
  "Collect s a =
     bindR (param_version (params (wst s) a) (mem (wst s))) (\<lambda>v.
       if v \<le> local_version (params (wst s) a) then Inl Blocked else Inr s)"

definition CollectAll :: "'f Worker \<Rightarrow> nat \<Rightarrow> 'f wstate \<Rightarrow> 'f wstate res" where
  "CollectAll w t s = foldR Collect s (local_params (wid w) (nets s t))"

text \<open>\<open>ser\<close> is the serialisation of protobuf, \<open>ks\<close> the order of the hash map in \<open>ToString\<close>.\<close>

definition Report ::
  "('f MetricProto \<Rightarrow> string) \<Rightarrow> string list \<Rightarrow> string \<Rightarrow> 'f metric \<Rightarrow> 'f Worker \<Rightarrow> 'f msg res" where
  "Report ser ks prefix pf w =
     bindR (add_fmt [FS prefix] (set_trgt 0 (wstep w) (to_stub w kMetric))) (\<lambda>m.
       Inr (AddFrame (Raw (ser (Metric_ToString ks pf))) m))"

section \<open>Bridges between workers\<close>

text \<open>\<open>name2layer_\<close> keeps the last layer of a name.\<close>

definition name2layer :: "Layer list \<Rightarrow> string \<Rightarrow> nat option" where
  "name2layer ls nm = (case filter (\<lambda>i. l_name (ls ! i) = nm) (rev [0..<length ls]) of [] \<Rightarrow> None | i # _ \<Rightarrow> Some i)"

fun receive_loop ::
  "int \<Rightarrow> nat \<Rightarrow> Layer list \<Rightarrow> ('f :: zero) heap \<Rightarrow> 'f msg list \<Rightarrow> (Layer list \<times> 'f heap \<times> 'f msg list) res" where
  "receive_loop g i ls h [] = (if ready (ls ! i) then Inr (ls, h, []) else Inl Blocked)"
| "receive_loop g i ls h (m # ms) =
     (if ready (ls ! i) then Inr (ls, h, m # ms)
      else
        checkR (AddrGrp (msg_src m) = g) CheckFailed
        (bindR (FrameBytes m) (\<lambda>name.
         case name2layer ls name of
           None \<Rightarrow> Inl Undefined
         | Some j \<Rightarrow>
             checkR (is_bridgelayer (ls ! j)) CheckFailed
             (bindR (NextFrame m) (\<lambda>(_, m1).
              bindR (mutable_cpu_data (l_data (ls ! j)) h) (\<lambda>(q, h1).
              bindR (FrameFloats m1) (\<lambda>xs.
              bindR (mem_write q xs h1) (\<lambda>h2.
                receive_loop g i (ls[j := (ls ! j)\<lparr>ready := True\<rparr>]) h2 ms))))))))"

definition ReceiveBlobs :: "'f Worker \<Rightarrow> nat \<Rightarrow> nat \<Rightarrow> ('f :: zero) wstate \<Rightarrow> 'f wstate res" where
  "ReceiveBlobs w t i s =
     bindR (receive_loop (wgrp w) i (nets s t) (mem (wst s)) (inbox s)) (\<lambda>(ls, h1, ms).
       Inr (s\<lparr>nets := (nets s)(t := ls), wst := (wst s)\<lparr>mem := h1\<rparr>, inbox := ms\<rparr>))"

definition SendBlobs :: "'f Worker \<Rightarrow> nat \<Rightarrow> nat \<Rightarrow> ('f :: zero) wstate \<Rightarrow> 'f wstate res" where
  "SendBlobs w t i s =
     (let ls = nets s t; l = ls ! i in
      bindR (atR (dstlayers l) 0) (\<lambda>j.
      bindR (blob_read (l_data l) (mem (wst s))) (\<lambda>(xs, h1).
      let m = (Msg_new 0 0)\<lparr>msg_src := Addr (wgrp w) (wid w) kWorkerLayer,
            msg_dst := Addr (wgrp w) (partition_id (ls ! j)) kWorkerLayer\<rparr> in
        Inr (s\<lparr>wst := (wst s)\<lparr>mem := h1\<rparr>,
          layer_out := layer_out s @ [AddFrame (Floats xs) (AddFrame (Raw (l_name (ls ! j))) m)]\<rparr>))))"

section \<open>Schedule\<close>

definition periodic :: "int \<Rightarrow> int \<Rightarrow> int \<Rightarrow> bool" where
  "periodic frequency after step \<longleftrightarrow> 0 < frequency \<and> after \<le> step \<and> (step - after) smod frequency = 0"

definition DisplayNow :: "int \<Rightarrow> 'f Worker \<Rightarrow> bool" where
  "DisplayNow step w \<longleftrightarrow> periodic (display_frequency (modelproto w)) (display_after (modelproto w)) step"

definition DisplayDebugInfo :: "int \<Rightarrow> 'f Worker \<Rightarrow> bool" where
  "DisplayDebugInfo step w \<longleftrightarrow> DisplayNow step w \<and> debug (modelproto w) \<and> wgrp w = 0"

definition StopNow :: "int \<Rightarrow> 'f Worker \<Rightarrow> bool" where
  "StopNow step w \<longleftrightarrow> train_steps (modelproto w) \<le> step"

definition CheckpointNow :: "int \<Rightarrow> 'f Worker \<Rightarrow> bool" where
  "CheckpointNow step w \<longleftrightarrow> wgrp w = 0 \<and>
     periodic (checkpoint_frequency (modelproto w)) (checkpoint_after (modelproto w)) step"

definition TestNow :: "int \<Rightarrow> 'f Worker \<Rightarrow> bool" where
  "TestNow step w \<longleftrightarrow> wgrp w = 0 \<and> 0 < test_steps (modelproto w) \<and>
     periodic (test_frequency (modelproto w)) (test_after (modelproto w)) step"

definition ValidateNow :: "int \<Rightarrow> 'f Worker \<Rightarrow> bool" where
  "ValidateNow step w \<longleftrightarrow> wgrp w = 0 \<and> 0 < validation_steps (modelproto w) \<and>
     periodic (validation_frequency (modelproto w)) (validation_after (modelproto w)) step"

definition VisNow :: "int \<Rightarrow> 'f Worker \<Rightarrow> bool" where
  "VisNow step w \<longleftrightarrow> wgrp w = 0 \<and> periodic (vis_frequency (modelproto w)) (vis_after (modelproto w)) step"

section \<open>Methods of the layers\<close>

text \<open>
  \<open>BridgeSrcLayer\<close> and \<open>BridgeDstLayer\<close> only reset \<open>ready_\<close>, in \<open>ComputeGradient\<close> and in
  \<open>ComputeFeature\<close>; the others are virtual methods of the object.
\<close>

definition unready :: "nat \<Rightarrow> nat \<Rightarrow> 'f wstate \<Rightarrow> 'f wstate" where
  "unready t i s = s\<lparr>nets := (nets s)(t := (nets s t)[i := (nets s t ! i)\<lparr>ready := False\<rparr>])\<rparr>"

definition ComputeFeature :: "'f layer_ops \<Rightarrow> nat \<Rightarrow> Phase \<Rightarrow> 'f wstate \<Rightarrow> nat \<Rightarrow> 'f wstate res" where
  "ComputeFeature ops t phase s i =
     (let l = nets s t ! i in
      if is_bridgedstlayer l then Inr (unready t i s)
      else if is_bridgesrclayer l then Inr s
      else bindR (ComputeFeature_of ops (l_obj l) phase (perf s) (mem (wst s))) (\<lambda>(pf, h1).
        Inr (s\<lparr>perf := pf, wst := (wst s)\<lparr>mem := h1\<rparr>\<rparr>)))"

definition ComputeGradient :: "'f layer_ops \<Rightarrow> nat \<Rightarrow> Phase \<Rightarrow> 'f wstate \<Rightarrow> nat \<Rightarrow> 'f wstate res" where
  "ComputeGradient ops t phase s i =
     (let l = nets s t ! i in
      if is_bridgesrclayer l then Inr (unready t i s)
      else if is_bridgedstlayer l then Inr s
      else bindR (ComputeGradient_of ops (l_obj l) phase (mem (wst s))) (\<lambda>h1.
        Inr (s\<lparr>wst := (wst s)\<lparr>mem := h1\<rparr>\<rparr>)))"

definition ComputeLoss :: "'f layer_ops \<Rightarrow> nat \<Rightarrow> 'f wstate \<Rightarrow> nat \<Rightarrow> 'f wstate res" where
  "ComputeLoss ops t s i =
     bindR (ComputeLoss_of ops (l_obj (nets s t ! i)) (perf s) (mem (wst s))) (\<lambda>(pf, h1).
       Inr (s\<lparr>perf := pf, wst := (wst s)\<lparr>mem := h1\<rparr>\<rparr>))"

section \<open>Back-propagation\<close>

text \<open>The debug strings go to the log only.\<close>

definition forward_layer ::
  "'f layer_ops \<Rightarrow> 'f Worker \<Rightarrow> Phase \<Rightarrow> nat \<Rightarrow> ('f :: zero) wstate \<Rightarrow> nat \<Rightarrow> 'f wstate res" where
  "forward_layer ops w phase t s i =
     (let l = nets s t ! i in
      if partition_id l = wid w then
        bindR (if is_bridgedstlayer l then ReceiveBlobs w t i s else Inr s) (\<lambda>s1.
        bindR (if phase = kTrain then foldR Collect s1 (l_params l) else Inr s1) (\<lambda>s2.
        bindR (ComputeFeature ops t phase s2 i) (\<lambda>s3.
          if is_bridgesrclayer l then SendBlobs w t i s3 else Inr s3)))
      else Inr s)"

definition Forward ::
  "'f layer_ops \<Rightarrow> 'f Worker \<Rightarrow> Phase \<Rightarrow> nat \<Rightarrow> ('f :: zero) wstate \<Rightarrow> 'f wstate res" where
  "Forward ops w phase t s = foldR (forward_layer ops w phase t) s [0..<length (nets s t)]"

definition backward_layer ::
  "('f :: {zero, one, plus, minus, uminus, times, divide, ord}) libm \<Rightarrow> 'f layer_ops \<Rightarrow> 'f Worker \<Rightarrow> int \<Rightarrow> nat \<Rightarrow>
   'f wstate \<Rightarrow> nat \<Rightarrow> 'f wstate res" where
  "backward_layer M ops w step t s i =
     (if partition_id (nets s t ! i) = wid w then
        bindR (ComputeGradient ops t kTrain s i) (\<lambda>s1.
          foldR (Worker_Update M w step) s1 (l_params (nets s t ! i)))
      else Inr s)"

definition Backward ::
  "('f :: {zero, one, plus, minus, uminus, times, divide, ord}) libm \<Rightarrow> 'f layer_ops \<Rightarrow> 'f Worker \<Rightarrow> int \<Rightarrow> nat \<Rightarrow>
   'f wstate \<Rightarrow> 'f wstate res" where
  "Backward M ops w step t s = foldR (backward_layer M ops w step t) s (rev [0..<length (nets s t)])"

definition net_of :: "nat option \<Rightarrow> nat res" where
  "net_of t = (case t of None \<Rightarrow> Inl Undefined | Some n \<Rightarrow> Inr n)"

definition BP_TrainOneBatch ::
  "('f :: {zero, one, plus, minus, uminus, times, divide, ord}) libm \<Rightarrow> 'f layer_ops \<Rightarrow> 'f Worker \<Rightarrow> int \<Rightarrow>
   'f wstate \<Rightarrow> 'f wstate res" where
  "BP_TrainOneBatch M ops w step s =
     bindR (net_of (train_net w)) (\<lambda>t. bindR (Forward ops w kTrain t s) (Backward M ops w step t))"

section \<open>Contrastive divergence\<close>

definition PositivePhase :: "'f layer_ops \<Rightarrow> nat \<Rightarrow> 'f wstate \<Rightarrow> 'f wstate res" where
  "PositivePhase ops t s = foldR (ComputeFeature ops t kPositive) s [0..<length (nets s t)]"

definition positions :: "(Layer \<Rightarrow> bool) \<Rightarrow> Layer list \<Rightarrow> nat list" where
  "positions P ls = filter (\<lambda>i. P (ls ! i)) [0..<length ls]"

definition NegativePhase :: "'f layer_ops \<Rightarrow> 'f Worker \<Rightarrow> nat \<Rightarrow> 'f wstate \<Rightarrow> 'f wstate res" where
  "NegativePhase ops w t s =
     foldR (ComputeFeature ops t kNegative) s
       (concat (replicate (nat (pcd_k (modelproto w)))
          (positions (\<lambda>l. is_vislayer l \<or> is_hidlayer l) (nets s t))))"

definition gradient_layer ::
  "('f :: {zero, one, plus, minus, uminus, times, divide, ord}) libm \<Rightarrow> 'f layer_ops \<Rightarrow> 'f Worker \<Rightarrow> int \<Rightarrow> nat \<Rightarrow>
   'f wstate \<Rightarrow> nat \<Rightarrow> 'f wstate res" where
  "gradient_layer M ops w step t s i =
     bindR (ComputeGradient ops t kTrain s i) (\<lambda>s1.
       foldR (Worker_Update M w step) s1 (l_params (nets s t ! i)))"

definition GradientPhase ::
  "('f :: {zero, one, plus, minus, uminus, times, divide, ord}) libm \<Rightarrow> 'f layer_ops \<Rightarrow> 'f Worker \<Rightarrow> int \<Rightarrow> nat \<Rightarrow>
   'f wstate \<Rightarrow> 'f wstate res" where
  "GradientPhase M ops w step t s = foldR (gradient_layer M ops w step t) s [0..<length (nets s t)]"

definition LossPhase :: "'f layer_ops \<Rightarrow> nat \<Rightarrow> 'f wstate \<Rightarrow> 'f wstate res" where
  "LossPhase ops t s =
     bindR (foldR (ComputeFeature ops t kLoss) s (positions is_hidlayer (nets s t))) (\<lambda>s1.
       foldR (ComputeLoss ops t) s1 (positions is_vislayer (nets s1 t)))"

definition CD_TrainOneBatch ::
  "('f :: {zero, one, plus, minus, uminus, times, divide, ord}) libm \<Rightarrow> 'f layer_ops \<Rightarrow> 'f Worker \<Rightarrow> int \<Rightarrow>
   'f wstate \<Rightarrow> 'f wstate res" where
  "CD_TrainOneBatch M ops w step s =
     bindR (net_of (train_net w)) (\<lambda>t.
     bindR (PositivePhase ops t s) (\<lambda>s1.
     bindR (NegativePhase ops w t s1) (\<lambda>s2.
     bindR (GradientPhase M ops w step t s2) (\<lambda>s3.
       LossPhase ops t s3))))"

text \<open>The test of a \<open>CDWorker\<close> runs on \<open>test_net_\<close>, whatever net it is given.\<close>

definition CD_TestOneBatch :: "'f layer_ops \<Rightarrow> 'f Worker \<Rightarrow> nat option \<Rightarrow> 'f wstate \<Rightarrow> 'f wstate res" where
  "CD_TestOneBatch ops w net s =
     bindR (net_of (test_net w)) (\<lambda>t.
     bindR (PositivePhase ops t s) (\<lambda>s1. LossPhase ops t s1))"

definition BP_TestOneBatch :: "'f layer_ops \<Rightarrow> 'f Worker \<Rightarrow> Phase \<Rightarrow> nat option \<Rightarrow> ('f :: zero) wstate \<Rightarrow> 'f wstate res" where
  "BP_TestOneBatch ops w phase net s = bindR (net_of net) (\<lambda>t. Forward ops w phase t s)"

text \<open>The dynamic type of the worker is \<open>BPWorker\<close> or \<open>CDWorker\<close>, as \<open>alg\<close> says.\<close>

definition TestOneBatch :: "'f layer_ops \<Rightarrow> 'f Worker \<Rightarrow> Phase \<Rightarrow> nat option \<Rightarrow> ('f :: zero) wstate \<Rightarrow> 'f wstate res" where
  "TestOneBatch ops w phase net s =
     (case alg (modelproto w) of
        kBackPropagation \<Rightarrow> BP_TestOneBatch ops w phase net s
      | kContrastiveDivergence \<Rightarrow> CD_TestOneBatch ops w net s)"

text \<open>\<open>Test\<close> has a \<open>Metric\<close> of its own.\<close>

definition Test :: "'f layer_ops \<Rightarrow> int \<Rightarrow> Phase \<Rightarrow> nat option \<Rightarrow> 'f Worker \<Rightarrow> ('f :: zero) wstate \<Rightarrow> 'f wstate res" where
  "Test ops nsteps phase net w s =
     bindR (foldR (\<lambda>s1 _. TestOneBatch ops w phase net s1) (s\<lparr>perf := Map.empty\<rparr>) [0..<nat nsteps]) (\<lambda>s1.
       Inr (s1\<lparr>perf := perf s\<rparr>))"

section \<open>The main function\<close>

text \<open>
  The connection of both dealers; the one for the layers is opened at the first bridge of the
  worker.
\<close>

definition Worker_connect :: "'f Worker \<Rightarrow> nat \<Rightarrow> 'f wstate \<Rightarrow> 'f wstate" where
  "Worker_connect w t s =
     s\<lparr>param_out := param_out s @ [ConnectStub (wgrp w) (wid w) kWorkerParam],
       layer_out := layer_out s @
         (if list_ex (\<lambda>l. partition_id l = wid w \<and> is_bridgelayer l) (nets s t)
          then [ConnectStub (wgrp w) (wid w) kWorkerLayer] else [])\<rparr>"

text \<open>
  The loop of \<open>Run\<close>: \<open>flags\<close> are the results of the successive calls of \<open>stat\<close> on the flag file.
\<close>

fun run_loop :: "'f layer_ops \<Rightarrow> 'f Worker \<Rightarrow> ('f :: zero) wstate \<Rightarrow> bool list \<Rightarrow> 'f wstate res" where
  "run_loop ops w s [] = Inl Blocked"
| "run_loop ops w s (there # flags) =
     (if there then Inr s
      else bindR (TestOneBatch ops w kTrain (train_net w) s) (\<lambda>s1. run_loop ops w s1 flags))"

definition Worker_Run ::
  "ClusterProto \<Rightarrow> (string \<rightharpoonup> 'f BlobProtos) \<Rightarrow> ((string \<times> nat) list \<Rightarrow> (string \<times> nat) list) \<Rightarrow> ('f, 'r) sampler \<Rightarrow> 'r \<Rightarrow>
   'f layer_ops \<Rightarrow> bool list \<Rightarrow> 'f Worker \<Rightarrow> ('f :: {zero, times, divide}) wstate \<Rightarrow> ('f Worker \<times> 'f wstate) res" where
  "Worker_Run conf fs ord S r ops flags w s =
     bindR (net_of (train_net w)) (\<lambda>t.
     let s1 = Worker_connect w t s; w1 = w\<lparr>wstep := mp_step (modelproto w)\<rparr> in
     bindR (InitLocalParams conf fs ord S w1 (nets s1 t) (params (wst s1)) (mem (wst s1), r)) (\<lambda>(h1, _).
     bindR (run_loop ops w1 (s1\<lparr>wst := (wst s1)\<lparr>mem := h1\<rparr>, perf := Map.empty\<rparr>) flags) (\<lambda>s2.
       Inr (w1, s2\<lparr>param_out := param_out s2 @ [to_stub w1 kStop]\<rparr>))))"

section \<open>Blobs that do not share memory\<close>

definition apart :: "nat set \<Rightarrow> ('f :: zero) heap \<Rightarrow> bool" where
  "apart B h \<longleftrightarrow> wf_heap h \<and>
     (\<forall>b \<in> B. b < nblob h \<and> bdata (blobs h b) \<noteq> None \<and> 0 < bcount (blobs h b) \<and>
        shape_count (shape (blobs h b)) = Inr (bcount (blobs h b))) \<and>
     (\<forall>b \<in> B. \<forall>c \<in> B. b \<noteq> c \<longrightarrow> separate h b c)"

lemma apartD:
  assumes "apart B h" and "b \<in> B"
  shows "wf_heap h" "b < nblob h" "bdata (blobs h b) \<noteq> None" "0 < bcount (blobs h b)"
    "shape_count (shape (blobs h b)) = Inr (bcount (blobs h b))" "length (contents h b) = nat (bcount (blobs h b))"
  using assms length_contents [of h b] by (auto simp: apart_def)

lemma apart_write:
  assumes "apart B h" and "b \<in> B" and "length xs = nat (bcount (blobs h b))"
  shows "\<exists>h1. blob_write b xs h = Inr h1 \<and> apart B h1 \<and> blobs h1 = blobs h \<and>
    contents h1 b = xs \<and> (\<forall>c \<in> B. c \<noteq> b \<longrightarrow> contents h1 c = contents h c)"
proof -
  note b = apartD [OF assms(1,2)]
  obtain h1 where h1: "blob_write b xs h = Inr h1" "wf_heap h1" "blobs h1 = blobs h" "nblob h1 = nblob h"
    "contents h1 b = xs" "\<forall>c < nblob h. separate h b c \<longrightarrow> contents h1 c = contents h c"
    using blob_write_spec [OF b(1-3) assms(3)] by blast
  obtain q g where q: "mutable_cpu_data b h = Inr (q, g)" "mem_write q xs g = Inr h1"
    using h1(1) by (auto simp: blob_write_def bindR_eq_Inr)
  have "separate h1 c d" if "c \<in> B" "d \<in> B" "c \<noteq> d" for c d
    using mutable_cpu_data_separate [OF b(1,2) q(1)] that assms(1) mem_write_frame(2) [OF q(2)] by (auto simp: apart_def)
  then have "apart B h1" using assms(1) h1(2-4) by (auto simp: apart_def)
  moreover have "\<forall>c \<in> B. c \<noteq> b \<longrightarrow> contents h1 c = contents h c" using assms(1,2) h1(6) by (auto simp: apart_def)
  ultimately show ?thesis using h1(1,3,5) by blast
qed

lemma apart_ptr:
  assumes "apart B h" and "b \<in> B"
  shows "\<exists>q h1. mutable_cpu_data b h = Inr (q, h1) \<and> at_ptr h1 b q \<and> apart B h1 \<and> blobs h1 = blobs h \<and> nblob h1 = nblob h \<and>
    (\<forall>c < nblob h. contents h1 c = contents h c) \<and> (\<forall>c r. at_ptr h c r \<longrightarrow> at_ptr h1 c r)"
proof -
  note b = apartD [OF assms]
  obtain q h1 where q: "mutable_cpu_data b h = Inr (q, h1)" "reads_blob q b h h1"
    using cpu_data_spec(2) [OF b(1-3)] by blast
  note fr = mutable_cpu_data_frame [OF q(1)]
  have "apart B h1"
    using assms(1) q(2) fr(3,4) mutable_cpu_data_separate [OF b(1,2) q(1)] by (auto simp: apart_def reads_blob_def)
  then show ?thesis using q fr by (auto simp: reads_blob_def)
qed

lemma apart_read:
  assumes "apart B h" and "b \<in> B" and "at_ptr h b q"
  shows "mem_read q (nat (bcount (blobs h b))) h = Inr (contents h b)"
proof -
  note b = apartD [OF assms(1,2)]
  have "reads_blob q b h h" using cpu_data_spec(2) [OF b(1-3)] assms(3) by (auto simp: at_ptr_def)
  then show ?thesis using mutable_read_all [of q b h h "nat (bcount (blobs h b))"] b(4,6) by simp
qed

lemma apart_mem_write:
  assumes "apart B h" and "b \<in> B" and "at_ptr h b q" and "length xs = nat (bcount (blobs h b))"
  shows "\<exists>h1. mem_write q xs h = Inr h1 \<and> apart B h1 \<and> blobs h1 = blobs h \<and> nblob h1 = nblob h \<and> contents h1 b = xs \<and>
    (\<forall>c \<in> B. c \<noteq> b \<longrightarrow> contents h1 c = contents h c) \<and> (\<forall>c r. at_ptr h c r \<longrightarrow> at_ptr h1 c r)"
proof -
  obtain h1 where h1: "blob_write b xs h = Inr h1" "apart B h1" "blobs h1 = blobs h" "contents h1 b = xs"
    "\<forall>c \<in> B. c \<noteq> b \<longrightarrow> contents h1 c = contents h c"
    using apart_write [OF assms(1,2,4)] by blast
  have w: "mem_write q xs h = Inr h1" using h1(1) assms(3) by (simp add: blob_write_def at_ptr_def)
  then show ?thesis using h1 mem_write_frame [OF w] by blast
qed

lemma contents_set_version: "contents (set_version b v h) c = contents h c"
  by (simp add: contents_def set_version_def upd_blob_def Let_def block_of_def split: option.split ptr.split)

lemma wf_set_version: "wf_heap h \<Longrightarrow> wf_heap (set_version b v h)"
  by (auto simp: wf_heap_def wf_sync_def wf_blob_def region_def set_version_def upd_blob_def split: option.splits)

lemma apart_version: "apart B h \<Longrightarrow> apart B (set_version b v h)"
  using wf_set_version [of h b v]
  by (auto simp: apart_def separate_def set_version_def upd_blob_def split: option.splits)

lemma FromProto_same_shape:
  assumes "apart B h" and "b \<in> B" and "length xs = nat (bcount (blobs h b))"
  shows "FromProto b \<lparr>bp_shape = shape (blobs h b), bp_data = xs\<rparr> h = blob_write b xs h"
proof -
  note b = apartD [OF assms(1,2)]
  have "bcount (blobs h b) \<le> bcapacity (blobs h b)" using b(1,2) by (auto simp: wf_heap_def wf_blob_def)
  moreover have "upd_blob b (\<lambda>x. x\<lparr>shape := shape (blobs h b), bcount := bcount (blobs h b)\<rparr>) h = h"
    by (simp add: upd_blob_def fun_upd_idem)
  ultimately have "Reshape b (shape (blobs h b)) h = Inr h" using b(5) by (simp add: Reshape_def)
  then show ?thesis using assms(3) by (simp add: FromProto_def blob_write_def)
qed

section \<open>Checkpoints\<close>

definition owned :: "(nat \<Rightarrow> 'f Param) \<Rightarrow> int \<Rightarrow> Layer list \<Rightarrow> nat list" where
  "owned ps i ls = filter (\<lambda>a. owns (ps a)) (local_params i ls)"

abbreviation data_at :: "(nat \<Rightarrow> 'f Param) \<Rightarrow> nat \<Rightarrow> nat" where
  "data_at ps a \<equiv> the (pdata (ps a))"

text \<open>The file that \<open>Checkpoint\<close> writes for the parameters \<open>as\<close>.\<close>

definition image_of :: "(nat \<Rightarrow> 'f Param) \<Rightarrow> nat list \<Rightarrow> ('f :: zero) heap \<Rightarrow> 'f BlobProtos" where
  "image_of ps as h = \<lparr>bps_version = map (\<lambda>a. bversion (blobs h (data_at ps a))) as,
     bps_name = map (\<lambda>a. pp_name (pproto (ps a))) as,
     bps_blob = map (\<lambda>a. \<lparr>bp_shape = shape (blobs h (data_at ps a)), bp_data = contents h (data_at ps a)\<rparr>) as\<rparr>"

lemma dump_params:
  assumes "wf_heap h" and "\<forall>a \<in> set as. owns (ps a) \<longrightarrow> pdata (ps a) \<noteq> None \<and> data_at ps a < nblob h \<and>
      bdata (blobs h (data_at ps a)) \<noteq> None"
  shows "\<exists>h1. foldR (dump_param ps) (bps, h) as =
      Inr (let im = image_of ps (filter (\<lambda>a. owns (ps a)) as) h in
        bps\<lparr>bps_version := bps_version bps @ bps_version im, bps_name := bps_name bps @ bps_name im,
          bps_blob := bps_blob bps @ bps_blob im\<rparr>, h1) \<and>
    wf_heap h1 \<and> blobs h1 = blobs h \<and> nblob h1 = nblob h \<and> (\<forall>c < nblob h. contents h1 c = contents h c)"
  using assms
proof (induction as arbitrary: bps h)
  case (Cons a as)
  show ?case
  proof (cases "owns (ps a)")
    case True
    then have a: "pdata (ps a) \<noteq> None" "data_at ps a < nblob h" "bdata (blobs h (data_at ps a)) \<noteq> None"
      using Cons.prems(2) by auto
    obtain h1 where h1: "ToProto (data_at ps a) \<lparr>bp_shape = [], bp_data = []\<rparr> h =
        Inr (\<lparr>bp_shape = shape (blobs h (data_at ps a)), bp_data = contents h (data_at ps a)\<rparr>, h1)"
      "wf_heap h1" "blobs h1 = blobs h" "nblob h1 = nblob h" "\<forall>c < nblob h. contents h1 c = contents h c"
      using ToProto_spec [OF Cons.prems(1) a(2,3)] by blast
    let ?bps = "bps\<lparr>bps_version := bps_version bps @ [bversion (blobs h (data_at ps a))],
        bps_name := bps_name bps @ [pp_name (pproto (ps a))],
        bps_blob := bps_blob bps @ [\<lparr>bp_shape = shape (blobs h (data_at ps a)), bp_data = contents h (data_at ps a)\<rparr>]\<rparr>"
    have step: "dump_param ps (bps, h) a = Inr (?bps, h1)"
      using a h1(1,3) True
      by (auto simp: dump_param_def Let_def Param_ToProto_def data_blob_def param_version_def)
    have im: "image_of ps (filter (\<lambda>a. owns (ps a)) as) h1 = image_of ps (filter (\<lambda>a. owns (ps a)) as) h"
      using Cons.prems(2) h1(3,5) by (auto simp: image_of_def)
    show ?thesis
      using Cons.IH [OF h1(2), of ?bps] Cons.prems(2) h1(3-5) step im True
      by (auto simp: image_of_def Let_def)
  next
    case False
    then show ?thesis using Cons.IH [OF Cons.prems(1), of bps] Cons.prems(2) by (simp add: dump_param_def)
  qed
qed (simp add: image_of_def)

lemma name_params_owned:
  "distinct (map fst acc @ map (\<lambda>a. pp_name (pproto (ps a))) (filter (\<lambda>a. owns (ps a)) as)) \<Longrightarrow>
    name_params ps as acc = Inr (acc @ map (\<lambda>a. (pp_name (pproto (ps a)), a)) (filter (\<lambda>a. owns (ps a)) as))"
proof (induction as arbitrary: acc)
  case (Cons a as)
  have "map_of acc (pp_name (pproto (ps a))) = None" if "owns (ps a)"
    using Cons.prems that by (auto simp: map_of_eq_None_iff)
  then show ?case
    using Cons.IH [of acc] Cons.IH [of "acc @ [(pp_name (pproto (ps a)), a)]"] Cons.prems
    by (cases "owns (ps a)") auto
qed simp

lemma foldR_stays: "\<forall>x \<in> set xs. f s x = Inr s \<Longrightarrow> foldR f s xs = Inr s"
  by (induction xs) simp_all

lemma load_prefix:
  fixes h h2 :: "('f :: zero) heap"
  assumes "apart (data_at ps ` set as) h2" and "inj_on (data_at ps) (set as)" and "\<forall>a \<in> set as. pdata (ps a) \<noteq> None"
    and "distinct (map (\<lambda>a. pp_name (pproto (ps a))) as)"
    and "\<forall>a \<in> set as. shape (blobs h2 (data_at ps a)) = shape (blobs h (data_at ps a)) \<and>
      length (contents h (data_at ps a)) = nat (bcount (blobs h2 (data_at ps a)))"
    and "k \<le> length as"
  shows "\<exists>h3. foldR (load_blob model ps (map (\<lambda>a. (pp_name (pproto (ps a)), a)) as) (image_of ps as h)) h2 [0..<k] = Inr h3 \<and>
    apart (data_at ps ` set as) h3 \<and>
    (\<forall>a \<in> set as. shape (blobs h3 (data_at ps a)) = shape (blobs h2 (data_at ps a)) \<and>
      bcount (blobs h3 (data_at ps a)) = bcount (blobs h2 (data_at ps a))) \<and>
    (\<forall>j < k. contents h3 (data_at ps (as ! j)) = contents h (data_at ps (as ! j)) \<and>
      bversion (blobs h3 (data_at ps (as ! j))) =
        (if reset_param_version model then mp_step model else bversion (blobs h (data_at ps (as ! j)))))"
  using assms(6)
proof (induction k)
  case 0
  then show ?case using assms(1) by auto
next
  case (Suc k)
  let ?n2p = "map (\<lambda>a. (pp_name (pproto (ps a)), a)) as" and ?im = "image_of ps as h" and ?a = "as ! k"
  let ?D = "data_at ps ?a" and ?xs = "contents h (data_at ps (as ! k))"
  define v where "v = (if reset_param_version model then mp_step model else bversion (blobs h ?D))"
  obtain h3 where h3: "foldR (load_blob model ps ?n2p ?im) h2 [0..<k] = Inr h3" "apart (data_at ps ` set as) h3"
    "\<forall>a \<in> set as. shape (blobs h3 (data_at ps a)) = shape (blobs h2 (data_at ps a)) \<and>
      bcount (blobs h3 (data_at ps a)) = bcount (blobs h2 (data_at ps a))"
    "\<forall>j < k. contents h3 (data_at ps (as ! j)) = contents h (data_at ps (as ! j)) \<and>
      bversion (blobs h3 (data_at ps (as ! j))) =
        (if reset_param_version model then mp_step model else bversion (blobs h (data_at ps (as ! j))))"
    using Suc.IH Suc.prems by auto
  have ka: "?a \<in> set as" and kl: "k < length as" using Suc.prems by auto
  have len: "length ?xs = nat (bcount (blobs h3 ?D))" using h3(3) assms(5) ka by simp
  obtain h4 where h4: "blob_write ?D ?xs h3 = Inr h4" "apart (data_at ps ` set as) h4" "blobs h4 = blobs h3"
    "contents h4 ?D = ?xs" "\<forall>c \<in> data_at ps ` set as. c \<noteq> ?D \<longrightarrow> contents h4 c = contents h3 c"
    using apart_write [OF h3(2) _ len] ka by blast
  have find: "map_of ?n2p (pp_name (pproto (ps ?a))) = Some ?a"
    using assms(4) ka by (intro map_of_is_SomeI) (auto simp: comp_def)
  have frm: "FromProto ?D \<lparr>bp_shape = shape (blobs h ?D), bp_data = ?xs\<rparr> h3 = Inr h4"
    using FromProto_same_shape [OF h3(2) _ len] ka h3(3) assms(5) h4(1) by auto
  have blob: "idxR (bps_blob ?im) (int k) = Inr \<lparr>bp_shape = shape (blobs h ?D), bp_data = ?xs\<rparr>"
    "idxR (bps_version ?im) (int k) = Inr (bversion (blobs h ?D))" "bps_name ?im ! k = pp_name (pproto (ps ?a))"
    using kl by (simp_all add: idxR_def image_of_def)
  have db: "data_blob (ps ?a) = Inr ?D" using assms(3) ka by (auto simp: data_blob_def)
  have "load_blob model ps ?n2p ?im h3 k = Inr (set_version ?D v h4)"
    using find frm blob db by (simp add: load_blob_def Param_FromProto_def param_set_version_def v_def)
  then have run: "foldR (load_blob model ps ?n2p ?im) h2 [0..<Suc k] = Inr (set_version ?D v h4)"
    using h3(1) by (simp add: foldR_append)
  have other: "data_at ps (as ! j) \<noteq> ?D" if "j < k" for j
  proof -
    have "distinct as" using assms(4) by (simp add: distinct_map)
    then have "as ! j \<noteq> ?a" using that kl by (simp add: nth_eq_iff_index_eq)
    then show ?thesis using assms(2) ka that kl inj_onD [OF assms(2), of "as ! j" ?a] by auto
  qed
  have keep: "contents (set_version ?D v h4) (data_at ps (as ! j)) = contents h (data_at ps (as ! j)) \<and>
      bversion (blobs (set_version ?D v h4) (data_at ps (as ! j))) =
        (if reset_param_version model then mp_step model else bversion (blobs h (data_at ps (as ! j))))"
    if "j < Suc k" for j
  proof (cases "j = k")
    case True
    then show ?thesis using h4(4) by (simp add: contents_set_version v_def) (simp add: set_version_def upd_blob_def v_def)
  next
    case False
    then have "j < k" "as ! j \<in> set as" using that kl by auto
    then show ?thesis using h3(4) h4(3,5) other
      by (simp add: contents_set_version) (simp add: set_version_def upd_blob_def)
  qed
  show ?case
    using run keep apart_version [OF h4(2)] h3(3) h4(3)
    by (intro exI [of _ "set_version ?D v h4"]) (auto simp: set_version_def upd_blob_def)
qed

text \<open>
  C15. What a worker saves in a checkpoint is what the worker that resumes from the file gets: every
  parameter it owns has the floats it had and the version it had (or the configured step), and none
  is initialised again. The parameters may hold anything before, but have the shapes they had.
\<close>

theorem checkpoint_restores:
  fixes h h2 :: "('f :: {zero, times, divide}) heap"
  assumes "wgrp w = 0" and "wf_heap h" and "apart (data_at ps ` set (owned ps (wid w) ls)) h2"
    and "inj_on (data_at ps) (set (owned ps (wid w) ls))"
    and "distinct (map (\<lambda>a. pp_name (pproto (ps a))) (owned ps (wid w) ls))"
    and "\<forall>a \<in> set (owned ps (wid w) ls). pdata (ps a) \<noteq> None \<and> data_at ps a < nblob h \<and>
      bdata (blobs h (data_at ps a)) \<noteq> None \<and> 0 \<le> bversion (blobs h (data_at ps a)) \<and>
      shape (blobs h2 (data_at ps a)) = shape (blobs h (data_at ps a)) \<and>
      bcount (blobs h2 (data_at ps a)) = bcount (blobs h (data_at ps a))"
    and "wid w2 = wid w" and "nworker_groups_per_server_group conf \<noteq> 0"
    and "wgrp w2 smod nworker_groups_per_server_group conf = 0" and "0 \<le> mp_step (modelproto w2)"
    and "\<And>xs. set (ord xs) \<subseteq> set xs" and "checkpoint (modelproto w2) = [checkpoint_path conf step (wid w)]"
  shows "\<exists>path bps h1 h3. Checkpoint conf step w ls ps h = Inr (Some (path, bps), h1) \<and>
    InitLocalParams conf [path \<mapsto> bps] ord S w2 ls ps (h2, r) = Inr (h3, r) \<and>
    (\<forall>a \<in> set (owned ps (wid w) ls). data_of (ps a) h3 = data_of (ps a) h \<and>
      param_version (ps a) h3 = Inr (if reset_param_version (modelproto w2) then mp_step (modelproto w2)
        else bversion (blobs h (data_at ps a))))"
proof -
  let ?as = "owned ps (wid w) ls" and ?im = "image_of ps (owned ps (wid w) ls) h"
  let ?n2p = "map (\<lambda>a. (pp_name (pproto (ps a)), a)) (owned ps (wid w) ls)"
  obtain h1 where h1: "foldR (dump_param ps) (\<lparr>bps_version = [], bps_name = [], bps_blob = []\<rparr>, h) (local_params (wid w) ls) = Inr (?im, h1)"
    using dump_params [OF assms(2), of "local_params (wid w) ls" ps "\<lparr>bps_version = [], bps_name = [], bps_blob = []\<rparr>"] assms(6)
    by (auto simp: owned_def Let_def image_of_def)
  obtain h3 where h3: "foldR (load_blob (modelproto w2) ps ?n2p ?im) h2 [0..<length ?as] = Inr h3"
    "\<forall>j < length ?as. contents h3 (data_at ps (?as ! j)) = contents h (data_at ps (?as ! j)) \<and>
      bversion (blobs h3 (data_at ps (?as ! j))) =
        (if reset_param_version (modelproto w2) then mp_step (modelproto w2) else bversion (blobs h (data_at ps (?as ! j))))"
    using load_prefix [OF assms(3,4) _ assms(5), of h "length ?as" "modelproto w2"] assms(6) length_contents [OF assms(2)]
    by auto
  have all: "contents h3 (data_at ps a) = contents h (data_at ps a) \<and> bversion (blobs h3 (data_at ps a)) =
      (if reset_param_version (modelproto w2) then mp_step (modelproto w2) else bversion (blobs h (data_at ps a)))"
    if "a \<in> set ?as" for a using that h3(2) by (metis in_set_conv_nth)
  have db: "data_blob (ps a) = Inr (data_at ps a)" if "a \<in> set ?as" for a
    using assms(6) that by (auto simp: data_blob_def)
  have names: "name_params ps (local_params (wid w) ls) [] = Inr ?n2p"
    using name_params_owned [of "[]" ps "local_params (wid w) ls"] assms(5) by (simp add: owned_def)
  have "init_unset S (mp_step (modelproto w2)) ps (h3, r) e = Inr (h3, r)" if "e \<in> set (ord ?n2p)" for e
  proof -
    have "snd e \<in> set ?as" using that assms(11) [of ?n2p] by auto
    then show ?thesis using all db assms(6,10) by (auto simp: init_unset_def param_version_def)
  qed
  then have rest: "foldR (init_unset S (mp_step (modelproto w2)) ps) (h3, r) (ord ?n2p) = Inr (h3, r)"
    by (intro foldR_stays) blast
  let ?path = "checkpoint_path conf step (wid w)"
  have ck: "Checkpoint conf step w ls ps h = Inr (Some (?path, ?im), h1)"
    using h1 assms(1) by (simp add: Checkpoint_def)
  have "InitLocalParams conf [?path \<mapsto> ?im] ord S w2 ls ps (h2, r) = Inr (h3, r)"
    using names h3(1) rest assms(7-9,12)
    by (simp add: InitLocalParams_def load_checkpoint_def image_of_def)
  then show ?thesis using ck all db by (auto simp: data_of_def param_version_def)
qed

text \<open>
  The schedules of a worker: an activity takes place at exactly the steps \<open>after\<close>,
  \<open>after + frequency\<close>, \<open>after + 2 * frequency\<close> and so on, and never if its frequency is not
  positive; tests and validations also need steps to run, and only group 0 saves, tests and
  validates.
\<close>

theorem schedule_steps:
  "(DisplayNow step w \<longleftrightarrow> 0 < display_frequency (modelproto w) \<and>
      (\<exists>k. step = display_after (modelproto w) + int k * display_frequency (modelproto w))) \<and>
   (CheckpointNow step w \<longleftrightarrow> wgrp w = 0 \<and> 0 < checkpoint_frequency (modelproto w) \<and>
      (\<exists>k. step = checkpoint_after (modelproto w) + int k * checkpoint_frequency (modelproto w))) \<and>
   (TestNow step w \<longleftrightarrow> wgrp w = 0 \<and> 0 < test_steps (modelproto w) \<and> 0 < test_frequency (modelproto w) \<and>
      (\<exists>k. step = test_after (modelproto w) + int k * test_frequency (modelproto w))) \<and>
   (ValidateNow step w \<longleftrightarrow> wgrp w = 0 \<and> 0 < validation_steps (modelproto w) \<and> 0 < validation_frequency (modelproto w) \<and>
      (\<exists>k. step = validation_after (modelproto w) + int k * validation_frequency (modelproto w))) \<and>
   (VisNow step w \<longleftrightarrow> wgrp w = 0 \<and> 0 < vis_frequency (modelproto w) \<and>
      (\<exists>k. step = vis_after (modelproto w) + int k * vis_frequency (modelproto w)))"
proof -
  have "periodic f a step \<longleftrightarrow> 0 < f \<and> (\<exists>k. step = a + int k * f)" for f a
  proof
    assume p: "periodic f a step"
    then have f: "0 < f" "a \<le> step" "(step - a) mod f = 0" by (auto simp: periodic_def)
    then have "step = a + int (nat ((step - a) div f)) * f" by (simp add: pos_imp_zdiv_nonneg_iff mod_0_imp_dvd)
    then show "0 < f \<and> (\<exists>k. step = a + int k * f)" using f(1) by blast
  qed (auto simp: periodic_def)
  then show ?thesis by (auto simp: DisplayNow_def CheckpointNow_def TestNow_def ValidateNow_def VisNow_def)
qed

definition demo_layer :: "int \<Rightarrow> Layer" where
  "demo_layer i = \<lparr>l_obj = 0, l_name = ''fc'', partition_id = i, l_params = [0], l_data = 0, dstlayers = [],
     is_bridgesrclayer = False, is_bridgedstlayer = False, is_vislayer = False, is_hidlayer = False, ready = False\<rparr>"

definition demo_owner :: "real Param" where
  "demo_owner = set_id 0 (fst (demo_sized 2))"

definition demo_model :: "real ModelProto" where
  "demo_model = \<lparr>display_frequency = 10, train_steps = 100, mp_updater = uproto demo_updater, alg = kBackPropagation,
     validation_steps = 0, test_steps = 1, validation_frequency = 0, test_frequency = 20, checkpoint_frequency = 50,
     vis_frequency = 0, vis_samples = 0, display_after = 0, checkpoint_after = 0, test_after = 0, validation_after = 0,
     vis_after = 0, mp_step = 0, debug = False, checkpoint = [], reset_param_version = False, pcd_k = 15\<rparr>"

definition demo_worker :: "real Worker" where
  "demo_worker = \<lparr>wthread = 1, wgrp = 0, wid = 0, wstep = 0, modelproto = demo_model, train_net = Some 0,
     test_net = None, validation_net = None, wupdater = None, wworkspace = ''w''\<rparr>"

definition resumed_worker :: "real Worker" where
  "resumed_worker = demo_worker\<lparr>modelproto := demo_model\<lparr>checkpoint := [checkpoint_path small_conf 7 0]\<rparr>\<rparr>"

definition rev_sampler :: "(real, unit) sampler" where
  "rev_sampler = \<lparr>SampleUniform = (\<lambda>n a b r. (replicate n a, r)), SampleGaussian = (\<lambda>n a b r. (replicate n a, r)),
     fsqrt = sqrt, of_i = of_int\<rparr>"

theorem checkpoint_restores_witness:
  "\<exists>path bps h1 h3. Checkpoint small_conf 7 demo_worker [demo_layer 0] (\<lambda>_. demo_owner)
      (set_version (the (pdata demo_owner)) 5 (snd (demo_sized 2))) = Inr (Some (path, bps), h1) \<and>
    InitLocalParams small_conf [path \<mapsto> bps] rev rev_sampler resumed_worker [demo_layer 0] (\<lambda>_. demo_owner)
      (snd (demo_sized 2), ()) = Inr (h3, ()) \<and>
    param_version demo_owner h3 = Inr 5"
proof -
  have p: "param_in (fst (demo_sized 2)) (snd (demo_sized 2)) 2" using demo_sized_ok [of 2] by (simp add: is_c_int_def)
  have sh: "shape (blobs (snd (demo_sized 2)) (the (pdata demo_owner))) = [2]"
    by (simp add: demo_owner_def set_id_def demo_sized_def Param_Setup_def Blob_new_shape_def Blob_new_def Param_new_def Reshape_def
        shape_count_def is_c_int_def heap0_def upd_blob_def SyncedMemory_new_def Let_def)
  have own: "owned (\<lambda>_. demo_owner) 0 [demo_layer 0] = [0]"
    by (simp add: owned_def local_params_def demo_layer_def owns_def demo_owner_def set_id_def)
  have ap: "apart {the (pdata demo_owner)} (snd (demo_sized 2))"
    using param_inD [OF p] sh by (auto simp: apart_def demo_owner_def set_id_def shape_count_def is_c_int_def)
  let ?D = "the (pdata demo_owner)" and ?h = "snd (demo_sized 2)"
  have w: "wgrp demo_worker = 0" "wid demo_worker = 0" "wid resumed_worker = wid demo_worker"
    "nworker_groups_per_server_group small_conf \<noteq> 0"
    "wgrp resumed_worker smod nworker_groups_per_server_group small_conf = 0" "0 \<le> mp_step (modelproto resumed_worker)"
    "checkpoint (modelproto resumed_worker) = [checkpoint_path small_conf 7 (wid demo_worker)]"
    "\<not> reset_param_version (modelproto resumed_worker)"
    by (simp_all add: demo_worker_def resumed_worker_def demo_model_def nworker_groups_per_server_group_def small_conf_def)
  have D: "pdata demo_owner \<noteq> None" "?D < nblob ?h" "bdata (blobs ?h ?D) \<noteq> None" "wf_heap (set_version ?D 5 ?h)"
    using param_inD [OF p] wf_set_version by (auto simp: demo_owner_def set_id_def)
  have sv: "nblob (set_version ?D 5 ?h) = nblob ?h" "bdata (blobs (set_version ?D 5 ?h) ?D) = bdata (blobs ?h ?D)"
    "bversion (blobs (set_version ?D 5 ?h) ?D) = 5" "shape (blobs (set_version ?D 5 ?h) ?D) = shape (blobs ?h ?D)"
    "bcount (blobs (set_version ?D 5 ?h) ?D) = bcount (blobs ?h ?D)"
    by (simp_all add: set_version_def upd_blob_def)
  note run = checkpoint_restores [where ps = "\<lambda>_. demo_owner" and ls = "[demo_layer 0]" and ord = rev and S = rev_sampler
      and r = "()", OF w(1) D(4) _ _ _ _ w(3-6) _ w(7), of ?h]
  show ?thesis using run own ap D(1-3) sv w(2,8) by auto
qed

section \<open>What the passes change\<close>

text \<open>The parameters and the requests for them stay as they are.\<close>

definition quiet :: "'f wstate \<Rightarrow> 'f wstate \<Rightarrow> bool" where
  "quiet s s1 \<longleftrightarrow> params (wst s1) = params (wst s) \<and> param_out s1 = param_out s"

lemma quiet_refl [simp]: "quiet s s" and quiet_trans: "quiet s s1 \<Longrightarrow> quiet s1 s2 \<Longrightarrow> quiet s s2"
  by (simp_all add: quiet_def)

lemma foldR_quiet:
  assumes "foldR f s xs = Inr s1" and "\<And>s x s1. f s x = Inr s1 \<Longrightarrow> quiet s s1"
  shows "quiet s s1"
  by (rule foldR_invariant [OF assms(1), of "quiet s"]) (auto intro: quiet_trans assms(2))

lemma ComputeFeature_quiet: "ComputeFeature ops t ph s i = Inr s1 \<Longrightarrow> quiet s s1"
  by (auto simp: ComputeFeature_def Let_def bindR_eq_Inr quiet_def unready_def split: if_splits)

lemma ComputeLoss_quiet: "ComputeLoss ops t s i = Inr s1 \<Longrightarrow> quiet s s1"
  by (auto simp: ComputeLoss_def bindR_eq_Inr quiet_def)

lemma Collect_stays: "Collect s a = Inr s1 \<Longrightarrow> s1 = s"
  by (auto simp: Collect_def bindR_eq_Inr split: if_splits)

lemma forward_layer_quiet:
  assumes "forward_layer ops w ph t s i = Inr s1"
  shows "quiet s s1"
proof (cases "partition_id (nets s t ! i) = wid w")
  case True
  then obtain a b c where a: "(if is_bridgedstlayer (nets s t ! i) then ReceiveBlobs w t i s else Inr s) = Inr a"
    and b: "(if ph = kTrain then foldR Collect a (l_params (nets s t ! i)) else Inr a) = Inr b"
    and c: "ComputeFeature ops t ph b i = Inr c"
    and d: "(if is_bridgesrclayer (nets s t ! i) then SendBlobs w t i c else Inr c) = Inr s1"
    using assms by (auto simp: forward_layer_def Let_def bindR_eq_Inr)
  have "quiet s a" using a by (auto simp: ReceiveBlobs_def bindR_eq_Inr quiet_def split: if_splits)
  moreover have "quiet a b"
  proof (cases "ph = kTrain")
    case True
    have "foldR Collect a (l_params (nets s t ! i)) = Inr b" using b True by simp
    then show ?thesis by (rule foldR_quiet) (auto dest: Collect_stays)
  qed (use b in simp)
  moreover have "quiet c s1" using d by (auto simp: SendBlobs_def Let_def bindR_eq_Inr quiet_def split: if_splits)
  ultimately show ?thesis using ComputeFeature_quiet [OF c] quiet_trans by blast
qed (use assms in \<open>simp add: forward_layer_def\<close>)

lemma TestOneBatch_quiet:
  assumes "TestOneBatch ops w ph net s = Inr s1"
  shows "quiet s s1"
proof (cases "alg (modelproto w)")
  case kBackPropagation
  then obtain t where "Forward ops w ph t s = Inr s1"
    using assms by (auto simp: TestOneBatch_def BP_TestOneBatch_def bindR_eq_Inr)
  then show ?thesis unfolding Forward_def by (rule foldR_quiet) (rule forward_layer_quiet)
next
  case kContrastiveDivergence
  then obtain t a b where t: "PositivePhase ops t s = Inr a"
    "foldR (ComputeFeature ops t kLoss) a (positions is_hidlayer (nets a t)) = Inr b"
    "foldR (ComputeLoss ops t) b (positions is_vislayer (nets b t)) = Inr s1"
    using assms by (auto simp: TestOneBatch_def CD_TestOneBatch_def LossPhase_def bindR_eq_Inr)
  have "quiet s a" using t(1) unfolding PositivePhase_def by (rule foldR_quiet) (rule ComputeFeature_quiet)
  moreover have "quiet a b" using t(2) by (rule foldR_quiet) (rule ComputeFeature_quiet)
  moreover have "quiet b s1" using t(3) by (rule foldR_quiet) (rule ComputeLoss_quiet)
  ultimately show ?thesis using quiet_trans by blast
qed

lemma run_loop_quiet: "run_loop ops w s flags = Inr s1 \<Longrightarrow> quiet s s1"
  by (induction flags arbitrary: s)
     (auto simp: bindR_eq_Inr split: if_splits dest!: TestOneBatch_quiet intro: quiet_trans)


definition demo_ops :: "real layer_ops" where
  "demo_ops = \<lparr>ComputeFeature_of = (\<lambda>obj ph pf h. Inr (pf, h)), ComputeGradient_of = (\<lambda>obj ph h. Inr h),
     ComputeLoss_of = (\<lambda>obj pf h. Inr (pf, h))\<rparr>"

definition demo_wstate :: "real wstate" where
  "demo_wstate = \<lparr>nets = (\<lambda>_. [demo_layer 0]), perf = Map.empty,
     wst = empty_store\<lparr>params := (\<lambda>_. demo_owner), mem := set_version (the (pdata demo_owner)) 5 (snd (demo_sized 2))\<rparr>, inbox = [], layer_out = [], param_out = []\<rparr>"

lemma demo_owner_data: "pdata demo_owner \<noteq> None"
  "param_version demo_owner (set_version (the (pdata demo_owner)) v h) = Inr v" "local_version demo_owner = - 1"
proof -
  have "param_in (fst (demo_sized 2)) (snd (demo_sized 2)) 2" using demo_sized_ok [of 2] by (simp add: is_c_int_def)
  then show d: "pdata demo_owner \<noteq> None" by (auto simp: demo_owner_def set_id_def param_in_def)
  then show "param_version demo_owner (set_version (the (pdata demo_owner)) v h) = Inr v"
    by (auto simp: param_version_def data_blob_def set_version_def upd_blob_def)
  show "local_version demo_owner = - 1"
    by (simp add: demo_owner_def set_id_def demo_sized_def Param_Setup_def Blob_new_shape_def Blob_new_def Param_new_def Reshape_def
        shape_count_def is_c_int_def heap0_def upd_blob_def SyncedMemory_new_def Let_def)
qed

lemma demo_Run: "\<exists>w1 s1. Worker_Run small_conf Map.empty rev rev_sampler () demo_ops [False, True] demo_worker demo_wstate = Inr (w1, s1)"
  using demo_owner_data(1)
  by (simp add: Worker_Run_def net_of_def demo_worker_def Worker_connect_def demo_wstate_def InitLocalParams_def
      nworker_groups_per_server_group_def small_conf_def demo_layer_def local_params_def owns_def demo_owner_def [symmetric]
      demo_model_def init_unset_def demo_owner_data TestOneBatch_def BP_TestOneBatch_def Forward_def forward_layer_def
      Collect_def ComputeFeature_def demo_ops_def Let_def empty_store_def)


section \<open>The backward pass\<close>

text \<open>The layers compute gradients without failing and do not touch shapes or versions.\<close>

definition gradients_ok :: "'f layer_ops \<Rightarrow> bool" where
  "gradients_ok ops \<longleftrightarrow> (\<forall>obj ph h. \<exists>h1. ComputeGradient_of ops obj ph h = Inr h1 \<and> blobs h1 = blobs h)"

definition mark :: "nat list \<Rightarrow> 'f wstate \<Rightarrow> nat \<Rightarrow> 'f Param" where
  "mark as s a = (if a \<in> set as then (params (wst s) a)\<lparr>local_version := bversion (blobs (mem (wst s)) (data_at (params (wst s)) a))\<rparr>
     else params (wst s) a)"

lemma Worker_request_cong: "pproto p = pproto q \<Longrightarrow> Worker_request w ty p step = Worker_request w ty q step"
  by (simp add: Worker_request_def)

lemma Worker_request_local [simp]: "Worker_request w ty (p\<lparr>local_version := v\<rparr>) step = Worker_request w ty p step"
  by (rule Worker_request_cong) simp

lemma Worker_Updates:
  assumes "wupdater w = None" and "\<forall>a \<in> set as. pdata (params (wst s) a) \<noteq> None"
  shows "foldR (Worker_Update M w step) s as = Inr (s\<lparr>wst := (wst s)\<lparr>params := mark as s\<rparr>,
    param_out := param_out s @ map (\<lambda>a. Worker_request w kUpdate (params (wst s) a) step) as\<rparr>)"
  using assms(2)
proof (induction as arbitrary: s)
  case Nil
  then show ?case by (cases s; cases "wst s") (simp add: mark_def)
next
  case (Cons a as)
  let ?p = "params (wst s) a"
  let ?s1 = "s\<lparr>wst := (wst s)\<lparr>params := (params (wst s))(a := ?p\<lparr>local_version := bversion (blobs (mem (wst s)) (the (pdata ?p)))\<rparr>)\<rparr>,
      param_out := param_out s @ [Worker_request w kUpdate ?p step]\<rparr>"
  have step: "Worker_Update M w step s a = Inr ?s1"
    using assms(1) Cons.prems
    by (auto simp: Worker_Update_def Let_def param_version_def data_blob_def)
  have "mark as ?s1 = mark (a # as) s"
    by (auto simp: mark_def fun_eq_iff)
  moreover have "Worker_request w kUpdate (params (wst ?s1) b) step = Worker_request w kUpdate (params (wst s) b) step" for b
    by (rule Worker_request_cong) simp
  moreover have "\<forall>b \<in> set as. pdata (params (wst ?s1) b) \<noteq> None" using Cons.prems by auto
  ultimately show ?case using Cons.IH [of ?s1] step by simp
qed

lemma concat_rev_filter:
  "concat (rev (map (\<lambda>x. if P x then f x else []) xs)) = concat (map f (rev (filter P xs)))"
  by (induction xs) simp_all

definition layout :: "Layer list \<Rightarrow> Layer list" where
  "layout ls = map (\<lambda>l. l\<lparr>ready := False\<rparr>) ls"

lemma layout_nth:
  assumes "layout ls = layout ms" and "i < length ls"
  shows "partition_id (ls ! i) = partition_id (ms ! i)" "l_params (ls ! i) = l_params (ms ! i)" "length ms = length ls"
proof -
  have len: "length ms = length ls" using assms(1) by (metis layout_def length_map)
  have "(ls ! i)\<lparr>ready := False\<rparr> = (ms ! i)\<lparr>ready := False\<rparr>" using assms len by (metis layout_def nth_map)
  then show "partition_id (ls ! i) = partition_id (ms ! i)" "l_params (ls ! i) = l_params (ms ! i)" "length ms = length ls"
    using len by (metis Layer.select_convs(3) Layer.surjective Layer.update_convs(11), metis Layer.select_convs(4) Layer.surjective Layer.update_convs(11), simp)
qed

lemma ComputeGradient_ok:
  assumes "gradients_ok ops"
  shows "\<exists>s1. ComputeGradient ops t ph s i = Inr s1 \<and> layout (nets s1 t) = layout (nets s t) \<and> params (wst s1) = params (wst s) \<and>
    blobs (mem (wst s1)) = blobs (mem (wst s)) \<and> param_out s1 = param_out s"
proof -
  obtain h1 where h1: "ComputeGradient_of ops (l_obj (nets s t ! i)) ph (mem (wst s)) = Inr h1" "blobs h1 = blobs (mem (wst s))"
    using assms unfolding gradients_ok_def by blast
  have "layout ((nets s t)[i := (nets s t ! i)\<lparr>ready := False\<rparr>]) = layout (nets s t)"
    by (cases "i < length (nets s t)") (simp_all add: layout_def list_eq_iff_nth_eq nth_list_update)
  then show ?thesis using h1 by (auto simp: ComputeGradient_def Let_def unready_def)
qed

definition own_params :: "'f Worker \<Rightarrow> Layer list \<Rightarrow> nat list \<Rightarrow> nat list" where
  "own_params w ls is = concat (map (\<lambda>i. if partition_id (ls ! i) = wid w then l_params (ls ! i) else []) is)"

lemma own_params_layout:
  assumes "layout ls = layout ms" and "\<forall>i \<in> set is. i < length ls"
  shows "own_params w ls is = own_params w ms is"
  using assms(2) layout_nth [OF assms(1)] unfolding own_params_def by (intro arg_cong [of _ _ concat] map_cong) auto

lemma mark_append: "params (wst s1) = mark as s \<Longrightarrow> blobs (mem (wst s1)) = blobs (mem (wst s)) \<Longrightarrow> mark bs s1 = mark (as @ bs) s"
  by (auto simp: mark_def fun_eq_iff)

lemma mark_simps [simp]: "pproto (mark as s a) = pproto (params (wst s) a)" "pdata (mark as s a) = pdata (params (wst s) a)"
  by (simp_all add: mark_def)

lemma backward_layers:
  assumes "gradients_ok ops" and "wupdater w = None" and "\<forall>i \<in> set is. i < length (nets s t)"
    and "\<forall>a \<in> set (own_params w (nets s t) is). pdata (params (wst s) a) \<noteq> None"
  shows "\<exists>s1. foldR (backward_layer M ops w step t) s is = Inr s1 \<and> params (wst s1) = mark (own_params w (nets s t) is) s \<and>
    param_out s1 = param_out s @ map (\<lambda>a. Worker_request w kUpdate (params (wst s) a) step) (own_params w (nets s t) is)"
  using assms(3,4)
proof (induction "is" arbitrary: s)
  case Nil
  then show ?case by (auto simp: own_params_def mark_def)
next
  case (Cons i "is")
  let ?ls = "nets s t" and ?as = "own_params w (nets s t) [i]"
  obtain s1 where s1: "backward_layer M ops w step t s i = Inr s1" "layout (nets s1 t) = layout ?ls"
    "params (wst s1) = mark ?as s" "blobs (mem (wst s1)) = blobs (mem (wst s))"
    "param_out s1 = param_out s @ map (\<lambda>a. Worker_request w kUpdate (params (wst s) a) step) ?as"
  proof (cases "partition_id (?ls ! i) = wid w")
    case True
    obtain g where g: "ComputeGradient ops t kTrain s i = Inr g" "layout (nets g t) = layout (nets s t)"
      "params (wst g) = params (wst s)" "blobs (mem (wst g)) = blobs (mem (wst s))" "param_out g = param_out s"
      using ComputeGradient_ok [OF assms(1)] by blast
    have as: "?as = l_params (?ls ! i)" using True by (simp add: own_params_def)
    have "mark ?as g = mark ?as s" using g(3,4) by (simp add: mark_def fun_eq_iff)
    moreover have "\<forall>a \<in> set ?as. pdata (params (wst g) a) \<noteq> None" using Cons.prems(2) g(3) as by (auto simp: own_params_def True)
    ultimately show ?thesis
      using that Worker_Updates [OF assms(2), of ?as g M step] g True as by (auto simp: backward_layer_def)
  next
    case False
    then have "?as = []" "mark [] s = params (wst s)" by (simp_all add: own_params_def mark_def fun_eq_iff)
    then show ?thesis using False by (intro that [of s]) (simp_all add: backward_layer_def)
  qed
  have idx: "\<forall>j \<in> set is. j < length (nets s1 t)" "\<forall>j \<in> set is. j < length ?ls"
    using Cons.prems(1) arg_cong [OF s1(2), of length] by (auto simp: layout_def)
  have op: "own_params w (nets s1 t) is = own_params w ?ls is" by (rule own_params_layout [OF s1(2) idx(1)])
  have app: "own_params w ?ls (i # is) = ?as @ own_params w ?ls is" by (simp add: own_params_def)
  obtain s2 where s2: "foldR (backward_layer M ops w step t) s1 is = Inr s2" "params (wst s2) = mark (own_params w ?ls is) s1"
    "param_out s2 = param_out s1 @ map (\<lambda>a. Worker_request w kUpdate (params (wst s1) a) step) (own_params w ?ls is)"
    using Cons.IH [OF idx(1)] op Cons.prems(2) app s1(3) by auto
  have "Worker_request w kUpdate (params (wst s1) a) step = Worker_request w kUpdate (params (wst s) a) step" for a
    using s1(3) by (intro Worker_request_cong) simp
  then show ?case using s1 s2 mark_append [OF s1(3,4)] app by auto
qed



section \<open>Workers that never start\<close>

lemma foldR_Collect_blocked:
  assumes "\<forall>a \<in> set as. pdata (params (wst s) a) \<noteq> None" and "b \<in> set as"
    and "bversion (blobs (mem (wst s)) (the (pdata (params (wst s) b)))) \<le> local_version (params (wst s) b)"
  shows "foldR Collect s as = Inl Blocked"
  using assms
proof (induction as)
  case (Cons a as)
  have "Collect s a = (if bversion (blobs (mem (wst s)) (the (pdata (params (wst s) a)))) \<le> local_version (params (wst s) a)
      then Inl Blocked else Inr s)"
    using Cons.prems(1) by (auto simp: Collect_def param_version_def data_blob_def)
  then show ?case using Cons by auto
qed simp


definition async_conf :: ClusterProto where
  "async_conf = small_conf\<lparr>nworker_groups := 2, nservers_per_group := 1\<rparr>"


end
