(* ===== verification/Trainer.thy ===== *)
theory Trainer
  imports Worker
begin

text \<open>
  Model of \<open>src/include/trainer/trainer.h\<close> and \<open>src/src/trainer/trainer.cc\<close>: which workers and
  servers a process runs, how the parameters are sliced, and the stub, the main thread that passes
  messages between the workers and servers of all processes and aggregates the requests of the
  workers of its process.

  \<open>Trainer\<close> holds the members that the stub reads and writes; the parameters of the workers are in
  the same \<open>store\<close> as those of the servers. A handler returns the messages it makes. The bandwidth
  that the stub has used so far depends on the clock and is an argument of a step, as is what the
  runtime knows of the end points of other processes.
\<close>

section \<open>Slicing\<close>

fun unique_sizes :: "(nat \<Rightarrow> 'f Param) \<Rightarrow> 'f heap \<Rightarrow> nat list \<Rightarrow> int list res" where
  "unique_sizes ps h [] = Inr []"
| "unique_sizes ps h (a # as) =
     (if owns (ps a) then
        bindR (param_size (ps a) h) (\<lambda>n. bindR (unique_sizes ps h as) (\<lambda>ns. Inr (n # ns)))
      else unique_sizes ps h as)"

text \<open>
  The loop that numbers the slices: \<open>k\<close> is \<open>slice_id\<close>, \<open>sl\<close> the vector \<open>slices\<close> and \<open>m\<close> the map
  \<open>paramid2slices\<close>, whose \<open>operator[]\<close> gives an empty vector for a new key.
\<close>

fun number_slices ::
  "(nat \<Rightarrow> 'f Param) \<Rightarrow> nat list \<Rightarrow> int list list \<Rightarrow> int \<Rightarrow> int list \<Rightarrow> (int \<Rightarrow> (int \<times> int) list) \<Rightarrow>
   (int list \<times> (int \<Rightarrow> (int \<times> int) list)) res" where
  "number_slices ps [] pieces k sl m = Inr (sl, m)"
| "number_slices ps (a # as) pieces k sl m =
     (if owns (ps a) then
        (case pieces of
           [] \<Rightarrow> Inl Undefined
         | lens # rest \<Rightarrow>
             let i = pp_id (pproto (ps a)) in
             number_slices ps as rest (k + int (length lens)) (sl @ lens)
               (m(i := m i @ zip [k..k + int (length lens) - 1] lens)))
      else number_slices ps as pieces k sl m)"

definition give_slices :: "(int \<Rightarrow> (int \<times> int) list) \<Rightarrow> (nat \<Rightarrow> 'f Param) \<Rightarrow> nat \<Rightarrow> (nat \<Rightarrow> 'f Param) res" where
  "give_slices m ps a =
     bindR (foldR (\<lambda>p (i, len). AddSlice i len p) (ps a) (m (pp_owner (pproto (ps a))))) (\<lambda>p.
       Inr (ps(a := p)))"

definition SliceParams :: "ClusterProto \<Rightarrow> nat list \<Rightarrow> 'f store \<Rightarrow> (int list \<times> 'f store) res option" where
  "SliceParams conf as st =
     bindOR (Some (unique_sizes (params st) (mem st) as)) (\<lambda>sizes.
     bindOR (Slice (LeastCommonMultiple (nserver_groups conf) (nservers_per_group conf)) sizes) (\<lambda>pieces.
     bindOR (Some (number_slices (params st) as pieces 0 [] (\<lambda>_. []))) (\<lambda>(slices, m).
     bindOR (Some (foldR (give_slices m) (params st) as)) (\<lambda>ps.
       Some (Inr (slices, st\<lparr>params := ps\<rparr>))))))"

section \<open>Workers, servers and entries\<close>

record Trainer =
  t_procs_id :: int
  worker_shard :: "int \<rightharpoonup> ParamEntry"
  slice2server :: "int list"

definition Trainer_Hash :: "int \<Rightarrow> int \<Rightarrow> int" where
  "Trainer_Hash grp param = grp * 997 + param"

text \<open>The threads are numbered from \<open>nthreads\<close>; \<open>raw\<close> is the fresh memory of a worker.\<close>

definition CreateServers :: "Cluster \<Rightarrow> int \<Rightarrow> 'f Updater \<Rightarrow> 'f Server list res" where
  "CreateServers cl nthreads u0 =
     bindR (has_server cl) (\<lambda>has.
       if \<not> has then Inr []
       else
         let c = cluster_conf cl;
             pid = (if server_worker_separate c then procs_id cl - nworker_procs c else procs_id cl);
             procs_size = nservers_per_procs c; grp_size = nservers_per_group c in
         checkR (grp_size \<noteq> 0) Undefined
         (let gid = pid * procs_size sdiv grp_size; start = pid * procs_size smod grp_size in
          Inr (map (\<lambda>(t, sid). Server_new t gid sid u0)
            (zip [nthreads..nthreads + procs_size - 1] [start..start + procs_size - 1]))))"

definition worker_range :: "Cluster \<Rightarrow> (int \<times> int \<times> int \<times> int) res" where
  "worker_range cl =
     (let c = cluster_conf cl; pid = procs_id cl;
          grp_size = nworkers_per_group c; procs_size = nworkers_per_procs c in
      checkR (grp_size \<noteq> 0) Undefined
      (if procs_size \<le> grp_size then
         (let gstart = pid * procs_size sdiv grp_size; wstart = pid * procs_size smod grp_size in
          Inr (gstart, gstart + 1, wstart, wstart + procs_size))
       else
         checkR (procs_size smod grp_size = 0) CheckFailed
         (let groups_per_procs = procs_size sdiv grp_size in
          Inr (pid * groups_per_procs, (pid + 1) * groups_per_procs, 0, grp_size))))"

definition CreateWorkers :: "Cluster \<Rightarrow> int \<Rightarrow> 'f Worker \<Rightarrow> 'f Worker list res" where
  "CreateWorkers cl nthreads raw =
     (if \<not> has_worker cl then Inr []
      else
        bindR (worker_range cl) (\<lambda>(gstart, gend, wstart, wend).
        let slots = List.product [gstart..gend - 1] [wstart..wend - 1] in
          Inr (map (\<lambda>(t, g, i). Worker_new raw t g i) (zip [nthreads..nthreads + int (length slots) - 1] slots))))"

text \<open>
  The entries of \<open>worker_shard_\<close> for the net of a group; the workers of the process are those
  from \<open>front\<close> to \<open>back\<close>.
\<close>

definition add_entry :: "int \<Rightarrow> (nat \<Rightarrow> 'f Param) \<Rightarrow> bool \<Rightarrow> (int \<rightharpoonup> ParamEntry) \<Rightarrow> nat \<Rightarrow> (int \<rightharpoonup> ParamEntry)" where
  "add_entry grp ps local shard a =
     (let key = Trainer_Hash grp (pp_owner (pproto (ps a)));
          e = (case shard key of None \<Rightarrow> ParamEntry_new | Some e \<Rightarrow> e) in
      shard(key \<mapsto> AddParam local a e))"

definition prepare_entries ::
  "int \<Rightarrow> int \<Rightarrow> int \<Rightarrow> Layer list \<Rightarrow> (nat \<Rightarrow> 'f Param) \<Rightarrow> (int \<rightharpoonup> ParamEntry) \<Rightarrow> (int \<rightharpoonup> ParamEntry)" where
  "prepare_entries grp front back ls ps shard =
     foldl (\<lambda>sh l. foldl (add_entry grp ps (front \<le> partition_id l \<and> partition_id l \<le> back)) sh (l_params l)) shard ls"

text \<open>The end of \<open>SetupWorkerServer\<close>: the slices go to server groups and to servers of a group.\<close>

definition assign_slices ::
  "ClusterProto \<Rightarrow> 'f UpdaterProto \<Rightarrow> int list \<Rightarrow> 'f Server list \<Rightarrow> Trainer \<Rightarrow> ('f Server list \<times> Trainer) res option" where
  "assign_slices conf proto slices servers T =
     bindOR (PartitionSlices (nserver_groups conf) slices) (\<lambda>s2g.
     bindOR (Some (foldR (\<lambda>acc s. bindR (Server_Setup proto s2g s) (\<lambda>s1. Inr (acc @ [s1]))) [] servers)) (\<lambda>servers1.
     bindOR (PartitionSlices (nservers_per_group conf) slices) (\<lambda>s2s.
       Some (Inr (servers1, T\<lparr>slice2server := s2s\<rparr>)))))"

section \<open>Resuming from a checkpoint\<close>

text \<open>\<open>strstr\<close> and \<open>atoi\<close> of the C library.\<close>

fun strstr :: "string \<Rightarrow> string \<Rightarrow> string option" where
  "strstr [] pat = (if pat = [] then Some [] else None)"
| "strstr (c # s) pat = (if take (length pat) (c # s) = pat then Some (c # s) else strstr s pat)"

definition atoi :: "string \<Rightarrow> int" where
  "atoi s = (case scan_d s of None \<Rightarrow> 0 | Some (x, _) \<Rightarrow> x)"

text \<open>
  The loop over the entries of the folder, in the order in which the system lists them. A name is
  a C string, so the character at its length is a NUL. \<open>ck_files\<close> holds pointers into the variable
  \<open>file\<close> of the loop body, which is gone when they are read after the loop.
\<close>

fun resume_loop :: "string list \<Rightarrow> int \<Rightarrow> string list \<Rightarrow> (int \<times> string list) res" where
  "resume_loop [] latest files = Inr (latest, files)"
| "resume_loop (name # names) latest files =
     (let chr_at = (\<lambda>i. if i < length name then name ! i else CHR 0x00) in
      case strstr name ''step'' of
        None \<Rightarrow>
          if chr_at 0 \<noteq> CHR ''.'' \<and> chr_at 1 \<noteq> CHR ''.'' then resume_loop names latest files
          else Inl Undefined
      | Some ch \<Rightarrow>
          let step = atoi (drop 4 ch) in
          if step = latest then resume_loop names latest (files @ [name])
          else if latest < step then resume_loop names step [name]
          else resume_loop names latest files)"

definition Resume :: "string list \<Rightarrow> 'f ModelProto \<Rightarrow> 'f ModelProto res" where
  "Resume names model =
     bindR (resume_loop names 0 []) (\<lambda>(latest, files).
       if 0 < latest then
         (if files = [] then Inr (model\<lparr>mp_step := latest\<rparr>) else Inl Undefined)
       else Inr model)"

section \<open>Requests of local workers\<close>

text \<open>One slice in the loop of \<open>GenMsgs\<close>.\<close>

definition gen_slice_msg ::
  "Cluster \<Rightarrow> Trainer \<Rightarrow> int \<Rightarrow> int \<Rightarrow> ParamEntry \<Rightarrow> int \<Rightarrow> int \<Rightarrow> 'f msg list \<times> 'f Param \<times> ('f :: zero) heap \<Rightarrow> int \<Rightarrow>
   ('f msg list \<times> 'f Param \<times> 'f heap) res" where
  "gen_slice_msg cl T type version e src_grp dst_grp acc idx =
     (let (ret, p, h) = acc; slice_id = slice_start p + idx in
      bindR (idxR (slice2server T) slice_id) (\<lambda>server.
      bindR (ProcsIDOf cl dst_grp server kServer) (\<lambda>procs.
      let copy = (procs \<noteq> t_procs_id T) in
      bindR
        (if type = kPut then
           checkR (0 < num_total e) CheckFailed
           (bindR (GenPutMsg copy idx p h) (\<lambda>(m, h1).
            bindR (add_fmt [FI (num_total e)] m) (\<lambda>m1. Inr (m1, p, h1))))
         else if type = kGet then GenGetMsg copy idx p h
         else if type = kUpdate then
           bindR (GenUpdateMsg copy idx p h) (\<lambda>(m, p1, h1).
           bindR (add_fmt [FI (num_local e)] m) (\<lambda>m1. Inr (m1, p1, h1)))
         else Inl CheckFailed)
        (\<lambda>(m, p1, h1).
          Inr (ret @ [(set_trgt (ParamTrgt (pp_owner (pproto p1)) slice_id) version m)
            \<lparr>msg_src := Addr src_grp (t_procs_id T) kStub, msg_dst := Addr dst_grp server kServer\<rparr>], p1, h1)))))"

definition GenMsgs ::
  "Cluster \<Rightarrow> Trainer \<Rightarrow> int \<Rightarrow> int \<Rightarrow> ParamEntry \<Rightarrow> 'f msg \<Rightarrow> ('f :: zero) store \<Rightarrow> ('f msg list \<times> 'f store) res" where
  "GenMsgs cl T type version e m st =
     (let src_grp = AddrGrp (msg_src m); n = nworker_groups_per_server_group (cluster_conf cl) in
      checkR (n \<noteq> 0) Undefined
      (bindR (atR (shares e) 0) (\<lambda>a.
       bindR (foldR (gen_slice_msg cl T type version e src_grp (src_grp sdiv n)) ([], params st a, mem st)
           [0..num_slices (params st a) - 1]) (\<lambda>(ret, p, h).
         Inr (ret, st\<lparr>params := (params st)(a := p), mem := h\<rparr>)))))"

definition Trainer_HandleGet ::
  "Cluster \<Rightarrow> Trainer \<Rightarrow> ParamEntry \<Rightarrow> 'f msg \<Rightarrow> ('f :: zero) store \<Rightarrow> ('f msg list \<times> ParamEntry \<times> 'f store) res" where
  "Trainer_HandleGet cl T e m st =
     (let version = trgt_version m in
      if next_version e < version then
        (let e1 = e\<lparr>next_version := version\<rparr> in
         bindR (GenMsgs cl T kGet version e1 m st) (\<lambda>(ret, st1). Inr (ret, e1, st1)))
      else Inr ([], e, st))"

text \<open>The sum of the gradients of the local shares, in the gradient of the first one.\<close>

definition add_grad ::
  "(nat \<Rightarrow> 'f Param) \<Rightarrow> ptr \<Rightarrow> nat \<Rightarrow> ('f :: {zero, plus}) heap \<Rightarrow> nat \<Rightarrow> 'f heap res" where
  "add_grad ps tot n h a =
     bindR (mutable_cpu_data (pgrad (ps a)) h) (\<lambda>(g, h1). tensor2 (+) tot tot g n h1)"

definition average_local ::
  "('f :: {zero, plus, divide}) libm \<Rightarrow> ParamEntry \<Rightarrow> 'f store \<Rightarrow> 'f heap res" where
  "average_local M e st =
     (case shares e of
        [] \<Rightarrow> Inl Undefined
      | a # as \<Rightarrow>
          bindR (param_size (params st a) (mem st)) (\<lambda>sz.
          bindR (mutable_cpu_data (pgrad (params st a)) (mem st)) (\<lambda>(tot, h1).
          bindR (foldR (add_grad (params st) tot (nat sz)) h1 as) (\<lambda>h2.
            tensor1 (\<lambda>x. x div i2f M (num_total e)) tot tot (nat sz) h2))))"

definition Trainer_HandleUpdate ::
  "('f :: {zero, plus, divide}) libm \<Rightarrow> Cluster \<Rightarrow> Trainer \<Rightarrow> ParamEntry \<Rightarrow> 'f msg \<Rightarrow> 'f store \<Rightarrow>
   ('f msg list \<times> ParamEntry \<times> 'f store) res" where
  "Trainer_HandleUpdate M cl T e m st =
     (let e1 = e\<lparr>num_update := num_update e + 1\<rparr> in
      if num_local e1 \<le> num_update e1 then
        bindR (if 1 < num_local e1 then average_local M e1 st else Inr (mem st)) (\<lambda>h1.
        bindR (GenMsgs cl T kUpdate (trgt_version m) e1 m (st\<lparr>mem := h1\<rparr>)) (\<lambda>(ret, st1).
          Inr (ret, e1\<lparr>num_update := 0\<rparr>, st1)))
      else Inr ([], e1, st))"

definition Trainer_HandlePut ::
  "Cluster \<Rightarrow> Trainer \<Rightarrow> ParamEntry \<Rightarrow> 'f msg \<Rightarrow> ('f :: zero) store \<Rightarrow> ('f msg list \<times> 'f store) res" where
  "Trainer_HandlePut cl T e m st = GenMsgs cl T kPut (trgt_version m) e m st"

section \<open>Responses of servers\<close>

definition handle_response ::
  "('f msg \<Rightarrow> int \<Rightarrow> 'f Param \<Rightarrow> 'f heap \<Rightarrow> (int \<times> 'f Param \<times> 'f heap) res) \<Rightarrow> ParamEntry \<Rightarrow> 'f msg \<Rightarrow> 'f store \<Rightarrow> 'f store res" where
  "handle_response parse e m st =
     bindR (atR (shares e) 0) (\<lambda>a.
     bindR (parse m (SliceID (trgt_val m) - slice_start (params st a)) (params st a) (mem st)) (\<lambda>(r, p, h1).
     bindR (if r \<noteq> 0 then param_set_version (trgt_version m) p h1 else Inr h1) (\<lambda>h2.
       Inr (st\<lparr>params := (params st)(a := p), mem := h2\<rparr>))))"

definition HandleGetResponse :: "ParamEntry \<Rightarrow> 'f msg \<Rightarrow> ('f :: zero) store \<Rightarrow> 'f store res" where
  "HandleGetResponse = handle_response ParseGetResponseMsg"

definition HandleUpdateResponse :: "ParamEntry \<Rightarrow> 'f msg \<Rightarrow> ('f :: zero) store \<Rightarrow> 'f store res" where
  "HandleUpdateResponse = handle_response ParseUpdateResponseMsg"

section \<open>The stub\<close>

text \<open>The entry of a parameter in a worker group, read with \<open>at\<close>.\<close>

definition worker_entry :: "Trainer \<Rightarrow> int \<Rightarrow> int \<Rightarrow> ParamEntry res" where
  "worker_entry T grp paramid =
     (case worker_shard T (Trainer_Hash grp paramid) of None \<Rightarrow> Inl OutOfRange | Some e \<Rightarrow> Inr e)"

definition set_entry :: "int \<Rightarrow> int \<Rightarrow> ParamEntry \<Rightarrow> Trainer \<Rightarrow> Trainer" where
  "set_entry grp paramid e T = T\<lparr>worker_shard := (worker_shard T)(Trainer_Hash grp paramid \<mapsto> e)\<rparr>"

text \<open>The result is what is pushed onto the message queue; other types are only logged.\<close>

definition HandleLocalMsg ::
  "('f :: {zero, plus, divide}) libm \<Rightarrow> Cluster \<Rightarrow> 'f msg \<Rightarrow> Trainer \<Rightarrow> 'f store \<Rightarrow> ('f msg list \<times> Trainer \<times> 'f store) res" where
  "HandleLocalMsg M cl m T st =
     (let paramid = ParamID (trgt_val m); type = msg_type m; src = AddrGrp (msg_src m); dst = AddrGrp (msg_dst m) in
      if type = kUpdate then
        bindR (worker_entry T src paramid) (\<lambda>e.
        bindR (Trainer_HandleUpdate M cl T e m st) (\<lambda>(ms, e1, st1). Inr (ms, set_entry src paramid e1 T, st1)))
      else if type = kRUpdate then
        bindR (worker_entry T dst paramid) (\<lambda>e.
        bindR (HandleUpdateResponse e m st) (\<lambda>st1. Inr ([], T, st1)))
      else if type = kGet then
        bindR (worker_entry T src paramid) (\<lambda>e.
        bindR (Trainer_HandleGet cl T e m st) (\<lambda>(ms, e1, st1). Inr (ms, set_entry src paramid e1 T, st1)))
      else if type = kRGet then
        bindR (worker_entry T dst paramid) (\<lambda>e.
        bindR (HandleGetResponse e m st) (\<lambda>st1. Inr ([], T, st1)))
      else if type = kPut then
        bindR (worker_entry T src paramid) (\<lambda>e.
        bindR (Trainer_HandlePut cl T e m st) (\<lambda>(ms, st1). Inr (ms, T, st1)))
      else Inr ([], T, st))"

text \<open>
  What is logged for a \<open>kMetric\<close> message: prefix, step and counters, of the first group only. \<open>des\<close>
  is the parser of protobuf.
\<close>

definition DisplayMetric ::
  "(string \<Rightarrow> 'f MetricProto) \<Rightarrow> 'f msg \<Rightarrow> (string \<times> int \<times> 'f metric) option res" where
  "DisplayMetric des m =
     (if AddrGrp (msg_src m) = 0 then
        bindR (ParseFormatFrame ''s'' m) (\<lambda>fs.
          case fs of
            [FS prefix] \<Rightarrow>
              bindR (NextFrame m) (\<lambda>(more, m1).
              checkR more CheckFailed
              (bindR (FrameBytes m1) (\<lambda>b.
               bindR (Metric_ParseFrom (des b) Map.empty) (\<lambda>cur.
                 Inr (Some (prefix, trgt_version m, cur))))))
          | _ \<Rightarrow> Inl Undefined)
      else Inr None)"

definition GenSyncReminderMsg :: "int \<Rightarrow> 'f Server list \<Rightarrow> 'f msg res" where
  "GenSyncReminderMsg server servers =
     bindR (idxR servers server) (\<lambda>s.
       Inr ((Msg_new 0 0)\<lparr>msg_src := Addr (- 1) (- 1) kStub, msg_dst := Addr (grp_id s) (server_id s) kServer,
         msg_type := kSyncReminder\<rparr>))"

text \<open>The stub waits until the other process has registered its end point.\<close>

definition CreateInterProcsDealer :: "(int \<Rightarrow> string) \<Rightarrow> int \<Rightarrow> Cluster \<Rightarrow> string res" where
  "CreateInterProcsDealer GetProcHost dst_procs cl =
     bindR (endpoint GetProcHost dst_procs cl) (\<lambda>ep.
       if ep = [] then Inl Blocked else Inr (''tcp://'' @ ep))"

datatype 'f action = ToRouter "'f msg" | ToProcs int "'f msg" | Display "string \<times> int \<times> 'f metric"

record 'f stub =
  trainer :: Trainer
  msg_queue :: "'f msg list"
  nworkers_up :: int
  nservers_up :: int
  inter_dealers :: "int \<rightharpoonup> string"
  stopped :: bool

definition to_me :: "Trainer \<Rightarrow> 'f msg \<Rightarrow> bool" where
  "to_me T m \<longleftrightarrow> AddrType (msg_dst m) = kStub \<and> (AddrProc (msg_dst m) = t_procs_id T \<or> AddrGrp (msg_dst m) = - 1)"

text \<open>The branch for messages to this stub.\<close>

definition stub_local ::
  "('f :: {zero, plus, divide}) libm \<Rightarrow> (string \<Rightarrow> 'f MetricProto) \<Rightarrow> Cluster \<Rightarrow> 'f msg \<Rightarrow> 'f stub \<Rightarrow> 'f store \<Rightarrow>
   ('f action list \<times> 'f stub \<times> 'f store) res" where
  "stub_local M des cl m s st =
     (let type = msg_type m in
      if type = kConnect then Inr ([], s, st)
      else if type = kMetric then
        bindR (DisplayMetric des m) (\<lambda>d. Inr (case d of None \<Rightarrow> [] | Some x \<Rightarrow> [Display x], s, st))
      else if type = kStop then
        (let flag = AddrType (msg_src m);
             s1 = (if flag = kServer then s\<lparr>nservers_up := nservers_up s - 1\<rparr>
                   else if flag = kWorkerParam then s\<lparr>nworkers_up := nworkers_up s - 1\<rparr> else s) in
         Inr ([], s1\<lparr>stopped := nworkers_up s1 = 0 \<and> nservers_up s1 = 0\<rparr>, st))
      else if 0 < nserver_groups (cluster_conf cl) then
        bindR (HandleLocalMsg M cl m (trainer s) st) (\<lambda>(ms, T, st1).
          Inr ([], s\<lparr>trainer := T, msg_queue := msg_queue s @ ms\<rparr>, st1))
      else Inr ([], s, st))"

text \<open>The branch for other messages; \<open>bw\<close> is the bandwidth in use.\<close>

definition stub_forward ::
  "(int \<Rightarrow> string) \<Rightarrow> int \<Rightarrow> Cluster \<Rightarrow> 'f msg \<Rightarrow> 'f stub \<Rightarrow> ('f action list \<times> 'f stub) res" where
  "stub_forward GetProcHost bw cl m s =
     (let dst = msg_dst m; flag = AddrType dst in
      bindR (if flag \<noteq> kStub then ProcsIDOf cl (AddrGrp dst) (AddrID dst) flag else Inr (AddrProc dst)) (\<lambda>dst_procs.
        if dst_procs \<noteq> t_procs_id (trainer s) then
          bindR (case inter_dealers s dst_procs of
                   None \<Rightarrow> bindR (CreateInterProcsDealer GetProcHost dst_procs cl) (\<lambda>ep.
                     Inr (s\<lparr>inter_dealers := (inter_dealers s)(dst_procs \<mapsto> ep)\<rparr>))
                 | Some _ \<Rightarrow> Inr s) (\<lambda>s1.
            Inr ([ToProcs dst_procs m], s1))
        else
          bindR (if msg_type m = kSyncRequest then add_fmt [FI (bandwidth (cluster_conf cl) - bw)] m else Inr m) (\<lambda>m1.
            Inr ([ToRouter m1], s))))"

text \<open>One message from the front of the queue.\<close>

definition stub_step ::
  "('f :: {zero, plus, divide}) libm \<Rightarrow> (string \<Rightarrow> 'f MetricProto) \<Rightarrow> (int \<Rightarrow> string) \<Rightarrow> int \<Rightarrow> Cluster \<Rightarrow> 'f stub \<Rightarrow> 'f store \<Rightarrow>
   ('f action list \<times> 'f stub \<times> 'f store) res" where
  "stub_step M des GetProcHost bw cl s st =
     (case msg_queue s of
        [] \<Rightarrow> Inl Blocked
      | m # ms \<Rightarrow>
          let s1 = s\<lparr>msg_queue := ms\<rparr> in
          if to_me (trainer s) m then stub_local M des cl m s1 st
          else bindR (stub_forward GetProcHost bw cl m s1) (\<lambda>(out, s2). Inr (out, s2, st)))"

text \<open>When the poller expires with several server groups and bandwidth left, a server is reminded.\<close>

definition stub_idle ::
  "int \<Rightarrow> Cluster \<Rightarrow> 'f Server list \<Rightarrow> int \<Rightarrow> int \<Rightarrow> ('f action list \<times> int) res" where
  "stub_idle bw cl servers nup sync_server_id =
     (if 1 < nserver_groups (cluster_conf cl) \<and> bw < bandwidth (cluster_conf cl) then
        bindR (GenSyncReminderMsg sync_server_id servers) (\<lambda>m.
        checkR (nup \<noteq> 0) Undefined
          (Inr ([ToRouter m], (sync_server_id + 1) smod nup)))
      else Inr ([], sync_server_id))"

section \<open>Placement of workers and servers\<close>

lemma div_eq_iff: "0 < s \<Longrightarrow> x div s = (p :: int) \<longleftrightarrow> p * s \<le> x \<and> x < p * s + s"
proof
  assume s: "0 < s" and "x div s = p"
  then have "p * s + x mod s = x" "0 \<le> x mod s" "x mod s < s" by auto
  then show "p * s \<le> x \<and> x < p * s + s" by linarith
next
  assume s: "0 < s" and p: "p * s \<le> x \<and> x < p * s + s"
  have "(p * s + (x - p * s)) div s = p" using s p by (subst div_mult_self3) simp_all
  then show "x div s = p" by simp
qed

lemma block_top:
  fixes s g :: int
  assumes "0 < s" and "s dvd g" and "s dvd x" and "0 < g"
  shows "x mod g + s \<le> g"
proof -
  have "s dvd g - x mod g" using assms(2,3) by (simp add: dvd_mod)
  moreover have "0 < g - x mod g" using assms(4) by simp
  ultimately show ?thesis using zdvd_imp_le [of s "g - x mod g"] by linarith
qed

lemma block_in_row:
  fixes s g :: int
  assumes "0 < s" and "s dvd g" and "0 < g" and "0 \<le> i" and "i < g"
  shows "(a * g + i) div s = p \<longleftrightarrow> a = p * s div g \<and> p * s mod g \<le> i \<and> i < p * s mod g + s"
proof -
  let ?q = "p * s div g" and ?r = "p * s mod g"
  have r: "0 \<le> ?r" "?r < g" using assms(3) by simp_all
  have top: "?r + s \<le> g" by (rule block_top [OF assms(1,2) _ assms(3)]) simp
  have q: "p * s = ?q * g + ?r" by simp
  have "p * s \<le> a * g + i \<and> a * g + i < p * s + s \<longleftrightarrow> a = ?q \<and> ?r \<le> i \<and> i < ?r + s"
  proof
    assume lhs: "p * s \<le> a * g + i \<and> a * g + i < p * s + s"
    have "(a * g + i) div g = ?q"
      unfolding div_eq_iff [OF assms(3)] using lhs q r top by linarith
    then have a: "a = ?q" using assms(3-5) by simp
    have "?q * g + ?r \<le> ?q * g + i" "?q * g + i < ?q * g + ?r + s" using lhs q a by simp_all
    then show "a = ?q \<and> ?r \<le> i \<and> i < ?r + s" using a by linarith
  next
    assume rhs: "a = ?q \<and> ?r \<le> i \<and> i < ?r + s"
    then have "a * g = ?q * g" by simp
    then show "p * s \<le> a * g + i \<and> a * g + i < p * s + s" using q rhs by linarith
  qed
  then show ?thesis unfolding div_eq_iff [OF assms(1)] .
qed

lemma rows_in_block:
  fixes k g :: int
  assumes "0 < k" and "0 < g" and "0 \<le> i" and "i < g"
  shows "(a * g + i) div (k * g) = p \<longleftrightarrow> p * k \<le> a \<and> a < (p + 1) * k"
proof -
  have "(a * g + i) div (k * g) = (a * g + i) div g div k" using assms by (simp add: zdiv_zmult2_eq mult.commute)
  also have "(a * g + i) div g = a" using assms by simp
  finally show ?thesis using div_eq_iff [OF assms(1), of a p] by (simp add: algebra_simps)
qed

lemma map_zip_snd: "length xs = length ys \<Longrightarrow> map (\<lambda>(x, y). f y) (zip xs ys) = map f ys"
  by (induction xs ys rule: list_induct2) simp_all

lemma worker_range_eq:
  assumes "wf_conf c" and "cluster_conf cl = c" and "0 \<le> procs_id cl"
    and "nworkers_per_procs c dvd nworkers_per_group c \<or> nworkers_per_group c dvd nworkers_per_procs c"
  shows "\<exists>ga gb wa wb. worker_range cl = Inr (ga, gb, wa, wb) \<and>
    (\<forall>g i. (0 \<le> i \<and> i < nworkers_per_group c \<and> (g * nworkers_per_group c + i) div nworkers_per_procs c = procs_id cl) \<longleftrightarrow>
      ga \<le> g \<and> g < gb \<and> wa \<le> i \<and> i < wb)"
proof -
  let ?s = "nworkers_per_procs c" and ?g = "nworkers_per_group c" and ?p = "procs_id cl"
  have pos: "0 < ?s" "0 < ?g" using assms(1) by (simp_all add: wf_conf_def)
  show ?thesis
  proof (cases "?s \<le> ?g")
    case True
    then have dv: "?s dvd ?g" using assms(4) pos zdvd_imp_le [of ?g ?s] by auto
    let ?r = "?p * ?s mod ?g"
    have q: "0 \<le> ?p * ?s" using assms(3) pos by simp
    have range: "worker_range cl = Inr (?p * ?s div ?g, ?p * ?s div ?g + 1, ?r, ?r + ?s)"
      using True pos q assms(2) by (simp add: worker_range_def Let_def)
    have "?r + ?s \<le> ?g" by (rule block_top [OF pos(1) dv _ pos(2)]) simp
    then have "(0 \<le> i \<and> i < ?g \<and> (g * ?g + i) div ?s = ?p) \<longleftrightarrow>
        ?p * ?s div ?g \<le> g \<and> g < ?p * ?s div ?g + 1 \<and> ?r \<le> i \<and> i < ?r + ?s" for g i
      using block_in_row [OF pos(1) dv pos(2), of i g ?p] pos_mod_sign [OF pos(2), of "?p * ?s"] by auto
    then show ?thesis using range by blast
  next
    case False
    then have dv: "?g dvd ?s" using assms(4) pos zdvd_imp_le [of ?s ?g] by auto
    then obtain k where k: "?s = k * ?g" by (auto simp: dvd_def mult.commute)
    have kp: "0 < k" using k pos by (simp add: zero_less_mult_iff)
    have range: "worker_range cl = Inr (?p * k, (?p + 1) * k, 0, ?g)"
      using False pos assms(2) k kp dv by (auto simp: worker_range_def Let_def)
    have "(0 \<le> i \<and> i < ?g \<and> (g * ?g + i) div ?s = ?p) \<longleftrightarrow> ?p * k \<le> g \<and> g < (?p + 1) * k \<and> 0 \<le> i \<and> i < ?g" for g i
      using rows_in_block [OF kp pos(2), of i g ?p] k by auto
    then show ?thesis using range by blast
  qed
qed


definition even_conf :: ClusterProto where
  "even_conf = small_conf\<lparr>nworkers_per_procs := 2, server_worker_separate := False\<rparr>"

lemma even_cluster: "\<exists>cl. Cluster_new even_conf = Inr cl" "wf_conf even_conf"
  by (simp_all add: Cluster_new_def even_conf_def small_conf_def wf_conf_def)




text \<open>
  When a process holds the servers of several groups, \<open>CreateServers\<close> numbers them on within
  one group: of two groups with one server each, both located on process 0, it creates servers 0
  and 1 of group 0, and server 0 of group 1 does not exist.
\<close>

theorem CreateServers_misses_group:
  "(let c = small_conf\<lparr>nserver_groups := 2, nservers_per_group := 1, server_worker_separate := False\<rparr> in
    bindR (Cluster_new c) (\<lambda>cl. bindR (ProcsIDOf cl 1 0 kServer) (\<lambda>p.
      bindR (CreateServers (cl\<lparr>procs_id := p\<rparr>) 1 demo_updater) (\<lambda>ss. Inr (p, map (\<lambda>s. (grp_id s, server_id s)) ss)))) =
    Inr (0, [(0, 0), (0, 1)]))"
  by code_simp

text \<open>
  C39. \<open>Resume\<close> is undefined on every folder that lists itself, as POSIX folders do: the entry
  \<open>.\<close> has no \<open>step\<close> in its name and is not skipped, so the null pointer that \<open>strstr\<close> returned is
  advanced and read.
\<close>

theorem Resume_undefined:
  assumes "''.'' \<in> set names"
  shows "Resume names model = Inl Undefined"
proof -
  have "resume_loop names latest files = Inl Undefined" for latest files
    using assms by (induction names latest files rule: resume_loop.induct) (auto simp: Let_def split: option.splits)
  then show ?thesis by (simp add: Resume_def)
qed

theorem Resume_undefined_witness: "Resume [''step10-worker0.bin'', ''.'', ''..''] demo_model = Inl Undefined"
  by (rule Resume_undefined) simp

section \<open>Slices of the parameters\<close>

lemma AddSlice_zip:
  "foldR (\<lambda>p (i, len). AddSlice i len p) p (zip [k..k + int (length lens) - 1] lens) = add_slices k lens p"
proof (induction lens arbitrary: k p)
  case (Cons x xs)
  have "[k..k + int (length (x # xs)) - 1] = k # [k + 1..k + 1 + int (length xs) - 1]"
    using upto_rec1 [of k "k + int (length xs)"] by (simp add: algebra_simps)
  then show ?case using Cons [of _ "k + 1"] by (simp add: bindR_def algebra_simps split: sum.split)
qed simp

lemma unique_sizes_eq:
  "\<forall>a \<in> set as. pdata (ps a) \<noteq> None \<Longrightarrow>
    unique_sizes ps h as = Inr (map (\<lambda>a. bcount (blobs h (data_at ps a))) (filter (\<lambda>a. owns (ps a)) as))"
  by (induction as) (auto simp: param_size_def data_blob_def)

lemma Slice_cases:
  assumes "0 < num" and "\<forall>x \<in> set sizes. 0 \<le> x"
  obtains (bad) "Slice num sizes = Some (Inl CheckFailed)" and "9 < num"
    | (ok) pieces where "Slice num sizes = Some (Inr pieces)" and "map sum_list pieces = sizes"
        and "\<forall>ps \<in> set pieces. \<forall>p \<in> set ps. 0 < p"
proof -
  obtain pieces nbox where s: "Slice num sizes = Some (if nbox \<le> num then Inr pieces else Inl CheckFailed)"
    "map sum_list pieces = sizes" "\<forall>ps \<in> set pieces. \<forall>p \<in> set ps. 0 < p" "num \<le> 9 \<longrightarrow> nbox \<le> num"
    using Slice_spec [OF assms] by blast
  show ?thesis
  proof (cases "nbox \<le> num")
    case True
    then show ?thesis using s ok by simp
  next
    case False
    then show ?thesis using s bad by simp
  qed
qed

text \<open>The slices of the \<open>j\<close>-th owner, numbered from \<open>k\<close> on.\<close>

definition numbered :: "int \<Rightarrow> int list list \<Rightarrow> nat \<Rightarrow> (int \<times> int) list" where
  "numbered k pieces j =
     (let s = k + int (length (concat (take j pieces))) in zip [s..s + int (length (pieces ! j)) - 1] (pieces ! j))"

lemma number_slices_eq:
  assumes "length pieces = length (filter (\<lambda>a. owns (ps a)) as)"
    and "distinct (map (\<lambda>a. pp_id (pproto (ps a))) (filter (\<lambda>a. owns (ps a)) as))"
  shows "\<exists>m1. number_slices ps as pieces k sl m = Inr (sl @ concat pieces, m1) \<and>
    (\<forall>j < length pieces. let i = pp_id (pproto (ps (filter (\<lambda>a. owns (ps a)) as ! j))) in m1 i = m i @ numbered k pieces j) \<and>
    (\<forall>i. i \<notin> set (map (\<lambda>a. pp_id (pproto (ps a))) (filter (\<lambda>a. owns (ps a)) as)) \<longrightarrow> m1 i = m i)"
  using assms
proof (induction as arbitrary: pieces k sl m)
  case (Cons a as)
  show ?case
  proof (cases "owns (ps a)")
    case True
    then obtain lens rest where p: "pieces = lens # rest" using Cons.prems(1) by (cases pieces) auto
    let ?i = "pp_id (pproto (ps a))" and ?os = "filter (\<lambda>a. owns (ps a)) as"
    let ?k = "k + int (length lens)"
    define m0 where "m0 = m(?i := m ?i @ zip [k..k + int (length lens) - 1] lens)"
    obtain m1 where m1: "number_slices ps as rest ?k (sl @ lens) m0 = Inr ((sl @ lens) @ concat rest, m1)"
      "\<forall>j < length rest. let i = pp_id (pproto (ps (?os ! j))) in m1 i = m0 i @ numbered ?k rest j"
      "\<forall>i. i \<notin> set (map (\<lambda>a. pp_id (pproto (ps a))) ?os) \<longrightarrow> m1 i = m0 i"
      using Cons.IH [of rest ?k "sl @ lens" m0] Cons.prems True p by auto
    have new: "?i \<notin> set (map (\<lambda>a. pp_id (pproto (ps a))) ?os)" using Cons.prems(2) True by simp
    have "let i = pp_id (pproto (ps ((a # ?os) ! j))) in m1 i = m i @ numbered k pieces j" if "j < length pieces" for j
    proof (cases j)
      case 0
      then show ?thesis using m1(3) new p by (simp add: numbered_def m0_def)
    next
      case (Suc j0)
      then have j0: "j0 < length rest" using that p by simp
      then have "j0 < length ?os" using Cons.prems(1) True p by simp
      then have "?os ! j0 \<in> set ?os" by (rule nth_mem)
      then have "pp_id (pproto (ps (?os ! j0))) \<in> set (map (\<lambda>a. pp_id (pproto (ps a))) ?os)" by force
      then have "pp_id (pproto (ps (?os ! j0))) \<noteq> ?i" using new by metis
      moreover have "numbered k pieces j = numbered ?k rest j0" using Suc p by (simp add: numbered_def add.assoc)
      ultimately show ?thesis using m1(2) j0 Suc by (simp add: Let_def m0_def)
    qed
    then show ?thesis using m1(1,3) p True new by (intro exI [of _ m1]) (auto simp: Let_def m0_def)
  next
    case False
    then show ?thesis using Cons.IH [of pieces k sl m] Cons.prems by simp
  qed
qed simp

lemma give_slices_each:
  assumes "distinct as" and "\<forall>a \<in> set as. \<exists>p. foldR (\<lambda>p (i, len). AddSlice i len p) (ps a) (m (pp_owner (pproto (ps a)))) = Inr p"
  shows "\<exists>ps1. foldR (give_slices m) ps as = Inr ps1 \<and>
    (\<forall>a \<in> set as. foldR (\<lambda>p (i, len). AddSlice i len p) (ps a) (m (pp_owner (pproto (ps a)))) = Inr (ps1 a)) \<and>
    (\<forall>a. a \<notin> set as \<longrightarrow> ps1 a = ps a)"
  using assms
proof (induction as arbitrary: ps)
  case (Cons a as)
  obtain p where p: "foldR (\<lambda>p (i, len). AddSlice i len p) (ps a) (m (pp_owner (pproto (ps a)))) = Inr p"
    using Cons.prems(2) by auto
  define ps2 where "ps2 = ps(a := p)"
  have same: "ps2 b = ps b" if "b \<in> set as" for b using Cons.prems(1) that by (auto simp: ps2_def)
  then have "\<forall>b \<in> set as. \<exists>p'. foldR (\<lambda>p (i, len). AddSlice i len p) (ps2 b) (m (pp_owner (pproto (ps2 b)))) = Inr p'"
    using Cons.prems(2) by auto
  then obtain ps1 where ps1: "foldR (give_slices m) ps2 as = Inr ps1"
    "\<forall>b \<in> set as. foldR (\<lambda>p (i, len). AddSlice i len p) (ps b) (m (pp_owner (pproto (ps b)))) = Inr (ps1 b)"
    "\<forall>b. b \<notin> set as \<longrightarrow> ps1 b = ps2 b"
    using Cons.IH [of ps2] Cons.prems(1) same by auto
  have "give_slices m ps a = Inr ps2" using p by (simp add: give_slices_def ps2_def)
  then show ?case using p Cons.prems(1) ps1 by (intro exI [of _ ps1]) (auto simp: ps2_def)
qed simp

text \<open>
  C13. \<open>SliceParams\<close> always returns, and when the check of \<open>Slice\<close> passes (with at most nine servers
  or groups it does) every parameter, those that share the values of an owner included, is tiled by
  the slices of its owner: the sizes add up to the size of the owner, and they are the part of the
  list of all slices that starts at the number of its first slice.
\<close>

theorem SliceParams_tiles:
  fixes st :: "'f store"
  assumes "0 < nserver_groups conf" and "0 < nservers_per_group conf" and "distinct as"
    and "distinct (map (\<lambda>a. pp_id (pproto (params st a))) (filter (\<lambda>a. owns (params st a)) as))"
    and "\<forall>a \<in> set as. slice_size (params st a) = [] \<and> wf_slices (params st a) \<and> pdata (params st a) \<noteq> None \<and>
      0 \<le> bcount (blobs (mem st) (the (pdata (params st a))))"
    and "\<forall>a \<in> set as. \<exists>b \<in> set as. owns (params st b) \<and> pp_id (pproto (params st b)) = pp_owner (pproto (params st a))"
  shows "SliceParams conf as st = Some (Inl CheckFailed) \<and> 9 < lcm (nserver_groups conf) (nservers_per_group conf) \<or>
    (\<exists>slices st1. SliceParams conf as st = Some (Inr (slices, st1)) \<and> mem st1 = mem st \<and>
      (\<forall>a \<in> set as. \<forall>b \<in> set as. owns (params st b) \<and> pp_id (pproto (params st b)) = pp_owner (pproto (params st a)) \<longrightarrow>
        (let p = params st1 a in wf_slices p \<and> sum_list (slice_size p) = bcount (blobs (mem st) (the (pdata (params st b)))) \<and>
          (slice_size p \<noteq> [] \<longrightarrow> 0 \<le> slice_start p) \<and>
          slice_size p = take (length (slice_size p)) (drop (nat (slice_start p)) slices))))"
proof -
  let ?ps = "params st" and ?os = "filter (\<lambda>a. owns (params st a)) as"
  let ?n = "lcm (nserver_groups conf) (nservers_per_group conf)"
  let ?szs = "map (\<lambda>a. bcount (blobs (mem st) (data_at (params st) a))) ?os"
  have n: "LeastCommonMultiple (nserver_groups conf) (nservers_per_group conf) = ?n" "0 < ?n"
    using LeastCommonMultiple_is_lcm [of "nserver_groups conf" "nservers_per_group conf"] assms(1,2) by (simp_all add: lcm_pos_int)
  have us: "unique_sizes ?ps (mem st) as = Inr ?szs" using unique_sizes_eq assms(5) by blast
  have nn: "\<forall>x \<in> set ?szs. 0 \<le> x" using assms(5) by auto
  from n(2) nn show ?thesis
  proof (cases rule: Slice_cases)
    case bad
    then show ?thesis using us n by (simp add: SliceParams_def)
  next
    case (ok pieces)
    have len: "length pieces = length ?os" using arg_cong [OF ok(2), of length] by simp
    obtain m1 where m1: "number_slices ?ps as pieces 0 [] (\<lambda>_. []) = Inr (concat pieces, m1)"
      "\<And>j. j < length pieces \<Longrightarrow> m1 (pp_id (pproto (?ps (?os ! j)))) = numbered 0 pieces j"
      using number_slices_eq [OF len assms(4), of 0 "[]" "\<lambda>_. []"] by (auto simp: Let_def)
    have own: "\<exists>j < length pieces. ?os ! j = b \<and> m1 (pp_id (pproto (?ps b))) = numbered 0 pieces j"
      if "b \<in> set as" "owns (?ps b)" for b
    proof -
      have "b \<in> set ?os" using that by simp
      then obtain j where "j < length ?os" "?os ! j = b" by (metis in_set_conv_nth)
      then show ?thesis using m1(2) len by auto
    qed
    have each: "\<exists>p. foldR (\<lambda>p (i, len). AddSlice i len p) (?ps a) (m1 (pp_owner (pproto (?ps a)))) = Inr p \<and> wf_slices p \<and>
        sum_list (slice_size p) = bcount (blobs (mem st) (data_at ?ps b)) \<and> (slice_size p \<noteq> [] \<longrightarrow> 0 \<le> slice_start p) \<and>
        slice_size p = take (length (slice_size p)) (drop (nat (slice_start p)) (concat pieces))"
      if ab: "a \<in> set as" "b \<in> set as" "owns (?ps b)" "pp_id (pproto (?ps b)) = pp_owner (pproto (?ps a))" for a b
    proof -
      obtain j where j: "j < length pieces" "?os ! j = b" "m1 (pp_owner (pproto (?ps a))) = numbered 0 pieces j"
        using own [OF ab(2,3)] ab(4) by auto
      let ?s = "int (length (concat (take j pieces)))"
      have pos: "\<forall>x \<in> set (pieces ! j). 0 \<le> x" using ok(3) j(1) by (meson less_imp_le nth_mem)
      obtain p where p: "add_slices ?s (pieces ! j) (?ps a) = Inr p" "wf_slices p" "slice_size p = pieces ! j"
        "slice_start p = (if pieces ! j \<noteq> [] then ?s else slice_start (?ps a))"
        using add_slices_spec [OF _ pos, of "?ps a" ?s] assms(5) ab(1) by auto
      have "foldR (\<lambda>p (i, len). AddSlice i len p) (?ps a) (m1 (pp_owner (pproto (?ps a)))) = Inr p"
        using AddSlice_zip [of "?ps a" ?s "pieces ! j"] p(1) j(3) by (simp add: numbered_def Let_def)
      moreover have "sum_list (pieces ! j) = bcount (blobs (mem st) (data_at ?ps b))"
        using arg_cong [OF ok(2), of "\<lambda>xs. xs ! j"] j len by simp
      moreover have "pieces ! j = take (length (pieces ! j)) (drop (length (concat (take j pieces))) (concat pieces))"
      proof -
        have "concat pieces = concat (take j pieces) @ pieces ! j @ concat (drop (Suc j) pieces)"
          using id_take_nth_drop [OF j(1)] by (metis concat.simps(2) concat_append)
        then show ?thesis by simp
      qed
      ultimately show ?thesis using p by (intro exI [of _ p]) auto
    qed
    have "\<forall>a \<in> set as. \<exists>p. foldR (\<lambda>p (i, len). AddSlice i len p) (?ps a) (m1 (pp_owner (pproto (?ps a)))) = Inr p"
      using each assms(6) by blast
    then obtain ps1 where ps1: "foldR (give_slices m1) ?ps as = Inr ps1"
      "\<forall>a \<in> set as. foldR (\<lambda>p (i, len). AddSlice i len p) (?ps a) (m1 (pp_owner (pproto (?ps a)))) = Inr (ps1 a)"
      using give_slices_each [OF assms(3)] by blast
    have "SliceParams conf as st = Some (Inr (concat pieces, st\<lparr>params := ps1\<rparr>))"
      using us n(1) ok(1) m1(1) ps1(1) by (simp add: SliceParams_def)
    moreover have "let p = ps1 a in wf_slices p \<and> sum_list (slice_size p) = bcount (blobs (mem st) (the (pdata (params st b)))) \<and>
        (slice_size p \<noteq> [] \<longrightarrow> 0 \<le> slice_start p) \<and>
        slice_size p = take (length (slice_size p)) (drop (nat (slice_start p)) (concat pieces))"
      if "a \<in> set as" "b \<in> set as" "owns (?ps b)" "pp_id (pproto (?ps b)) = pp_owner (pproto (?ps a))" for a b
      using each [OF that] ps1(2) that(1) by (fastforce simp: Let_def)
    ultimately show ?thesis by auto
  qed
qed

definition sliced_store :: "real store" where
  "sliced_store = empty_store\<lparr>params := (\<lambda>_. demo_owner), mem := snd (demo_sized 2)\<rparr>"

theorem SliceParams_tiles_witness:
  "\<exists>slices st1. SliceParams small_conf [0, 1] (sliced_store\<lparr>params := (\<lambda>_. demo_owner)(1 := demo_owner\<lparr>pproto := (pproto demo_owner)\<lparr>pp_id := 1\<rparr>\<rparr>)\<rparr>) =
      Some (Inr (slices, st1)) \<and> wf_slices (params st1 1) \<and> sum_list (slice_size (params st1 1)) = 2"
proof -
  let ?st = "sliced_store\<lparr>params := (\<lambda>_. demo_owner)(1 := demo_owner\<lparr>pproto := (pproto demo_owner)\<lparr>pp_id := 1\<rparr>\<rparr>)\<rparr>"
  have p: "param_in (fst (demo_sized 2)) (snd (demo_sized 2)) 2" using demo_sized_ok [of 2] by (simp add: is_c_int_def)
  have d: "bcount (blobs (snd (demo_sized 2)) (the (pdata demo_owner))) = 2"
    using param_inD(5) [OF p] by (simp add: demo_owner_def set_id_def)
  have sl: "slice_size demo_owner = []" "wf_slices demo_owner" "pp_id (pproto demo_owner) = 0" "pp_owner (pproto demo_owner) = 0"
    by (simp_all add: demo_owner_def set_id_def demo_sized_def Param_Setup_def Blob_new_shape_def Blob_new_def Param_new_def Reshape_def
        shape_count_def is_c_int_def heap0_def upd_blob_def SyncedMemory_new_def Let_def wf_slices_def)
  have conf: "nserver_groups small_conf = 1" "nservers_per_group small_conf = 2" by (simp_all add: small_conf_def)
  have st: "params ?st 0 = demo_owner" "params ?st (Suc 0) = demo_owner\<lparr>pproto := (pproto demo_owner)\<lparr>pp_id := 1\<rparr>\<rparr>" "mem ?st = snd (demo_sized 2)"
    by (simp_all add: sliced_store_def)
  have own: "owns demo_owner" "\<not> owns (demo_owner\<lparr>pproto := (pproto demo_owner)\<lparr>pp_id := 1\<rparr>\<rparr>)" by (simp_all add: owns_def sl)
  have "\<forall>a \<in> set [0, 1]. slice_size (params ?st a) = [] \<and> wf_slices (params ?st a) \<and> pdata (params ?st a) \<noteq> None \<and>
      0 \<le> bcount (blobs (mem ?st) (the (pdata (params ?st a))))"
    using sl(1,2) demo_owner_data(1) d st by (simp add: wf_slices_def)
  moreover have "\<forall>a \<in> set [0, 1]. \<exists>b \<in> set [0, 1]. owns (params ?st b) \<and> pp_id (pproto (params ?st b)) = pp_owner (pproto (params ?st a))"
    using sl own st by simp
  moreover have "distinct (map (\<lambda>a. pp_id (pproto (params ?st a))) (filter (\<lambda>a. owns (params ?st a)) [0, 1]))"
    using own st by simp
  ultimately have "SliceParams small_conf [0, 1] ?st = Some (Inl CheckFailed) \<and> 9 < lcm (nserver_groups small_conf) (nservers_per_group small_conf) \<or>
    (\<exists>slices st1. SliceParams small_conf [0, 1] ?st = Some (Inr (slices, st1)) \<and> mem st1 = mem ?st \<and>
      (\<forall>a \<in> set [0, 1]. \<forall>b \<in> set [0, 1]. owns (params ?st b) \<and> pp_id (pproto (params ?st b)) = pp_owner (pproto (params ?st a)) \<longrightarrow>
        (let p = params st1 a in wf_slices p \<and> sum_list (slice_size p) = bcount (blobs (mem ?st) (the (pdata (params ?st b)))) \<and>
          (slice_size p \<noteq> [] \<longrightarrow> 0 \<le> slice_start p) \<and>
          slice_size p = take (length (slice_size p)) (drop (nat (slice_start p)) slices))))"
    using conf by (intro SliceParams_tiles) simp_all
  then show ?thesis using conf own sl d st by (auto simp: Let_def)
qed

section \<open>Aggregation in the stub\<close>

text \<open>Reading and writing behind pointers into blobs that do not share memory.\<close>

text \<open>The gradients of the local shares of an entry, of \<open>n\<close> floats each.\<close>

definition local_shares :: "(nat \<Rightarrow> 'f Param) \<Rightarrow> nat list \<Rightarrow> nat \<Rightarrow> ('f :: zero) heap \<Rightarrow> bool" where
  "local_shares ps as n h \<longleftrightarrow> apart ((\<lambda>a. pgrad (ps a)) ` set as) h \<and> distinct as \<and> inj_on (\<lambda>a. pgrad (ps a)) (set as) \<and>
     (\<forall>a \<in> set as. bcount (blobs h (pgrad (ps a))) = int n)"

lemma sum_grads_step:
  assumes "apart B h" and "b \<in> B" and "c \<in> B" and "b \<noteq> c" and "at_ptr h b q" and "bcount (blobs h b) = int n" and "bcount (blobs h c) = int n"
    and "pgrad (ps a) = c"
  shows "\<exists>h1. add_grad ps q n h a = Inr h1 \<and> apart B h1 \<and> blobs h1 = blobs h \<and> nblob h1 = nblob h \<and> at_ptr h1 b q \<and>
    contents h1 b = map2 (+) (contents h b) (contents h c) \<and> (\<forall>d \<in> B. d \<noteq> b \<longrightarrow> contents h1 d = contents h d)"
proof -
  obtain g h1 where g: "mutable_cpu_data c h = Inr (g, h1)" "at_ptr h1 c g" "apart B h1" "blobs h1 = blobs h" "nblob h1 = nblob h"
    "\<forall>d < nblob h. contents h1 d = contents h d" "\<forall>d r. at_ptr h d r \<longrightarrow> at_ptr h1 d r"
    using apart_ptr [OF assms(1,3)] by blast
  have same: "contents h1 d = contents h d" if "d \<in> B" for d using g(6) apartD(2) [OF assms(1) that] by blast
  have rb: "mem_read q n h1 = Inr (contents h b)" using apart_read [OF g(3) assms(2)] g(4,7) assms(5,6) same [OF assms(2)] by simp
  have rc: "mem_read g n h1 = Inr (contents h c)" using apart_read [OF g(3) assms(3) g(2)] g(4) assms(7) same [OF assms(3)] by simp
  have len: "length (map2 (+) (contents h b) (contents h c)) = nat (bcount (blobs h1 b))"
    using apartD(6) [OF assms(1,2)] apartD(6) [OF assms(1,3)] assms(6,7) g(4) by simp
  obtain h2 where h2: "mem_write q (map2 (+) (contents h b) (contents h c)) h1 = Inr h2" "apart B h2" "blobs h2 = blobs h1"
    "nblob h2 = nblob h1" "contents h2 b = map2 (+) (contents h b) (contents h c)"
    "\<forall>d \<in> B. d \<noteq> b \<longrightarrow> contents h2 d = contents h1 d" "\<forall>d r. at_ptr h1 d r \<longrightarrow> at_ptr h2 d r"
    using apart_mem_write [OF g(3) assms(2) _ len, of q] g(7) assms(5) by blast
  have "add_grad ps q n h a = Inr h2" using g(1) rb rc h2(1) assms(8) by (simp add: add_grad_def tensor2_def)
  then show ?thesis using h2 g(4,5,7) same assms(5) by auto
qed

lemma sum_grads_fold:
  assumes "apart B h" and "b \<in> B" and "at_ptr h b q" and "bcount (blobs h b) = int n"
    and "\<forall>a \<in> set as. pgrad (ps a) \<in> B \<and> pgrad (ps a) \<noteq> b \<and> bcount (blobs h (pgrad (ps a))) = int n"
  shows "\<exists>h1. foldR (add_grad ps q n) h as = Inr h1 \<and> apart B h1 \<and> blobs h1 = blobs h \<and> nblob h1 = nblob h \<and> at_ptr h1 b q \<and>
    contents h1 b = foldl (map2 (+)) (contents h b) (map (\<lambda>a. contents h (pgrad (ps a))) as) \<and>
    (\<forall>d \<in> B. d \<noteq> b \<longrightarrow> contents h1 d = contents h d)"
  using assms
proof (induction as arbitrary: h)
  case (Cons a as)
  obtain h1 where h1: "add_grad ps q n h a = Inr h1" "apart B h1" "blobs h1 = blobs h" "nblob h1 = nblob h" "at_ptr h1 b q"
    "contents h1 b = map2 (+) (contents h b) (contents h (pgrad (ps a)))" "\<forall>d \<in> B. d \<noteq> b \<longrightarrow> contents h1 d = contents h d"
    using sum_grads_step [OF Cons.prems(1,2) _ _ Cons.prems(3,4) _ refl, of ps a] Cons.prems(5) by auto
  have as: "map (\<lambda>a. contents h1 (pgrad (ps a))) as = map (\<lambda>a. contents h (pgrad (ps a))) as"
    using h1(7) Cons.prems(5) by auto
  obtain h2 where "foldR (add_grad ps q n) h1 as = Inr h2" "apart B h2" "blobs h2 = blobs h1" "nblob h2 = nblob h1" "at_ptr h2 b q"
    "contents h2 b = foldl (map2 (+)) (contents h1 b) (map (\<lambda>a. contents h1 (pgrad (ps a))) as)"
    "\<forall>d \<in> B. d \<noteq> b \<longrightarrow> contents h2 d = contents h1 d"
    using Cons.IH [OF h1(2) Cons.prems(2) h1(5)] h1(3) Cons.prems(4,5) by auto
  then show ?case using h1 as by (intro exI [of _ h2]) auto
qed auto

text \<open>The sum of the gradients divided by the number of all shares.\<close>

definition local_average :: "(int \<Rightarrow> 'f) \<Rightarrow> int \<Rightarrow> ('f :: {plus, divide}) list list \<Rightarrow> 'f list" where
  "local_average cv t gs = map (\<lambda>x. x div cv t) (foldl (map2 (+)) (hd gs) (tl gs))"

lemma average_local_spec:
  assumes "local_shares (params st) (a # as) n (mem st)" and "shares e = a # as" and "param_size (params st a) (mem st) = Inr (int n)"
  shows "\<exists>h1. average_local M e st = Inr h1 \<and> wf_heap h1 \<and> blobs h1 = blobs (mem st) \<and> nblob h1 = nblob (mem st) \<and>
    grad_of (params st a) h1 = local_average (i2f M) (num_total e) (map (\<lambda>b. grad_of (params st b) (mem st)) (a # as))"
proof -
  let ?ps = "params st" and ?h = "mem st" and ?B = "(\<lambda>a. pgrad (params st a)) ` set (a # as)" and ?b = "pgrad (params st a)"
  have l: "apart ?B ?h" "a \<notin> set as" "inj_on (\<lambda>a. pgrad (?ps a)) (set (a # as))" "\<forall>c \<in> set (a # as). bcount (blobs ?h (pgrad (?ps c))) = int n"
    using assms(1) unfolding local_shares_def distinct.simps by blast+
  have bB: "?b \<in> ?B" by simp
  obtain q h1 where q: "mutable_cpu_data ?b ?h = Inr (q, h1)" "at_ptr h1 ?b q" "apart ?B h1" "blobs h1 = blobs ?h" "nblob h1 = nblob ?h"
    "\<forall>d < nblob ?h. contents h1 d = contents ?h d"
    using apart_ptr [OF l(1) bB] by blast
  have same: "contents h1 d = contents ?h d" if "d \<in> ?B" for d using q(6) apartD(2) [OF l(1) that] by blast
  have others: "\<forall>c \<in> set as. pgrad (?ps c) \<in> ?B \<and> pgrad (?ps c) \<noteq> ?b \<and> bcount (blobs h1 (pgrad (?ps c))) = int n"
  proof
    fix c assume c: "c \<in> set as"
    then have "c \<noteq> a" using l(2) by blast
    then have "pgrad (?ps c) \<noteq> ?b" using inj_onD [OF l(3), of c a] c by auto
    then show "pgrad (?ps c) \<in> ?B \<and> pgrad (?ps c) \<noteq> ?b \<and> bcount (blobs h1 (pgrad (?ps c))) = int n"
      using c l(4) q(4) by simp
  qed
  have cnt: "bcount (blobs h1 ?b) = int n" using l(4) q(4) by simp
  obtain h2 where h2: "foldR (add_grad ?ps q n) h1 as = Inr h2" "apart ?B h2" "blobs h2 = blobs h1" "nblob h2 = nblob h1" "at_ptr h2 ?b q"
    "contents h2 ?b = foldl (map2 (+)) (contents h1 ?b) (map (\<lambda>c. contents h1 (pgrad (?ps c))) as)"
    using sum_grads_fold [OF q(3) bB q(2) cnt others] by blast
  let ?avg = "map (\<lambda>x. x div i2f M (num_total e)) (contents h2 ?b)"
  have rd: "mem_read q n h2 = Inr (contents h2 ?b)" using apart_read [OF h2(2) bB h2(5)] h2(3) cnt by simp
  have len: "length ?avg = nat (bcount (blobs h2 ?b))" using apartD(6) [OF h2(2) bB] by simp
  obtain h3 where h3: "mem_write q ?avg h2 = Inr h3" "apart ?B h3" "blobs h3 = blobs h2" "nblob h3 = nblob h2" "contents h3 ?b = ?avg"
    using apart_mem_write [OF h2(2) bB h2(5) len] by blast
  have "average_local M e st = Inr h3"
    using assms(2,3) q(1) h2(1) rd h3(1) by (simp add: average_local_def tensor1_def)
  moreover have "map (\<lambda>c. contents h1 (pgrad (?ps c))) as = map (\<lambda>c. contents ?h (pgrad (?ps c))) as" using same by auto
  then have "contents h3 ?b = map (\<lambda>x. x div i2f M (num_total e))
      (foldl (map2 (+)) (contents ?h ?b) (map (\<lambda>c. contents ?h (pgrad (?ps c))) as))"
    using h3(5) h2(6) same [OF bB] by metis
  then have "grad_of (?ps a) h3 = local_average (i2f M) (num_total e) (map (\<lambda>b. grad_of (?ps b) ?h) (a # as))"
    by (simp add: grad_of_def local_average_def)
  ultimately show ?thesis using h3(3,4) h2(3,4) q(4,5) apartD(1) [OF h3(2) bB] by auto
qed

text \<open>
  The request for the \<open>i\<close>-th slice of \<open>p\<close> with the gradient \<open>g\<close>, to a server of another process.
\<close>

definition update_for :: "Trainer \<Rightarrow> int \<Rightarrow> int \<Rightarrow> int \<Rightarrow> int \<Rightarrow> 'f Param \<Rightarrow> 'f list \<Rightarrow> int \<Rightarrow> 'f msg \<Rightarrow> bool" where
  "update_for T nlocal version sg dg p g i m \<longleftrightarrow> msg_type m = kUpdate \<and>
     frames m = [Fmt [FI 1], Floats (slice_of p i g), Fmt [FI nlocal]] \<and>
     trgt_val m = ParamTrgt (pp_owner (pproto p)) (slice_start p + i) \<and> trgt_version m = version \<and>
     msg_src m = Addr sg (t_procs_id T) kStub \<and>
     msg_dst m = Addr dg (slice2server T ! nat (slice_start p + i)) kServer"

text \<open>All slices of \<open>p\<close> are kept by servers in other processes.\<close>

definition remote_slices :: "Cluster \<Rightarrow> Trainer \<Rightarrow> int \<Rightarrow> 'f Param \<Rightarrow> bool" where
  "remote_slices cl T dg p \<longleftrightarrow> 0 \<le> slice_start p \<and> slice_start p + num_slices p \<le> int (length (slice2server T)) \<and>
     (\<forall>i. 0 \<le> i \<and> i < num_slices p \<longrightarrow>
       (\<exists>q. ProcsIDOf cl dg (slice2server T ! nat (slice_start p + i)) kServer = Inr q \<and> q \<noteq> t_procs_id T))"

text \<open>A parameter on which \<open>GenUpdateMsg\<close> may have been called.\<close>

definition same_slices :: "'f Param \<Rightarrow> 'f Param \<Rightarrow> bool" where
  "same_slices p p1 \<longleftrightarrow> (\<exists>pend k. p1 = p\<lparr>pending_update := pend, num_pending_requests := k\<rparr> \<and>
     length pend = length (pending_update p))"

lemma same_slices_simps:
  assumes "same_slices p p1"
  shows "slice_start p1 = slice_start p" "num_slices p1 = num_slices p" "slice_size p1 = slice_size p" "slice_offset p1 = slice_offset p"
    "pproto p1 = pproto p" "pdata p1 = pdata p" "pgrad p1 = pgrad p" "wf_slices p1 = wf_slices p" "param_in p1 h n = param_in p h n"
    "grad_of p1 h = grad_of p h" "data_of p1 h = data_of p h" "slice_of p1 i g = slice_of p i g"
  using assms by (auto simp: same_slices_def wf_slices_def param_in_def grad_of_def data_of_def slice_of_def)

lemma same_slices_refl: "same_slices p p"
  by (auto simp: same_slices_def intro!: exI [of _ "pending_update p"] exI [of _ "num_pending_requests p"])

lemma gen_slice_update:
  assumes "same_slices p p1" and "param_in p h n" and "wf_slices p" and "sum_list (slice_size p) \<le> int n" and "remote_slices cl T dg p"
    and "0 \<le> i" and "i < num_slices p"
  shows "\<exists>m p2 h1. gen_slice_msg cl T kUpdate version e sg dg (ret, p1, h) i = Inr (ret @ [m], p2, h1) \<and> same_slices p p2 \<and>
    param_in p h1 n \<and> grad_of p h1 = grad_of p h \<and> data_of p h1 = data_of p h \<and>
    update_for T (num_local e) version sg dg p (grad_of p h) i m"
proof -
  note s = same_slices_simps [OF assms(1)]
  obtain q where q: "ProcsIDOf cl dg (slice2server T ! nat (slice_start p + i)) kServer = Inr q" "q \<noteq> t_procs_id T"
    using assms(5-7) by (auto simp: remote_slices_def)
  have srv: "idxR (slice2server T) (slice_start p + i) = Inr (slice2server T ! nat (slice_start p + i))"
    using assms(5-7) by (simp add: idxR_def remote_slices_def)
  obtain m h1 where m: "GenUpdateMsg True i p1 h = Inr (m, p1\<lparr>pending_update := (pending_update p1)[nat i := True],
      num_pending_requests := num_pending_requests p1 + 1\<rparr>, h1)" "msg_type m = kUpdate"
    "frames m = [Fmt [FI 1], Floats (slice_of p i (grad_of p h))]" "param_in p h1 n" "data_of p h1 = data_of p h" "grad_of p h1 = grad_of p h"
    using GenUpdateMsg_copy [of p1 h n i] s assms(2-4,6,7) by auto
  let ?p2 = "p1\<lparr>pending_update := (pending_update p1)[nat i := True], num_pending_requests := num_pending_requests p1 + 1\<rparr>"
  have p2: "same_slices p ?p2"
  proof -
    obtain pend k where "p1 = p\<lparr>pending_update := pend, num_pending_requests := k\<rparr>" "length pend = length (pending_update p)"
      using assms(1) by (auto simp: same_slices_def)
    then show ?thesis unfolding same_slices_def
      by (intro exI [of _ "pend[nat i := True]"] exI [of _ "k + 1"]) simp
  qed
  obtain m1 where m1: "add_fmt [FI (num_local e)] m = Inr m1" "frames m1 = frames m @ [Fmt [FI (num_local e)]]" "msg_type m1 = msg_type m"
    by (simp add: add_fmt_def AddFormatFrame_def AddFrame_def FMARKER_def kMaxFrameLen_def)
  show ?thesis
    using srv q m m1 s same_slices_simps [OF p2] p2
    by (intro exI [of _ "(set_trgt (ParamTrgt (pp_owner (pproto p)) (slice_start p + i)) version m1)
          \<lparr>msg_src := Addr sg (t_procs_id T) kStub, msg_dst := Addr dg (slice2server T ! nat (slice_start p + i)) kServer\<rparr>"]
        exI [of _ ?p2] exI [of _ h1])
       (simp add: gen_slice_msg_def Let_def update_for_def set_trgt_def kUpdate_def kPut_def kGet_def)
qed

lemma gen_slice_updates:
  assumes "param_in p h n" and "wf_slices p" and "sum_list (slice_size p) \<le> int n" and "remote_slices cl T dg p" and "int k \<le> num_slices p"
  shows "\<exists>ret p1 h1. foldR (gen_slice_msg cl T kUpdate version e sg dg) ([], p, h) [0..int k - 1] = Inr (ret, p1, h1) \<and>
    same_slices p p1 \<and> param_in p h1 n \<and> grad_of p h1 = grad_of p h \<and> data_of p h1 = data_of p h \<and>
    list_all2 (\<lambda>i m. update_for T (num_local e) version sg dg p (grad_of p h) i m) [0..int k - 1] ret"
  using assms(5)
proof (induction k)
  case 0
  then show ?case using assms(1) same_slices_refl by auto
next
  case (Suc k)
  have up: "[0..int (Suc k) - 1] = [0..int k - 1] @ [int k]" using upto_rec2 [of 0 "int k"] by simp
  obtain ret p1 h1 where r: "foldR (gen_slice_msg cl T kUpdate version e sg dg) ([], p, h) [0..int k - 1] = Inr (ret, p1, h1)"
    "same_slices p p1" "param_in p h1 n" "grad_of p h1 = grad_of p h" "data_of p h1 = data_of p h"
    "list_all2 (\<lambda>i m. update_for T (num_local e) version sg dg p (grad_of p h) i m) [0..int k - 1] ret"
    using Suc by auto
  obtain m p2 h2 where m: "gen_slice_msg cl T kUpdate version e sg dg (ret, p1, h1) (int k) = Inr (ret @ [m], p2, h2)" "same_slices p p2"
    "param_in p h2 n" "grad_of p h2 = grad_of p h1" "data_of p h2 = data_of p h1"
    "update_for T (num_local e) version sg dg p (grad_of p h1) (int k) m"
  proof -
    have "0 \<le> int k" "int k < num_slices p" using Suc.prems by simp_all
    from gen_slice_update [OF r(2,3) assms(2-4) this] show ?thesis using that by blast
  qed
  have "foldR (gen_slice_msg cl T kUpdate version e sg dg) ([], p, h) [0..int (Suc k) - 1] = Inr (ret @ [m], p2, h2)"
    unfolding up foldR_append r(1) using m(1) by simp
  moreover have "list_all2 (\<lambda>i m. update_for T (num_local e) version sg dg p (grad_of p h) i m) [0..int (Suc k) - 1] (ret @ [m])"
    unfolding up using r(4,6) m(6) by (intro list_all2_appendI) simp_all
  ultimately show ?case using m(2-5) r(4,5) by metis
qed

lemma HandleUpdate_waits_stub:
  "num_update e + 1 < num_local e \<Longrightarrow> Trainer_HandleUpdate M cl T e m st = Inr ([], e\<lparr>num_update := num_update e + 1\<rparr>, st)"
  by (simp add: Trainer_HandleUpdate_def)

fun stub_updates ::
  "('f :: {zero, plus, divide}) libm \<Rightarrow> Cluster \<Rightarrow> Trainer \<Rightarrow> 'f msg list \<Rightarrow> ParamEntry \<Rightarrow> 'f store \<Rightarrow>
   ('f msg list \<times> ParamEntry \<times> 'f store) res" where
  "stub_updates M cl T [] e st = Inr ([], e, st)"
| "stub_updates M cl T (m # ms) e st =
     bindR (Trainer_HandleUpdate M cl T e m st) (\<lambda>(out, e1, st1).
     bindR (stub_updates M cl T ms e1 st1) (\<lambda>(out2, e2, st2). Inr (out @ out2, e2, st2)))"

lemma stub_updates_wait:
  "num_update e + int (length ms) < num_local e \<Longrightarrow>
    stub_updates M cl T (ms @ ms2) e st = stub_updates M cl T ms2 (e\<lparr>num_update := num_update e + int (length ms)\<rparr>) st"
proof (induction ms arbitrary: e)
  case (Cons m ms)
  have "stub_updates M cl T (ms @ ms2) (e\<lparr>num_update := num_update e + 1\<rparr>) st =
      stub_updates M cl T ms2 (e\<lparr>num_update := num_update e + int (length (m # ms))\<rparr>) st"
    using Cons.IH [of "e\<lparr>num_update := num_update e + 1\<rparr>"] Cons.prems by (simp add: algebra_simps)
  moreover have "Trainer_HandleUpdate M cl T e m st = Inr ([], e\<lparr>num_update := num_update e + 1\<rparr>, st)"
    using Cons.prems by (intro HandleUpdate_waits_stub) simp
  ultimately show ?case by (cases "stub_updates M cl T ms2 (e\<lparr>num_update := num_update e + int (length (m # ms))\<rparr>) st") auto
qed simp

text \<open>
  C8. The stub answers the update requests of its local workers only when all of them have asked:
  then it sends one request per slice, each to the server that keeps the slice, with that part of
  the sum of the local gradients divided by the number of all workers that share the parameter
  (with a single local worker, of its gradient as it is), and is ready for the next round.
\<close>

theorem stub_aggregates:
  fixes st :: "('f :: {zero, plus, divide}) store"
  assumes "int (length ms) = num_local e" and "ms \<noteq> []" and "num_update e = 0" and "shares e = a # as"
    and "local_shares (params st) (a # as) n (mem st)" and "param_in (params st a) (mem st) n" and "wf_slices (params st a)"
    and "sum_list (slice_size (params st a)) \<le> int n" and "nworker_groups_per_server_group (cluster_conf cl) \<noteq> 0"
    and "remote_slices cl T (AddrGrp (msg_src (last ms)) sdiv nworker_groups_per_server_group (cluster_conf cl)) (params st a)"
  shows "\<exists>ret st1. stub_updates M cl T ms e st = Inr (ret, e, st1) \<and>
    list_all2 (update_for T (num_local e) (trgt_version (last ms)) (AddrGrp (msg_src (last ms)))
        (AddrGrp (msg_src (last ms)) sdiv nworker_groups_per_server_group (cluster_conf cl)) (params st a)
        (if 1 < num_local e then local_average (i2f M) (num_total e) (map (\<lambda>b. grad_of (params st b) (mem st)) (a # as))
         else grad_of (params st a) (mem st)))
      [0..num_slices (params st a) - 1] ret"
proof -
  let ?p = "params st a" and ?sg = "AddrGrp (msg_src (last ms))"
  let ?dg = "?sg sdiv nworker_groups_per_server_group (cluster_conf cl)"
  let ?g = "if 1 < num_local e then local_average (i2f M) (num_total e) (map (\<lambda>b. grad_of (params st b) (mem st)) (a # as))
     else grad_of ?p (mem st)"
  obtain ms0 m where ms: "ms = ms0 @ [m]" using assms(2) by (metis rev_exhaust)
  define e1 where "e1 = e\<lparr>num_update := int (length ms0)\<rparr>"
  define e2 where "e2 = e1\<lparr>num_update := num_update e1 + 1\<rparr>"
  have run: "stub_updates M cl T ms e st = stub_updates M cl T [m] e1 st"
    unfolding ms using stub_updates_wait [of e ms0 M cl T "[m]" st] assms(1,3) ms by (simp add: e1_def)
  have e2: "num_local e2 = num_local e" "num_total e2 = num_total e" "shares e2 = a # as" "num_update e2 = num_local e"
    "e2\<lparr>num_update := 0\<rparr> = e"
    using assms(1,3,4) ms by (simp_all add: e2_def e1_def)
  have sz: "param_size ?p (mem st) = Inr (int n)" using param_inD(5,9) [OF assms(6)] by (simp add: param_size_def)
  obtain h1 where h1: "(if 1 < num_local e2 then average_local M e2 st else Inr (mem st)) = Inr h1" "param_in ?p h1 n" "grad_of ?p h1 = ?g"
  proof (cases "1 < num_local e")
    case True
    obtain h1 where "average_local M e2 st = Inr h1" "wf_heap h1" "blobs h1 = blobs (mem st)" "nblob h1 = nblob (mem st)"
      "grad_of ?p h1 = local_average (i2f M) (num_total e2) (map (\<lambda>b. grad_of (params st b) (mem st)) (a # as))"
      using average_local_spec [OF assms(5) e2(3) sz, of M] by blast
    then show ?thesis using that [of h1] True e2(1,2) assms(6) by (simp add: param_in_def)
  next
    case False
    then show ?thesis using that [of "mem st"] e2(1) assms(6) by simp
  qed
  have ns: "num_slices ?p = int (nat (num_slices ?p))" using assms(7) by (simp add: wf_slices_def)
  obtain ret p1 h2 where r: "foldR (gen_slice_msg cl T kUpdate (trgt_version m) e2 ?sg ?dg) ([], ?p, h1) [0..num_slices ?p - 1] = Inr (ret, p1, h2)"
    "list_all2 (\<lambda>i m'. update_for T (num_local e2) (trgt_version m) ?sg ?dg ?p (grad_of ?p h1) i m') [0..num_slices ?p - 1] ret"
    using gen_slice_updates [OF h1(2) assms(7,8,10), of "nat (num_slices ?p)" "trgt_version m" e2 ?sg] ns by auto
  have "AddrGrp (msg_src m) = ?sg" using ms by simp
  then have "GenMsgs cl T kUpdate (trgt_version m) e2 m (st\<lparr>mem := h1\<rparr>) = Inr (ret, st\<lparr>mem := h2, params := (params st)(a := p1)\<rparr>)"
    using assms(9) e2(3) r(1) by (simp add: GenMsgs_def Let_def atR_def)
  then have "Trainer_HandleUpdate M cl T e1 m st = Inr (ret, e, st\<lparr>mem := h2, params := (params st)(a := p1)\<rparr>)"
    using h1(1) e2 unfolding Trainer_HandleUpdate_def Let_def e2_def [symmetric] by simp
  then show ?thesis using run r(2) h1(3) e2(1) ms by simp
qed

definition two_shares :: "real store" where
  "two_shares =
     (let p = (fst (demo_sized 2))\<lparr>num_slices := 1, slice_offset := [0], slice_size := [2],
            pending_put := [False], pending_get := [False], pending_update := [False]\<rparr> in
      empty_store\<lparr>params := (\<lambda>_. p)(1 := p\<lparr>pgrad := phistory p\<rparr>), mem := snd (demo_sized 2)\<rparr>)"

definition two_entry :: ParamEntry where
  "two_entry = \<lparr>num_update = 0, next_version = - 1, num_local = 2, num_total = 4, shares = [0, 1]\<rparr>"

definition demo_trainer :: Trainer where
  "demo_trainer = \<lparr>t_procs_id = 0, worker_shard = [0 \<mapsto> two_entry], slice2server = [1]\<rparr>"

definition worker_msg :: "real msg" where
  "worker_msg = (Msg_new (Addr 0 0 kWorkerParam) (Addr (- 1) (- 1) kStub))\<lparr>msg_type := kUpdate, trgt_version := 7\<rparr>"

lemma two_shares_ok:
  "local_shares (params two_shares) [0, 1] 2 (mem two_shares)" "param_in (params two_shares 0) (mem two_shares) 2"
  "wf_slices (params two_shares 0)" "slice_size (params two_shares 0) = [2]" "num_slices (params two_shares 0) = 1"
  "slice_start (params two_shares 0) = 0"
proof -
  let ?p = "fst (demo_sized 2)" and ?h = "snd (demo_sized 2)"
  have two: "(0 :: int) < 2" "is_c_int 2" by (simp_all add: is_c_int_def)
  have sh: "shape (blobs ?h (pgrad ?p)) = [2]" "shape (blobs ?h (phistory ?p)) = [2]" "slice_start ?p = 0"
    by (simp_all add: demo_sized_def Param_Setup_def Blob_new_shape_def Blob_new_def Param_new_def Reshape_def
        shape_count_def is_c_int_def heap0_def upd_blob_def SyncedMemory_new_def Let_def)
  have t: "pgrad ?p \<noteq> phistory ?p" "separate ?h (pgrad ?p) (phistory ?p)" "separate ?h (phistory ?p) (pgrad ?p)"
    using demo_trainable by (auto simp: trainable_def blobs_of_def)
  have sc: "shape_count [2] = Inr 2" using shape_count_single [OF two] .
  have "apart {pgrad ?p, phistory ?p} ?h"
    using trainable_blob [OF demo_trainable grad_in] trainable_blob [OF demo_trainable hist_in] sh sc t by (auto simp: apart_def)
  then show "local_shares (params two_shares) [0, 1] 2 (mem two_shares)"
    using trainable_blob(4) [OF demo_trainable grad_in] trainable_blob(4) [OF demo_trainable hist_in] t(1)
    by (simp add: local_shares_def two_shares_def Let_def inj_on_def)
  show "param_in (params two_shares 0) (mem two_shares) 2" "wf_slices (params two_shares 0)"
    using demo_slices_ok [OF two] by (simp_all add: two_shares_def Let_def)
  show "slice_size (params two_shares 0) = [2]" "num_slices (params two_shares 0) = 1" "slice_start (params two_shares 0) = 0"
    using sh(3) by (simp_all add: two_shares_def Let_def)
qed

lemma small_server: "ProcsIDOf small_cluster 0 1 kServer = Inr 2" "cluster_conf small_cluster = small_conf"
  by code_simp+

theorem stub_aggregates_witness:
  "\<exists>ret st1. stub_updates real_libm small_cluster demo_trainer [worker_msg, worker_msg] two_entry two_shares = Inr (ret, two_entry, st1) \<and>
    map msg_dst ret = [Addr 0 1 kServer] \<and> map trgt_version ret = [7]"
proof -
  have n: "nworker_groups_per_server_group (cluster_conf small_cluster) = 1"
    unfolding small_server(2) by (simp add: nworker_groups_per_server_group_def small_conf_def)
  have g: "AddrGrp (msg_src worker_msg) = 0" unfolding worker_msg_def by (simp add: Msg_new_def) code_simp
  have rem: "remote_slices small_cluster demo_trainer 0 (params two_shares 0)"
    using small_server(1) two_shares_ok(5,6) by (simp add: remote_slices_def demo_trainer_def)
  have sd: "0 sdiv (1 :: int) = 0" by simp
  have "\<exists>ret st1. stub_updates real_libm small_cluster demo_trainer [worker_msg, worker_msg] two_entry two_shares = Inr (ret, two_entry, st1) \<and>
      list_all2 (update_for demo_trainer (num_local two_entry) (trgt_version (last [worker_msg, worker_msg])) 0 0 (params two_shares 0)
        (if 1 < num_local two_entry then local_average (i2f real_libm) (num_total two_entry)
           (map (\<lambda>b. grad_of (params two_shares b) (mem two_shares)) (0 # [1]))
         else grad_of (params two_shares 0) (mem two_shares)))
      [0..num_slices (params two_shares 0) - 1] ret"
    using stub_aggregates [where ms = "[worker_msg, worker_msg]" and e = two_entry and a = 0 and as = "[1]" and st = two_shares
        and n = 2 and cl = small_cluster and T = demo_trainer and M = real_libm] two_shares_ok(1-4) n g rem sd
    by (simp add: two_entry_def)
  then show ?thesis
    using two_shares_ok(5,6)
    by (auto simp: list_all2_Cons1 update_for_def demo_trainer_def worker_msg_def)
qed

text \<open>The gradients of all workers of all processes for one slice, and the mean of the \<open>j\<close>-th floats.\<close>

definition mean_gradient :: "real list list list \<Rightarrow> nat \<Rightarrow> real" where
  "mean_gradient gss j = (\<Sum>gs\<leftarrow>gss. \<Sum>g\<leftarrow>gs. g ! j) / real (sum_list (map length gss))"

lemma foldl_add_nth:
  fixes a :: "real list"
  shows "length a = n \<Longrightarrow> \<forall>g \<in> set gs. length g = n \<Longrightarrow> j < n \<Longrightarrow>
    length (foldl (map2 (+)) a gs) = n \<and> foldl (map2 (+)) a gs ! j = a ! j + (\<Sum>g\<leftarrow>gs. g ! j)"
proof (induction gs arbitrary: a)
  case (Cons g gs)
  have "length (map2 (+) a g) = n" "map2 (+) a g ! j = a ! j + g ! j" using Cons.prems by simp_all
  then show ?case using Cons.IH [of "map2 (+) a g"] Cons.prems by simp
qed simp

lemma local_average_nth:
  assumes "gs \<noteq> []" and "\<forall>g \<in> set gs. length g = n" and "j < n"
  shows "length (local_average of_int t gs) = n" and "local_average of_int t gs ! j = (\<Sum>g\<leftarrow>gs. g ! j) / real_of_int t"
proof -
  obtain g hs where gs: "gs = g # hs" using assms(1) by (cases gs) auto
  then have "length (foldl (map2 (+)) g hs) = n \<and> foldl (map2 (+)) g hs ! j = g ! j + (\<Sum>g\<leftarrow>hs. g ! j)"
    using foldl_add_nth [of g n hs j] assms(2,3) by simp
  then show "length (local_average of_int t gs) = n" "local_average of_int t gs ! j = (\<Sum>g\<leftarrow>gs. g ! j) / real_of_int t"
    using gs assms(3) by (simp_all add: local_average_def)
qed

lemma sum_length: "(\<Sum>x\<leftarrow>xs. int (length x)) = int (sum_list (map length xs))"
  by (induction xs) auto

lemma sum_div: "(\<Sum>x\<leftarrow>xs. f x / c) = (\<Sum>x\<leftarrow>xs. f x) / (c :: real)"
  by (induction xs) (auto simp: add_divide_distrib)


definition plain_srv :: "real Server" where
  "plain_srv = Server_new 1 0 0 (demo_updater\<lparr>momentum := 0\<rparr>)"

definition demo_half :: "int \<Rightarrow> real store" where
  "demo_half t = demo_store\<lparr>server_shard := [0 \<mapsto> \<lparr>num_update = 0, next_version = - 1, num_local = 0, num_total = t, shares = [0]\<rparr>]\<rparr>"


end
