(* ===== verification/NeuralNet.thy ===== *)
theory NeuralNet
  imports Graph Worker "HOL-Library.AList" "HOL-Library.List_Lexorder" "HOL-Library.Char_ord"
begin

text \<open>
  Model of \<open>src/include/neuralnet/neuralnet.h\<close> and \<open>src/src/neuralnet/neuralnet.cc\<close>: the
  configuration of a phase is filtered (\<open>Create\<close>), turned into a graph with one node per layer and
  partition and with slice, concate, split and bridge nodes between them (\<open>CreateGraph\<close>), and the
  sorted graph into layer objects whose parameters get ids, names and owners
  (\<open>CreateNetFromGraph\<close>).

  A node points to a \<open>LayerProto\<close>, so the protos live in a store beside the graph. Layer objects are
  addresses too. The virtual method \<open>Setup\<close> of a layer is an argument: it returns the parameters that the
  layer creates. A pointer to a \<open>ParamProto\<close> inside the configuration is a pair of positions.
\<close>

section \<open>Configuration\<close>

datatype LayerType = kBridgeSrc | kBridgeDst | kConvolution | kConcate | kShardData | kDropout | kInnerProduct
  | kInput | kLabel | kLMDBData | kLRN | kMnist | kOutput | kPooling | kPrefetch | kReLU | kRGBImage
  | kSoftmaxLoss | kSlice | kSplit | kTanh | kRBMVis | kRBMHid

datatype ConnectionType = kOneToOne | kOneToAll | kOneToMany

datatype PoolMethod = PoolMethod_MAX | PoolMethod_AVE

text \<open>
  The fields of the messages with the configuration of one type of layer (\<open>ConvolutionProto\<close>, \<open>DataProto\<close>
  and so on) that the layers read.
\<close>

record 'f LayerConf =
  conv_num_filters :: int
  conv_kernel :: int
  conv_pad :: int
  conv_stride :: int
  sharddata_path :: string
  sharddata_batchsize :: int
  sharddata_random_skip :: int
  mnist_norm_a :: 'f
  mnist_norm_b :: 'f
  mnist_resize :: int
  dropout_ratio :: 'f
  rbmvis_num_output :: int
  rbmhid_hid_dim :: int
  innerproduct_num_output :: int
  lrn_local_size :: int
  lrn_alpha :: 'f
  lrn_beta :: 'f
  lrn_knorm :: 'f
  pooling_kernel :: int
  pooling_pool :: PoolMethod
  pooling_stride :: int
  softmaxloss_topk :: int
  softmaxloss_scale :: 'f
  rgbimage_scale :: 'f
  rgbimage_cropsize :: int
  rgbimage_mirror :: bool
  rgbimage_meanfile :: "string option"
  input_path :: string
  output_path :: string
  output_topk :: int
  output_scale :: 'f

record 'f LayerProto =
  lp_name :: string
  lp_type :: LayerType
  lp_srclayers :: "string list"
  lp_param :: "'f ParamProto list"
  lp_exclude :: "Phase list"
  lp_partition_dim :: "int option"
  lp_partition_id :: int
  lp_slice_dim :: "int option"
  lp_concate_dim :: "int option"
  lp_vis :: bool
  lp_datablob :: string
  lp_conf :: "'f LayerConf option"

definition LayerProto_default :: "'f LayerProto" where
  "LayerProto_default = \<lparr>lp_name = [], lp_type = kBridgeSrc, lp_srclayers = [], lp_param = [], lp_exclude = [],
     lp_partition_dim = None, lp_partition_id = 0, lp_slice_dim = None, lp_concate_dim = None,
     lp_vis = False, lp_datablob = ''unknow'', lp_conf = None\<rparr>"

text \<open>The getter \<open>partition_dim()\<close>, with the default of the field.\<close>

definition partition_dim :: "'f LayerProto \<Rightarrow> int" where
  "partition_dim l = (case lp_partition_dim l of None \<Rightarrow> - 1 | Some d \<Rightarrow> d)"

record 'f NetProto =
  np_layer :: "'f LayerProto list"
  np_partition_dim :: int

text \<open>
  \<open>RegisterLayers\<close>, without the optional layer. \<open>Factory::Create\<close> aborts on other types, and the
  connection types are those of the class of the object it returns.
\<close>

definition registered :: "LayerType \<Rightarrow> bool" where
  "registered t \<longleftrightarrow> t \<in> set [kBridgeDst, kBridgeSrc, kConvolution, kConcate, kDropout, kInnerProduct, kInput, kOutput,
     kLabel, kLRN, kMnist, kPrefetch, kPooling, kRGBImage, kReLU, kShardData, kSlice, kSoftmaxLoss, kSplit, kTanh,
     kRBMVis, kRBMHid]"

definition factory_Create :: "LayerType \<Rightarrow> LayerType res" where
  "factory_Create t = checkR (registered t) CheckFailed (Inr t)"

definition src_neuron_connection :: "LayerType \<Rightarrow> ConnectionType" where
  "src_neuron_connection t =
     (if t = kConvolution \<or> t = kInnerProduct \<or> t = kSoftmaxLoss \<or> t = kOutput then kOneToAll else kOneToOne)"

definition is_datalayer :: "LayerType \<Rightarrow> bool" where
  "is_datalayer t \<longleftrightarrow> t = kShardData \<or> t = kInput \<or> t = kLMDBData"

definition is_parserlayer :: "LayerType \<Rightarrow> bool" where
  "is_parserlayer t \<longleftrightarrow> t = kLabel \<or> t = kMnist \<or> t = kRGBImage"

definition is_losslayer :: "LayerType \<Rightarrow> bool" where
  "is_losslayer t \<longleftrightarrow> t = kSoftmaxLoss \<or> t = kOutput"

definition dst_layer_connection :: "LayerType \<Rightarrow> ConnectionType" where
  "dst_layer_connection t = (if is_datalayer t \<or> t = kSlice \<or> t = kSplit then kOneToMany else kOneToOne)"

section \<open>The configuration of a phase\<close>

text \<open>The layers that are kept, with the partition dimension of the net where they have none.\<close>

definition phase_layers :: "'f NetProto \<Rightarrow> Phase \<Rightarrow> 'f LayerProto list" where
  "phase_layers net phase =
     map (\<lambda>l. if lp_partition_dim l = None then l\<lparr>lp_partition_dim := Some (np_partition_dim net)\<rparr> else l)
       (filter (\<lambda>l. phase \<notin> set (lp_exclude l)) (np_layer net))"

definition param_at :: "'f LayerProto list \<Rightarrow> nat \<times> nat \<Rightarrow> 'f ParamProto" where
  "param_at ls pos = lp_param (ls ! fst pos) ! snd pos"

definition set_param :: "nat \<times> nat \<Rightarrow> 'f ParamProto \<Rightarrow> 'f LayerProto list \<Rightarrow> 'f LayerProto list" where
  "set_param pos p ls = ls[fst pos := (ls ! fst pos)\<lparr>lp_param := (lp_param (ls ! fst pos))[snd pos := p]\<rparr>]"

definition param_positions :: "'f LayerProto list \<Rightarrow> (nat \<times> nat) list" where
  "param_positions ls = concat (map (\<lambda>i. map (Pair i) [0..<length (lp_param (ls ! i))]) [0..<length ls])"

text \<open>One parameter of the loop: the state is \<open>name2param\<close> and \<open>shares\<close>.\<close>

definition note_param ::
  "'f LayerProto list \<Rightarrow> (string \<rightharpoonup> nat \<times> nat) \<times> (nat \<times> nat) list \<Rightarrow> nat \<times> nat \<Rightarrow>
   ((string \<rightharpoonup> nat \<times> nat) \<times> (nat \<times> nat) list) res" where
  "note_param ls s pos =
     (case s of (name2param, shs) \<Rightarrow>
        let p = param_at ls pos in
        bindR (if pp_name p \<noteq> [] then
                 checkR (name2param (pp_name p) = None) CheckFailed (Inr (name2param(pp_name p \<mapsto> pos)))
               else Inr name2param) (\<lambda>n2p.
          Inr (n2p, if pp_share_from p \<noteq> [] then shs @ [pos] else shs)))"

definition share_conf :: "(string \<rightharpoonup> nat \<times> nat) \<Rightarrow> 'f LayerProto list \<Rightarrow> nat \<times> nat \<Rightarrow> 'f LayerProto list res" where
  "share_conf name2param ls pos =
     (let p = param_at ls pos in
      case name2param (pp_share_from p) of
        None \<Rightarrow> Inl CheckFailed
      | Some src \<Rightarrow>
          Inr (set_param pos ((param_at ls src)\<lparr>pp_name := pp_name p, pp_share_from := pp_share_from p\<rparr>) ls))"

text \<open>\<open>Create\<close> up to the construction of the net from the configuration it returns here.\<close>

definition Create_conf :: "'f NetProto \<Rightarrow> Phase \<Rightarrow> 'f LayerProto list res" where
  "Create_conf net phase =
     (let ls = phase_layers net phase in
      bindR (foldR (note_param ls) (Map.empty, []) (param_positions ls)) (\<lambda>(name2param, shs).
        foldR (share_conf name2param) ls shs))"

section \<open>The graph\<close>

record 'f ngraph =
  gr :: Graph
  protos :: "nat \<Rightarrow> 'f LayerProto"
  nproto :: nat

definition ngraph_new :: "'f ngraph" where
  "ngraph_new = \<lparr>gr = Graph_new, protos = (\<lambda>_. LayerProto_default), nproto = 0\<rparr>"

definition proto_of :: "'f ngraph \<Rightarrow> nat \<Rightarrow> 'f LayerProto res" where
  "proto_of s a = (case proto (nd (gr s) a) of None \<Rightarrow> Inl Undefined | Some i \<Rightarrow> Inr (protos s i))"

text \<open>\<open>new LayerProto\<close>, \<open>new Node\<close> and \<open>AddNode\<close>.\<close>

definition add_node :: "string \<Rightarrow> string \<Rightarrow> int \<Rightarrow> 'f LayerProto \<Rightarrow> 'f ngraph \<Rightarrow> nat \<times> 'f ngraph" where
  "add_node name orig pid lp s =
     (let (a, g) = new_node (Node_full name orig pid (Some (nproto s))) (gr s) in
      (a, s\<lparr>gr := AddNode_ptr a g, protos := (protos s)(nproto s := lp), nproto := nproto s + 1\<rparr>))"

definition add_edge :: "nat \<Rightarrow> nat \<Rightarrow> 'f ngraph \<Rightarrow> 'f ngraph" where
  "add_edge a b s = s\<lparr>gr := AddEdge_ptr a b (gr s)\<rparr>"

definition remove_edge :: "nat \<Rightarrow> 'f ngraph \<Rightarrow> nat \<Rightarrow> 'f ngraph res" where
  "remove_edge a s b = bindR (RemoveEdge_ptr a b (gr s)) (\<lambda>g. Inr (s\<lparr>gr := g\<rparr>))"

definition SliceNode :: "nat \<Rightarrow> nat list \<Rightarrow> bool \<Rightarrow> 'f ngraph \<Rightarrow> (nat \<times> 'f ngraph) res" where
  "SliceNode src dsts connect_dst s =
     (let name = node_name (nd (gr s) src) @ ''<'' in
      bindR (proto_of s src) (\<lambda>sp.
      bindR (idxR dsts 0) (\<lambda>d0.
      bindR (proto_of s d0) (\<lambda>dp.
      let (a, s1) = add_node name (''##'' @ name) (lp_partition_id sp)
            (LayerProto_default\<lparr>lp_name := name, lp_type := kSlice, lp_partition_id := lp_partition_id sp,
               lp_slice_dim := Some (partition_dim dp)\<rparr>) s;
          s2 = add_edge src a s1 in
      Inr (a, if connect_dst then fold (add_edge a) dsts s2 else s2)))))"

definition ConcateNodes :: "nat list \<Rightarrow> nat \<Rightarrow> 'f ngraph \<Rightarrow> (nat \<times> 'f ngraph) res" where
  "ConcateNodes srcs dst s =
     (let name = ''>'' @ node_name (nd (gr s) dst) in
      bindR (proto_of s dst) (\<lambda>dp.
      bindR (idxR srcs 0) (\<lambda>s0.
      bindR (proto_of s s0) (\<lambda>sp.
      let (a, s1) = add_node name (''##'' @ name) (lp_partition_id dp)
            (LayerProto_default\<lparr>lp_name := name, lp_type := kConcate, lp_partition_id := lp_partition_id dp,
               lp_concate_dim := Some (partition_dim sp)\<rparr>) s;
          s2 = add_edge a dst s1 in
      Inr (a, fold (\<lambda>src. add_edge src a) srcs s2)))))"

definition SplitNode :: "nat \<Rightarrow> nat list \<Rightarrow> 'f ngraph \<Rightarrow> (nat \<times> 'f ngraph) res" where
  "SplitNode src dsts s =
     (let name = node_name (nd (gr s) src) @ ''+'' in
      bindR (proto_of s src) (\<lambda>sp.
      let (a, s1) = add_node name (''##'' @ name) (lp_partition_id sp)
            (LayerProto_default\<lparr>lp_name := name, lp_type := kSplit, lp_partition_id := lp_partition_id sp\<rparr>) s in
      Inr (a, fold (add_edge a) dsts (add_edge src a s1))))"

definition BridgeNodes :: "nat \<Rightarrow> nat \<Rightarrow> 'f ngraph \<Rightarrow> 'f ngraph res" where
  "BridgeNodes src dst s =
     (let sname = node_name (nd (gr s) src) @ '':-''; dname = ''-:'' @ node_name (nd (gr s) dst) in
      bindR (proto_of s src) (\<lambda>sp.
      bindR (proto_of s dst) (\<lambda>dp.
      let (sb, s1) = add_node sname (''##'' @ sname) (lp_partition_id sp)
            (LayerProto_default\<lparr>lp_name := sname, lp_type := kBridgeSrc, lp_partition_id := lp_partition_id sp\<rparr>) s;
          (db, s2) = add_node dname (''##'' @ dname) (lp_partition_id dp)
            (LayerProto_default\<lparr>lp_name := dname, lp_type := kBridgeDst, lp_partition_id := lp_partition_id dp\<rparr>) s1 in
      Inr (add_edge db dst (add_edge sb db (add_edge src sb s2))))))"

text \<open>\<open>snprintf(suffix, 4, "%02d", i)\<close> of a number that is not negative keeps three characters.\<close>

definition part_suffix :: "int \<Rightarrow> string" where
  "part_suffix i = take 3 (if i < 10 then ''0'' @ print_d i else print_d i)"

text \<open>The nodes of one layer.\<close>

definition layer_nodes ::
  "int \<Rightarrow> (string \<rightharpoonup> nat list) \<times> (string \<rightharpoonup> 'f LayerProto) \<times> 'f ngraph \<Rightarrow> 'f LayerProto \<Rightarrow>
   ((string \<rightharpoonup> nat list) \<times> (string \<rightharpoonup> 'f LayerProto) \<times> 'f ngraph) res" where
  "layer_nodes npartitions st l =
     (case st of (n2n, n2p, s) \<Rightarrow>
        let nm = lp_name l; pdim = partition_dim l in
        bindR (if pdim = 0 \<or> pdim = 1 then
                 Inr (fold (\<lambda>i (as, s). let (a, s1) = add_node (nm @ ''@'' @ part_suffix i) nm i (l\<lparr>lp_partition_id := i\<rparr>) s in (as @ [a], s1))
                   [0..npartitions - 1] ([], s))
               else if pdim = - 1 then (let (a, s1) = add_node nm nm 0 l s in Inr ([a], s1))
               else Inl CheckFailed) (\<lambda>(nodes, s1).
          Inr (n2n(nm \<mapsto> nodes), n2p(nm \<mapsto> l), s1)))"

text \<open>
  The connection of the nodes of a layer with those of one source. In the case for the exchange of
  dimensions the vector \<open>nodes\<close> is declared anew: it is empty when the first slice node reads it, and the concate nodes
  are made for its own elements.
\<close>

definition exchange :: "nat list \<Rightarrow> 'f ngraph \<Rightarrow> 'f ngraph res" where
  "exchange srcs s =
     bindR (foldR (\<lambda>(nodes, s) src. bindR (SliceNode src nodes False s) (\<lambda>(a, s1). Inr (nodes @ [a], s1))) ([], s) srcs)
       (\<lambda>(nodes, s1). foldR (\<lambda>s node. bindR (ConcateNodes nodes node s) (\<lambda>(_, s2). Inr s2)) s1 nodes)"

definition connect_src ::
  "(string \<rightharpoonup> nat list) \<Rightarrow> (string \<rightharpoonup> 'f LayerProto) \<Rightarrow> 'f LayerProto \<Rightarrow> 'f ngraph \<Rightarrow> string \<Rightarrow> 'f ngraph res" where
  "connect_src n2n n2p l s srcname =
     (case (n2n (lp_name l), n2n srcname, n2p srcname) of
        (Some nodes, Some srcs, Some sp) \<Rightarrow>
          bindR (factory_Create (lp_type l)) (\<lambda>t.
          let connection = src_neuron_connection t; pdim = partition_dim l; src_pdim = partition_dim sp in
          if src_pdim = - 1 then
            bindR (idxR srcs 0) (\<lambda>srcnode.
              if pdim = 0 \<or> (pdim = 1 \<and> connection = kOneToOne) then
                bindR (SliceNode srcnode nodes True s) (\<lambda>(_, s1). Inr s1)
              else if pdim = - 1 then bindR (idxR nodes 0) (\<lambda>n. Inr (add_edge srcnode n s))
              else bindR (SplitNode srcnode nodes s) (\<lambda>(_, s1). Inr s1))
          else if (pdim = - 1 \<and> (src_pdim = 0 \<or> src_pdim = 1)) \<or> (pdim = 1 \<and> connection = kOneToAll \<and> src_pdim = 0) then
            foldR (\<lambda>s node. bindR (ConcateNodes srcs node s) (\<lambda>(_, s1). Inr s1)) s nodes
          else if (src_pdim = 1 \<and> pdim = 0) \<or> (src_pdim = 0 \<and> pdim = 1) then exchange srcs s
          else if (src_pdim = 0 \<and> pdim = 0) \<or> (src_pdim = 1 \<and> pdim = 1 \<and> connection = kOneToOne) then
            checkR (length srcs = length nodes) CheckFailed
              (Inr (fold (\<lambda>(a, b). add_edge a b) (zip srcs nodes) s))
          else Inr s)
      | _ \<Rightarrow> Inl OutOfRange)"

definition connect_layer ::
  "(string \<rightharpoonup> nat list) \<Rightarrow> (string \<rightharpoonup> 'f LayerProto) \<Rightarrow> 'f ngraph \<Rightarrow> 'f LayerProto \<Rightarrow> 'f ngraph res" where
  "connect_layer n2n n2p s l = foldR (connect_src n2n n2p l) s (lp_srclayers l)"

text \<open>A split layer behind a node with several destinations whose class serves only one.\<close>

definition split_node :: "'f ngraph \<Rightarrow> nat \<Rightarrow> 'f ngraph res" where
  "split_node s a =
     bindR (proto_of s a) (\<lambda>lp.
     bindR (factory_Create (lp_type lp)) (\<lambda>t.
       let dsts = dstnodes (nd (gr s) a) in
       if 1 < length dsts \<and> dst_layer_connection t = kOneToOne then
         bindR (foldR (remove_edge a) s dsts) (\<lambda>s1. bindR (SplitNode a dsts s1) (\<lambda>(_, s2). Inr s2))
       else Inr s))"

text \<open>Bridges: both partition ids are read from \<open>node\<close>.\<close>

definition bridge_node :: "'f ngraph \<Rightarrow> nat \<Rightarrow> 'f ngraph res" where
  "bridge_node s a =
     bindR (proto_of s a) (\<lambda>lp.
       let pid1 = lp_partition_id lp in
       foldR (\<lambda>s d.
           bindR (proto_of s a) (\<lambda>lp2.
             let pid2 = lp_partition_id lp2 in
             if pid1 \<noteq> pid2 then bindR (remove_edge a s d) (BridgeNodes a d) else Inr s))
         s (dstnodes (nd (gr s) a)))"

definition sort_graph :: "'f ngraph \<Rightarrow> 'f ngraph res option" where
  "sort_graph s = bindOR (Sort (gr s)) (\<lambda>g. Some (Inr (s\<lparr>gr := g\<rparr>)))"

definition connected_graph :: "'f LayerProto list \<Rightarrow> int \<Rightarrow> 'f ngraph res" where
  "connected_graph ls npartitions =
     bindR (foldR (layer_nodes npartitions) (Map.empty, Map.empty, ngraph_new) ls) (\<lambda>(n2n, n2p, s).
       foldR (connect_layer n2n n2p) s ls)"

definition CreateGraph :: "'f LayerProto list \<Rightarrow> int \<Rightarrow> 'f ngraph res option" where
  "CreateGraph ls npartitions =
     bindOR (Some (connected_graph ls npartitions)) (\<lambda>s.
     bindOR (sort_graph s) (\<lambda>s1.
     let oldnodes = nodes_ids (gr s1) in
     bindOR (Some (foldR split_node s1 oldnodes)) (\<lambda>s2.
     bindOR (Some (foldR bridge_node s2 oldnodes)) sort_graph)))"

section \<open>Names of the partitions\<close>

lemma print_nat_length: "n < 10 ^ Suc k \<Longrightarrow> length (print_nat n) \<le> Suc k"
proof (induction k arbitrary: n)
  case 0
  then show ?case by (simp add: print_nat.simps [of n])
next
  case (Suc k)
  show ?case
  proof (cases "n < 10")
    case False
    have "n div 10 < 10 ^ Suc k" using Suc.prems by (simp add: less_mult_imp_div_less mult.commute)
    then show ?thesis using Suc.IH False by (simp add: print_nat.simps [of n])
  qed (simp add: print_nat.simps [of n])
qed

lemma part_suffix_scan:
  assumes "0 \<le> i" and "i < 1000"
  shows "scan_nat 0 (part_suffix i) = (nat i, [])"
proof -
  have "scan_nat 0 (print_nat (nat i)) = (nat i, [])" using scan_nat_print [of 0 "nat i" "[]"] by simp
  moreover have "length (print_nat (nat i)) \<le> 3" using print_nat_length [of "nat i" 2] assms by simp
  moreover have "length (print_nat (nat i)) = 1" if "i < 10"
  proof -
    have "nat i < 10" using that by simp
    then show ?thesis by (simp add: print_nat.simps [of "nat i"])
  qed
  moreover have "is_digit (CHR ''0'')" by (simp add: is_digit_def)
  ultimately show ?thesis using assms by (simp add: part_suffix_def print_d_def)
qed

lemma part_suffix_digits: "0 \<le> i \<Longrightarrow> c \<in> set (part_suffix i) \<Longrightarrow> is_digit c"
  using print_nat_digits [of "nat i"] by (auto simp: part_suffix_def print_d_def is_digit_def dest!: in_set_takeD split: if_splits)

lemma part_suffix_inj: "0 \<le> i \<Longrightarrow> i < 1000 \<Longrightarrow> 0 \<le> j \<Longrightarrow> j < 1000 \<Longrightarrow> part_suffix i = part_suffix j \<longleftrightarrow> i = j"
  by (metis part_suffix_scan eq_nat_nat_iff prod.inject)

text \<open>The name of the \<open>i\<close>-th copy of a layer in a net whose layers all have dimension \<open>d\<close>, and back.\<close>

definition copy_name :: "int \<Rightarrow> string \<Rightarrow> int \<Rightarrow> string" where
  "copy_name d nm i = (if d = - 1 then nm else nm @ ''@'' @ part_suffix i)"

definition copies :: "int \<Rightarrow> int \<Rightarrow> nat" where
  "copies d npartitions = (if d = - 1 then 1 else nat npartitions)"

definition base_name :: "int \<Rightarrow> string \<Rightarrow> string" where
  "base_name d x = (if d = - 1 then x else rev (tl (dropWhile (\<lambda>c. c \<noteq> CHR ''@'') (rev x))))"

lemma base_copy: "0 \<le> i \<Longrightarrow> base_name d (copy_name d nm i) = nm"
proof -
  assume i: "0 \<le> i"
  have "c \<noteq> CHR ''@''" if "c \<in> set (rev (part_suffix i))" for c
    using part_suffix_digits [OF i, of c] that by (auto simp: is_digit_def)
  then have "dropWhile (\<lambda>c. c \<noteq> CHR ''@'') (rev (part_suffix i) @ CHR ''@'' # rev nm) = CHR ''@'' # rev nm"
    by (subst dropWhile_append2) auto
  then show ?thesis by (simp add: base_name_def copy_name_def)
qed

lemma copy_name_inj:
  assumes "i < copies d n" and "j < copies d n" and "n \<le> 1000"
  shows "copy_name d x (int i) = copy_name d y (int j) \<longleftrightarrow> x = y \<and> i = j"
proof
  assume eq: "copy_name d x (int i) = copy_name d y (int j)"
  then have "x = y" using base_copy [of "int i" d x] base_copy [of "int j" d y] by simp
  moreover have "i = j" using eq assms part_suffix_inj [of "int i" "int j"] \<open>x = y\<close>
    by (auto simp: copy_name_def copies_def split: if_splits)
  ultimately show "x = y \<and> i = j" by blast
qed simp

lemma copy_name_chars:
  "0 \<le> i \<Longrightarrow> NUL \<notin> set nm \<Longrightarrow> NUL \<notin> set (copy_name d nm i)"
  "0 \<le> i \<Longrightarrow> CHR ''+'' \<notin> set nm \<Longrightarrow> CHR ''+'' \<notin> set (copy_name d nm i)"
  using part_suffix_digits [of i] digit_chars by (auto simp: copy_name_def)

section \<open>Steps of the construction on names\<close>

lemma add_node_spec:
  fixes s :: "'f ngraph" and nm orig :: string and pid :: int and lp :: "'f LayerProto"
  assumes "wf_graph (gr s)" and "nm \<notin> names (gr s)" and "NUL \<notin> set nm"
  defines "a \<equiv> fresh (gr s)" and "s1 \<equiv> snd (add_node nm orig pid lp s)"
  shows "fst (add_node nm orig pid lp s) = a" and "wf_graph (gr s1)" and "mult (gr s1) = mult (gr s)"
    and "name2node (gr s1) = (name2node (gr s))(nm \<mapsto> a)" and "nodes_ids (gr s1) = nodes_ids (gr s) @ [a]"
    and "proto_of s1 a = Inr lp" and "\<And>b. b < fresh (gr s) \<Longrightarrow> nd (gr s1) b = nd (gr s) b"
    and "fresh (gr s1) = fresh (gr s) + 1" and "\<And>i. i < nproto s \<Longrightarrow> protos s1 i = protos s i" and "nproto s1 = nproto s + 1"
    and "nd (gr s1) a = Node_full nm orig pid (Some (nproto s))"
proof -
  let ?n = "Node_full nm orig pid (Some (nproto s))" and ?g = "gr s"
  have g1: "gr s1 = ?g\<lparr>heap := (heap ?g)(fresh ?g := ?n), fresh := fresh ?g + 1,
      nodes_ids := nodes_ids ?g @ [fresh ?g], name2node := (name2node ?g)(nm \<mapsto> fresh ?g)\<rparr>"
    by (simp add: s1_def add_node_def new_node_def AddNode_ptr_def Node_full_def Let_def)
  have g2: "snd (AddNode nm ?g) = ?g\<lparr>heap := (heap ?g)(fresh ?g := Node_of_name nm), fresh := fresh ?g + 1,
      nodes_ids := nodes_ids ?g @ [fresh ?g], name2node := (name2node ?g)(nm \<mapsto> fresh ?g)\<rparr>"
    by (simp add: AddNode_def new_node_def AddNode_ptr_def Node_of_name_def)
  have same: "node_name (nd (gr s1) b) = node_name (nd (snd (AddNode nm ?g)) b)" "srcnodes (nd (gr s1) b) = srcnodes (nd (snd (AddNode nm ?g)) b)"
    "dstnodes (nd (gr s1) b) = dstnodes (nd (snd (AddNode nm ?g)) b)" "nodes_ids (gr s1) = nodes_ids (snd (AddNode nm ?g))"
    "name2node (gr s1) = name2node (snd (AddNode nm ?g))" "fresh (gr s1) = fresh (snd (AddNode nm ?g))" for b
    unfolding g1 g2 by (simp_all add: Node_full_def Node_of_name_def)
  show "wf_graph (gr s1)" using AddNode_spec(1) [OF assms(1-3)] unfolding wf_graph_def same .
  show "mult (gr s1) = mult ?g"
    using AddNode_spec(3) [OF assms(1-3)] unfolding mult_def same by (simp add: fun_eq_iff mult_def)
  show "fst (add_node nm orig pid lp s) = a" "proto_of s1 a = Inr lp" "\<And>i. i < nproto s \<Longrightarrow> protos s1 i = protos s i" "nproto s1 = nproto s + 1"
    by (simp_all add: s1_def a_def add_node_def new_node_def AddNode_ptr_def Node_full_def proto_of_def Let_def)
  show "name2node (gr s1) = (name2node (gr s))(nm \<mapsto> a)" "nodes_ids (gr s1) = nodes_ids (gr s) @ [a]"
    "\<And>b. b < fresh (gr s) \<Longrightarrow> nd (gr s1) b = nd (gr s) b" "fresh (gr s1) = fresh (gr s) + 1"
    "nd (gr s1) a = Node_full nm orig pid (Some (nproto s))"
    using g1 by (auto simp: a_def)
qed

text \<open>The number of edges between two addresses.\<close>

definition arc :: "'f ngraph \<Rightarrow> nat \<Rightarrow> nat \<Rightarrow> nat" where
  "arc s a b = count_list (dstnodes (nd (gr s) a)) b"

lemma mult_arc: "name2node (gr s) x = Some a \<Longrightarrow> name2node (gr s) y = Some b \<Longrightarrow> mult (gr s) x y = arc s a b"
  by (simp add: mult_def arc_def)

text \<open>Two states of the construction that differ in edges only.\<close>

definition same_nodes :: "'f ngraph \<Rightarrow> 'f ngraph \<Rightarrow> bool" where
  "same_nodes s s1 \<longleftrightarrow> name2node (gr s1) = name2node (gr s) \<and> nodes_ids (gr s1) = nodes_ids (gr s) \<and>
     fresh (gr s1) = fresh (gr s) \<and> protos s1 = protos s \<and> nproto s1 = nproto s \<and>
     (\<forall>a. proto (nd (gr s1) a) = proto (nd (gr s) a) \<and> node_name (nd (gr s1) a) = node_name (nd (gr s) a) \<and>
        Graph.partition_id (nd (gr s1) a) = Graph.partition_id (nd (gr s) a))"

lemma same_nodes_refl: "same_nodes s s"
  and same_nodes_trans: "same_nodes s s1 \<Longrightarrow> same_nodes s1 s2 \<Longrightarrow> same_nodes s s2"
  by (auto simp: same_nodes_def)

lemma same_nodesD:
  "same_nodes s s1 \<Longrightarrow> proto_of s1 a = proto_of s a" "same_nodes s s1 \<Longrightarrow> name2node (gr s1) = name2node (gr s)"
  "same_nodes s s1 \<Longrightarrow> nodes_ids (gr s1) = nodes_ids (gr s)" "same_nodes s s1 \<Longrightarrow> names (gr s1) = names (gr s)"
  "same_nodes s s1 \<Longrightarrow> node_name (nd (gr s1) a) = node_name (nd (gr s) a)"
  "same_nodes s s1 \<Longrightarrow> fresh (gr s1) = fresh (gr s)" "same_nodes s s1 \<Longrightarrow> nproto s1 = nproto s"
  by (auto simp: same_nodes_def proto_of_def names_def split: option.splits)

lemma add_edge_same: "same_nodes s (add_edge a b s)"
  by (simp add: same_nodes_def add_edge_def) (simp add: AddEdge_ptr_def AddSrcNode_def AddDstNode_def upd_node_def)

lemma add_edges_spec:
  assumes "wf_graph (gr s)" and "\<forall>(a, b) \<in> set ps. a \<in> set (nodes_ids (gr s)) \<and> b \<in> set (nodes_ids (gr s))"
  defines "s1 \<equiv> fold (\<lambda>(a, b). add_edge a b) ps s"
  shows "wf_graph (gr s1) \<and> same_nodes s s1 \<and> (\<forall>a b. arc s1 a b = arc s a b + count_list ps (a, b))"
  using assms(1,2) unfolding s1_def
proof (induction ps arbitrary: s)
  case (Cons p ps)
  obtain a b where p: "p = (a, b)" by (cases p)
  let ?s = "add_edge a b s"
  have wf: "wf_graph (gr ?s)" using Cons.prems p wf_AddEdge_ptr by (auto simp: add_edge_def)
  have arc: "arc ?s x y = arc s x y + (if (a, b) = (x, y) then 1 else 0)" for x y
    by (auto simp: arc_def add_edge_def)
  have "wf_graph (gr (fold (\<lambda>(a, b). add_edge a b) ps ?s)) \<and> same_nodes ?s (fold (\<lambda>(a, b). add_edge a b) ps ?s) \<and>
      (\<forall>x y. arc (fold (\<lambda>(a, b). add_edge a b) ps ?s) x y = arc ?s x y + count_list ps (x, y))"
    using Cons.IH [OF wf] Cons.prems(2) same_nodesD(3) [OF add_edge_same, of a b s] by auto
  then show ?case using p arc same_nodes_trans [OF add_edge_same] by auto
qed (auto simp: same_nodes_refl)

lemma fold_add_edge: "fold (add_edge a) bs s = fold (\<lambda>(a, b). add_edge a b) (map (Pair a) bs) s"
  by (induction bs arbitrary: s) auto

lemma remove_edges_spec:
  assumes "wf_graph (gr s)" and "a \<in> set (nodes_ids (gr s))" and "\<forall>b. count_list bs b \<le> arc s a b"
  shows "\<exists>s1. foldR (remove_edge a) s bs = Inr s1 \<and> wf_graph (gr s1) \<and> same_nodes s s1 \<and>
    (\<forall>c b. arc s1 c b = arc s c b - (if c = a then count_list bs b else 0))"
  using assms
proof (induction bs arbitrary: s)
  case (Cons b bs)
  let ?g = "gr s"
  have "0 < count_list (dstnodes (nd ?g a)) b" using Cons.prems(3) by (metis arc_def count_list.simps(2) gr0I le_zero_eq nat.distinct(1) add_gr_0 zero_less_one)
  then have b: "b \<in> set (dstnodes (nd ?g a))" by (metis count_list_0_iff less_numeral_extra(3))
  have bn: "b \<in> set (nodes_ids ?g)" using b wf_graphD(5) [OF Cons.prems(1,2)] by blast
  define g1 where "g1 = upd_node b (\<lambda>n. n\<lparr>srcnodes := remove1 a (srcnodes (nd ?g b))\<rparr>)
    (upd_node a (\<lambda>n. n\<lparr>dstnodes := remove1 b (dstnodes (nd ?g a))\<rparr>) ?g)"
  have run: "remove_edge a s b = Inr (s\<lparr>gr := g1\<rparr>)"
    using RemoveEdge_ptr_eq [OF Cons.prems(1,2) bn b] by (simp add: remove_edge_def g1_def)
  have nms: "name2node ?g (node_name (nd ?g a)) = Some a" "name2node ?g (node_name (nd ?g b)) = Some b"
    using wf_graphD(2) [OF Cons.prems(1)] Cons.prems(2) bn by blast+
  have "RemoveEdge (node_name (nd ?g a)) (node_name (nd ?g b)) ?g = Inr g1"
    using RemoveEdge_ptr_eq [OF Cons.prems(1,2) bn b] nms by (simp add: RemoveEdge_def g1_def)
  moreover have "0 < mult ?g (node_name (nd ?g a)) (node_name (nd ?g b))"
    using nms \<open>0 < count_list (dstnodes (nd ?g a)) b\<close> by (simp add: mult_def)
  ultimately have wf: "wf_graph g1" using RemoveEdge_spec [OF Cons.prems(1), of "node_name (nd ?g a)" "node_name (nd ?g b)"] by auto
  have same: "same_nodes s (s\<lparr>gr := g1\<rparr>)" by (simp add: same_nodes_def g1_def upd_node_def)
  have arc: "arc (s\<lparr>gr := g1\<rparr>) c e = arc s c e - (if c = a \<and> e = b then 1 else 0)" for c e
    by (simp add: arc_def g1_def upd_node_def count_list_remove1)
  have le: "\<forall>e. count_list bs e \<le> arc (s\<lparr>gr := g1\<rparr>) a e"
  proof
    fix e show "count_list bs e \<le> arc (s\<lparr>gr := g1\<rparr>) a e" using Cons.prems(3) [rule_format, of e] arc [of a e] by (cases "e = b") auto
  qed
  obtain s1 where "foldR (remove_edge a) (s\<lparr>gr := g1\<rparr>) bs = Inr s1" "wf_graph (gr s1)" "same_nodes (s\<lparr>gr := g1\<rparr>) s1"
    "\<forall>c e. arc s1 c e = arc (s\<lparr>gr := g1\<rparr>) c e - (if c = a then count_list bs e else 0)"
    using Cons.IH [of "s\<lparr>gr := g1\<rparr>"] wf le Cons.prems(2) same_nodesD(3) [OF same] by auto
  then show ?case using run arc same_nodes_trans [OF same] by auto
qed (auto simp: same_nodes_refl)


text \<open>The graph is well formed and every node points to a proto.\<close>

definition wf_ngraph :: "'f ngraph \<Rightarrow> bool" where
  "wf_ngraph s \<longleftrightarrow> wf_graph (gr s) \<and> (\<forall>a \<in> set (nodes_ids (gr s)). \<exists>i < nproto s. proto (nd (gr s) a) = Some i)"

lemma wf_ngraph_same: "wf_ngraph s \<Longrightarrow> same_nodes s s1 \<Longrightarrow> wf_graph (gr s1) \<Longrightarrow> wf_ngraph s1"
  by (auto simp: wf_ngraph_def same_nodes_def)

lemma wf_ngraph_graph: "wf_ngraph s \<Longrightarrow> wf_graph (gr s)"
  by (simp add: wf_ngraph_def)

lemma wf_ngraph_name: "wf_ngraph s \<Longrightarrow> name2node (gr s) x = Some a \<longleftrightarrow> a \<in> set (nodes_ids (gr s)) \<and> node_name (nd (gr s) a) = x"
  using name2node_iff [OF wf_ngraph_graph] .

text \<open>\<open>s1\<close> has the nodes of \<open>s\<close> and perhaps more.\<close>

definition extends :: "'f ngraph \<Rightarrow> 'f ngraph \<Rightarrow> bool" where
  "extends s s1 \<longleftrightarrow> (\<forall>x a. name2node (gr s) x = Some a \<longrightarrow> name2node (gr s1) x = Some a \<and> proto_of s1 a = proto_of s a)"

lemma extends_refl: "extends s s" and extends_trans: "extends s s1 \<Longrightarrow> extends s1 s2 \<Longrightarrow> extends s s2"
  unfolding extends_def by (blast, metis)

lemma extends_same: "same_nodes s s1 \<Longrightarrow> extends s s1"
  using same_nodesD by (fastforce simp: extends_def)

lemma add_node_extends:
  fixes s :: "'f ngraph" and nm orig :: string and pid :: int and lp :: "'f LayerProto"
  assumes "wf_ngraph s" and "nm \<notin> names (gr s)" and "NUL \<notin> set nm"
  defines "a \<equiv> fst (add_node nm orig pid lp s)" and "s1 \<equiv> snd (add_node nm orig pid lp s)"
  shows "wf_ngraph s1" and "extends s s1" and "names (gr s1) = insert nm (names (gr s))" and "mult (gr s1) = mult (gr s)"
    and "name2node (gr s1) nm = Some a" and "proto_of s1 a = Inr lp" and "set (nodes_ids (gr s1)) = insert a (set (nodes_ids (gr s)))"
    and "dstnodes (nd (gr s1) a) = []" and "\<And>b. b \<in> set (nodes_ids (gr s)) \<Longrightarrow> nd (gr s1) b = nd (gr s) b"
    and "a \<notin> set (nodes_ids (gr s))"
proof -
  note n = add_node_spec [OF wf_ngraph_graph [OF assms(1)] assms(2,3), where orig = orig and pid = pid and lp = lp, folded s1_def]
  have a: "a = fresh (gr s)" using n(1) a_def by simp
  have lt: "b < fresh (gr s)" if "b \<in> set (nodes_ids (gr s))" for b
    using wf_graphD(1) [OF wf_ngraph_graph [OF assms(1)] that] .
  show old: "\<And>b. b \<in> set (nodes_ids (gr s)) \<Longrightarrow> nd (gr s1) b = nd (gr s) b" using lt n(7) by blast
  have proto: "\<exists>i < nproto s. proto (nd (gr s) b) = Some i" if "b \<in> set (nodes_ids (gr s))" for b
    using assms(1) that by (simp add: wf_ngraph_def)
  show "wf_ngraph s1" unfolding wf_ngraph_def n(5,10)
    using n(2,11) old proto by (auto simp: Node_full_def less_Suc_eq)
  have "proto_of s1 b = proto_of s b" if b: "b \<in> set (nodes_ids (gr s))" for b
    using proto [OF b] old [OF b] n(9) by (auto simp: proto_of_def)
  moreover have "x \<noteq> nm" if "name2node (gr s) x = Some b" for x b using that assms(2) by (auto simp: names_def)
  ultimately show "extends s s1" using n(4) wf_ngraph_name [OF assms(1)] by (auto simp: extends_def)
  show "names (gr s1) = insert nm (names (gr s))" "name2node (gr s1) nm = Some a" using n(4) a by (auto simp: names_def)
  show "mult (gr s1) = mult (gr s)" "proto_of s1 a = Inr lp" "set (nodes_ids (gr s1)) = insert a (set (nodes_ids (gr s)))"
    using n(3,5,6) a by auto
  show "dstnodes (nd (gr s1) a) = []" using n(11) a by (simp add: Node_full_def)
  show "a \<notin> set (nodes_ids (gr s))" using lt a by blast
qed

text \<open>Several new nodes.\<close>

definition add_named :: "string \<times> string \<times> int \<times> 'f LayerProto \<Rightarrow> nat list \<times> 'f ngraph \<Rightarrow> nat list \<times> 'f ngraph" where
  "add_named x r = (case (x, r) of ((nm, orig, pid, lp), (as, s)) \<Rightarrow> let (a, s1) = add_node nm orig pid lp s in (as @ [a], s1))"

lemma add_nodes_spec:
  assumes "wf_ngraph s" and "distinct (map fst xs)" and "set (map fst xs) \<inter> names (gr s) = {}" and "\<forall>x \<in> set xs. NUL \<notin> set (fst x)"
  shows "\<exists>bs s1. fold add_named xs (as, s) = (as @ bs, s1) \<and> wf_ngraph s1 \<and> extends s s1 \<and>
    names (gr s1) = names (gr s) \<union> set (map fst xs) \<and> mult (gr s1) = mult (gr s) \<and> length bs = length xs \<and>
    (\<forall>i < length xs. name2node (gr s1) (fst (xs ! i)) = Some (bs ! i) \<and> proto_of s1 (bs ! i) = Inr (snd (snd (snd (xs ! i)))))"
  using assms
proof (induction xs arbitrary: as s)
  case (Cons x xs)
  obtain nm orig pid lp where x: "x = (nm, orig, pid, lp)" by (cases x) auto
  let ?a = "fst (add_node nm orig pid lp s)" and ?s = "snd (add_node nm orig pid lp s)"
  note n = add_node_extends [OF Cons.prems(1), where nm = nm and orig = orig and pid = pid and lp = lp]
  have nm: "nm \<notin> names (gr s)" "NUL \<notin> set nm" using Cons.prems(3,4) x by auto
  obtain bs s1 where IH: "fold add_named xs (as @ [?a], ?s) = ((as @ [?a]) @ bs, s1)" "wf_ngraph s1" "extends ?s s1"
    "names (gr s1) = names (gr ?s) \<union> set (map fst xs)" "mult (gr s1) = mult (gr ?s)" "length bs = length xs"
    "\<forall>i < length xs. name2node (gr s1) (fst (xs ! i)) = Some (bs ! i) \<and> proto_of s1 (bs ! i) = Inr (snd (snd (snd (xs ! i))))"
    using Cons.IH [OF n(1) [OF nm], of "as @ [?a]"] Cons.prems(2-4) n(3) [OF nm] x by auto
  have "name2node (gr s1) nm = Some ?a" "proto_of s1 ?a = Inr lp"
    using IH(3) n(5,6) [OF nm] unfolding extends_def by auto
  moreover have "add_named x (as, s) = (as @ [?a], ?s)" by (simp add: x add_named_def case_prod_unfold Let_def)
  ultimately show ?case
    using IH n(2-4) [OF nm] x extends_trans
    by (intro exI [of "\<lambda>bs. \<exists>s1. _ bs s1" "?a # bs"] exI [of _ s1])
       (auto simp: nth_Cons split: nat.splits)
qed (auto intro: extends_refl)


section \<open>Nets with one partition dimension\<close>

text \<open>
  A configuration whose layers are all partitioned along the batch (\<open>d = 0\<close>) or all not partitioned
  (\<open>d = - 1\<close>), with distinct names and known sources. The letter \<open>+\<close> is the mark of split nodes.
\<close>

definition uniform :: "int \<Rightarrow> int \<Rightarrow> 'f LayerProto list \<Rightarrow> bool" where
  "uniform d npartitions ls \<longleftrightarrow> (d = - 1 \<or> d = 0) \<and> 1 \<le> npartitions \<and> npartitions \<le> 1000 \<and> distinct (map lp_name ls) \<and>
     (\<forall>l \<in> set ls. partition_dim l = d \<and> registered (lp_type l) \<and> NUL \<notin> set (lp_name l) \<and> CHR ''+'' \<notin> set (lp_name l) \<and>
        set (lp_srclayers l) \<subseteq> set (map lp_name ls))"

definition copy_names :: "int \<Rightarrow> int \<Rightarrow> 'f LayerProto list \<Rightarrow> string set" where
  "copy_names d npartitions ls = {copy_name d (lp_name l) (int i) | l i. l \<in> set ls \<and> i < copies d npartitions}"

definition placed :: "int \<Rightarrow> int \<Rightarrow> 'f LayerProto list \<Rightarrow> (string \<rightharpoonup> nat list) \<Rightarrow> (string \<rightharpoonup> 'f LayerProto) \<Rightarrow> 'f ngraph \<Rightarrow> bool" where
  "placed d npartitions ls n2n n2p s \<longleftrightarrow> wf_ngraph s \<and> names (gr s) = copy_names d npartitions ls \<and>
     (\<forall>l \<in> set ls. n2p (lp_name l) = Some l \<and>
        (\<exists>as. n2n (lp_name l) = Some as \<and> length as = copies d npartitions \<and>
           (\<forall>i < copies d npartitions. name2node (gr s) (copy_name d (lp_name l) (int i)) = Some (as ! i) \<and>
              (\<exists>pid. proto_of s (as ! i) = Inr (l\<lparr>lp_partition_id := pid\<rparr>)))))"

lemma copies_pos: "1 \<le> npartitions \<Longrightarrow> 0 < copies d npartitions"
  by (auto simp: copies_def)

lemma upto_map_int: "[0..int k - 1] = map int [0..<k]"
proof (induction k)
  case (Suc k)
  then show ?case using upto_rec2 [of 0 "int k"] by simp
qed simp

lemma fold_add_copies:
  "fold (\<lambda>i r. (fst r @ [fst (add_node (nm @ CHR ''@'' # part_suffix i) nm i (l\<lparr>lp_partition_id := i\<rparr>) (snd r))],
      snd (add_node (nm @ CHR ''@'' # part_suffix i) nm i (l\<lparr>lp_partition_id := i\<rparr>) (snd r)))) is r =
   fold add_named (map (\<lambda>i. (nm @ CHR ''@'' # part_suffix i, nm, i, l\<lparr>lp_partition_id := i\<rparr>)) is) r"
  by (induction "is" arbitrary: r) (simp_all add: add_named_def case_prod_unfold Let_def)

lemma layer_nodes_eq:
  assumes "partition_dim l = d" and "d = - 1 \<or> d = 0" and "1 \<le> npartitions"
  shows "\<exists>xs. layer_nodes npartitions (n2n, n2p, s) l =
      (case fold add_named xs ([], s) of (as, s1) \<Rightarrow> Inr (n2n(lp_name l \<mapsto> as), n2p(lp_name l \<mapsto> l), s1)) \<and>
    map fst xs = map (\<lambda>i. copy_name d (lp_name l) (int i)) [0..<copies d npartitions] \<and>
    (\<forall>x \<in> set xs. \<exists>pid. snd (snd (snd x)) = l\<lparr>lp_partition_id := pid\<rparr>)"
proof (cases "d = - 1")
  case True
  have "l = l\<lparr>lp_partition_id := lp_partition_id l\<rparr>" by simp
  then have "\<exists>pid. l = l\<lparr>lp_partition_id := pid\<rparr>" by blast
  then show ?thesis using assms True
    by (intro exI [of _ "[(lp_name l, lp_name l, 0, l)]"])
       (auto simp: layer_nodes_def Let_def add_named_def copy_name_def copies_def case_prod_unfold)
next
  case False
  let ?xs = "map (\<lambda>i. (lp_name l @ ''@'' @ part_suffix i, lp_name l, i, l\<lparr>lp_partition_id := i\<rparr>)) [0..npartitions - 1]"
  have "[0..npartitions - 1] = map int [0..<nat npartitions]" using upto_map_int [of "nat npartitions"] assms(3) by simp
  then show ?thesis using assms False
    by (intro exI [of _ ?xs] conjI)
       (auto simp: layer_nodes_def Let_def case_prod_unfold fold_add_copies simp del: map_map, auto simp: copy_name_def copies_def)
qed


lemma copy_names_Cons:
  "copy_names d npartitions (ls @ [l]) =
     copy_names d npartitions ls \<union> {copy_name d (lp_name l) (int i) | i. i < copies d npartitions}"
  by (auto simp: copy_names_def)

lemma place_layer:
  assumes "placed d npartitions ls n2n n2p s" and "uniform d npartitions (ls @ l # rest)"
  shows "\<exists>n2n1 n2p1 s1. layer_nodes npartitions (n2n, n2p, s) l = Inr (n2n1, n2p1, s1) \<and>
    placed d npartitions (ls @ [l]) n2n1 n2p1 s1 \<and> mult (gr s1) = mult (gr s)"
proof -
  let ?K = "copies d npartitions" and ?nm = "lp_name l"
  have u: "d = - 1 \<or> d = 0" "1 \<le> npartitions" "npartitions \<le> 1000" "?nm \<notin> lp_name ` set ls" "partition_dim l = d" "NUL \<notin> set ?nm"
    using assms(2) by (auto simp: uniform_def)
  have p: "wf_ngraph s" "names (gr s) = copy_names d npartitions ls" using assms(1) by (auto simp: placed_def)
  obtain xs where xs: "layer_nodes npartitions (n2n, n2p, s) l =
      (case fold add_named xs ([], s) of (as, s1) \<Rightarrow> Inr (n2n(?nm \<mapsto> as), n2p(?nm \<mapsto> l), s1))"
    "map fst xs = map (\<lambda>i. copy_name d ?nm (int i)) [0..<?K]" "\<forall>x \<in> set xs. \<exists>pid. snd (snd (snd x)) = l\<lparr>lp_partition_id := pid\<rparr>"
    using layer_nodes_eq [OF u(5,1,2)] by blast
  have len: "length xs = ?K" using arg_cong [OF xs(2), of length] by simp
  have nth: "fst (xs ! i) = copy_name d ?nm (int i)" if "i < ?K" for i
    using arg_cong [OF xs(2), of "\<lambda>ys. ys ! i"] that len by simp
  have dist: "distinct (map fst xs)" unfolding xs(2) distinct_map using copy_name_inj [OF _ _ u(3)] by (auto simp: inj_on_def)
  have new: "set (map fst xs) \<inter> names (gr s) = {}" unfolding xs(2) p(2) using copy_name_inj [OF _ _ u(3)] u(4)
    by (auto simp: copy_names_def image_iff)
  have "set (map fst xs) = {copy_name d ?nm (int i) | i. i < ?K}" unfolding xs(2) by auto
  then have "fst x \<in> {copy_name d ?nm (int i) | i. i < ?K}" if "x \<in> set xs" for x
    using that imageI [OF that, of fst] unfolding list.set_map by blast
  then have nul: "\<forall>x \<in> set xs. NUL \<notin> set (fst x)" using copy_name_chars(1) [OF _ u(6)] by fastforce
  obtain bs s1 where r: "fold add_named xs ([], s) = (bs, s1)" "wf_ngraph s1" "extends s s1"
    "names (gr s1) = names (gr s) \<union> set (map fst xs)" "mult (gr s1) = mult (gr s)" "length bs = length xs"
    "\<forall>i < length xs. name2node (gr s1) (fst (xs ! i)) = Some (bs ! i) \<and> proto_of s1 (bs ! i) = Inr (snd (snd (snd (xs ! i))))"
    using add_nodes_spec [OF p(1) dist new nul, of "[]"] by auto
  have "placed d npartitions (ls @ [l]) (n2n(?nm \<mapsto> bs)) (n2p(?nm \<mapsto> l)) s1"
    unfolding placed_def
  proof (intro conjI ballI)
    show "names (gr s1) = copy_names d npartitions (ls @ [l])"
      using r(4) p(2) \<open>set (map fst xs) = _\<close> by (simp add: copy_names_Cons)
    fix l1 assume "l1 \<in> set (ls @ [l])"
    then consider "l1 = l" | "l1 \<in> set ls" "lp_name l1 \<noteq> ?nm" using u(4) by (metis (no_types, lifting) Un_iff empty_iff imageI insert_iff list.set(1,2) set_append)
    then show "(n2p(?nm \<mapsto> l)) (lp_name l1) = Some l1" and "\<exists>as. (n2n(?nm \<mapsto> bs)) (lp_name l1) = Some as \<and> length as = ?K \<and>
        (\<forall>i < ?K. name2node (gr s1) (copy_name d (lp_name l1) (int i)) = Some (as ! i) \<and>
          (\<exists>pid. proto_of s1 (as ! i) = Inr (l1\<lparr>lp_partition_id := pid\<rparr>)))"
      using assms(1) r(3,6,7) nth len xs(3) unfolding placed_def extends_def by (cases; fastforce)+
  qed (use r(2) in blast)
  then show ?thesis using xs(1) r(1,5) by auto
qed

lemma place_layers:
  assumes "placed d npartitions ls0 n2n n2p s" and "uniform d npartitions (ls0 @ ls)"
  shows "\<exists>n2n1 n2p1 s1. foldR (layer_nodes npartitions) (n2n, n2p, s) ls = Inr (n2n1, n2p1, s1) \<and>
    placed d npartitions (ls0 @ ls) n2n1 n2p1 s1 \<and> mult (gr s1) = mult (gr s)"
  using assms
proof (induction ls arbitrary: ls0 n2n n2p s)
  case (Cons l ls)
  obtain n2n1 n2p1 s1 where 1: "layer_nodes npartitions (n2n, n2p, s) l = Inr (n2n1, n2p1, s1)"
    "placed d npartitions (ls0 @ [l]) n2n1 n2p1 s1" "mult (gr s1) = mult (gr s)"
    using place_layer [OF Cons.prems] by blast
  then show ?case using Cons.IH [OF 1(2)] Cons.prems(2) by auto
qed auto


lemma mult_new: "mult (gr (ngraph_new :: 'f ngraph)) x y = 0"
  by (simp add: ngraph_new_def mult_def Graph_new_def)

lemma placed_new: "placed d npartitions [] Map.empty Map.empty ngraph_new"
  by (auto simp: placed_def ngraph_new_def wf_ngraph_def wf_graph_new [unfolded Graph_new_def] copy_names_def names_def mult_def Graph_new_def)

lemma placed_same:
  assumes "placed d npartitions ls n2n n2p s" and "same_nodes s s1" and "wf_graph (gr s1)"
  shows "placed d npartitions ls n2n n2p s1"
  using assms(1) wf_ngraph_same [OF _ assms(2,3)] same_nodesD(1,2,4) [OF assms(2)] unfolding placed_def by simp

text \<open>The edges that one source of a layer adds, and that all sources of all layers add.\<close>

definition src_edges :: "(string \<rightharpoonup> nat list) \<Rightarrow> string \<Rightarrow> string \<Rightarrow> (nat \<times> nat) list" where
  "src_edges n2n x y = zip (the (n2n x)) (the (n2n y))"

definition conf_edges :: "(string \<rightharpoonup> nat list) \<Rightarrow> 'f LayerProto list \<Rightarrow> (nat \<times> nat) list" where
  "conf_edges n2n ls = concat (map (\<lambda>l. concat (map (\<lambda>x. src_edges n2n x (lp_name l)) (lp_srclayers l))) ls)"

lemma connect_src_uniform:
  assumes "placed d npartitions ls n2n n2p s0" and "uniform d npartitions ls" and "l \<in> set ls" and "x \<in> set (lp_srclayers l)"
  shows "connect_src n2n n2p l s x = Inr (fold (\<lambda>(a, b). add_edge a b) (src_edges n2n x (lp_name l)) s)"
proof -
  have u: "d = - 1 \<or> d = 0" "partition_dim l = d" "registered (lp_type l)" "x \<in> lp_name ` set ls"
    using assms(2-4) by (auto simp: uniform_def)
  obtain l1 where l1: "l1 \<in> set ls" "lp_name l1 = x" "partition_dim l1 = d" using u(4) assms(2) by (auto simp: uniform_def)
  obtain as where as: "n2n (lp_name l) = Some as" "length as = copies d npartitions" using assms(1,3) by (fastforce simp: placed_def)
  obtain bs where bs: "n2n x = Some bs" "length bs = copies d npartitions" "n2p x = Some l1"
    using assms(1) l1(1,2) by (fastforce simp: placed_def)
  have one: "\<exists>a. xs = [a]" if "length xs = copies (- 1) npartitions" for xs :: "nat list"
    using that by (auto simp: copies_def length_Suc_conv)
  show ?thesis using u as bs l1(3) one [of as] one [of bs]
    by (auto simp: connect_src_def factory_Create_def Let_def src_edges_def idxR_def)
qed

lemma connect_layers_uniform:
  assumes "placed d npartitions ls n2n n2p s0" and "uniform d npartitions ls" and "set ms \<subseteq> set ls"
  shows "foldR (connect_layer n2n n2p) s ms = Inr (fold (\<lambda>(a, b). add_edge a b) (conf_edges n2n ms) s)"
  using assms(3)
proof (induction ms arbitrary: s)
  case (Cons l ms)
  have "foldR (connect_src n2n n2p l) s xs = Inr (fold (\<lambda>(a, b). add_edge a b) (concat (map (\<lambda>x. src_edges n2n x (lp_name l)) xs)) s)"
    if "set xs \<subseteq> set (lp_srclayers l)" for xs s
    using that
  proof (induction xs arbitrary: s)
    case (Cons x xs)
    then show ?case using connect_src_uniform [OF assms(1,2), of l x] \<open>set (l # ms) \<subseteq> set ls\<close> by simp
  qed simp
  then show ?case using Cons by (simp add: connect_layer_def conf_edges_def)
qed (simp add: conf_edges_def)

lemma count_list_concat: "count_list (concat xss) c = (\<Sum>xs\<leftarrow>xss. count_list xs c)"
  by (induction xss) (auto simp: count_list_append)

lemma placed_addr:
  assumes "placed d npartitions ls n2n n2p s" and "l \<in> set ls" and "i < copies d npartitions"
  shows "name2node (gr s) (copy_name d (lp_name l) (int i)) = Some (the (n2n (lp_name l)) ! i)"
    and "length (the (n2n (lp_name l))) = copies d npartitions"
    and "\<exists>pid. proto_of s (the (n2n (lp_name l)) ! i) = Inr (l\<lparr>lp_partition_id := pid\<rparr>)"
  using assms by (fastforce simp: placed_def)+

lemma placed_addr_inj:
  assumes "placed d npartitions ls n2n n2p s" and "uniform d npartitions ls" and "l \<in> set ls" and "l1 \<in> set ls"
    and "i < copies d npartitions" and "j < copies d npartitions"
  shows "the (n2n (lp_name l)) ! i = the (n2n (lp_name l1)) ! j \<longleftrightarrow> lp_name l = lp_name l1 \<and> i = j"
proof -
  have "name2node (gr s) (copy_name d (lp_name l) (int i)) = name2node (gr s) (copy_name d (lp_name l1) (int j)) \<longleftrightarrow>
      copy_name d (lp_name l) (int i) = copy_name d (lp_name l1) (int j)"
    using placed_addr(1) [OF assms(1)] assms(3-6) name2node_eq_iff [of "gr s"] assms(1) by (metis placed_def wf_ngraph_graph)
  then show ?thesis using copy_name_inj [OF assms(5,6)] placed_addr(1) [OF assms(1)] assms(2-6) by (auto simp: uniform_def)
qed

lemma count_zip:
  fixes as bs :: "nat list"
  assumes "length as = length bs" and "distinct as"
  shows "count_list (zip as bs) (a, b) = (if \<exists>i < length as. as ! i = a \<and> bs ! i = b then 1 else 0)"
proof -
  have "distinct (zip as bs)" using assms(2) by (rule distinct_zipI1)
  moreover have "distinct xs \<Longrightarrow> count_list xs c = (if c \<in> set xs then 1 else 0)" for xs :: "(nat \<times> nat) list" and c
    by (induction xs) auto
  ultimately have "count_list (zip as bs) (a, b) = (if (a, b) \<in> set (zip as bs) then 1 else 0)" by blast
  then show ?thesis using assms(1) by (auto simp: in_set_zip)
qed


text \<open>How often a layer takes another as its source, and what the connected graph is.\<close>

lemma count_conf_edges:
  assumes "placed d npartitions ls n2n n2p s" and "uniform d npartitions ls" and "l \<in> set ls" and "l1 \<in> set ls"
    and "i < copies d npartitions" and "j < copies d npartitions"
  shows "count_list (conf_edges n2n ls) (the (n2n (lp_name l)) ! i, the (n2n (lp_name l1)) ! j) =
    (if i = j then count_list (lp_srclayers l1) (lp_name l) else 0)"
proof -
  let ?ad = "\<lambda>x. the (n2n x)" and ?K = "copies d npartitions"
  have one: "count_list (src_edges n2n x (lp_name m)) (?ad (lp_name l) ! i, ?ad (lp_name l1) ! j) =
      (if x = lp_name l \<and> lp_name m = lp_name l1 \<and> i = j then 1 else 0)" if m: "m \<in> set ls" and x: "x \<in> set (lp_srclayers m)" for m x
  proof -
    obtain k where k: "k \<in> set ls" "lp_name k = x" using assms(2) m x by (auto simp: uniform_def)
    have dist: "distinct (?ad x)"
      using placed_addr_inj [OF assms(1,2) k(1) k(1)] placed_addr(2) [OF assms(1) k(1) assms(5)] k(2) by (auto simp: distinct_conv_nth)
    have len: "length (?ad x) = ?K" "length (?ad (lp_name m)) = ?K" using placed_addr(2) [OF assms(1) _ assms(5)] k m by auto
    have "(\<exists>q < ?K. ?ad x ! q = ?ad (lp_name l) ! i \<and> ?ad (lp_name m) ! q = ?ad (lp_name l1) ! j) \<longleftrightarrow>
        x = lp_name l \<and> lp_name m = lp_name l1 \<and> i = j"
      using placed_addr_inj [OF assms(1,2) k(1) assms(3) _ assms(5)] placed_addr_inj [OF assms(1,2) m assms(4) _ assms(6)] k(2) assms(5,6) by auto
    then show ?thesis using count_zip [OF _ dist, of "?ad (lp_name m)"] len by (simp add: src_edges_def)
  qed
  have layer: "count_list (concat (map (\<lambda>x. src_edges n2n x (lp_name m)) xs)) (?ad (lp_name l) ! i, ?ad (lp_name l1) ! j) =
      (if lp_name m = lp_name l1 \<and> i = j then count_list xs (lp_name l) else 0)" if "m \<in> set ls" "set xs \<subseteq> set (lp_srclayers m)" for m xs
    using that(2) one [OF that(1)] by (induction xs) (auto simp: count_list_append)
  have "distinct (map lp_name ms) \<Longrightarrow> set ms \<subseteq> set ls \<Longrightarrow>
      count_list (conf_edges n2n ms) (?ad (lp_name l) ! i, ?ad (lp_name l1) ! j) =
      (if l1 \<in> set ms \<and> i = j then count_list (lp_srclayers l1) (lp_name l) else 0)" for ms
  proof (induction ms)
    case (Cons m ms)
    have "lp_name m = lp_name l1 \<longleftrightarrow> m = l1" using assms(2,4) Cons.prems(2) by (auto simp: uniform_def distinct_map inj_on_def)
    moreover have "l1 \<in> set ms \<Longrightarrow> m \<noteq> l1" using Cons.prems(1) by auto
    ultimately show ?case using Cons layer [of m "lp_srclayers m"] by (auto simp: conf_edges_def count_list_append)
  qed (simp add: conf_edges_def)
  then show ?thesis using assms(2,4) by (auto simp: uniform_def)
qed

lemma connected_graph_uniform:
  fixes ls :: "'f LayerProto list"
  assumes "uniform d npartitions ls"
  shows "\<exists>n2n n2p s. connected_graph ls npartitions = Inr s \<and> placed d npartitions ls n2n n2p s \<and>
    (\<forall>l \<in> set ls. \<forall>l1 \<in> set ls. \<forall>i < copies d npartitions. \<forall>j < copies d npartitions.
      mult (gr s) (copy_name d (lp_name l) (int i)) (copy_name d (lp_name l1) (int j)) =
      (if i = j then count_list (lp_srclayers l1) (lp_name l) else 0))"
proof -
  obtain n2n n2p s0 where 0: "foldR (layer_nodes npartitions) (Map.empty, Map.empty, ngraph_new) ls = Inr (n2n, n2p, s0)"
    "placed d npartitions ls n2n n2p s0" "mult (gr s0) = mult (gr (ngraph_new :: 'f ngraph))"
    using place_layers [OF placed_new, of d npartitions ls] assms by auto
  let ?s = "fold (\<lambda>(a, b). add_edge a b) (conf_edges n2n ls) s0"
  have run: "connected_graph ls npartitions = Inr ?s"
    using 0(1) connect_layers_uniform [OF 0(2) assms order_refl] by (simp add: connected_graph_def)
  have wf0: "wf_ngraph s0" using 0(2) by (simp add: placed_def)
  have node: "the (n2n (lp_name l)) ! i \<in> set (nodes_ids (gr s0))" if "l \<in> set ls" "i < copies d npartitions" for l i
    using placed_addr(1) [OF 0(2) that] wf_ngraph_name [OF wf0] by auto
  have ends: "a \<in> set (nodes_ids (gr s0)) \<and> b \<in> set (nodes_ids (gr s0))" if ab: "(a, b) \<in> set (conf_edges n2n ls)" for a b
  proof -
    obtain l x where l: "l \<in> set ls" "x \<in> set (lp_srclayers l)" "(a, b) \<in> set (src_edges n2n x (lp_name l))"
      using ab by (auto simp: conf_edges_def)
    obtain k where k: "k \<in> set ls" "lp_name k = x" using assms l by (auto simp: uniform_def)
    have "0 < copies d npartitions" using assms copies_pos by (auto simp: uniform_def)
    then obtain i where "i < copies d npartitions" "a = the (n2n x) ! i" "b = the (n2n (lp_name l)) ! i"
      using l(3) placed_addr(2) [OF 0(2)] k l(1) by (fastforce simp: src_edges_def in_set_zip)
    then show ?thesis using node k l(1) by auto
  qed
  have s: "wf_graph (gr ?s)" "same_nodes s0 ?s" "arc ?s a b = arc s0 a b + count_list (conf_edges n2n ls) (a, b)" for a b
    using add_edges_spec [OF wf_ngraph_graph [OF wf0], of "conf_edges n2n ls"] ends by auto
  have placed: "placed d npartitions ls n2n n2p ?s" by (rule placed_same [OF 0(2) s(2,1)])
  have "mult (gr ?s) (copy_name d (lp_name l) (int i)) (copy_name d (lp_name l1) (int j)) =
      (if i = j then count_list (lp_srclayers l1) (lp_name l) else 0)"
    if "l \<in> set ls" "l1 \<in> set ls" "i < copies d npartitions" "j < copies d npartitions" for l l1 i j
    using mult_arc [OF placed_addr(1) [OF placed that(1,3)] placed_addr(1) [OF placed that(2,4)]]
      mult_arc [OF placed_addr(1) [OF 0(2) that(1,3)] placed_addr(1) [OF 0(2) that(2,4)]] s(3) 0(3) mult_new [where 'f = 'f, of "copy_name d (lp_name l) (int i)" "copy_name d (lp_name l1) (int j)"]
      count_conf_edges [OF 0(2) assms that] by simp
  then show ?thesis using run placed by blast
qed

section \<open>Sorting and splitting\<close>

lemma mult_not_name: "u \<notin> names g \<or> v \<notin> names g \<Longrightarrow> mult g u v = 0"
  by (auto simp: mult_def names_def dom_def split: option.splits)

text \<open>A graph whose edges descend in a well-founded relation on the names has no cycle.\<close>

lemma acyclic_by_rank:
  assumes "wf_graph g" and "wf R" and "\<And>x y. 0 < mult g x y \<Longrightarrow> (f x, f y) \<in> R"
  shows "acyclic (edge g)"
proof (rule wf_acyclic, rule wf_subset)
  show "wf (inv_image R (\<lambda>a. f (node_name (nd g a))))" using assms(2) by (rule wf_inv_image)
  show "edge g \<subseteq> inv_image R (\<lambda>a. f (node_name (nd g a)))"
  proof
    fix e assume e: "e \<in> edge g"
    obtain a b where ab: "e = (a, b)" "b \<in> set (nodes_ids g)" "a \<in> set (srcnodes (nd g b))" using e by (auto simp: edge_def)
    have a: "a \<in> set (nodes_ids g)" using wf_graphD(4) [OF assms(1) ab(2)] ab(3) by blast
    have "b \<in> set (dstnodes (nd g a))" using wf_graph_edge_iff [OF assms(1) a ab(2)] ab(3) by blast
    then have "0 < mult g (node_name (nd g a)) (node_name (nd g b))"
      using wf_graphD(2) [OF assms(1) a] wf_graphD(2) [OF assms(1) ab(2)] count_list_0_iff [of "dstnodes (nd g a)" b] by (auto simp: mult_def)
    then show "e \<in> inv_image R (\<lambda>a. f (node_name (nd g a)))" using assms(3) ab(1) by auto
  qed
qed

lemma wf_nodes_perm: "wf_graph g \<Longrightarrow> distinct out \<Longrightarrow> set out = set (nodes_ids g) \<Longrightarrow> wf_graph (g\<lparr>nodes_ids := out\<rparr>)"
  by (simp add: wf_graph_def)

lemma sort_graph_acyclic:
  assumes "wf_ngraph s" and "acyclic (edge (gr s))"
  shows "\<exists>out. sort_graph s = Some (Inr (s\<lparr>gr := (gr s)\<lparr>nodes_ids := out\<rparr>\<rparr>)) \<and> wf_ngraph (s\<lparr>gr := (gr s)\<lparr>nodes_ids := out\<rparr>\<rparr>) \<and>
    distinct out \<and> set out = set (nodes_ids (gr s)) \<and> topo (gr s) out"
proof -
  obtain out where out: "Sort (gr s) = Some (Inr ((gr s)\<lparr>nodes_ids := out\<rparr>))" "distinct out" "set out = set (nodes_ids (gr s))" "topo (gr s) out"
    using Sort_acyclic [OF wf_ngraph_graph [OF assms(1)] assms(2)] by blast
  then have "wf_ngraph (s\<lparr>gr := (gr s)\<lparr>nodes_ids := out\<rparr>\<rparr>)"
    using assms(1) wf_nodes_perm [OF wf_ngraph_graph [OF assms(1)] out(2,3)] by (simp add: wf_ngraph_def)
  then show ?thesis using out by (auto simp: sort_graph_def)
qed

text \<open>A node that gets a split node behind it.\<close>

definition splits :: "'f ngraph \<Rightarrow> nat \<Rightarrow> bool" where
  "splits s a \<longleftrightarrow> 1 < length (dstnodes (nd (gr s) a)) \<and>
     (case proto_of s a of Inl _ \<Rightarrow> False | Inr lp \<Rightarrow> dst_layer_connection (lp_type lp) = kOneToOne)"

lemma split_node_none:
  assumes "proto_of s a = Inr lp" and "registered (lp_type lp)" and "\<not> splits s a"
  shows "split_node s a = Inr s"
  using assms by (auto simp: split_node_def factory_Create_def splits_def Let_def)

lemma SplitNode_edges:
  assumes "wf_ngraph s" and "name2node (gr s) x = Some a" and "proto_of s a = Inr lp" and "x @ ''+'' \<notin> names (gr s)"
    and "set dsts \<subseteq> set (nodes_ids (gr s))"
  shows "\<exists>b s1. SplitNode a dsts s = Inr (b, s1) \<and> wf_ngraph s1 \<and> extends s s1 \<and> b \<notin> set (nodes_ids (gr s)) \<and>
    name2node (gr s1) = (name2node (gr s))(x @ ''+'' \<mapsto> b) \<and> (\<exists>lp1. proto_of s1 b = Inr lp1 \<and> lp_type lp1 = kSplit) \<and>
    (\<forall>c \<in> insert b (set (nodes_ids (gr s))). \<forall>e. arc s1 c e =
       (if c = b then count_list dsts e else arc s c e + (if c = a \<and> e = b then 1 else 0))) \<and>
    (\<forall>c \<in> set (nodes_ids (gr s)). c \<noteq> a \<longrightarrow> dstnodes (nd (gr s1) c) = dstnodes (nd (gr s) c))"
proof -
  let ?nm = "x @ ''+''" and ?pid = "lp_partition_id lp"
  let ?lp = "LayerProto_default\<lparr>lp_name := ?nm, lp_type := kSplit, lp_partition_id := ?pid\<rparr>"
  have a: "a \<in> set (nodes_ids (gr s))" "node_name (nd (gr s) a) = x" using assms(2) wf_ngraph_name [OF assms(1)] by auto
  have nul: "NUL \<notin> set ?nm" using wf_graphD(3) [OF wf_ngraph_graph [OF assms(1)] a(1)] a(2) by simp
  define b where "b = fst (add_node ?nm (''##'' @ ?nm) ?pid ?lp s)"
  define t where "t = snd (add_node ?nm (''##'' @ ?nm) ?pid ?lp s)"
  note n = add_node_extends [OF assms(1,4) nul, where orig = "''##'' @ ?nm" and pid = ?pid and lp = ?lp, folded b_def t_def]
  let ?ps = "(a, b) # map (Pair b) dsts"
  let ?s1 = "fold (\<lambda>(a, b). add_edge a b) ?ps t"
  have run: "SplitNode a dsts s = Inr (b, ?s1)"
    using assms(3) a(2) by (simp add: SplitNode_def Let_def fold_add_edge case_prod_unfold b_def t_def)
  have "\<forall>(c, e) \<in> set ?ps. c \<in> set (nodes_ids (gr t)) \<and> e \<in> set (nodes_ids (gr t))" using n(7) a(1) assms(5) by auto
  then have s1: "wf_graph (gr ?s1)" "same_nodes t ?s1" "\<And>c e. arc ?s1 c e = arc t c e + count_list ?ps (c, e)"
    using add_edges_spec [OF wf_ngraph_graph [OF n(1)], of ?ps] by blast+
  have cnt: "count_list (map (Pair b) dsts) (c, e) = (if c = b then count_list dsts e else 0)" for c e by (induction dsts) auto
  have arcs: "arc ?s1 c e = (if c = b then count_list dsts e else arc s c e + (if c = a \<and> e = b then 1 else 0))"
    if "c \<in> insert b (set (nodes_ids (gr s)))" for c e
  proof -
    have "arc t c e = (if c = b then 0 else arc s c e)" using that n(8,9,10) by (auto simp: arc_def)
    then show ?thesis using s1(3) [of c e] cnt [of c e] n(10) a(1) by auto
  qed
  have keep: "dstnodes (nd (gr (fold (\<lambda>(a, b). add_edge a b) qs u)) c) = dstnodes (nd (gr u) c)" if "c \<notin> fst ` set qs" for qs u c
    using that by (induction qs arbitrary: u) (auto simp: add_edge_def)
  have "dstnodes (nd (gr ?s1) c) = dstnodes (nd (gr s) c)" if "c \<in> set (nodes_ids (gr s))" "c \<noteq> a" for c
    using keep [of c ?ps t] that n(9,10) by fastforce
  moreover have "name2node (gr ?s1) = (name2node (gr s))(?nm \<mapsto> b)"
    using same_nodesD(2) [OF s1(2)] add_node_spec(1,4) [OF wf_ngraph_graph [OF assms(1)] assms(4) nul, where orig = "''##'' @ ?nm" and pid = ?pid and lp = ?lp]
    by (simp add: b_def t_def)
  moreover have "proto_of ?s1 b = Inr ?lp" using same_nodesD(1) [OF s1(2)] n(6) by simp
  ultimately show ?thesis
    using run wf_ngraph_same [OF n(1) s1(2,1)] extends_trans [OF n(2) extends_same [OF s1(2)]] n(10) arcs
    by (intro exI [of "\<lambda>b. \<exists>s1. _ b s1" b] exI [of _ ?s1]) auto
qed


lemma remove_edges_other:
  assumes "foldR (remove_edge a) s bs = Inr s1" and "c \<noteq> a"
  shows "dstnodes (nd (gr s1) c) = dstnodes (nd (gr s) c)"
  using assms(1)
proof (rule foldR_invariant [where P = "\<lambda>t. dstnodes (nd (gr t) c) = dstnodes (nd (gr s) c)"])
  show "dstnodes (nd (gr t1) c) = dstnodes (nd (gr s) c)"
    if "dstnodes (nd (gr t) c) = dstnodes (nd (gr s) c)" "remove_edge a t b = Inr t1" for t b t1
    using that assms(2) by (auto simp: remove_edge_def RemoveEdge_ptr_def RemoveDstNode_def RemoveSrcNode_def bindR_eq_Inr upd_node_def)
qed simp

lemma split_step:
  assumes "wf_ngraph s" and "name2node (gr s) x = Some a" and "proto_of s a = Inr lp" and "registered (lp_type lp)"
    and "x @ ''+'' \<notin> names (gr s)" and "splits s a"
  shows "\<exists>s1. split_node s a = Inr s1 \<and> wf_ngraph s1 \<and> extends s s1 \<and> names (gr s1) = insert (x @ ''+'') (names (gr s)) \<and>
    (\<forall>c \<in> set (nodes_ids (gr s)). c \<noteq> a \<longrightarrow> dstnodes (nd (gr s1) c) = dstnodes (nd (gr s) c)) \<and>
    (\<forall>u v. mult (gr s1) u v = (if u = x then (if v = x @ ''+'' then 1 else 0) else if u = x @ ''+'' then mult (gr s) x v else mult (gr s) u v))"
proof -
  let ?dsts = "dstnodes (nd (gr s) a)" and ?p = "x @ ''+''"
  have a: "a \<in> set (nodes_ids (gr s))" using assms(2) wf_ngraph_name [OF assms(1)] by auto
  obtain t where t: "foldR (remove_edge a) s ?dsts = Inr t" "wf_graph (gr t)" "same_nodes s t"
    "\<forall>c b. arc t c b = arc s c b - (if c = a then count_list ?dsts b else 0)"
    using remove_edges_spec [OF wf_ngraph_graph [OF assms(1)] a, of ?dsts] by (auto simp: arc_def)
  have wft: "wf_ngraph t" using wf_ngraph_same [OF assms(1) t(3,2)] .
  have xt: "name2node (gr t) x = Some a" "proto_of t a = Inr lp" "?p \<notin> names (gr t)" "set ?dsts \<subseteq> set (nodes_ids (gr t))"
    using assms(2,3,5) same_nodesD(1-4) [OF t(3)] wf_graphD(5) [OF wf_ngraph_graph [OF assms(1)] a] by simp_all
  obtain b s1 where s1: "SplitNode a ?dsts t = Inr (b, s1)" "wf_ngraph s1" "extends t s1" "b \<notin> set (nodes_ids (gr t))"
    "name2node (gr s1) = (name2node (gr t))(?p \<mapsto> b)"
    "\<forall>c \<in> insert b (set (nodes_ids (gr t))). \<forall>e. arc s1 c e = (if c = b then count_list ?dsts e else arc t c e + (if c = a \<and> e = b then 1 else 0))"
    "\<forall>c \<in> set (nodes_ids (gr t)). c \<noteq> a \<longrightarrow> dstnodes (nd (gr s1) c) = dstnodes (nd (gr t) c)"
    using SplitNode_edges [OF wft xt] by blast
  have nm: "name2node (gr s1) = (name2node (gr s))(?p \<mapsto> b)" "b \<notin> set (nodes_ids (gr s))" "names (gr s1) = insert ?p (names (gr s))"
    using s1(4,5) same_nodesD(2,3) [OF t(3)] by (auto simp: names_def)
  have conn: "dst_layer_connection (lp_type lp) = kOneToOne" "1 < length ?dsts" using assms(3,6) by (auto simp: splits_def)
  have run: "split_node s a = Inr s1"
    using assms(3,4) conn t(1) s1(1) by (simp add: split_node_def factory_Create_def Let_def)
  have fresh: "arc s c b = 0" if "c \<in> set (nodes_ids (gr s))" for c
    using wf_graphD(5) [OF wf_ngraph_graph [OF assms(1)] that] nm(2) by (auto simp: arc_def count_list_0_iff)
  have arcs: "arc s1 c e = (if c = b then arc s a e else if c = a then (if e = b then 1 else 0) else arc s c e)"
    if "c \<in> insert b (set (nodes_ids (gr s)))" for c e
    using s1(6) t(4) that a fresh [OF a] nm(2) same_nodesD(3) [OF t(3)] by (auto simp: arc_def)
  have mult: "mult (gr s1) u v = (if u = x then (if v = ?p then 1 else 0) else if u = ?p then mult (gr s) x v else mult (gr s) u v)" for u v
  proof (cases "u \<in> names (gr s1) \<and> v \<in> names (gr s1)")
    case False
    then show ?thesis using mult_not_name [of u "gr s1" v] mult_not_name [of x "gr s" v] mult_not_name [of u "gr s" v] nm(3) assms(2)
      by (auto simp: names_def)
  next
    case True
    then obtain c e where ce: "name2node (gr s1) u = Some c" "name2node (gr s1) v = Some e" by (auto simp: names_def)
    have c: "if u = ?p then c = b else name2node (gr s) u = Some c \<and> c \<in> set (nodes_ids (gr s))"
      "if v = ?p then e = b else name2node (gr s) v = Some e \<and> e \<in> set (nodes_ids (gr s))"
      using ce nm(1) wf_ngraph_name [OF assms(1)] by (auto split: if_splits)
    have inj: "u \<noteq> ?p \<Longrightarrow> c = a \<longleftrightarrow> u = x" using c(1) assms(2) name2node_eq_iff [OF wf_ngraph_graph [OF assms(1)]] by auto
    have px: "x \<noteq> ?p" by simp
    have m: "mult (gr s1) u v = arc s1 c e" using mult_arc [OF ce] .
    show ?thesis
    proof (cases "v = ?p")
      case True
      then have "mult (gr s) w v = 0" for w using mult_not_name [of w "gr s" v] assms(5) by auto
      then show ?thesis using m arcs [of c e] c inj True fresh nm(2) a px by (auto split: if_splits)
    next
      case False
      then have "mult (gr s) x v = arc s a e" "u \<noteq> ?p \<Longrightarrow> mult (gr s) u v = arc s c e"
        using mult_arc [OF assms(2)] mult_arc [of s u c v e] c by (auto split: if_splits)
      then show ?thesis using m arcs [of c e] c inj False nm(2) px by (auto split: if_splits)
    qed
  qed
  have "\<forall>c \<in> set (nodes_ids (gr s)). c \<noteq> a \<longrightarrow> dstnodes (nd (gr s1) c) = dstnodes (nd (gr s) c)"
    using s1(7) remove_edges_other [OF t(1)] same_nodesD(3) [OF t(3)] by simp
  then show ?thesis using run s1(2) extends_trans [OF extends_same [OF t(3)] s1(3)] nm(3) mult by blast
qed


text \<open>The graph after the nodes in \<open>P\<close> have been handled: split names have one edge, their split nodes have the old ones.\<close>

definition split_names :: "'f ngraph \<Rightarrow> nat set \<Rightarrow> string set" where
  "split_names s P = {x. \<exists>a \<in> P. name2node (gr s) x = Some a \<and> splits s a}"

definition split_mult :: "'f ngraph \<Rightarrow> nat set \<Rightarrow> string \<Rightarrow> string \<Rightarrow> nat" where
  "split_mult s P u v =
     (if u \<in> split_names s P then (if v = u @ ''+'' then 1 else 0)
      else if \<exists>x \<in> split_names s P. u = x @ ''+'' then mult (gr s) (butlast u) v
      else mult (gr s) u v)"

definition split_state :: "'f ngraph \<Rightarrow> nat set \<Rightarrow> 'f ngraph \<Rightarrow> bool" where
  "split_state s0 P s \<longleftrightarrow> wf_ngraph s \<and> extends s0 s \<and>
     names (gr s) = names (gr s0) \<union> (\<lambda>x. x @ ''+'') ` split_names s0 P \<and>
     (\<forall>c \<in> set (nodes_ids (gr s0)) - P. dstnodes (nd (gr s) c) = dstnodes (nd (gr s0) c)) \<and>
     (\<forall>u v. mult (gr s) u v = split_mult s0 P u v)"

text \<open>A graph whose names leave room for split nodes and whose types are known.\<close>

definition splittable :: "'f ngraph \<Rightarrow> bool" where
  "splittable s \<longleftrightarrow> wf_ngraph s \<and> (\<forall>x \<in> names (gr s). CHR ''+'' \<notin> set x) \<and>
     (\<forall>x a. name2node (gr s) x = Some a \<longrightarrow> (\<exists>lp. proto_of s a = Inr lp \<and> registered (lp_type lp)))"

lemma split_state_step:
  assumes "splittable s0" and "split_state s0 P s" and "a \<in> set (nodes_ids (gr s0))" and "a \<notin> P"
  shows "\<exists>s1. split_node s a = Inr s1 \<and> split_state s0 (insert a P) s1"
proof -
  define x where "x = node_name (nd (gr s0) a)"
  have wf0: "wf_ngraph s0" using assms(1) by (simp add: splittable_def)
  have x: "name2node (gr s0) x = Some a" using wf_ngraph_name [OF wf0] assms(3) x_def by simp
  have plus: "CHR ''+'' \<notin> set y" if "y \<in> names (gr s0)" for y using assms(1) that by (auto simp: splittable_def)
  have xn: "x \<in> names (gr s0)" using x by (auto simp: names_def)
  obtain lp where lp: "proto_of s0 a = Inr lp" "registered (lp_type lp)" using assms(1) x unfolding splittable_def by blast
  have st: "wf_ngraph s" "extends s0 s" "names (gr s) = names (gr s0) \<union> (\<lambda>x. x @ ''+'') ` split_names s0 P"
    "\<forall>c \<in> set (nodes_ids (gr s0)) - P. dstnodes (nd (gr s) c) = dstnodes (nd (gr s0) c)" "\<forall>u v. mult (gr s) u v = split_mult s0 P u v"
    using assms(2) unfolding split_state_def by blast+
  have xs: "name2node (gr s) x = Some a" "proto_of s a = Inr lp" using st(2) x lp(1) by (auto simp: extends_def)
  have spl: "splits s a \<longleftrightarrow> splits s0 a" using st(4) assms(3,4) xs(2) lp(1) by (simp add: splits_def)
  have sub: "y \<in> names (gr s0)" if "y \<in> split_names s0 Q" for y Q using that by (auto simp: split_names_def names_def)
  have only: "y \<in> split_names s0 (insert a P) \<longleftrightarrow> y \<in> split_names s0 P \<or> (y = x \<and> splits s0 a)" for y
    using x name2node_eq_iff [OF wf_ngraph_graph [OF wf0]] by (auto simp: split_names_def)
  have xP: "x \<notin> split_names s0 P" using x assms(4) by (auto simp: split_names_def)
  have new: "x @ ''+'' \<notin> names (gr s)"
    using st(3) plus [of "x @ ''+''"] xP by auto
  show ?thesis
  proof (cases "splits s0 a")
    case False
    then have "split_node s a = Inr s" using split_node_none [OF xs(2) lp(2)] spl by blast
    moreover have "split_names s0 (insert a P) = split_names s0 P" using only False by blast
    ultimately show ?thesis using st by (simp add: split_state_def split_mult_def)
  next
    case True
    obtain s1 where s1: "split_node s a = Inr s1" "wf_ngraph s1" "extends s s1" "names (gr s1) = insert (x @ ''+'') (names (gr s))"
      "\<forall>c \<in> set (nodes_ids (gr s)). c \<noteq> a \<longrightarrow> dstnodes (nd (gr s1) c) = dstnodes (nd (gr s) c)"
      "\<forall>u v. mult (gr s1) u v = (if u = x then (if v = x @ ''+'' then 1 else 0) else if u = x @ ''+'' then mult (gr s) x v else mult (gr s) u v)"
      using split_step [OF st(1) xs lp(2) new] spl True by blast
    have names: "split_names s0 (insert a P) = insert x (split_names s0 P)" using only True by blast
    have "c \<in> set (nodes_ids (gr s))" if "c \<in> set (nodes_ids (gr s0))" for c
    proof -
      have "name2node (gr s) (node_name (nd (gr s0) c)) = Some c"
        using wf_ngraph_name [OF wf0, of "node_name (nd (gr s0) c)" c] that st(2) unfolding extends_def by blast
      then show ?thesis using wf_ngraph_name [OF st(1)] by blast
    qed
    then have dst: "\<forall>c \<in> set (nodes_ids (gr s0)) - insert a P. dstnodes (nd (gr s1) c) = dstnodes (nd (gr s0) c)"
      using s1(5) st(4) by simp
    have x_mult: "mult (gr s) x v = mult (gr s0) x v" for v
      using st(5) xP plus [OF xn] sub by (auto simp: split_mult_def)
    have xp: "x @ ''+'' \<notin> split_names s0 P" using plus [OF sub, of "x @ ''+''" P] by auto
    have "mult (gr s1) u v = split_mult s0 (insert a P) u v" for u v
      using xp s1(6) st(5) x_mult xP plus [OF xn] plus [OF sub] unfolding split_mult_def names by auto
    then show ?thesis using s1(1-4) st(3) names dst extends_trans [OF st(2) s1(3)] unfolding split_state_def by (intro exI [of _ s1]) auto
  qed
qed

lemma split_all:
  assumes "splittable s0" and "distinct as" and "set as \<subseteq> set (nodes_ids (gr s0))"
  shows "\<exists>s1. foldR split_node s0 as = Inr s1 \<and> split_state s0 (set as) s1"
proof -
  have start: "split_state s0 {} s0"
    using assms(1) by (auto simp: split_state_def split_mult_def split_names_def extends_refl splittable_def)
  have "\<exists>s1. foldR split_node s xs = Inr s1 \<and> split_state s0 (P \<union> set xs) s1"
    if "split_state s0 P s" "distinct xs" "set xs \<subseteq> set (nodes_ids (gr s0))" "set xs \<inter> P = {}" for P s xs
    using that
  proof (induction xs arbitrary: P s)
    case (Cons a xs)
    obtain s1 where s1: "split_node s a = Inr s1" "split_state s0 (insert a P) s1"
      using split_state_step [OF assms(1) Cons.prems(1), of a] Cons.prems(3,4) by auto
    then show ?case using Cons.IH [OF s1(2)] Cons.prems(2-4) by auto
  qed auto
  from this [OF start assms(2,3)] show ?thesis by simp
qed

text \<open>Both partition ids come from the same node, so the bridge stage changes nothing.\<close>

lemma bridge_node_none: "proto_of s a = Inr lp \<Longrightarrow> bridge_node s a = Inr s"
proof -
  assume lp: "proto_of s a = Inr lp"
  have "foldR (\<lambda>t d. bindR (proto_of t a) (\<lambda>lp2. let pid2 = lp_partition_id lp2 in
      if lp_partition_id lp \<noteq> pid2 then bindR (remove_edge a t d) (BridgeNodes a d) else Inr t)) s ds = Inr s" for ds
    using lp by (induction ds) auto
  then show ?thesis using lp by (simp add: bridge_node_def)
qed

lemma bridge_none: "\<forall>a \<in> set as. \<exists>lp. proto_of s a = Inr lp \<Longrightarrow> foldR bridge_node s as = Inr s"
  by (induction as) (auto simp: bridge_node_none)

section \<open>Properties of the graph\<close>

definition conf_rel :: "'f LayerProto list \<Rightarrow> (string \<times> string) set" where
  "conf_rel ls = {(x, lp_name l) | x l. l \<in> set ls \<and> x \<in> set (lp_srclayers l)}"

text \<open>A layer with several uses whose class serves only one destination.\<close>

definition fans_out :: "'f LayerProto list \<Rightarrow> 'f LayerProto \<Rightarrow> bool" where
  "fans_out ls l \<longleftrightarrow> dst_layer_connection (lp_type l) = kOneToOne \<and> 1 < (\<Sum>l1\<leftarrow>ls. count_list (lp_srclayers l1) (lp_name l))"

lemma wf_conf_rel: "acyclic (conf_rel ls) \<Longrightarrow> wf (conf_rel ls)"
proof (rule finite_acyclic_wf)
  have "conf_rel ls = (\<Union>l \<in> set ls. (\<lambda>x. (x, lp_name l)) ` set (lp_srclayers l))" by (auto simp: conf_rel_def)
  then show "finite (conf_rel ls)" by simp
qed

definition copied :: "int \<Rightarrow> int \<Rightarrow> 'f LayerProto list \<Rightarrow> 'f ngraph \<Rightarrow> bool" where
  "copied d npartitions ls s \<longleftrightarrow> wf_ngraph s \<and> names (gr s) = copy_names d npartitions ls \<and>
     (\<forall>l \<in> set ls. \<forall>i < copies d npartitions. \<exists>a pid. name2node (gr s) (copy_name d (lp_name l) (int i)) = Some a \<and>
        proto_of s a = Inr (l\<lparr>lp_partition_id := pid\<rparr>)) \<and>
     (\<forall>l \<in> set ls. \<forall>l1 \<in> set ls. \<forall>i < copies d npartitions. \<forall>j < copies d npartitions.
        mult (gr s) (copy_name d (lp_name l) (int i)) (copy_name d (lp_name l1) (int j)) =
        (if i = j then count_list (lp_srclayers l1) (lp_name l) else 0))"

lemma connected_copied:
  assumes "uniform d npartitions ls"
  shows "\<exists>s. connected_graph ls npartitions = Inr s \<and> copied d npartitions ls s"
proof -
  obtain n2n n2p s where s: "connected_graph ls npartitions = Inr s" "placed d npartitions ls n2n n2p s"
    "\<forall>l \<in> set ls. \<forall>l1 \<in> set ls. \<forall>i < copies d npartitions. \<forall>j < copies d npartitions.
      mult (gr s) (copy_name d (lp_name l) (int i)) (copy_name d (lp_name l1) (int j)) =
      (if i = j then count_list (lp_srclayers l1) (lp_name l) else 0)"
    using connected_graph_uniform [OF assms] by blast
  have "\<exists>a pid. name2node (gr s) (copy_name d (lp_name l) (int i)) = Some a \<and> proto_of s a = Inr (l\<lparr>lp_partition_id := pid\<rparr>)"
    if "l \<in> set ls" "i < copies d npartitions" for l i using placed_addr(1,3) [OF s(2) that] by blast
  then show ?thesis using s unfolding copied_def placed_def by blast
qed

lemma copied_name:
  "copied d npartitions ls s \<Longrightarrow> x \<in> names (gr s) \<Longrightarrow>
   \<exists>l i. l \<in> set ls \<and> i < copies d npartitions \<and> x = copy_name d (lp_name l) (int i)"
  by (auto simp: copied_def copy_names_def)

lemma copied_mult:
  "copied d npartitions ls s \<Longrightarrow> l \<in> set ls \<Longrightarrow> l1 \<in> set ls \<Longrightarrow> i < copies d npartitions \<Longrightarrow> j < copies d npartitions \<Longrightarrow>
   mult (gr s) (copy_name d (lp_name l) (int i)) (copy_name d (lp_name l1) (int j)) =
     (if i = j then count_list (lp_srclayers l1) (lp_name l) else 0)"
  unfolding copied_def by blast

lemma copied_addr:
  "copied d npartitions ls s \<Longrightarrow> l \<in> set ls \<Longrightarrow> i < copies d npartitions \<Longrightarrow>
   \<exists>a pid. name2node (gr s) (copy_name d (lp_name l) (int i)) = Some a \<and> proto_of s a = Inr (l\<lparr>lp_partition_id := pid\<rparr>)"
  unfolding copied_def by blast

lemma copied_edge:
  assumes "copied d npartitions ls s" and "0 < mult (gr s) u v"
  shows "(base_name d u, base_name d v) \<in> conf_rel ls"
proof -
  have "u \<in> names (gr s)" "v \<in> names (gr s)" using assms(2) mult_not_name [of u "gr s" v] by auto
  then obtain l l1 i j where l: "l \<in> set ls" "i < copies d npartitions" "u = copy_name d (lp_name l) (int i)"
    "l1 \<in> set ls" "j < copies d npartitions" "v = copy_name d (lp_name l1) (int j)"
    using copied_name [OF assms(1)] by blast
  then have "mult (gr s) u v = (if i = j then count_list (lp_srclayers l1) (lp_name l) else 0)" using copied_mult [OF assms(1)] by blast
  then have "lp_name l \<in> set (lp_srclayers l1)" using assms(2) count_list_0_iff [of "lp_srclayers l1" "lp_name l"] by (auto split: if_splits)
  then show ?thesis using l base_copy [of "int i" d "lp_name l"] base_copy [of "int j" d "lp_name l1"] by (auto simp: conf_rel_def)
qed

lemma copied_splittable: "copied d npartitions ls s \<Longrightarrow> uniform d npartitions ls \<Longrightarrow> splittable s"
  unfolding splittable_def
proof (intro conjI ballI allI impI)
  assume c: "copied d npartitions ls s" and u: "uniform d npartitions ls"
  show "wf_ngraph s" using c by (simp add: copied_def)
  fix x assume "x \<in> names (gr s)"
  then show "CHR ''+'' \<notin> set x" using c u copy_name_chars(2) by (fastforce simp: copied_def copy_names_def uniform_def)
next
  fix x a assume c: "copied d npartitions ls s" and u: "uniform d npartitions ls" and x: "name2node (gr s) x = Some a"
  have "x \<in> names (gr s)" using x by (auto simp: names_def)
  then obtain l i where l: "l \<in> set ls" "i < copies d npartitions" "x = copy_name d (lp_name l) (int i)"
    using copied_name [OF c] by blast
  then obtain pid where "proto_of s a = Inr (l\<lparr>lp_partition_id := pid\<rparr>)" using copied_addr [OF c l(1,2)] x l(3) by auto
  then show "\<exists>lp. proto_of s a = Inr lp \<and> registered (lp_type lp)" using u l(1) by (auto simp: uniform_def)
qed

lemma copied_splits:
  assumes "copied d npartitions ls s" and "uniform d npartitions ls" and "l \<in> set ls" and "i < copies d npartitions"
    and "name2node (gr s) (copy_name d (lp_name l) (int i)) = Some a"
  shows "splits s a \<longleftrightarrow> fans_out ls l"
proof -
  let ?x = "\<lambda>l. copy_name d (lp_name l) (int i)" and ?ad = "\<lambda>l. the (name2node (gr s) (copy_name d (lp_name l) (int i)))"
  have wf: "wf_ngraph s" using assms(1) by (simp add: copied_def)
  have ad: "name2node (gr s) (?x m) = Some (?ad m)" if "m \<in> set ls" for m
    using copied_addr [OF assms(1) that assms(4)] by auto
  have n1000: "npartitions \<le> 1000" using assms(2) by (simp add: uniform_def)
  have inj: "inj_on ?ad (set ls)"
  proof (rule inj_onI)
    fix m k assume m: "m \<in> set ls" "k \<in> set ls" "?ad m = ?ad k"
    then have "?x m = ?x k" using name2node_eq_iff [OF wf_ngraph_graph [OF wf]] ad by metis
    then show "m = k" using copy_name_inj [OF assms(4,4) n1000] m(1,2) assms(2) by (auto simp: uniform_def distinct_map inj_on_def)
  qed
  have a: "a \<in> set (nodes_ids (gr s))" using assms(5) wf_ngraph_name [OF wf] by blast
  have sub: "set (dstnodes (nd (gr s) a)) \<subseteq> ?ad ` set ls"
  proof
    fix b assume b: "b \<in> set (dstnodes (nd (gr s) a))"
    then have "b \<in> set (nodes_ids (gr s))" using wf_graphD(5) [OF wf_ngraph_graph [OF wf] a] by blast
    then have bn: "name2node (gr s) (node_name (nd (gr s) b)) = Some b" using wf_ngraph_name [OF wf] by blast
    then have "node_name (nd (gr s) b) \<in> names (gr s)" by (auto simp: names_def)
    then obtain m j where m: "m \<in> set ls" "j < copies d npartitions" "node_name (nd (gr s) b) = copy_name d (lp_name m) (int j)"
      using copied_name [OF assms(1)] by blast
    have "0 < mult (gr s) (?x l) (node_name (nd (gr s) b))"
      using b assms(5) bn count_list_0_iff [of "dstnodes (nd (gr s) a)" b] by (simp add: mult_def)
    then have "i = j" using m copied_mult [OF assms(1,3) m(1) assms(4) m(2)] by (auto split: if_splits)
    then show "b \<in> ?ad ` set ls" using m bn by force
  qed
  have "length (dstnodes (nd (gr s) a)) = (\<Sum>b \<in> ?ad ` set ls. count_list (dstnodes (nd (gr s) a)) b)"
    using sum_count_set [OF sub] by simp
  also have "\<dots> = (\<Sum>m \<in> set ls. count_list (dstnodes (nd (gr s) a)) (?ad m))" using inj by (simp add: sum.reindex)
  also have "\<dots> = (\<Sum>m \<in> set ls. count_list (lp_srclayers m) (lp_name l))"
  proof (rule sum.cong)
    fix m assume m: "m \<in> set ls"
    then have "mult (gr s) (?x l) (?x m) = count_list (lp_srclayers m) (lp_name l)" using copied_mult [OF assms(1,3) m assms(4,4)] by simp
    then show "count_list (dstnodes (nd (gr s) a)) (?ad m) = count_list (lp_srclayers m) (lp_name l)"
      using mult_arc [OF assms(5) ad [OF m]] by (simp add: arc_def)
  qed simp
  also have "\<dots> = (\<Sum>m\<leftarrow>ls. count_list (lp_srclayers m) (lp_name l))"
    using assms(2) by (simp add: uniform_def distinct_map sum_list_distinct_conv_sum_set)
  finally have len: "length (dstnodes (nd (gr s) a)) = (\<Sum>m\<leftarrow>ls. count_list (lp_srclayers m) (lp_name l))" .
  obtain pid where "proto_of s a = Inr (l\<lparr>lp_partition_id := pid\<rparr>)"
    using copied_addr [OF assms(1,3,4)] assms(5) by auto
  then show ?thesis using len by (auto simp: splits_def fans_out_def)
qed


definition part_rank :: "int \<Rightarrow> string \<Rightarrow> string \<times> nat" where
  "part_rank d u = (if CHR ''+'' \<in> set u then (base_name d (butlast u), 1) else (base_name d u, 0))"

lemma split_acyclic:
  assumes "copied d npartitions ls s0" and "splittable s0" and "acyclic (conf_rel ls)" and "split_state s0 P s"
  shows "acyclic (edge (gr s))"
proof (rule acyclic_by_rank)
  show "wf_graph (gr s)" using assms(4) by (simp add: split_state_def wf_ngraph_def)
  show "wf (conf_rel ls <*lex*> less_than)" using wf_conf_rel [OF assms(3)] by blast
  have plus: "CHR ''+'' \<notin> set x" if "x \<in> names (gr s0)" for x using assms(2) that by (simp add: splittable_def)
  have rank: "(base_name d x, base_name d y) \<in> conf_rel ls" "CHR ''+'' \<notin> set x" "CHR ''+'' \<notin> set y" if "0 < mult (gr s0) x y" for x y
    using copied_edge [OF assms(1) that] plus mult_not_name [of x "gr s0" y] that by auto
  fix u v assume "0 < mult (gr s) u v"
  then have m: "0 < split_mult s0 P u v" using assms(4) by (simp add: split_state_def)
  consider (first) "u \<in> split_names s0 P" "v = u @ ''+''" | (behind) x where "u = x @ ''+''" "0 < mult (gr s0) x v" | (other) "0 < mult (gr s0) u v"
    using m by (auto simp: split_mult_def split: if_splits)
  then show "(part_rank d u, part_rank d v) \<in> conf_rel ls <*lex*> less_than"
  proof cases
    case first
    then have "CHR ''+'' \<notin> set u" using plus by (auto simp: split_names_def names_def)
    then show ?thesis using first by (simp add: part_rank_def)
  qed (use rank in \<open>auto simp: part_rank_def\<close>)
qed

text \<open>The names and edges after all nodes of a copied graph have been handled.\<close>

lemma split_copied:
  assumes "copied d npartitions ls s0" and "uniform d npartitions ls" and "split_state s0 (set (nodes_ids (gr s0))) s1"
  shows "names (gr s1) = copy_names d npartitions ls \<union>
      {copy_name d (lp_name l) (int i) @ ''+'' | l i. l \<in> set ls \<and> i < copies d npartitions \<and> fans_out ls l}" (is ?names)
    and "\<And>l l1 i j. l \<in> set ls \<Longrightarrow> l1 \<in> set ls \<Longrightarrow> i < copies d npartitions \<Longrightarrow> j < copies d npartitions \<Longrightarrow>
      let x = copy_name d (lp_name l) (int i); y = copy_name d (lp_name l1) (int j);
        k = (if i = j then count_list (lp_srclayers l1) (lp_name l) else 0) in
      if fans_out ls l then mult (gr s1) x y = 0 \<and> mult (gr s1) x (x @ ''+'') = 1 \<and> mult (gr s1) (x @ ''+'') y = k
      else mult (gr s1) x y = k"
proof -
  let ?K = "copies d npartitions" and ?P = "set (nodes_ids (gr s0))"
  have sp0: "splittable s0" using copied_splittable [OF assms(1,2)] .
  have st: "names (gr s1) = names (gr s0) \<union> (\<lambda>x. x @ ''+'') ` split_names s0 ?P" "\<And>u v. mult (gr s1) u v = split_mult s0 ?P u v"
    using assms(3) unfolding split_state_def by blast+
  have sn: "copy_name d (lp_name l) (int i) \<in> split_names s0 ?P \<longleftrightarrow> fans_out ls l" if li: "l \<in> set ls" "i < ?K" for l i
  proof -
    obtain a where a: "name2node (gr s0) (copy_name d (lp_name l) (int i)) = Some a" using copied_addr [OF assms(1) li] by blast
    then have "a \<in> ?P" using wf_ngraph_name sp0 unfolding splittable_def by blast
    then show ?thesis using a copied_splits [OF assms(1,2) li a] by (auto simp: split_names_def)
  qed
  have sub: "x \<in> names (gr s0)" if "x \<in> split_names s0 ?P" for x using that by (auto simp: split_names_def names_def)
  have "x \<in> split_names s0 ?P \<longleftrightarrow> (\<exists>l i. l \<in> set ls \<and> i < ?K \<and> fans_out ls l \<and> x = copy_name d (lp_name l) (int i))" for x
    using sn sub [of x] copied_name [OF assms(1), of x] by metis
  then have "(\<lambda>x. x @ ''+'') ` split_names s0 ?P = {copy_name d (lp_name l) (int i) @ ''+'' | l i. l \<in> set ls \<and> i < ?K \<and> fans_out ls l}"
    by blast
  then show ?names unfolding st(1) using assms(1) by (simp add: copied_def)
  fix l l1 i j assume l: "l \<in> set ls" "l1 \<in> set ls" "i < ?K" "j < ?K"
  let ?x = "copy_name d (lp_name l) (int i)" and ?y = "copy_name d (lp_name l1) (int j)"
  have no: "CHR ''+'' \<notin> set ?x" "CHR ''+'' \<notin> set ?y" using l assms(2) copy_name_chars(2) by (auto simp: uniform_def)
  have np: "?x @ ''+'' \<notin> split_names s0 ?P" using sub [of "?x @ ''+''"] bspec [of "names (gr s0)" "\<lambda>x. CHR ''+'' \<notin> set x" "?x @ ''+''"] sp0
    unfolding splittable_def by auto
  have yx: "?y \<noteq> ?x @ ''+''" using no(2) by (metis in_set_conv_decomp)
  have xz: "?x \<noteq> z @ ''+''" for z using no(1) by (metis in_set_conv_decomp)
  show "let x = ?x; y = ?y; k = (if i = j then count_list (lp_srclayers l1) (lp_name l) else 0) in
      if fans_out ls l then mult (gr s1) x y = 0 \<and> mult (gr s1) x (x @ ''+'') = 1 \<and> mult (gr s1) (x @ ''+'') y = k
      else mult (gr s1) x y = k"
    using sn [OF l(1,3)] copied_mult [OF assms(1) l] np yx xz unfolding Let_def st(2) split_mult_def by auto
qed

lemma with_nodes [simp]:
  "mult (g\<lparr>nodes_ids := out\<rparr>) = mult g" "names (g\<lparr>nodes_ids := out\<rparr>) = names g" "topo (g\<lparr>nodes_ids := out\<rparr>) = topo g"
  by (auto simp: mult_def names_def topo_def fun_eq_iff split: option.splits)

lemma proto_with_nodes [simp]: "proto_of (s\<lparr>gr := (gr s)\<lparr>nodes_ids := out\<rparr>\<rparr>) = proto_of s"
  by (auto simp: proto_of_def fun_eq_iff split: option.splits)

text \<open>
  C9. \<open>CreateGraph\<close> on a net without partitions or with the batch partitioned everywhere: if the sources have
  no cycle it returns. The nodes are in topological order and are the copies of the layers, one per
  partition, with a split node behind every copy of a layer that several layers use and whose class
  serves one destination. The edges are those of the configuration within every partition, through the
  split node where there is one; no edge crosses partitions.
\<close>
theorem CreateGraph_replicates:
  assumes "uniform d npartitions ls" and "acyclic (conf_rel ls)"
  shows "\<exists>s. CreateGraph ls npartitions = Some (Inr s) \<and> wf_ngraph s \<and> topo (gr s) (nodes_ids (gr s)) \<and>
    names (gr s) = copy_names d npartitions ls \<union>
      {copy_name d (lp_name l) (int i) @ ''+'' | l i. l \<in> set ls \<and> i < copies d npartitions \<and> fans_out ls l} \<and>
    (\<forall>l \<in> set ls. \<forall>l1 \<in> set ls. \<forall>i < copies d npartitions. \<forall>j < copies d npartitions.
       let x = copy_name d (lp_name l) (int i); y = copy_name d (lp_name l1) (int j);
           k = (if i = j then count_list (lp_srclayers l1) (lp_name l) else 0) in
       if fans_out ls l then mult (gr s) x y = 0 \<and> mult (gr s) x (x @ ''+'') = 1 \<and> mult (gr s) (x @ ''+'') y = k
       else mult (gr s) x y = k)"
proof -
  obtain t where t: "connected_graph ls npartitions = Inr t" "copied d npartitions ls t" using connected_copied [OF assms(1)] by blast
  have "acyclic (edge (gr t))"
    using acyclic_by_rank [OF _ wf_conf_rel [OF assms(2)]] copied_edge [OF t(2)] t(2) by (metis copied_def wf_ngraph_graph)
  then obtain out where out: "sort_graph t = Some (Inr (t\<lparr>gr := (gr t)\<lparr>nodes_ids := out\<rparr>\<rparr>))"
    "wf_ngraph (t\<lparr>gr := (gr t)\<lparr>nodes_ids := out\<rparr>\<rparr>)" "distinct out"
    using sort_graph_acyclic [of t] t(2) by (auto simp: copied_def)
  define s0 where "s0 = t\<lparr>gr := (gr t)\<lparr>nodes_ids := out\<rparr>\<rparr>"
  have c0: "copied d npartitions ls s0" using t(2) out(2) unfolding copied_def s0_def by simp
  have sp0: "splittable s0" using copied_splittable [OF c0 assms(1)] .
  have old: "nodes_ids (gr s0) = out" by (simp add: s0_def)
  obtain s1 where s1: "foldR split_node s0 out = Inr s1" "split_state s0 (set (nodes_ids (gr s0))) s1"
    using split_all [OF sp0 out(3)] old by auto
  have st: "wf_ngraph s1" "extends s0 s1" using s1(2) unfolding split_state_def by blast+
  have "\<exists>lp. proto_of s1 a = Inr lp" if "a \<in> set out" for a
  proof -
    have "name2node (gr s0) (node_name (nd (gr s0) a)) = Some a" using wf_ngraph_name sp0 that old unfolding splittable_def by blast
    then show ?thesis using st(2) sp0 unfolding extends_def splittable_def by metis
  qed
  then have br: "foldR bridge_node s1 out = Inr s1" using bridge_none by blast
  obtain out1 where out1: "sort_graph s1 = Some (Inr (s1\<lparr>gr := (gr s1)\<lparr>nodes_ids := out1\<rparr>\<rparr>))"
    "wf_ngraph (s1\<lparr>gr := (gr s1)\<lparr>nodes_ids := out1\<rparr>\<rparr>)" "topo (gr s1) out1"
    using sort_graph_acyclic [OF st(1) split_acyclic [OF c0 sp0 assms(2) s1(2)]] by blast
  define s2 where "s2 = s1\<lparr>gr := (gr s1)\<lparr>nodes_ids := out1\<rparr>\<rparr>"
  have run: "CreateGraph ls npartitions = Some (Inr s2)"
    using t(1) out(1) s1(1) br out1(1) old by (simp add: CreateGraph_def s0_def [symmetric] s2_def)
  have same: "mult (gr s2) = mult (gr s1)" "names (gr s2) = names (gr s1)" by (simp_all add: s2_def)
  have "wf_ngraph s2" "topo (gr s2) (nodes_ids (gr s2))" using out1(2,3) by (simp_all add: s2_def)
  then show ?thesis
    by (intro exI [of _ s2] conjI ballI allI impI run split_copied [OF c0 assms(1) s1(2), folded same])
qed

definition conf_layer :: "string \<Rightarrow> LayerType \<Rightarrow> int \<Rightarrow> string list \<Rightarrow> real LayerProto" where
  "conf_layer n t dm srcs = LayerProto_default\<lparr>lp_name := n, lp_type := t, lp_partition_dim := Some dm, lp_srclayers := srcs\<rparr>"

definition demo_net :: "real LayerProto list" where
  "demo_net = [conf_layer ''d'' kShardData 0 [], conf_layer ''a'' kMnist 0 [''d''],
     conf_layer ''b'' kReLU 0 [''a''], conf_layer ''c'' kTanh 0 [''a'']]"

lemma demo_net_ok: "uniform 0 2 demo_net" "acyclic (conf_rel demo_net)"
proof -
  show "uniform 0 2 demo_net"
    by (simp add: uniform_def demo_net_def conf_layer_def LayerProto_default_def partition_dim_def registered_def)
  have "conf_rel demo_net \<subseteq> inv_image less_than (\<lambda>x. length (takeWhile (\<lambda>y. y \<noteq> x) [''d'', ''a'', ''b'', ''c'']))"
    by (auto simp: conf_rel_def demo_net_def conf_layer_def LayerProto_default_def)
  then show "acyclic (conf_rel demo_net)" using wf_acyclic wf_inv_image wf_less_than wf_subset by metis
qed

text \<open>Two partitions; the layer \<open>a\<close> has two destinations.\<close>
theorem CreateGraph_replicates_witness:
  "\<exists>s. CreateGraph demo_net 2 = Some (Inr s) \<and> topo (gr s) (nodes_ids (gr s)) \<and> mult (gr s) ''d@01'' ''a@01'' = 1 \<and>
    mult (gr s) ''a@01'' ''a@01+'' = 1 \<and> mult (gr s) ''a@01+'' ''b@01'' = 1 \<and> mult (gr s) ''a@01+'' ''b@00'' = 0"
proof -
  obtain s where s: "CreateGraph demo_net 2 = Some (Inr s)" "topo (gr s) (nodes_ids (gr s))"
    "\<forall>l \<in> set demo_net. \<forall>l1 \<in> set demo_net. \<forall>i < copies 0 2. \<forall>j < copies 0 2.
       let x = copy_name 0 (lp_name l) (int i); y = copy_name 0 (lp_name l1) (int j);
           k = (if i = j then count_list (lp_srclayers l1) (lp_name l) else 0) in
       if fans_out demo_net l then mult (gr s) x y = 0 \<and> mult (gr s) x (x @ ''+'') = 1 \<and> mult (gr s) (x @ ''+'') y = k
       else mult (gr s) x y = k"
    using CreateGraph_replicates [OF demo_net_ok] by (elim exE conjE) (rule that; assumption)
  have two: "copies 0 2 = 2" "part_suffix 0 = ''00''" "part_suffix 1 = ''01''" by code_simp+
  have in_net: "conf_layer ''d'' kShardData 0 [] \<in> set demo_net" "conf_layer ''a'' kMnist 0 [''d''] \<in> set demo_net"
    "conf_layer ''b'' kReLU 0 [''a''] \<in> set demo_net"
    by (simp_all add: demo_net_def)
  have fan: "\<not> fans_out demo_net (conf_layer ''d'' kShardData 0 [])" "fans_out demo_net (conf_layer ''a'' kMnist 0 [''d''])" by code_simp+
  have nm: "lp_name (conf_layer n t dm srcs) = n" "lp_srclayers (conf_layer n t dm srcs) = srcs" for n t dm srcs by (simp_all add: conf_layer_def)
  have "mult (gr s) ''d@01'' ''a@01'' = 1"
    using s(3) [THEN bspec, OF in_net(1), THEN bspec, OF in_net(2), THEN spec, of 1, THEN mp, THEN spec, of 1] fan(1) by (simp add: two copy_name_def nm Let_def)
  moreover have "mult (gr s) ''a@01'' ''a@01+'' = 1 \<and> mult (gr s) ''a@01+'' ''b@01'' = 1"
    using s(3) [THEN bspec, OF in_net(2), THEN bspec, OF in_net(3), THEN spec, of 1, THEN mp, THEN spec, of 1] fan(2) by (simp add: two copy_name_def nm Let_def)
  moreover have "mult (gr s) ''a@01+'' ''b@00'' = 0"
    using s(3) [THEN bspec, OF in_net(2), THEN bspec, OF in_net(3), THEN spec, of 1, THEN mp, THEN spec, of 0] fan(2) by (simp add: two copy_name_def nm Let_def)
  ultimately show ?thesis using s(1,2) by blast
qed

text \<open>
  Between a layer that is partitioned along one dimension and one that is partitioned along the
  other the connection is undefined behaviour, whatever the layers are: \<open>SliceNode\<close> reads the first
  element of a vector that is still empty.
\<close>
theorem exchange_undefined:
  assumes "n2n (lp_name l) = Some nodes" and "n2n x = Some srcs" and "srcs \<noteq> []" and "n2p x = Some sp"
    and "registered (lp_type l)" and "\<forall>a \<in> set srcs. \<exists>lp. proto_of s a = Inr lp"
    and "(partition_dim sp = 1 \<and> partition_dim l = 0) \<or>
      (partition_dim sp = 0 \<and> partition_dim l = 1 \<and> src_neuron_connection (lp_type l) = kOneToOne)"
  shows "connect_src n2n n2p l s x = Inl Undefined"
proof -
  obtain a as lp where a: "srcs = a # as" "proto_of s a = Inr lp" using assms(3,6) by (cases srcs) auto
  then have "exchange srcs s = Inl Undefined" by (simp add: exchange_def SliceNode_def Let_def idxR_def)
  then show ?thesis using assms(1,2,4,5,7) by (auto simp: connect_src_def factory_Create_def Let_def)
qed

theorem exchange_undefined_witness:
  "connect_src [''a'' \<mapsto> [0], ''b'' \<mapsto> [1]] [''a'' \<mapsto> conf_layer ''a'' kReLU 1 []] (conf_layer ''b'' kReLU 0 [''a''])
     (snd (add_node ''a@00'' ''a'' 0 (conf_layer ''a'' kReLU 1 []) ngraph_new)) ''a'' = Inl Undefined"
  by (rule exchange_undefined [where nodes = "[1]" and srcs = "[0]" and sp = "conf_layer ''a'' kReLU 1 []"])
    (simp_all add: conf_layer_def LayerProto_default_def registered_def partition_dim_def proto_of_def add_node_def new_node_def
      AddNode_ptr_def Node_full_def ngraph_new_def Graph_new_def Let_def)

text \<open>
  Two fully connected layers that are both partitioned along the features are not connected at all: no
  branch handles the case.
\<close>
theorem feature_partition_unconnected:
  assumes "n2n (lp_name l) = Some nodes" and "n2n x = Some srcs" and "n2p x = Some sp" and "registered (lp_type l)"
    and "partition_dim sp = 1" and "partition_dim l = 1" and "src_neuron_connection (lp_type l) = kOneToAll"
  shows "connect_src n2n n2p l s x = Inr s"
  using assms by (simp add: connect_src_def factory_Create_def Let_def)

theorem feature_partition_unconnected_witness:
  "connect_src [''a'' \<mapsto> [0, 1], ''b'' \<mapsto> [2, 3]] [''a'' \<mapsto> conf_layer ''a'' kInnerProduct 1 []] (conf_layer ''b'' kInnerProduct 1 [''a''])
     ngraph_new ''a'' = Inr ngraph_new"
  by (rule feature_partition_unconnected [where nodes = "[2, 3]" and srcs = "[0, 1]" and sp = "conf_layer ''a'' kInnerProduct 1 []"])
    (simp_all add: conf_layer_def LayerProto_default_def registered_def partition_dim_def src_neuron_connection_def)

text \<open>
  C36. No bridge is ever inserted: both partition ids are read from the source of an edge, so the stage that should put
  a pair of bridge nodes on every edge between partitions leaves any graph as it is.
\<close>
theorem bridges_never_inserted:
  assumes "\<forall>a \<in> set as. \<exists>lp. proto_of s a = Inr lp"
  shows "foldR bridge_node s as = Inr s"
  using assms by (rule bridge_none)

definition crossing :: "real ngraph" where
  "crossing = (let (a, s) = add_node ''a'' ''a'' 0 (conf_layer ''a'' kReLU 0 []) ngraph_new;
     (b, s1) = add_node ''b'' ''b'' 1 ((conf_layer ''b'' kReLU 0 [])\<lparr>lp_partition_id := 1\<rparr>) s in add_edge a b s1)"

text \<open>An edge from partition 0 to partition 1.\<close>
theorem bridges_never_inserted_witness:
  "foldR bridge_node crossing [0, 1] = Inr crossing \<and> dstnodes (nd (gr crossing) 0) = [1] \<and>
   Graph.partition_id (nd (gr crossing) 0) = Some 0 \<and> Graph.partition_id (nd (gr crossing) 1) = Some 1"
proof -
  have "\<forall>a \<in> set [0, 1]. \<exists>lp. proto_of crossing a = Inr lp"
    by (simp add: proto_of_def crossing_def add_node_def new_node_def AddNode_ptr_def Node_full_def ngraph_new_def Graph_new_def Let_def
        add_edge_def AddEdge_ptr_def AddSrcNode_def AddDstNode_def upd_node_def)
  then have "foldR bridge_node crossing [0, 1] = Inr crossing" by (rule bridges_never_inserted)
  moreover have "dstnodes (nd (gr crossing) 0) = [1] \<and> Graph.partition_id (nd (gr crossing) 0) = Some 0 \<and>
      Graph.partition_id (nd (gr crossing) 1) = Some 1"
    by (simp add: crossing_def add_node_def new_node_def AddNode_ptr_def Node_full_def ngraph_new_def Graph_new_def Let_def
        add_edge_def AddEdge_ptr_def AddSrcNode_def AddDstNode_def upd_node_def)
  ultimately show ?thesis by blast
qed

lemma fold_edges_same: "same_nodes s (fold (add_edge a) bs s)"
  by (induction bs arbitrary: s) (auto intro: same_nodes_refl same_nodes_trans [OF add_edge_same])

lemma SliceNode_adds:
  assumes "SliceNode a ds c s = Inr (b, s1)"
  shows "b = fresh (gr s)" "fresh (gr s1) = fresh (gr s) + 1" "nodes_ids (gr s1) = nodes_ids (gr s) @ [b]"
    "node_name (nd (gr s1) b) = node_name (nd (gr s) a) @ ''<''"
    "\<And>e. e \<noteq> b \<Longrightarrow> node_name (nd (gr s1) e) = node_name (nd (gr s) e)"
proof -
  let ?nm = "node_name (nd (gr s) a) @ ''<''"
  from assms obtain sp d0 dp where c1: "proto_of s a = Inr sp" "idxR ds 0 = Inr d0" "proto_of s d0 = Inr dp"
    by (auto simp: SliceNode_def Let_def bindR_eq_Inr case_prod_unfold)
  let ?lp = "LayerProto_default\<lparr>lp_name := ?nm, lp_type := kSlice, lp_partition_id := lp_partition_id sp,
    lp_slice_dim := Some (partition_dim dp)\<rparr>"
  define t where "t = add_node ?nm (''##'' @ ?nm) (lp_partition_id sp) ?lp s"
  have r: "b = fst t" "s1 = (if c then fold (add_edge b) ds (add_edge a b (snd t)) else add_edge a b (snd t))"
    using assms c1 by (auto simp: SliceNode_def Let_def case_prod_unfold t_def)
  have same: "same_nodes (snd t) s1"
    unfolding r(2) using same_nodes_trans [OF add_edge_same fold_edges_same, of "snd t" b ds a b] add_edge_same [of "snd t" a b] by auto
  show b: "b = fresh (gr s)" using r(1) by (simp add: t_def add_node_def new_node_def)
  show "fresh (gr s1) = fresh (gr s) + 1" "nodes_ids (gr s1) = nodes_ids (gr s) @ [b]" "node_name (nd (gr s1) b) = node_name (nd (gr s) a) @ ''<''"
    "\<And>e. e \<noteq> b \<Longrightarrow> node_name (nd (gr s1) e) = node_name (nd (gr s) e)"
    using same_nodesD(3,5,6) [OF same] b by (simp_all add: t_def add_node_def new_node_def AddNode_ptr_def Node_full_def Let_def)
qed

text \<open>
  C35. When an unpartitioned layer feeds two partitioned ones, the two slice nodes behind it get the same name. The graph
  is then no longer well formed, and \<open>CreateNetFromGraph\<close>, which finds layers by the names of nodes, gives both nodes the
  layer of the second one.
\<close>
theorem SliceNode_repeats_name:
  assumes "SliceNode a ds True s = Inr (b, s1)" and "SliceNode a es True s1 = Inr (c, s2)" and "a < fresh (gr s)"
  shows "b \<noteq> c \<and> node_name (nd (gr s2) b) = node_name (nd (gr s2) c) \<and> \<not> wf_graph (gr s2)"
proof -
  note b = SliceNode_adds [OF assms(1)] and c = SliceNode_adds [OF assms(2)]
  have ne: "b \<noteq> c" using b(1,2) c(1) by simp
  have eq: "node_name (nd (gr s2) b) = node_name (nd (gr s2) c)" using b(1,4,5) c(4,5) ne assms(3) by auto
  have "b \<in> set (nodes_ids (gr s2))" "c \<in> set (nodes_ids (gr s2))" using b(3) c(3) by auto
  then have "\<not> wf_graph (gr s2)" using wf_graph_name_inj ne eq by blast
  with ne eq show ?thesis by blast
qed

definition two_readers :: "real ngraph" where
  "two_readers = (let (a, s) = add_node ''a'' ''a'' 0 (conf_layer ''a'' kReLU (- 1) []) ngraph_new;
     (b, s1) = add_node ''b@00'' ''b'' 0 (conf_layer ''b'' kReLU 0 [''a'']) s;
     (c, s2) = add_node ''c@00'' ''c'' 0 (conf_layer ''c'' kReLU 0 [''a'']) s1 in s2)"

theorem SliceNode_repeats_name_witness:
  "\<not> wf_graph (gr (snd (projr (SliceNode 0 [2] True (snd (projr (SliceNode 0 [1] True two_readers)))))))"
proof -
  note sl = two_readers_def SliceNode_def idxR_def proto_of_def add_node_def new_node_def AddNode_ptr_def Node_full_def ngraph_new_def Graph_new_def Let_def
        add_edge_def AddEdge_ptr_def AddSrcNode_def AddDstNode_def upd_node_def
  obtain b s1 where 1: "SliceNode 0 [1] True two_readers = Inr (b, s1)" by (simp add: sl)
  obtain c s2 where 2: "SliceNode 0 [2] True s1 = Inr (c, s2)" using 1 by (auto simp: sl)
  have "0 < fresh (gr two_readers)" by (simp add: sl)
  from SliceNode_repeats_name [OF 1 2 this] show ?thesis using 1 2 by simp
qed

end
