(* ===== verification/Layers.thy ===== *)
theory Layers
  imports NeuralNet DataShard "HOL-Library.Product_Lexorder"
begin

text \<open>
  Model of \<open>src/include/neuralnet/base_layer.h\<close>, \<open>src/src/neuralnet/base_layer.cc\<close> and of the layers of
  \<open>src/include/neuralnet/layer.h\<close> and \<open>src/src/neuralnet/layer.cc\<close> that compute features and gradients.

  A layer object is a record with the members of \<open>Layer\<close> and of its subclasses; \<open>lo_type\<close> is its class and
  decides which virtual method runs. Layers are addresses, as are blobs and parameters. A tensor of mshadow is a
  view of the floats of a blob in rows; the expressions used here are tables of entries. Floats are real
  numbers, so that \<open>exp\<close>, \<open>log\<close> and \<open>tanh\<close> are those of mathematics; random numbers are arguments.
\<close>

section \<open>Layer objects\<close>

record 'f LayerObj =
  lo_type :: LayerType
  layer_proto :: "'f LayerProto"
  lo_data :: nat
  lo_grad :: nat
  lo_srclayers :: "nat list"
  lo_dstlayers :: "nat list"
  lo_weight :: "nat option"
  lo_bias :: "nat option"
  lo_batchsize :: int
  lo_neg_batchsize :: int
  lo_vdim :: int
  lo_hdim :: int
  lo_dim :: int
  lo_topk :: int
  lo_scale :: 'f
  lo_metric :: nat
  lo_mask :: nat
  lo_pdrop :: 'f
  lo_sample :: nat
  lo_is_first_iteration_vis :: bool
  lo_data_idx :: int
  lo_hid_idx :: int
  lo_slice_dim :: int
  lo_slice_num :: int
  lo_datavec :: "nat list"
  lo_gradvec :: "nat list"
  lo_datablobs :: "(string \<times> nat) list"
  lo_kernel :: int
  lo_pad :: int
  lo_stride :: int
  lo_channels :: int
  lo_height :: int
  lo_width :: int
  lo_conv_height :: int
  lo_conv_width :: int
  lo_col_height :: int
  lo_col_width :: int
  lo_num_filters :: int
  lo_col_data :: nat
  lo_col_grad :: nat
  lo_pool :: PoolMethod
  lo_pooled_height :: int
  lo_pooled_width :: int
  lo_lsize :: int
  lo_alpha :: 'f
  lo_beta :: 'f
  lo_knorm :: 'f
  lo_norm :: nat
  lo_cropsize :: int
  lo_mirror :: bool
  lo_mean :: nat
  lo_norm_a :: 'f
  lo_norm_b :: 'f
  lo_path :: string
  lo_sublayers :: "nat list"

text \<open>
  \<open>Record\<close> is the message of \<open>src/src/proto/common.proto\<close> with the image inside; an object of a data layer also has the
  members of \<open>DataLayer\<close>, with the file behind its shard.
\<close>

record 'f Record =
  rec_shape :: "int list"
  rec_label :: int
  rec_pixel :: bytes
  rec_data :: "'f list"

record 'f DataObj =
  da_shard :: Shard
  da_file :: bytes
  da_batchsize :: int
  da_sample :: "'f Record"
  da_records :: "'f Record list"
  da_random_skip :: int

record 'f lstate =
  objs :: "nat \<Rightarrow> 'f LayerObj"
  nobj :: nat
  lparams :: "nat \<Rightarrow> 'f Param"
  nlparam :: nat
  lmem :: "'f heap"
  ldata :: "nat \<Rightarrow> 'f DataObj"

definition upd_obj :: "nat \<Rightarrow> ('f LayerObj \<Rightarrow> 'f LayerObj) \<Rightarrow> 'f lstate \<Rightarrow> 'f lstate" where
  "upd_obj l f s = s\<lparr>objs := (objs s)(l := f (objs s l))\<rparr>"

text \<open>A method of a blob.\<close>

definition with_mem :: "('f heap \<Rightarrow> 'f heap res) \<Rightarrow> 'f lstate \<Rightarrow> 'f lstate res" where
  "with_mem f s = bindR (f (lmem s)) (\<lambda>h. Inr (s\<lparr>lmem := h\<rparr>))"

definition lo_name :: "'f LayerObj \<Rightarrow> string" where
  "lo_name l = lp_name (layer_proto l)"

text \<open>\<open>lo_srclayers[i]\<close>\<close>

definition src_of :: "'f lstate \<Rightarrow> nat \<Rightarrow> int \<Rightarrow> nat res" where
  "src_of s l i = idxR (lo_srclayers (objs s l)) i"

text \<open>
  The loop stops at the first destination that is the layer; \<open>lo_dstlayers\<close> is read up to the number of slices.
\<close>

fun slice_id :: "nat \<Rightarrow> nat \<Rightarrow> nat list \<Rightarrow> nat \<Rightarrow> nat res" where
  "slice_id 0 i dsts l = Inl CheckFailed"
| "slice_id (Suc n) i [] l = Inl Undefined"
| "slice_id (Suc n) i (d # ds) l = (if d = l then Inr i else slice_id n (i + 1) ds l)"

definition SliceLayer_SliceID :: "'f LayerObj \<Rightarrow> nat \<Rightarrow> nat res" where
  "SliceLayer_SliceID o1 l = slice_id (length (lo_datavec o1)) 0 (lo_dstlayers o1) l"

text \<open>
  The getters of the blobs, by class; \<open>from\<close> is \<open>None\<close> for a null pointer. The source of a bridge hands the call on to its
  own source: \<open>n\<close> bounds the length of such a chain, and a chain with more links than there are layers is a cycle that is followed
  forever.
\<close>

fun layer_data :: "nat \<Rightarrow> 'f lstate \<Rightarrow> nat \<Rightarrow> nat option \<Rightarrow> Phase \<Rightarrow> nat res" where
  "layer_data 0 s l from1 ph = Inl Undefined"
| "layer_data (Suc n) s l from1 ph =
     (let o1 = objs s l in
      if lo_type o1 = kBridgeSrc then bindR (src_of s l 0) (\<lambda>src. layer_data n s src (Some l) kPositive)
      else if lo_type o1 = kSlice then
        (case from1 of
           None \<Rightarrow> Inr (lo_data o1)
         | Some d \<Rightarrow> bindR (SliceLayer_SliceID o1 d) (\<lambda>i. idxR (lo_datavec o1) (int i)))
      else if lo_type o1 = kPrefetch then
        (case from1 of
           None \<Rightarrow> bindR (idxR (lo_datablobs o1) 0) (\<lambda>e. Inr (snd e))
         | Some d \<Rightarrow>
             (case map_of (lo_datablobs o1) (lp_datablob (layer_proto (objs s d))) of
                None \<Rightarrow> Inl OutOfRange
              | Some b \<Rightarrow> Inr b))
      else if (lo_type o1 = kRBMVis \<or> lo_type o1 = kRBMHid) \<and> ph \<noteq> kPositive then Inr (lo_sample o1)
      else Inr (lo_data o1))"

text \<open>A null pointer is \<open>None\<close>.\<close>

fun layer_mutable_data :: "nat \<Rightarrow> 'f lstate \<Rightarrow> nat \<Rightarrow> nat option \<Rightarrow> Phase \<Rightarrow> nat option res" where
  "layer_mutable_data 0 s l from1 ph = Inl Undefined"
| "layer_mutable_data (Suc n) s l from1 ph =
     (if lo_type (objs s l) = kBridgeSrc then bindR (src_of s l 0) (\<lambda>src. layer_mutable_data n s src (Some l) kPositive)
      else if is_datalayer (lo_type (objs s l)) then Inr None
      else bindR (layer_data (Suc n) s l from1 ph) (\<lambda>b. Inr (Some b)))"

fun layer_mutable_grad :: "nat \<Rightarrow> 'f lstate \<Rightarrow> nat \<Rightarrow> nat option \<Rightarrow> nat option res" where
  "layer_mutable_grad 0 s l from1 = Inl Undefined"
| "layer_mutable_grad (Suc n) s l from1 =
     (let o1 = objs s l; t = lo_type o1 in
      if t = kBridgeSrc then bindR (src_of s l 0) (\<lambda>src. layer_mutable_grad n s src (Some l))
      else if is_datalayer t \<or> is_parserlayer t \<or> is_losslayer t \<or> t = kPrefetch then Inr None
      else if t = kSlice then
        (case from1 of
           None \<Rightarrow> Inr (Some (lo_grad o1))
         | Some d \<Rightarrow> bindR (SliceLayer_SliceID o1 d) (\<lambda>i. bindR (idxR (lo_gradvec o1) (int i)) (\<lambda>b. Inr (Some b))))
      else Inr (Some (lo_grad o1)))"

text \<open>\<open>grad()\<close> aborts where \<open>mutable_grad()\<close> is null, except in a data layer.\<close>

fun layer_grad :: "nat \<Rightarrow> 'f lstate \<Rightarrow> nat \<Rightarrow> nat option \<Rightarrow> nat res" where
  "layer_grad 0 s l from1 = Inl Undefined"
| "layer_grad (Suc n) s l from1 =
     (let o1 = objs s l; t = lo_type o1 in
      if t = kBridgeSrc then bindR (src_of s l 0) (\<lambda>src. layer_grad n s src (Some l))
      else if is_parserlayer t \<or> is_losslayer t \<or> t = kPrefetch then Inl CheckFailed
      else if t = kSlice then
        (case from1 of
           None \<Rightarrow> Inr (lo_grad o1)
         | Some d \<Rightarrow> bindR (SliceLayer_SliceID o1 d) (\<lambda>i. idxR (lo_gradvec o1) (int i)))
      else Inr (lo_grad o1))"

text \<open>Dereferencing the result.\<close>

definition deref :: "'a option \<Rightarrow> 'a res" where
  "deref p = (case p of None \<Rightarrow> Inl Undefined | Some b \<Rightarrow> Inr b)"

definition src_data :: "'f lstate \<Rightarrow> nat \<Rightarrow> int \<Rightarrow> Phase \<Rightarrow> nat res" where
  "src_data s l i ph = bindR (src_of s l i) (\<lambda>src. layer_data (Suc (nobj s)) s src (Some l) ph)"

definition src_mutable_data :: "'f lstate \<Rightarrow> nat \<Rightarrow> int \<Rightarrow> Phase \<Rightarrow> nat option res" where
  "src_mutable_data s l i ph = bindR (src_of s l i) (\<lambda>src. layer_mutable_data (Suc (nobj s)) s src (Some l) ph)"

definition src_mutable_grad :: "'f lstate \<Rightarrow> nat \<Rightarrow> int \<Rightarrow> nat option res" where
  "src_mutable_grad s l i = bindR (src_of s l i) (\<lambda>src. layer_mutable_grad (Suc (nobj s)) s src (Some l))"

section \<open>Tensors\<close>

text \<open>
  The floats behind \<open>mutable_cpu_data\<close>, as \<open>Tensor1\<close> to \<open>Tensor4\<close> see them. An assignment writes through the
  same pointer, with \<open>blob_write\<close>.
\<close>

definition tensor :: "nat \<Rightarrow> ('f :: zero) heap \<Rightarrow> ('f list \<times> 'f heap) res" where
  "tensor b h =
     bindR (mutable_cpu_data b h) (\<lambda>(p, h1).
     bindR (mem_read p (nat (bcount (blobs h1 b))) h1) (\<lambda>xs. Inr (xs, h1)))"

text \<open>\<open>Tensor2\<close> divides the number of floats by the first dimension.\<close>

definition row_size :: "nat \<Rightarrow> 'f heap \<Rightarrow> (nat \<times> nat) res" where
  "row_size b h =
     bindR (idxR (shape (blobs h b)) 0) (\<lambda>n.
       checkR (n \<noteq> 0) Undefined (Inr (nat n, nat (bcount (blobs h b) sdiv n))))"

text \<open>A table of entries in rows, and sums as a loop adds them up.\<close>

definition tab :: "nat \<Rightarrow> nat \<Rightarrow> (nat \<Rightarrow> nat \<Rightarrow> 'a) \<Rightarrow> 'a list" where
  "tab n m f = concat (map (\<lambda>i. map (f i) [0..<m]) [0..<n])"

definition ent :: "nat \<Rightarrow> 'a list \<Rightarrow> nat \<Rightarrow> nat \<Rightarrow> 'a" where
  "ent m xs i j = xs ! (i * m + j)"

definition fsum :: "nat \<Rightarrow> (nat \<Rightarrow> 'f) \<Rightarrow> ('f :: {zero, plus})" where
  "fsum n f = foldl (\<lambda>a i. a + f i) 0 [0..<n]"

text \<open>\<open>dot\<close> of an \<open>n\<close> times \<open>k\<close> and a \<open>k\<close> times \<open>m\<close> matrix; \<open>sum_rows\<close>; the addition of \<open>repmat\<close>.\<close>

definition dot :: "nat \<Rightarrow> nat \<Rightarrow> nat \<Rightarrow> (nat \<Rightarrow> nat \<Rightarrow> 'f) \<Rightarrow> (nat \<Rightarrow> nat \<Rightarrow> 'f) \<Rightarrow> ('f :: {zero, plus, times}) list" where
  "dot n k m a b = tab n m (\<lambda>i j. fsum k (\<lambda>l. a i l * b l j))"

definition sum_rows :: "nat \<Rightarrow> nat \<Rightarrow> 'f list \<Rightarrow> ('f :: {zero, plus}) list" where
  "sum_rows n m xs = map (\<lambda>j. fsum n (\<lambda>i. ent m xs i j)) [0..<m]"

definition add_repmat :: "nat \<Rightarrow> nat \<Rightarrow> 'f list \<Rightarrow> 'f list \<Rightarrow> ('f :: plus) list" where
  "add_repmat n m xs b = tab n m (\<lambda>i j. ent m xs i j + b ! j)"

text \<open>The tensor of a parameter.\<close>

definition param_blob :: "'f lstate \<Rightarrow> nat option \<Rightarrow> nat res" where
  "param_blob s p = bindR (deref p) (\<lambda>a. data_blob (lparams s a))"

definition param_grad :: "'f lstate \<Rightarrow> nat option \<Rightarrow> nat res" where
  "param_grad s p = bindR (deref p) (\<lambda>a. Inr (pgrad (lparams s a)))"


definition Tensor2 :: "nat \<Rightarrow> ('f :: zero) heap \<Rightarrow> (nat \<times> nat \<times> 'f list \<times> 'f heap) res" where
  "Tensor2 b h =
     bindR (row_size b h) (\<lambda>(n, m). bindR (tensor b h) (\<lambda>(xs, h1). Inr (n, m, xs, h1)))"

section \<open>Fully connected layers\<close>

definition InnerProduct_ComputeFeature :: "nat \<Rightarrow> ('f :: {zero, plus, times}) lstate \<Rightarrow> 'f lstate res" where
  "InnerProduct_ComputeFeature l s =
     (let o1 = objs s l in
      bindR (bindR (src_mutable_data s l 0 kPositive) deref) (\<lambda>sb.
      bindR (param_blob s (lo_weight o1)) (\<lambda>wb.
      bindR (param_blob s (lo_bias o1)) (\<lambda>bb.
      with_mem (\<lambda>h.
        bindR (Tensor2 (lo_data o1) h) (\<lambda>(n, m, _, h1).
        bindR (Tensor2 sb h1) (\<lambda>(n1, k, xs, h2).
        bindR (Tensor2 wb h2) (\<lambda>(k1, m1, ws, h3).
        bindR (tensor bb h3) (\<lambda>(bs, h4).
          checkR (n1 = n \<and> k1 = k \<and> m1 = m \<and> length bs = m \<and> lo_batchsize o1 = int n) CheckFailed
            (blob_write (lo_data o1) (add_repmat n m (dot n k m (ent k xs) (ent m ws)) bs) h4)))))) s))))"

definition InnerProduct_ComputeGradient :: "nat \<Rightarrow> ('f :: {zero, plus, times}) lstate \<Rightarrow> 'f lstate res" where
  "InnerProduct_ComputeGradient l s =
     (let o1 = objs s l in
      bindR (bindR (src_mutable_data s l 0 kPositive) deref) (\<lambda>sb.
      bindR (param_blob s (lo_weight o1)) (\<lambda>wb.
      bindR (param_grad s (lo_weight o1)) (\<lambda>gwb.
      bindR (param_grad s (lo_bias o1)) (\<lambda>gbb.
      bindR (src_mutable_grad s l 0) (\<lambda>gsb.
      with_mem (\<lambda>h.
        bindR (Tensor2 sb h) (\<lambda>(n1, k, xs, h1).
        bindR (Tensor2 (lo_grad o1) h1) (\<lambda>(n, m, gs, h2).
        bindR (Tensor2 wb h2) (\<lambda>(k1, m1, ws, h3).
        bindR (Tensor2 gwb h3) (\<lambda>(k2, m2, _, h4).
        bindR (tensor gbb h4) (\<lambda>(bs, h5).
        checkR (length bs = m \<and> n1 = n \<and> k2 = k \<and> m2 = m) CheckFailed
        (bindR (blob_write gbb (sum_rows n m gs) h5) (\<lambda>h6.
         bindR (blob_write gwb (dot k n m (\<lambda>i j. ent k xs j i) (ent m gs)) h6) (\<lambda>h7.
           case gsb of
             None \<Rightarrow> Inr h7
           | Some gs1 \<Rightarrow>
               bindR (Tensor2 gs1 h7) (\<lambda>(n3, k3, _, h8).
                 checkR (n3 = n \<and> k3 = k1 \<and> m1 = m) CheckFailed
                   (blob_write gs1 (dot n m k1 (ent m gs) (\<lambda>i j. ent m ws j i)) h8))))))))))) s))))))"

section \<open>Layers that work on every float alone\<close>

text \<open>\<open>data = F<f>(src)\<close> and \<open>gsrc = F<f>(data) * grad\<close> on tensors of one dimension.\<close>

definition feature1 :: "('f \<Rightarrow> 'f) \<Rightarrow> nat \<Rightarrow> ('f :: zero) lstate \<Rightarrow> 'f lstate res" where
  "feature1 f l s =
     (let o1 = objs s l in
      bindR (bindR (src_mutable_data s l 0 kPositive) deref) (\<lambda>sb.
      with_mem (\<lambda>h.
        bindR (tensor (lo_data o1) h) (\<lambda>(ys, h1).
        bindR (tensor sb h1) (\<lambda>(xs, h2).
          checkR (length ys = length xs) CheckFailed (blob_write (lo_data o1) (map f xs) h2)))) s))"

definition gradient1 :: "('f \<Rightarrow> 'f) \<Rightarrow> nat \<Rightarrow> ('f :: {zero, times}) lstate \<Rightarrow> 'f lstate res" where
  "gradient1 f l s =
     (let o1 = objs s l in
      bindR (bindR (src_mutable_grad s l 0) deref) (\<lambda>gsb.
      with_mem (\<lambda>h.
        bindR (tensor (lo_data o1) h) (\<lambda>(ys, h1).
        bindR (tensor (lo_grad o1) h1) (\<lambda>(gs, h2).
        bindR (tensor gsb h2) (\<lambda>(zs, h3).
          checkR (length gs = length ys \<and> length zs = length ys) CheckFailed
            (blob_write gsb (map2 (\<lambda>y g. f y * g) ys gs) h3))))) s))"

definition relu :: "real \<Rightarrow> real" where
  "relu a = max a 0"

definition relu_grad :: "real \<Rightarrow> real" where
  "relu_grad a = (if 0 < a then 1 else 0)"

definition stanh :: "real \<Rightarrow> real" where
  "stanh a = 1.7159047 * tanh (0.66666667 * a)"

definition stanh_grad :: "real \<Rightarrow> real" where
  "stanh_grad a = 0.66666667 * 1.7159047 - 0.66666667 / 1.7159047 * a * a"

definition ReLU_ComputeFeature :: "nat \<Rightarrow> real lstate \<Rightarrow> real lstate res" where
  "ReLU_ComputeFeature = feature1 relu"

definition ReLU_ComputeGradient :: "nat \<Rightarrow> real lstate \<Rightarrow> real lstate res" where
  "ReLU_ComputeGradient = gradient1 relu_grad"

definition Tanh_ComputeFeature :: "nat \<Rightarrow> real lstate \<Rightarrow> real lstate res" where
  "Tanh_ComputeFeature = feature1 stanh"

definition Tanh_ComputeGradient :: "nat \<Rightarrow> real lstate \<Rightarrow> real lstate res" where
  "Tanh_ComputeGradient = gradient1 stanh_grad"

text \<open>\<open>us\<close> are the uniform random numbers of the mask.\<close>

definition threshold :: "real \<Rightarrow> real \<Rightarrow> real" where
  "threshold a b = (if a < b then 1 else 0)"

definition Dropout_ComputeFeature :: "real list \<Rightarrow> Phase \<Rightarrow> nat \<Rightarrow> real lstate \<Rightarrow> real lstate res" where
  "Dropout_ComputeFeature us ph l s =
     (let o1 = objs s l in
      if ph \<noteq> kTrain then
        bindR (src_data s l 0 kPositive) (\<lambda>sb. with_mem (CopyFrom (lo_data o1) sb False) s)
      else
        let pkeep = 1 - lo_pdrop o1 in
        bindR (with_mem (\<lambda>h.
            bindR (tensor (lo_mask o1) h) (\<lambda>(ms, h1).
              blob_write (lo_mask o1) (map (\<lambda>u. threshold u pkeep * (1 / pkeep)) (take (length ms) us)) h1)) s) (\<lambda>s1.
        bindR (bindR (src_mutable_data s1 l 0 kPositive) deref) (\<lambda>sb.
        with_mem (\<lambda>h.
          bindR (tensor (lo_mask o1) h) (\<lambda>(ms, h1).
          bindR (tensor (lo_data o1) h1) (\<lambda>(ys, h2).
          bindR (tensor sb h2) (\<lambda>(xs, h3).
            checkR (length xs = length ms \<and> length ys = length xs) CheckFailed
              (blob_write (lo_data o1) (map2 (*) xs ms) h3))))) s1)))"

definition Dropout_ComputeGradient :: "nat \<Rightarrow> real lstate \<Rightarrow> real lstate res" where
  "Dropout_ComputeGradient l s =
     (let o1 = objs s l in
      bindR (bindR (src_mutable_grad s l 0) deref) (\<lambda>gsb.
      with_mem (\<lambda>h.
        bindR (tensor (lo_mask o1) h) (\<lambda>(ms, h1).
        bindR (tensor (lo_grad o1) h1) (\<lambda>(gs, h2).
        bindR (tensor gsb h2) (\<lambda>(zs, h3).
          checkR (length gs = length ms \<and> length zs = length gs) CheckFailed
            (blob_write gsb (map2 (*) gs ms) h3))))) s))"

section \<open>The loss\<close>

text \<open>\<open>Softmax\<close> of one row.\<close>

definition Softmax_row :: "real list \<Rightarrow> real list" where
  "Softmax_row es =
     (let mmax = foldl max (es ! 0) es; ds = map (\<lambda>e. exp (e - mmax)) es; total = fsum (length ds) (\<lambda>i. ds ! i) in
      map (\<lambda>d. d / total) ds)"

definition Softmax :: "nat \<Rightarrow> nat \<Rightarrow> real list \<Rightarrow> real list" where
  "Softmax n m xs = concat (map (\<lambda>i. Softmax_row (segment (i * m) m xs)) [0..<n])"

definition float_to_int :: "real \<Rightarrow> int" where
  "float_to_int x = (if x < 0 then \<lceil>x\<rceil> else \<lfloor>x\<rfloor>)"

definition FLT_MIN :: real where
  "FLT_MIN = 1 / 2 ^ 126"

text \<open>
  The indices of the \<open>k\<close> largest entries, ordered by \<open>std::greater\<close> on pairs of an entry and its index. The iterator
  \<open>begin() + topk_\<close> has to stay inside the vector.
\<close>

definition top_k :: "int \<Rightarrow> real list \<Rightarrow> nat list res" where
  "top_k k ps =
     checkR (0 \<le> k \<and> k \<le> int (length ps)) Undefined
       (Inr (map snd (take (nat k) (rev (sort (zip ps [0..<length ps]))))))"

text \<open>One record of the batch: the loss and the precision so far.\<close>

definition loss_record ::
  "nat \<Rightarrow> int \<Rightarrow> real list \<Rightarrow> real list \<Rightarrow> real \<times> real \<Rightarrow> nat \<Rightarrow> (real \<times> real) res" where
  "loss_record dm topk probs labels acc n =
     (case acc of (ls, prec) \<Rightarrow>
        bindR (idxR labels (int n)) (\<lambda>lab.
        let ilabel = float_to_int lab in
        checkR (ilabel < 278) CheckFailed (checkR (0 \<le> ilabel) CheckFailed
        (bindR (idxR probs (int (n * dm) + ilabel)) (\<lambda>prob_of_truth.
         bindR (top_k topk (segment (n * dm) dm probs)) (\<lambda>best.
           Inr (ls - ln (max prob_of_truth FLT_MIN), if nat ilabel \<in> set best then prec + 1 else prec)))))))"

definition SoftmaxLoss_ComputeFeature ::
  "nat \<Rightarrow> real metric \<Rightarrow> real lstate \<Rightarrow> (real metric \<times> real lstate) res" where
  "SoftmaxLoss_ComputeFeature l pf s =
     (let o1 = objs s l; n = nat (lo_batchsize o1); m = nat (lo_dim o1) in
      bindR (bindR (src_mutable_data s l 0 kPositive) deref) (\<lambda>sb.
      bindR (src_data s l 1 kPositive) (\<lambda>lb.
      bindR (tensor (lo_data o1) (lmem s)) (\<lambda>(ys, h1).
      bindR (tensor sb h1) (\<lambda>(xs, h2).
      checkR (length ys = n * m \<and> n * m \<le> length xs) Undefined
      (bindR (blob_write (lo_data o1) (Softmax n m (take (n * m) xs)) h2) (\<lambda>h3.
       bindR (blob_read lb h3) (\<lambda>(labels, h4).
       bindR (foldR (loss_record m (lo_topk o1) (Softmax n m (take (n * m) xs)) labels) (0, 0) [0..<n]) (\<lambda>(ls, prec).
         Inr (Metric_Add ''accuracy'' (prec * lo_scale o1 / real n) (Metric_Add ''loss'' (ls * lo_scale o1 / real n) pf),
           s\<lparr>lmem := h4\<rparr>))))))))))"

definition SoftmaxLoss_ComputeGradient :: "nat \<Rightarrow> real lstate \<Rightarrow> real lstate res" where
  "SoftmaxLoss_ComputeGradient l s =
     (let o1 = objs s l; n = nat (lo_batchsize o1); m = nat (lo_dim o1) in
      bindR (src_data s l 1 kPositive) (\<lambda>lb.
      bindR (bindR (src_mutable_grad s l 0) deref) (\<lambda>gsb.
      with_mem (\<lambda>h.
        bindR (blob_read lb h) (\<lambda>(labels, h1).
        bindR (CopyFrom gsb (lo_data o1) False h1) (\<lambda>h2.
        bindR (tensor gsb h2) (\<lambda>(gs, h3).
        bindR (foldR (\<lambda>gs n.
            bindR (idxR labels (int n)) (\<lambda>lab.
            let i = int n * lo_dim o1 + float_to_int lab in
            bindR (idxR gs i) (\<lambda>g. Inr (gs[nat i := g - 1])))) gs [0..<n]) (\<lambda>gs1.
          blob_write gsb (map (\<lambda>g. g * (lo_scale o1 / real n)) gs1) h3))))) s)))"

section \<open>Slice, concate and split layers\<close>

definition slice_copy :: "nat list \<Rightarrow> ptr \<Rightarrow> nat \<Rightarrow> ('f :: zero) heap \<Rightarrow> nat \<Rightarrow> 'f heap res" where
  "slice_copy dv src sz h i =
     bindR (idxR dv (int i)) (\<lambda>d.
     bindR (mutable_cpu_data d h) (\<lambda>(dst, h1).
     bindR (mem_read (ptr_add src (i * sz)) sz h1) (\<lambda>xs. mem_write dst xs h1)))"

definition Slice_ComputeFeature :: "nat \<Rightarrow> ('f :: zero) lstate \<Rightarrow> 'f lstate res" where
  "Slice_ComputeFeature l s =
     (let o1 = objs s l in
      checkR (length (lo_srclayers o1) = 1) CheckFailed
      (if lo_slice_dim o1 = 0 then
         bindR (src_data s l 0 kPositive) (\<lambda>sb.
         checkR (lo_slice_num o1 \<noteq> 0) Undefined
         (with_mem (\<lambda>h.
            let sz = nat (bcount (blobs h sb) sdiv lo_slice_num o1) in
            bindR (cpu_data sb h) (\<lambda>(p, h1). foldR (slice_copy (lo_datavec o1) p sz) h1 [0..<nat (lo_slice_num o1)])) s))
       else Inr s))"

definition Slice_ComputeGradient :: "nat \<Rightarrow> 'f lstate \<Rightarrow> 'f lstate res" where
  "Slice_ComputeGradient l s = Inr s"

text \<open>\<open>LOG(FATAL)\<close>\<close>

definition Concate_ComputeFeature :: "nat \<Rightarrow> 'f lstate \<Rightarrow> 'f lstate res" where
  "Concate_ComputeFeature l s = Inl CheckFailed"

definition Concate_ComputeGradient :: "nat \<Rightarrow> 'f lstate \<Rightarrow> 'f lstate res" where
  "Concate_ComputeGradient l s = Inl CheckFailed"

definition Split_ComputeFeature :: "nat \<Rightarrow> 'f lstate \<Rightarrow> 'f lstate res" where
  "Split_ComputeFeature l s = Inl CheckFailed"

definition Split_ComputeGradient :: "nat \<Rightarrow> 'f lstate \<Rightarrow> 'f lstate res" where
  "Split_ComputeGradient l s = Inl CheckFailed"

section \<open>Tables and sums\<close>

lemma position_lt: "i < n \<Longrightarrow> j < m \<Longrightarrow> i * m + j < n * (m :: nat)"
proof -
  assume "i < n" "j < m"
  then have "i * m + j < Suc i * m" by simp
  also have "\<dots> \<le> n * m" using \<open>i < n\<close> by (intro mult_le_mono1) simp
  finally show ?thesis .
qed

lemma length_tab [simp]: "length (tab n m f) = n * m"
  by (simp add: tab_def length_concat o_def sum_list_triv)

lemma tab_Suc: "tab (Suc n) m f = tab n m f @ map (f n) [0..<m]"
  by (simp add: tab_def)

lemma nth_tab: "i < n \<Longrightarrow> j < m \<Longrightarrow> tab n m f ! (i * m + j) = f i j"
proof (induction n)
  case (Suc n)
  show ?case
  proof (cases "i < n")
    case True
    then show ?thesis using Suc position_lt [of i n j m] by (simp add: tab_Suc nth_append)
  next
    case False
    then have "i = n" using Suc.prems(1) by simp
    then show ?thesis using Suc.prems(2) by (simp add: tab_Suc nth_append)
  qed
qed simp

lemma ent_tab: "i < n \<Longrightarrow> j < m \<Longrightarrow> ent m (tab n m f) i j = f i j"
  by (simp add: ent_def nth_tab)

lemma fsum_sum: "fsum n f = sum f {..<n :: nat}"
  for f :: "nat \<Rightarrow> 'a :: comm_monoid_add"
  by (induction n) (simp_all add: fsum_def lessThan_Suc add.commute)

text \<open>Every position of a table lies in one row.\<close>

lemma position:
  assumes "p < n * (m :: nat)"
  obtains i j where "i < n" "j < m" "p = i * m + j"
proof -
  have "0 < m" using assms by (cases m) auto
  then show thesis
    using that [of "p div m" "p mod m"] assms by (simp add: less_mult_imp_div_less)
qed

lemma position_eq: "j < m \<Longrightarrow> l < m \<Longrightarrow> i * m + j = k * m + l \<longleftrightarrow> i = k \<and> j = (l :: nat)"
  by (metis div_mult_self3 mod_mult_self3 add.right_neutral div_less mod_less not_less_zero)

text \<open>The sum over the entries of a table.\<close>

lemma sum_positions: "(\<Sum>p < n * m. f p) = (\<Sum>i < n. \<Sum>j < m. f (i * m + j))"
  for f :: "nat \<Rightarrow> 'a :: comm_monoid_add"
proof (induction n)
  case (Suc n)
  have "{..<Suc n * m} = {..<n * m} \<union> {n * m..<n * m + m}" by auto
  then have "(\<Sum>p < Suc n * m. f p) = (\<Sum>p < n * m. f p) + sum f {n * m..<n * m + m}"
    by (simp add: sum.union_disjoint ivl_disj_int)
  moreover have "sum f {n * m..<n * m + m} = (\<Sum>j < m. f (n * m + j))"
    using sum.shift_bounds_nat_ivl [of f 0 "n * m" m] by (simp add: lessThan_atLeast0 add.commute)
  ultimately show ?case using Suc by simp
qed simp

end
