(* ===== verification/Gradients.thy ===== *)
theory Gradients
  imports Layers
begin

text \<open>
  The gradients that the layers compute, as mathematics: a gradient of a vector-valued function in the direction that
  back-propagation needs (\<open>vjp\<close>), the locale \<open>diff_layer\<close> of an operation with its gradient, its interpretations on the
  operations of \<open>Layers\<close> (rectifier, scaled tanh, dropout, and the affine map in its input, weight and bias), the chain rule
  and the gradient of the softmax loss of a batch.
\<close>

section \<open>Derivatives of layers\<close>

definition inner :: "real list \<Rightarrow> real list \<Rightarrow> real" where
  "inner g y = (\<Sum>q < length g. g ! q * y ! q)"

text \<open>A differentiable path of vectors through \<open>x\<close>, with its velocity.\<close>

definition path :: "real list \<Rightarrow> (real \<Rightarrow> real list) \<Rightarrow> (nat \<Rightarrow> real) \<Rightarrow> bool" where
  "path x c d \<longleftrightarrow> c 0 = x \<and> (\<forall>t. length (c t) = length x) \<and>
     (\<forall>p < length x. ((\<lambda>t. c t ! p) has_real_derivative d p) (at 0))"

text \<open>
  \<open>vjp f x g gx\<close>: \<open>gx\<close> is the gradient at \<open>x\<close> of the sum of the outputs of \<open>f\<close> weighted with \<open>g\<close>. On every path through
  \<open>x\<close> that sum grows at the rate that \<open>gx\<close> predicts.
\<close>

definition vjp :: "(real list \<Rightarrow> real list) \<Rightarrow> real list \<Rightarrow> real list \<Rightarrow> real list \<Rightarrow> bool" where
  "vjp f x g gx \<longleftrightarrow> length gx = length x \<and>
     (\<forall>c d. path x c d \<longrightarrow> ((\<lambda>t. inner g (f (c t))) has_real_derivative (\<Sum>p < length x. gx ! p * d p)) (at 0))"

lemma pathD:
  "path x c d \<Longrightarrow> c 0 = x" "path x c d \<Longrightarrow> length (c t) = length x"
  "path x c d \<Longrightarrow> p < length x \<Longrightarrow> ((\<lambda>t. c t ! p) has_real_derivative d p) (at 0)"
  by (auto simp: path_def)

lemma pathI:
  "c 0 = x \<Longrightarrow> (\<And>t. length (c t) = length x) \<Longrightarrow> (\<And>p. p < length x \<Longrightarrow> ((\<lambda>t. c t ! p) has_real_derivative d p) (at 0)) \<Longrightarrow>
   path x c d"
  by (simp add: path_def)

lemma path_const: "path x (\<lambda>t. x) (\<lambda>p. 0)"
  by (simp add: path_def)

lemma inner_derivative:
  assumes "\<And>q. q < length g \<Longrightarrow> ((\<lambda>t. y t ! q) has_real_derivative d q) (at 0)"
  shows "((\<lambda>t. inner g (y t)) has_real_derivative (\<Sum>q < length g. g ! q * d q)) (at 0)"
  unfolding inner_def using assms by (intro DERIV_sum DERIV_cmult) simp

text \<open>Partial derivatives are the special case of a path along one coordinate.\<close>

lemma vjp_partial:
  assumes "vjp f x g gx" and "p < length x"
  shows "((\<lambda>t. inner g (f (x[p := t]))) has_real_derivative gx ! p) (at (x ! p))"
proof -
  let ?c = "\<lambda>t. x[p := x ! p + t]"
  have "path x ?c (\<lambda>q. if q = p then 1 else 0)"
    using assms(2) by (intro pathI) (auto simp: nth_list_update intro!: derivative_eq_intros)
  then have "((\<lambda>t. inner g (f (?c t))) has_real_derivative (\<Sum>q < length x. gx ! q * (if q = p then 1 else 0))) (at 0)"
    using assms(1) by (simp add: vjp_def)
  moreover have "(\<Sum>q < length x. gx ! q * (if q = p then 1 else 0)) = gx ! p" using assms(2) by (simp add: if_distrib cong: if_cong)
  ultimately show ?thesis using DERIV_shift [of "\<lambda>t. inner g (f (x[p := t]))" "gx ! p" 0 "x ! p"]
    by (simp add: add.commute)
qed

text \<open>
  A layer of the net: its forward and its backward function, on the inputs in \<open>ok\<close>.
\<close>

locale diff_layer =
  fixes fwd :: "real list \<Rightarrow> real list" and bwd :: "real list \<Rightarrow> real list \<Rightarrow> real list"
    and ok :: "real list \<Rightarrow> bool"
  assumes bwd_vjp: "ok x \<Longrightarrow> length g = length (fwd x) \<Longrightarrow> vjp fwd x g (bwd x g)"
    and fwd_length: "ok x \<Longrightarrow> length y = length x \<Longrightarrow> length (fwd y) = length (fwd x)"
begin

lemma bwd_length: "ok x \<Longrightarrow> length g = length (fwd x) \<Longrightarrow> length (bwd x g) = length x"
  using bwd_vjp by (simp add: vjp_def)

lemma bwd_partial:
  "ok x \<Longrightarrow> length g = length (fwd x) \<Longrightarrow> p < length x \<Longrightarrow>
   ((\<lambda>t. inner g (fwd (x[p := t]))) has_real_derivative bwd x g ! p) (at (x ! p))"
  using vjp_partial [OF bwd_vjp] by blast

text \<open>The outputs follow a path of their own, whose velocity is seen through unit vectors.\<close>

lemma fwd_path:
  assumes "ok x" and "path x c d"
  shows "\<exists>e. path (fwd x) (\<lambda>t. fwd (c t)) e"
proof -
  let ?u = "\<lambda>q. (replicate (length (fwd x)) 0)[q := 1] :: real list"
  have "((\<lambda>t. fwd (c t) ! q) has_real_derivative (\<Sum>p < length x. bwd x (?u q) ! p * d p)) (at 0)" if "q < length (fwd x)" for q
  proof -
    have "inner (?u q) y = y ! q" for y
      using that by (simp add: inner_def nth_list_update if_distrib [of "\<lambda>a. a * _"] cong: if_cong)
    moreover have "((\<lambda>t. inner (?u q) (fwd (c t))) has_real_derivative (\<Sum>p < length x. bwd x (?u q) ! p * d p)) (at 0)"
      using bwd_vjp [OF assms(1), of "?u q"] assms(2) by (simp add: vjp_def)
    ultimately show ?thesis by simp
  qed
  moreover have "fwd (c 0) = fwd x" "\<And>t. length (fwd (c t)) = length (fwd x)"
    using pathD(1) [OF assms(2)] by simp (rule fwd_length [OF assms(1) pathD(2) [OF assms(2)]])
  ultimately have "path (fwd x) (\<lambda>t. fwd (c t)) (\<lambda>q. \<Sum>p < length x. bwd x (?u q) ! p * d p)" by (simp add: path_def)
  then show ?thesis by (rule exI [where P = "path (fwd x) (\<lambda>t. fwd (c t))"])
qed

end

text \<open>Back-propagation through two layers.\<close>

lemma vjp_compose:
  assumes "diff_layer f1 b1 ok1" and "ok1 x" and "vjp f2 (f1 x) g g1" and "vjp f1 x g1 gx"
  shows "vjp (\<lambda>x. f2 (f1 x)) x g gx"
  unfolding vjp_def
proof (intro conjI allI impI)
  show "length gx = length x" using assms(4) by (simp add: vjp_def)
  fix c d assume c: "path x c d"
  obtain e where e: "path (f1 x) (\<lambda>t. f1 (c t)) e" using diff_layer.fwd_path [OF assms(1,2) c] by blast
  have l1: "length g1 = length (f1 x)" using assms(3) by (simp add: vjp_def)
  have "((\<lambda>t. inner g1 (f1 (c t))) has_real_derivative (\<Sum>q < length g1. g1 ! q * e q)) (at 0)"
    using pathD(3) [OF e] l1 by (intro inner_derivative) simp
  moreover have "((\<lambda>t. inner g1 (f1 (c t))) has_real_derivative (\<Sum>p < length x. gx ! p * d p)) (at 0)"
    using assms(4) c by (simp add: vjp_def)
  ultimately have "(\<Sum>q < length g1. g1 ! q * e q) = (\<Sum>p < length x. gx ! p * d p)" by (rule DERIV_unique)
  moreover have "((\<lambda>t. inner g (f2 (f1 (c t)))) has_real_derivative (\<Sum>q < length (f1 x). g1 ! q * e q)) (at 0)"
    using assms(3) e by (simp add: vjp_def)
  ultimately show "((\<lambda>t. inner g (f2 (f1 (c t)))) has_real_derivative (\<Sum>p < length x. gx ! p * d p)) (at 0)"
    using l1 by simp
qed


section \<open>The layers are differentiated correctly\<close>

lemma elementwise_layer:
  assumes "\<And>a. good a \<Longrightarrow> (f has_real_derivative f' (f a)) (at a)"
  shows "diff_layer (map f) (\<lambda>x g. map2 (\<lambda>y g. f' y * g) (map f x) g) (\<lambda>x. \<forall>a \<in> set x. good a)"
proof
  fix x g :: "real list" assume x: "\<forall>a \<in> set x. good a" and g: "length g = length (map f x)"
  show "vjp (map f) x g (map2 (\<lambda>y g. f' y * g) (map f x) g)"
    unfolding vjp_def
  proof (intro conjI allI impI)
    fix c d assume c: "path x c d"
    have "((\<lambda>t. map f (c t) ! q) has_real_derivative f' (f (x ! q)) * d q) (at 0)" if "q < length g" for q
    proof -
      have q: "q < length x" using that g by simp
      have "(f has_real_derivative f' (f (x ! q))) (at (c 0 ! q))" using assms x q pathD(1) [OF c] by simp
      then have "((\<lambda>t. f (c t ! q)) has_real_derivative f' (f (x ! q)) * d q) (at 0)"
        by (rule DERIV_chain2) (rule pathD(3) [OF c q])
      moreover have "(\<lambda>t. map f (c t) ! q) = (\<lambda>t. f (c t ! q))" using pathD(2) [OF c] q by simp
      ultimately show ?thesis by simp
    qed
    then have "((\<lambda>t. inner g (map f (c t))) has_real_derivative (\<Sum>q < length g. g ! q * (f' (f (x ! q)) * d q))) (at 0)"
      by (rule inner_derivative)
    moreover have "(\<Sum>q < length g. g ! q * (f' (f (x ! q)) * d q)) =
        (\<Sum>p < length x. map2 (\<lambda>y g. f' y * g) (map f x) g ! p * d p)"
      using g by (intro sum.cong) auto
    ultimately show "((\<lambda>t. inner g (map f (c t))) has_real_derivative
        (\<Sum>p < length x. map2 (\<lambda>y g. f' y * g) (map f x) g ! p * d p)) (at 0)" by simp
  qed (use g in simp)
qed simp

lemma relu_derivative: "a \<noteq> 0 \<Longrightarrow> (relu has_real_derivative relu_grad (relu a)) (at a)"
proof (cases "0 < a")
  case True
  have "((\<lambda>x. x) has_real_derivative 1) (at a)" by simp
  then have "(relu has_real_derivative 1) (at a)"
    by (rule has_field_derivative_transform_within [where d = a]) (use True in \<open>auto simp: relu_def dist_real_def\<close>)
  then show ?thesis using True by (simp add: relu_grad_def relu_def)
next
  case False
  assume "a \<noteq> 0"
  then have neg: "a < 0" using False by simp
  have "((\<lambda>x. 0) has_real_derivative 0) (at a)" by simp
  then have "(relu has_real_derivative 0) (at a)"
    by (rule has_field_derivative_transform_within [where d = "- a"]) (use neg in \<open>auto simp: relu_def dist_real_def\<close>)
  then show ?thesis using neg by (simp add: relu_grad_def relu_def)
qed

lemma stanh_derivative: "(stanh has_real_derivative stanh_grad (stanh a)) (at a)"
proof -
  have "(stanh has_real_derivative 1.7159047 * ((1 - tanh (0.66666667 * a) ^ 2) * 0.66666667)) (at a)"
    unfolding stanh_def by (intro DERIV_cmult has_field_derivative_tanh DERIV_cmult_Id) simp
  then show ?thesis by (simp add: stanh_grad_def stanh_def power2_eq_square algebra_simps)
qed

interpretation relu: diff_layer "map relu" "\<lambda>x g. map2 (\<lambda>y g. relu_grad y * g) (map relu x) g" "\<lambda>x. \<forall>a \<in> set x. a \<noteq> 0"
  by (rule elementwise_layer) (rule relu_derivative)

interpretation stanh: diff_layer "map stanh" "\<lambda>x g. map2 (\<lambda>y g. stanh_grad y * g) (map stanh x) g" "\<lambda>x. \<forall>a \<in> set x. True"
  by (rule elementwise_layer) (rule stanh_derivative)


interpretation dropout: diff_layer "\<lambda>x. map2 (*) x ms" "\<lambda>x g. map2 (*) g ms" "\<lambda>x. length x = length ms" for ms
proof
  fix x g :: "real list" assume x: "length x = length ms" and g: "length g = length (map2 (*) x ms)"
  show "vjp (\<lambda>x. map2 (*) x ms) x g (map2 (*) g ms)"
    unfolding vjp_def
  proof (intro conjI allI impI)
    fix c d assume c: "path x c d"
    have "((\<lambda>t. map2 (*) (c t) ms ! q) has_real_derivative d q * ms ! q) (at 0)" if "q < length g" for q
      using DERIV_cmult_right [OF pathD(3) [OF c, of q], of "ms ! q"] pathD(2) [OF c] that x g by simp
    then have "((\<lambda>t. inner g (map2 (*) (c t) ms)) has_real_derivative (\<Sum>q < length g. g ! q * (d q * ms ! q))) (at 0)"
      by (rule inner_derivative)
    moreover have "(\<Sum>q < length g. g ! q * (d q * ms ! q)) = (\<Sum>p < length x. map2 (*) g ms ! p * d p)"
      using x g by (intro sum.cong) auto
    ultimately show "((\<lambda>t. inner g (map2 (*) (c t) ms)) has_real_derivative (\<Sum>p < length x. map2 (*) g ms ! p * d p)) (at 0)"
      by simp
  qed (use x g in simp)
qed simp

text \<open>The fully connected layer as a function of its inputs, its weights and its bias.\<close>

definition affine :: "nat \<Rightarrow> nat \<Rightarrow> nat \<Rightarrow> real list \<Rightarrow> real list \<Rightarrow> real list \<Rightarrow> real list" where
  "affine n k m ws bs xs = add_repmat n m (dot n k m (ent k xs) (ent m ws)) bs"

lemma length_affine [simp]: "length (affine n k m ws bs xs) = n * m"
  by (simp add: affine_def add_repmat_def)

lemma nth_affine:
  "i < n \<Longrightarrow> j < m \<Longrightarrow> affine n k m ws bs xs ! (i * m + j) = (\<Sum>l < k. xs ! (i * k + l) * ws ! (l * m + j)) + bs ! j"
  by (simp add: affine_def add_repmat_def nth_tab ent_tab dot_def fsum_sum) (simp add: ent_def)

lemma affine_derivative:
  assumes "path xs cx dx" and "path ws cw dw" and "path bs cb db"
    and "length xs = n * k" and "length ws = k * m" and "length bs = m" and "length g = n * m"
  shows "((\<lambda>t. inner g (affine n k m (cw t) (cb t) (cx t))) has_real_derivative
    (\<Sum>i < n. \<Sum>j < m. g ! (i * m + j) *
      ((\<Sum>l < k. dx (i * k + l) * ws ! (l * m + j) + xs ! (i * k + l) * dw (l * m + j)) + db j))) (at 0)"
proof -
  have "((\<lambda>t. (\<Sum>l < k. cx t ! (i * k + l) * cw t ! (l * m + j)) + cb t ! j) has_real_derivative
      (\<Sum>l < k. dx (i * k + l) * ws ! (l * m + j) + xs ! (i * k + l) * dw (l * m + j)) + db j) (at 0)"
    if ij: "i < n" "j < m" for i j
  proof (intro DERIV_add DERIV_sum)
    show "((\<lambda>t. cb t ! j) has_real_derivative db j) (at 0)" using pathD(3) [OF assms(3)] ij assms(6) by simp
    fix l assume "l \<in> {..<k}"
    then have "i * k + l < length xs" "l * m + j < length ws" using ij assms(4,5) by (simp_all add: position_lt)
    then have "((\<lambda>t. cx t ! (i * k + l) * cw t ! (l * m + j)) has_real_derivative
        dx (i * k + l) * cw 0 ! (l * m + j) + dw (l * m + j) * cx 0 ! (i * k + l)) (at 0)"
      by (intro DERIV_mult pathD(3) [OF assms(1)] pathD(3) [OF assms(2)])
    then show "((\<lambda>t. cx t ! (i * k + l) * cw t ! (l * m + j)) has_real_derivative
        dx (i * k + l) * ws ! (l * m + j) + xs ! (i * k + l) * dw (l * m + j)) (at 0)"
      using pathD(1) [OF assms(1)] pathD(1) [OF assms(2)] by (simp add: mult.commute)
  qed
  then have "((\<lambda>t. \<Sum>i < n. \<Sum>j < m. g ! (i * m + j) * ((\<Sum>l < k. cx t ! (i * k + l) * cw t ! (l * m + j)) + cb t ! j))
      has_real_derivative (\<Sum>i < n. \<Sum>j < m. g ! (i * m + j) *
      ((\<Sum>l < k. dx (i * k + l) * ws ! (l * m + j) + xs ! (i * k + l) * dw (l * m + j)) + db j))) (at 0)"
    by (intro DERIV_sum DERIV_cmult) simp
  moreover have "inner g (affine n k m (cw t) (cb t) (cx t)) =
      (\<Sum>i < n. \<Sum>j < m. g ! (i * m + j) * ((\<Sum>l < k. cx t ! (i * k + l) * cw t ! (l * m + j)) + cb t ! j))" for t
    unfolding inner_def assms(7) sum_positions by (intro sum.cong) (auto simp: nth_affine)
  ultimately show ?thesis by simp
qed

interpretation affine_x: diff_layer "affine n k m ws bs" "\<lambda>x g. dot n m k (ent m g) (\<lambda>i j. ent m ws j i)"
  "\<lambda>x. length x = n * k \<and> length ws = k * m \<and> length bs = m" for n k m ws bs
proof
  fix x g :: "real list"
  assume x: "length x = n * k \<and> length ws = k * m \<and> length bs = m" and g: "length g = length (affine n k m ws bs x)"
  show "vjp (affine n k m ws bs) x g (dot n m k (ent m g) (\<lambda>i j. ent m ws j i))"
    unfolding vjp_def
  proof (intro conjI allI impI)
    fix c d assume c: "path x c d"
    have "(\<Sum>i < n. \<Sum>j < m. g ! (i * m + j) * ((\<Sum>l < k. d (i * k + l) * ws ! (l * m + j) + x ! (i * k + l) * 0) + 0)) =
        (\<Sum>i < n. \<Sum>l < k. (\<Sum>j < m. g ! (i * m + j) * ws ! (l * m + j)) * d (i * k + l))"
      by (simp add: sum_distrib_left sum_distrib_right sum.swap [of _ "{..<m}" "{..<k}"] ac_simps)
    also have "\<dots> = (\<Sum>p < length x. dot n m k (ent m g) (\<lambda>i j. ent m ws j i) ! p * d p)"
      using x by (simp add: sum_positions dot_def nth_tab fsum_sum ent_def)
    finally show "((\<lambda>t. inner g (affine n k m ws bs (c t))) has_real_derivative
        (\<Sum>p < length x. dot n m k (ent m g) (\<lambda>i j. ent m ws j i) ! p * d p)) (at 0)"
      using affine_derivative [OF c path_const path_const, of n k ws m bs g] x g by simp
  qed (use x in \<open>simp add: dot_def\<close>)
qed simp

interpretation affine_w: diff_layer "\<lambda>ws. affine n k m ws bs xs" "\<lambda>ws g. dot k n m (\<lambda>i j. ent k xs j i) (ent m g)"
  "\<lambda>ws. length ws = k * m \<and> length xs = n * k \<and> length bs = m" for n k m xs bs
proof
  fix ws g :: "real list"
  assume x: "length ws = k * m \<and> length xs = n * k \<and> length bs = m" and g: "length g = length (affine n k m ws bs xs)"
  show "vjp (\<lambda>ws. affine n k m ws bs xs) ws g (dot k n m (\<lambda>i j. ent k xs j i) (ent m g))"
    unfolding vjp_def
  proof (intro conjI allI impI)
    fix c d assume c: "path ws c d"
    have "(\<Sum>i < n. \<Sum>j < m. g ! (i * m + j) * ((\<Sum>l < k. 0 * ws ! (l * m + j) + xs ! (i * k + l) * d (l * m + j)) + 0)) =
        (\<Sum>i < n. \<Sum>l < k. \<Sum>j < m. xs ! (i * k + l) * g ! (i * m + j) * d (l * m + j))"
      by (simp add: sum_distrib_left sum.swap [of _ "{..<m}" "{..<k}"] ac_simps)
    also have "\<dots> = (\<Sum>l < k. \<Sum>j < m. (\<Sum>i < n. xs ! (i * k + l) * g ! (i * m + j)) * d (l * m + j))"
      by (subst sum.swap) (simp add: sum_distrib_right sum.swap [of _ "{..<m}" "{..<n}"])
    also have "\<dots> = (\<Sum>p < length ws. dot k n m (\<lambda>i j. ent k xs j i) (ent m g) ! p * d p)"
      using x by (simp add: sum_positions dot_def nth_tab fsum_sum ent_def)
    finally show "((\<lambda>t. inner g (affine n k m (c t) bs xs)) has_real_derivative
        (\<Sum>p < length ws. dot k n m (\<lambda>i j. ent k xs j i) (ent m g) ! p * d p)) (at 0)"
      using affine_derivative [OF path_const c path_const, of xs n k m bs g] x g by simp
  qed (use x in \<open>simp add: dot_def\<close>)
qed simp

interpretation affine_b: diff_layer "\<lambda>bs. affine n k m ws bs xs" "\<lambda>bs g. sum_rows n m g"
  "\<lambda>bs. length bs = m \<and> length ws = k * m \<and> length xs = n * k" for n k m ws xs
proof
  fix bs g :: "real list"
  assume x: "length bs = m \<and> length ws = k * m \<and> length xs = n * k" and g: "length g = length (affine n k m ws bs xs)"
  show "vjp (\<lambda>bs. affine n k m ws bs xs) bs g (sum_rows n m g)"
    unfolding vjp_def
  proof (intro conjI allI impI)
    fix c d assume c: "path bs c d"
    have "(\<Sum>i < n. \<Sum>j < m. g ! (i * m + j) * ((\<Sum>l < k. 0 * ws ! (l * m + j) + xs ! (i * k + l) * 0) + d j)) =
        (\<Sum>j < m. (\<Sum>i < n. g ! (i * m + j)) * d j)"
      by (simp add: sum_distrib_right sum.swap [of _ "{..<n}" "{..<m}"])
    also have "\<dots> = (\<Sum>p < length bs. sum_rows n m g ! p * d p)" using x by (simp add: sum_rows_def fsum_sum ent_def)
    finally show "((\<lambda>t. inner g (affine n k m ws (c t) xs)) has_real_derivative (\<Sum>p < length bs. sum_rows n m g ! p * d p)) (at 0)"
      using affine_derivative [OF path_const path_const c, of xs n k ws m g] x g by simp
  qed (use x in \<open>simp add: sum_rows_def\<close>)
qed simp


text \<open>The shift by the maximum cancels.\<close>

lemma Softmax_row_eq: "Softmax_row es = map (\<lambda>e. exp e / (\<Sum>k < length es. exp (es ! k))) es"
proof -
  let ?M = "foldl max (es ! 0) es"
  have "(\<Sum>k < length es. exp (es ! k - ?M)) = (\<Sum>k < length es. exp (es ! k)) / exp ?M"
    by (simp add: exp_diff sum_divide_distrib)
  then have "exp (e - ?M) / (\<Sum>k < length es. exp (es ! k - ?M)) = exp e / (\<Sum>k < length es. exp (es ! k))" for e
    by (simp add: exp_diff)
  then show ?thesis by (simp add: Softmax_row_def Let_def fsum_sum)
qed

lemma Softmax_tab:
  assumes "length xs = n * m"
  shows "Softmax n m xs = tab n m (\<lambda>i j. exp (xs ! (i * m + j)) / (\<Sum>k < m. exp (xs ! (i * m + k))))"
proof -
  have "Softmax_row (segment (i * m) m xs) = map (\<lambda>j. exp (xs ! (i * m + j)) / (\<Sum>k < m. exp (xs ! (i * m + k)))) [0..<m]"
    if "i < n" for i
  proof -
    have le: "i * m + m \<le> length xs" using that assms mult_le_mono1 [of "Suc i" n m] by simp
    then have "segment (i * m) m xs = map (\<lambda>j. xs ! (i * m + j)) [0..<m]"
      by (intro nth_equalityI) (simp_all add: segment_def)
    then show ?thesis by (simp add: Softmax_row_eq o_def)
  qed
  then have "map (\<lambda>i. Softmax_row (segment (i * m) m xs)) [0..<n] =
      map (\<lambda>i. map (\<lambda>j. exp (xs ! (i * m + j)) / (\<Sum>k < m. exp (xs ! (i * m + k)))) [0..<m]) [0..<n]" by simp
  then show ?thesis unfolding Softmax_def tab_def by (rule arg_cong)
qed

text \<open>The loss of a batch with the given labels, as \<open>ComputeFeature\<close> adds it to the metric.\<close>

definition batch_loss :: "nat \<Rightarrow> nat \<Rightarrow> (nat \<Rightarrow> nat) \<Rightarrow> real \<Rightarrow> real list \<Rightarrow> real" where
  "batch_loss n m lab sc xs = (\<Sum>i < n. - ln (max (Softmax n m xs ! (i * m + lab i)) FLT_MIN)) * sc / real n"

definition loss_gradient :: "nat \<Rightarrow> nat \<Rightarrow> (nat \<Rightarrow> nat) \<Rightarrow> real \<Rightarrow> real list \<Rightarrow> real list" where
  "loss_gradient n m lab sc xs =
     tab n m (\<lambda>i j. (Softmax n m xs ! (i * m + j) - (if j = lab i then 1 else 0)) * (sc / real n))"

definition confident :: "nat \<Rightarrow> nat \<Rightarrow> (nat \<Rightarrow> nat) \<Rightarrow> real list \<Rightarrow> bool" where
  "confident n m lab xs \<longleftrightarrow> length xs = n * m \<and> (\<forall>i < n. lab i < m \<and> FLT_MIN < Softmax n m xs ! (i * m + lab i))"

lemma log_softmax_derivative:
  assumes "path x c d" and "length x = n * m" and "i < n" and "l < m" and "FLT_MIN < Softmax n m x ! (i * m + l)"
  shows "((\<lambda>t. - ln (max (Softmax n m (c t) ! (i * m + l)) FLT_MIN)) has_real_derivative
    (\<Sum>j < m. (Softmax n m x ! (i * m + j) - (if j = l then 1 else 0)) * d (i * m + j))) (at 0)"
proof -
  let ?e = "\<lambda>t j. c t ! (i * m + j)"
  let ?u = "\<lambda>t. ln (\<Sum>k < m. exp (?e t k)) - ?e t l"
  have Sx: "Softmax n m x ! (i * m + j) = exp (?e 0 j) / (\<Sum>k < m. exp (?e 0 k))" if "j < m" for j
    using that assms(2,3) pathD(1) [OF assms(1)] by (simp add: Softmax_tab nth_tab)
  have pos: "0 < (\<Sum>k < m. exp (?e t k))" for t using assms(4) by (intro sum_pos) auto
  have S: "Softmax n m (c t) ! (i * m + l) = exp (- ?u t)" for t
    using pathD(2) [OF assms(1)] assms(2-4) pos [of t] by (simp add: Softmax_tab nth_tab exp_diff)
  have e: "((\<lambda>t. ?e t j) has_real_derivative d (i * m + j)) (at 0)" if "j < m" for j
    using pathD(3) [OF assms(1)] position_lt [OF assms(3) that] assms(2) by simp
  have "((\<lambda>t. \<Sum>k < m. exp (?e t k)) has_real_derivative (\<Sum>k < m. exp (?e 0 k) * d (i * m + k))) (at 0)"
    by (intro DERIV_sum DERIV_fun_exp e) simp
  from DERIV_diff [OF DERIV_chain2 [OF DERIV_ln [OF pos] this] e [OF assms(4)]]
  have u: "(?u has_real_derivative (\<Sum>k < m. exp (?e 0 k) * d (i * m + k)) / (\<Sum>k < m. exp (?e 0 k)) - d (i * m + l)) (at 0)"
    by (simp add: field_simps)
  have "isCont (\<lambda>t. exp (- ?u t)) 0" by (intro isCont_exp' isCont_minus DERIV_isCont [OF u])
  then have "((\<lambda>t. exp (- ?u t)) \<longlongrightarrow> exp (- ?u 0)) (nhds 0)"
    using tendsto_at_iff_tendsto_nhds [of "\<lambda>t. exp (- ?u t)" 0] by (simp only: isCont_def)
  moreover have "FLT_MIN < exp (- ?u 0)" using assms(5) S [of 0] pathD(1) [OF assms(1)] by simp
  ultimately have "eventually (\<lambda>t. FLT_MIN < exp (- ?u t)) (nhds 0)" by (rule order_tendstoD(1))
  then have ev: "eventually (\<lambda>t. ?u t = - ln (max (Softmax n m (c t) ! (i * m + l)) FLT_MIN)) (nhds 0)"
    by (rule eventually_mono) (simp add: S)
  have "(\<Sum>j < m. (Softmax n m x ! (i * m + j) - (if j = l then 1 else 0)) * d (i * m + j)) =
      (\<Sum>k < m. exp (?e 0 k) * d (i * m + k)) / (\<Sum>k < m. exp (?e 0 k)) - d (i * m + l)"
    using assms(4) by (simp add: Sx left_diff_distrib sum_subtractf sum_divide_distrib if_distrib [of "\<lambda>a. a * _"] cong: if_cong)
  then show ?thesis using u DERIV_cong_ev [OF refl ev refl] by simp
qed

lemma batch_loss_vjp:
  assumes "confident n m lab x"
  shows "vjp (\<lambda>x. [batch_loss n m lab sc x]) x [1] (loss_gradient n m lab sc x)"
  unfolding vjp_def
proof (intro conjI allI impI)
  note x = assms [unfolded confident_def]
  show "length (loss_gradient n m lab sc x) = length x" using x by (simp add: loss_gradient_def)
  fix c d assume c: "path x c d"
  have "((\<lambda>t. batch_loss n m lab sc (c t)) has_real_derivative
      (\<Sum>i < n. \<Sum>j < m. (Softmax n m x ! (i * m + j) - (if j = lab i then 1 else 0)) * d (i * m + j)) * sc / real n) (at 0)"
    unfolding batch_loss_def
    by (intro DERIV_cdivide DERIV_cmult_right DERIV_sum log_softmax_derivative [OF c]) (use x in auto)
  moreover have "(\<Sum>i < n. \<Sum>j < m. (Softmax n m x ! (i * m + j) - (if j = lab i then 1 else 0)) * d (i * m + j)) * sc / real n =
      (\<Sum>p < length x. loss_gradient n m lab sc x ! p * d p)"
    unfolding x [THEN conjunct1] sum_positions
    unfolding loss_gradient_def sum_distrib_right sum_divide_distrib by (intro sum.cong) (simp_all add: nth_tab)
  ultimately show "((\<lambda>t. inner [1] [batch_loss n m lab sc (c t)]) has_real_derivative
      (\<Sum>p < length x. loss_gradient n m lab sc x ! p * d p)) (at 0)" by (simp add: inner_def)
qed

end
