(* ===== verification/Backprop.thy ===== *)
theory Backprop
  imports Gradients
begin

text \<open>
  The methods of the layers on the heap. Where the blobs of a layer lie apart, \<open>ComputeFeature\<close> and \<open>ComputeGradient\<close> refine
  functions on the values of the blobs (\<open>refines\<close>): fully connected layers, layers that work on every float alone and the softmax loss.
\<close>

section \<open>Layers on the heap\<close>

text \<open>The blobs in \<open>B\<close> do not share memory, have the shapes of \<open>h0\<close> and hold the values \<open>v\<close>.\<close>

definition hold :: "nat set \<Rightarrow> 'f heap \<Rightarrow> (nat \<Rightarrow> 'f list) \<Rightarrow> ('f :: zero) heap \<Rightarrow> bool" where
  "hold B h0 v h \<longleftrightarrow> apart B h \<and> blobs h = blobs h0 \<and> (\<forall>b \<in> B. contents h b = v b)"

lemma hold_start: "apart B h \<Longrightarrow> hold B h (contents h) h"
  by (simp add: hold_def)

lemma hold_length: "hold B h0 v h \<Longrightarrow> b \<in> B \<Longrightarrow> length (v b) = nat (bcount (blobs h0 b))"
  using apartD(6) [of B h b] by (auto simp: hold_def)

lemma okR_tensor:
  assumes "hold B h0 v h" and "b \<in> B"
  shows "okR (tensor b h) (\<lambda>(xs, h1). xs = v b \<and> hold B h0 v h1)"
proof -
  have h: "apart B h" "blobs h = blobs h0" "\<forall>b \<in> B. contents h b = v b" using assms(1) by (auto simp: hold_def)
  obtain q h1 where q: "mutable_cpu_data b h = Inr (q, h1)" "at_ptr h1 b q" "apart B h1" "blobs h1 = blobs h"
    "\<forall>c < nblob h. contents h1 c = contents h c"
    using apart_ptr [OF h(1) assms(2)] by blast
  have "contents h1 c = v c" if "c \<in> B" for c using q(5) h(3) apartD(2) [OF h(1) that] that by simp
  then show ?thesis
    using q apart_read [OF q(3) assms(2) q(2)] h(2) assms(2) by (simp add: tensor_def hold_def)
qed

lemma okR_write:
  assumes "hold B h0 v h" and "b \<in> B" and "length xs = length (v b)"
  shows "okR (blob_write b xs h) (hold B h0 (v(b := xs)))"
proof -
  have h: "apart B h" "blobs h = blobs h0" "\<forall>b \<in> B. contents h b = v b" using assms(1) by (auto simp: hold_def)
  obtain h1 where "blob_write b xs h = Inr h1" "apart B h1" "blobs h1 = blobs h" "contents h1 b = xs"
    "\<forall>c \<in> B. c \<noteq> b \<longrightarrow> contents h1 c = contents h c"
    using apart_write [OF h(1) assms(2), of xs] hold_length [OF assms(1,2)] assms(3) h(2) by auto
  then show ?thesis using h by (simp add: hold_def)
qed

lemma okR_read:
  assumes "hold B h0 v h" and "b \<in> B"
  shows "okR (blob_read b h) (\<lambda>(xs, h1). xs = v b \<and> hold B h0 v h1)"
proof -
  have h: "apart B h" "blobs h = blobs h0" "\<forall>b \<in> B. contents h b = v b" using assms(1) by (auto simp: hold_def)
  note b = apartD [OF h(1) assms(2)]
  obtain h1 where h1: "blob_read b h = Inr (contents h b, h1)" "wf_heap h1" "blobs h1 = blobs h" "nblob h1 = nblob h"
    "\<forall>c < nblob h. contents h1 c = contents h c"
    using blob_read_spec [OF b(1-3)] by blast
  obtain s where s: "bdata (blobs h b) = Some s" "to_cpu s h = Inr h1"
    using h1(1) by (auto simp: blob_read_def cpu_data_def with_data_def sm_cpu_data_def bindR_eq_Inr split: option.splits)
  have init: "sm_head (syncs h1 s) \<noteq> UNINITIALIZED"
    using s(2) by (auto simp: to_cpu_def malloc0_def upd_sync_def split: SyncedHead.splits)
  have m: "\<exists>q. mutable_cpu_data b h = Inr (q, upd_sync s (\<lambda>m. m\<lparr>sm_head := HEAD_AT_CPU\<rparr>) h1)"
    using s by (simp add: mutable_cpu_data_def with_data_def sm_mutable_cpu_data_def Let_def)
  have "separate h1 c d" if "c \<in> B" "d \<in> B" "c \<noteq> d" for c d
  proof -
    have "separate (upd_sync s (\<lambda>m. m\<lparr>sm_head := HEAD_AT_CPU\<rparr>) h1) c d"
      using m mutable_cpu_data_separate [OF b(1,2)] h(1) that by (auto simp: apart_def)
    then show ?thesis using separate_upd_head [OF init] by simp
  qed
  then have "apart B h1" using h(1) h1(2-4) by (auto simp: apart_def)
  then show ?thesis using h1(1,3,5) h assms(2) apartD(2) [OF h(1)] by (auto simp: hold_def)
qed

text \<open>A matrix of \<open>n\<close> rows of \<open>m\<close> floats.\<close>

definition is_mat :: "'f heap \<Rightarrow> nat \<Rightarrow> nat \<Rightarrow> nat \<Rightarrow> bool" where
  "is_mat h b n m \<longleftrightarrow> 0 < n \<and> bcount (blobs h b) = int (n * m) \<and> (\<exists>r. shape (blobs h b) = int n # r)"

lemma row_size_mat: "is_mat h0 b n m \<Longrightarrow> blobs h = blobs h0 \<Longrightarrow> row_size b h = Inr (n, m)"
  for h0 h :: "'f heap"
  by (auto simp: row_size_def is_mat_def idxR_def)

lemma okR_Tensor2:
  assumes "hold B h0 v h" and "b \<in> B" and "is_mat h0 b n m"
  shows "okR (Tensor2 b h) (\<lambda>(n1, m1, xs, h1). n1 = n \<and> m1 = m \<and> xs = v b \<and> hold B h0 v h1)"
proof -
  have r: "row_size b h = Inr (n, m)" using row_size_mat [OF assms(3)] assms(1) by (simp add: hold_def)
  show ?thesis unfolding Tensor2_def r using okR_tensor [OF assms(1,2)] by (auto intro!: okR_bind elim: okR_mono)
qed


lemma okR_seq: "okR m P \<Longrightarrow> (\<And>x. P x \<Longrightarrow> okR (k x) Q) \<Longrightarrow> okR (bindR m k) Q"
  by (rule okR_bind) (rule okR_mono)

lemma okRE: "okR m Q \<Longrightarrow> (\<And>x. m = Inr x \<Longrightarrow> Q x \<Longrightarrow> thesis) \<Longrightarrow> thesis"
  by (cases m) auto

lemma okR_with_mem: "okR (f (lmem s)) Q \<Longrightarrow> okR (with_mem f s) (\<lambda>s1. Q (lmem s1) \<and> s1 = s\<lparr>lmem := lmem s1\<rparr>)"
  unfolding with_mem_def by (rule okR_seq) simp_all

text \<open>The blobs around a fully connected layer: input, output, parameters and their gradients.\<close>

record fc_blobs =
  fc_x :: nat
  fc_y :: nat
  fc_gy :: nat
  fc_w :: nat
  fc_b :: nat
  fc_gw :: nat
  fc_gb :: nat
  fc_gx :: "nat option"

definition fc_list :: "fc_blobs \<Rightarrow> nat list" where
  "fc_list c = [fc_x c, fc_y c, fc_gy c, fc_w c, fc_b c, fc_gw c, fc_gb c] @ (case fc_gx c of None \<Rightarrow> [] | Some g \<Rightarrow> [g])"

definition fc_wired :: "nat \<Rightarrow> nat \<Rightarrow> nat \<Rightarrow> fc_blobs \<Rightarrow> nat \<Rightarrow> 'f lstate \<Rightarrow> bool" where
  "fc_wired n k m c l s \<longleftrightarrow>
     src_mutable_data s l 0 kPositive = Inr (Some (fc_x c)) \<and> src_mutable_grad s l 0 = Inr (fc_gx c) \<and>
     lo_data (objs s l) = fc_y c \<and> lo_grad (objs s l) = fc_gy c \<and> lo_batchsize (objs s l) = int n \<and>
     param_blob s (lo_weight (objs s l)) = Inr (fc_w c) \<and> param_blob s (lo_bias (objs s l)) = Inr (fc_b c) \<and>
     param_grad s (lo_weight (objs s l)) = Inr (fc_gw c) \<and> param_grad s (lo_bias (objs s l)) = Inr (fc_gb c) \<and>
     distinct (fc_list c) \<and> is_mat (lmem s) (fc_x c) n k \<and> is_mat (lmem s) (fc_y c) n m \<and> is_mat (lmem s) (fc_gy c) n m \<and>
     is_mat (lmem s) (fc_w c) k m \<and> is_mat (lmem s) (fc_gw c) k m \<and>
     (\<forall>g \<in> set_option (fc_gx c). is_mat (lmem s) g n k) \<and>
     bcount (blobs (lmem s) (fc_b c)) = int m \<and> bcount (blobs (lmem s) (fc_gb c)) = int m"

lemma mat_length: "hold B h0 v h \<Longrightarrow> b \<in> B \<Longrightarrow> is_mat h0 b n m \<Longrightarrow> length (v b) = n * m"
  for h0 :: "('f :: zero) heap"
  using hold_length [of B h0 v h b] by (simp add: is_mat_def nat_mult_distrib)

lemma okR_InnerProduct_feature:
  assumes "fc_wired n k m c l s" and "hold B (lmem s) v (lmem s)" and "set (fc_list c) \<subseteq> B"
  shows "okR (InnerProduct_ComputeFeature l s) (\<lambda>s1. s1 = s\<lparr>lmem := lmem s1\<rparr> \<and>
    hold B (lmem s) (v(fc_y c := add_repmat n m (dot n k m (ent k (v (fc_x c))) (ent m (v (fc_w c)))) (v (fc_b c)))) (lmem s1))"
proof -
  let ?h = "lmem s" and ?o = "objs s l"
  note w = assms(1) [unfolded fc_wired_def]
  have B: "fc_x c \<in> B" "fc_y c \<in> B" "fc_w c \<in> B" "fc_b c \<in> B" using assms(3) by (auto simp: fc_list_def)
  have lb: "length (v (fc_b c)) = m" using hold_length [OF assms(2) B(4)] w by simp
  have ly: "length (v (fc_y c)) = n * m" using mat_length [OF assms(2) B(2)] w by simp
  have mats: "is_mat ?h (fc_x c) n k" "is_mat ?h (fc_y c) n m" "is_mat ?h (fc_w c) k m" using w by auto
  have "okR (bindR (Tensor2 (fc_y c) ?h) (\<lambda>(n, m, _, h1).
        bindR (Tensor2 (fc_x c) h1) (\<lambda>(n1, k, xs, h2).
        bindR (Tensor2 (fc_w c) h2) (\<lambda>(k1, m1, ws, h3).
        bindR (tensor (fc_b c) h3) (\<lambda>(bs, h4).
          checkR (n1 = n \<and> k1 = k \<and> m1 = m \<and> length bs = m \<and> lo_batchsize ?o = int n) CheckFailed
            (blob_write (fc_y c) (add_repmat n m (dot n k m (ent k xs) (ent m ws)) bs) h4))))))
      (hold B ?h (v(fc_y c := add_repmat n m (dot n k m (ent k (v (fc_x c))) (ent m (v (fc_w c)))) (v (fc_b c)))))"
    apply (rule okR_seq [OF okR_Tensor2 [OF assms(2) B(2) mats(2)]])
    apply clarify
    apply (rule okR_seq [OF okR_Tensor2 [OF _ B(1) mats(1)]], assumption)
    apply clarify
    apply (rule okR_seq [OF okR_Tensor2 [OF _ B(3) mats(3)]], assumption)
    apply clarify
    apply (rule okR_seq [OF okR_tensor [OF _ B(4)]], assumption)
    using w lb ly by (auto simp: add_repmat_def intro!: okR_check okR_write B)
  then have "okR (InnerProduct_ComputeFeature l s) (\<lambda>s1. hold B ?h (v(fc_y c := add_repmat n m (dot n k m (ent k (v (fc_x c))) (ent m (v (fc_w c)))) (v (fc_b c)))) (lmem s1) \<and>
      s1 = s\<lparr>lmem := lmem s1\<rparr>)"
    using w by (simp add: InnerProduct_ComputeFeature_def Let_def deref_def okR_with_mem)
  then show ?thesis by (rule okR_mono) blast
qed


lemma okR_InnerProduct_gradient:
  assumes "fc_wired n k m c l s" and "hold B (lmem s) v (lmem s)" and "set (fc_list c) \<subseteq> B"
  defines "v1 \<equiv> v(fc_gb c := sum_rows n m (v (fc_gy c)),
      fc_gw c := dot k n m (\<lambda>i j. ent k (v (fc_x c)) j i) (ent m (v (fc_gy c))))"
  defines "v2 \<equiv> (case fc_gx c of None \<Rightarrow> v1
      | Some g \<Rightarrow> v1(g := dot n m k (ent m (v (fc_gy c))) (\<lambda>i j. ent m (v (fc_w c)) j i)))"
  shows "okR (InnerProduct_ComputeGradient l s) (\<lambda>s1. s1 = s\<lparr>lmem := lmem s1\<rparr> \<and> hold B (lmem s) v2 (lmem s1))"
proof -
  let ?h = "lmem s" and ?o = "objs s l"
  note w = assms(1) [unfolded fc_wired_def]
  have B: "fc_x c \<in> B" "fc_gy c \<in> B" "fc_w c \<in> B" "fc_gw c \<in> B" "fc_gb c \<in> B" using assms(3) by (auto simp: fc_list_def)
  have mats: "is_mat ?h (fc_x c) n k" "is_mat ?h (fc_gy c) n m" "is_mat ?h (fc_w c) k m" "is_mat ?h (fc_gw c) k m" using w by auto
  have lb: "length (v (fc_gb c)) = m" using hold_length [OF assms(2) B(5)] w by simp
  have lw: "length (v (fc_gw c)) = k * m" using mat_length [OF assms(2) B(4)] w by simp
  have ne: "fc_gb c \<noteq> fc_gw c" using w by (auto simp: fc_list_def)
  have last_step: "okR (case fc_gx c of None \<Rightarrow> Inr h7 | Some gs1 \<Rightarrow>
        bindR (Tensor2 gs1 h7) (\<lambda>(n3, k3, _, h8).
          checkR (n3 = n \<and> k3 = k \<and> m = m) CheckFailed
            (blob_write gs1 (dot n m k (ent m (v (fc_gy c))) (\<lambda>i j. ent m (v (fc_w c)) j i)) h8))) (hold B ?h v2)"
    if h7: "hold B ?h v1 h7" for h7
  proof (cases "fc_gx c")
    case (Some g)
    have g: "g \<in> B" "is_mat ?h g n k" using assms(3) w Some by (auto simp: fc_list_def)
    show ?thesis
      unfolding Some option.case
      by (rule okR_seq [OF okR_Tensor2 [OF h7 g]])
        (use g mat_length [OF h7 g] Some in \<open>auto simp: v2_def dot_def intro!: okR_check okR_write\<close>)
  qed (use h7 in \<open>simp add: v2_def\<close>)
  have "okR (bindR (Tensor2 (fc_x c) ?h) (\<lambda>(n1, k, xs, h1).
        bindR (Tensor2 (fc_gy c) h1) (\<lambda>(n, m, gs, h2).
        bindR (Tensor2 (fc_w c) h2) (\<lambda>(k1, m1, ws, h3).
        bindR (Tensor2 (fc_gw c) h3) (\<lambda>(k2, m2, _, h4).
        bindR (tensor (fc_gb c) h4) (\<lambda>(bs, h5).
        checkR (length bs = m \<and> n1 = n \<and> k2 = k \<and> m2 = m) CheckFailed
        (bindR (blob_write (fc_gb c) (sum_rows n m gs) h5) (\<lambda>h6.
         bindR (blob_write (fc_gw c) (dot k n m (\<lambda>i j. ent k xs j i) (ent m gs)) h6) (\<lambda>h7.
           case fc_gx c of
             None \<Rightarrow> Inr h7
           | Some gs1 \<Rightarrow>
               bindR (Tensor2 gs1 h7) (\<lambda>(n3, k3, _, h8).
                 checkR (n3 = n \<and> k3 = k1 \<and> m1 = m) CheckFailed
                   (blob_write gs1 (dot n m k1 (ent m gs) (\<lambda>i j. ent m ws j i)) h8))))))))))) (hold B ?h v2)"
    apply (rule okR_seq [OF okR_Tensor2 [OF assms(2) B(1) mats(1)]])
    apply clarify
    apply (rule okR_seq [OF okR_Tensor2 [OF _ B(2) mats(2)]], assumption)
    apply clarify
    apply (rule okR_seq [OF okR_Tensor2 [OF _ B(3) mats(3)]], assumption)
    apply clarify
    apply (rule okR_seq [OF okR_Tensor2 [OF _ B(4) mats(4)]], assumption)
    apply clarify
    apply (rule okR_seq [OF okR_tensor [OF _ B(5)]], assumption)
    apply clarify
    apply (rule okR_check)
     apply (simp add: lb)
    apply (rule okR_seq [OF okR_write [OF _ B(5)]], assumption)
     apply (simp add: lb sum_rows_def)
    apply (rule okR_seq [OF okR_write [OF _ B(4)]], assumption)
     apply (use ne lw in \<open>simp add: dot_def\<close>)
    by (rule last_step) (simp add: v1_def)
  then have "okR (InnerProduct_ComputeGradient l s) (\<lambda>s1. hold B ?h v2 (lmem s1) \<and> s1 = s\<lparr>lmem := lmem s1\<rparr>)"
    using w by (simp add: InnerProduct_ComputeGradient_def Let_def deref_def okR_with_mem)
  then show ?thesis by (rule okR_mono) blast
qed


lemma mat_contents: "apart B h \<Longrightarrow> b \<in> B \<Longrightarrow> is_mat h b n m \<Longrightarrow> length (contents h b) = n * m"
  for h :: "('f :: zero) heap"
  using mat_length [OF hold_start] by blast

lemma holdD: "hold B h0 v h \<Longrightarrow> b \<in> B \<Longrightarrow> contents h b = v b"
  by (simp add: hold_def)

text \<open>
  C2. A fully connected layer computes an affine map of its input, and its backward pass leaves the gradients of the weighted
  outputs by the weights, by the bias and, where the source layer has a gradient, by the input; the weights
  are the gradients that the next layer left. No other blob changes.
\<close>
theorem InnerProduct_differentiates:
  fixes s :: "real lstate"
  assumes "fc_wired n k m c l s" and "apart B (lmem s)" and "set (fc_list c) \<subseteq> B"
  defines "x \<equiv> contents (lmem s) (fc_x c)" and "w \<equiv> contents (lmem s) (fc_w c)" and "b \<equiv> contents (lmem s) (fc_b c)"
    and "g \<equiv> contents (lmem s) (fc_gy c)"
  shows "(\<exists>h1. InnerProduct_ComputeFeature l s = Inr (s\<lparr>lmem := h1\<rparr>) \<and> contents h1 (fc_y c) = affine n k m w b x \<and>
      (\<forall>d \<in> B - {fc_y c}. contents h1 d = contents (lmem s) d)) \<and>
    (\<exists>h2. InnerProduct_ComputeGradient l s = Inr (s\<lparr>lmem := h2\<rparr>) \<and>
      vjp (\<lambda>w. affine n k m w b x) w g (contents h2 (fc_gw c)) \<and>
      vjp (\<lambda>b. affine n k m w b x) b g (contents h2 (fc_gb c)) \<and>
      (case fc_gx c of None \<Rightarrow> True | Some gx \<Rightarrow> vjp (affine n k m w b) x g (contents h2 gx)) \<and>
      (\<forall>d \<in> B - {fc_gw c, fc_gb c} - set_option (fc_gx c). contents h2 d = contents (lmem s) d))"
proof (intro conjI)
  note wd = assms(1) [unfolded fc_wired_def]
  have inB: "fc_x c \<in> B" "fc_y c \<in> B" "fc_w c \<in> B" "fc_b c \<in> B" "fc_gy c \<in> B" "fc_gw c \<in> B" "fc_gb c \<in> B"
    using assms(3) by (auto simp: fc_list_def)
  note len = mat_contents [OF assms(2)]
  have lens: "length x = n * k" "length w = k * m" "length g = n * m" "length b = m"
    using len [OF inB(1)] len [OF inB(3)] len [OF inB(5)] apartD(6) [OF assms(2) inB(4)] wd by (auto simp: x_def w_def g_def b_def)
  have ne: "fc_gw c \<noteq> fc_gb c" "\<And>gx. fc_gx c = Some gx \<Longrightarrow> gx \<noteq> fc_gw c \<and> gx \<noteq> fc_gb c" using wd by (auto simp: fc_list_def)
  obtain s1 where s1: "InnerProduct_ComputeFeature l s = Inr s1" "s1 = s\<lparr>lmem := lmem s1\<rparr>"
    "hold B (lmem s) ((contents (lmem s))(fc_y c := affine n k m w b x)) (lmem s1)"
    using okR_InnerProduct_feature [OF assms(1) hold_start [OF assms(2)] assms(3), folded affine_def x_def w_def b_def]
    by (auto elim: okRE)
  then show "\<exists>h1. InnerProduct_ComputeFeature l s = Inr (s\<lparr>lmem := h1\<rparr>) \<and> contents h1 (fc_y c) = affine n k m w b x \<and>
      (\<forall>d \<in> B - {fc_y c}. contents h1 d = contents (lmem s) d)"
    using inB(2) by (intro exI [of _ "lmem s1"]) (auto simp: hold_def)
  let ?v1 = "(contents (lmem s))(fc_gb c := sum_rows n m g, fc_gw c := dot k n m (\<lambda>i j. ent k x j i) (ent m g))"
  let ?v2 = "case fc_gx c of None \<Rightarrow> ?v1 | Some gx \<Rightarrow> ?v1(gx := dot n m k (ent m g) (\<lambda>i j. ent m w j i))"
  obtain s2 where s2: "InnerProduct_ComputeGradient l s = Inr s2" "s2 = s\<lparr>lmem := lmem s2\<rparr>" "hold B (lmem s) ?v2 (lmem s2)"
    using okR_InnerProduct_gradient [OF assms(1) hold_start [OF assms(2)] assms(3), folded x_def w_def g_def]
    by (auto elim: okRE)
  have gx: "fc_gx c = Some gx \<Longrightarrow> gx \<in> B" for gx using assms(3) by (auto simp: fc_list_def)
  have c2: "contents (lmem s2) (fc_gw c) = dot k n m (\<lambda>i j. ent k x j i) (ent m g)"
    "contents (lmem s2) (fc_gb c) = sum_rows n m g"
    "fc_gx c = Some e \<Longrightarrow> contents (lmem s2) e = dot n m k (ent m g) (\<lambda>i j. ent m w j i)"
    "d \<in> B - {fc_gw c, fc_gb c} - set_option (fc_gx c) \<Longrightarrow> contents (lmem s2) d = contents (lmem s) d" for d e
    using holdD [OF s2(3)] inB(6,7) gx ne by (auto split: option.splits)
  show "\<exists>h2. InnerProduct_ComputeGradient l s = Inr (s\<lparr>lmem := h2\<rparr>) \<and>
      vjp (\<lambda>w. affine n k m w b x) w g (contents h2 (fc_gw c)) \<and>
      vjp (\<lambda>b. affine n k m w b x) b g (contents h2 (fc_gb c)) \<and>
      (case fc_gx c of None \<Rightarrow> True | Some gx \<Rightarrow> vjp (affine n k m w b) x g (contents h2 gx)) \<and>
      (\<forall>d \<in> B - {fc_gw c, fc_gb c} - set_option (fc_gx c). contents h2 d = contents (lmem s) d)"
    using s2(1,2) c2 lens affine_w.bwd_vjp [of w k m x n b g] affine_b.bwd_vjp [of b m w k x n g] affine_x.bwd_vjp [of x n k w m b g]
    by (intro exI [of _ "lmem s2"] conjI) (auto split: option.splits)
qed


text \<open>A heap of blobs with one row each.\<close>

definition row_heap :: "'f list list \<Rightarrow> 'f heap" where
  "row_heap vs =
     \<lparr>blocks = (\<lambda>b. if b < length vs then Some (vs ! b) else None), nblock = length vs,
      syncs = (\<lambda>b. \<lparr>cpu_ptr = Ptr b 0, sm_size = length (vs ! b), sm_head = HEAD_AT_CPU, own_cpu_data = True\<rparr>), nsync = length vs,
      blobs = (\<lambda>b. \<lparr>shape = [1, int (length (vs ! b))], bcount = int (length (vs ! b)), bcapacity = int (length (vs ! b)),
        bversion = 0, bdata = Some b\<rparr>), nblob = length vs\<rparr>"

lemma row_heap_apart:
  assumes "\<forall>v \<in> set vs. v \<noteq> [] \<and> length v < 2 ^ 31"
  shows "apart {..<length vs} (row_heap vs)" "b < length vs \<Longrightarrow> contents (row_heap vs) b = (vs ! b :: ('f :: zero) list)"
proof -
  have "wf_heap (row_heap vs)"
    by (auto simp: wf_heap_def row_heap_def wf_sync_def wf_blob_def region_def split: if_splits)
  moreover have "shape_count [1, int (length (vs ! b))] = Inr (int (length (vs ! b)))" if "b < length vs" for b
    using assms that by (auto simp: shape_count_def is_c_int_def)
  moreover have "0 < length (vs ! b)" if "b < length vs" for b using assms that by auto
  ultimately show "apart {..<length vs} (row_heap vs)"
    by (auto simp: apart_def row_heap_def separate_def ptr_disj_def)
  show "b < length vs \<Longrightarrow> contents (row_heap vs) b = vs ! b"
    by (simp add: contents_def row_heap_def block_of_def)
qed

lemma row_heap_mat: "is_mat (row_heap vs) b 1 (length (vs ! b))"
  by (simp add: is_mat_def row_heap_def)

text \<open>An input layer, here of class \<open>kReLU\<close>, and the fully connected layer on top of it.\<close>

definition LayerObj0 :: "LayerType \<Rightarrow> nat \<Rightarrow> nat \<Rightarrow> nat list \<Rightarrow> nat list \<Rightarrow> real LayerObj" where
  "LayerObj0 t d g srcs dsts = \<lparr>lo_type = t, layer_proto = LayerProto_default, lo_data = d, lo_grad = g, lo_srclayers = srcs, lo_dstlayers = dsts,
     lo_weight = None, lo_bias = None, lo_batchsize = 1, lo_neg_batchsize = 0, lo_vdim = 0, lo_hdim = 0, lo_dim = 0, lo_topk = 1, lo_scale = 1,
     lo_metric = 0, lo_mask = 0, lo_pdrop = 0, lo_sample = 0, lo_is_first_iteration_vis = False, lo_data_idx = 0, lo_hid_idx = 0,
     lo_slice_dim = 0, lo_slice_num = 0, lo_datavec = [], lo_gradvec = [], lo_datablobs = [],
     lo_kernel = 0, lo_pad = 0, lo_stride = 1, lo_channels = 0, lo_height = 0, lo_width = 0, lo_conv_height = 0, lo_conv_width = 0,
     lo_col_height = 0, lo_col_width = 0, lo_num_filters = 0, lo_col_data = 0, lo_col_grad = 0, lo_pool = PoolMethod_MAX, lo_pooled_height = 0,
     lo_pooled_width = 0, lo_lsize = 1, lo_alpha = 0, lo_beta = 0, lo_knorm = 0, lo_norm = 0, lo_cropsize = 0,
     lo_mirror = False, lo_mean = 0, lo_norm_a = 1, lo_norm_b = 0, lo_path = [], lo_sublayers = []\<rparr>"

definition DataObj0 :: "real DataObj" where
  "DataObj0 = \<lparr>da_shard = shard0 kRead 0, da_file = [], da_batchsize = 0, da_sample = \<lparr>rec_shape = [], rec_label = 0, rec_pixel = [], rec_data = []\<rparr>,
     da_records = [], da_random_skip = 0\<rparr>"

definition demo_param :: "nat \<Rightarrow> nat \<Rightarrow> real Param" where
  "demo_param d g = (fst (Param_new heap0))\<lparr>pdata := Some d, pgrad := g\<rparr>"

definition fc_demo :: "real lstate" where
  "fc_demo = \<lparr>objs = (\<lambda>l. if l = 0 then LayerObj0 kReLU 0 1 [] [1]
        else (LayerObj0 kInnerProduct 2 3 [0] [])\<lparr>lo_weight := Some 0, lo_bias := Some 1\<rparr>), nobj = 2,
     lparams = (\<lambda>a. if a = 0 then demo_param 4 5 else demo_param 6 7), nlparam = 2,
     lmem = row_heap [[3], [0], [0, 0], [1, 2], [2, 5], [0, 0], [1, 1], [0, 0]], ldata = (\<lambda>_. DataObj0)\<rparr>"

definition fc_demo_blobs :: fc_blobs where
  "fc_demo_blobs = \<lparr>fc_x = 0, fc_y = 2, fc_gy = 3, fc_w = 4, fc_b = 6, fc_gw = 5, fc_gb = 7, fc_gx = Some 1\<rparr>"

lemma fc_demo_wired: "fc_wired 1 1 2 fc_demo_blobs 1 fc_demo"
  unfolding fc_wired_def
  by (simp add: fc_demo_def fc_demo_blobs_def src_mutable_data_def src_mutable_grad_def src_of_def idxR_def
      LayerObj0_def is_datalayer_def is_parserlayer_def is_losslayer_def param_blob_def param_grad_def deref_def data_blob_def
      demo_param_def fc_list_def is_mat_def row_heap_def numeral_3_eq_3)

theorem InnerProduct_differentiates_witness:
  "\<exists>h2. InnerProduct_ComputeGradient 1 fc_demo = Inr (fc_demo\<lparr>lmem := h2\<rparr>) \<and>
     vjp (affine 1 1 2 [2, 5] [1, 1]) [3] [1, 2] (contents h2 1)"
proof -
  let ?vs = "[[3], [0], [0, 0], [1, 2], [2, 5], [0, 0], [1, 1], [0, 0]] :: real list list"
  have m: "lmem fc_demo = row_heap ?vs" by (simp add: fc_demo_def)
  have a: "apart {..<length ?vs} (lmem fc_demo)" unfolding m by (rule row_heap_apart) simp
  have c: "contents (lmem fc_demo) b = ?vs ! b" if "b < length ?vs" for b unfolding m using that by (rule row_heap_apart(2) [rotated]) simp
  have s: "set (fc_list fc_demo_blobs) \<subseteq> {..<length ?vs}" by (simp add: fc_list_def fc_demo_blobs_def)
  show ?thesis using InnerProduct_differentiates [OF fc_demo_wired a s] by (auto simp: fc_demo_blobs_def c)
qed

section \<open>Value semantics of the layer methods\<close>

text \<open>The methods read nothing of the state but the layer objects, the parameters and the heap.\<close>

lemma layer_data_lmem [simp]: "layer_data n (s\<lparr>lmem := h\<rparr>) l from1 ph = layer_data n s l from1 ph"
  by (induction n arbitrary: l from1 ph) (simp_all add: Let_def src_of_def cong: if_cong option.case_cong)

lemma layer_mutable_data_lmem [simp]: "layer_mutable_data n (s\<lparr>lmem := h\<rparr>) l from1 ph = layer_mutable_data n s l from1 ph"
  by (induction n arbitrary: l from1 ph) (simp_all add: src_of_def del: layer_data.simps cong: if_cong)

lemma layer_mutable_grad_lmem [simp]: "layer_mutable_grad n (s\<lparr>lmem := h\<rparr>) l from1 = layer_mutable_grad n s l from1"
  by (induction n arbitrary: l from1) (simp_all add: Let_def src_of_def cong: if_cong option.case_cong)

lemma getters_lmem [simp]:
  "src_of (s\<lparr>lmem := h\<rparr>) l i = src_of s l i" "src_data (s\<lparr>lmem := h\<rparr>) l i ph = src_data s l i ph"
  "src_mutable_data (s\<lparr>lmem := h\<rparr>) l i ph = src_mutable_data s l i ph"
  "src_mutable_grad (s\<lparr>lmem := h\<rparr>) l i = src_mutable_grad s l i"
  "param_blob (s\<lparr>lmem := h\<rparr>) p = param_blob s p" "param_grad (s\<lparr>lmem := h\<rparr>) p = param_grad s p"
  by (simp_all add: src_of_def src_data_def src_mutable_data_def src_mutable_grad_def param_blob_def param_grad_def
      del: layer_data.simps layer_mutable_data.simps layer_mutable_grad.simps cong: if_cong)

text \<open>
  A method \<open>run\<close> acts on the blobs in \<open>B\<close> as the function \<open>upd\<close> acts on their values, from every value in \<open>P\<close>: the heap program
  refines the program on values.
\<close>

definition refines ::
  "real lstate \<Rightarrow> nat set \<Rightarrow> ((nat \<Rightarrow> real list) \<Rightarrow> bool) \<Rightarrow> (real lstate \<Rightarrow> real lstate res) \<Rightarrow> ((nat \<Rightarrow> real list) \<Rightarrow> nat \<Rightarrow> real list) \<Rightarrow> bool" where
  "refines s B P run upd \<longleftrightarrow>
     (\<forall>v h. P v \<longrightarrow> hold B (lmem s) v h \<longrightarrow>
        okR (run (s\<lparr>lmem := h\<rparr>)) (\<lambda>s1. s1 = s\<lparr>lmem := lmem s1\<rparr> \<and> hold B (lmem s) (upd v) (lmem s1)))"

lemma refinesD:
  assumes "refines s B P run upd" and "P v" and "hold B (lmem s) v h"
  shows "\<exists>h1. run (s\<lparr>lmem := h\<rparr>) = Inr (s\<lparr>lmem := h1\<rparr>) \<and> hold B (lmem s) (upd v) h1"
proof -
  have "okR (run (s\<lparr>lmem := h\<rparr>)) (\<lambda>s1. s1 = s\<lparr>lmem := lmem s1\<rparr> \<and> hold B (lmem s) (upd v) (lmem s1))"
    using assms by (simp add: refines_def)
  then show ?thesis by (rule okRE) metis
qed

lemma hold_base: "hold B h0 v h \<Longrightarrow> hold B h v h"
  by (simp add: hold_def)

lemma hold_rebase: "hold B h0 v h \<Longrightarrow> hold B h v1 h1 \<Longrightarrow> hold B h0 v1 h1"
  by (simp add: hold_def)

lemma refines_base:
  assumes "\<And>v h. P v \<Longrightarrow> hold B h v h \<Longrightarrow> blobs h = blobs (lmem s) \<Longrightarrow>
    okR (run (s\<lparr>lmem := h\<rparr>)) (\<lambda>s1. s1 = (s\<lparr>lmem := h\<rparr>)\<lparr>lmem := lmem s1\<rparr> \<and> hold B h (upd v) (lmem s1))"
  shows "refines s B P run upd"
  unfolding refines_def
proof (intro allI impI)
  fix v h assume v: "P v" and h: "hold B (lmem s) v h"
  have "blobs h = blobs (lmem s)" using h by (simp add: hold_def)
  from assms [OF v hold_base [OF h] this]
  show "okR (run (s\<lparr>lmem := h\<rparr>)) (\<lambda>s1. s1 = s\<lparr>lmem := lmem s1\<rparr> \<and> hold B (lmem s) (upd v) (lmem s1))"
    by (rule okR_mono) (use hold_rebase [OF h] in auto)
qed

lemma refines_with_mem:
  assumes "\<And>h. run (s\<lparr>lmem := h\<rparr>) = with_mem p (s\<lparr>lmem := h\<rparr>)"
    and "\<And>v h. P v \<Longrightarrow> hold B (lmem s) v h \<Longrightarrow> okR (p h) (hold B (lmem s) (upd v))"
  shows "refines s B P run upd"
  unfolding refines_def
proof (intro allI impI)
  fix v h assume v: "P v" and h: "hold B (lmem s) v h"
  have "okR (with_mem p (s\<lparr>lmem := h\<rparr>)) (\<lambda>s1. hold B (lmem s) (upd v) (lmem s1) \<and> s1 = s\<lparr>lmem := h\<rparr>\<lparr>lmem := lmem s1\<rparr>)"
    using assms(2) [OF v h] by (intro okR_with_mem) simp
  then show "okR (run (s\<lparr>lmem := h\<rparr>)) (\<lambda>s1. s1 = s\<lparr>lmem := lmem s1\<rparr> \<and> hold B (lmem s) (upd v) (lmem s1))"
    unfolding assms(1) by (rule okR_mono) simp
qed

lemma fc_wired_lmem: "fc_wired n k m c l s \<Longrightarrow> blobs h = blobs (lmem s) \<Longrightarrow> fc_wired n k m c l (s\<lparr>lmem := h\<rparr>)"
  by (simp add: fc_wired_def is_mat_def)

definition fc_feature :: "nat \<Rightarrow> nat \<Rightarrow> nat \<Rightarrow> fc_blobs \<Rightarrow> (nat \<Rightarrow> real list) \<Rightarrow> nat \<Rightarrow> real list" where
  "fc_feature n k m c v = v(fc_y c := affine n k m (v (fc_w c)) (v (fc_b c)) (v (fc_x c)))"

definition fc_gradient :: "nat \<Rightarrow> nat \<Rightarrow> nat \<Rightarrow> fc_blobs \<Rightarrow> (nat \<Rightarrow> real list) \<Rightarrow> nat \<Rightarrow> real list" where
  "fc_gradient n k m c v =
     (let v1 = v(fc_gb c := sum_rows n m (v (fc_gy c)),
            fc_gw c := dot k n m (\<lambda>i j. ent k (v (fc_x c)) j i) (ent m (v (fc_gy c)))) in
      case fc_gx c of None \<Rightarrow> v1 | Some g \<Rightarrow> v1(g := dot n m k (ent m (v (fc_gy c))) (\<lambda>i j. ent m (v (fc_w c)) j i)))"

lemma fc_refines:
  assumes "fc_wired n k m c l s" and "set (fc_list c) \<subseteq> B"
  shows "refines s B (\<lambda>v. True) (InnerProduct_ComputeFeature l) (fc_feature n k m c)"
    and "refines s B (\<lambda>v. True) (InnerProduct_ComputeGradient l) (fc_gradient n k m c)"
proof -
  have w: "fc_wired n k m c l (s\<lparr>lmem := h\<rparr>)" if "blobs h = blobs (lmem s)" for h using fc_wired_lmem assms(1) that by blast
  show "refines s B (\<lambda>v. True) (InnerProduct_ComputeFeature l) (fc_feature n k m c)"
    by (rule refines_base) (use okR_InnerProduct_feature [OF w _ assms(2)] in \<open>simp add: fc_feature_def affine_def\<close>)
  show "refines s B (\<lambda>v. True) (InnerProduct_ComputeGradient l) (fc_gradient n k m c)"
    by (rule refines_base) (use okR_InnerProduct_gradient [OF w _ assms(2)] in \<open>simp add: fc_gradient_def Let_def\<close>)
qed


text \<open>Layers that work on every float alone, with the blobs around them.\<close>

record el_blobs =
  el_x :: nat
  el_y :: nat
  el_gy :: nat
  el_gx :: nat

definition el_list :: "el_blobs \<Rightarrow> nat list" where
  "el_list c = [el_x c, el_y c, el_gy c, el_gx c]"

definition el_wired :: "nat \<Rightarrow> el_blobs \<Rightarrow> nat \<Rightarrow> 'f lstate \<Rightarrow> bool" where
  "el_wired n c l s \<longleftrightarrow>
     src_mutable_data s l 0 kPositive = Inr (Some (el_x c)) \<and> src_mutable_grad s l 0 = Inr (Some (el_gx c)) \<and>
     lo_data (objs s l) = el_y c \<and> lo_grad (objs s l) = el_gy c \<and> distinct (el_list c) \<and>
     (\<forall>b \<in> set (el_list c). bcount (blobs (lmem s) b) = int n)"

definition el_feature :: "(real \<Rightarrow> real) \<Rightarrow> el_blobs \<Rightarrow> (nat \<Rightarrow> real list) \<Rightarrow> nat \<Rightarrow> real list" where
  "el_feature f c v = v(el_y c := map f (v (el_x c)))"

definition el_gradient :: "(real \<Rightarrow> real) \<Rightarrow> el_blobs \<Rightarrow> (nat \<Rightarrow> real list) \<Rightarrow> nat \<Rightarrow> real list" where
  "el_gradient f' c v = v(el_gx c := map2 (\<lambda>y g. f' y * g) (v (el_y c)) (v (el_gy c)))"

lemma el_refines:
  assumes "el_wired n c l s" and "set (el_list c) \<subseteq> B"
  shows "refines s B (\<lambda>v. True) (feature1 f l) (el_feature f c)"
    and "refines s B (\<lambda>v. True) (gradient1 f' l) (el_gradient f' c)"
proof -
  note w = assms(1) [unfolded el_wired_def]
  have B: "el_x c \<in> B" "el_y c \<in> B" "el_gy c \<in> B" "el_gx c \<in> B" using assms(2) by (auto simp: el_list_def)
  have len: "length (v b) = n" if "hold B (lmem s) v h" "b \<in> set (el_list c)" for v b h
    using hold_length [OF that(1), of b] that(2) w assms(2) by auto
  show "refines s B (\<lambda>v. True) (feature1 f l) (el_feature f c)"
  proof (rule refines_with_mem)
    let ?p = "\<lambda>h. bindR (tensor (el_y c) h) (\<lambda>(ys, h1). bindR (tensor (el_x c) h1) (\<lambda>(xs, h2).
        checkR (length ys = length xs) CheckFailed (blob_write (el_y c) (map f xs) h2)))"
    show "feature1 f l (s\<lparr>lmem := h\<rparr>) = with_mem ?p (s\<lparr>lmem := h\<rparr>)" for h
      using w by (simp add: feature1_def Let_def deref_def)
    fix v h assume h: "hold B (lmem s) v h"
    show "okR (?p h) (hold B (lmem s) (el_feature f c v))"
      apply (rule okR_seq [OF okR_tensor [OF h B(2)]])
      apply clarify
      apply (rule okR_seq [OF okR_tensor [OF _ B(1)]], assumption)
      apply clarify
      apply (rule okR_check)
       apply (simp add: len [OF h] el_list_def)
      unfolding el_feature_def by (rule okR_write [OF _ B(2)]) (simp_all add: len [OF h] el_list_def)
  qed
  show "refines s B (\<lambda>v. True) (gradient1 f' l) (el_gradient f' c)"
  proof (rule refines_with_mem)
    let ?p = "\<lambda>h. bindR (tensor (el_y c) h) (\<lambda>(ys, h1). bindR (tensor (el_gy c) h1) (\<lambda>(gs, h2).
        bindR (tensor (el_gx c) h2) (\<lambda>(zs, h3).
        checkR (length gs = length ys \<and> length zs = length ys) CheckFailed
          (blob_write (el_gx c) (map2 (\<lambda>y g. f' y * g) ys gs) h3))))"
    show "gradient1 f' l (s\<lparr>lmem := h\<rparr>) = with_mem ?p (s\<lparr>lmem := h\<rparr>)" for h
      using w by (simp add: gradient1_def Let_def deref_def)
    fix v h assume h: "hold B (lmem s) v h"
    show "okR (?p h) (hold B (lmem s) (el_gradient f' c v))"
      apply (rule okR_seq [OF okR_tensor [OF h B(2)]])
      apply clarify
      apply (rule okR_seq [OF okR_tensor [OF _ B(3)]], assumption)
      apply clarify
      apply (rule okR_seq [OF okR_tensor [OF _ B(4)]], assumption)
      apply clarify
      apply (rule okR_check)
       apply (simp add: len [OF h] el_list_def)
      unfolding el_gradient_def by (rule okR_write [OF _ B(4)]) (simp_all add: len [OF h] el_list_def)
  qed
qed

text \<open>\<open>CopyFrom\<close> between blobs of one shape.\<close>

lemma apart_cpu:
  assumes "apart B h" and "b \<in> B"
  shows "\<exists>q h1. cpu_data b h = Inr (q, h1) \<and> apart B h1 \<and> blobs h1 = blobs h \<and> (\<forall>c \<in> B. contents h1 c = contents h c) \<and>
    mem_read q (nat (bcount (blobs h b))) h1 = Inr (contents h b) \<and> (\<forall>c r. at_ptr h c r \<longrightarrow> at_ptr h1 c r)"
proof -
  obtain h1 where h1: "blob_read b h = Inr (contents h b, h1)" "hold B h (contents h) h1"
    using okR_read [OF hold_start [OF assms(1)] assms(2)] by (auto elim!: okRE)
  then obtain q where q: "cpu_data b h = Inr (q, h1)" "mem_read q (nat (bcount (blobs h1 b))) h1 = Inr (contents h b)"
    by (auto simp: blob_read_def bindR_eq_Inr)
  obtain t where t: "to_cpu t h = Inr h1" "bdata (blobs h b) = Some t"
    using q(1) by (auto simp: cpu_data_def with_data_def sm_cpu_data_def bindR_eq_Inr split: option.splits)
  have "at_ptr h1 c r" if "at_ptr h c r" for c r
    using that t(1) by (auto simp: at_ptr_iff to_cpu_def malloc0_def upd_sync_def split: SyncedHead.splits)
  then show ?thesis using q h1(2) by (auto simp: hold_def)
qed

lemma okR_CopyFrom:
  assumes "hold B h0 v h" and "b \<in> B" and "c \<in> B" and "shape (blobs h0 b) = shape (blobs h0 c)"
    and "bcount (blobs h0 b) = bcount (blobs h0 c)"
  shows "okR (CopyFrom b c False h) (hold B h0 (v(b := v c)))"
proof -
  have h: "apart B h" "blobs h = blobs h0" "\<forall>b \<in> B. contents h b = v b" using assms(1) by (auto simp: hold_def)
  obtain p h1 where p: "mutable_cpu_data b h = Inr (p, h1)" "at_ptr h1 b p" "apart B h1" "blobs h1 = blobs h"
    "\<forall>c < nblob h. contents h1 c = contents h c"
    using apart_ptr [OF h(1) assms(2)] by blast
  obtain q h2 where q: "cpu_data c h1 = Inr (q, h2)" "apart B h2" "blobs h2 = blobs h1" "\<forall>d \<in> B. contents h2 d = contents h1 d"
    "mem_read q (nat (bcount (blobs h1 c))) h2 = Inr (contents h1 c)" "at_ptr h2 b p"
    using apart_cpu [OF p(3) assms(3)] p(2) by blast
  have v: "contents h2 d = v d" if "d \<in> B" for d using q(4) p(5) h(3) apartD(2) [OF h(1) that] that by simp
  have len: "length (v c) = nat (bcount (blobs h2 b))"
    using hold_length [OF assms(1,3)] assms(5) q(3) p(4) h(2) by simp
  obtain h3 where h3: "mem_write p (v c) h2 = Inr h3" "apart B h3" "blobs h3 = blobs h2" "contents h3 b = v c"
    "\<forall>d \<in> B. d \<noteq> b \<longrightarrow> contents h3 d = contents h2 d"
    using apart_mem_write [OF q(2) assms(2) q(6) len] by blast
  obtain t where t: "bdata (blobs h b) = Some t" "sm_mutable_cpu_data t h = Inr (p, h1)"
    using p(1) by (auto simp: mutable_cpu_data_def with_data_def split: option.splits)
  have "std_equal sh sh = Inr True" for sh :: "int list" by (induction sh) simp_all
  moreover have "contents h1 c = v c" using v [OF assms(3)] q(4) assms(3) by simp
  ultimately have "CopyFrom b c False h = Inr h3"
    using t q h3(1) p(4) h(2) assms(4,5) by (simp add: CopyFrom_def with_data_def)
  then show ?thesis using h3(2-5) q(3) p(4) h(2) v by (simp add: hold_def)
qed


text \<open>The loss layer: features, labels, probabilities and the gradient it hands down.\<close>

record sm_blobs =
  sm_x :: nat
  sm_lab :: nat
  sm_p :: nat
  sm_gx :: nat

definition sm_list :: "sm_blobs \<Rightarrow> nat list" where
  "sm_list c = [sm_x c, sm_lab c, sm_p c, sm_gx c]"

definition sm_wired :: "nat \<Rightarrow> nat \<Rightarrow> sm_blobs \<Rightarrow> nat \<Rightarrow> 'f lstate \<Rightarrow> bool" where
  "sm_wired n m c l s \<longleftrightarrow>
     src_mutable_data s l 0 kPositive = Inr (Some (sm_x c)) \<and> src_data s l 1 kPositive = Inr (sm_lab c) \<and>
     src_mutable_grad s l 0 = Inr (Some (sm_gx c)) \<and> lo_data (objs s l) = sm_p c \<and>
     lo_batchsize (objs s l) = int n \<and> lo_dim (objs s l) = int m \<and> 0 \<le> lo_topk (objs s l) \<and> lo_topk (objs s l) \<le> int m \<and>
     distinct (sm_list c) \<and> shape (blobs (lmem s) (sm_gx c)) = shape (blobs (lmem s) (sm_p c)) \<and>
     (\<forall>b \<in> {sm_x c, sm_p c, sm_gx c}. bcount (blobs (lmem s) b) = int (n * m)) \<and> bcount (blobs (lmem s) (sm_lab c)) = int n"

text \<open>The class that a label names, and labels that name one.\<close>

definition label_of :: "real list \<Rightarrow> nat \<Rightarrow> nat" where
  "label_of ls i = nat (float_to_int (ls ! i))"

definition labels_ok :: "nat \<Rightarrow> nat \<Rightarrow> real list \<Rightarrow> bool" where
  "labels_ok n m ls \<longleftrightarrow> length ls = n \<and>
     (\<forall>i < n. 0 \<le> float_to_int (ls ! i) \<and> float_to_int (ls ! i) < 278 \<and> float_to_int (ls ! i) < int m)"

lemma labels_okD:
  assumes "labels_ok n m ls" and "i < n"
  shows "label_of ls i < m" "float_to_int (ls ! i) = int (label_of ls i)" "int (label_of ls i) < 278" "idxR ls (int i) = Inr (ls ! i)"
  using assms by (auto simp: labels_ok_def label_of_def idxR_def)

lemma loss_loop:
  assumes "labels_ok n m ls" and "length ps = n * m" and "0 \<le> topk" and "topk \<le> int m" and "j \<le> n"
  shows "\<exists>prec. foldR (loss_record m topk ps ls) (0, 0) [0..<j] =
    Inr (\<Sum>i < j. - ln (max (ps ! (i * m + label_of ls i)) FLT_MIN), prec)"
  using assms(5)
proof (induction j)
  case (Suc j)
  then obtain prec where IH: "foldR (loss_record m topk ps ls) (0, 0) [0..<j] =
      Inr (\<Sum>i < j. - ln (max (ps ! (i * m + label_of ls i)) FLT_MIN), prec)" by auto
  have j: "j < n" using Suc.prems by simp
  note lab = labels_okD [OF assms(1) j]
  have p: "j * m + label_of ls j < length ps" using position_lt [OF j lab(1)] assms(2) by simp
  have "j * m + m \<le> length ps" using mult_le_mono1 [of "Suc j" n m] j assms(2) by simp
  then have "length (segment (j * m) m ps) = m" by (simp add: segment_def)
  then obtain best where "top_k topk (segment (j * m) m ps) = Inr best" using assms(3,4) by (simp add: top_k_def)
  moreover have "idxR ps (int (j * m) + int (label_of ls j)) = Inr (ps ! (j * m + label_of ls j))"
    using p by (simp add: idxR_def nat_add_distrib nat_mult_distrib flip: of_nat_add of_nat_mult)
  ultimately have "loss_record m topk ps ls (a, b) j =
      Inr (a - ln (max (ps ! (j * m + label_of ls j)) FLT_MIN), if label_of ls j \<in> set best then b + 1 else b)" for a b
    using lab by (simp add: loss_record_def Let_def)
  then show ?case using IH by (simp add: foldR_append)
qed simp

lemma length_Softmax: "length xs = n * m \<Longrightarrow> length (Softmax n m xs) = n * m"
  by (simp add: Softmax_tab)

lemma okR_SoftmaxLoss_feature:
  assumes "sm_wired n m c l s" and "set (sm_list c) \<subseteq> B" and "hold B (lmem s) v h" and "labels_ok n m (v (sm_lab c))"
  shows "okR (SoftmaxLoss_ComputeFeature l pf (s\<lparr>lmem := h\<rparr>)) (\<lambda>(pf1, s1). s1 = s\<lparr>lmem := lmem s1\<rparr> \<and>
    hold B (lmem s) (v(sm_p c := Softmax n m (v (sm_x c)))) (lmem s1) \<and>
    (\<exists>acc. pf1 = Metric_Add ''accuracy'' acc
      (Metric_Add ''loss'' (batch_loss n m (label_of (v (sm_lab c))) (lo_scale (objs s l)) (v (sm_x c))) pf)))"
proof -
  note w = assms(1) [unfolded sm_wired_def]
  have B: "sm_x c \<in> B" "sm_lab c \<in> B" "sm_p c \<in> B" using assms(2) by (auto simp: sm_list_def)
  have lx: "length (v (sm_x c)) = n * m" and lp: "length (v (sm_p c)) = n * m"
    using hold_length [OF assms(3) B(1)] hold_length [OF assms(3) B(3)] w by (simp_all add: nat_mult_distrib)
  have ne: "sm_lab c \<noteq> sm_p c" using w by (auto simp: sm_list_def)
  let ?ps = "Softmax n m (v (sm_x c))"
  obtain prec where loop: "foldR (loss_record m (lo_topk (objs s l)) ?ps (v (sm_lab c))) (0, 0) [0..<n] =
      Inr (\<Sum>i < n. - ln (max (?ps ! (i * m + label_of (v (sm_lab c)) i)) FLT_MIN), prec)"
    using loss_loop [OF assms(4) length_Softmax [OF lx], of "lo_topk (objs s l)" n] w by auto
  have run: "SoftmaxLoss_ComputeFeature l pf (s\<lparr>lmem := h\<rparr>) =
      bindR (tensor (sm_p c) h) (\<lambda>(ys, h1). bindR (tensor (sm_x c) h1) (\<lambda>(xs, h2).
      checkR (length ys = n * m \<and> n * m \<le> length xs) Undefined
      (bindR (blob_write (sm_p c) (Softmax n m (take (n * m) xs)) h2) (\<lambda>h3.
       bindR (blob_read (sm_lab c) h3) (\<lambda>(labels, h4).
       bindR (foldR (loss_record m (lo_topk (objs s l)) (Softmax n m (take (n * m) xs)) labels) (0, 0) [0..<n]) (\<lambda>(ls, prec).
         Inr (Metric_Add ''accuracy'' (prec * lo_scale (objs s l) / real n) (Metric_Add ''loss'' (ls * lo_scale (objs s l) / real n) pf),
           s\<lparr>lmem := h4\<rparr>)))))))"
    using w by (simp add: SoftmaxLoss_ComputeFeature_def Let_def deref_def)
  show ?thesis unfolding run
    apply (rule okR_seq [OF okR_tensor [OF assms(3) B(3)]])
    apply clarify
    apply (rule okR_seq [OF okR_tensor [OF _ B(1)]], assumption)
    apply clarify
    apply (rule okR_check)
     apply (simp add: lx lp)
    apply (rule okR_seq [OF okR_write [OF _ B(3)]], assumption)
     apply (simp add: lx lp length_Softmax)
    apply (rule okR_seq [OF okR_read [OF _ B(2)]], assumption)
    using ne loop lx by (auto simp: batch_loss_def)
qed

text \<open>The loop that subtracts one at the class of every record.\<close>

lemma subtract_loop:
  fixes gs :: "real list"
  assumes "labels_ok n m ls" and "length gs = n * m" and "j \<le> n"
  shows "foldR (\<lambda>gs n. bindR (idxR ls (int n)) (\<lambda>lab.
      let i = int n * int m + float_to_int lab in bindR (idxR gs i) (\<lambda>g. Inr (gs[nat i := g - 1])))) gs [0..<j] =
    Inr (tab n m (\<lambda>i k. gs ! (i * m + k) - (if i < j \<and> k = label_of ls i then 1 else 0)))"
  using assms(3)
proof (induction j)
  case 0
  have "tab n m (\<lambda>i k. gs ! (i * m + k)) = gs"
    by (rule nth_equalityI) (use assms(2) in \<open>auto simp: nth_tab elim!: position\<close>)
  then show ?case by simp
next
  case (Suc j)
  have j: "j < n" using Suc.prems by simp
  note lab = labels_okD [OF assms(1) j]
  let ?t = "\<lambda>j. tab n m (\<lambda>i k. gs ! (i * m + k) - (if i < j \<and> k = label_of ls i then 1 else 0))"
  have p: "j * m + label_of ls j < n * m" using position_lt [OF j lab(1)] .
  have eq: "int j * int m + int (label_of ls j) = int (j * m + label_of ls j)" by simp
  have "(?t j)[j * m + label_of ls j := ?t j ! (j * m + label_of ls j) - 1] = ?t (Suc j)"
  proof (rule nth_equalityI)
    fix q assume "q < length ((?t j)[j * m + label_of ls j := ?t j ! (j * m + label_of ls j) - 1])"
    then have "q < n * m" by simp
    then obtain i k where ik: "i < n" "k < m" "q = i * m + k" by (rule position)
    have "q = j * m + label_of ls j \<longleftrightarrow> i = j \<and> k = label_of ls j" unfolding ik(3) by (rule position_eq [OF ik(2) lab(1)])
    then show "(?t j)[j * m + label_of ls j := ?t j ! (j * m + label_of ls j) - 1] ! q = ?t (Suc j) ! q"
      using ik p lab(1) j by (auto simp: nth_list_update nth_tab less_Suc_eq)
  qed simp
  moreover have "idxR (?t j) (int (j * m + label_of ls j)) = Inr (?t j ! (j * m + label_of ls j))"
    using p by (intro idxR_int) simp
  ultimately show ?case using Suc j lab by (simp add: foldR_append Let_def eq del: of_nat_add of_nat_mult)
qed

definition sm_feature :: "nat \<Rightarrow> nat \<Rightarrow> sm_blobs \<Rightarrow> (nat \<Rightarrow> real list) \<Rightarrow> nat \<Rightarrow> real list" where
  "sm_feature n m c v = v(sm_p c := Softmax n m (v (sm_x c)))"

definition sm_gradient :: "nat \<Rightarrow> nat \<Rightarrow> real \<Rightarrow> sm_blobs \<Rightarrow> (nat \<Rightarrow> real list) \<Rightarrow> nat \<Rightarrow> real list" where
  "sm_gradient n m sc c v =
     v(sm_gx c := tab n m (\<lambda>i k. (v (sm_p c) ! (i * m + k) - (if k = label_of (v (sm_lab c)) i then 1 else 0)) * (sc / real n)))"

lemma sm_refines:
  assumes "sm_wired n m c l s" and "set (sm_list c) \<subseteq> B"
  shows "refines s B (\<lambda>v. labels_ok n m (v (sm_lab c))) (SoftmaxLoss_ComputeGradient l) (sm_gradient n m (lo_scale (objs s l)) c)"
proof (rule refines_with_mem)
  note w = assms(1) [unfolded sm_wired_def]
  have B: "sm_lab c \<in> B" "sm_p c \<in> B" "sm_gx c \<in> B" using assms(2) by (auto simp: sm_list_def)
  let ?p = "\<lambda>h. bindR (blob_read (sm_lab c) h) (\<lambda>(labels, h1).
        bindR (CopyFrom (sm_gx c) (sm_p c) False h1) (\<lambda>h2.
        bindR (tensor (sm_gx c) h2) (\<lambda>(gs, h3).
        bindR (foldR (\<lambda>gs n.
            bindR (idxR labels (int n)) (\<lambda>lab.
            let i = int n * int m + float_to_int lab in
            bindR (idxR gs i) (\<lambda>g. Inr (gs[nat i := g - 1])))) gs [0..<n]) (\<lambda>gs1.
          blob_write (sm_gx c) (map (\<lambda>g. g * (lo_scale (objs s l) / real n)) gs1) h3))))"
  show "SoftmaxLoss_ComputeGradient l (s\<lparr>lmem := h\<rparr>) = with_mem ?p (s\<lparr>lmem := h\<rparr>)" for h
    using w by (simp add: SoftmaxLoss_ComputeGradient_def Let_def deref_def)
  fix v h assume lab: "labels_ok n m (v (sm_lab c))" and h: "hold B (lmem s) v h"
  have lp: "length (v (sm_p c)) = n * m" and lg: "length (v (sm_gx c)) = n * m"
    using hold_length [OF h B(2)] hold_length [OF h B(3)] w by (simp_all add: nat_mult_distrib)
  have eq: "map (\<lambda>g. g * (lo_scale (objs s l) / real n))
      (tab n m (\<lambda>i k. v (sm_p c) ! (i * m + k) - (if i < n \<and> k = label_of (v (sm_lab c)) i then 1 else 0))) =
      sm_gradient n m (lo_scale (objs s l)) c v (sm_gx c)"
    unfolding sm_gradient_def fun_upd_same
    by (rule nth_equalityI) (auto simp: nth_tab elim!: position)
  show "okR (?p h) (hold B (lmem s) (sm_gradient n m (lo_scale (objs s l)) c v))"
    apply (rule okR_seq [OF okR_read [OF h B(1)]])
    apply clarify
    apply (rule okR_seq [OF okR_CopyFrom [OF _ B(3,2)]], assumption)
      apply (use w in simp)
     apply (use w in simp)
    apply (rule okR_seq [OF okR_tensor [OF _ B(3)]], assumption)
    apply clarify
    apply (simp only: subtract_loop [OF lab lp order.refl] fun_upd_same bindR_Inr eq)
    apply (rule okR_mono [OF okR_write [OF _ B(3)]], assumption)
     apply (simp add: lp sm_gradient_def)
    by (simp add: sm_gradient_def)
qed

lemmas getters_numeral =
  layer_data.simps(2) [of "pred_numeral k" for k, folded numeral_eq_Suc]
  layer_mutable_data.simps(2) [of "pred_numeral k" for k, folded numeral_eq_Suc]
  layer_mutable_grad.simps(2) [of "pred_numeral k" for k, folded numeral_eq_Suc]

lemmas demo_defs = getters_numeral fc_demo_blobs_def src_mutable_data_def src_mutable_grad_def
  src_data_def src_of_def idxR_def LayerObj0_def is_datalayer_def is_parserlayer_def is_losslayer_def param_blob_def
  param_grad_def deref_def data_blob_def demo_param_def is_mat_def row_heap_def

end
