(* ===== verification/ImageOps.thy ===== *)
theory ImageOps
  imports Gradients
begin

text \<open>
  Model of the expressions of \<open>src/include/mshadow/tensor_expr_ext.h\<close> that the layers on images use. An expression is a plan: the
  value at row \<open>i\<close> and column \<open>j\<close>, where the rows run over all dimensions but the lowest. The indices are
  unsigned; overflow of an index is not modelled. The lemmas show which plans are the transposes of each other.
\<close>

section \<open>Expressions on images\<close>

text \<open>Patches of an image with \<open>ch\<close> channels of \<open>h\<close> times \<open>w\<close> pixels as the columns of a matrix.\<close>

definition out_size :: "nat \<Rightarrow> nat \<Rightarrow> nat \<Rightarrow> nat" where
  "out_size d psize pstride = (d - psize) div pstride + 1"

definition unpack_patch2col :: "nat \<Rightarrow> nat \<Rightarrow> nat \<Rightarrow> nat \<Rightarrow> nat \<Rightarrow> (nat \<Rightarrow> nat \<Rightarrow> 'f) \<Rightarrow> nat \<Rightarrow> nat \<Rightarrow> ('f :: zero)" where
  "unpack_patch2col psize pstride ch h w img i j =
     (let o_height = out_size h psize pstride; o_width = out_size w psize pstride;
          x_offset = i mod psize; idivp = i div psize;
          y_offset = idivp mod psize; c = idivp div psize;
          x = (j mod o_width) * pstride + x_offset; jdivw = j div o_width;
          y = (jdivw mod o_height) * pstride + y_offset; n = jdivw div o_height in
      if x < w \<and> y < h then img ((n * ch + c) * h + y) x else 0)"

text \<open>The patches that contain row or column \<open>y\<close>, from \<open>py_min\<close> to \<open>py_max\<close>.\<close>

definition patches :: "nat \<Rightarrow> nat \<Rightarrow> nat \<Rightarrow> nat \<Rightarrow> nat list" where
  "patches psize pstride outs y =
     [(if y < psize then 0 else (y - psize + pstride) div pstride)..<min ((y + pstride) div pstride) outs]"

definition pack_col2patch :: "nat \<Rightarrow> nat \<Rightarrow> nat \<Rightarrow> nat \<Rightarrow> nat \<Rightarrow> (nat \<Rightarrow> nat \<Rightarrow> 'f) \<Rightarrow> nat \<Rightarrow> nat \<Rightarrow> ('f :: {zero, plus})" where
  "pack_col2patch psize pstride ch h w mat i j =
     (let o_height = out_size h psize pstride; o_width = out_size w psize pstride;
          y = i mod h; idivh = i div h; c = idivh mod ch; n = idivh div ch; x = j in
      foldl (\<lambda>res py. foldl (\<lambda>res px.
          res + mat ((c * psize + y - py * pstride) * psize + x - px * pstride) ((n * o_height + py) * o_width + px))
        res (patches psize pstride o_width x)) 0 (patches psize pstride o_height y))"

definition pad :: "nat \<Rightarrow> nat \<Rightarrow> nat \<Rightarrow> (nat \<Rightarrow> nat \<Rightarrow> 'f) \<Rightarrow> nat \<Rightarrow> nat \<Rightarrow> ('f :: zero)" where
  "pad p h w src i j =
     (let x = j; y = i mod (h + 2 * p); c = i div (h + 2 * p) in
      if y < p \<or> x < p then 0
      else if y - p < h \<and> x - p < w then src (c * h + (y - p)) (x - p) else 0)"

text \<open>\<open>crop\<close> of an image of height \<open>sh\<close> to height \<open>h\<close>, from the given position.\<close>

definition crop :: "nat \<Rightarrow> nat \<Rightarrow> nat \<Rightarrow> nat \<Rightarrow> (nat \<Rightarrow> nat \<Rightarrow> 'f) \<Rightarrow> nat \<Rightarrow> nat \<Rightarrow> 'f" where
  "crop pad_height pad_width sh h src i j = src (i div h * sh + (i mod h + pad_height)) (j + pad_width)"

definition mirror :: "nat \<Rightarrow> (nat \<Rightarrow> nat \<Rightarrow> 'f) \<Rightarrow> nat \<Rightarrow> nat \<Rightarrow> 'f" where
  "mirror w src i j = src i (w - j - 1)"

text \<open>The window of a pooled pixel, and pooling with a reducer.\<close>

definition window :: "nat \<Rightarrow> nat \<Rightarrow> nat \<Rightarrow> nat \<Rightarrow> nat list" where
  "window ksize kstride d py = [py * kstride..<min (py * kstride + ksize) d]"

definition pool :: "'f \<Rightarrow> ('f \<Rightarrow> 'f \<Rightarrow> 'f) \<Rightarrow> nat \<Rightarrow> nat \<Rightarrow> nat \<Rightarrow> nat \<Rightarrow> (nat \<Rightarrow> nat \<Rightarrow> 'f) \<Rightarrow> nat \<Rightarrow> nat \<Rightarrow> 'f" where
  "pool init reduce ksize kstride h w src i j =
     (let new_height = out_size h ksize kstride; py = i mod new_height; c = i div new_height in
      foldl (\<lambda>res y. foldl (\<lambda>res x. reduce res (src (c * h + y) x)) res (window ksize kstride w j))
        init (window ksize kstride h py))"

definition unpool ::
  "('f \<Rightarrow> 'f \<Rightarrow> 'f) \<Rightarrow> nat \<Rightarrow> nat \<Rightarrow> nat \<Rightarrow> nat \<Rightarrow> nat \<Rightarrow> (nat \<Rightarrow> nat \<Rightarrow> 'f) \<Rightarrow> (nat \<Rightarrow> nat \<Rightarrow> 'f) \<Rightarrow> (nat \<Rightarrow> nat \<Rightarrow> 'f) \<Rightarrow> nat \<Rightarrow> nat \<Rightarrow>
     ('f :: {zero, plus, times})" where
  "unpool partial ksize kstride h ph pw src pooled grad i j =
     (let x = j; y = i mod h; c = i div h; vsrc = src (c * h + y) x in
      foldl (\<lambda>val py. foldl (\<lambda>val px. val + partial vsrc (pooled (c * ph + py) px) * grad (c * ph + py) px)
        val (patches ksize kstride pw x)) 0 (patches ksize kstride ph y))"

definition FLT_MAX :: real where
  "FLT_MAX = (2 - 1 / 2 ^ 23) * 2 ^ 127"

definition maximum_PartialGrad :: "real \<Rightarrow> real \<Rightarrow> real" where
  "maximum_PartialGrad redres redsrc = (if redres = redsrc then 1 else 0)"

text \<open>The sum over the channels around a channel.\<close>

definition channels_near :: "nat \<Rightarrow> nat \<Rightarrow> nat \<Rightarrow> nat list" where
  "channels_near nsize channel c = (let hn = nsize div 2 in [(if c < hn then 0 else c - hn)..<min (c + hn + 1) channel])"

definition chpool :: "nat \<Rightarrow> nat \<Rightarrow> nat \<Rightarrow> (nat \<Rightarrow> nat \<Rightarrow> 'f) \<Rightarrow> nat \<Rightarrow> nat \<Rightarrow> ('f :: {zero, plus})" where
  "chpool nsize channel h src i j =
     (let y = i mod h; c = i div h mod channel; n = i div h div channel in
      foldl (\<lambda>res cc. res + src ((n * channel + cc) * h + y) j) 0 (channels_near nsize channel c))"

text \<open>\<open>sumall_except_dim<1>\<close> of a tensor with \<open>n\<close> images of \<open>f\<close> rows of \<open>p\<close> floats, and the addition of \<open>broadcast<1>\<close>.\<close>

definition sumall_except_dim1 :: "nat \<Rightarrow> nat \<Rightarrow> nat \<Rightarrow> 'f list \<Rightarrow> ('f :: {zero, plus}) list" where
  "sumall_except_dim1 n f p xs = map (\<lambda>c. fsum n (\<lambda>k. fsum p (\<lambda>x. ent p xs (k * f + c) x))) [0..<f]"

definition add_broadcast1 :: "nat \<Rightarrow> nat \<Rightarrow> nat \<Rightarrow> 'f list \<Rightarrow> 'f list \<Rightarrow> ('f :: plus) list" where
  "add_broadcast1 n f p xs b = tab (n * f) p (\<lambda>y x. ent p xs y x + b ! (y mod f))"

section \<open>Transposes\<close>

lemma foldl_sum: "foldl (\<lambda>a x. a + f x) a xs = a + sum_list (map f xs)"
  for a :: "'a :: comm_monoid_add"
  by (induction xs arbitrary: a) (simp_all add: ac_simps)

lemma sum_upt_eq: "sum_list (map f [a..<b]) = sum f {a..<b}"
  for f :: "nat \<Rightarrow> 'a :: comm_monoid_add"
  by (simp add: interv_sum_list_conv_sum_set_nat)

text \<open>Pixel \<open>y\<close> lies in patch \<open>p\<close>.\<close>

lemma set_patches:
  assumes "0 < s" and "0 < k"
  shows "set (patches k s n y) = {p. p < n \<and> p * s \<le> y \<and> y < p * s + k}"
proof -
  have "p < (y + s) div s \<longleftrightarrow> p * s \<le> y" for p
    using assms(1) less_eq_div_iff_mult_less_eq [of s "Suc p" "y + s"] by (auto simp: Suc_le_eq)
  moreover have "(y - k + s) div s \<le> p \<longleftrightarrow> y < p * s + k" if "\<not> y < k" for p
    using assms(1) that div_less_iff_less_mult [of s "y - k + s" "Suc p"] by (auto simp: less_Suc_eq_le)
  ultimately show ?thesis unfolding patches_def by (auto split: if_splits)
qed

lemma distinct_patches: "distinct (patches k s n y)"
  by (simp add: patches_def)

lemma patch_inside:
  assumes "p < out_size h k s" and "o1 < k" and "k \<le> h" and "0 < s"
  shows "p * s + o1 < h"
proof -
  have "p * s \<le> (h - k) div s * s" using assms(1) by (intro mult_le_mono1) (simp add: out_size_def)
  also have "\<dots> \<le> h - k" by simp
  finally show ?thesis using assms(2,3) by linarith
qed

text \<open>One dimension: the pairs of a patch and an offset are the pairs of a pixel and a patch around it.\<close>

lemma patch_sum:
  fixes F :: "nat \<Rightarrow> nat \<Rightarrow> nat \<Rightarrow> real"
  assumes "0 < s" and "0 < k" and "k \<le> h"
  shows "(\<Sum>o1 < k. \<Sum>p < out_size h k s. F o1 p (p * s + o1)) = (\<Sum>y < h. \<Sum>p \<in> set (patches k s (out_size h k s) y). F (y - p * s) p y)"
proof -
  let ?n = "out_size h k s"
  have "(\<Sum>o1 < k. \<Sum>p < ?n. F o1 p (p * s + o1)) = (\<Sum>(o1, p) \<in> {..<k} \<times> {..<?n}. F o1 p (p * s + o1))"
    by (simp add: sum.cartesian_product)
  also have "\<dots> = (\<Sum>(y, p) \<in> Sigma {..<h} (\<lambda>y. set (patches k s ?n y)). F (y - p * s) p y)"
    by (rule sum.reindex_bij_witness [where i = "\<lambda>(y, p). (y - p * s, p)" and j = "\<lambda>(o1, p). (p * s + o1, p)"])
      (use assms patch_inside [where s = s and k = k and h = h] in \<open>auto simp: set_patches\<close>)
  also have "\<dots> = (\<Sum>y < h. \<Sum>p \<in> set (patches k s ?n y). F (y - p * s) p y)"
    by (rule sum.Sigma [symmetric]) auto
  finally show ?thesis .
qed

lemma nested_foldl_sum:
  "foldl (\<lambda>a p. foldl (\<lambda>a q. a + f p q) a (ys p)) a xs = a + (\<Sum>p \<leftarrow> xs. \<Sum>q \<leftarrow> ys p. f p q)"
  for a :: "'a :: comm_monoid_add"
  by (induction xs arbitrary: a) (simp_all add: foldl_sum ac_simps)

lemma sum_list_distinct: "distinct xs \<Longrightarrow> (\<Sum>x \<leftarrow> xs. f x) = sum f (set xs)"
  for f :: "'b \<Rightarrow> 'a :: comm_monoid_add"
  by (simp add: sum.distinct_set_conv_list)

lemma unpack_entry:
  assumes "c < ch" "yo < k" "xo < k" "py < out_size h k s" "px < out_size w k s" and "0 < s" and "k \<le> h" and "k \<le> w"
  shows "unpack_patch2col k s ch h w img ((c * k + yo) * k + xo) (py * out_size w k s + px) = img (c * h + (py * s + yo)) (px * s + xo)"
  using assms patch_inside [of py h k s yo] patch_inside [of px w k s xo]
  by (simp add: unpack_patch2col_def Let_def)

lemma pack_entry:
  assumes "c < ch" "y < h" and "0 < s" and "0 < k"
  shows "pack_col2patch k s ch h w mat (c * h + y) x =
    (\<Sum>py \<in> set (patches k s (out_size h k s) y). \<Sum>px \<in> set (patches k s (out_size w k s) x).
      mat ((c * k + (y - py * s)) * k + (x - px * s)) (py * out_size w k s + px))"
proof -
  have "(c * k + y - py * s) * k + x - px * s = (c * k + (y - py * s)) * k + (x - px * s)"
    if "py \<in> set (patches k s n y)" "px \<in> set (patches k s m x)" for py px n m
    using that assms by (simp add: set_patches)
  then show ?thesis using assms
    by (simp add: pack_col2patch_def Let_def nested_foldl_sum sum_list_distinct distinct_patches cong: sum.cong)
qed

text \<open>Packing is the transpose of unpacking.\<close>

lemma unpack_pack_transpose:
  fixes G :: "nat \<Rightarrow> nat \<Rightarrow> real"
  assumes "0 < s" and "0 < k" and "k \<le> h" and "k \<le> w"
  shows "(\<Sum>i < ch * k * k. \<Sum>j < out_size h k s * out_size w k s. G i j * unpack_patch2col k s ch h w img i j) =
    (\<Sum>i < ch * h. \<Sum>x < w. pack_col2patch k s ch h w G i x * img i x)"
proof -
  let ?oh = "out_size h k s" and ?ow = "out_size w k s"
  let ?T = "\<lambda>c yo xo py px y x. G ((c * k + yo) * k + xo) (py * ?ow + px) * img (c * h + y) x"
  have "(\<Sum>i < ch * k * k. \<Sum>j < ?oh * ?ow. G i j * unpack_patch2col k s ch h w img i j) =
      (\<Sum>c < ch. \<Sum>yo < k. \<Sum>xo < k. \<Sum>py < ?oh. \<Sum>px < ?ow. ?T c yo xo py px (py * s + yo) (px * s + xo))"
    unfolding sum_positions using assms by (intro sum.cong refl) (simp add: unpack_entry)
  also have "\<dots> = (\<Sum>c < ch. \<Sum>yo < k. \<Sum>py < ?oh. \<Sum>xo < k. \<Sum>px < ?ow. ?T c yo xo py px (py * s + yo) (px * s + xo))"
    by (intro sum.cong refl sum.swap)
  also have "\<dots> = (\<Sum>c < ch. \<Sum>yo < k. \<Sum>py < ?oh. \<Sum>x < w. \<Sum>px \<in> set (patches k s ?ow x). ?T c yo (x - px * s) py px (py * s + yo) x)"
    by (intro sum.cong refl patch_sum [OF assms(1,2,4), of "\<lambda>xo px x. ?T _ _ xo _ px _ x"])
  also have "\<dots> = (\<Sum>c < ch. \<Sum>y < h. \<Sum>py \<in> set (patches k s ?oh y). \<Sum>x < w. \<Sum>px \<in> set (patches k s ?ow x).
      ?T c (y - py * s) (x - px * s) py px y x)"
    by (intro sum.cong refl patch_sum [OF assms(1-3), of "\<lambda>yo py y. \<Sum>x < w. \<Sum>px \<in> set (patches k s ?ow x). ?T _ yo (x - px * s) py px y x"])
  also have "\<dots> = (\<Sum>c < ch. \<Sum>y < h. \<Sum>x < w. pack_col2patch k s ch h w G (c * h + y) x * img (c * h + y) x)"
  proof -
    have "(\<Sum>py \<in> A. \<Sum>x < w. \<Sum>px \<in> set (patches k s ?ow x). ?T c (y - py * s) (x - px * s) py px y x) =
        (\<Sum>x < w. \<Sum>py \<in> A. \<Sum>px \<in> set (patches k s ?ow x). ?T c (y - py * s) (x - px * s) py px y x)" for A c y
      by (rule sum.swap)
    then show ?thesis using assms by (simp add: pack_entry sum_distrib_right)
  qed
  also have "\<dots> = (\<Sum>i < ch * h. \<Sum>x < w. pack_col2patch k s ch h w G i x * img i x)"
    unfolding sum_positions ..
  finally show ?thesis .
qed

text \<open>Cropping is the transpose of padding.\<close>

lemma pad_entry: "y < h + 2 * p \<Longrightarrow> pad p h w src (c * (h + 2 * p) + y) x =
    (if p \<le> y \<and> y < p + h \<and> p \<le> x \<and> x < p + w then src (c * h + (y - p)) (x - p) else 0)"
  by (auto simp: pad_def Let_def)

lemma crop_entry: "y < h \<Longrightarrow> crop p q (h + 2 * p) h src (c * h + y) x = src (c * (h + 2 * p) + (y + p)) (x + q)"
  by (simp add: crop_def)

lemma sum_shift_range:
  fixes F :: "nat \<Rightarrow> real"
  shows "(\<Sum>y < h + 2 * p. if p \<le> y \<and> y < p + h then F y else 0) = (\<Sum>y < h. F (y + p))"
proof -
  have "(\<Sum>y < h + 2 * p. if p \<le> y \<and> y < p + h then F y else 0) = sum F {y. p \<le> y \<and> y < p + h}"
    by (subst sum.inter_filter [symmetric]) (auto intro: sum.cong)
  also have "\<dots> = (\<Sum>y < h. F (y + p))"
    by (rule sum.reindex_bij_witness [where i = "\<lambda>y. y + p" and j = "\<lambda>y. y - p"]) auto
  finally show ?thesis .
qed

lemma pad_crop_transpose:
  fixes G :: "nat \<Rightarrow> nat \<Rightarrow> real"
  shows "(\<Sum>i < ch * (h + 2 * p). \<Sum>x < w + 2 * p. G i x * pad p h w img i x) =
    (\<Sum>i < ch * h. \<Sum>x < w. crop p p (h + 2 * p) h G i x * img i x)"
proof -
  have "(\<Sum>i < ch * (h + 2 * p). \<Sum>x < w + 2 * p. G i x * pad p h w img i x) =
      (\<Sum>c < ch. \<Sum>y < h + 2 * p. if p \<le> y \<and> y < p + h then
        (\<Sum>x < w + 2 * p. if p \<le> x \<and> x < p + w then G (c * (h + 2 * p) + y) x * img (c * h + (y - p)) (x - p) else 0) else 0)"
    unfolding sum_positions by (intro sum.cong refl) (auto simp: pad_entry intro!: sum.cong sum.neutral)
  also have "\<dots> = (\<Sum>c < ch. \<Sum>y < h. \<Sum>x < w. G (c * (h + 2 * p) + (y + p)) (x + p) * img (c * h + y) x)"
    by (simp add: sum_shift_range)
  also have "\<dots> = (\<Sum>i < ch * h. \<Sum>x < w. crop p p (h + 2 * p) h G i x * img i x)"
    unfolding sum_positions by (intro sum.cong refl) (simp add: crop_entry)
  finally show ?thesis .
qed

section \<open>Convolution\<close>

text \<open>Image \<open>n\<close> of a tensor, its patches and the convolution of a batch, with the shapes of the layer in a record.\<close>

record conv_shape =
  cv_n :: nat
  cv_ch :: nat
  cv_h :: nat
  cv_w :: nat
  cv_f :: nat
  cv_k :: nat
  cv_p :: nat
  cv_s :: nat

definition cv_ok :: "conv_shape \<Rightarrow> bool" where
  "cv_ok z \<longleftrightarrow> 0 < cv_s z \<and> 0 < cv_k z \<and> cv_k z \<le> cv_h z + 2 * cv_p z \<and> cv_k z \<le> cv_w z + 2 * cv_p z"

definition cv_rows :: "conv_shape \<Rightarrow> nat" where "cv_rows z = cv_ch z * cv_h z"
definition cv_col :: "conv_shape \<Rightarrow> nat" where "cv_col z = cv_ch z * cv_k z * cv_k z"
definition cv_pix :: "conv_shape \<Rightarrow> nat" where
  "cv_pix z = out_size (cv_h z + 2 * cv_p z) (cv_k z) (cv_s z) * out_size (cv_w z + 2 * cv_p z) (cv_k z) (cv_s z)"

definition cv_img :: "conv_shape \<Rightarrow> 'f list \<Rightarrow> nat \<Rightarrow> nat \<Rightarrow> nat \<Rightarrow> 'f" where
  "cv_img z xs n i j = ent (cv_w z) xs (n * cv_rows z + i) j"

definition cv_cols :: "conv_shape \<Rightarrow> (nat \<Rightarrow> nat \<Rightarrow> 'f) \<Rightarrow> nat \<Rightarrow> nat \<Rightarrow> ('f :: zero)" where
  "cv_cols z img = unpack_patch2col (cv_k z) (cv_s z) (cv_ch z) (cv_h z + 2 * cv_p z) (cv_w z + 2 * cv_p z)
     (if 0 < cv_p z then pad (cv_p z) (cv_h z) (cv_w z) img else img)"

definition cv_dot :: "conv_shape \<Rightarrow> 'f list \<Rightarrow> 'f list \<Rightarrow> nat \<Rightarrow> nat \<Rightarrow> nat \<Rightarrow> ('f :: {zero, plus, times})" where
  "cv_dot z ws xs n f q = fsum (cv_col z) (\<lambda>l. ent (cv_col z) ws f l * cv_cols z (cv_img z xs n) l q)"

definition convolve :: "conv_shape \<Rightarrow> 'f list \<Rightarrow> 'f list \<Rightarrow> 'f list \<Rightarrow> ('f :: {zero, plus, times}) list" where
  "convolve z ws bs xs =
     add_broadcast1 (cv_n z) (cv_f z) (cv_pix z)
       (tab (cv_n z * cv_f z) (cv_pix z) (\<lambda>y q. cv_dot z ws xs (y div cv_f z) (y mod cv_f z) q)) bs"

definition cv_gcol :: "conv_shape \<Rightarrow> 'f list \<Rightarrow> 'f list \<Rightarrow> nat \<Rightarrow> nat \<Rightarrow> nat \<Rightarrow> ('f :: {zero, plus, times})" where
  "cv_gcol z ws gs n l q = fsum (cv_f z) (\<lambda>f. ent (cv_col z) ws f l * ent (cv_pix z) gs (n * cv_f z + f) q)"

definition cv_gx :: "conv_shape \<Rightarrow> 'f list \<Rightarrow> 'f list \<Rightarrow> nat \<Rightarrow> nat \<Rightarrow> nat \<Rightarrow> ('f :: {zero, plus, times})" where
  "cv_gx z ws gs n = crop (cv_p z) (cv_p z) (cv_h z + 2 * cv_p z) (cv_h z)
     (pack_col2patch (cv_k z) (cv_s z) (cv_ch z) (cv_h z + 2 * cv_p z) (cv_w z + 2 * cv_p z) (cv_gcol z ws gs n))"

definition convolve_gx :: "conv_shape \<Rightarrow> 'f list \<Rightarrow> 'f list \<Rightarrow> ('f :: {zero, plus, times}) list" where
  "convolve_gx z ws gs = tab (cv_n z * cv_rows z) (cv_w z) (\<lambda>i. cv_gx z ws gs (i div cv_rows z) (i mod cv_rows z))"

definition convolve_gw :: "conv_shape \<Rightarrow> 'f list \<Rightarrow> 'f list \<Rightarrow> ('f :: {zero, plus, times}) list" where
  "convolve_gw z xs gs = tab (cv_f z) (cv_col z) (\<lambda>f l. fsum (cv_n z) (\<lambda>n.
     fsum (cv_pix z) (\<lambda>q. ent (cv_pix z) gs (n * cv_f z + f) q * cv_cols z (cv_img z xs n) l q)))"

definition convolve_gb :: "conv_shape \<Rightarrow> 'f list \<Rightarrow> ('f :: {zero, plus}) list" where
  "convolve_gb z gs = sumall_except_dim1 (cv_n z) (cv_f z) (cv_pix z) gs"

lemma vjp_linear:
  assumes "length gx = length x" and "\<And>y. length y = length x \<Longrightarrow> inner g (f y) = a + (\<Sum>p < length x. gx ! p * y ! p)"
  shows "vjp f x g gx"
  unfolding vjp_def
proof (intro conjI allI impI)
  fix c d assume c: "path x c d"
  have "((\<lambda>t. a + inner gx (c t)) has_real_derivative 0 + (\<Sum>p < length gx. gx ! p * d p)) (at 0)"
    using assms(1) pathD(3) [OF c] by (intro DERIV_add DERIV_const inner_derivative) simp
  moreover have "inner g (f (c t)) = a + inner gx (c t)" for t
    using assms pathD(2) [OF c] by (simp add: inner_def)
  ultimately show "((\<lambda>t. inner g (f (c t))) has_real_derivative (\<Sum>p < length x. gx ! p * d p)) (at 0)" using assms(1) by simp
qed (use assms in simp)

text \<open>The transpose of taking the patches of a padded image.\<close>

lemma cv_cols_transpose:
  fixes G :: "nat \<Rightarrow> nat \<Rightarrow> real"
  assumes "cv_ok z"
  shows "(\<Sum>l < cv_col z. \<Sum>q < cv_pix z. G l q * cv_cols z img l q) =
    (\<Sum>i < cv_rows z. \<Sum>j < cv_w z.
      crop (cv_p z) (cv_p z) (cv_h z + 2 * cv_p z) (cv_h z)
        (pack_col2patch (cv_k z) (cv_s z) (cv_ch z) (cv_h z + 2 * cv_p z) (cv_w z + 2 * cv_p z) G) i j * img i j)"
proof -
  let ?h = "cv_h z + 2 * cv_p z" and ?w = "cv_w z + 2 * cv_p z"
  let ?P = "pack_col2patch (cv_k z) (cv_s z) (cv_ch z) ?h ?w G"
  have "(\<Sum>l < cv_col z. \<Sum>q < cv_pix z. G l q * cv_cols z img l q) =
      (\<Sum>i < cv_ch z * ?h. \<Sum>x < ?w. ?P i x * (if 0 < cv_p z then pad (cv_p z) (cv_h z) (cv_w z) img else img) i x)"
    unfolding cv_col_def cv_pix_def cv_cols_def by (rule unpack_pack_transpose) (use assms in \<open>auto simp: cv_ok_def\<close>)
  also have "\<dots> = (\<Sum>i < cv_ch z * ?h. \<Sum>x < ?w. ?P i x * pad (cv_p z) (cv_h z) (cv_w z) img i x)"
    unfolding sum_positions by (intro sum.cong refl) (auto simp: pad_entry)
  also have "\<dots> = (\<Sum>i < cv_rows z. \<Sum>j < cv_w z. crop (cv_p z) (cv_p z) ?h (cv_h z) ?P i j * img i j)"
    unfolding cv_rows_def by (rule pad_crop_transpose)
  finally show ?thesis .
qed

lemma length_convolve [simp]: "length (convolve z ws bs xs) = cv_n z * cv_f z * cv_pix z"
  by (simp add: convolve_def add_broadcast1_def)

lemma inner_convolve:
  assumes "length gs = cv_n z * cv_f z * cv_pix z"
  shows "inner gs (convolve z ws bs xs) =
    (\<Sum>n < cv_n z. \<Sum>f < cv_f z. \<Sum>q < cv_pix z. ent (cv_pix z) gs (n * cv_f z + f) q *
      (\<Sum>l < cv_col z. ent (cv_col z) ws f l * cv_cols z (cv_img z xs n) l q)) +
    (\<Sum>n < cv_n z. \<Sum>f < cv_f z. \<Sum>q < cv_pix z. ent (cv_pix z) gs (n * cv_f z + f) q * bs ! f)"
proof -
  have "convolve z ws bs xs ! ((n * cv_f z + f) * cv_pix z + q) =
      (\<Sum>l < cv_col z. ent (cv_col z) ws f l * cv_cols z (cv_img z xs n) l q) + bs ! f"
    if "n < cv_n z" "f < cv_f z" "q < cv_pix z" for n f q
    using that position_lt [of n "cv_n z" f "cv_f z"]
    by (simp add: convolve_def add_broadcast1_def nth_tab ent_tab cv_dot_def fsum_sum)
  then show ?thesis
    unfolding inner_def assms sum_positions sum.distrib [symmetric] distrib_left [symmetric]
    by (intro sum.cong refl) (simp add: ent_def)
qed

text \<open>The convolution is differentiated correctly in its input, weights and bias.\<close>

definition convolve_ok :: "conv_shape \<Rightarrow> real list \<Rightarrow> real list \<Rightarrow> real list \<Rightarrow> bool" where
  "convolve_ok z ws bs xs \<longleftrightarrow> cv_ok z \<and> length xs = cv_n z * cv_rows z * cv_w z \<and> length ws = cv_f z * cv_col z \<and> length bs = cv_f z"

lemma cv_img_row: "n < cv_n z \<Longrightarrow> i < cv_rows z \<Longrightarrow> (n * cv_rows z + i) div cv_rows z = n \<and> (n * cv_rows z + i) mod cv_rows z = i"
  by simp

interpretation conv_x: diff_layer "convolve z ws bs" "\<lambda>x g. convolve_gx z ws g" "\<lambda>x. convolve_ok z ws bs x" for z ws bs
proof
  fix x g :: "real list"
  assume x: "convolve_ok z ws bs x" and g: "length g = length (convolve z ws bs x)"
  show "vjp (convolve z ws bs) x g (convolve_gx z ws g)"
  proof (rule vjp_linear)
    show "length (convolve_gx z ws g) = length x" using x by (simp add: convolve_gx_def convolve_ok_def)
    fix y :: "real list" assume y: "length y = length x"
    let ?C = "\<Sum>n < cv_n z. \<Sum>f < cv_f z. \<Sum>q < cv_pix z. ent (cv_pix z) g (n * cv_f z + f) q * bs ! f"
    have "(\<Sum>f < cv_f z. \<Sum>q < cv_pix z. ent (cv_pix z) g (n * cv_f z + f) q *
        (\<Sum>l < cv_col z. ent (cv_col z) ws f l * cv_cols z (cv_img z y n) l q)) =
        (\<Sum>i < cv_rows z. \<Sum>j < cv_w z. cv_gx z ws g n i j * cv_img z y n i j)" for n
    proof -
      have "(\<Sum>f < cv_f z. \<Sum>q < cv_pix z. ent (cv_pix z) g (n * cv_f z + f) q *
          (\<Sum>l < cv_col z. ent (cv_col z) ws f l * cv_cols z (cv_img z y n) l q)) =
          (\<Sum>l < cv_col z. \<Sum>q < cv_pix z. cv_gcol z ws g n l q * cv_cols z (cv_img z y n) l q)"
        unfolding cv_gcol_def fsum_sum sum_distrib_left sum_distrib_right
        by (subst (2) sum.swap, subst sum.swap, subst (2) sum.swap) (simp add: ac_simps)
      also have "\<dots> = (\<Sum>i < cv_rows z. \<Sum>j < cv_w z. cv_gx z ws g n i j * cv_img z y n i j)"
        unfolding cv_gx_def using cv_cols_transpose x by (simp add: convolve_ok_def)
      finally show ?thesis .
    qed
    then have "inner g (convolve z ws bs y) =
        (\<Sum>n < cv_n z. \<Sum>i < cv_rows z. \<Sum>j < cv_w z. cv_gx z ws g n i j * cv_img z y n i j) + ?C"
      using g by (simp add: inner_convolve)
    also have "(\<Sum>n < cv_n z. \<Sum>i < cv_rows z. \<Sum>j < cv_w z. cv_gx z ws g n i j * cv_img z y n i j) =
        (\<Sum>p < length x. convolve_gx z ws g ! p * y ! p)"
    proof -
      have len: "length x = cv_n z * cv_rows z * cv_w z" using x by (simp add: convolve_ok_def)
      show ?thesis unfolding len sum_positions
        by (intro sum.cong refl) (simp add: convolve_gx_def nth_tab position_lt cv_img_def ent_def)
    qed
    finally show "inner g (convolve z ws bs y) = ?C + (\<Sum>p < length x. convolve_gx z ws g ! p * y ! p)" by simp
  qed
qed simp

interpretation conv_w: diff_layer "\<lambda>ws. convolve z ws bs xs" "\<lambda>ws g. convolve_gw z xs g" "\<lambda>ws. convolve_ok z ws bs xs" for z xs bs
proof
  fix ws g :: "real list"
  assume x: "convolve_ok z ws bs xs" and g: "length g = length (convolve z ws bs xs)"
  show "vjp (\<lambda>ws. convolve z ws bs xs) ws g (convolve_gw z xs g)"
  proof (rule vjp_linear)
    have len: "length ws = cv_f z * cv_col z" using x by (simp add: convolve_ok_def)
    then show "length (convolve_gw z xs g) = length ws" by (simp add: convolve_gw_def)
    fix y :: "real list" assume y: "length y = length ws"
    let ?C = "\<Sum>n < cv_n z. \<Sum>f < cv_f z. \<Sum>q < cv_pix z. ent (cv_pix z) g (n * cv_f z + f) q * bs ! f"
    have "(\<Sum>n < cv_n z. \<Sum>f < cv_f z. \<Sum>q < cv_pix z. ent (cv_pix z) g (n * cv_f z + f) q *
        (\<Sum>l < cv_col z. ent (cv_col z) y f l * cv_cols z (cv_img z xs n) l q)) =
        (\<Sum>f < cv_f z. \<Sum>l < cv_col z. (\<Sum>n < cv_n z. \<Sum>q < cv_pix z.
          ent (cv_pix z) g (n * cv_f z + f) q * cv_cols z (cv_img z xs n) l q) * ent (cv_col z) y f l)"
      unfolding sum_distrib_left sum_distrib_right
      by (subst sum.swap, subst (3) sum.swap, subst (2) sum.swap) (simp add: ac_simps)
    also have "\<dots> = (\<Sum>p < length ws. convolve_gw z xs g ! p * y ! p)"
      unfolding len sum_positions by (intro sum.cong refl) (simp add: convolve_gw_def nth_tab fsum_sum ent_def)
    finally show "inner g (convolve z y bs xs) = ?C + (\<Sum>p < length ws. convolve_gw z xs g ! p * y ! p)"
      using g by (simp add: inner_convolve)
  qed
qed simp

interpretation conv_b: diff_layer "\<lambda>bs. convolve z ws bs xs" "\<lambda>bs g. convolve_gb z g" "\<lambda>bs. convolve_ok z ws bs xs" for z xs ws
proof
  fix bs g :: "real list"
  assume x: "convolve_ok z ws bs xs" and g: "length g = length (convolve z ws bs xs)"
  show "vjp (\<lambda>bs. convolve z ws bs xs) bs g (convolve_gb z g)"
  proof (rule vjp_linear)
    have len: "length bs = cv_f z" using x by (simp add: convolve_ok_def)
    then show "length (convolve_gb z g) = length bs" by (simp add: convolve_gb_def sumall_except_dim1_def)
    fix y :: "real list" assume y: "length y = length bs"
    have "(\<Sum>n < cv_n z. \<Sum>f < cv_f z. \<Sum>q < cv_pix z. ent (cv_pix z) g (n * cv_f z + f) q * y ! f) =
        (\<Sum>p < length bs. convolve_gb z g ! p * y ! p)"
      unfolding len by (subst sum.swap) (simp add: convolve_gb_def sumall_except_dim1_def fsum_sum sum_distrib_right)
    then show "inner g (convolve z ws y xs) =
        (\<Sum>n < cv_n z. \<Sum>f < cv_f z. \<Sum>q < cv_pix z. ent (cv_pix z) g (n * cv_f z + f) q *
          (\<Sum>l < cv_col z. ent (cv_col z) ws f l * cv_cols z (cv_img z xs n) l q)) +
        (\<Sum>p < length bs. convolve_gb z g ! p * y ! p)"
      using g by (simp add: inner_convolve)
  qed
qed simp

section \<open>Pooling\<close>

text \<open>The planes of a batch (images times channels), their size and the kernel.\<close>

record pool_shape =
  pl_n :: nat
  pl_h :: nat
  pl_w :: nat
  pl_k :: nat
  pl_s :: nat

definition pl_ok :: "pool_shape \<Rightarrow> bool" where
  "pl_ok z \<longleftrightarrow> 0 < pl_s z \<and> 0 < pl_k z \<and> pl_k z \<le> pl_h z \<and> pl_k z \<le> pl_w z"

definition pl_oh :: "pool_shape \<Rightarrow> nat" where "pl_oh z = out_size (pl_h z) (pl_k z) (pl_s z)"
definition pl_ow :: "pool_shape \<Rightarrow> nat" where "pl_ow z = out_size (pl_w z) (pl_k z) (pl_s z)"

definition avg_pool :: "pool_shape \<Rightarrow> real list \<Rightarrow> real list" where
  "avg_pool z xs = tab (pl_n z * pl_oh z) (pl_ow z)
     (\<lambda>i j. pool 0 (+) (pl_k z) (pl_s z) (pl_h z) (pl_w z) (ent (pl_w z) xs) i j * (1 / real (pl_k z * pl_k z)))"

definition avg_unpool :: "pool_shape \<Rightarrow> real list \<Rightarrow> real list \<Rightarrow> real list \<Rightarrow> real list" where
  "avg_unpool z xs ys gs = tab (pl_n z * pl_h z) (pl_w z)
     (\<lambda>i j. unpool (\<lambda>_ _. 1) (pl_k z) (pl_s z) (pl_h z) (pl_oh z) (pl_ow z) (ent (pl_w z) xs) (ent (pl_ow z) ys) (ent (pl_ow z) gs) i j
        * (1 / real (pl_k z * pl_k z)))"

definition max_pool :: "pool_shape \<Rightarrow> real list \<Rightarrow> real list" where
  "max_pool z xs = tab (pl_n z * pl_oh z) (pl_ow z)
     (pool (- FLT_MAX) max (pl_k z) (pl_s z) (pl_h z) (pl_w z) (ent (pl_w z) xs))"

definition max_unpool :: "pool_shape \<Rightarrow> real list \<Rightarrow> real list \<Rightarrow> real list \<Rightarrow> real list" where
  "max_unpool z xs ys gs = tab (pl_n z * pl_h z) (pl_w z)
     (unpool maximum_PartialGrad (pl_k z) (pl_s z) (pl_h z) (pl_oh z) (pl_ow z) (ent (pl_w z) xs) (ent (pl_ow z) ys) (ent (pl_ow z) gs))"

text \<open>The entry of a plane, by plane, row and column, and the rows and columns of a window.\<close>

definition px :: "pool_shape \<Rightarrow> nat \<Rightarrow> nat \<Rightarrow> nat \<Rightarrow> nat" where
  "px z c y x = (c * pl_h z + y) * pl_w z + x"

definition qx :: "pool_shape \<Rightarrow> nat \<Rightarrow> nat \<Rightarrow> nat \<Rightarrow> nat" where
  "qx z c py q = (c * pl_oh z + py) * pl_ow z + q"

lemma window_upt:
  assumes "p < out_size d k s" and "0 < s" and "0 < k" and "k \<le> d"
  shows "window k s d p = [p * s..<p * s + k]"
proof -
  have "p * s + k \<le> d" using patch_inside [of p d k s "k - 1"] assms by simp
  then show ?thesis by (simp add: window_def)
qed

lemma window_sum:
  fixes F :: "nat \<Rightarrow> real"
  assumes "p < out_size d k s" and "0 < s" and "0 < k" and "k \<le> d"
  shows "sum F (set (window k s d p)) = (\<Sum>o1 < k. F (p * s + o1))"
  unfolding window_upt [OF assms] set_upt
  using sum.shift_bounds_nat_ivl [of F 0 "p * s" k] by (simp add: lessThan_atLeast0 add.commute)

lemma unpool_entry:
  fixes src :: "nat \<Rightarrow> nat \<Rightarrow> real"
  assumes "y < h"
  shows "unpool partial k s h oh ow src pooled grad (c * h + y) x =
    (\<Sum>py \<in> set (patches k s oh y). \<Sum>q \<in> set (patches k s ow x). partial (src (c * h + y) x) (pooled (c * oh + py) q) * grad (c * oh + py) q)"
  using assms by (simp add: unpool_def Let_def nested_foldl_sum sum_list_distinct distinct_patches)

text \<open>Unpooling is the transpose of a sum over windows, weighted with the partial gradients of the reducer.\<close>

lemma unpool_transpose:
  fixes G D src pooled :: "nat \<Rightarrow> nat \<Rightarrow> real"
  assumes "0 < s" and "0 < k" and "k \<le> h" and "k \<le> w"
  defines "oh \<equiv> out_size h k s" and "ow \<equiv> out_size w k s"
  shows "(\<Sum>c < n. \<Sum>py < oh. \<Sum>q < ow. G (c * oh + py) q * (\<Sum>y \<in> set (window k s h py). \<Sum>x \<in> set (window k s w q).
      partial (src (c * h + y) x) (pooled (c * oh + py) q) * D (c * h + y) x)) =
    (\<Sum>c < n. \<Sum>y < h. \<Sum>x < w. unpool partial k s h oh ow src pooled G (c * h + y) x * D (c * h + y) x)"
proof -
  let ?T = "\<lambda>c py q y x. G (c * oh + py) q * (partial (src (c * h + y) x) (pooled (c * oh + py) q) * D (c * h + y) x)"
  have "(\<Sum>c < n. \<Sum>py < oh. \<Sum>q < ow. G (c * oh + py) q * (\<Sum>y \<in> set (window k s h py). \<Sum>x \<in> set (window k s w q).
      partial (src (c * h + y) x) (pooled (c * oh + py) q) * D (c * h + y) x)) =
      (\<Sum>c < n. \<Sum>py < oh. \<Sum>q < ow. \<Sum>yo < k. \<Sum>xo < k. ?T c py q (py * s + yo) (q * s + xo))"
    using assms by (intro sum.cong refl) (simp add: window_sum sum_distrib_left)
  also have "\<dots> = (\<Sum>c < n. \<Sum>py < oh. \<Sum>yo < k. \<Sum>q < ow. \<Sum>xo < k. ?T c py q (py * s + yo) (q * s + xo))"
    by (intro sum.cong refl sum.swap)
  also have "\<dots> = (\<Sum>c < n. \<Sum>yo < k. \<Sum>py < oh. \<Sum>xo < k. \<Sum>q < ow. ?T c py q (py * s + yo) (q * s + xo))"
    by (subst (4) sum.swap, subst (2) sum.swap) simp
  also have "\<dots> = (\<Sum>c < n. \<Sum>yo < k. \<Sum>py < oh. \<Sum>x < w. \<Sum>q \<in> set (patches k s ow x). ?T c py q (py * s + yo) x)"
    unfolding ow_def by (intro sum.cong refl patch_sum [OF assms(1,2,4), of "\<lambda>xo q x. ?T _ _ q _ x"])
  also have "\<dots> = (\<Sum>c < n. \<Sum>y < h. \<Sum>py \<in> set (patches k s oh y). \<Sum>x < w. \<Sum>q \<in> set (patches k s ow x). ?T c py q y x)"
    using patch_sum [OF assms(1-3), of "\<lambda>yo py y. \<Sum>x < w. \<Sum>q \<in> set (patches k s ow x). ?T c py q y x" for c]
    unfolding oh_def by simp
  also have "\<dots> = (\<Sum>c < n. \<Sum>y < h. \<Sum>x < w. unpool partial k s h oh ow src pooled G (c * h + y) x * D (c * h + y) x)"
  proof -
    have "(\<Sum>py \<in> A. \<Sum>x < w. \<Sum>q \<in> set (patches k s ow x). ?T c py q y x) =
        (\<Sum>x < w. \<Sum>py \<in> A. \<Sum>q \<in> set (patches k s ow x). ?T c py q y x)" for A c y by (rule sum.swap)
    then show ?thesis by (simp add: unpool_entry sum_distrib_right) (simp add: ac_simps)
  qed
  finally show ?thesis .
qed

lemma pool_sum_entry:
  assumes "py < out_size h k s"
  shows "pool 0 (+) k s h w src (c * out_size h k s + py) q =
    (\<Sum>y \<in> set (window k s h py). \<Sum>x \<in> set (window k s w q). src (c * h + y) x :: real)"
proof -
  have "distinct (window k s d p)" for d p by (simp add: window_def)
  then show ?thesis using assms by (simp add: pool_def Let_def nested_foldl_sum sum_list_distinct)
qed

lemma pool_positions:
  assumes "i < n" "y < h" "x < w"
  shows "(i * h + y) * w + x < n * h * (w :: nat)"
  using position_lt [OF position_lt [OF assms(1,2)] assms(3)] by simp

interpretation avg_pool: diff_layer "avg_pool z" "\<lambda>x g. avg_unpool z x (avg_pool z x) g" "\<lambda>x. pl_ok z \<and> length x = pl_n z * pl_h z * pl_w z" for z
proof
  fix x g :: "real list"
  assume x: "pl_ok z \<and> length x = pl_n z * pl_h z * pl_w z" and g: "length g = length (avg_pool z x)"
  have len: "length g = pl_n z * pl_oh z * pl_ow z" using g by (simp add: avg_pool_def)
  show "vjp (avg_pool z) x g (avg_unpool z x (avg_pool z x) g)"
  proof (rule vjp_linear)
    show "length (avg_unpool z x (avg_pool z x) g) = length x" using x by (simp add: avg_unpool_def)
    fix y :: "real list" assume y: "length y = length x"
    let ?r = "1 / real (pl_k z * pl_k z)"
    have "inner g (avg_pool z y) = (\<Sum>c < pl_n z. \<Sum>py < pl_oh z. \<Sum>q < pl_ow z. (ent (pl_ow z) g (c * pl_oh z + py) q * ?r) *
        (\<Sum>i \<in> set (window (pl_k z) (pl_s z) (pl_h z) py). \<Sum>j \<in> set (window (pl_k z) (pl_s z) (pl_w z) q).
          1 * ent (pl_w z) y (c * pl_h z + i) j))"
      unfolding inner_def len sum_positions
      by (intro sum.cong refl) (simp add: avg_pool_def nth_tab position_lt, simp add: pl_oh_def pool_sum_entry, simp add: ent_def)
    also have "\<dots> = (\<Sum>c < pl_n z. \<Sum>i < pl_h z. \<Sum>j < pl_w z.
        unpool (\<lambda>_ _. 1) (pl_k z) (pl_s z) (pl_h z) (pl_oh z) (pl_ow z) (ent (pl_w z) x) (ent (pl_ow z) (avg_pool z x))
          (\<lambda>i q. ent (pl_ow z) g i q * ?r) (c * pl_h z + i) j * ent (pl_w z) y (c * pl_h z + i) j)"
      unfolding pl_oh_def pl_ow_def by (rule unpool_transpose [where partial = "\<lambda>_ _. 1"]) (use x in \<open>auto simp: pl_ok_def\<close>)
    also have "\<dots> = (\<Sum>p < length x. avg_unpool z x (avg_pool z x) g ! p * y ! p)"
      unfolding x [THEN conjunct2] sum_positions
      by (intro sum.cong refl) (simp add: avg_unpool_def nth_tab position_lt unpool_entry sum_distrib_right sum_divide_distrib, simp add: ent_def)
    finally show "inner g (avg_pool z y) = 0 + (\<Sum>p < length x. avg_unpool z x (avg_pool z x) g ! p * y ! p)" by simp
  qed
qed (simp add: avg_pool_def)

text \<open>Maxima of windows.\<close>

lemma nested_foldl_max:
  "foldl (\<lambda>a p. foldl (\<lambda>a q. max a (f p q)) a (ys p)) a xs = foldl max a (concat (map (\<lambda>p. map (f p) (ys p)) xs))"
proof (induction xs arbitrary: a)
  case (Cons p xs)
  have "foldl (\<lambda>a q. max a (f p q)) a l = foldl max a (map (f p) l)" for a l by (induction l arbitrary: a) simp_all
  then show ?case using Cons by simp
qed simp

lemma foldl_max_eq:
  fixes v :: "'a :: linorder"
  assumes "a \<le> v" and "v \<in> set xs \<or> a = v" and "\<forall>u \<in> set xs. u \<le> v"
  shows "foldl max a xs = v"
  using assms
proof (induction xs arbitrary: a)
  case (Cons u xs)
  show ?case using Cons.IH [of "max a u"] Cons.prems by (auto simp: max_def)
qed simp

text \<open>Pixel \<open>(y, x)\<close> of plane \<open>c\<close> is larger than every other pixel of the window of \<open>(py, q)\<close>.\<close>

definition dominates :: "pool_shape \<Rightarrow> real list \<Rightarrow> nat \<Rightarrow> nat \<Rightarrow> nat \<Rightarrow> nat \<Rightarrow> nat \<Rightarrow> bool" where
  "dominates z xs c py q y x \<longleftrightarrow>
     y \<in> set (window (pl_k z) (pl_s z) (pl_h z) py) \<and> x \<in> set (window (pl_k z) (pl_s z) (pl_w z) q) \<and>
     - FLT_MAX < ent (pl_w z) xs (c * pl_h z + y) x \<and>
     (\<forall>i \<in> set (window (pl_k z) (pl_s z) (pl_h z) py). \<forall>j \<in> set (window (pl_k z) (pl_s z) (pl_w z) q).
       (i, j) \<noteq> (y, x) \<longrightarrow> ent (pl_w z) xs (c * pl_h z + i) j < ent (pl_w z) xs (c * pl_h z + y) x)"

definition max_ok :: "pool_shape \<Rightarrow> real list \<Rightarrow> bool" where
  "max_ok z xs \<longleftrightarrow> pl_ok z \<and> length xs = pl_n z * pl_h z * pl_w z \<and>
     (\<forall>c < pl_n z. \<forall>py < pl_oh z. \<forall>q < pl_ow z. \<exists>y x. dominates z xs c py q y x)"

lemma pool_max_entry:
  assumes "dominates z xs c py q y x" and "py < pl_oh z"
  shows "pool (- FLT_MAX) max (pl_k z) (pl_s z) (pl_h z) (pl_w z) (ent (pl_w z) xs) (c * pl_oh z + py) q =
    ent (pl_w z) xs (c * pl_h z + y) x"
proof -
  note d = assms(1) [unfolded dominates_def]
  have le: "ent (pl_w z) xs (c * pl_h z + i) j \<le> ent (pl_w z) xs (c * pl_h z + y) x"
    if "i \<in> set (window (pl_k z) (pl_s z) (pl_h z) py)" "j \<in> set (window (pl_k z) (pl_s z) (pl_w z) q)" for i j
    using d that by (cases "(i, j) = (y, x)") (auto intro: less_imp_le)
  have "foldl max (- FLT_MAX) (concat (map (\<lambda>i. map (ent (pl_w z) xs (c * pl_h z + i)) (window (pl_k z) (pl_s z) (pl_w z) q))
      (window (pl_k z) (pl_s z) (pl_h z) py))) = ent (pl_w z) xs (c * pl_h z + y) x"
    by (rule foldl_max_eq) (use d le in auto)
  moreover have "(c * pl_oh z + py) mod pl_oh z = py" "(c * pl_oh z + py) div pl_oh z = c" using assms(2) by simp_all
  ultimately show ?thesis
    by (simp add: pool_def Let_def pl_oh_def [symmetric] nested_foldl_max)
qed

lemma dominatesD:
  assumes "dominates z xs c py q y x"
  shows "y \<in> set (window (pl_k z) (pl_s z) (pl_h z) py)" "x \<in> set (window (pl_k z) (pl_s z) (pl_w z) q)" "y < pl_h z" "x < pl_w z"
    "- FLT_MAX < ent (pl_w z) xs (c * pl_h z + y) x"
    "i \<in> set (window (pl_k z) (pl_s z) (pl_h z) py) \<Longrightarrow> j \<in> set (window (pl_k z) (pl_s z) (pl_w z) q) \<Longrightarrow> (i, j) \<noteq> (y, x) \<Longrightarrow>
      ent (pl_w z) xs (c * pl_h z + i) j < ent (pl_w z) xs (c * pl_h z + y) x"
  using assms by (auto simp: dominates_def window_def)

lemma max_pool_entry:
  "dominates z xs c py q y x \<Longrightarrow> c < pl_n z \<Longrightarrow> py < pl_oh z \<Longrightarrow> q < pl_ow z \<Longrightarrow>
   ent (pl_ow z) (max_pool z xs) (c * pl_oh z + py) q = ent (pl_w z) xs (c * pl_h z + y) x"
  by (simp add: max_pool_def ent_tab position_lt pool_max_entry)

lemma pixel_derivative:
  assumes "path x c d" and "length x = pl_n z * pl_h z * pl_w z" and "a < pl_n z" "i < pl_h z" "j < pl_w z"
  shows "((\<lambda>t. ent (pl_w z) (c t) (a * pl_h z + i) j) has_real_derivative d ((a * pl_h z + i) * pl_w z + j)) (at 0)"
  using pathD(3) [OF assms(1)] pool_positions [OF assms(3-5)] assms(2) by (simp add: ent_def)

text \<open>A pixel that dominates its window keeps doing so for a while on every path.\<close>

lemma dominates_stays:
  assumes "path xs c d" and "length xs = pl_n z * pl_h z * pl_w z" and "a < pl_n z" and "dominates z xs a py q y x"
  shows "eventually (\<lambda>t. dominates z (c t) a py q y x) (nhds 0)"
proof -
  note D = dominatesD [OF assms(4)]
  let ?e = "\<lambda>i j t. ent (pl_w z) (c t) (a * pl_h z + i) j"
  have tends: "((?e i j) \<longlongrightarrow> ?e i j 0) (nhds 0)" if "i < pl_h z" "j < pl_w z" for i j
    using DERIV_isCont [OF pixel_derivative [OF assms(1-3) that]] tendsto_at_iff_tendsto_nhds [of "?e i j" 0] by (simp only: isCont_def)
  have "eventually (\<lambda>t. - FLT_MAX < ?e y x t) (nhds 0)"
    by (rule order_tendstoD(1) [OF tends [OF D(3,4)]]) (use D(5) pathD(1) [OF assms(1)] in simp)
  moreover have "eventually (\<lambda>t. \<forall>i \<in> set (window (pl_k z) (pl_s z) (pl_h z) py). \<forall>j \<in> set (window (pl_k z) (pl_s z) (pl_w z) q).
      (i, j) \<noteq> (y, x) \<longrightarrow> ?e i j t < ?e y x t) (nhds 0)"
  proof (intro eventually_ball_finite ballI finite_set)
    fix i j assume ij: "i \<in> set (window (pl_k z) (pl_s z) (pl_h z) py)" "j \<in> set (window (pl_k z) (pl_s z) (pl_w z) q)"
    then have lt: "i < pl_h z" "j < pl_w z" by (simp_all add: window_def)
    show "eventually (\<lambda>t. (i, j) \<noteq> (y, x) \<longrightarrow> ?e i j t < ?e y x t) (nhds 0)"
    proof (cases "(i, j) = (y, x)")
      case False
      then have "0 < ?e y x 0 - ?e i j 0" using D(6) [OF ij] pathD(1) [OF assms(1)] by simp
      then have "eventually (\<lambda>t. 0 < ?e y x t - ?e i j t) (nhds 0)"
        by (rule order_tendstoD(1) [OF tendsto_diff [OF tends [OF D(3,4)] tends [OF lt]]])
      then show ?thesis by (rule eventually_mono) simp
    qed simp
  qed
  ultimately show ?thesis by eventually_elim (use D(1,2) in \<open>simp add: dominates_def\<close>)
qed

text \<open>The partial gradients of the maximum pick the pixel that dominates.\<close>

lemma maximum_picks:
  assumes "dominates z xs a py q y x" and "a < pl_n z" "py < pl_oh z" "q < pl_ow z"
  shows "(\<Sum>i \<in> set (window (pl_k z) (pl_s z) (pl_h z) py). \<Sum>j \<in> set (window (pl_k z) (pl_s z) (pl_w z) q).
      maximum_PartialGrad (ent (pl_w z) xs (a * pl_h z + i) j) (ent (pl_ow z) (max_pool z xs) (a * pl_oh z + py) q) * D (a * pl_h z + i) j) =
    (D (a * pl_h z + y) x :: real)"
proof -
  note dom = dominatesD [OF assms(1)]
  let ?A = "set (window (pl_k z) (pl_s z) (pl_h z) py)" and ?B = "set (window (pl_k z) (pl_s z) (pl_w z) q)"
  have "(\<Sum>i \<in> ?A. \<Sum>j \<in> ?B.
      maximum_PartialGrad (ent (pl_w z) xs (a * pl_h z + i) j) (ent (pl_ow z) (max_pool z xs) (a * pl_oh z + py) q) * D (a * pl_h z + i) j) =
      (\<Sum>i \<in> ?A. \<Sum>j \<in> ?B. if i = y then if j = x then D (a * pl_h z + i) j else 0 else 0)"
  proof (intro sum.cong refl)
    fix i j assume "i \<in> ?A" "j \<in> ?B"
    then show "maximum_PartialGrad (ent (pl_w z) xs (a * pl_h z + i) j) (ent (pl_ow z) (max_pool z xs) (a * pl_oh z + py) q) * D (a * pl_h z + i) j =
        (if i = y then if j = x then D (a * pl_h z + i) j else 0 else 0)"
      using dom(6) [of i j] unfolding max_pool_entry [OF assms] maximum_PartialGrad_def by (cases "(i, j) = (y, x)") auto
  qed
  also have "\<dots> = (\<Sum>i \<in> ?A. if i = y then (\<Sum>j \<in> ?B. if j = x then D (a * pl_h z + i) j else 0) else 0)"
    by (intro sum.cong refl) simp
  finally show ?thesis using dom(1,2) by (simp add: sum.delta)
qed

interpretation max_pool: diff_layer "max_pool z" "\<lambda>x g. max_unpool z x (max_pool z x) g" "max_ok z" for z
proof
  fix x g :: "real list"
  assume x: "max_ok z x" and g: "length g = length (max_pool z x)"
  let ?h = "pl_h z" and ?w = "pl_w z" and ?oh = "pl_oh z" and ?ow = "pl_ow z"
  have ok: "pl_ok z" "length x = pl_n z * ?h * ?w" using x by (simp_all add: max_ok_def)
  have len: "length g = pl_n z * ?oh * ?ow" using g by (simp add: max_pool_def)
  obtain Y X where dom: "\<And>c py q. c < pl_n z \<Longrightarrow> py < ?oh \<Longrightarrow> q < ?ow \<Longrightarrow> dominates z x c py q (Y c py q) (X c py q)"
    using x unfolding max_ok_def by metis
  show "vjp (max_pool z) x g (max_unpool z x (max_pool z x) g)"
    unfolding vjp_def
  proof (intro conjI allI impI)
    show "length (max_unpool z x (max_pool z x) g) = length x" using ok by (simp add: max_unpool_def)
    fix c d assume c: "path x c d"
    let ?D = "\<lambda>i j. d (i * ?w + j)"
    have entry: "((\<lambda>t. ent ?ow (max_pool z (c t)) (a * ?oh + py) q) has_real_derivative ?D (a * ?h + Y a py q) (X a py q)) (at 0)"
      if a: "a < pl_n z" "py < ?oh" "q < ?ow" for a py q
    proof -
      note dd = pixel_derivative [OF c ok(2) a(1) dominatesD(3,4) [OF dom [OF a]]]
      have ev: "eventually (\<lambda>t. ent ?w (c t) (a * ?h + Y a py q) (X a py q) = ent ?ow (max_pool z (c t)) (a * ?oh + py) q) (nhds 0)"
        using dominates_stays [OF c ok(2) a(1) dom [OF a]] by (rule eventually_mono) (simp add: max_pool_entry a)
      show ?thesis using dd DERIV_cong_ev [OF refl ev refl] by simp
    qed
    have "((\<lambda>t. inner g (max_pool z (c t))) has_real_derivative
        (\<Sum>a < pl_n z. \<Sum>py < ?oh. \<Sum>q < ?ow. ent ?ow g (a * ?oh + py) q * ?D (a * ?h + Y a py q) (X a py q))) (at 0)"
      unfolding inner_def len sum_positions ent_def [symmetric] by (intro DERIV_sum DERIV_cmult entry) auto
    moreover have "(\<Sum>a < pl_n z. \<Sum>py < ?oh. \<Sum>q < ?ow. ent ?ow g (a * ?oh + py) q * ?D (a * ?h + Y a py q) (X a py q)) =
        (\<Sum>p < length x. max_unpool z x (max_pool z x) g ! p * d p)"
    proof -
      let ?g = "\<lambda>i j. maximum_PartialGrad (ent ?w x i j)"
      have "(\<Sum>a < pl_n z. \<Sum>py < ?oh. \<Sum>q < ?ow. ent ?ow g (a * ?oh + py) q * ?D (a * ?h + Y a py q) (X a py q)) =
          (\<Sum>a < pl_n z. \<Sum>py < ?oh. \<Sum>q < ?ow. ent ?ow g (a * ?oh + py) q *
            (\<Sum>i \<in> set (window (pl_k z) (pl_s z) ?h py). \<Sum>j \<in> set (window (pl_k z) (pl_s z) ?w q).
              ?g (a * ?h + i) j (ent ?ow (max_pool z x) (a * ?oh + py) q) * ?D (a * ?h + i) j))"
        by (intro sum.cong refl) (simp add: maximum_picks [OF dom, where D = ?D])
      also have "\<dots> = (\<Sum>a < pl_n z. \<Sum>i < ?h. \<Sum>j < ?w.
          unpool maximum_PartialGrad (pl_k z) (pl_s z) ?h ?oh ?ow (ent ?w x) (ent ?ow (max_pool z x)) (ent ?ow g) (a * ?h + i) j * ?D (a * ?h + i) j)"
        unfolding pl_oh_def pl_ow_def by (rule unpool_transpose) (use ok in \<open>auto simp: pl_ok_def\<close>)
      also have "\<dots> = (\<Sum>p < length x. max_unpool z x (max_pool z x) g ! p * d p)"
        unfolding ok(2) sum_positions by (intro sum.cong refl) (simp add: max_unpool_def nth_tab position_lt)
      finally show ?thesis .
    qed
    ultimately show "((\<lambda>t. inner g (max_pool z (c t))) has_real_derivative
        (\<Sum>p < length x. max_unpool z x (max_pool z x) g ! p * d p)) (at 0)" by simp
  qed
qed (simp add: max_pool_def)

section \<open>Local response normalisation\<close>

record lrn_shape =
  lr_n :: nat
  lr_ch :: nat
  lr_h :: nat
  lr_w :: nat
  lr_size :: nat
  lr_salpha :: real
  lr_beta :: real
  lr_knorm :: real

definition lrn_norm :: "lrn_shape \<Rightarrow> real list \<Rightarrow> real list" where
  "lrn_norm z xs = tab (lr_n z * lr_ch z * lr_h z) (lr_w z)
     (\<lambda>i j. chpool (lr_size z) (lr_ch z) (lr_h z) (\<lambda>i j. ent (lr_w z) xs i j * ent (lr_w z) xs i j) i j * lr_salpha z + lr_knorm z)"

definition lrn_data :: "lrn_shape \<Rightarrow> real list \<Rightarrow> real list \<Rightarrow> real list" where
  "lrn_data z xs ns = map2 (\<lambda>x n. x * n powr (- lr_beta z)) xs ns"

definition lrn_gx :: "lrn_shape \<Rightarrow> real list \<Rightarrow> real list \<Rightarrow> real list \<Rightarrow> real list" where
  "lrn_gx z xs ns gs = tab (lr_n z * lr_ch z * lr_h z) (lr_w z)
     (\<lambda>i j. ent (lr_w z) gs i j * ent (lr_w z) ns i j powr (- lr_beta z) +
        (- 2 * lr_beta z * lr_salpha z) *
          chpool (lr_size z) (lr_ch z) (lr_h z)
            (\<lambda>i j. ent (lr_w z) gs i j * ent (lr_w z) xs i j * ent (lr_w z) ns i j powr (- lr_beta z - 1)) i j * ent (lr_w z) xs i j)"

definition lrn_ok :: "lrn_shape \<Rightarrow> real list \<Rightarrow> bool" where
  "lrn_ok z xs \<longleftrightarrow> length xs = lr_n z * lr_ch z * lr_h z * lr_w z \<and> (\<forall>a \<in> set (lrn_norm z xs). 0 < a)"

text \<open>A channel is near another one exactly when the other one is near it.\<close>

lemma channels_near_sym:
  "c < ch \<Longrightarrow> c' \<in> set (channels_near l ch c) \<longleftrightarrow> c' < ch \<and> c \<in> set (channels_near l ch c')"
  by (auto simp: channels_near_def Let_def split: if_splits)

lemma near_swap:
  fixes F :: "nat \<Rightarrow> nat \<Rightarrow> real"
  shows "(\<Sum>c < ch. \<Sum>c' \<in> set (channels_near l ch c). F c c') = (\<Sum>c' < ch. \<Sum>c \<in> set (channels_near l ch c'). F c c')"
proof -
  have "(\<Sum>c < ch. \<Sum>c' \<in> set (channels_near l ch c). F c c') = (\<Sum>(c, c') \<in> Sigma {..<ch} (\<lambda>c. set (channels_near l ch c)). F c c')"
    by (rule sum.Sigma) auto
  also have "\<dots> = (\<Sum>(c', c) \<in> Sigma {..<ch} (\<lambda>c. set (channels_near l ch c)). F c c')"
    by (rule sum.reindex_bij_witness [where i = prod.swap and j = prod.swap]) (auto simp: channels_near_sym)
  also have "\<dots> = (\<Sum>c' < ch. \<Sum>c \<in> set (channels_near l ch c'). F c c')"
    by (rule sum.Sigma [symmetric]) auto
  finally show ?thesis .
qed

lemma chpool_entry:
  fixes src :: "nat \<Rightarrow> nat \<Rightarrow> real"
  assumes "c < ch" and "y < h"
  shows "chpool l ch h src ((n * ch + c) * h + y) j = (\<Sum>c' \<in> set (channels_near l ch c). src ((n * ch + c') * h + y) j)"
proof -
  have "distinct (channels_near l ch c)" by (simp add: channels_near_def Let_def)
  then show ?thesis using assms by (simp add: chpool_def Let_def foldl_sum sum_list_distinct)
qed

lemma lrn_positions:
  assumes "n < N" "c < ch" "y < h" "x < w"
  shows "((n * ch + c) * h + y) < N * ch * h" "((n * ch + c) * h + y) * w + x < N * ch * h * (w :: nat)"
  using position_lt [OF position_lt [OF position_lt [OF assms(1,2)] assms(3)] assms(4)]
    position_lt [OF position_lt [OF assms(1,2)] assms(3)] by simp_all

lemma chpool_transpose:
  fixes F :: "nat \<Rightarrow> nat \<Rightarrow> real" and D :: "nat \<Rightarrow> nat \<Rightarrow> real"
  shows "(\<Sum>i < N * ch * h. \<Sum>j < w. F i j * chpool l ch h D i j) = (\<Sum>i < N * ch * h. \<Sum>j < w. chpool l ch h F i j * D i j)"
proof -
  have "(\<Sum>i < N * ch * h. \<Sum>j < w. F i j * chpool l ch h D i j) =
      (\<Sum>n < N. \<Sum>c < ch. \<Sum>y < h. \<Sum>j < w. \<Sum>c' \<in> set (channels_near l ch c). F ((n * ch + c) * h + y) j * D ((n * ch + c') * h + y) j)"
    unfolding sum_positions by (intro sum.cong refl) (simp add: chpool_entry sum_distrib_left)
  also have "\<dots> = (\<Sum>n < N. \<Sum>c < ch. \<Sum>c' \<in> set (channels_near l ch c). \<Sum>y < h. \<Sum>j < w. F ((n * ch + c) * h + y) j * D ((n * ch + c') * h + y) j)"
    by (subst (2) sum.swap) (simp add: sum.swap [of _ "set _"])
  also have "\<dots> = (\<Sum>n < N. \<Sum>c < ch. \<Sum>c' \<in> set (channels_near l ch c). \<Sum>y < h. \<Sum>j < w. F ((n * ch + c') * h + y) j * D ((n * ch + c) * h + y) j)"
    by (intro sum.cong refl near_swap)
  also have "\<dots> = (\<Sum>n < N. \<Sum>c < ch. \<Sum>y < h. \<Sum>j < w. \<Sum>c' \<in> set (channels_near l ch c). F ((n * ch + c') * h + y) j * D ((n * ch + c) * h + y) j)"
    by (subst (2) sum.swap) (simp add: sum.swap [of _ "set _"])
  also have "\<dots> = (\<Sum>i < N * ch * h. \<Sum>j < w. chpool l ch h F i j * D i j)"
    unfolding sum_positions by (intro sum.cong refl) (simp add: chpool_entry sum_distrib_right)
  finally show ?thesis .
qed

lemma chpool_derivative:
  assumes "\<And>a. a < lr_n z * lr_ch z * lr_h z \<Longrightarrow> ((\<lambda>t. f t a j) has_real_derivative D a j) (at 0)"
    and "i < lr_n z * lr_ch z * lr_h z"
  shows "((\<lambda>t. chpool l (lr_ch z) (lr_h z) (f t) i j) has_real_derivative chpool l (lr_ch z) (lr_h z) D i j) (at 0)"
proof -
  obtain a y where a: "a < lr_n z * lr_ch z" "y < lr_h z" "i = a * lr_h z + y" using position [OF assms(2)] by metis
  obtain n c where n: "n < lr_n z" "c < lr_ch z" "a = n * lr_ch z + c" using position [OF a(1)] by metis
  have near: "c' < lr_ch z" if "c' \<in> set (channels_near l (lr_ch z) c)" for c'
    using that by (simp add: channels_near_def Let_def)
  show ?thesis
    unfolding a(3) n(3) chpool_entry [OF n(2) a(2)]
    by (intro DERIV_sum assms(1)) (use near n(1) a(2) in \<open>simp add: lrn_positions\<close>)
qed

lemma length_lrn [simp]:
  "length (lrn_norm z xs) = lr_n z * lr_ch z * lr_h z * lr_w z" "length (lrn_gx z xs ns gs) = lr_n z * lr_ch z * lr_h z * lr_w z"
  by (simp_all add: lrn_norm_def lrn_gx_def)

text \<open>The velocity of an output on a path, and the gradient that collects them.\<close>

definition lrn_velocity :: "lrn_shape \<Rightarrow> real list \<Rightarrow> (nat \<Rightarrow> real) \<Rightarrow> nat \<Rightarrow> nat \<Rightarrow> real" where
  "lrn_velocity z x d i j =
     (let N = ent (lr_w z) (lrn_norm z x) i j; near = chpool (lr_size z) (lr_ch z) (lr_h z) (\<lambda>i j. ent (lr_w z) x i j * d (i * lr_w z + j)) i j in
      d (i * lr_w z + j) * N powr (- lr_beta z) + (- lr_beta z * N powr (- lr_beta z - 1) * (2 * near * lr_salpha z)) * ent (lr_w z) x i j)"

lemma chpool_scale: "chpool l ch h (\<lambda>i j. a * f i j) i j = (a :: real) * chpool l ch h f i j"
  by (simp add: chpool_def Let_def foldl_sum sum_list_const_mult)

lemma lrn_entry_derivative:
  assumes "lrn_ok z x" and c: "path x c d" and ij: "i < lr_n z * lr_ch z * lr_h z" "j < lr_w z"
  shows "((\<lambda>t. lrn_data z (c t) (lrn_norm z (c t)) ! (i * lr_w z + j)) has_real_derivative lrn_velocity z x d i j) (at 0)"
proof -
  let ?r = "lr_n z * lr_ch z * lr_h z" and ?w = "lr_w z" and ?cp = "chpool (lr_size z) (lr_ch z) (lr_h z)"
  let ?x = "ent ?w x" and ?b = "lr_beta z" and ?d = "\<lambda>i j. d (i * ?w + j)"
  have len: "length x = ?r * ?w" using assms(1) by (simp add: lrn_ok_def)
  have cx: "((\<lambda>t. ent ?w (c t) a j) has_real_derivative ?d a j) (at 0)" if "a < ?r" for a
    using pathD(3) [OF c] position_lt [OF that ij(2)] len by (simp add: ent_def)
  have "((\<lambda>t. ent ?w (c t) a j * ent ?w (c t) a j) has_real_derivative 2 * (?x a j * ?d a j)) (at 0)" if "a < ?r" for a
    using DERIV_mult [OF cx [OF that] cx [OF that]] pathD(1) [OF c] by (simp add: mult.commute)
  then have "((\<lambda>t. ?cp (\<lambda>i j. ent ?w (c t) i j * ent ?w (c t) i j) i j) has_real_derivative ?cp (\<lambda>i j. 2 * (?x i j * ?d i j)) i j) (at 0)"
    by (rule chpool_derivative [OF _ ij(1)])
  then have "((\<lambda>t. ?cp (\<lambda>i j. ent ?w (c t) i j * ent ?w (c t) i j) i j * lr_salpha z + lr_knorm z) has_real_derivative
      ?cp (\<lambda>i j. 2 * (?x i j * ?d i j)) i j * lr_salpha z + 0) (at 0)" by (intro DERIV_add DERIV_cmult_right DERIV_const)
  then have N: "((\<lambda>t. ent ?w (lrn_norm z (c t)) i j) has_real_derivative 2 * ?cp (\<lambda>i j. ?x i j * ?d i j) i j * lr_salpha z) (at 0)"
    using ij by (simp add: lrn_norm_def ent_tab chpool_scale)
  have p0: "0 < ent ?w (lrn_norm z (c 0)) i j"
    using assms(1) position_lt [OF ij] pathD(1) [OF c] by (simp add: lrn_ok_def ent_def)
  have "((\<lambda>t. ent ?w (c t) i j * ent ?w (lrn_norm z (c t)) i j powr (- ?b)) has_real_derivative lrn_velocity z x d i j) (at 0)"
    using DERIV_mult [OF cx [OF ij(1)] DERIV_fun_powr [OF N p0, of "- ?b"]] pathD(1) [OF c] by (simp add: lrn_velocity_def Let_def)
  moreover have "lrn_data z (c t) (lrn_norm z (c t)) ! (i * ?w + j) = ent ?w (c t) i j * ent ?w (lrn_norm z (c t)) i j powr (- ?b)" for t
    using position_lt [OF ij] pathD(2) [OF c] len by (simp add: lrn_data_def ent_def)
  ultimately show ?thesis by simp
qed

lemma lrn_gather:
  assumes "length x = lr_n z * lr_ch z * lr_h z * lr_w z"
  shows "(\<Sum>i < lr_n z * lr_ch z * lr_h z. \<Sum>j < lr_w z. ent (lr_w z) g i j * lrn_velocity z x d i j) =
    (\<Sum>p < length x. lrn_gx z x (lrn_norm z x) g ! p * d p)"
proof -
  let ?r = "lr_n z * lr_ch z * lr_h z" and ?w = "lr_w z" and ?cp = "chpool (lr_size z) (lr_ch z) (lr_h z)"
  let ?N = "ent ?w (lrn_norm z x)" and ?x = "ent ?w x" and ?g = "ent ?w g" and ?b = "lr_beta z" and ?d = "\<lambda>i j. d (i * ?w + j)"
  let ?F = "\<lambda>i j. ?g i j * ?x i j * ?N i j powr (- ?b - 1)"
  have "(\<Sum>i < ?r. \<Sum>j < ?w. ?g i j * lrn_velocity z x d i j) = (\<Sum>i < ?r. \<Sum>j < ?w. ?g i j * ?N i j powr (- ?b) * ?d i j) +
      (- 2 * ?b * lr_salpha z) * (\<Sum>i < ?r. \<Sum>j < ?w. ?F i j * ?cp (\<lambda>i j. ?x i j * ?d i j) i j)"
    unfolding sum_distrib_left sum.distrib [symmetric] by (intro sum.cong refl) (simp add: lrn_velocity_def Let_def algebra_simps)
  also have "\<dots> = (\<Sum>i < ?r. \<Sum>j < ?w. ?g i j * ?N i j powr (- ?b) * ?d i j) +
      (- 2 * ?b * lr_salpha z) * (\<Sum>i < ?r. \<Sum>j < ?w. ?cp ?F i j * (?x i j * ?d i j))"
    by (simp only: chpool_transpose)
  also have "\<dots> = (\<Sum>p < length x. lrn_gx z x (lrn_norm z x) g ! p * d p)"
    unfolding sum_distrib_left sum.distrib [symmetric] assms sum_positions [where n = ?r and m = ?w]
    by (intro sum.cong refl) (simp add: lrn_gx_def nth_tab, simp add: algebra_simps)
  finally show ?thesis .
qed

interpretation lrn: diff_layer "\<lambda>x. lrn_data z x (lrn_norm z x)" "\<lambda>x g. lrn_gx z x (lrn_norm z x) g" "lrn_ok z" for z
proof
  fix x g :: "real list"
  assume x: "lrn_ok z x" and g: "length g = length (lrn_data z x (lrn_norm z x))"
  have len: "length x = lr_n z * lr_ch z * lr_h z * lr_w z" "length g = lr_n z * lr_ch z * lr_h z * lr_w z"
    using x g by (simp_all add: lrn_ok_def lrn_data_def)
  show "vjp (\<lambda>x. lrn_data z x (lrn_norm z x)) x g (lrn_gx z x (lrn_norm z x) g)"
    unfolding vjp_def
  proof (intro conjI allI impI)
    fix c d assume c: "path x c d"
    have "((\<lambda>t. inner g (lrn_data z (c t) (lrn_norm z (c t)))) has_real_derivative
        (\<Sum>i < lr_n z * lr_ch z * lr_h z. \<Sum>j < lr_w z. ent (lr_w z) g i j * lrn_velocity z x d i j)) (at 0)"
      unfolding inner_def len(2) sum_positions [where n = "lr_n z * lr_ch z * lr_h z" and m = "lr_w z"] ent_def
      by (intro DERIV_sum DERIV_cmult lrn_entry_derivative [OF x c]) auto
    then show "((\<lambda>t. inner g (lrn_data z (c t) (lrn_norm z (c t)))) has_real_derivative
        (\<Sum>p < length x. lrn_gx z x (lrn_norm z x) g ! p * d p)) (at 0)"
      unfolding lrn_gather [OF len(1)] .
  qed (simp add: len)
qed (simp add: lrn_data_def)

end
