(* ===== verification/ImageLayers.thy ===== *)
theory ImageLayers
  imports Backprop ImageOps
begin

text \<open>
  The layers on images of \<open>src/src/neuralnet/layer.cc\<close>: \<open>ConvolutionLayer\<close>, \<open>PoolingLayer\<close> and \<open>LRNLayer\<close>, on the heap, with the
  expressions of \<open>ImageOps\<close>. As for the other layers, each method refines a function on the values of the blobs around the
  layer, and the gradients are those of the features.
\<close>

section \<open>Tensors of three and four dimensions\<close>

text \<open>The view starts at the first float; its size is that of the dimensions it is given.\<close>

definition dims :: "'f heap \<Rightarrow> nat \<Rightarrow> nat \<Rightarrow> nat res" where
  "dims h b i = bindR (idxR (shape (blobs h b)) (int i)) (\<lambda>d. Inr (nat d))"

definition Tensor4 :: "nat \<Rightarrow> ('f :: zero) heap \<Rightarrow> (nat \<times> nat \<times> nat \<times> nat \<times> 'f list \<times> 'f heap) res" where
  "Tensor4 b h =
     bindR (dims h b 0) (\<lambda>n. bindR (dims h b 1) (\<lambda>c. bindR (dims h b 2) (\<lambda>y. bindR (dims h b 3) (\<lambda>x.
     bindR (tensor b h) (\<lambda>(xs, h1).
       checkR (n * c * y * x = length xs) Undefined (Inr (n, c, y, x, xs, h1)))))))"

definition Tensor3 :: "nat \<Rightarrow> ('f :: zero) heap \<Rightarrow> (nat \<times> nat \<times> nat \<times> 'f list \<times> 'f heap) res" where
  "Tensor3 b h =
     bindR (dims h b 0) (\<lambda>n. bindR (dims h b 1) (\<lambda>c.
     bindR (tensor b h) (\<lambda>(xs, h1).
       checkR (n \<noteq> 0 \<and> c \<noteq> 0) Undefined (Inr (n, c, length xs div n div c, xs, h1)))))"

section \<open>The convolution layer\<close>

text \<open>The patches of image \<open>n\<close>, stored in \<open>col_data_\<close>.\<close>

definition fill_col :: "conv_shape \<Rightarrow> 'f LayerObj \<Rightarrow> nat \<Rightarrow> nat \<Rightarrow> ('f :: zero) heap \<Rightarrow> 'f heap res" where
  "fill_col z o1 sb n h =
     checkR (n < cv_n z \<and> 0 < cv_s z) Undefined
     (checkR (cv_k z \<le> cv_h z + 2 * cv_p z \<and> cv_k z \<le> cv_w z + 2 * cv_p z) CheckFailed
      (bindR (tensor sb h) (\<lambda>(xs, h1).
       bindR (Tensor2 (lo_col_data o1) h1) (\<lambda>(colh, colw, _, h2).
         checkR (colh = cv_col z \<and> colw = cv_pix z) CheckFailed
           (blob_write (lo_col_data o1) (tab colh colw (cv_cols z (cv_img z xs n))) h2)))))"

text \<open>\<open>data[n] = dot(weight, col)\<close>\<close>

definition conv_image :: "conv_shape \<Rightarrow> 'f LayerObj \<Rightarrow> nat \<Rightarrow> nat \<Rightarrow> ('f :: {zero, plus, times}) heap \<Rightarrow> nat \<Rightarrow> 'f heap res" where
  "conv_image z o1 sb wb h n =
     bindR (fill_col z o1 sb n h) (\<lambda>h1.
     bindR (tensor (lo_col_data o1) h1) (\<lambda>(cs, h2).
     bindR (Tensor2 wb h2) (\<lambda>(f, colh, ws, h3).
     bindR (Tensor3 (lo_data o1) h3) (\<lambda>(dn, df, pix, ys, h4).
       checkR (n < dn) Undefined
       (checkR (f = df \<and> f = cv_f z \<and> colh = cv_col z \<and> pix = cv_pix z) CheckFailed
        (blob_write (lo_data o1) (blit (n * (df * pix)) (dot f colh pix (ent colh ws) (ent pix cs)) ys) h4))))))"

definition shape_of_conv :: "'f LayerObj \<Rightarrow> nat \<Rightarrow> nat \<Rightarrow> nat \<Rightarrow> nat \<Rightarrow> nat \<Rightarrow> conv_shape" where
  "shape_of_conv o1 n ch h w f = \<lparr>cv_n = n, cv_ch = ch, cv_h = h, cv_w = w, cv_f = f, cv_k = nat (lo_kernel o1),
     cv_p = nat (lo_pad o1), cv_s = nat (lo_stride o1)\<rparr>"

definition Convolution_ComputeFeature :: "nat \<Rightarrow> ('f :: {zero, plus, times}) lstate \<Rightarrow> 'f lstate res" where
  "Convolution_ComputeFeature l s =
     (let o1 = objs s l in
      bindR (bindR (src_mutable_data s l 0 kPositive) deref) (\<lambda>sb.
      bindR (param_blob s (lo_weight o1)) (\<lambda>wb.
      bindR (param_blob s (lo_bias o1)) (\<lambda>bb.
      with_mem (\<lambda>h.
        bindR (Tensor4 sb h) (\<lambda>(sn, ch, y, x, _, h1).
        bindR (Tensor3 (lo_data o1) h1) (\<lambda>(dn, f, pix, _, h2).
        let z = shape_of_conv o1 sn ch y x f in
        bindR (foldR (conv_image z o1 sb wb) h2 [0..<nat (lo_batchsize o1)]) (\<lambda>h3.
        bindR (tensor bb h3) (\<lambda>(bs, h4).
        bindR (tensor (lo_data o1) h4) (\<lambda>(ys, h5).
          checkR (length bs = f) CheckFailed (blob_write (lo_data o1) (add_broadcast1 dn f pix ys bs) h5))))))) s))))"

text \<open>
  For a source with a gradient, \<open>gcol = dot(weight.T(), grad[n])\<close> is packed and cropped into \<open>gsrc[n]\<close>; \<open>gs\<close> are the floats of \<open>grad\<close>.
\<close>

definition conv_source_gradient ::
  "conv_shape \<Rightarrow> 'f LayerObj \<Rightarrow> nat \<Rightarrow> nat \<Rightarrow> nat \<Rightarrow> 'f list \<Rightarrow> nat \<Rightarrow> nat \<Rightarrow> ('f :: {zero, plus, times}) heap \<Rightarrow> 'f heap res" where
  "conv_source_gradient z o1 wb f pix gs n gx h =
     bindR (Tensor2 wb h) (\<lambda>(f2, colh, ws, h1).
     bindR (Tensor2 (lo_col_grad o1) h1) (\<lambda>(gh, gw, _, h2).
     checkR (f2 = f \<and> gh = colh \<and> gw = pix) CheckFailed
     (bindR (blob_write (lo_col_grad o1) (dot gh f gw (\<lambda>l i. ent colh ws i l) (\<lambda>i q. ent pix gs (n * f + i) q)) h2) (\<lambda>h3.
      bindR (tensor (lo_col_grad o1) h3) (\<lambda>(gcol, h4).
      bindR (tensor gx h4) (\<lambda>(gxs, h5).
        checkR ((n + 1) * (cv_rows z * cv_w z) \<le> length gxs) Undefined
        (checkR (gh = cv_col z \<and> gw = cv_pix z \<and> cv_k z \<le> cv_h z + 2 * cv_p z \<and> cv_k z \<le> cv_w z + 2 * cv_p z) CheckFailed
         (blob_write gx (blit (n * (cv_rows z * cv_w z)) (tab (cv_rows z) (cv_w z)
            (crop (cv_p z) (cv_p z) (cv_h z + 2 * cv_p z) (cv_h z)
              (pack_col2patch (cv_k z) (cv_s z) (cv_ch z) (cv_h z + 2 * cv_p z) (cv_w z + 2 * cv_p z) (ent gw gcol)))) gxs) h5))))))))"

text \<open>\<open>gweight += dot(grad[n], col.T())\<close>; \<open>z\<close> has the shape of the source blob and \<open>z1\<close> the members of the layer.\<close>

definition conv_image_gradient ::
  "conv_shape \<Rightarrow> conv_shape \<Rightarrow> 'f LayerObj \<Rightarrow> nat \<Rightarrow> nat \<Rightarrow> nat \<Rightarrow> nat option \<Rightarrow> ('f :: {zero, plus, times}) heap \<Rightarrow> nat \<Rightarrow> 'f heap res" where
  "conv_image_gradient z z1 o1 sb wb gwb gsb h n =
     bindR (fill_col z o1 sb n h) (\<lambda>h1.
     bindR (tensor (lo_col_data o1) h1) (\<lambda>(cs, h2).
     bindR (Tensor3 (lo_grad o1) h2) (\<lambda>(gn, f, pix, gs, h3).
     bindR (Tensor2 gwb h3) (\<lambda>(f1, colh, gw, h4).
     checkR (n < gn) Undefined
     (checkR (f = f1 \<and> colh = cv_col z \<and> pix = cv_pix z) CheckFailed
      (bindR (blob_write gwb (map2 (+) gw (dot f pix colh (\<lambda>i q. ent pix gs (n * f + i) q) (\<lambda>q l. ent pix cs l q))) h4) (\<lambda>h5.
       case gsb of
         None \<Rightarrow> Inr h5
       | Some gx \<Rightarrow> conv_source_gradient z1 o1 wb f pix gs n gx h5)))))))"

definition Convolution_ComputeGradient :: "nat \<Rightarrow> ('f :: {zero, plus, times}) lstate \<Rightarrow> 'f lstate res" where
  "Convolution_ComputeGradient l s =
     (let o1 = objs s l in
      bindR (bindR (src_mutable_data s l 0 kPositive) deref) (\<lambda>sb.
      bindR (param_blob s (lo_weight o1)) (\<lambda>wb.
      bindR (param_grad s (lo_weight o1)) (\<lambda>gwb.
      bindR (param_grad s (lo_bias o1)) (\<lambda>gbb.
      bindR (src_mutable_grad s l 0) (\<lambda>gsb.
      with_mem (\<lambda>h.
        bindR (Tensor4 sb h) (\<lambda>(sn, sc, sy, sx, _, h1).
        bindR (Tensor3 (lo_grad o1) h1) (\<lambda>(gn, f, pix, gs, h2).
        bindR (tensor gbb h2) (\<lambda>(bs, h3).
        checkR (length bs = f) CheckFailed
        (bindR (blob_write gbb (sumall_except_dim1 gn f pix gs) h3) (\<lambda>h4.
         bindR (tensor gwb h4) (\<lambda>(gw, h5).
         bindR (blob_write gwb (map (\<lambda>_. 0) gw) h5) (\<lambda>h6.
           foldR (conv_image_gradient (shape_of_conv o1 sn sc sy sx f)
               (shape_of_conv o1 (nat (lo_batchsize o1)) (nat (lo_channels o1)) (nat (lo_height o1)) (nat (lo_width o1)) f) o1 sb wb gwb gsb)
             h6 [0..<nat (lo_batchsize o1)])))))))) s))))))"

section \<open>The pooling layer\<close>

definition shape_of_pool :: "'f LayerObj \<Rightarrow> nat \<Rightarrow> nat \<Rightarrow> nat \<Rightarrow> pool_shape" where
  "shape_of_pool o1 n h w = \<lparr>pl_n = n, pl_h = h, pl_w = w, pl_k = nat (lo_kernel o1), pl_s = nat (lo_stride o1)\<rparr>"

definition pool_gradient :: "PoolMethod \<Rightarrow> pool_shape \<Rightarrow> nat \<Rightarrow> nat \<Rightarrow> real list \<Rightarrow> real list \<Rightarrow> real list \<Rightarrow> real list" where
  "pool_gradient m z oh ow xs ys gs = tab (pl_n z * pl_h z) (pl_w z) (\<lambda>i j.
     let u = (\<lambda>partial. unpool partial (pl_k z) (pl_s z) (pl_h z) oh ow (ent (pl_w z) xs) (ent ow ys) (ent ow gs) i j) in
     case m of PoolMethod_MAX \<Rightarrow> u maximum_PartialGrad | PoolMethod_AVE \<Rightarrow> u (\<lambda>_ _. 1) * (1 / real (pl_k z * pl_k z)))"

definition Pooling_ComputeFeature :: "nat \<Rightarrow> real lstate \<Rightarrow> real lstate res" where
  "Pooling_ComputeFeature l s =
     (let o1 = objs s l in
      bindR (bindR (src_mutable_data s l 0 kPositive) deref) (\<lambda>sb.
      with_mem (\<lambda>h.
        bindR (Tensor4 sb h) (\<lambda>(n, c, y, x, xs, h1).
        bindR (Tensor4 (lo_data o1) h1) (\<lambda>(n1, c1, y1, x1, _, h2).
        let z = shape_of_pool o1 (n * c) y x in
        checkR (pl_s z \<noteq> 0) Undefined
        (checkR (pl_k z \<le> y \<and> pl_k z \<le> x \<and> n1 = n \<and> c1 = c \<and> y1 = pl_oh z \<and> x1 = pl_ow z) CheckFailed
          (blob_write (lo_data o1) (case lo_pool o1 of PoolMethod_MAX \<Rightarrow> max_pool z xs | PoolMethod_AVE \<Rightarrow> avg_pool z xs) h2))))) s))"

definition Pooling_ComputeGradient :: "nat \<Rightarrow> real lstate \<Rightarrow> real lstate res" where
  "Pooling_ComputeGradient l s =
     (let o1 = objs s l in
      bindR (bindR (src_mutable_data s l 0 kPositive) deref) (\<lambda>sb.
      bindR (bindR (src_mutable_grad s l 0) deref) (\<lambda>gsb.
      with_mem (\<lambda>h.
        bindR (Tensor4 sb h) (\<lambda>(n, c, y, x, xs, h1).
        bindR (Tensor4 gsb h1) (\<lambda>(n3, c3, y3, x3, _, h2).
        bindR (Tensor4 (lo_data o1) h2) (\<lambda>(n1, c1, y1, x1, ys, h3).
        bindR (Tensor4 (lo_grad o1) h3) (\<lambda>(n2, c2, y2, x2, gs, h4).
        let z = shape_of_pool o1 (n * c) y x in
        checkR (pl_s z \<noteq> 0) Undefined
        (checkR (n2 = n1 \<and> c2 = c1 \<and> y2 = y1 \<and> x2 = x1 \<and> n1 = n \<and> c1 = c \<and> n3 = n \<and> c3 = c \<and> y3 = y \<and> x3 = x) CheckFailed
         (blob_write gsb (pool_gradient (lo_pool o1) z y1 x1 xs ys gs) h4))))))) s)))"

section \<open>Local response normalisation\<close>

definition shape_of_lrn :: "real LayerObj \<Rightarrow> nat \<Rightarrow> nat \<Rightarrow> nat \<Rightarrow> nat \<Rightarrow> lrn_shape" where
  "shape_of_lrn o1 n c y x = \<lparr>lr_n = n, lr_ch = c, lr_h = y, lr_w = x, lr_size = nat (lo_lsize o1),
     lr_salpha = lo_alpha o1 / real_of_int (lo_lsize o1), lr_beta = lo_beta o1, lr_knorm = lo_knorm o1\<rparr>"

definition LRN_ComputeFeature :: "nat \<Rightarrow> real lstate \<Rightarrow> real lstate res" where
  "LRN_ComputeFeature l s =
     (let o1 = objs s l in
      bindR (bindR (src_mutable_data s l 0 kPositive) deref) (\<lambda>sb.
      with_mem (\<lambda>h.
        bindR (Tensor4 sb h) (\<lambda>(n, c, y, x, xs, h1).
        bindR (Tensor4 (lo_data o1) h1) (\<lambda>(n1, c1, y1, x1, _, h2).
        bindR (Tensor4 (lo_norm o1) h2) (\<lambda>(n2, c2, y2, x2, _, h3).
        let z = shape_of_lrn o1 n c y x in
        checkR (odd (lr_size z) \<and> lr_size z \<le> c \<and> n1 = n \<and> c1 = c \<and> y1 = y \<and> x1 = x \<and> n2 = n \<and> c2 = c \<and> y2 = y \<and> x2 = x) CheckFailed
        (bindR (blob_write (lo_norm o1) (lrn_norm z xs) h3) (\<lambda>h4.
         bindR (tensor sb h4) (\<lambda>(xs1, h5).
         bindR (tensor (lo_norm o1) h5) (\<lambda>(ns, h6).
           blob_write (lo_data o1) (lrn_data z xs1 ns) h6)))))))) s))"

definition LRN_ComputeGradient :: "nat \<Rightarrow> real lstate \<Rightarrow> real lstate res" where
  "LRN_ComputeGradient l s =
     (let o1 = objs s l in
      bindR (bindR (src_mutable_data s l 0 kPositive) deref) (\<lambda>sb.
      bindR (bindR (src_mutable_grad s l 0) deref) (\<lambda>gsb.
      with_mem (\<lambda>h.
        bindR (Tensor4 sb h) (\<lambda>(n, c, y, x, xs, h1).
        bindR (Tensor4 (lo_norm o1) h1) (\<lambda>(n2, c2, y2, x2, ns, h2).
        bindR (Tensor4 (lo_grad o1) h2) (\<lambda>(n1, c1, y1, x1, gs, h3).
        bindR (Tensor4 gsb h3) (\<lambda>(n3, c3, y3, x3, _, h4).
        let z = shape_of_lrn o1 n c y x in
        checkR (odd (lr_size z) \<and> lr_size z \<le> c \<and> n1 = n \<and> c1 = c \<and> y1 = y \<and> x1 = x \<and> n2 = n \<and> c2 = c \<and> y2 = y \<and> x2 = x \<and>
            n3 = n \<and> c3 = c \<and> y3 = y \<and> x3 = x) CheckFailed
          (blob_write gsb (lrn_gx z xs ns gs) h4)))))) s)))"

section \<open>The methods on the values of the blobs\<close>

text \<open>A blob with \<open>n\<close> images of \<open>c\<close> channels of \<open>y\<close> times \<open>x\<close> pixels, and one with \<open>n\<close> times \<open>c\<close> rows of \<open>p\<close> floats.\<close>

definition is_img :: "'f heap \<Rightarrow> nat \<Rightarrow> nat \<Rightarrow> nat \<Rightarrow> nat \<Rightarrow> nat \<Rightarrow> bool" where
  "is_img h b n c y x \<longleftrightarrow> bcount (blobs h b) = int (n * c * y * x) \<and> (\<exists>r. shape (blobs h b) = int n # int c # int y # int x # r)"

definition is_cube :: "'f heap \<Rightarrow> nat \<Rightarrow> nat \<Rightarrow> nat \<Rightarrow> nat \<Rightarrow> bool" where
  "is_cube h b n c p \<longleftrightarrow> 0 < n \<and> 0 < c \<and> bcount (blobs h b) = int (n * c * p) \<and> (\<exists>r. shape (blobs h b) = int n # int c # r)"

lemma okR_Tensor4:
  assumes "hold B h0 v h" and "b \<in> B" and "is_img h0 b n c y x"
  shows "okR (Tensor4 b h) (\<lambda>(n1, c1, y1, x1, xs, h1). n1 = n \<and> c1 = c \<and> y1 = y \<and> x1 = x \<and> xs = v b \<and> hold B h0 v h1)"
proof -
  have eq: "blobs h = blobs h0" using assms(1) by (simp add: hold_def)
  have d: "dims h b 0 = Inr n" "dims h b 1 = Inr c" "dims h b 2 = Inr y" "dims h b 3 = Inr x"
    using assms(3) by (auto simp: dims_def is_img_def eq idxR_def)
  have len: "length (v b) = n * c * y * x" using hold_length [OF assms(1,2)] assms(3) by (simp add: is_img_def nat_mult_distrib)
  show ?thesis unfolding Tensor4_def d bindR_Inr
    by (rule okR_seq [OF okR_tensor [OF assms(1,2)]]) (auto simp: len)
qed

lemma okR_Tensor3:
  assumes "hold B h0 v h" and "b \<in> B" and "is_cube h0 b n c p"
  shows "okR (Tensor3 b h) (\<lambda>(n1, c1, p1, xs, h1). n1 = n \<and> c1 = c \<and> p1 = p \<and> xs = v b \<and> hold B h0 v h1)"
proof -
  have eq: "blobs h = blobs h0" using assms(1) by (simp add: hold_def)
  have d: "dims h b 0 = Inr n" "dims h b 1 = Inr c"
    using assms(3) by (auto simp: dims_def is_cube_def eq idxR_def)
  have len: "length (v b) = n * c * p" and pos: "0 < n" "0 < c"
    using hold_length [OF assms(1,2)] assms(3) by (auto simp: is_cube_def nat_mult_distrib)
  have "length (v b) div n div c = p" unfolding len using pos by (simp add: mult.assoc)
  then show ?thesis unfolding Tensor3_def d bindR_Inr
    by (intro okR_seq [OF okR_tensor [OF assms(1,2)]]) (use pos in auto)
qed

text \<open>The pooling layer: the blobs around it are those of a layer that works on every float alone.\<close>

definition pl_wired :: "nat \<Rightarrow> nat \<Rightarrow> pool_shape \<Rightarrow> el_blobs \<Rightarrow> nat \<Rightarrow> real lstate \<Rightarrow> bool" where
  "pl_wired n ch z c l s \<longleftrightarrow>
     src_mutable_data s l 0 kPositive = Inr (Some (el_x c)) \<and> src_mutable_grad s l 0 = Inr (Some (el_gx c)) \<and>
     lo_data (objs s l) = el_y c \<and> lo_grad (objs s l) = el_gy c \<and> distinct (el_list c) \<and>
     shape_of_pool (objs s l) (n * ch) (pl_h z) (pl_w z) = z \<and> pl_ok z \<and>
     is_img (lmem s) (el_x c) n ch (pl_h z) (pl_w z) \<and> is_img (lmem s) (el_gx c) n ch (pl_h z) (pl_w z) \<and>
     is_img (lmem s) (el_y c) n ch (pl_oh z) (pl_ow z) \<and> is_img (lmem s) (el_gy c) n ch (pl_oh z) (pl_ow z)"

definition pool_fwd :: "PoolMethod \<Rightarrow> pool_shape \<Rightarrow> real list \<Rightarrow> real list" where
  "pool_fwd m z xs = (case m of PoolMethod_MAX \<Rightarrow> max_pool z xs | PoolMethod_AVE \<Rightarrow> avg_pool z xs)"

definition pool_bwd :: "PoolMethod \<Rightarrow> pool_shape \<Rightarrow> real list \<Rightarrow> real list \<Rightarrow> real list \<Rightarrow> real list" where
  "pool_bwd m z xs ys gs = (case m of PoolMethod_MAX \<Rightarrow> max_unpool z xs ys gs | PoolMethod_AVE \<Rightarrow> avg_unpool z xs ys gs)"

lemma pool_gradient_bwd: "pool_gradient m z (pl_oh z) (pl_ow z) xs ys gs = pool_bwd m z xs ys gs"
  by (cases m) (simp_all add: pool_gradient_def pool_bwd_def max_unpool_def avg_unpool_def)

lemma length_pool_fwd [simp]: "length (pool_fwd m z xs) = pl_n z * pl_oh z * pl_ow z"
  and length_pool_bwd [simp]: "length (pool_bwd m z xs ys gs) = pl_n z * pl_h z * pl_w z"
  by (cases m; simp add: pool_fwd_def pool_bwd_def max_pool_def avg_pool_def max_unpool_def avg_unpool_def)+

definition pl_feature :: "PoolMethod \<Rightarrow> pool_shape \<Rightarrow> el_blobs \<Rightarrow> (nat \<Rightarrow> real list) \<Rightarrow> nat \<Rightarrow> real list" where
  "pl_feature m z c v = v(el_y c := pool_fwd m z (v (el_x c)))"

definition pl_gradient :: "PoolMethod \<Rightarrow> pool_shape \<Rightarrow> el_blobs \<Rightarrow> (nat \<Rightarrow> real list) \<Rightarrow> nat \<Rightarrow> real list" where
  "pl_gradient m z c v = v(el_gx c := pool_bwd m z (v (el_x c)) (v (el_y c)) (v (el_gy c)))"

lemma img_length: "hold B h0 v h \<Longrightarrow> b \<in> B \<Longrightarrow> is_img h0 b n c y x \<Longrightarrow> length (v b) = n * c * y * x"
  for h0 :: "('f :: zero) heap"
  using hold_length [of B h0 v h b] by (simp add: is_img_def nat_mult_distrib)

lemma pl_refines:
  assumes "pl_wired n ch z c l s" and "set (el_list c) \<subseteq> B"
  shows "refines s B (\<lambda>v. True) (Pooling_ComputeFeature l) (pl_feature (lo_pool (objs s l)) z c)"
    and "refines s B (\<lambda>v. True) (Pooling_ComputeGradient l) (pl_gradient (lo_pool (objs s l)) z c)"
proof -
  note w = assms(1) [unfolded pl_wired_def]
  let ?o = "objs s l" and ?h0 = "lmem s"
  have B: "el_x c \<in> B" "el_y c \<in> B" "el_gy c \<in> B" "el_gx c \<in> B" using assms(2) by (auto simp: el_list_def)
  have img: "is_img ?h0 (el_x c) n ch (pl_h z) (pl_w z)" "is_img ?h0 (el_gx c) n ch (pl_h z) (pl_w z)"
    "is_img ?h0 (el_y c) n ch (pl_oh z) (pl_ow z)" "is_img ?h0 (el_gy c) n ch (pl_oh z) (pl_ow z)" using w by auto
  have src: "src_mutable_data s l 0 kPositive = Inr (Some (el_x c))" "src_mutable_grad s l 0 = Inr (Some (el_gx c))"
    "lo_data ?o = el_y c" "lo_grad ?o = el_gy c" using w by blast+
  have zz: "shape_of_pool ?o (n * ch) (pl_h z) (pl_w z) = z" and "pl_ok z" using w by blast+
  have "pl_n z = n * ch" using arg_cong [OF zz, of pl_n] by (simp add: shape_of_pool_def)
  then have z: "0 < pl_s z" "pl_k z \<le> pl_h z" "pl_k z \<le> pl_w z" "pl_n z = n * ch" using \<open>pl_ok z\<close> by (simp_all add: pl_ok_def)
  show "refines s B (\<lambda>v. True) (Pooling_ComputeFeature l) (pl_feature (lo_pool ?o) z c)"
  proof (rule refines_with_mem)
    let ?p = "\<lambda>h.
        bindR (Tensor4 (el_x c) h) (\<lambda>(n, c1, y, x, xs, h1).
        bindR (Tensor4 (el_y c) h1) (\<lambda>(n1, c2, y1, x1, _, h2).
        let z = shape_of_pool ?o (n * c1) y x in
        checkR (pl_s z \<noteq> 0) Undefined
        (checkR (pl_k z \<le> y \<and> pl_k z \<le> x \<and> n1 = n \<and> c2 = c1 \<and> y1 = pl_oh z \<and> x1 = pl_ow z) CheckFailed
          (blob_write (el_y c) (pool_fwd (lo_pool ?o) z xs) h2))))"
    show "Pooling_ComputeFeature l (s\<lparr>lmem := h\<rparr>) = with_mem ?p (s\<lparr>lmem := h\<rparr>)" for h
      using src by (simp add: Pooling_ComputeFeature_def Let_def deref_def pool_fwd_def)
    fix v h assume h: "hold B ?h0 v h"
    show "okR (?p h) (hold B ?h0 (pl_feature (lo_pool ?o) z c v))"
      apply (rule okR_seq [OF okR_Tensor4 [OF h B(1) img(1)]], clarify)
      apply (rule okR_seq [OF okR_Tensor4 [OF _ B(2) img(3)]], assumption, clarify)
      using z img_length [OF h B(2) img(3)] by (auto simp: Let_def zz pl_feature_def intro!: okR_write B)
  qed
  show "refines s B (\<lambda>v. True) (Pooling_ComputeGradient l) (pl_gradient (lo_pool ?o) z c)"
  proof (rule refines_with_mem)
    let ?p = "\<lambda>h.
        bindR (Tensor4 (el_x c) h) (\<lambda>(n, c1, y, x, xs, h1).
        bindR (Tensor4 (el_gx c) h1) (\<lambda>(n3, c3, y3, x3, _, h2).
        bindR (Tensor4 (el_y c) h2) (\<lambda>(n1, c2, y1, x1, ys, h3).
        bindR (Tensor4 (el_gy c) h3) (\<lambda>(n2, c4, y2, x2, gs, h4).
        let z = shape_of_pool ?o (n * c1) y x in
        checkR (pl_s z \<noteq> 0) Undefined
        (checkR (n2 = n1 \<and> c4 = c2 \<and> y2 = y1 \<and> x2 = x1 \<and> n1 = n \<and> c2 = c1 \<and> n3 = n \<and> c3 = c1 \<and> y3 = y \<and> x3 = x) CheckFailed
         (blob_write (el_gx c) (pool_gradient (lo_pool ?o) z y1 x1 xs ys gs) h4))))))"
    show "Pooling_ComputeGradient l (s\<lparr>lmem := h\<rparr>) = with_mem ?p (s\<lparr>lmem := h\<rparr>)" for h
      using src by (simp add: Pooling_ComputeGradient_def Let_def deref_def)
    fix v h assume h: "hold B ?h0 v h"
    show "okR (?p h) (hold B ?h0 (pl_gradient (lo_pool ?o) z c v))"
      apply (rule okR_seq [OF okR_Tensor4 [OF h B(1) img(1)]], clarify)
      apply (rule okR_seq [OF okR_Tensor4 [OF _ B(4) img(2)]], assumption, clarify)
      apply (rule okR_seq [OF okR_Tensor4 [OF _ B(2) img(3)]], assumption, clarify)
      apply (rule okR_seq [OF okR_Tensor4 [OF _ B(3) img(4)]], assumption, clarify)
      using z img_length [OF h B(4) img(2)] by (auto simp: Let_def zz pl_gradient_def pool_gradient_bwd intro!: okR_write B)
  qed
qed

section \<open>The normalisation layer\<close>

record lr_blobs =
  lr_x :: nat
  lr_y :: nat
  lr_gy :: nat
  lr_gx :: nat
  lr_norm :: nat

definition lr_list :: "lr_blobs \<Rightarrow> nat list" where
  "lr_list c = [lr_x c, lr_y c, lr_gy c, lr_gx c, lr_norm c]"

definition lr_wired :: "lrn_shape \<Rightarrow> lr_blobs \<Rightarrow> nat \<Rightarrow> real lstate \<Rightarrow> bool" where
  "lr_wired z c l s \<longleftrightarrow>
     src_mutable_data s l 0 kPositive = Inr (Some (lr_x c)) \<and> src_mutable_grad s l 0 = Inr (Some (lr_gx c)) \<and>
     lo_data (objs s l) = lr_y c \<and> lo_grad (objs s l) = lr_gy c \<and> lo_norm (objs s l) = lr_norm c \<and> distinct (lr_list c) \<and>
     shape_of_lrn (objs s l) (lr_n z) (lr_ch z) (lr_h z) (lr_w z) = z \<and> odd (lr_size z) \<and> lr_size z \<le> lr_ch z \<and>
     (\<forall>b \<in> set (lr_list c). is_img (lmem s) b (lr_n z) (lr_ch z) (lr_h z) (lr_w z))"

definition lr_feature :: "lrn_shape \<Rightarrow> lr_blobs \<Rightarrow> (nat \<Rightarrow> real list) \<Rightarrow> nat \<Rightarrow> real list" where
  "lr_feature z c v = v(lr_norm c := lrn_norm z (v (lr_x c)), lr_y c := lrn_data z (v (lr_x c)) (lrn_norm z (v (lr_x c))))"

definition lr_gradient :: "lrn_shape \<Rightarrow> lr_blobs \<Rightarrow> (nat \<Rightarrow> real list) \<Rightarrow> nat \<Rightarrow> real list" where
  "lr_gradient z c v = v(lr_gx c := lrn_gx z (v (lr_x c)) (v (lr_norm c)) (v (lr_gy c)))"

lemma lr_refines:
  assumes "lr_wired z c l s" and "set (lr_list c) \<subseteq> B"
  shows "refines s B (\<lambda>v. True) (LRN_ComputeFeature l) (lr_feature z c)"
    and "refines s B (\<lambda>v. True) (LRN_ComputeGradient l) (lr_gradient z c)"
proof -
  note w = assms(1) [unfolded lr_wired_def]
  let ?o = "objs s l" and ?h0 = "lmem s"
  have B: "lr_x c \<in> B" "lr_y c \<in> B" "lr_gy c \<in> B" "lr_gx c \<in> B" "lr_norm c \<in> B" using assms(2) by (auto simp: lr_list_def)
  have src: "src_mutable_data s l 0 kPositive = Inr (Some (lr_x c))" "src_mutable_grad s l 0 = Inr (Some (lr_gx c))"
    "lo_data ?o = lr_y c" "lo_grad ?o = lr_gy c" "lo_norm ?o = lr_norm c" using w by blast+
  have zz: "shape_of_lrn ?o (lr_n z) (lr_ch z) (lr_h z) (lr_w z) = z" and z: "odd (lr_size z)" "lr_size z \<le> lr_ch z" using w by blast+
  have img: "is_img ?h0 b (lr_n z) (lr_ch z) (lr_h z) (lr_w z)" if "b \<in> set (lr_list c)" for b using w that by blast
  note imgs = img [of "lr_x c"] img [of "lr_y c"] img [of "lr_norm c"] img [of "lr_gy c"] img [of "lr_gx c"]
  have ins: "lr_x c \<in> set (lr_list c)" "lr_y c \<in> set (lr_list c)" "lr_norm c \<in> set (lr_list c)" "lr_gy c \<in> set (lr_list c)"
    "lr_gx c \<in> set (lr_list c)" by (simp_all add: lr_list_def)
  have ne: "lr_norm c \<noteq> lr_x c" "lr_norm c \<noteq> lr_y c" using w by (auto simp: lr_list_def)
  have len: "length (v b) = lr_n z * lr_ch z * lr_h z * lr_w z" if "hold B ?h0 v h" "b \<in> set (lr_list c)" for v b h
    using img_length [OF that(1) _ img [OF that(2)]] assms(2) that(2) by blast
  show "refines s B (\<lambda>v. True) (LRN_ComputeFeature l) (lr_feature z c)"
  proof (rule refines_with_mem)
    let ?p = "\<lambda>h. bindR (Tensor4 (lr_x c) h) (\<lambda>(n, c1, y, x, xs, h1).
        bindR (Tensor4 (lr_y c) h1) (\<lambda>(n1, c2, y1, x1, _, h2).
        bindR (Tensor4 (lr_norm c) h2) (\<lambda>(n2, c3, y2, x2, _, h3).
        let z = shape_of_lrn ?o n c1 y x in
        checkR (odd (lr_size z) \<and> lr_size z \<le> c1 \<and> n1 = n \<and> c2 = c1 \<and> y1 = y \<and> x1 = x \<and> n2 = n \<and> c3 = c1 \<and> y2 = y \<and> x2 = x) CheckFailed
        (bindR (blob_write (lr_norm c) (lrn_norm z xs) h3) (\<lambda>h4.
         bindR (tensor (lr_x c) h4) (\<lambda>(xs1, h5).
         bindR (tensor (lr_norm c) h5) (\<lambda>(ns, h6).
           blob_write (lr_y c) (lrn_data z xs1 ns) h6)))))))"
    show "LRN_ComputeFeature l (s\<lparr>lmem := h\<rparr>) = with_mem ?p (s\<lparr>lmem := h\<rparr>)" for h
      using src by (simp add: LRN_ComputeFeature_def Let_def deref_def)
    fix v h assume h: "hold B ?h0 v h"
    show "okR (?p h) (hold B ?h0 (lr_feature z c v))"
      apply (rule okR_seq [OF okR_Tensor4 [OF h B(1) imgs(1) [OF ins(1)]]], clarify)
      apply (rule okR_seq [OF okR_Tensor4 [OF _ B(2) imgs(2) [OF ins(2)]]], assumption, clarify)
      apply (rule okR_seq [OF okR_Tensor4 [OF _ B(5) imgs(3) [OF ins(3)]]], assumption, clarify)
      apply (simp add: Let_def zz z)
      apply (rule okR_seq [OF okR_write [OF _ B(5)]], assumption)
       apply (simp add: len [OF h] ins)
      apply (rule okR_seq [OF okR_tensor [OF _ B(1)]], assumption, clarify)
      apply (rule okR_seq [OF okR_tensor [OF _ B(5)]], assumption, clarify)
      unfolding lr_feature_def using ne
      by (intro okR_write [OF _ B(2), THEN okR_mono]) (auto simp: len [OF h] ins lrn_data_def)
  qed
  show "refines s B (\<lambda>v. True) (LRN_ComputeGradient l) (lr_gradient z c)"
  proof (rule refines_with_mem)
    let ?p = "\<lambda>h. bindR (Tensor4 (lr_x c) h) (\<lambda>(n, c1, y, x, xs, h1).
        bindR (Tensor4 (lr_norm c) h1) (\<lambda>(n2, c3, y2, x2, ns, h2).
        bindR (Tensor4 (lr_gy c) h2) (\<lambda>(n1, c2, y1, x1, gs, h3).
        bindR (Tensor4 (lr_gx c) h3) (\<lambda>(n3, c4, y3, x3, _, h4).
        let z = shape_of_lrn ?o n c1 y x in
        checkR (odd (lr_size z) \<and> lr_size z \<le> c1 \<and> n1 = n \<and> c2 = c1 \<and> y1 = y \<and> x1 = x \<and> n2 = n \<and> c3 = c1 \<and> y2 = y \<and> x2 = x \<and>
            n3 = n \<and> c4 = c1 \<and> y3 = y \<and> x3 = x) CheckFailed
          (blob_write (lr_gx c) (lrn_gx z xs ns gs) h4)))))"
    show "LRN_ComputeGradient l (s\<lparr>lmem := h\<rparr>) = with_mem ?p (s\<lparr>lmem := h\<rparr>)" for h
      using src by (simp add: LRN_ComputeGradient_def Let_def deref_def)
    fix v h assume h: "hold B ?h0 v h"
    show "okR (?p h) (hold B ?h0 (lr_gradient z c v))"
      apply (rule okR_seq [OF okR_Tensor4 [OF h B(1) imgs(1) [OF ins(1)]]], clarify)
      apply (rule okR_seq [OF okR_Tensor4 [OF _ B(5) imgs(3) [OF ins(3)]]], assumption, clarify)
      apply (rule okR_seq [OF okR_Tensor4 [OF _ B(3) imgs(4) [OF ins(4)]]], assumption, clarify)
      apply (rule okR_seq [OF okR_Tensor4 [OF _ B(4) imgs(5) [OF ins(5)]]], assumption, clarify)
      apply (simp add: Let_def zz z)
      unfolding lr_gradient_def by (rule okR_write [OF _ B(4)]) (simp_all add: len [OF h] ins)
  qed
qed

section \<open>The convolution layer on the values of its blobs\<close>

lemma okR_loop:
  assumes "\<forall>x \<in> set xs. \<forall>v h. hold B h0 v h \<longrightarrow> okR (step h x) (hold B h0 (upd x v))" and "hold B h0 v h"
  shows "okR (foldR step h xs) (hold B h0 (fold upd xs v))"
  using assms
proof (induction xs arbitrary: v h)
  case (Cons x xs)
  have "okR (step h x) (hold B h0 (upd x v))" using Cons.prems by simp
  then have "okR (bindR (step h x) (\<lambda>h1. foldR step h1 xs)) (hold B h0 (fold upd xs (upd x v)))"
    by (rule okR_seq) (use Cons in simp)
  then show ?case by simp
qed simp

lemma tab_append: "tab (a + b) m g = tab a m g @ tab b m (\<lambda>i. g (a + i))"
proof -
  have "[0..<a + b] = [0..<a] @ map (\<lambda>i. a + i) [0..<b]"
    unfolding upt_add_eq_append [OF le0] using map_add_upt [of a b] by (simp add: add.commute)
  then show ?thesis by (simp add: tab_def o_def del: upt_Suc)
qed

lemma tab_cong: "(\<And>i j. i < n \<Longrightarrow> j < m \<Longrightarrow> f i j = g i j) \<Longrightarrow> tab n m f = tab n m g"
  unfolding tab_def by (intro arg_cong [where f = concat] map_cong refl) simp

lemma fsum_cong: "(\<And>i. i < n \<Longrightarrow> f i = g i) \<Longrightarrow> fsum n f = fsum n g"
  unfolding fsum_def by (intro foldl_cong) auto

text \<open>A table that grows by a block of rows.\<close>

lemma blit_rows:
  assumes "length ys = N * (r * m)" and "k < N"
  shows "blit (k * (r * m)) (tab r m (\<lambda>i. g (k * r + i))) (tab (k * r) m g @ drop (k * (r * m)) ys) =
    tab (Suc k * r) m g @ drop (Suc k * (r * m)) ys"
proof -
  have "Suc k * r = k * r + r" by simp
  then have "tab (Suc k * r) m g = tab (k * r) m g @ tab r m (\<lambda>i. g (k * r + i))" by (simp only: tab_append)
  then show ?thesis by (simp add: blit_def mult.assoc add.commute)
qed

record cv_blobs =
  cv_bx :: nat
  cv_by :: nat
  cv_bgy :: nat
  cv_bw :: nat
  cv_bb :: nat
  cv_bgw :: nat
  cv_bgb :: nat
  cv_bgx :: "nat option"
  cv_bcol :: nat
  cv_bgcol :: nat

definition cv_list :: "cv_blobs \<Rightarrow> nat list" where
  "cv_list c = [cv_bx c, cv_by c, cv_bgy c, cv_bw c, cv_bb c, cv_bgw c, cv_bgb c, cv_bcol c, cv_bgcol c] @
     (case cv_bgx c of None \<Rightarrow> [] | Some g \<Rightarrow> [g])"

definition cv_shapes :: "conv_shape \<Rightarrow> cv_blobs \<Rightarrow> real heap \<Rightarrow> bool" where
  "cv_shapes z c h \<longleftrightarrow>
     is_img h (cv_bx c) (cv_n z) (cv_ch z) (cv_h z) (cv_w z) \<and>
     is_cube h (cv_by c) (cv_n z) (cv_f z) (cv_pix z) \<and> is_cube h (cv_bgy c) (cv_n z) (cv_f z) (cv_pix z) \<and>
     is_mat h (cv_bw c) (cv_f z) (cv_col z) \<and> is_mat h (cv_bgw c) (cv_f z) (cv_col z) \<and>
     is_mat h (cv_bcol c) (cv_col z) (cv_pix z) \<and> is_mat h (cv_bgcol c) (cv_col z) (cv_pix z) \<and>
     bcount (blobs h (cv_bb c)) = int (cv_f z) \<and> bcount (blobs h (cv_bgb c)) = int (cv_f z) \<and>
     (\<forall>g \<in> set_option (cv_bgx c). bcount (blobs h g) = int (cv_n z * cv_rows z * cv_w z))"

definition cv_wired :: "conv_shape \<Rightarrow> cv_blobs \<Rightarrow> nat \<Rightarrow> real lstate \<Rightarrow> bool" where
  "cv_wired z c l s \<longleftrightarrow>
     src_mutable_data s l 0 kPositive = Inr (Some (cv_bx c)) \<and> src_mutable_grad s l 0 = Inr (cv_bgx c) \<and>
     lo_data (objs s l) = cv_by c \<and> lo_grad (objs s l) = cv_bgy c \<and> lo_col_data (objs s l) = cv_bcol c \<and> lo_col_grad (objs s l) = cv_bgcol c \<and>
     param_blob s (lo_weight (objs s l)) = Inr (cv_bw c) \<and> param_blob s (lo_bias (objs s l)) = Inr (cv_bb c) \<and>
     param_grad s (lo_weight (objs s l)) = Inr (cv_bgw c) \<and> param_grad s (lo_bias (objs s l)) = Inr (cv_bgb c) \<and>
     lo_batchsize (objs s l) = int (cv_n z) \<and> lo_channels (objs s l) = int (cv_ch z) \<and>
     lo_height (objs s l) = int (cv_h z) \<and> lo_width (objs s l) = int (cv_w z) \<and>
     shape_of_conv (objs s l) (cv_n z) (cv_ch z) (cv_h z) (cv_w z) (cv_f z) = z \<and> cv_ok z \<and>
     distinct (cv_list c) \<and> cv_shapes z c (lmem s)"

definition cv_fill :: "conv_shape \<Rightarrow> cv_blobs \<Rightarrow> nat \<Rightarrow> (nat \<Rightarrow> real list) \<Rightarrow> nat \<Rightarrow> real list" where
  "cv_fill z c n v = v(cv_bcol c := tab (cv_col z) (cv_pix z) (cv_cols z (cv_img z (v (cv_bx c)) n)))"

lemma okR_fill_col:
  assumes "cv_shapes z c h0" and "cv_ok z" and "set (cv_list c) \<subseteq> B" and "lo_col_data o1 = cv_bcol c" and "n < cv_n z" and "hold B h0 v h"
  shows "okR (fill_col z o1 (cv_bx c) n h) (hold B h0 (cv_fill z c n v))"
proof -
  have B: "cv_bx c \<in> B" "cv_bcol c \<in> B" using assms(3) by (auto simp: cv_list_def)
  have m: "is_mat h0 (cv_bcol c) (cv_col z) (cv_pix z)" using assms(1) by (simp add: cv_shapes_def)
  have len: "length (v (cv_bcol c)) = cv_col z * cv_pix z" by (rule mat_length [OF assms(6) B(2) m])
  show ?thesis
    unfolding fill_col_def assms(4)
    apply (rule okR_check, use assms(2,5) in \<open>simp add: cv_ok_def\<close>)
    apply (rule okR_check, use assms(2) in \<open>simp add: cv_ok_def\<close>)
    apply (rule okR_seq [OF okR_tensor [OF assms(6) B(1)]], clarify)
    apply (rule okR_seq [OF okR_Tensor2 [OF _ B(2) m]], assumption, clarify)
    apply (rule okR_check, simp)
    unfolding cv_fill_def by (rule okR_write [OF _ B(2)]) (simp_all add: len)
qed

definition cv_step :: "conv_shape \<Rightarrow> cv_blobs \<Rightarrow> nat \<Rightarrow> (nat \<Rightarrow> real list) \<Rightarrow> nat \<Rightarrow> real list" where
  "cv_step z c n v = (cv_fill z c n v)(cv_by c := blit (n * (cv_f z * cv_pix z))
     (tab (cv_f z) (cv_pix z) (cv_dot z (v (cv_bw c)) (v (cv_bx c)) n)) (v (cv_by c)))"

lemma dot_cols:
  "dot (cv_f z) (cv_col z) (cv_pix z) (ent (cv_col z) ws) (ent (cv_pix z) (tab (cv_col z) (cv_pix z) (cv_cols z (cv_img z xs n)))) =
   tab (cv_f z) (cv_pix z) (cv_dot z ws xs n)"
  unfolding dot_def cv_dot_def by (intro tab_cong fsum_cong) (simp add: ent_tab)

lemma okR_conv_image:
  assumes "cv_shapes z c h0" and "cv_ok z" and "set (cv_list c) \<subseteq> B" and "distinct (cv_list c)"
    and "lo_col_data o1 = cv_bcol c" "lo_data o1 = cv_by c" and "n < cv_n z" and "hold B h0 v h"
  shows "okR (conv_image z o1 (cv_bx c) (cv_bw c) h n) (hold B h0 (cv_step z c n v))"
proof -
  have B: "cv_bx c \<in> B" "cv_by c \<in> B" "cv_bw c \<in> B" "cv_bcol c \<in> B" using assms(3) by (auto simp: cv_list_def)
  have sh: "is_mat h0 (cv_bw c) (cv_f z) (cv_col z)" "is_cube h0 (cv_by c) (cv_n z) (cv_f z) (cv_pix z)"
    using assms(1) by (simp_all add: cv_shapes_def)
  have ne: "cv_bcol c \<noteq> cv_bw c" "cv_bcol c \<noteq> cv_by c" using assms(4) by (auto simp: cv_list_def)
  have len: "length (v (cv_by c)) = cv_n z * cv_f z * cv_pix z"
    using hold_length [OF assms(8) B(2)] sh(2) by (simp add: is_cube_def nat_mult_distrib)
  have "Suc n * (cv_f z * cv_pix z) \<le> cv_n z * (cv_f z * cv_pix z)" using assms(7) by (intro mult_le_mono1) simp
  then have fit: "n * (cv_f z * cv_pix z) + cv_f z * cv_pix z \<le> length (v (cv_by c))" by (simp add: len mult.assoc)
  let ?v1 = "cv_fill z c n v"
  have v1: "?v1 (cv_bw c) = v (cv_bw c)" "?v1 (cv_by c) = v (cv_by c)" "?v1 (cv_bcol c) = tab (cv_col z) (cv_pix z) (cv_cols z (cv_img z (v (cv_bx c)) n))"
    using ne by (auto simp: cv_fill_def)
  show ?thesis
    unfolding conv_image_def assms(5,6)
    apply (rule okR_seq [OF okR_fill_col [OF assms(1-3,5,7,8)]])
    apply (rule okR_seq [OF okR_tensor [OF _ B(4)]], assumption, clarify)
    apply (rule okR_seq [OF okR_Tensor2 [OF _ B(3) sh(1)]], assumption, clarify)
    apply (rule okR_seq [OF okR_Tensor3 [OF _ B(2) sh(2)]], assumption, clarify)
    apply (rule okR_check, rule assms(7))
    apply (rule okR_check, simp)
    unfolding v1 dot_cols cv_step_def using fit by (intro okR_write [OF _ B(2)]) (simp_all add: v1)
qed

text \<open>The whole batch.\<close>

lemma cv_scan:
  assumes "distinct (cv_list c)" and "length (v (cv_by c)) = cv_n z * (cv_f z * cv_pix z)" and "k \<le> cv_n z" and "0 < cv_f z"
  defines "g \<equiv> \<lambda>y. cv_dot z (v (cv_bw c)) (v (cv_bx c)) (y div cv_f z) (y mod cv_f z)"
  shows "fold (cv_step z c) [0..<k] v =
    v(cv_bcol c := (if k = 0 then v (cv_bcol c) else tab (cv_col z) (cv_pix z) (cv_cols z (cv_img z (v (cv_bx c)) (k - 1)))),
      cv_by c := tab (k * cv_f z) (cv_pix z) g @ drop (k * (cv_f z * cv_pix z)) (v (cv_by c)))"
  using assms(3)
proof (induction k)
  case (Suc k)
  have ne: "cv_bcol c \<noteq> cv_bw c" "cv_bcol c \<noteq> cv_by c" "cv_bcol c \<noteq> cv_bx c" "cv_by c \<noteq> cv_bw c" "cv_by c \<noteq> cv_bx c"
    using assms(1) by (auto simp: cv_list_def)
  have "tab (cv_f z) (cv_pix z) (cv_dot z (v (cv_bw c)) (v (cv_bx c)) k) = tab (cv_f z) (cv_pix z) (\<lambda>i. g (k * cv_f z + i))"
    using assms(4) by (intro tab_cong) (simp add: g_def)
  then show ?case
    using Suc ne blit_rows [OF assms(2), of k g] by (auto simp: cv_step_def cv_fill_def fun_eq_iff)
qed (simp add: tab_def)

definition cv_feature :: "conv_shape \<Rightarrow> cv_blobs \<Rightarrow> (nat \<Rightarrow> real list) \<Rightarrow> nat \<Rightarrow> real list" where
  "cv_feature z c v = (cv_fill z c (cv_n z - 1) v)(cv_by c := convolve z (v (cv_bw c)) (v (cv_bb c)) (v (cv_bx c)))"

lemma cv_wiredD:
  assumes "cv_wired z c l s"
  shows "src_mutable_data s l 0 kPositive = Inr (Some (cv_bx c))" "src_mutable_grad s l 0 = Inr (cv_bgx c)"
    "lo_data (objs s l) = cv_by c" "lo_grad (objs s l) = cv_bgy c" "lo_col_data (objs s l) = cv_bcol c" "lo_col_grad (objs s l) = cv_bgcol c"
    "param_blob s (lo_weight (objs s l)) = Inr (cv_bw c)" "param_blob s (lo_bias (objs s l)) = Inr (cv_bb c)"
    "param_grad s (lo_weight (objs s l)) = Inr (cv_bgw c)" "param_grad s (lo_bias (objs s l)) = Inr (cv_bgb c)"
    "lo_batchsize (objs s l) = int (cv_n z)" "lo_channels (objs s l) = int (cv_ch z)"
    "lo_height (objs s l) = int (cv_h z)" "lo_width (objs s l) = int (cv_w z)"
    "shape_of_conv (objs s l) (cv_n z) (cv_ch z) (cv_h z) (cv_w z) (cv_f z) = z" "cv_ok z" "distinct (cv_list c)" "cv_shapes z c (lmem s)"
  using assms unfolding cv_wired_def by blast+

lemma cv_shapesD:
  assumes "cv_shapes z c h"
  shows "is_img h (cv_bx c) (cv_n z) (cv_ch z) (cv_h z) (cv_w z)"
    "is_cube h (cv_by c) (cv_n z) (cv_f z) (cv_pix z)" "is_cube h (cv_bgy c) (cv_n z) (cv_f z) (cv_pix z)"
    "is_mat h (cv_bw c) (cv_f z) (cv_col z)" "is_mat h (cv_bgw c) (cv_f z) (cv_col z)"
    "is_mat h (cv_bcol c) (cv_col z) (cv_pix z)" "is_mat h (cv_bgcol c) (cv_col z) (cv_pix z)"
    "bcount (blobs h (cv_bb c)) = int (cv_f z)" "bcount (blobs h (cv_bgb c)) = int (cv_f z)"
    "\<And>g. cv_bgx c = Some g \<Longrightarrow> bcount (blobs h g) = int (cv_n z * cv_rows z * cv_w z)" "0 < cv_f z" "0 < cv_n z"
  using assms unfolding cv_shapes_def is_cube_def by auto

lemma cube_length: "hold B h0 v h \<Longrightarrow> b \<in> B \<Longrightarrow> is_cube h0 b n c p \<Longrightarrow> length (v b) = n * c * p"
  for h0 :: "('f :: zero) heap"
  using hold_length [of B h0 v h b] by (simp add: is_cube_def nat_mult_distrib)

lemma cv_refines_feature:
  assumes "cv_wired z c l s" and "set (cv_list c) \<subseteq> B"
  shows "refines s B (\<lambda>v. True) (Convolution_ComputeFeature l) (cv_feature z c)"
proof (rule refines_with_mem)
  note w = cv_wiredD [OF assms(1)]
  note sh = cv_shapesD [OF w(18)]
  let ?o = "objs s l" and ?h0 = "lmem s"
  have B: "cv_bx c \<in> B" "cv_by c \<in> B" "cv_bb c \<in> B" using assms(2) by (auto simp: cv_list_def)
  have ne: "cv_bb c \<noteq> cv_by c" "cv_bb c \<noteq> cv_bcol c" using w(17) by (auto simp: cv_list_def)
  let ?p = "\<lambda>h. bindR (Tensor4 (cv_bx c) h) (\<lambda>(sn, ch, y, x, _, h1).
        bindR (Tensor3 (cv_by c) h1) (\<lambda>(dn, f, pix, _, h2).
        bindR (foldR (conv_image (shape_of_conv ?o sn ch y x f) ?o (cv_bx c) (cv_bw c)) h2 [0..<cv_n z]) (\<lambda>h3.
        bindR (tensor (cv_bb c) h3) (\<lambda>(bs, h4).
        bindR (tensor (cv_by c) h4) (\<lambda>(ys, h5).
          checkR (length bs = f) CheckFailed (blob_write (cv_by c) (add_broadcast1 dn f pix ys bs) h5))))))"
  show "Convolution_ComputeFeature l (s\<lparr>lmem := h\<rparr>) = with_mem ?p (s\<lparr>lmem := h\<rparr>)" for h
    using w(1,3,7,8,11) by (simp add: Convolution_ComputeFeature_def Let_def deref_def)
  fix v h assume h: "hold B ?h0 v h"
  let ?v1 = "fold (cv_step z c) [0..<cv_n z] v"
  have len: "length (v (cv_by c)) = cv_n z * (cv_f z * cv_pix z)" using cube_length [OF h B(2) sh(2)] by simp
  have lb: "length (v (cv_bb c)) = cv_f z" using hold_length [OF h B(3)] sh(8) by simp
  have loop: "hold B ?h0 v h1 \<Longrightarrow> okR (foldR (conv_image z ?o (cv_bx c) (cv_bw c)) h1 [0..<cv_n z]) (hold B ?h0 ?v1)" for h1
    by (rule okR_loop) (use okR_conv_image [OF w(18,16) assms(2) w(17,5,3)] in auto)
  have v1: "?v1 (cv_bb c) = v (cv_bb c)" "cv_feature z c v = ?v1(cv_by c := add_broadcast1 (cv_n z) (cv_f z) (cv_pix z) (?v1 (cv_by c)) (v (cv_bb c)))"
    "length (?v1 (cv_by c)) = cv_n z * cv_f z * cv_pix z"
    using ne cv_scan [OF w(17), where v = v and z = z and k = "cv_n z", OF len le_refl sh(11)] sh(12) len
    by (simp_all add: cv_feature_def cv_fill_def convolve_def fun_eq_iff)
  show "okR (?p h) (hold B ?h0 (cv_feature z c v))"
    apply (rule okR_seq [OF okR_Tensor4 [OF h B(1) sh(1)]], clarify)
    apply (rule okR_seq [OF okR_Tensor3 [OF _ B(2) sh(2)]], assumption, clarify)
    apply (unfold w(15))
    apply (rule okR_seq [OF loop], assumption)
    apply (rule okR_seq [OF okR_tensor [OF _ B(3)]], assumption, clarify)
    apply (rule okR_seq [OF okR_tensor [OF _ B(2)]], assumption, clarify)
    apply (rule okR_check, simp add: v1(1) lb)
    unfolding v1(1,2) by (rule okR_write [OF _ B(2)]) (simp_all add: v1(3) add_broadcast1_def)
qed

lemma map2_tab: "map2 h (tab n m f) (tab n m g) = tab n m (\<lambda>i j. h (f i j) (g i j))"
proof (rule nth_equalityI)
  fix p assume "p < length (map2 h (tab n m f) (tab n m g))"
  then have "p < n * m" by simp
  then obtain i j where p: "i < n" "j < m" "p = i * m + j" by (rule position)
  have "i * m + j < n * m" by (rule position_lt [OF p(1,2)])
  then show "map2 h (tab n m f) (tab n m g) ! p = tab n m (\<lambda>i j. h (f i j) (g i j)) ! p"
    using p by (simp add: nth_tab)
qed simp

text \<open>Packing reads a matrix of patches inside its bounds only.\<close>

lemma pack_cong:
  fixes m1 m2 :: "nat \<Rightarrow> nat \<Rightarrow> real"
  assumes "\<And>a b. a < ch * k * k \<Longrightarrow> b < out_size h k s * out_size w k s \<Longrightarrow> m1 a b = m2 a b"
    and "0 < s" "0 < k" "c < ch" "y < h"
  shows "pack_col2patch k s ch h w m1 (c * h + y) x = pack_col2patch k s ch h w m2 (c * h + y) x"
proof -
  have "m1 ((c * k + (y - py * s)) * k + (x - q * s)) (py * out_size w k s + q) = m2 ((c * k + (y - py * s)) * k + (x - q * s)) (py * out_size w k s + q)"
    if "py \<in> set (patches k s (out_size h k s) y)" "q \<in> set (patches k s (out_size w k s) x)" for py q
  proof (rule assms(1))
    have "y - py * s < k" "x - q * s < k" "py < out_size h k s" "q < out_size w k s" using that assms(2,3) by (auto simp: set_patches)
    then show "(c * k + (y - py * s)) * k + (x - q * s) < ch * k * k" "py * out_size w k s + q < out_size h k s * out_size w k s"
      using assms(4) by (simp_all add: position_lt)
  qed
  then show ?thesis using assms by (simp add: pack_entry cong: sum.cong)
qed

lemma crop_pack_tab:
  fixes z :: conv_shape and G :: "nat \<Rightarrow> nat \<Rightarrow> real"
  assumes "cv_ok z"
  defines "P \<equiv> \<lambda>m. crop (cv_p z) (cv_p z) (cv_h z + 2 * cv_p z) (cv_h z)
    (pack_col2patch (cv_k z) (cv_s z) (cv_ch z) (cv_h z + 2 * cv_p z) (cv_w z + 2 * cv_p z) m)"
  shows "tab (cv_rows z) (cv_w z) (P (ent (cv_pix z) (tab (cv_col z) (cv_pix z) G))) = tab (cv_rows z) (cv_w z) (P G)"
proof (rule tab_cong)
  fix i j assume i: "i < cv_rows z" and "j < cv_w z"
  obtain c y where c: "c < cv_ch z" "y < cv_h z" "i = c * cv_h z + y" using position [of i "cv_ch z" "cv_h z"] i by (auto simp: cv_rows_def)
  show "P (ent (cv_pix z) (tab (cv_col z) (cv_pix z) G)) i j = P G i j"
    unfolding P_def c(3) crop_entry [OF c(2)]
    by (rule pack_cong) (use assms(1) c in \<open>auto simp: cv_ok_def cv_col_def cv_pix_def ent_tab\<close>)
qed

definition cv_gstep :: "conv_shape \<Rightarrow> cv_blobs \<Rightarrow> nat \<Rightarrow> (nat \<Rightarrow> real list) \<Rightarrow> nat \<Rightarrow> real list" where
  "cv_gstep z c n v =
     (let v2 = (cv_fill z c n v)(cv_bgw c := map2 (+) (v (cv_bgw c)) (tab (cv_f z) (cv_col z) (\<lambda>f l.
            fsum (cv_pix z) (\<lambda>q. ent (cv_pix z) (v (cv_bgy c)) (n * cv_f z + f) q * cv_cols z (cv_img z (v (cv_bx c)) n) l q)))) in
      case cv_bgx c of None \<Rightarrow> v2
      | Some g \<Rightarrow> v2(cv_bgcol c := tab (cv_col z) (cv_pix z) (cv_gcol z (v (cv_bw c)) (v (cv_bgy c)) n),
          g := blit (n * (cv_rows z * cv_w z)) (tab (cv_rows z) (cv_w z) (cv_gx z (v (cv_bw c)) (v (cv_bgy c)) n)) (v g)))"

lemma dot_cols_T:
  "dot (cv_f z) (cv_pix z) (cv_col z) (\<lambda>i q. ent (cv_pix z) gs (n * cv_f z + i) q)
     (\<lambda>q l. ent (cv_pix z) (tab (cv_col z) (cv_pix z) (cv_cols z (cv_img z xs n))) l q) =
   tab (cv_f z) (cv_col z) (\<lambda>f l. fsum (cv_pix z) (\<lambda>q. ent (cv_pix z) gs (n * cv_f z + f) q * cv_cols z (cv_img z xs n) l q))"
  unfolding dot_def by (intro tab_cong fsum_cong) (simp add: ent_tab)

lemma okR_conv_source_gradient:
  assumes "cv_shapes z c h0" and ok: "cv_ok z" and "set (cv_list c) \<subseteq> B" and "distinct (cv_list c)"
    and "lo_col_grad o1 = cv_bgcol c" and n: "n < cv_n z" and h: "hold B h0 v h" and Some: "cv_bgx c = Some g"
  shows "okR (conv_source_gradient z o1 (cv_bw c) (cv_f z) (cv_pix z) gs n g h) (hold B h0
    (v(cv_bgcol c := tab (cv_col z) (cv_pix z) (cv_gcol z (v (cv_bw c)) gs n),
       g := blit (n * (cv_rows z * cv_w z)) (tab (cv_rows z) (cv_w z) (cv_gx z (v (cv_bw c)) gs n)) (v g))))"
proof -
  note sh = cv_shapesD [OF assms(1)]
  have B: "cv_bw c \<in> B" "cv_bgcol c \<in> B" "g \<in> B" "g \<noteq> cv_bgcol c" using assms(3,4) Some by (auto simp: cv_list_def)
  have lg: "length (v g) = cv_n z * (cv_rows z * cv_w z)" using hold_length [OF h B(3)] sh(10) [OF Some] by (simp add: nat_mult_distrib)
  have fit: "Suc n * (cv_rows z * cv_w z) \<le> length (v g)" unfolding lg using n by (intro mult_le_mono1) simp
  have len: "length (v (cv_bgcol c)) = cv_col z * cv_pix z" by (rule mat_length [OF h B(2) sh(7)])
  have dg: "dot (cv_col z) (cv_f z) (cv_pix z) (\<lambda>l i. ent (cv_col z) (v (cv_bw c)) i l) (\<lambda>i q. ent (cv_pix z) gs (n * cv_f z + i) q) =
      tab (cv_col z) (cv_pix z) (cv_gcol z (v (cv_bw c)) gs n)"
    by (simp add: dot_def cv_gcol_def [abs_def])
  show ?thesis
    unfolding conv_source_gradient_def assms(5)
    apply (rule okR_seq [OF okR_Tensor2 [OF h B(1) sh(4)]], clarify)
    apply (rule okR_seq [OF okR_Tensor2 [OF _ B(2) sh(7)]], assumption, clarify)
    apply (rule okR_check, simp)
    apply (rule okR_seq [OF okR_write [OF _ B(2)]], assumption)
     apply (simp add: dot_def len)
    apply (rule okR_seq [OF okR_tensor [OF _ B(2)]], assumption, clarify)
    apply (rule okR_seq [OF okR_tensor [OF _ B(3)]], assumption, clarify)
    apply (rule okR_check, use fit B(4) in simp)
    apply (rule okR_check, use ok in \<open>simp add: cv_ok_def\<close>)
    unfolding dg
    by (rule okR_write [OF _ B(3), THEN okR_mono], assumption)
      (use fit B(4) in \<open>auto simp: cv_gx_def crop_pack_tab [OF ok]\<close>)
qed

lemma okR_conv_image_gradient:
  assumes "cv_shapes z c h0" and "cv_ok z" and "set (cv_list c) \<subseteq> B" and "distinct (cv_list c)"
    and o1: "lo_col_data o1 = cv_bcol c" "lo_col_grad o1 = cv_bgcol c" "lo_grad o1 = cv_bgy c" and "n < cv_n z" and h: "hold B h0 v h"
  shows "okR (conv_image_gradient z z o1 (cv_bx c) (cv_bw c) (cv_bgw c) (cv_bgx c) h n) (hold B h0 (cv_gstep z c n v))"
proof -
  note sh = cv_shapesD [OF assms(1)]
  have B: "cv_bx c \<in> B" "cv_bgy c \<in> B" "cv_bw c \<in> B" "cv_bcol c \<in> B" "cv_bgw c \<in> B" using assms(3) by (auto simp: cv_list_def)
  have ne: "cv_bcol c \<noteq> cv_bw c" "cv_bcol c \<noteq> cv_bgy c" "cv_bcol c \<noteq> cv_bgw c" "cv_bgw c \<noteq> cv_bw c"
    using assms(4) by (auto simp: cv_list_def)
  let ?v1 = "cv_fill z c n v"
  let ?T = "tab (cv_f z) (cv_col z) (\<lambda>f l. fsum (cv_pix z) (\<lambda>q. ent (cv_pix z) (v (cv_bgy c)) (n * cv_f z + f) q * cv_cols z (cv_img z (v (cv_bx c)) n) l q))"
  let ?v2 = "?v1(cv_bgw c := map2 (+) (v (cv_bgw c)) ?T)"
  have v1: "?v1 (cv_bgy c) = v (cv_bgy c)" "?v1 (cv_bgw c) = v (cv_bgw c)" "?v1 (cv_bcol c) = tab (cv_col z) (cv_pix z) (cv_cols z (cv_img z (v (cv_bx c)) n))"
    "?v2 (cv_bw c) = v (cv_bw c)"
    using ne by (auto simp: cv_fill_def)
  have len: "length (v (cv_bgw c)) = cv_f z * cv_col z" by (rule mat_length [OF h B(5) sh(5)])
  have tail: "okR (case cv_bgx c of None \<Rightarrow> Inr h5 | Some gx \<Rightarrow> conv_source_gradient z o1 (cv_bw c) (cv_f z) (cv_pix z) (v (cv_bgy c)) n gx h5)
      (hold B h0 (cv_gstep z c n v))" if h5: "hold B h0 ?v2 h5" for h5
  proof (cases "cv_bgx c")
    case (Some g)
    have g: "g \<noteq> cv_bcol c" "g \<noteq> cv_bgw c" using assms(4) Some by (auto simp: cv_list_def)
    have v2g: "?v2 g = v g" using g by (simp add: cv_fill_def)
    show ?thesis using okR_conv_source_gradient [OF assms(1-4) o1(2) assms(8) h5 Some, of "v (cv_bgy c)"]
      unfolding v1(4) v2g by (simp add: cv_gstep_def Let_def Some)
  qed (use h5 in \<open>simp add: cv_gstep_def Let_def\<close>)
  show ?thesis
    unfolding conv_image_gradient_def o1
    apply (rule okR_seq [OF okR_fill_col [OF assms(1-3) o1(1) assms(8) h]])
    apply (rule okR_seq [OF okR_tensor [OF _ B(4)]], assumption, clarify)
    apply (rule okR_seq [OF okR_Tensor3 [OF _ B(2) sh(3)]], assumption, clarify)
    apply (rule okR_seq [OF okR_Tensor2 [OF _ B(5) sh(5)]], assumption, clarify)
    apply (rule okR_check, rule assms(8))
    apply (rule okR_check, simp)
    apply (unfold v1 dot_cols_T)
    apply (rule okR_seq [OF okR_write [OF _ B(5)]], assumption, simp add: v1 len)
    by (rule tail)
qed

lemma cv_gstep_at:
  assumes "distinct (cv_list c)"
  shows "cv_gstep z c n v (cv_bgw c) = map2 (+) (v (cv_bgw c)) (tab (cv_f z) (cv_col z) (\<lambda>f l.
      fsum (cv_pix z) (\<lambda>q. ent (cv_pix z) (v (cv_bgy c)) (n * cv_f z + f) q * cv_cols z (cv_img z (v (cv_bx c)) n) l q)))"
    and "cv_bgx c = Some g \<Longrightarrow> cv_gstep z c n v g =
      blit (n * (cv_rows z * cv_w z)) (tab (cv_rows z) (cv_w z) (cv_gx z (v (cv_bw c)) (v (cv_bgy c)) n)) (v g)"
    and "b \<notin> {cv_bgw c, cv_bcol c, cv_bgcol c} \<union> set_option (cv_bgx c) \<Longrightarrow> cv_gstep z c n v b = v b"
  using assms by (auto simp: cv_gstep_def cv_fill_def Let_def cv_list_def split: option.splits)

text \<open>The whole batch; the gradients of the source, where it has any, are written image by image.\<close>

lemma cv_gscan:
  assumes dist: "distinct (cv_list c)" and gw: "v (cv_bgw c) = tab (cv_f z) (cv_col z) (\<lambda>_ _. 0)"
    and lg: "\<And>g. cv_bgx c = Some g \<Longrightarrow> length (v g) = cv_n z * (cv_rows z * cv_w z)" and "k \<le> cv_n z"
  defines "G \<equiv> \<lambda>k. tab (cv_f z) (cv_col z) (\<lambda>f l. fsum k (\<lambda>n. fsum (cv_pix z) (\<lambda>q.
      ent (cv_pix z) (v (cv_bgy c)) (n * cv_f z + f) q * cv_cols z (cv_img z (v (cv_bx c)) n) l q)))"
    and "X \<equiv> \<lambda>i. cv_gx z (v (cv_bw c)) (v (cv_bgy c)) (i div cv_rows z) (i mod cv_rows z)"
  shows "fold (cv_gstep z c) [0..<k] v (cv_bgw c) = G k"
    and "\<And>g. cv_bgx c = Some g \<Longrightarrow> fold (cv_gstep z c) [0..<k] v g = tab (k * cv_rows z) (cv_w z) X @ drop (k * (cv_rows z * cv_w z)) (v g)"
    and "\<And>b. b \<notin> {cv_bgw c, cv_bcol c, cv_bgcol c} \<union> set_option (cv_bgx c) \<Longrightarrow> fold (cv_gstep z c) [0..<k] v b = v b"
proof -
  have "fold (cv_gstep z c) [0..<k] v (cv_bgw c) = G k \<and>
    (\<forall>g. cv_bgx c = Some g \<longrightarrow> fold (cv_gstep z c) [0..<k] v g = tab (k * cv_rows z) (cv_w z) X @ drop (k * (cv_rows z * cv_w z)) (v g)) \<and>
    (\<forall>b. b \<notin> {cv_bgw c, cv_bcol c, cv_bgcol c} \<union> set_option (cv_bgx c) \<longrightarrow> fold (cv_gstep z c) [0..<k] v b = v b)"
    using assms(4)
  proof (induction k)
    case (Suc k)
    let ?u = "fold (cv_gstep z c) [0..<k] v"
    have u: "?u (cv_bgy c) = v (cv_bgy c)" "?u (cv_bx c) = v (cv_bx c)" "?u (cv_bw c) = v (cv_bw c)" "?u (cv_bgw c) = G k"
      using Suc dist by (auto simp: cv_list_def split: option.splits)
    have "tab (cv_rows z) (cv_w z) (cv_gx z (v (cv_bw c)) (v (cv_bgy c)) k) = tab (cv_rows z) (cv_w z) (\<lambda>i. X (k * cv_rows z + i))"
      by (intro tab_cong) (simp add: X_def)
    moreover have "map2 (+) (G k) (tab (cv_f z) (cv_col z) (\<lambda>f l. fsum (cv_pix z) (\<lambda>q.
        ent (cv_pix z) (v (cv_bgy c)) (k * cv_f z + f) q * cv_cols z (cv_img z (v (cv_bx c)) k) l q))) = G (Suc k)"
      unfolding G_def map2_tab by (simp add: fsum_def)
    ultimately show ?case
      using Suc u blit_rows [OF lg, of _ k X] by (simp add: cv_gstep_at [OF dist])
  qed (use gw in \<open>simp add: G_def fsum_def tab_def\<close>)
  then show "fold (cv_gstep z c) [0..<k] v (cv_bgw c) = G k"
    "\<And>g. cv_bgx c = Some g \<Longrightarrow> fold (cv_gstep z c) [0..<k] v g = tab (k * cv_rows z) (cv_w z) X @ drop (k * (cv_rows z * cv_w z)) (v g)"
    "\<And>b. b \<notin> {cv_bgw c, cv_bcol c, cv_bgcol c} \<union> set_option (cv_bgx c) \<Longrightarrow> fold (cv_gstep z c) [0..<k] v b = v b" by blast+
qed

definition cv_gradient :: "conv_shape \<Rightarrow> cv_blobs \<Rightarrow> (nat \<Rightarrow> real list) \<Rightarrow> nat \<Rightarrow> real list" where
  "cv_gradient z c v = fold (cv_gstep z c) [0..<cv_n z]
     (v(cv_bgb c := convolve_gb z (v (cv_bgy c)), cv_bgw c := tab (cv_f z) (cv_col z) (\<lambda>_ _. 0)))"

lemma cv_gradient_at:
  assumes "distinct (cv_list c)" and "\<And>g. cv_bgx c = Some g \<Longrightarrow> length (v g) = cv_n z * (cv_rows z * cv_w z)"
  shows "cv_gradient z c v (cv_bgw c) = convolve_gw z (v (cv_bx c)) (v (cv_bgy c))"
    and "cv_gradient z c v (cv_bgb c) = convolve_gb z (v (cv_bgy c))"
    and "cv_bgx c = Some g \<Longrightarrow> cv_gradient z c v g = convolve_gx z (v (cv_bw c)) (v (cv_bgy c))"
    and "b \<notin> {cv_bgw c, cv_bgb c, cv_bcol c, cv_bgcol c} \<union> set_option (cv_bgx c) \<Longrightarrow> cv_gradient z c v b = v b"
proof -
  define u where "u = v(cv_bgb c := convolve_gb z (v (cv_bgy c)), cv_bgw c := tab (cv_f z) (cv_col z) (\<lambda>_ _. 0))"
  have grad: "cv_gradient z c v = fold (cv_gstep z c) [0..<cv_n z] u" by (simp add: cv_gradient_def u_def)
  have u: "u (cv_bx c) = v (cv_bx c)" "u (cv_bgy c) = v (cv_bgy c)" "u (cv_bw c) = v (cv_bw c)"
    "u (cv_bgb c) = convolve_gb z (v (cv_bgy c))" "u (cv_bgw c) = tab (cv_f z) (cv_col z) (\<lambda>_ _. 0)" "\<And>g. cv_bgx c = Some g \<Longrightarrow> u g = v g"
    using assms(1) by (auto simp: u_def cv_list_def)
  have ne: "cv_bgb c \<notin> {cv_bgw c, cv_bcol c, cv_bgcol c} \<union> set_option (cv_bgx c)"
    using assms(1) by (auto simp: cv_list_def split: option.splits)
  have len: "\<And>g. cv_bgx c = Some g \<Longrightarrow> length (u g) = cv_n z * (cv_rows z * cv_w z)" using assms(2) u(6) by auto
  note scan = cv_gscan [OF assms(1), where v = u and z = z and k = "cv_n z", OF u(5) len le_refl]
  show "cv_gradient z c v (cv_bgw c) = convolve_gw z (v (cv_bx c)) (v (cv_bgy c))"
    using scan(1) by (simp add: grad convolve_gw_def u)
  show "cv_gradient z c v (cv_bgb c) = convolve_gb z (v (cv_bgy c))"
    using scan(3) [OF _ ne] by (simp add: grad u)
  show "cv_gradient z c v g = convolve_gx z (v (cv_bw c)) (v (cv_bgy c))" if "cv_bgx c = Some g"
    using scan(2) [OF _ that] len [OF that] by (simp add: grad convolve_gx_def u mult.assoc)
  show "cv_gradient z c v b = v b" if "b \<notin> {cv_bgw c, cv_bgb c, cv_bcol c, cv_bgcol c} \<union> set_option (cv_bgx c)"
    using scan(3) [of b] that by (simp add: grad u_def)
qed

lemma cv_refines_gradient:
  assumes "cv_wired z c l s" and "set (cv_list c) \<subseteq> B"
  shows "refines s B (\<lambda>v. True) (Convolution_ComputeGradient l) (cv_gradient z c)"
proof (rule refines_with_mem)
  note w = cv_wiredD [OF assms(1)]
  note sh = cv_shapesD [OF w(18)]
  let ?o = "objs s l" and ?h0 = "lmem s"
  have B: "cv_bx c \<in> B" "cv_bgy c \<in> B" "cv_bgb c \<in> B" "cv_bgw c \<in> B" using assms(2) by (auto simp: cv_list_def)
  have ne: "cv_bgb c \<noteq> cv_bgw c" using w(17) by (auto simp: cv_list_def)
  let ?p = "\<lambda>h. bindR (Tensor4 (cv_bx c) h) (\<lambda>(sn, sc, sy, sx, _, h1).
        bindR (Tensor3 (cv_bgy c) h1) (\<lambda>(gn, f, pix, gs, h2).
        bindR (tensor (cv_bgb c) h2) (\<lambda>(bs, h3).
        checkR (length bs = f) CheckFailed
        (bindR (blob_write (cv_bgb c) (sumall_except_dim1 gn f pix gs) h3) (\<lambda>h4.
         bindR (tensor (cv_bgw c) h4) (\<lambda>(gw, h5).
         bindR (blob_write (cv_bgw c) (map (\<lambda>_. 0) gw) h5) (\<lambda>h6.
           foldR (conv_image_gradient (shape_of_conv ?o sn sc sy sx f)
               (shape_of_conv ?o (cv_n z) (cv_ch z) (cv_h z) (cv_w z) f) ?o (cv_bx c) (cv_bw c) (cv_bgw c) (cv_bgx c))
             h6 [0..<cv_n z])))))))"
  show "Convolution_ComputeGradient l (s\<lparr>lmem := h\<rparr>) = with_mem ?p (s\<lparr>lmem := h\<rparr>)" for h
    using w(1-4,7-14) by (simp add: Convolution_ComputeGradient_def Let_def deref_def)
  fix v h assume h: "hold B ?h0 v h"
  have lb: "length (v (cv_bgb c)) = cv_f z" using hold_length [OF h B(3)] sh(9) by simp
  have lw: "length (v (cv_bgw c)) = cv_f z * cv_col z" by (rule mat_length [OF h B(4) sh(5)])
  let ?v1 = "v(cv_bgb c := convolve_gb z (v (cv_bgy c)))"
  let ?v2 = "?v1(cv_bgw c := tab (cv_f z) (cv_col z) (\<lambda>_ _. 0 :: real))"
  have zero: "map (\<lambda>_. 0) (v (cv_bgw c)) = tab (cv_f z) (cv_col z) (\<lambda>_ _. 0 :: real)"
    unfolding list_eq_iff_nth_eq by (auto simp: lw elim!: position simp: nth_tab position_lt)
  have loop: "hold B ?h0 ?v2 h1 \<Longrightarrow> okR (foldR (conv_image_gradient z z ?o (cv_bx c) (cv_bw c) (cv_bgw c) (cv_bgx c)) h1 [0..<cv_n z])
      (hold B ?h0 (cv_gradient z c v))" for h1
    unfolding cv_gradient_def
    by (rule okR_loop) (use okR_conv_image_gradient [OF w(18,16) assms(2) w(17,5,6,4)] in auto)
  show "okR (?p h) (hold B ?h0 (cv_gradient z c v))"
    apply (rule okR_seq [OF okR_Tensor4 [OF h B(1) sh(1)]], clarify)
    apply (rule okR_seq [OF okR_Tensor3 [OF _ B(2) sh(3)]], assumption, clarify)
    apply (rule okR_seq [OF okR_tensor [OF _ B(3)]], assumption, clarify)
    apply (rule okR_check, simp add: lb)
    apply (rule okR_seq [OF okR_write [OF _ B(3)]], assumption, simp add: lb sumall_except_dim1_def)
    apply (rule okR_seq [OF okR_tensor [OF _ B(4)]], assumption, clarify)
    apply (rule okR_seq [OF okR_write [OF _ B(4)]], assumption, simp)
    apply (unfold w(15))
    by (rule loop) (use ne zero in \<open>simp add: convolve_gb_def\<close>)
qed

text \<open>The textbook convolution: a pixel outside the image is zero.\<close>

definition pixel :: "conv_shape \<Rightarrow> real list \<Rightarrow> nat \<Rightarrow> nat \<Rightarrow> nat \<Rightarrow> nat \<Rightarrow> real" where
  "pixel z xs n c y x =
     (if cv_p z \<le> y \<and> y < cv_p z + cv_h z \<and> cv_p z \<le> x \<and> x < cv_p z + cv_w z
      then xs ! (((n * cv_ch z + c) * cv_h z + (y - cv_p z)) * cv_w z + (x - cv_p z)) else 0)"

lemma padded_pixel:
  assumes "y < cv_h z + 2 * cv_p z" and "x < cv_w z + 2 * cv_p z"
  shows "(if 0 < cv_p z then pad (cv_p z) (cv_h z) (cv_w z) (cv_img z xs n) else cv_img z xs n) (a * (cv_h z + 2 * cv_p z) + y) x =
    pixel z xs n a y x"
proof -
  have row: "cv_img z xs n (a * cv_h z + j) i = xs ! (((n * cv_ch z + a) * cv_h z + j) * cv_w z + i)" for j i
    by (simp add: cv_img_def ent_def cv_rows_def algebra_simps)
  show ?thesis
  proof (cases "0 < cv_p z")
    case True
    show ?thesis unfolding if_P [OF True] pad_entry [OF assms(1)] row pixel_def ..
  qed (use assms in \<open>simp add: row pixel_def\<close>)
qed

lemma convolve_entry:
  assumes "cv_ok z" and "n < cv_n z" "f < cv_f z"
    and py: "py < out_size (cv_h z + 2 * cv_p z) (cv_k z) (cv_s z)" and q: "q < out_size (cv_w z + 2 * cv_p z) (cv_k z) (cv_s z)"
  shows "convolve z ws bs xs ! ((n * cv_f z + f) * cv_pix z + (py * out_size (cv_w z + 2 * cv_p z) (cv_k z) (cv_s z) + q)) =
    (\<Sum>c < cv_ch z. \<Sum>i < cv_k z. \<Sum>j < cv_k z.
      ws ! (f * cv_col z + ((c * cv_k z + i) * cv_k z + j)) * pixel z xs n c (py * cv_s z + i) (q * cv_s z + j)) + bs ! f"
proof -
  let ?h = "cv_h z + 2 * cv_p z" and ?w = "cv_w z + 2 * cv_p z" and ?k = "cv_k z" and ?s = "cv_s z"
  let ?ow = "out_size ?w ?k ?s"
  have k: "0 < ?s" "?k \<le> ?h" "?k \<le> ?w" using assms(1) by (simp_all add: cv_ok_def)
  have cols: "cv_cols z (cv_img z xs n) ((c * ?k + i) * ?k + j) (py * ?ow + q) = pixel z xs n c (py * ?s + i) (q * ?s + j)"
    if "c < cv_ch z" "i < ?k" "j < ?k" for c i j
  proof -
    have in1: "py * ?s + i < ?h" "q * ?s + j < ?w" using patch_inside that(2,3) py q k by auto
    show ?thesis unfolding cv_cols_def unpack_entry [OF that py q k(1-3)] by (rule padded_pixel [OF in1])
  qed
  have "n * cv_f z + f < cv_n z * cv_f z" "py * ?ow + q < cv_pix z"
    using position_lt assms(2,3) py q by (simp_all add: cv_pix_def)
  then have "convolve z ws bs xs ! ((n * cv_f z + f) * cv_pix z + (py * ?ow + q)) =
      (\<Sum>l < cv_col z. ws ! (f * cv_col z + l) * cv_cols z (cv_img z xs n) l (py * ?ow + q)) + bs ! f"
    using assms(3) by (simp add: convolve_def add_broadcast1_def nth_tab ent_tab cv_dot_def fsum_sum) (simp add: ent_def)
  also have "\<dots> = (\<Sum>c < cv_ch z. \<Sum>i < ?k. \<Sum>j < ?k.
      ws ! (f * cv_col z + ((c * ?k + i) * ?k + j)) * pixel z xs n c (py * ?s + i) (q * ?s + j)) + bs ! f"
    unfolding cv_col_def sum_positions by (intro arg_cong2 [where f = "(+)"] refl sum.cong) (simp add: cols)
  finally show ?thesis .
qed

lemma refines_run:
  assumes "refines s B (\<lambda>v. True) run upd" and "apart B (lmem s)"
  obtains h where "run s = Inr (s\<lparr>lmem := h\<rparr>)" "hold B (lmem s) (upd (contents (lmem s))) h"
proof -
  have "\<exists>h1. run (s\<lparr>lmem := lmem s\<rparr>) = Inr (s\<lparr>lmem := h1\<rparr>) \<and> hold B (lmem s) (upd (contents (lmem s))) h1"
    by (rule refinesD [OF assms(1) _ hold_start [OF assms(2)]]) simp
  then show ?thesis using that by auto
qed

text \<open>
  C3. A convolution layer computes the textbook convolution of every image of the batch with every filter, plus the bias of
  the filter, with pixels outside the image read as zero. Only its own output and its column buffer change.
\<close>
theorem Convolution_convolves:
  fixes s :: "real lstate"
  assumes "cv_wired z c l s" and "apart B (lmem s)" and "set (cv_list c) \<subseteq> B"
  defines "x \<equiv> contents (lmem s) (cv_bx c)" and "w \<equiv> contents (lmem s) (cv_bw c)" and "b \<equiv> contents (lmem s) (cv_bb c)"
    and "oh \<equiv> out_size (cv_h z + 2 * cv_p z) (cv_k z) (cv_s z)" and "ow \<equiv> out_size (cv_w z + 2 * cv_p z) (cv_k z) (cv_s z)"
  shows "\<exists>h1. Convolution_ComputeFeature l s = Inr (s\<lparr>lmem := h1\<rparr>) \<and>
    (\<forall>d \<in> B - {cv_by c, cv_bcol c}. contents h1 d = contents (lmem s) d) \<and>
    (\<forall>n < cv_n z. \<forall>f < cv_f z. \<forall>py < oh. \<forall>q < ow.
      contents h1 (cv_by c) ! ((n * cv_f z + f) * (oh * ow) + (py * ow + q)) =
        (\<Sum>a < cv_ch z. \<Sum>i < cv_k z. \<Sum>j < cv_k z.
          w ! (f * (cv_ch z * cv_k z * cv_k z) + ((a * cv_k z + i) * cv_k z + j)) * pixel z x n a (py * cv_s z + i) (q * cv_s z + j)) + b ! f)"
proof -
  note w = cv_wiredD [OF assms(1)]
  have B: "cv_by c \<in> B" using assms(3) by (auto simp: cv_list_def)
  obtain h1 where h1: "Convolution_ComputeFeature l s = Inr (s\<lparr>lmem := h1\<rparr>)" "hold B (lmem s) (cv_feature z c (contents (lmem s))) h1"
    by (rule refines_run [OF cv_refines_feature [OF assms(1,3)] assms(2)])
  have "contents h1 d = contents (lmem s) d" if "d \<in> B - {cv_by c, cv_bcol c}" for d
    using holdD [OF h1(2)] that by (simp add: cv_feature_def cv_fill_def)
  moreover have "contents h1 (cv_by c) = convolve z w b x"
    using holdD [OF h1(2) B] by (simp add: cv_feature_def x_def w_def b_def)
  ultimately show ?thesis
    using h1(1) convolve_entry [OF w(16)] by (intro exI [of _ h1]) (auto simp: oh_def ow_def cv_pix_def cv_col_def)
qed

text \<open>
  C4. The backward pass of a convolution layer leaves the gradients of the weighted outputs by the filters, by the bias and,
  where the source layer has a gradient, by the images: packing the column gradients and cropping the padding is the
  transpose of taking the patches. No other blob changes but the two column buffers.
\<close>
theorem Convolution_differentiates:
  fixes s :: "real lstate"
  assumes "cv_wired z c l s" and "apart B (lmem s)" and "set (cv_list c) \<subseteq> B"
  defines "x \<equiv> contents (lmem s) (cv_bx c)" and "w \<equiv> contents (lmem s) (cv_bw c)" and "b \<equiv> contents (lmem s) (cv_bb c)"
    and "g \<equiv> contents (lmem s) (cv_bgy c)"
  shows "\<exists>h2. Convolution_ComputeGradient l s = Inr (s\<lparr>lmem := h2\<rparr>) \<and>
    vjp (\<lambda>w. convolve z w b x) w g (contents h2 (cv_bgw c)) \<and>
    vjp (\<lambda>b. convolve z w b x) b g (contents h2 (cv_bgb c)) \<and>
    (case cv_bgx c of None \<Rightarrow> True | Some gx \<Rightarrow> vjp (convolve z w b) x g (contents h2 gx)) \<and>
    (\<forall>d \<in> B - {cv_bgw c, cv_bgb c, cv_bcol c, cv_bgcol c} - set_option (cv_bgx c). contents h2 d = contents (lmem s) d)"
proof -
  note wd = cv_wiredD [OF assms(1)]
  note sh = cv_shapesD [OF wd(18)]
  have B: "cv_bx c \<in> B" "cv_bw c \<in> B" "cv_bb c \<in> B" "cv_bgy c \<in> B" "cv_bgw c \<in> B" "cv_bgb c \<in> B" "set_option (cv_bgx c) \<subseteq> B"
    using assms(3) by (auto simp: cv_list_def split: option.splits)
  note h0 = hold_start [OF assms(2)]
  have "length x = cv_n z * cv_rows z * cv_w z" "length w = cv_f z * cv_col z" "length b = cv_f z" "length g = cv_n z * cv_f z * cv_pix z"
    using img_length [OF h0 B(1) sh(1)] mat_length [OF h0 B(2) sh(4)] hold_length [OF h0 B(3)] sh(8) cube_length [OF h0 B(4) sh(3)]
    by (simp_all add: x_def w_def b_def g_def cv_rows_def mult.assoc)
  then have ok: "convolve_ok z w b x" "length g = length (convolve z w b x)" using wd(16) by (simp_all add: convolve_ok_def)
  obtain h2 where h2: "Convolution_ComputeGradient l s = Inr (s\<lparr>lmem := h2\<rparr>)" "hold B (lmem s) (cv_gradient z c (contents (lmem s))) h2"
    by (rule refines_run [OF cv_refines_gradient [OF assms(1,3)] assms(2)])
  have lg: "length (contents (lmem s) gx) = cv_n z * (cv_rows z * cv_w z)" if "cv_bgx c = Some gx" for gx
    using hold_length [OF h0, of gx] sh(10) [OF that] B(7) that by (simp add: nat_mult_distrib mult.assoc)
  note at = cv_gradient_at [OF wd(17), where v = "contents (lmem s)" and z = z, OF lg, folded x_def w_def b_def g_def]
  show ?thesis
    using h2(1) conv_w.bwd_vjp [OF ok] conv_b.bwd_vjp [OF ok] conv_x.bwd_vjp [OF ok] holdD [OF h2(2)] at B(5-7)
    by (intro exI [of _ h2]) (auto split: option.splits)
qed

text \<open>A feature pass and then a gradient pass.\<close>

lemma refines_both:
  assumes "refines s B (\<lambda>v. True) f F" and "refines s B (\<lambda>v. True) g G" and "apart B (lmem s)"
  obtains h where "bindR (f s) g = Inr (s\<lparr>lmem := h\<rparr>)" "hold B (lmem s) (G (F (contents (lmem s)))) h"
proof -
  obtain h1 where h1: "f s = Inr (s\<lparr>lmem := h1\<rparr>)" "hold B (lmem s) (F (contents (lmem s))) h1"
    by (rule refines_run [OF assms(1,3)])
  then show ?thesis using refinesD [OF assms(2) _ h1(2)] that by auto
qed

lemma pool_fwd_vjp:
  assumes "pl_ok z" and "length x = pl_n z * pl_h z * pl_w z" and "m = PoolMethod_MAX \<Longrightarrow> max_ok z x" and "length g = pl_n z * pl_oh z * pl_ow z"
  shows "vjp (pool_fwd m z) x g (pool_bwd m z x (pool_fwd m z x) g)"
proof (cases m)
  case PoolMethod_MAX
  then show ?thesis using max_pool.bwd_vjp [of z x g] assms
    by (simp add: pool_fwd_def [abs_def] pool_bwd_def max_pool_def [of z x])
next
  case PoolMethod_AVE
  then show ?thesis using avg_pool.bwd_vjp [of z x g] assms
    by (simp add: pool_fwd_def [abs_def] pool_bwd_def avg_pool_def [of z x])
qed

text \<open>
  C5. A pooling layer leaves, after a forward and a backward pass, the gradient of its weighted outputs in the gradient of its
  source: every window hands its gradient to its pixels, in equal shares for the average and to the largest pixel for the
  maximum. For the maximum, every window has one largest pixel.
\<close>
theorem Pooling_differentiates:
  fixes s :: "real lstate"
  assumes "pl_wired n ch z c l s" and "apart B (lmem s)" and "set (el_list c) \<subseteq> B"
  defines "x \<equiv> contents (lmem s) (el_x c)" and "g \<equiv> contents (lmem s) (el_gy c)" and "m \<equiv> lo_pool (objs s l)"
  assumes "m = PoolMethod_MAX \<Longrightarrow> max_ok z x"
  shows "\<exists>h. bindR (Pooling_ComputeFeature l s) (Pooling_ComputeGradient l) = Inr (s\<lparr>lmem := h\<rparr>) \<and>
    contents h (el_y c) = pool_fwd m z x \<and> vjp (pool_fwd m z) x g (contents h (el_gx c)) \<and>
    (\<forall>d \<in> B - {el_y c, el_gx c}. contents h d = contents (lmem s) d)"
proof -
  note w = assms(1) [unfolded pl_wired_def]
  have B: "el_x c \<in> B" "el_y c \<in> B" "el_gy c \<in> B" "el_gx c \<in> B" using assms(3) by (auto simp: el_list_def)
  have ne: "distinct [el_x c, el_y c, el_gy c, el_gx c]" using w by (simp add: el_list_def)
  have zz: "pl_ok z" "shape_of_pool (objs s l) (n * ch) (pl_h z) (pl_w z) = z" using w by blast+
  have zn: "pl_n z = n * ch" using arg_cong [OF zz(2), of pl_n] by (simp add: shape_of_pool_def)
  have img: "is_img (lmem s) (el_x c) n ch (pl_h z) (pl_w z)" "is_img (lmem s) (el_gy c) n ch (pl_oh z) (pl_ow z)" using w by blast+
  note len = img_length [OF hold_start [OF assms(2)] B(1) img(1)] img_length [OF hold_start [OF assms(2)] B(3) img(2)]
  obtain h where h: "bindR (Pooling_ComputeFeature l s) (Pooling_ComputeGradient l) = Inr (s\<lparr>lmem := h\<rparr>)"
    "hold B (lmem s) (pl_gradient m z c (pl_feature m z c (contents (lmem s)))) h"
    unfolding m_def by (rule refines_both [OF pl_refines [OF assms(1,3)] assms(2)])
  have at: "contents h d = pl_gradient m z c (pl_feature m z c (contents (lmem s))) d" if "d \<in> B" for d using holdD [OF h(2) that] .
  have "vjp (pool_fwd m z) x g (pool_bwd m z x (pool_fwd m z x) g)"
    by (rule pool_fwd_vjp) (use zz(1) zn len assms(7) in \<open>simp_all add: x_def g_def\<close>)
  moreover have "contents h (el_y c) = pool_fwd m z x" "contents h (el_gx c) = pool_bwd m z x (pool_fwd m z x) g"
    "\<And>d. d \<in> B - {el_y c, el_gx c} \<Longrightarrow> contents h d = contents (lmem s) d"
    using at B ne by (auto simp: pl_gradient_def pl_feature_def x_def g_def)
  ultimately show ?thesis using h(1) by (intro exI [of _ h]) simp
qed

text \<open>
  C6. A normalisation layer divides every activation by a power of the sum of squares of the channels around it and leaves,
  after a forward and a backward pass, the gradient of its weighted outputs in the gradient of its source. The sums are positive.
\<close>
theorem LRN_differentiates:
  assumes "lr_wired z c l s" and "apart B (lmem s)" and "set (lr_list c) \<subseteq> B"
  defines "x \<equiv> contents (lmem s) (lr_x c)" and "g \<equiv> contents (lmem s) (lr_gy c)"
  assumes "\<forall>a \<in> set (lrn_norm z x). 0 < a"
  shows "\<exists>h. bindR (LRN_ComputeFeature l s) (LRN_ComputeGradient l) = Inr (s\<lparr>lmem := h\<rparr>) \<and>
    (\<forall>n < lr_n z. \<forall>k < lr_ch z. \<forall>i < lr_h z. \<forall>j < lr_w z. let p = \<lambda>k. ((n * lr_ch z + k) * lr_h z + i) * lr_w z + j in
      contents h (lr_y c) ! p k = x ! p k *
        ((\<Sum>k' | k' < lr_ch z \<and> k \<le> k' + lr_size z div 2 \<and> k' \<le> k + lr_size z div 2. x ! p k' * x ! p k') * lr_salpha z + lr_knorm z) powr (- lr_beta z)) \<and>
    vjp (\<lambda>x. lrn_data z x (lrn_norm z x)) x g (contents h (lr_gx c)) \<and>
    (\<forall>d \<in> B - {lr_y c, lr_gx c, lr_norm c}. contents h d = contents (lmem s) d)"
proof -
  note w = assms(1) [unfolded lr_wired_def]
  have B: "lr_x c \<in> B" "lr_y c \<in> B" "lr_gy c \<in> B" "lr_gx c \<in> B" "lr_norm c \<in> B" using assms(3) by (auto simp: lr_list_def)
  have ne: "distinct [lr_x c, lr_y c, lr_gy c, lr_gx c, lr_norm c]" using w by (simp add: lr_list_def)
  have img: "is_img (lmem s) b (lr_n z) (lr_ch z) (lr_h z) (lr_w z)" if "b \<in> set (lr_list c)" for b using w that by blast
  have len: "length x = lr_n z * lr_ch z * lr_h z * lr_w z" "length g = lr_n z * lr_ch z * lr_h z * lr_w z"
    using img_length [OF hold_start [OF assms(2)] B(1) img] img_length [OF hold_start [OF assms(2)] B(3) img]
    by (simp_all add: x_def g_def lr_list_def)
  obtain h where h: "bindR (LRN_ComputeFeature l s) (LRN_ComputeGradient l) = Inr (s\<lparr>lmem := h\<rparr>)"
    "hold B (lmem s) (lr_gradient z c (lr_feature z c (contents (lmem s)))) h"
    by (rule refines_both [OF lr_refines [OF assms(1,3)] assms(2)])
  have at: "contents h d = lr_gradient z c (lr_feature z c (contents (lmem s))) d" if "d \<in> B" for d using holdD [OF h(2) that] .
  have vjp: "vjp (\<lambda>x. lrn_data z x (lrn_norm z x)) x g (lrn_gx z x (lrn_norm z x) g)"
    by (rule lrn.bwd_vjp) (use len assms(6) in \<open>simp_all add: lrn_ok_def lrn_data_def\<close>)
  have con: "contents h (lr_y c) = lrn_data z x (lrn_norm z x)" "contents h (lr_gx c) = lrn_gx z x (lrn_norm z x) g"
    "\<And>d. d \<in> B - {lr_y c, lr_gx c, lr_norm c} \<Longrightarrow> contents h d = contents (lmem s) d"
    using at B ne by (auto simp: lr_gradient_def lr_feature_def x_def g_def)
  have "lrn_data z x (lrn_norm z x) ! (((n * lr_ch z + k) * lr_h z + i) * lr_w z + j) = x ! (((n * lr_ch z + k) * lr_h z + i) * lr_w z + j) *
      ((\<Sum>k' | k' < lr_ch z \<and> k \<le> k' + lr_size z div 2 \<and> k' \<le> k + lr_size z div 2.
        x ! (((n * lr_ch z + k') * lr_h z + i) * lr_w z + j) * x ! (((n * lr_ch z + k') * lr_h z + i) * lr_w z + j)) *
        lr_salpha z + lr_knorm z) powr (- lr_beta z)"
    if "n < lr_n z" "k < lr_ch z" "i < lr_h z" "j < lr_w z" for n k i j
  proof -
    have "set (channels_near (lr_size z) (lr_ch z) k) = {k'. k' < lr_ch z \<and> k \<le> k' + lr_size z div 2 \<and> k' \<le> k + lr_size z div 2}"
      by (auto simp: channels_near_def Let_def)
    then show ?thesis
      using that len lrn_positions [OF that]
      by (simp add: lrn_data_def lrn_norm_def nth_tab chpool_entry) (simp add: ent_def)
  qed
  then show ?thesis using h(1) con vjp by (intro exI [of _ h]) (simp add: Let_def)
qed

section \<open>Examples\<close>

text \<open>A heap of blobs with the given shapes and floats.\<close>

definition shaped_heap :: "(int list \<times> real list) list \<Rightarrow> real heap" where
  "shaped_heap vs =
     \<lparr>blocks = (\<lambda>b. if b < length vs then Some (snd (vs ! b)) else None), nblock = length vs,
      syncs = (\<lambda>b. \<lparr>cpu_ptr = Ptr b 0, sm_size = length (snd (vs ! b)), sm_head = HEAD_AT_CPU, own_cpu_data = True\<rparr>), nsync = length vs,
      blobs = (\<lambda>b. \<lparr>shape = fst (vs ! b), bcount = int (length (snd (vs ! b))), bcapacity = int (length (snd (vs ! b))),
        bversion = 0, bdata = Some b\<rparr>), nblob = length vs\<rparr>"

lemma shaped_heap_apart:
  assumes "\<forall>v \<in> set vs. snd v \<noteq> [] \<and> length (snd v) < 2 ^ 31 \<and> shape_count (fst v) = Inr (int (length (snd v)))"
  shows "apart {..<length vs} (shaped_heap vs)" "b < length vs \<Longrightarrow> contents (shaped_heap vs) b = snd (vs ! b)"
proof -
  have len: "length (snd (vs ! b)) < 2147483648" if "b < length vs" for b using assms that by auto
  have "wf_heap (shaped_heap vs)"
    by (auto simp: wf_heap_def shaped_heap_def wf_sync_def wf_blob_def region_def split: if_splits)
  moreover have "shape_count (fst (vs ! b)) = Inr (int (length (snd (vs ! b))))" "snd (vs ! b) \<noteq> []" if "b < length vs" for b
    using assms that by auto
  ultimately show "apart {..<length vs} (shaped_heap vs)"
    by (auto simp: apart_def shaped_heap_def separate_def ptr_disj_def)
  show "b < length vs \<Longrightarrow> contents (shaped_heap vs) b = snd (vs ! b)"
    by (simp add: contents_def shaped_heap_def block_of_def)
qed

text \<open>An image of two times two pixels, a filter of the same size, and one pooled pixel.\<close>

definition conv_demo_shape :: conv_shape where
  "conv_demo_shape = \<lparr>cv_n = 1, cv_ch = 1, cv_h = 2, cv_w = 2, cv_f = 1, cv_k = 2, cv_p = 0, cv_s = 1\<rparr>"

definition conv_demo_blobs :: cv_blobs where
  "conv_demo_blobs = \<lparr>cv_bx = 0, cv_by = 2, cv_bgy = 3, cv_bw = 4, cv_bb = 6, cv_bgw = 5, cv_bgb = 7, cv_bgx = Some 1, cv_bcol = 8, cv_bgcol = 9\<rparr>"

definition conv_demo_values :: "(int list \<times> real list) list" where
  "conv_demo_values = [([1, 1, 2, 2], [1, 2, 3, 4]), ([1, 1, 2, 2], [0, 0, 0, 0]), ([1, 1, 1, 1], [0]), ([1, 1, 1, 1], [1]),
     ([1, 4], [1, 0, 0, 2]), ([1, 4], [0, 0, 0, 0]), ([1], [5]), ([1], [0]), ([4, 1], [0, 0, 0, 0]), ([4, 1], [0, 0, 0, 0])]"

definition conv_demo :: "real lstate" where
  "conv_demo = \<lparr>objs = (\<lambda>l. if l = 0 then LayerObj0 kReLU 0 1 [] [1]
        else (LayerObj0 kConvolution 2 3 [0] [])\<lparr>lo_weight := Some 0, lo_bias := Some 1, lo_kernel := 2, lo_channels := 1, lo_height := 2,
          lo_width := 2, lo_num_filters := 1, lo_col_data := 8, lo_col_grad := 9\<rparr>), nobj = 2,
     lparams = (\<lambda>a. if a = 0 then demo_param 4 5 else demo_param 6 7), nlparam = 2, lmem = shaped_heap conv_demo_values, ldata = (\<lambda>_. DataObj0)\<rparr>"

lemmas conv_demo_defs = demo_defs conv_demo_shape_def conv_demo_blobs_def conv_demo_values_def conv_demo_def shaped_heap_def

lemma conv_demo_wired: "cv_wired conv_demo_shape conv_demo_blobs 1 conv_demo"
  by (simp add: cv_wired_def cv_shapes_def conv_demo_defs cv_list_def cv_ok_def shape_of_conv_def is_img_def is_cube_def cv_pix_def cv_col_def
      cv_rows_def out_size_def)

lemma conv_demo_apart:
  "apart {..<10} (lmem conv_demo)" "set (cv_list conv_demo_blobs) \<subseteq> {..<10}"
  "b < 10 \<Longrightarrow> contents (lmem conv_demo) b = snd (conv_demo_values ! b)"
proof -
  have "\<forall>v \<in> set conv_demo_values. snd v \<noteq> [] \<and> length (snd v) < 2 ^ 31 \<and> shape_count (fst v) = Inr (int (length (snd v)))"
    by (simp add: conv_demo_values_def shape_count_def is_c_int_def)
  moreover have "length conv_demo_values = 10" "lmem conv_demo = shaped_heap conv_demo_values" by (simp_all add: conv_demo_def conv_demo_values_def)
  ultimately show "apart {..<10} (lmem conv_demo)" "b < 10 \<Longrightarrow> contents (lmem conv_demo) b = snd (conv_demo_values ! b)"
    using shaped_heap_apart [of conv_demo_values] by simp_all
  show "set (cv_list conv_demo_blobs) \<subseteq> {..<10}" by (simp add: cv_list_def conv_demo_blobs_def)
qed

theorem Convolution_convolves_witness:
  "\<exists>h1. Convolution_ComputeFeature 1 conv_demo = Inr (conv_demo\<lparr>lmem := h1\<rparr>) \<and> contents h1 2 ! 0 = 14"
proof -
  have n: "[0..<2] = [0, Suc 0]" "{..<2 :: nat} = {0, Suc 0}" by (auto simp: upt_rec)
  show ?thesis using Convolution_convolves [OF conv_demo_wired conv_demo_apart(1,2)]
    by (auto simp: conv_demo_shape_def conv_demo_blobs_def conv_demo_apart(3) conv_demo_values_def out_size_def pixel_def n)
qed

theorem Convolution_differentiates_witness:
  "\<exists>h2. Convolution_ComputeGradient 1 conv_demo = Inr (conv_demo\<lparr>lmem := h2\<rparr>) \<and>
     vjp (convolve conv_demo_shape [1, 0, 0, 2] [5]) [1, 2, 3, 4] [1] (contents h2 1)"
  using Convolution_differentiates [OF conv_demo_wired conv_demo_apart(1,2)]
  by (auto simp: conv_demo_blobs_def conv_demo_apart(3) conv_demo_values_def)

text \<open>A pooling layer on the same image.\<close>

definition pool_demo_shape :: pool_shape where
  "pool_demo_shape = \<lparr>pl_n = 1, pl_h = 2, pl_w = 2, pl_k = 2, pl_s = 1\<rparr>"

definition pool_demo :: "real lstate" where
  "pool_demo = \<lparr>objs = (\<lambda>l. if l = 0 then LayerObj0 kReLU 0 1 [] [1] else (LayerObj0 kPooling 2 3 [0] [])\<lparr>lo_kernel := 2\<rparr>), nobj = 2,
     lparams = (\<lambda>a. demo_param 4 5), nlparam = 0, lmem = shaped_heap conv_demo_values, ldata = (\<lambda>_. DataObj0)\<rparr>"

lemma pool_demo_wired: "pl_wired 1 1 pool_demo_shape \<lparr>el_x = 0, el_y = 2, el_gy = 3, el_gx = 1\<rparr> 1 pool_demo"
  by (simp add: pl_wired_def pool_demo_def pool_demo_shape_def conv_demo_defs el_list_def shape_of_pool_def pl_ok_def is_img_def pl_oh_def pl_ow_def out_size_def)

theorem Pooling_differentiates_witness:
  "\<exists>h. bindR (Pooling_ComputeFeature 1 pool_demo) (Pooling_ComputeGradient 1) = Inr (pool_demo\<lparr>lmem := h\<rparr>) \<and>
     vjp (max_pool pool_demo_shape) [1, 2, 3, 4] [1] (contents h 1)"
proof -
  have m: "lmem pool_demo = lmem conv_demo" "lo_pool (objs pool_demo 1) = PoolMethod_MAX" by (simp_all add: pool_demo_def conv_demo_def LayerObj0_def)
  have c: "contents (lmem pool_demo) 0 = [1, 2, 3, 4]" "contents (lmem pool_demo) 3 = [1]"
    unfolding m(1) by (simp_all add: conv_demo_apart(3) conv_demo_values_def)
  have n: "[0..<2] = [0, Suc 0]" by (simp add: upt_rec)
  have "dominates pool_demo_shape [1, 2, 3, 4] 0 0 0 1 1"
    by (auto simp: dominates_def pool_demo_shape_def window_def n ent_def FLT_MAX_def)
  then have ok: "max_ok pool_demo_shape [1, 2, 3, 4]"
    by (auto simp: max_ok_def pool_demo_shape_def pl_ok_def pl_oh_def pl_ow_def out_size_def)
  have "set (el_list \<lparr>el_x = 0, el_y = 2, el_gy = 3, el_gx = 1\<rparr>) \<subseteq> {..<10}" by (simp add: el_list_def)
  moreover have "apart {..<10} (lmem pool_demo)" unfolding m(1) by (rule conv_demo_apart)
  ultimately show ?thesis using Pooling_differentiates [OF pool_demo_wired, of "{..<10}"] ok
    by (auto simp: m(2) [simplified] c pool_fwd_def [abs_def])
qed

definition lrn_demo :: "real lstate" where
  "lrn_demo = \<lparr>objs = (\<lambda>l. if l = 0 then LayerObj0 kReLU 0 1 [] [1] else (LayerObj0 kLRN 2 3 [0] [])\<lparr>lo_alpha := 1, lo_beta := 1, lo_knorm := 1, lo_norm := 4\<rparr>), nobj = 2,
     lparams = (\<lambda>a. demo_param 4 5), nlparam = 0, lmem = shaped_heap (replicate 5 ([1, 1, 1, 1], [3])), ldata = (\<lambda>_. DataObj0)\<rparr>"

theorem LRN_differentiates_witness:
  "\<exists>h z. bindR (LRN_ComputeFeature 1 lrn_demo) (LRN_ComputeGradient 1) = Inr (lrn_demo\<lparr>lmem := h\<rparr>) \<and>
     vjp (\<lambda>x. lrn_data z x (lrn_norm z x)) [3] [3] (contents h 1)"
proof -
  let ?z = "\<lparr>lr_n = 1, lr_ch = 1, lr_h = 1, lr_w = 1, lr_size = 1, lr_salpha = 1, lr_beta = 1, lr_knorm = 1\<rparr>"
  let ?c = "\<lparr>lr_x = 0, lr_y = 2, lr_gy = 3, lr_gx = 1, lr_norm = 4\<rparr>"
  let ?vs = "replicate 5 ([1, 1, 1, 1], [3]) :: (int list \<times> real list) list"
  have five: "?vs = [([1, 1, 1, 1], [3]), ([1, 1, 1, 1], [3]), ([1, 1, 1, 1], [3]), ([1, 1, 1, 1], [3]), ([1, 1, 1, 1], [3])]"
    by (simp add: eval_nat_numeral)
  have w: "lr_wired ?z ?c 1 lrn_demo"
    by (simp add: lr_wired_def lrn_demo_def five conv_demo_defs lr_list_def shape_of_lrn_def is_img_def)
  have m: "lmem lrn_demo = shaped_heap ?vs" by (simp add: lrn_demo_def)
  have "\<forall>v \<in> set ?vs. snd v \<noteq> [] \<and> length (snd v) < 2 ^ 31 \<and> shape_count (fst v) = Inr (int (length (snd v)))"
    by (simp add: shape_count_def is_c_int_def)
  from shaped_heap_apart [OF this] have a: "apart {..<5} (lmem lrn_demo)" and c: "b < 5 \<Longrightarrow> contents (lmem lrn_demo) b = [3]" for b
    by (simp_all add: m del: replicate.simps)
  have s: "set (lr_list ?c) \<subseteq> {..<5}" by (simp add: lr_list_def)
  have "lrn_norm ?z [3] = [10]" by (simp add: lrn_norm_def tab_def chpool_def channels_near_def ent_def)
  then show ?thesis using LRN_differentiates [OF w a s] by (auto simp: c)
qed

end
