(* ===== verification/Stack.thy ===== *)
theory Stack
  imports ImageLayers
begin

text \<open>
  Back-propagation through a net: fully connected, convolution, pooling, normalisation, dropout and activation layers stacked
  under a softmax loss. One pass up and one pass down, as \<open>Worker\<close> makes them, end with the derivative of the
  loss in the gradient of every parameter.
\<close>

section \<open>Dropout on the values of the blobs\<close>

definition dropout_mask :: "real \<Rightarrow> nat \<Rightarrow> real list \<Rightarrow> real list" where
  "dropout_mask pdrop n us = map (\<lambda>u. threshold u (1 - pdrop) * (1 / (1 - pdrop))) (take n us)"

definition do_wired :: "nat \<Rightarrow> real list \<Rightarrow> el_blobs \<Rightarrow> nat \<Rightarrow> nat \<Rightarrow> real lstate \<Rightarrow> bool" where
  "do_wired n us c k l s \<longleftrightarrow>
     el_wired n c l s \<and> lo_mask (objs s l) = k \<and> k \<notin> set (el_list c) \<and> bcount (blobs (lmem s) k) = int n \<and> n \<le> length us"

definition do_feature :: "real list \<Rightarrow> el_blobs \<Rightarrow> nat \<Rightarrow> (nat \<Rightarrow> real list) \<Rightarrow> nat \<Rightarrow> real list" where
  "do_feature ms c k v = v(k := ms, el_y c := map2 (*) (v (el_x c)) ms)"

definition do_gradient :: "el_blobs \<Rightarrow> nat \<Rightarrow> (nat \<Rightarrow> real list) \<Rightarrow> nat \<Rightarrow> real list" where
  "do_gradient c k v = v(el_gx c := map2 (*) (v (el_gy c)) (v k))"

lemma do_refines:
  assumes "do_wired n us c k l s" and "set (el_list c) \<subseteq> B" and "k \<in> B"
  shows "refines s B (\<lambda>v. True) (Dropout_ComputeFeature us kTrain l) (do_feature (dropout_mask (lo_pdrop (objs s l)) n us) c k)"
    and "refines s B (\<lambda>v. True) (Dropout_ComputeGradient l) (do_gradient c k)"
proof -
  note d = assms(1) [unfolded do_wired_def]
  note w = d [THEN conjunct1, unfolded el_wired_def]
  have B: "el_x c \<in> B" "el_y c \<in> B" "el_gy c \<in> B" "el_gx c \<in> B" using assms(2) by (auto simp: el_list_def)
  have kx: "el_x c \<noteq> k" using d by (auto simp: el_list_def)
  have src: "src_mutable_data s l 0 kPositive = Inr (Some (el_x c))" "src_mutable_grad s l 0 = Inr (Some (el_gx c))" using w by blast+
  have len: "length (v b) = n" if "hold B (lmem s) v h" "b \<in> set (el_list c) \<or> b = k" for v b h
    using hold_length [OF that(1), of b] that(2) w d assms(2,3) by auto
  let ?ms = "dropout_mask (lo_pdrop (objs s l)) n us"
  have lm: "length ?ms = n" using d by (simp add: dropout_mask_def)
  show "refines s B (\<lambda>v. True) (Dropout_ComputeFeature us kTrain l) (do_feature ?ms c k)"
  proof (rule refines_with_mem)
    let ?p = "\<lambda>h. bindR (bindR (tensor k h) (\<lambda>(ms, h1). blob_write k (dropout_mask (lo_pdrop (objs s l)) (length ms) us) h1)) (\<lambda>h1.
        bindR (tensor k h1) (\<lambda>(ms, h1). bindR (tensor (el_y c) h1) (\<lambda>(ys, h2). bindR (tensor (el_x c) h2) (\<lambda>(xs, h3).
        checkR (length xs = length ms \<and> length ys = length xs) CheckFailed (blob_write (el_y c) (map2 (*) xs ms) h3)))))"
    show "Dropout_ComputeFeature us kTrain l (s\<lparr>lmem := h\<rparr>) = with_mem ?p (s\<lparr>lmem := h\<rparr>)" for h
      using w d by (simp add: Dropout_ComputeFeature_def Let_def deref_def with_mem_def bindR_assoc dropout_mask_def)
    fix v h assume h: "hold B (lmem s) v h"
    show "okR (?p h) (hold B (lmem s) (do_feature ?ms c k v))"
      unfolding bindR_assoc
      apply (rule okR_seq [OF okR_tensor [OF h assms(3)]], clarify)
      apply (simp only: len [OF h] simp_thms)
      apply (rule okR_seq [OF okR_write [OF _ assms(3)]], assumption, simp only: len [OF h] simp_thms lm)
      apply (rule okR_seq [OF okR_tensor [OF _ assms(3)]], assumption, clarify)
      apply (rule okR_seq [OF okR_tensor [OF _ B(2)]], assumption, clarify)
      apply (rule okR_seq [OF okR_tensor [OF _ B(1)]], assumption, clarify)
      using kx d by (auto simp: len [OF h] lm do_feature_def el_list_def intro!: okR_check okR_write B)
  qed
  show "refines s B (\<lambda>v. True) (Dropout_ComputeGradient l) (do_gradient c k)"
  proof (rule refines_with_mem)
    let ?p = "\<lambda>h. bindR (tensor k h) (\<lambda>(ms, h1). bindR (tensor (el_gy c) h1) (\<lambda>(gs, h2). bindR (tensor (el_gx c) h2) (\<lambda>(zs, h3).
        checkR (length gs = length ms \<and> length zs = length gs) CheckFailed (blob_write (el_gx c) (map2 (*) gs ms) h3))))"
    show "Dropout_ComputeGradient l (s\<lparr>lmem := h\<rparr>) = with_mem ?p (s\<lparr>lmem := h\<rparr>)" for h
      using w d by (simp add: Dropout_ComputeGradient_def Let_def deref_def)
    fix v h assume h: "hold B (lmem s) v h"
    show "okR (?p h) (hold B (lmem s) (do_gradient c k v))"
      apply (rule okR_seq [OF okR_tensor [OF h assms(3)]], clarify)
      apply (rule okR_seq [OF okR_tensor [OF _ B(3)]], assumption, clarify)
      apply (rule okR_seq [OF okR_tensor [OF _ B(4)]], assumption, clarify)
      by (auto simp: len [OF h] do_gradient_def el_list_def intro!: okR_check okR_write B)
  qed
qed

section \<open>The layers of a stack\<close>

text \<open>A layer of a stack: its address, shape and the blobs around it.\<close>

datatype link =
    Fc nat nat nat nat fc_blobs
  | Relu nat nat el_blobs
  | Stanh nat nat el_blobs
  | Drop nat nat "real list" "real list" el_blobs nat
  | Conv nat conv_shape cv_blobs
  | Pool nat nat nat PoolMethod pool_shape el_blobs
  | Lrn nat lrn_shape lr_blobs

fun lk_feature :: "link \<Rightarrow> real lstate \<Rightarrow> real lstate res" where
  "lk_feature (Fc l n k m c) = InnerProduct_ComputeFeature l"
| "lk_feature (Relu l n c) = ReLU_ComputeFeature l"
| "lk_feature (Stanh l n c) = Tanh_ComputeFeature l"
| "lk_feature (Drop l n us ms c k) = Dropout_ComputeFeature us kTrain l"
| "lk_feature (Conv l z c) = Convolution_ComputeFeature l"
| "lk_feature (Pool l n ch m z c) = Pooling_ComputeFeature l"
| "lk_feature (Lrn l z c) = LRN_ComputeFeature l"

fun lk_gradient :: "link \<Rightarrow> real lstate \<Rightarrow> real lstate res" where
  "lk_gradient (Fc l n k m c) = InnerProduct_ComputeGradient l"
| "lk_gradient (Relu l n c) = ReLU_ComputeGradient l"
| "lk_gradient (Stanh l n c) = Tanh_ComputeGradient l"
| "lk_gradient (Drop l n us ms c k) = Dropout_ComputeGradient l"
| "lk_gradient (Conv l z c) = Convolution_ComputeGradient l"
| "lk_gradient (Pool l n ch m z c) = Pooling_ComputeGradient l"
| "lk_gradient (Lrn l z c) = LRN_ComputeGradient l"

fun lk_wired :: "real lstate \<Rightarrow> link \<Rightarrow> bool" where
  "lk_wired s (Fc l n k m c) = fc_wired n k m c l s"
| "lk_wired s (Relu l n c) = el_wired n c l s"
| "lk_wired s (Stanh l n c) = el_wired n c l s"
| "lk_wired s (Drop l n us ms c k) = (do_wired n us c k l s \<and> ms = dropout_mask (lo_pdrop (objs s l)) n us)"
| "lk_wired s (Conv l z c) = cv_wired z c l s"
| "lk_wired s (Pool l n ch m z c) = (pl_wired n ch z c l s \<and> m = lo_pool (objs s l))"
| "lk_wired s (Lrn l z c) = lr_wired z c l s"

fun lk_x :: "link \<Rightarrow> nat" and lk_y :: "link \<Rightarrow> nat" and lk_gy :: "link \<Rightarrow> nat" where
  "lk_x (Fc l n k m c) = fc_x c" | "lk_x (Relu l n c) = el_x c" | "lk_x (Stanh l n c) = el_x c" | "lk_x (Drop l n us ms c k) = el_x c"
| "lk_x (Conv l z c) = cv_bx c" | "lk_x (Pool l n ch m z c) = el_x c" | "lk_x (Lrn l z c) = lr_x c"
| "lk_y (Fc l n k m c) = fc_y c" | "lk_y (Relu l n c) = el_y c" | "lk_y (Stanh l n c) = el_y c" | "lk_y (Drop l n us ms c k) = el_y c"
| "lk_y (Conv l z c) = cv_by c" | "lk_y (Pool l n ch m z c) = el_y c" | "lk_y (Lrn l z c) = lr_y c"
| "lk_gy (Fc l n k m c) = fc_gy c" | "lk_gy (Relu l n c) = el_gy c" | "lk_gy (Stanh l n c) = el_gy c" | "lk_gy (Drop l n us ms c k) = el_gy c"
| "lk_gy (Conv l z c) = cv_bgy c" | "lk_gy (Pool l n ch m z c) = el_gy c" | "lk_gy (Lrn l z c) = lr_gy c"

fun lk_gx :: "link \<Rightarrow> nat option" where
  "lk_gx (Fc l n k m c) = fc_gx c" | "lk_gx (Relu l n c) = Some (el_gx c)" | "lk_gx (Stanh l n c) = Some (el_gx c)"
| "lk_gx (Drop l n us ms c k) = Some (el_gx c)" | "lk_gx (Conv l z c) = cv_bgx c" | "lk_gx (Pool l n ch m z c) = Some (el_gx c)"
| "lk_gx (Lrn l z c) = Some (lr_gx c)"

fun lk_params :: "link \<Rightarrow> (nat \<times> nat) list" where
  "lk_params (Fc l n k m c) = [(fc_w c, fc_gw c), (fc_b c, fc_gb c)]"
| "lk_params (Conv l z c) = [(cv_bw c, cv_bgw c), (cv_bb c, cv_bgb c)]"
| "lk_params lk = []"

text \<open>Blobs that a layer keeps for itself, and those that belong to it.\<close>

fun lk_scratch :: "link \<Rightarrow> nat list" where
  "lk_scratch (Drop l n us ms c k) = [k]"
| "lk_scratch (Conv l z c) = [cv_bcol c, cv_bgcol c]"
| "lk_scratch (Lrn l z c) = [lr_norm c]"
| "lk_scratch lk = []"

definition lk_own :: "link \<Rightarrow> nat list" where
  "lk_own lk = [lk_y lk, lk_gy lk] @ map fst (lk_params lk) @ map snd (lk_params lk) @ lk_scratch lk"

fun lk_fwd :: "link \<Rightarrow> (nat \<Rightarrow> real list) \<Rightarrow> real list \<Rightarrow> real list" where
  "lk_fwd (Fc l n k m c) v = affine n k m (v (fc_w c)) (v (fc_b c))"
| "lk_fwd (Relu l n c) v = map relu"
| "lk_fwd (Stanh l n c) v = map stanh"
| "lk_fwd (Drop l n us ms c k) v = (\<lambda>x. map2 (*) x ms)"
| "lk_fwd (Conv l z c) v = convolve z (v (cv_bw c)) (v (cv_bb c))"
| "lk_fwd (Pool l n ch m z c) v = pool_fwd m z"
| "lk_fwd (Lrn l z c) v = (\<lambda>x. lrn_data z x (lrn_norm z x))"

text \<open>Where a layer is differentiable.\<close>

fun lk_ok :: "link \<Rightarrow> (nat \<Rightarrow> real list) \<Rightarrow> real list \<Rightarrow> bool" where
  "lk_ok (Fc l n k m c) v x \<longleftrightarrow> length x = n * k \<and> length (v (fc_w c)) = k * m \<and> length (v (fc_b c)) = m"
| "lk_ok (Relu l n c) v x \<longleftrightarrow> (\<forall>a \<in> set x. a \<noteq> 0)"
| "lk_ok (Stanh l n c) v x \<longleftrightarrow> True"
| "lk_ok (Drop l n us ms c k) v x \<longleftrightarrow> length x = length ms"
| "lk_ok (Conv l z c) v x \<longleftrightarrow> convolve_ok z (v (cv_bw c)) (v (cv_bb c)) x"
| "lk_ok (Pool l n ch m z c) v x \<longleftrightarrow> pl_ok z \<and> length x = pl_n z * pl_h z * pl_w z \<and> (m = PoolMethod_MAX \<longrightarrow> max_ok z x)"
| "lk_ok (Lrn l z c) v x \<longleftrightarrow> lrn_ok z x"

text \<open>What the two methods do to the values.\<close>

fun lk_F :: "link \<Rightarrow> (nat \<Rightarrow> real list) \<Rightarrow> nat \<Rightarrow> real list" where
  "lk_F (Fc l n k m c) v = fc_feature n k m c v"
| "lk_F (Relu l n c) v = el_feature relu c v"
| "lk_F (Stanh l n c) v = el_feature stanh c v"
| "lk_F (Drop l n us ms c k) v = do_feature ms c k v"
| "lk_F (Conv l z c) v = cv_feature z c v"
| "lk_F (Pool l n ch m z c) v = pl_feature m z c v"
| "lk_F (Lrn l z c) v = lr_feature z c v"

fun lk_G :: "link \<Rightarrow> (nat \<Rightarrow> real list) \<Rightarrow> nat \<Rightarrow> real list" where
  "lk_G (Fc l n k m c) v = fc_gradient n k m c v"
| "lk_G (Relu l n c) v = el_gradient relu_grad c v"
| "lk_G (Stanh l n c) v = el_gradient stanh_grad c v"
| "lk_G (Drop l n us ms c k) v = do_gradient c k v"
| "lk_G (Conv l z c) v = cv_gradient z c v"
| "lk_G (Pool l n ch m z c) v = pl_gradient m z c v"
| "lk_G (Lrn l z c) v = lr_gradient z c v"

text \<open>What a backward pass relies on: what the forward pass kept, and the room for the gradient of the source.\<close>

fun lk_kept :: "link \<Rightarrow> (nat \<Rightarrow> real list) \<Rightarrow> bool" where
  "lk_kept (Drop l n us ms c k) v \<longleftrightarrow> v k = ms"
| "lk_kept (Lrn l z c) v \<longleftrightarrow> v (lr_norm c) = lrn_norm z (v (lr_x c))"
| "lk_kept lk v \<longleftrightarrow> True"

fun lk_room :: "link \<Rightarrow> (nat \<Rightarrow> real list) \<Rightarrow> bool" where
  "lk_room (Conv l z c) v \<longleftrightarrow> (\<forall>g \<in> set_option (cv_bgx c). length (v g) = cv_n z * (cv_rows z * cv_w z))"
| "lk_room lk v \<longleftrightarrow> True"

definition lk_blobs :: "link \<Rightarrow> nat set" where
  "lk_blobs lk = {lk_x lk} \<union> set_option (lk_gx lk) \<union> set (lk_own lk)"

lemma lk_F_y: "lk_F lk v (lk_y lk) = lk_fwd lk v (v (lk_x lk))"
  by (cases lk) (simp_all add: fc_feature_def el_feature_def do_feature_def cv_feature_def pl_feature_def lr_feature_def)

lemma lk_F_other: "d \<noteq> lk_y lk \<Longrightarrow> d \<notin> set (lk_scratch lk) \<Longrightarrow> lk_F lk v d = v d"
  by (cases lk) (simp_all add: fc_feature_def el_feature_def do_feature_def cv_feature_def pl_feature_def lr_feature_def cv_fill_def)

lemma lk_F_kept: "distinct (lk_x lk # lk_own lk) \<Longrightarrow> lk_kept lk (lk_F lk v)"
  by (cases lk) (auto simp: do_feature_def lr_feature_def lk_own_def)

lemma lk_kept_cong: "v (lk_x lk) = v' (lk_x lk) \<Longrightarrow> (\<And>d. d \<in> set (lk_scratch lk) \<Longrightarrow> v d = v' d) \<Longrightarrow> lk_kept lk v = lk_kept lk v'"
  by (cases lk) simp_all

lemma lk_room_cong: "(\<And>g. g \<in> set_option (lk_gx lk) \<Longrightarrow> v g = v' g) \<Longrightarrow> lk_room lk v = lk_room lk v'"
  by (cases lk) auto

lemma lk_fwd_cong: "(\<And>d. d \<in> set (map fst (lk_params lk)) \<Longrightarrow> v d = v' d) \<Longrightarrow> lk_fwd lk v = lk_fwd lk v'"
  by (cases lk) simp_all

lemma lk_ok_cong: "(\<And>d. d \<in> set (map fst (lk_params lk)) \<Longrightarrow> v d = v' d) \<Longrightarrow> lk_ok lk v x = lk_ok lk v' x"
  by (cases lk) simp_all

lemma lk_refines:
  assumes "lk_wired s lk" and "lk_blobs lk \<subseteq> B"
  shows "refines s B (\<lambda>v. True) (lk_feature lk) (lk_F lk)" and "refines s B (\<lambda>v. True) (lk_gradient lk) (lk_G lk)"
proof -
  have eta: "lk_F (Fc l n k m c) = fc_feature n k m c" "lk_F (Relu l n e) = el_feature relu e" "lk_F (Stanh l n e) = el_feature stanh e"
    "lk_F (Drop l n us ms e k) = do_feature ms e k" "lk_F (Conv l z cc) = cv_feature z cc" "lk_F (Pool l n ch mm zz e) = pl_feature mm zz e"
    "lk_F (Lrn l zl cl) = lr_feature zl cl"
    "lk_G (Fc l n k m c) = fc_gradient n k m c" "lk_G (Relu l n e) = el_gradient relu_grad e" "lk_G (Stanh l n e) = el_gradient stanh_grad e"
    "lk_G (Drop l n us ms e k) = do_gradient e k" "lk_G (Conv l z cc) = cv_gradient z cc" "lk_G (Pool l n ch mm zz e) = pl_gradient mm zz e"
    "lk_G (Lrn l zl cl) = lr_gradient zl cl" for l n k m c e us ms z cc ch mm zz zl cl
    by (simp_all add: fun_eq_iff)
  have "refines s B (\<lambda>v. True) (lk_feature lk) (lk_F lk) \<and> refines s B (\<lambda>v. True) (lk_gradient lk) (lk_G lk)"
  proof (cases lk)
    case (Fc l n k m c)
    have "set (fc_list c) \<subseteq> B" using assms(2) Fc by (auto simp: lk_blobs_def lk_own_def fc_list_def split: option.splits)
    then show ?thesis using fc_refines [of n k m c l s B] assms(1) Fc by (simp add: eta)
  next
    case (Relu l n c)
    have "set (el_list c) \<subseteq> B" using assms(2) Relu by (auto simp: lk_blobs_def lk_own_def el_list_def)
    then show ?thesis using el_refines [of n c l s B] assms(1) Relu
      by (simp add: eta ReLU_ComputeFeature_def ReLU_ComputeGradient_def)
  next
    case (Stanh l n c)
    have "set (el_list c) \<subseteq> B" using assms(2) Stanh by (auto simp: lk_blobs_def lk_own_def el_list_def)
    then show ?thesis using el_refines [of n c l s B] assms(1) Stanh
      by (simp add: eta Tanh_ComputeFeature_def Tanh_ComputeGradient_def)
  next
    case (Drop l n us ms c k)
    have "set (el_list c) \<subseteq> B" "k \<in> B" using assms(2) Drop by (auto simp: lk_blobs_def lk_own_def el_list_def)
    then show ?thesis using do_refines [of n us c k l s B] assms(1) Drop by (simp add: eta)
  next
    case (Conv l z c)
    have "set (cv_list c) \<subseteq> B" using assms(2) Conv by (auto simp: lk_blobs_def lk_own_def cv_list_def split: option.splits)
    then show ?thesis using cv_refines_feature [of z c l s B] cv_refines_gradient [of z c l s B] assms(1) Conv by (simp add: eta)
  next
    case (Pool l n ch m z c)
    have "set (el_list c) \<subseteq> B" using assms(2) Pool by (auto simp: lk_blobs_def lk_own_def el_list_def)
    then show ?thesis using pl_refines [of n ch z c l s B] assms(1) Pool by (simp add: eta)
  next
    case (Lrn l z c)
    have "set (lr_list c) \<subseteq> B" using assms(2) Lrn by (auto simp: lk_blobs_def lk_own_def lr_list_def)
    then show ?thesis using lr_refines [of z c l s B] assms(1) Lrn by (simp add: eta)
  qed
  then show "refines s B (\<lambda>v. True) (lk_feature lk) (lk_F lk)" "refines s B (\<lambda>v. True) (lk_gradient lk) (lk_G lk)" by blast+
qed

lemma lk_wired_room:
  assumes "lk_wired s lk" and "apart B (lmem s)" and "lk_blobs lk \<subseteq> B"
  shows "lk_room lk (contents (lmem s))"
proof (cases lk)
  case (Conv l z c)
  then have w: "cv_wired z c l s" using assms(1) by simp
  have "length (contents (lmem s) g) = cv_n z * (cv_rows z * cv_w z)" if "cv_bgx c = Some g" for g
  proof -
    have "g \<in> B" using assms(3) Conv that by (auto simp: lk_blobs_def)
    then show ?thesis using apartD(6) [OF assms(2)] cv_shapesD(10) [OF cv_wiredD(18) [OF w] that] by (simp add: nat_mult_distrib mult.assoc)
  qed
  then show ?thesis using Conv by auto
qed simp_all

text \<open>A backward pass writes the gradients of source and parameters and may use the scratch blobs.\<close>

lemma cv_gradient_other:
  assumes "d \<notin> {cv_bgw c, cv_bgb c, cv_bcol c, cv_bgcol c} \<union> set_option (cv_bgx c)"
  shows "cv_gradient z c v d = v d"
proof -
  have "fold (cv_gstep z c) ns w d = w d" for ns w
    by (induction ns arbitrary: w) (use assms in \<open>auto simp: cv_gstep_def cv_fill_def Let_def split: option.splits\<close>)
  then show ?thesis using assms by (simp add: cv_gradient_def)
qed

lemma lk_G_other:
  assumes "d \<notin> set_option (lk_gx lk)" and "d \<notin> set (map snd (lk_params lk))" and "d \<notin> set (lk_scratch lk)"
  shows "lk_G lk v d = v d"
proof (cases lk)
  case (Conv l z c)
  then show ?thesis using cv_gradient_other [of d c z v] assms by simp
qed (use assms in \<open>auto simp: fc_gradient_def el_gradient_def do_gradient_def pl_gradient_def lr_gradient_def Let_def split: option.splits\<close>)

interpretation pooling: diff_layer "pool_fwd m z" "\<lambda>x g. pool_bwd m z x (pool_fwd m z x) g"
  "\<lambda>x. pl_ok z \<and> length x = pl_n z * pl_h z * pl_w z \<and> (m = PoolMethod_MAX \<longrightarrow> max_ok z x)" for m z
  by unfold_locales (auto intro: pool_fwd_vjp)

text \<open>One layer: from the gradient of \<open>f\<close> by its output to those by its input and parameters.\<close>

lemma link_input:
  assumes "lk_ok lk v (v (lk_x lk))" and "v (lk_y lk) = lk_fwd lk v (v (lk_x lk))" and "vjp f (v (lk_y lk)) [1] (v (lk_gy lk))"
    and "distinct ((case lk_gx lk of None \<Rightarrow> [] | Some g \<Rightarrow> [g]) @ lk_x lk # lk_own lk)" and "lk_kept lk v" and "lk_room lk v" and "lk_gx lk = Some gx"
  shows "vjp (\<lambda>x. f (lk_fwd lk v x)) (v (lk_x lk)) [1] (lk_G lk v gx)"
proof -
  have lg: "length (v (lk_gy lk)) = length (lk_fwd lk v (v (lk_x lk)))" using assms(2,3) by (simp add: vjp_def)
  have f: "vjp f (lk_fwd lk v (v (lk_x lk))) [1] (v (lk_gy lk))" using assms(2,3) by simp
  show ?thesis
  proof (cases lk)
    case (Fc l n k m c)
    then have "lk_G lk v gx = dot n m k (ent m (v (fc_gy c))) (\<lambda>i j. ent m (v (fc_w c)) j i)"
      using assms(7) by (simp add: fc_gradient_def Let_def)
    then show ?thesis
      using vjp_compose [OF affine_x.diff_layer_axioms _ f [unfolded Fc lk_fwd.simps lk_x.simps lk_gy.simps] affine_x.bwd_vjp] assms(1) lg Fc
      by simp
  next
    case (Relu l n c)
    then have "lk_G lk v gx = map2 (\<lambda>y g. relu_grad y * g) (map relu (v (el_x c))) (v (el_gy c))"
      using assms(2,7) by (simp add: el_gradient_def)
    then show ?thesis
      using vjp_compose [OF relu.diff_layer_axioms _ f [unfolded Relu lk_fwd.simps]] relu.bwd_vjp assms(1) lg Relu by simp
  next
    case (Stanh l n c)
    then have "lk_G lk v gx = map2 (\<lambda>y g. stanh_grad y * g) (map stanh (v (el_x c))) (v (el_gy c))"
      using assms(2,7) by (simp add: el_gradient_def)
    then show ?thesis
      using vjp_compose [OF stanh.diff_layer_axioms _ f [unfolded Stanh lk_fwd.simps]] stanh.bwd_vjp assms(1) lg Stanh by simp
  next
    case (Drop l n us ms c k)
    then have "lk_G lk v gx = map2 (*) (v (el_gy c)) ms" using assms(5,7) by (simp add: do_gradient_def)
    then show ?thesis
      using vjp_compose [OF dropout.diff_layer_axioms _ f [unfolded Drop lk_fwd.simps]] dropout.bwd_vjp assms(1) lg Drop by simp
  next
    case (Conv l z c)
    have dc: "distinct (cv_list c)" using assms(4) Conv by (auto simp: cv_list_def lk_own_def split: option.splits)
    have "lk_G lk v gx = convolve_gx z (v (cv_bw c)) (v (cv_bgy c))"
      using cv_gradient_at(3) [OF dc, of v z] assms(6,7) Conv by simp
    then show ?thesis
      using vjp_compose [OF conv_x.diff_layer_axioms _ f [unfolded Conv lk_fwd.simps lk_x.simps lk_gy.simps] conv_x.bwd_vjp] assms(1) lg Conv by simp
  next
    case (Pool l n ch m z c)
    then have "lk_G lk v gx = pool_bwd m z (v (el_x c)) (pool_fwd m z (v (el_x c))) (v (el_gy c))"
      using assms(2,7) by (simp add: pl_gradient_def)
    then show ?thesis
      using vjp_compose [OF pooling.diff_layer_axioms _ f [unfolded Pool lk_fwd.simps]] pooling.bwd_vjp assms(1) lg Pool by simp
  next
    case (Lrn l z c)
    have "lk_G lk v gx = lrn_gx z (v (lr_x c)) (lrn_norm z (v (lr_x c))) (v (lr_gy c))"
      using assms(5,7) Lrn by (simp add: lr_gradient_def)
    then show ?thesis
      using vjp_compose [OF lrn.diff_layer_axioms _ f [unfolded Lrn lk_fwd.simps]] lrn.bwd_vjp assms(1) lg Lrn by simp
  qed
qed

lemma link_param:
  assumes "lk_ok lk v (v (lk_x lk))" and "v (lk_y lk) = lk_fwd lk v (v (lk_x lk))" and "vjp f (v (lk_y lk)) [1] (v (lk_gy lk))"
    and "distinct ((case lk_gx lk of None \<Rightarrow> [] | Some g \<Rightarrow> [g]) @ lk_x lk # lk_own lk)" and "lk_room lk v" and "(p, gp) \<in> set (lk_params lk)"
  shows "vjp (\<lambda>w. f (lk_fwd lk (v(p := w)) (v (lk_x lk)))) (v p) [1] (lk_G lk v gp)"
proof -
  have lg: "length (v (lk_gy lk)) = length (lk_fwd lk v (v (lk_x lk)))" using assms(2,3) by (simp add: vjp_def)
  have f: "vjp f (lk_fwd lk v (v (lk_x lk))) [1] (v (lk_gy lk))" using assms(2,3) by simp
  show ?thesis
  proof (cases lk)
    case (Fc l n k m c)
    note fc = f [unfolded Fc lk_fwd.simps lk_x.simps lk_gy.simps]
    have ne: "fc_w c \<noteq> fc_b c" "fc_gw c \<noteq> fc_gb c" "\<forall>g \<in> set_option (fc_gx c). g \<noteq> fc_gw c \<and> g \<noteq> fc_gb c"
      using assms(4) Fc by (auto simp: lk_own_def)
    consider "p = fc_w c" "gp = fc_gw c" | "p = fc_b c" "gp = fc_gb c" using assms(6) Fc by auto
    then show ?thesis
    proof cases
      case 1
      have "lk_G lk v gp = dot k n m (\<lambda>i j. ent k (v (fc_x c)) j i) (ent m (v (fc_gy c)))"
        using 1 ne Fc by (auto simp: fc_gradient_def Let_def split: option.splits)
      then show ?thesis using vjp_compose [OF affine_w.diff_layer_axioms _ fc affine_w.bwd_vjp] assms(1) lg Fc 1 ne by simp
    next
      case 2
      have "lk_G lk v gp = sum_rows n m (v (fc_gy c))"
        using 2 ne Fc by (auto simp: fc_gradient_def Let_def split: option.splits)
      then show ?thesis using vjp_compose [OF affine_b.diff_layer_axioms _ fc affine_b.bwd_vjp] assms(1) lg Fc 2 ne by simp
    qed
  next
    case (Conv l z c)
    note cv = f [unfolded Conv lk_fwd.simps lk_x.simps lk_gy.simps]
    have dc: "distinct (cv_list c)" and ne: "cv_bw c \<noteq> cv_bb c"
      using assms(4) Conv by (auto simp: cv_list_def lk_own_def split: option.splits)
    note at = cv_gradient_at [OF dc, of v z]
    consider "p = cv_bw c" "gp = cv_bgw c" | "p = cv_bb c" "gp = cv_bgb c" using assms(6) Conv by auto
    then show ?thesis
    proof cases
      case 1
      have "lk_G lk v gp = convolve_gw z (v (cv_bx c)) (v (cv_bgy c))" using at(1) assms(5) Conv 1 by simp
      then show ?thesis using vjp_compose [OF conv_w.diff_layer_axioms _ cv conv_w.bwd_vjp] assms(1) lg Conv 1 ne by simp
    next
      case 2
      have "lk_G lk v gp = convolve_gb z (v (cv_bgy c))" using at(2) assms(5) Conv 2 by simp
      then show ?thesis using vjp_compose [OF conv_b.diff_layer_axioms _ cv conv_b.bwd_vjp] assms(1) lg Conv 2 ne by simp
    qed
  qed (use assms(6) in auto)
qed

section \<open>Back-propagation\<close>

lemma refines_fold:
  assumes "\<forall>x \<in> set xs. refines s B (\<lambda>v. True) (run x) (upd x)" and "hold B (lmem s) v h"
  shows "\<exists>h1. foldR (\<lambda>s x. run x s) (s\<lparr>lmem := h\<rparr>) xs = Inr (s\<lparr>lmem := h1\<rparr>) \<and> hold B (lmem s) (fold upd xs v) h1"
  using assms
proof (induction xs arbitrary: v h)
  case (Cons x xs)
  obtain h1 where h1: "run x (s\<lparr>lmem := h\<rparr>) = Inr (s\<lparr>lmem := h1\<rparr>)" "hold B (lmem s) (upd x v) h1"
    using refinesD [of s B "\<lambda>v. True" "run x" "upd x" v h] Cons.prems by auto
  show ?case using Cons.IH [OF _ h1(2)] Cons.prems(1) h1(1) by auto
qed auto

text \<open>The loss on top of a stack.\<close>

record sm_top =
  top_l :: nat
  top_n :: nat
  top_m :: nat
  top_sc :: real
  top_c :: sm_blobs

definition top_T :: "sm_top \<Rightarrow> (nat \<Rightarrow> real list) \<Rightarrow> nat \<Rightarrow> real list" where
  "top_T u v = sm_gradient (top_n u) (top_m u) (top_sc u) (top_c u) (sm_feature (top_n u) (top_m u) (top_c u) v)"

definition top_loss :: "sm_top \<Rightarrow> (nat \<Rightarrow> real list) \<Rightarrow> real list \<Rightarrow> real list" where
  "top_loss u v y = [batch_loss (top_n u) (top_m u) (label_of (v (sm_lab (top_c u)))) (top_sc u) y]"

fun head_x :: "link list \<Rightarrow> sm_top \<Rightarrow> nat" where
  "head_x [] u = sm_x (top_c u)"
| "head_x (lk # lks) u = lk_x lk"

fun head_gx :: "link list \<Rightarrow> sm_top \<Rightarrow> nat option" where
  "head_gx [] u = Some (sm_gx (top_c u))"
| "head_gx (lk # lks) u = lk_gx lk"

fun linked :: "link list \<Rightarrow> sm_top \<Rightarrow> bool" where
  "linked [] u = True"
| "linked (lk # lks) u = (head_x lks u = lk_y lk \<and> head_gx lks u = Some (lk_gy lk) \<and> linked lks u)"

text \<open>All blobs of a stack: the input, its gradient, those of the layers and those of the loss.\<close>

definition stack_blobs :: "link list \<Rightarrow> sm_top \<Rightarrow> nat list" where
  "stack_blobs lks u = head_x lks u # (case head_gx lks u of None \<Rightarrow> [] | Some g \<Rightarrow> [g]) @ concat (map lk_own lks) @
     [sm_lab (top_c u), sm_p (top_c u)]"

text \<open>What the stack computes from its input, and when it is differentiable there.\<close>

fun stack_fwd :: "link list \<Rightarrow> (nat \<Rightarrow> real list) \<Rightarrow> real list \<Rightarrow> real list" where
  "stack_fwd [] v x = x"
| "stack_fwd (lk # lks) v x = stack_fwd lks v (lk_fwd lk v x)"

fun stack_ok :: "link list \<Rightarrow> sm_top \<Rightarrow> (nat \<Rightarrow> real list) \<Rightarrow> real list \<Rightarrow> bool" where
  "stack_ok [] u v x \<longleftrightarrow> confident (top_n u) (top_m u) (label_of (v (sm_lab (top_c u)))) x"
| "stack_ok (lk # lks) u v x \<longleftrightarrow> lk_ok lk v x \<and> stack_ok lks u v (lk_fwd lk v x)"

fun stack_pass :: "link list \<Rightarrow> sm_top \<Rightarrow> (nat \<Rightarrow> real list) \<Rightarrow> nat \<Rightarrow> real list" where
  "stack_pass [] u v = top_T u v"
| "stack_pass (lk # lks) u v = lk_G lk (stack_pass lks u (lk_F lk v))"

lemma stack_pass_eq: "stack_pass lks u v = fold lk_G (rev lks) (top_T u (fold lk_F lks v))"
  by (induction lks arbitrary: v) simp_all

definition param_blobs :: "link list \<Rightarrow> nat set" where
  "param_blobs lks = set (map fst (concat (map lk_params lks)))"

lemma stack_fwd_cong: "(\<And>d. d \<in> param_blobs lks \<Longrightarrow> v d = v' d) \<Longrightarrow> stack_fwd lks v x = stack_fwd lks v' x"
proof (induction lks arbitrary: x)
  case (Cons lk lks)
  have "lk_fwd lk v = lk_fwd lk v'" by (rule lk_fwd_cong) (use Cons.prems in \<open>auto simp: param_blobs_def\<close>)
  moreover have "stack_fwd lks v y = stack_fwd lks v' y" for y by (rule Cons.IH) (use Cons.prems in \<open>auto simp: param_blobs_def\<close>)
  ultimately show ?case by simp
qed simp

lemma stack_ok_cong:
  "(\<And>d. d \<in> param_blobs lks \<Longrightarrow> v d = v' d) \<Longrightarrow> v (sm_lab (top_c u)) = v' (sm_lab (top_c u)) \<Longrightarrow> stack_ok lks u v x = stack_ok lks u v' x"
proof (induction lks arbitrary: x)
  case (Cons lk lks)
  have p: "\<And>d. d \<in> set (map fst (lk_params lk)) \<Longrightarrow> v d = v' d" using Cons.prems(1) by (auto simp: param_blobs_def)
  have "stack_ok lks u v y = stack_ok lks u v' y" for y by (rule Cons.IH) (use Cons.prems in \<open>auto simp: param_blobs_def\<close>)
  then show ?case using lk_fwd_cong [OF p] lk_ok_cong [OF p] by auto
qed simp

text \<open>Blobs that a pass over the stack writes.\<close>

definition written :: "link list \<Rightarrow> sm_top \<Rightarrow> nat set" where
  "written lks u = set_option (head_gx lks u) \<union> (\<Union>lk \<in> set lks. {lk_y lk, lk_gy lk} \<union> set (map snd (lk_params lk)) \<union> set (lk_scratch lk)) \<union> {sm_p (top_c u)}"

lemma stack_pass_frame: "linked lks u \<Longrightarrow> d \<notin> written lks u \<Longrightarrow> stack_pass lks u v d = v d"
proof (induction lks arbitrary: v)
  case Nil
  then show ?case by (simp add: written_def top_T_def sm_gradient_def sm_feature_def)
next
  case (Cons lk lks)
  have "stack_pass lks u (lk_F lk v) d = lk_F lk v d"
    by (rule Cons.IH) (use Cons.prems in \<open>auto simp: written_def\<close>)
  moreover have "lk_G lk w d = w d" for w by (rule lk_G_other) (use Cons.prems(2) in \<open>auto simp: written_def\<close>)
  moreover have "lk_F lk v d = v d" by (rule lk_F_other) (use Cons.prems(2) in \<open>auto simp: written_def\<close>)
  ultimately show ?case by simp
qed

lemma top_backprop:
  assumes "distinct (stack_blobs [] u)" and "stack_ok [] u v (v (sm_x (top_c u)))"
  shows "vjp (top_loss u v) (v (sm_x (top_c u))) [1] (top_T u v (sm_gx (top_c u)))"
proof -
  let ?c = "top_c u" and ?lab = "label_of (v (sm_lab (top_c u)))"
  have c: "confident (top_n u) (top_m u) ?lab (v (sm_x ?c))" using assms(2) by simp
  have "top_T u v (sm_gx ?c) = loss_gradient (top_n u) (top_m u) ?lab (top_sc u) (v (sm_x ?c))"
    using assms(1) by (simp add: top_T_def sm_gradient_def sm_feature_def loss_gradient_def stack_blobs_def)
  moreover have "top_loss u v = (\<lambda>y. [batch_loss (top_n u) (top_m u) ?lab (top_sc u) y])" by (simp add: fun_eq_iff top_loss_def)
  ultimately show ?thesis using batch_loss_vjp [OF c] by simp
qed

text \<open>What the order of the blobs keeps apart in a stack with \<open>lk\<close> at the bottom.\<close>

lemma linked_gx: "linked lks u \<Longrightarrow> lk \<in> set lks \<Longrightarrow> set_option (lk_gx lk) \<subseteq> set_option (head_gx lks u) \<union> set (concat (map lk_own lks))"
proof (induction lks)
  case (Cons k ks)
  show ?case
  proof (cases "lk = k")
    case False
    then have "set_option (lk_gx lk) \<subseteq> {lk_gy k} \<union> set (concat (map lk_own ks))" using Cons by auto
    then show ?thesis by (auto simp: lk_own_def)
  qed auto
qed simp

lemma stack_sep:
  assumes "linked (lk # lks) u" and "distinct (stack_blobs (lk # lks) u)"
  defines "K \<equiv> insert (lk_y lk) (set (lk_scratch lk))" and "P \<equiv> set (map fst (lk_params lk))"
  shows "distinct (stack_blobs lks u)" and "distinct ((case lk_gx lk of None \<Rightarrow> [] | Some g \<Rightarrow> [g]) @ lk_x lk # lk_own lk)"
    and "K \<inter> param_blobs lks = {}" "sm_lab (top_c u) \<notin> K" "lk_x lk \<notin> K" "K \<inter> P = {}"
    and "k \<in> set lks \<Longrightarrow> K \<inter> set_option (lk_gx k) = {}"
    and "written lks u \<inter> (insert (lk_x lk) (K \<union> P)) = {}"
    and "(p, gp) \<in> set (concat (map lk_params lks)) \<Longrightarrow> p \<notin> K \<and> p \<notin> P"
    and "(p, gp) \<in> set (concat (map lk_params lks)) \<Longrightarrow>
      gp \<notin> set_option (lk_gx lk) \<and> gp \<notin> set (map snd (lk_params lk)) \<and> gp \<notin> set (lk_scratch lk)"
    and "P \<inter> param_blobs lks = {}" and "set_option (lk_gx lk) \<inter> (K \<union> written lks u) = {}"
proof -
  let ?T = "set (concat (map lk_own lks))" and ?own = "set (lk_own lk)"
  have lk: "head_x lks u = lk_y lk" "head_gx lks u = Some (lk_gy lk)" "linked lks u" using assms(1) by auto
  have d: "distinct (lk_x lk # (case lk_gx lk of None \<Rightarrow> [] | Some g \<Rightarrow> [g]) @ lk_own lk @ concat (map lk_own lks) @ [sm_lab (top_c u), sm_p (top_c u)])"
    using assms(2) by (simp add: stack_blobs_def)
  then show "distinct (stack_blobs lks u)" using lk(1,2) by (simp add: stack_blobs_def lk_own_def)
  show "distinct ((case lk_gx lk of None \<Rightarrow> [] | Some g \<Rightarrow> [g]) @ lk_x lk # lk_own lk)" using d by (cases "lk_gx lk") auto
  have dd: "distinct (lk_own lk)" using d by simp
  have own: "?own = K \<union> {lk_gy lk} \<union> P \<union> set (map snd (lk_params lk))" by (auto simp: lk_own_def K_def P_def simp del: set_map)
  have own2: "lk_gy lk \<notin> K \<union> P" "K \<inter> P = {}"
    using dd unfolding lk_own_def distinct_append K_def P_def by auto
  show "K \<inter> P = {}" by (rule own2(2))
  have sep: "?own \<inter> ?T = {}" "sm_lab (top_c u) \<notin> ?own" "sm_p (top_c u) \<notin> ?own" "lk_x lk \<notin> ?own" "lk_x lk \<notin> ?T" "lk_x lk \<noteq> sm_p (top_c u)"
    "\<forall>g \<in> set_option (lk_gx lk). g \<notin> ?T \<and> g \<notin> ?own \<and> g \<noteq> sm_p (top_c u)" using d by (auto split: option.splits)
  have par: "param_blobs lks \<subseteq> ?T" by (force simp: param_blobs_def lk_own_def)
  have wr: "written lks u \<subseteq> {lk_gy lk} \<union> ?T \<union> {sm_p (top_c u)}" using lk(2) by (force simp: written_def lk_own_def)
  show "K \<inter> param_blobs lks = {}" "P \<inter> param_blobs lks = {}" using par sep(1) own by blast+
  show "sm_lab (top_c u) \<notin> K" "lk_x lk \<notin> K" using sep(2,4) own by blast+
  show "K \<inter> set_option (lk_gx k) = {}" if "k \<in> set lks"
    using linked_gx [OF lk(3) that] lk(2) sep(1) own own2 by auto
  have "lk_x lk \<noteq> lk_gy lk" using sep(4) own by blast
  then show "written lks u \<inter> (insert (lk_x lk) (K \<union> P)) = {}" using wr sep own own2 by blast
  show "set_option (lk_gx lk) \<inter> (K \<union> written lks u) = {}" using wr sep(7) own by blast
  assume "(p, gp) \<in> set (concat (map lk_params lks))"
  then have T: "p \<in> ?T" "gp \<in> ?T" by (force simp: lk_own_def)+
  then show "p \<notin> K \<and> p \<notin> P" using sep(1) own by blast
  have "set (lk_scratch lk) \<subseteq> K" by (auto simp: K_def)
  then show "gp \<notin> set_option (lk_gx lk) \<and> gp \<notin> set (map snd (lk_params lk)) \<and> gp \<notin> set (lk_scratch lk)"
    using T(2) sep(1,7) own by blast
qed

text \<open>The values in the middle of a pass: the forward pass of the bottom layer, then everything above it.\<close>

lemma stack_middle:
  fixes v :: "nat \<Rightarrow> real list"
  assumes "linked (lk # lks) u" and "distinct (stack_blobs (lk # lks) u)"
  defines "v1 \<equiv> lk_F lk v" and "v2 \<equiv> stack_pass lks u (lk_F lk v)"
  shows "stack_fwd lks v1 z = stack_fwd lks v z" and "top_loss u v1 = top_loss u v"
    and "v1 (head_x lks u) = lk_fwd lk v (v (lk_x lk))"
    and "stack_ok (lk # lks) u v (v (lk_x lk)) \<Longrightarrow> stack_ok lks u v1 (v1 (head_x lks u))"
    and "k \<in> set lks \<Longrightarrow> lk_room k v \<Longrightarrow> lk_room k v1"
    and "v2 (lk_x lk) = v (lk_x lk)" "v2 (lk_y lk) = lk_fwd lk v (v (lk_x lk))"
    and "p \<in> set (map fst (lk_params lk)) \<Longrightarrow> v2 p = v p" and "lk_kept lk v2"
    and "(p, gp) \<in> set (concat (map lk_params lks)) \<Longrightarrow> v1 p = v p"
    and "e \<in> param_blobs lks \<Longrightarrow> v1 e = v e" and "lk_room lk v \<Longrightarrow> lk_room lk v2"
proof -
  note sep = stack_sep [OF assms(1,2)]
  have v1o: "v1 e = v e" if "e \<notin> insert (lk_y lk) (set (lk_scratch lk))" for e using that by (simp add: v1_def lk_F_other)
  show y: "v1 (head_x lks u) = lk_fwd lk v (v (lk_x lk))" using assms(1) by (simp add: v1_def lk_F_y)
  show v1p: "v1 e = v e" if "e \<in> param_blobs lks" for e using v1o sep(3) that by blast
  show "stack_fwd lks v1 z = stack_fwd lks v z" by (rule stack_fwd_cong) (rule v1p)
  show "top_loss u v1 = top_loss u v" using v1o [OF sep(4)] by (simp add: fun_eq_iff top_loss_def)
  show "stack_ok lks u v1 (v1 (head_x lks u))" if "stack_ok (lk # lks) u v (v (lk_x lk))"
    using that stack_ok_cong [of lks v1 v u, OF v1p v1o [OF sep(4)]] y by simp
  show "lk_room k v1" if "k \<in> set lks" "lk_room k v"
    using lk_room_cong [of k v1 v] that v1o sep(7) [OF that(1)] by blast
  show "v1 p = v p" if "(p, gp) \<in> set (concat (map lk_params lks))" using v1o sep(9) [OF that] by blast
  have keep: "v2 e = v1 e" if "e \<notin> written lks u" for e
    using stack_pass_frame [of lks u e] assms(1) that by (simp add: v2_def v1_def)
  show "lk_room lk v2" if "lk_room lk v" 
  proof -
    have "v2 g = v g" if g: "g \<in> set_option (lk_gx lk)" for g
    proof -
      have "g \<notin> written lks u" "g \<notin> insert (lk_y lk) (set (lk_scratch lk))" using sep(12) g by auto
      then show ?thesis using keep v1o by simp
    qed
    then show ?thesis using that lk_room_cong [of lk v2 v] by simp
  qed
  have free: "lk_x lk \<notin> written lks u" "lk_y lk \<notin> written lks u" "e \<in> set (map fst (lk_params lk)) \<union> set (lk_scratch lk) \<Longrightarrow> e \<notin> written lks u" for e
    using sep(8) by auto
  have x: "v1 (lk_x lk) = v (lk_x lk)" using v1o [OF sep(5)] .
  show "v2 (lk_x lk) = v (lk_x lk)" using keep [OF free(1)] x by simp
  show "v2 (lk_y lk) = lk_fwd lk v (v (lk_x lk))" using keep [OF free(2)] y assms(1) by simp
  show "v2 p = v p" if p: "p \<in> set (map fst (lk_params lk))"
  proof -
    have "p \<notin> insert (lk_y lk) (set (lk_scratch lk))" using sep(6) p by blast
    then show ?thesis using keep [OF free(3)] v1o p by simp
  qed
  have "lk_kept lk v1" unfolding v1_def by (rule lk_F_kept) (use sep(2) in auto)
  moreover have "v2 e = v1 e" if "e \<in> insert (lk_x lk) (set (lk_scratch lk))" for e using keep [OF free(1)] keep [OF free(3)] that by auto
  ultimately show "lk_kept lk v2" using lk_kept_cong [of v2 lk v1] by simp
qed

lemma stack_backprop:
  assumes "linked lks u" and "distinct (stack_blobs lks u)" and "stack_ok lks u v (v (head_x lks u))"
    and "\<forall>lk \<in> set lks. lk_room lk v"
  shows "(\<forall>gx. head_gx lks u = Some gx \<longrightarrow>
      vjp (\<lambda>x. top_loss u v (stack_fwd lks v x)) (v (head_x lks u)) [1] (stack_pass lks u v gx)) \<and>
    (\<forall>p gp. (p, gp) \<in> set (concat (map lk_params lks)) \<longrightarrow>
      vjp (\<lambda>w. top_loss u v (stack_fwd lks (v(p := w)) (v (head_x lks u)))) (v p) [1] (stack_pass lks u v gp))"
  using assms
proof (induction lks arbitrary: v)
  case Nil
  then show ?case using top_backprop [of u v] by simp
next
  case (Cons lk lks)
  let ?x = "lk_x lk" and ?v1 = "lk_F lk v" and ?f = "\<lambda>z. top_loss u v (stack_fwd lks v z)"
  define v2 where "v2 = stack_pass lks u ?v1"
  note sep = stack_sep [OF Cons.prems(1,2)] and mid = stack_middle [OF Cons.prems(1,2), where v = v, folded v2_def]
  have lk: "head_x lks u = lk_y lk" "head_gx lks u = Some (lk_gy lk)" "linked lks u" using Cons.prems(1) by auto
  have "stack_ok lks u ?v1 (?v1 (head_x lks u))" and "\<forall>k \<in> set lks. lk_room k ?v1" using mid(4,5) Cons.prems(3,4) by auto
  from Cons.IH [OF lk(3) sep(1) this, unfolded mid(1,2,3), folded v2_def]
  have IH: "vjp ?f (lk_fwd lk v (v ?x)) [1] (v2 (lk_gy lk))"
    "\<And>p gp. (p, gp) \<in> set (concat (map lk_params lks)) \<Longrightarrow>
      vjp (\<lambda>w. top_loss u v (stack_fwd lks (?v1(p := w)) (lk_fwd lk v (v ?x)))) (?v1 p) [1] (v2 gp)" using lk(2) by blast+
  have fw2: "lk_fwd lk v2 = lk_fwd lk v" by (rule lk_fwd_cong) (rule mid(8))
  have ok2: "lk_ok lk v2 (v2 ?x)" using Cons.prems(3) mid(6) lk_ok_cong [of lk v2 v "v ?x", OF mid(8)] by simp
  have room: "lk_room lk v2" using Cons.prems(4) mid(12) by simp
  have pass: "stack_pass (lk # lks) u v = lk_G lk v2" by (simp add: v2_def)
  have y2: "v2 (lk_y lk) = lk_fwd lk v2 (v2 ?x)" and f2: "vjp ?f (v2 (lk_y lk)) [1] (v2 (lk_gy lk))" using mid(6,7) fw2 IH(1) by simp_all
  show ?case
  proof (intro conjI allI impI)
    fix gx assume "head_gx (lk # lks) u = Some gx"
    then show "vjp (\<lambda>x. top_loss u v (stack_fwd (lk # lks) v x)) (v (head_x (lk # lks) u)) [1] (stack_pass (lk # lks) u v gx)"
      using link_input [OF ok2 y2 f2 sep(2) mid(9) room] pass mid(6) fw2 by simp
  next
    fix p gp assume "(p, gp) \<in> set (concat (map lk_params (lk # lks)))"
    then consider (own) "(p, gp) \<in> set (lk_params lk)" | (tail) "(p, gp) \<in> set (concat (map lk_params lks))" by auto
    then show "vjp (\<lambda>w. top_loss u v (stack_fwd (lk # lks) (v(p := w)) (v (head_x (lk # lks) u)))) (v p) [1]
        (stack_pass (lk # lks) u v gp)"
    proof cases
      case own
      then have pin: "p \<in> set (map fst (lk_params lk))" by force
      have 1: "stack_fwd lks (v(p := w)) z = stack_fwd lks v z" for w z by (rule stack_fwd_cong) (use sep(11) pin in auto)
      have 2: "lk_fwd lk (v2(p := w)) = lk_fwd lk (v(p := w))" for w by (rule lk_fwd_cong) (use mid(8) in auto)
      show ?thesis using link_param [OF ok2 y2 f2 sep(2) room own] pass mid(6) mid(8) [OF pin] 1 2 by simp
    next
      case tail
      have 1: "lk_fwd lk (v(p := w)) = lk_fwd lk v" for w by (rule lk_fwd_cong) (use sep(9) [OF tail] in auto)
      have 2: "stack_fwd lks (?v1(p := w)) z = stack_fwd lks (v(p := w)) z" for w z by (rule stack_fwd_cong) (simp add: mid(11))
      have "lk_G lk v2 gp = v2 gp" by (rule lk_G_other) (use sep(10) [OF tail] in auto)
      then show ?thesis using IH(2) [OF tail] pass mid(10) [OF tail] 1 2 by simp
    qed
  qed
qed

lemma fold_F:
  "linked lks u \<Longrightarrow> distinct (stack_blobs lks u) \<Longrightarrow>
   fold lk_F lks v (sm_x (top_c u)) = stack_fwd lks v (v (head_x lks u)) \<and>
   fold lk_F lks v (sm_lab (top_c u)) = v (sm_lab (top_c u))"
proof (induction lks arbitrary: v)
  case (Cons lk lks)
  note sep = stack_sep [OF Cons.prems] and mid = stack_middle [OF Cons.prems, where v = v]
  have "lk_F lk v (sm_lab (top_c u)) = v (sm_lab (top_c u))" by (rule lk_F_other) (use sep(4) in auto)
  then show ?case using Cons.IH [OF _ sep(1), of "lk_F lk v"] mid(1,3) Cons.prems(1) by simp
qed simp

text \<open>
  A pass over a stack as the worker makes it: features from the bottom to the top, gradients back down.
\<close>

definition bp_pass :: "link list \<Rightarrow> nat \<Rightarrow> real metric \<Rightarrow> real lstate \<Rightarrow> (real metric \<times> real lstate) res" where
  "bp_pass lks l pf s =
     bindR (foldR (\<lambda>s lk. lk_feature lk s) s lks) (\<lambda>s1.
     bindR (SoftmaxLoss_ComputeFeature l pf s1) (\<lambda>(pf1, s2).
     bindR (SoftmaxLoss_ComputeGradient l s2) (\<lambda>s3.
     bindR (foldR (\<lambda>s lk. lk_gradient lk s) s3 (rev lks)) (\<lambda>s4. Inr (pf1, s4)))))"

definition stack_wired :: "link list \<Rightarrow> sm_top \<Rightarrow> real lstate \<Rightarrow> bool" where
  "stack_wired lks u s \<longleftrightarrow> (\<forall>lk \<in> set lks. lk_wired s lk) \<and> linked lks u \<and> distinct (stack_blobs lks u) \<and>
     sm_wired (top_n u) (top_m u) (top_c u) (top_l u) s \<and> top_sc u = lo_scale (objs s (top_l u)) \<and>
     apart (set (stack_blobs lks u)) (lmem s)"

lemma stack_lk_blobs:
  assumes "linked lks u"
  shows "\<forall>lk \<in> set lks. lk_blobs lk \<subseteq> set (stack_blobs lks u)" "set (sm_list (top_c u)) \<subseteq> set (stack_blobs lks u)"
proof -
  have "(\<forall>lk \<in> set lks. lk_blobs lk \<subseteq> set (stack_blobs lks u)) \<and> set (sm_list (top_c u)) \<subseteq> set (stack_blobs lks u)"
    using assms
  proof (induction lks)
    case (Cons lk lks)
    have "set (stack_blobs lks u) \<subseteq> set (stack_blobs (lk # lks) u)" using Cons.prems by (auto simp: stack_blobs_def lk_own_def)
    moreover have "lk_blobs lk \<subseteq> set (stack_blobs (lk # lks) u)" by (auto simp: lk_blobs_def stack_blobs_def)
    ultimately show ?case using Cons by auto
  qed (auto simp: stack_blobs_def sm_list_def)
  then show "\<forall>lk \<in> set lks. lk_blobs lk \<subseteq> set (stack_blobs lks u)" "set (sm_list (top_c u)) \<subseteq> set (stack_blobs lks u)" by blast+
qed

lemma bp_pass_refines:
  assumes "stack_wired lks u s" and "labels_ok (top_n u) (top_m u) (contents (lmem s) (sm_lab (top_c u)))"
  shows "\<exists>acc h1. bp_pass lks (top_l u) pf s = Inr (Metric_Add ''accuracy'' acc
      (Metric_Add ''loss'' (top_loss u (contents (lmem s)) (stack_fwd lks (contents (lmem s)) (contents (lmem s) (head_x lks u))) ! 0) pf), s\<lparr>lmem := h1\<rparr>) \<and>
    hold (set (stack_blobs lks u)) (lmem s) (stack_pass lks u (contents (lmem s))) h1"
proof -
  let ?B = "set (stack_blobs lks u)" and ?v = "contents (lmem s)" and ?c = "top_c u" and ?l = "top_l u"
  note w = assms(1) [unfolded stack_wired_def]
  have lk: "\<forall>lk \<in> set lks. refines s ?B (\<lambda>v. True) (lk_feature lk) (lk_F lk)"
    "\<forall>lk \<in> set (rev lks). refines s ?B (\<lambda>v. True) (lk_gradient lk) (lk_G lk)"
    using lk_refines [of s _ ?B] stack_lk_blobs(1) [of lks u] w by auto
  have top: "set (sm_list ?c) \<subseteq> ?B" using stack_lk_blobs(2) w by blast
  let ?v1 = "fold lk_F lks ?v"
  have v1: "?v1 (sm_x ?c) = stack_fwd lks ?v (?v (head_x lks u))" "?v1 (sm_lab ?c) = ?v (sm_lab ?c)" using fold_F w by auto
  have "hold ?B (lmem s) ?v (lmem s)" using w by (intro hold_start) simp
  then obtain h1 where h1: "foldR (\<lambda>s lk. lk_feature lk s) s lks = Inr (s\<lparr>lmem := h1\<rparr>)" "hold ?B (lmem s) ?v1 h1"
    using refines_fold [OF lk(1), of ?v "lmem s"] by auto
  obtain acc h2 where h2: "SoftmaxLoss_ComputeFeature ?l pf (s\<lparr>lmem := h1\<rparr>) = Inr (Metric_Add ''accuracy'' acc
      (Metric_Add ''loss'' (batch_loss (top_n u) (top_m u) (label_of (?v1 (sm_lab ?c))) (lo_scale (objs s ?l)) (?v1 (sm_x ?c))) pf), s\<lparr>lmem := h2\<rparr>)"
    "hold ?B (lmem s) (sm_feature (top_n u) (top_m u) ?c ?v1) h2"
    using okR_SoftmaxLoss_feature [OF _ top h1(2), of "top_n u" "top_m u" ?l pf] w assms(2) v1(2)
    by (auto simp: sm_feature_def elim!: okRE)
  have lab: "labels_ok (top_n u) (top_m u) (sm_feature (top_n u) (top_m u) ?c ?v1 (sm_lab ?c))"
    using assms(2) v1(2) w by (auto simp: sm_feature_def sm_wired_def sm_list_def)
  obtain h3 where h3: "SoftmaxLoss_ComputeGradient ?l (s\<lparr>lmem := h2\<rparr>) = Inr (s\<lparr>lmem := h3\<rparr>)" "hold ?B (lmem s) (top_T u ?v1) h3"
    using refinesD [OF sm_refines [OF _ top] lab h2(2)] w by (auto simp: top_T_def)
  obtain h4 where h4: "foldR (\<lambda>s lk. lk_gradient lk s) (s\<lparr>lmem := h3\<rparr>) (rev lks) = Inr (s\<lparr>lmem := h4\<rparr>)"
    "hold ?B (lmem s) (stack_pass lks u ?v) h4"
    using refines_fold [OF lk(2) h3(2)] by (auto simp: stack_pass_eq)
  show ?thesis using h1(1) h2(1) h3(1) h4 v1 w by (auto simp: bp_pass_def top_loss_def)
qed

text \<open>
  C1. Back-propagation is correct: on a stack of fully connected, convolution, pooling, normalisation, dropout, rectifier and tanh layers
  under a softmax loss, the features computed from the bottom up and the gradients computed back down end with the derivative of
  the reported loss by every weight and bias in the gradient of that parameter. Every layer is differentiable at its input (no
  rectifier sees a zero, every window of a maximum has one largest pixel) and no probability of a label is clamped.
\<close>
theorem backprop_correct:
  fixes s :: "real lstate"
  assumes "stack_wired lks u s"
  defines "v \<equiv> contents (lmem s)"
  defines "L \<equiv> \<lambda>v. batch_loss (top_n u) (top_m u) (label_of (v (sm_lab (top_c u)))) (top_sc u) (stack_fwd lks v (v (head_x lks u)))"
  assumes "labels_ok (top_n u) (top_m u) (v (sm_lab (top_c u)))" and "stack_ok lks u v (v (head_x lks u))"
  shows "\<exists>acc h1. bp_pass lks (top_l u) pf s = Inr (Metric_Add ''accuracy'' acc (Metric_Add ''loss'' (L v) pf), s\<lparr>lmem := h1\<rparr>) \<and>
    (\<forall>(p, gp) \<in> set (concat (map lk_params lks)). \<forall>i < length (v p).
      ((\<lambda>t. L (v(p := (v p)[i := t]))) has_real_derivative contents h1 gp ! i) (at (v p ! i)))"
proof -
  let ?B = "set (stack_blobs lks u)"
  note w = assms(1) [unfolded stack_wired_def]
  obtain acc h1 where h1: "bp_pass lks (top_l u) pf s = Inr (Metric_Add ''accuracy'' acc (Metric_Add ''loss'' (L v) pf), s\<lparr>lmem := h1\<rparr>)"
    "hold ?B (lmem s) (stack_pass lks u v) h1"
    using bp_pass_refines [OF assms(1) assms(4) [unfolded v_def], of pf] by (auto simp: v_def L_def top_loss_def)
  have room: "\<forall>lk \<in> set lks. lk_room lk v"
    using lk_wired_room [of s _ ?B] stack_lk_blobs(1) [of lks u] w by (auto simp: v_def)
  have "((\<lambda>t. L (v(p := (v p)[i := t]))) has_real_derivative contents h1 gp ! i) (at (v p ! i))"
    if p: "(p, gp) \<in> set (concat (map lk_params lks))" and i: "i < length (v p)" for p gp i
  proof -
    have in_own: "{p, gp} \<subseteq> set (concat (map lk_own lks))" using p by (force simp: lk_own_def)
    then have ne: "p \<noteq> sm_lab (top_c u)" "p \<noteq> head_x lks u" "gp \<in> ?B" using w by (auto simp: stack_blobs_def)
    have "vjp (\<lambda>w. top_loss u v (stack_fwd lks (v(p := w)) (v (head_x lks u)))) (v p) [1] (contents h1 gp)"
      using stack_backprop [of lks u v] w assms(5) room p holdD [OF h1(2) ne(3)] by auto
    from vjp_partial [OF this i] show ?thesis using ne(1,2) by (simp add: inner_def top_loss_def L_def)
  qed
  then show ?thesis using h1(1) by blast
qed

text \<open>A fully connected layer, a tanh and the softmax loss on one record with one feature, two classes and the label 1.\<close>

definition stack_demo :: "real lstate" where
  "stack_demo = \<lparr>objs = (\<lambda>l. if l = 0 then LayerObj0 kReLU 0 1 [] [1]
        else if l = 1 then (LayerObj0 kInnerProduct 2 3 [0] [2])\<lparr>lo_weight := Some 0, lo_bias := Some 1\<rparr>
        else if l = 2 then LayerObj0 kTanh 8 9 [1] [4]
        else if l = 3 then LayerObj0 kLabel 10 10 [] [4]
        else (LayerObj0 kSoftmaxLoss 11 11 [2, 3] [])\<lparr>lo_dim := 2\<rparr>), nobj = 5,
     lparams = (\<lambda>a. if a = 0 then demo_param 4 5 else demo_param 6 7), nlparam = 2,
     lmem = row_heap [[3], [0], [0, 0], [0, 0], [2, 2], [0, 0], [1, 1], [0, 0], [0, 0], [0, 0], [1], [0, 0]], ldata = (\<lambda>_. DataObj0)\<rparr>"

definition stack_demo_links :: "link list" where
  "stack_demo_links = [Fc 1 1 1 2 fc_demo_blobs, Stanh 2 2 \<lparr>el_x = 2, el_y = 8, el_gy = 9, el_gx = 3\<rparr>]"

definition stack_demo_top :: sm_top where
  "stack_demo_top = \<lparr>top_l = 4, top_n = 1, top_m = 2, top_sc = 1, top_c = \<lparr>sm_x = 8, sm_lab = 10, sm_p = 11, sm_gx = 9\<rparr>\<rparr>"

lemmas stack_demo_defs = demo_defs stack_demo_def stack_demo_links_def stack_demo_top_def

lemma stack_demo_wired: "stack_wired stack_demo_links stack_demo_top stack_demo"
proof -
  let ?vs = "[[3], [0], [0, 0], [0, 0], [2, 2], [0, 0], [1, 1], [0, 0], [0, 0], [0, 0], [1], [0, 0]] :: real list list"
  have m: "lmem stack_demo = row_heap ?vs" by (simp add: stack_demo_def)
  have a: "apart {..<length ?vs} (lmem stack_demo)" unfolding m by (rule row_heap_apart) simp
  have B: "set (stack_blobs stack_demo_links stack_demo_top) = {..<length ?vs}"
    by (simp add: stack_blobs_def stack_demo_links_def stack_demo_top_def lk_own_def fc_demo_blobs_def eval_nat_numeral)
      (simp only: lessThan_Suc lessThan_0, blast)
  have "linked stack_demo_links stack_demo_top" "distinct (stack_blobs stack_demo_links stack_demo_top)"
    by (simp_all add: stack_demo_links_def stack_demo_top_def fc_demo_blobs_def stack_blobs_def lk_own_def)
  moreover have "\<forall>lk \<in> set stack_demo_links. lk_wired stack_demo lk"
    by (simp add: stack_demo_defs fc_wired_def el_wired_def fc_list_def el_list_def)
  moreover have "sm_wired 1 2 (top_c stack_demo_top) 4 stack_demo"
    by (simp add: stack_demo_defs sm_wired_def sm_list_def)
  moreover have "top_sc stack_demo_top = lo_scale (objs stack_demo 4)" by (simp add: stack_demo_defs)
  ultimately show ?thesis using a unfolding stack_wired_def B by (simp add: stack_demo_top_def)
qed

lemma stack_demo_contents:
  "contents (lmem stack_demo) 0 = [3]" "contents (lmem stack_demo) 4 = [2, 2]" "contents (lmem stack_demo) 6 = [1, 1]"
  "contents (lmem stack_demo) 10 = [1]"
  by (simp_all add: stack_demo_def row_heap_def contents_def block_of_def)

text \<open>The derivative of the loss by the first weight: the label is the other class, and both classes have the same probability.\<close>

theorem backprop_correct_witness:
  "\<exists>pf1 h1. bp_pass stack_demo_links 4 Map.empty stack_demo = Inr (pf1, stack_demo\<lparr>lmem := h1\<rparr>) \<and>
     ((\<lambda>t. batch_loss 1 2 (label_of [1]) 1 (map stanh (affine 1 1 2 [t, 2] [1, 1] [3]))) has_real_derivative contents h1 5 ! 0) (at 2)"
proof -
  let ?v = "contents (lmem stack_demo)"
  have lab: "labels_ok 1 2 [1]" by (simp add: labels_ok_def float_to_int_def)
  have "affine 1 1 2 [2, 2] [1, 1] [3] = [7, 7 :: real]"
    by (simp add: affine_def add_repmat_def tab_def ent_def dot_def fsum_def numeral_2_eq_2)
  then have ok: "stack_ok stack_demo_links stack_demo_top ?v (?v 0)"
    by (simp add: stack_demo_links_def stack_demo_top_def fc_demo_blobs_def stack_demo_contents confident_def label_of_def float_to_int_def
        Softmax_tab tab_def numeral_2_eq_2 FLT_MIN_def)
  have "head_x stack_demo_links stack_demo_top = 0" by (simp add: stack_demo_links_def fc_demo_blobs_def)
  then show ?thesis using backprop_correct [OF stack_demo_wired, of Map.empty] lab ok
    by (auto simp: stack_demo_links_def stack_demo_top_def fc_demo_blobs_def stack_demo_contents All_less_Suc)
qed

end
