(* ===== verification/LayerSetup.thy ===== *)
theory LayerSetup
  imports Stack
begin

text \<open>
  The \<open>Setup\<close> methods of the layers (\<open>src/src/neuralnet/layer.cc\<close>, \<open>src/src/neuralnet/base_layer.cc\<close>): from the configuration
  and the shapes of the source layers they derive the shapes of the blobs and parameters of a layer.\<close>

section \<open>Configuration\<close>

text \<open>What the getters return for fields that are not set.\<close>

definition LayerConf_default :: "real LayerConf" where
  "LayerConf_default = \<lparr>conv_num_filters = 0, conv_kernel = 0, conv_pad = 0, conv_stride = 1, sharddata_path = [], sharddata_batchsize = 0,
     sharddata_random_skip = 0, mnist_norm_a = 1, mnist_norm_b = 0, mnist_resize = 0, dropout_ratio = 1 / 2, rbmvis_num_output = 0,
     rbmhid_hid_dim = 0, innerproduct_num_output = 0, lrn_local_size = 5, lrn_alpha = 1, lrn_beta = 3 / 4, lrn_knorm = 1, pooling_kernel = 0,
     pooling_pool = PoolMethod_MAX, pooling_stride = 1, softmaxloss_topk = 1, softmaxloss_scale = 1, rgbimage_scale = 1,
     rgbimage_cropsize = 0, rgbimage_mirror = False, rgbimage_meanfile = None, input_path = [], output_path = [], output_topk = 1,
     output_scale = 1\<rparr>"

definition conf :: "real LayerProto \<Rightarrow> real LayerConf" where
  "conf lp = (case lp_conf lp of None \<Rightarrow> LayerConf_default | Some c \<Rightarrow> c)"

text \<open>An \<open>int\<close> that is computed.\<close>

definition intR :: "int \<Rightarrow> int res" where
  "intR x = checkR (is_c_int x) Undefined (Inr x)"

definition divR :: "int \<Rightarrow> int \<Rightarrow> int res" where
  "divR a b = checkR (b \<noteq> 0) Undefined (intR (a sdiv b))"

section \<open>Objects\<close>

text \<open>
  \<open>Factory::Create\<close> of a layer: its members that are blobs are empty, the pointers to parameters are not valid and the numbers are
  those of \<open>raw\<close>.
\<close>

definition Layer_new :: "'f LayerObj \<Rightarrow> LayerType \<Rightarrow> ('f :: {zero, one, uminus}) lstate \<Rightarrow> nat \<times> 'f lstate" where
  "Layer_new raw t s =
     (let b = nblob (lmem s) in
      (nobj s, s\<lparr>objs := (objs s)(nobj s := raw\<lparr>lo_type := t, layer_proto := LayerProto_default, lo_data := b, lo_grad := b + 1,
           lo_metric := b + 2, lo_mask := b + 3, lo_sample := b + 4, lo_col_data := b + 5, lo_col_grad := b + 6, lo_norm := b + 7, lo_mean := b + 8,
           lo_srclayers := [], lo_dstlayers := [], lo_weight := None, lo_bias := None, lo_datavec := [], lo_gradvec := [],
           lo_datablobs := [], lo_sublayers := []\<rparr>),
         nobj := nobj s + 1, lmem := ((\<lambda>h. snd (Blob_new h)) ^^ 9) (lmem s)\<rparr>))"

definition Param_create :: "('f :: {zero, one, uminus}) lstate \<Rightarrow> nat \<times> 'f lstate" where
  "Param_create s =
     (let (p, h) = Param_new (lmem s) in
      (nlparam s, s\<lparr>lparams := (lparams s)(nlparam s := p), nlparam := nlparam s + 1, lmem := h\<rparr>))"

definition setup_param :: "nat \<Rightarrow> 'f ParamProto \<Rightarrow> int list \<Rightarrow> 'f lstate \<Rightarrow> 'f lstate res" where
  "setup_param a pr sh s =
     bindR (Param_Setup pr sh (lparams s a) (lmem s)) (\<lambda>(p, h). Inr (s\<lparr>lparams := (lparams s)(a := p), lmem := h\<rparr>))"

text \<open>\<open>weight_\<close> and \<open>bias_\<close> are created and set up with the first two parameters of the configuration.\<close>

definition setup_weights :: "'f LayerProto \<Rightarrow> int list \<Rightarrow> int list \<Rightarrow> nat \<Rightarrow> ('f :: {zero, one, uminus}) lstate \<Rightarrow> 'f lstate res" where
  "setup_weights lp wsh bsh l s =
     (let (w, s1) = Param_create s; (b, s2) = Param_create s1 in
      bindR (idxR (lp_param lp) 0) (\<lambda>p0.
      bindR (setup_param w p0 wsh (upd_obj l (\<lambda>o1. o1\<lparr>lo_weight := Some w, lo_bias := Some b\<rparr>) s2)) (\<lambda>s3.
      bindR (idxR (lp_param lp) 1) (\<lambda>p1. setup_param b p1 bsh s3))))"

definition reshape :: "nat \<Rightarrow> int list \<Rightarrow> 'f lstate \<Rightarrow> 'f lstate res" where
  "reshape b sh = with_mem (Reshape b sh)"

definition shape_at :: "'f lstate \<Rightarrow> nat \<Rightarrow> int list" where
  "shape_at s b = shape (blobs (lmem s) b)"

definition count_at :: "'f lstate \<Rightarrow> nat \<Rightarrow> int" where
  "count_at s b = bcount (blobs (lmem s) b)"

definition src_grad :: "'f lstate \<Rightarrow> nat \<Rightarrow> int \<Rightarrow> nat res" where
  "src_grad s l i = bindR (src_of s l i) (\<lambda>src. layer_grad (Suc (nobj s)) s src (Some l))"

section \<open>Setup\<close>

definition Layer_Setup :: "'f LayerProto \<Rightarrow> int \<Rightarrow> nat \<Rightarrow> 'f lstate \<Rightarrow> 'f lstate res" where
  "Layer_Setup lp np l s = checkR (1 \<le> np) CheckFailed (Inr (upd_obj l (\<lambda>o1. o1\<lparr>layer_proto := lp\<rparr>) s))"

text \<open>\<open>data_\<close> and \<open>grad_\<close> with one shape.\<close>

definition reshape_both :: "nat \<Rightarrow> int list \<Rightarrow> 'f lstate \<Rightarrow> 'f lstate res" where
  "reshape_both l sh s = bindR (reshape (lo_data (objs s l)) sh s) (reshape (lo_grad (objs s l)) sh)"

definition InnerProduct_Setup :: "real LayerProto \<Rightarrow> int \<Rightarrow> nat \<Rightarrow> real lstate \<Rightarrow> real lstate res" where
  "InnerProduct_Setup lp np l s0 =
     bindR (Layer_Setup lp np l s0) (\<lambda>s.
     checkR (length (lo_srclayers (objs s l)) = 1) CheckFailed
     (bindR (src_data s l 0 kPositive) (\<lambda>src.
      bindR (idxR (shape_at s src) 0) (\<lambda>n.
      bindR (divR (count_at s src) n) (\<lambda>k.
      let out = innerproduct_num_output (conf lp) in
      bindR (if 0 < partition_dim lp then divR out np else Inr out) (\<lambda>m.
      bindR (reshape_both l [n, m] (upd_obj l (\<lambda>o1. o1\<lparr>lo_batchsize := n, lo_vdim := k, lo_hdim := m\<rparr>) s))
        (setup_weights lp [k, m] [m] l)))))))"

text \<open>The size of one side of the output of a convolution.\<close>

definition conv_side :: "int \<Rightarrow> int \<Rightarrow> int \<Rightarrow> int \<Rightarrow> int res" where
  "conv_side d p k str =
     bindR (intR (2 * p)) (\<lambda>p2. bindR (intR (d + p2)) (\<lambda>a. bindR (intR (a - k)) (\<lambda>b. bindR (divR b str) (\<lambda>q. intR (q + 1)))))"

text \<open>Width, height and channels of a source: the last dimensions of its shape.\<close>

definition src_image :: "int list \<Rightarrow> (int \<times> int \<times> int) res" where
  "src_image sh =
     (let dim = int (length sh) in
      checkR (2 < dim) CheckFailed
      (bindR (idxR sh (dim - 1)) (\<lambda>w. bindR (idxR sh (dim - 2)) (\<lambda>h.
       bindR (if 3 < dim then idxR sh (dim - 3) else Inr 1) (\<lambda>c. Inr (c, h, w))))))"

definition Convolution_Setup :: "real LayerProto \<Rightarrow> int \<Rightarrow> nat \<Rightarrow> real lstate \<Rightarrow> real lstate res" where
  "Convolution_Setup lp np l s0 =
     bindR (Layer_Setup lp np l s0) (\<lambda>s.
     let k = conv_kernel (conf lp); p = conv_pad (conf lp); str = conv_stride (conf lp); nf = conv_num_filters (conf lp) in
     checkR (0 < k) CheckFailed
     (bindR (if 0 < partition_dim lp then divR nf np else Inr nf) (\<lambda>f.
      bindR (src_data s l 0 kPositive) (\<lambda>src.
      bindR (src_image (shape_at s src)) (\<lambda>(c, h, w).
      bindR (idxR (shape_at s src) 0) (\<lambda>n.
      bindR (conv_side h p k str) (\<lambda>ch. bindR (conv_side w p k str) (\<lambda>cw.
      bindR (bindR (intR (c * k)) (\<lambda>x. intR (x * k))) (\<lambda>colh.
      bindR (intR (ch * cw)) (\<lambda>colw.
      bindR (reshape_both l [n, f, ch, cw] (upd_obj l (\<lambda>o1. o1\<lparr>lo_kernel := k, lo_pad := p, lo_stride := str, lo_num_filters := f,
          lo_width := w, lo_height := h, lo_channels := c, lo_batchsize := n, lo_conv_height := ch, lo_conv_width := cw,
          lo_col_height := colh, lo_col_width := colw\<rparr>) s)) (\<lambda>s1.
      bindR (reshape (lo_col_data (objs s1 l)) [colh, colw] s1) (\<lambda>s2.
      bindR (reshape (lo_col_grad (objs s2 l)) [colh, colw] s2)
        (setup_weights lp [f, colh] [f] l)))))))))))))"

text \<open>\<open>ReshapeLike\<close> after the source and its gradient.\<close>

definition like_source :: "nat \<Rightarrow> (real lstate \<Rightarrow> nat res) \<Rightarrow> real lstate \<Rightarrow> real lstate res" where
  "like_source l gsrc s =
     bindR (src_data s l 0 kPositive) (\<lambda>src.
     bindR (reshape (lo_data (objs s l)) (shape_at s src) s) (\<lambda>s1.
     bindR (gsrc s1) (\<lambda>g. reshape (lo_grad (objs s1 l)) (shape_at s1 g) s1)))"

definition ReLU_Setup :: "real LayerProto \<Rightarrow> int \<Rightarrow> nat \<Rightarrow> real lstate \<Rightarrow> real lstate res" where
  "ReLU_Setup lp np l s0 = bindR (Layer_Setup lp np l s0) (like_source l (\<lambda>s. bindR (src_mutable_grad s l 0) deref))"

definition Tanh_Setup :: "real LayerProto \<Rightarrow> int \<Rightarrow> nat \<Rightarrow> real lstate \<Rightarrow> real lstate res" where
  "Tanh_Setup lp np l s0 = bindR (Layer_Setup lp np l s0) (like_source l (\<lambda>s. src_grad s l 0))"

definition Dropout_Setup :: "real LayerProto \<Rightarrow> int \<Rightarrow> nat \<Rightarrow> real lstate \<Rightarrow> real lstate res" where
  "Dropout_Setup lp np l s0 =
     bindR (Layer_Setup lp np l s0) (\<lambda>s.
     bindR (like_source l (\<lambda>s. bindR (src_mutable_grad s l 0) deref) s) (\<lambda>s1.
     bindR (src_data s1 l 0 kPositive) (\<lambda>src.
     bindR (reshape (lo_mask (objs s1 l)) (shape_at s1 src) s1) (\<lambda>s2.
       Inr (upd_obj l (\<lambda>o1. o1\<lparr>lo_pdrop := dropout_ratio (conf lp)\<rparr>) s2)))))"

definition LRN_Setup :: "real LayerProto \<Rightarrow> int \<Rightarrow> nat \<Rightarrow> real lstate \<Rightarrow> real lstate res" where
  "LRN_Setup lp np l s0 =
     bindR (Layer_Setup lp np l s0) (\<lambda>s.
     checkR (length (lo_srclayers (objs s l)) = 1) CheckFailed
     (checkR (lrn_local_size (conf lp) smod 2 = 1) CheckFailed
      (bindR (src_data s l 0 kPositive) (\<lambda>src.
       let sh = shape_at s src in
       bindR (reshape_both l sh (upd_obj l (\<lambda>o1. o1\<lparr>lo_lsize := lrn_local_size (conf lp), lo_knorm := lrn_knorm (conf lp),
           lo_alpha := lrn_alpha (conf lp), lo_beta := lrn_beta (conf lp)\<rparr>) s)) (\<lambda>s1.
       bindR (reshape (lo_norm (objs s1 l)) sh s1) (\<lambda>s2.
       bindR (idxR sh 0) (\<lambda>n. bindR (idxR sh 1) (\<lambda>c. bindR (idxR sh 2) (\<lambda>h. bindR (idxR sh 3) (\<lambda>w.
         Inr (upd_obj l (\<lambda>o1. o1\<lparr>lo_batchsize := n, lo_channels := c, lo_height := h, lo_width := w\<rparr>) s2)))))))))))"

text \<open>\<open>pad_\<close> is read although it is never set.\<close>

definition Pooling_Setup :: "real LayerProto \<Rightarrow> int \<Rightarrow> nat \<Rightarrow> real lstate \<Rightarrow> real lstate res" where
  "Pooling_Setup lp np l s0 =
     bindR (Layer_Setup lp np l s0) (\<lambda>s.
     checkR (length (lo_srclayers (objs s l)) = 1) CheckFailed
     (let k = pooling_kernel (conf lp); str = pooling_stride (conf lp) in
      checkR (lo_pad (objs s l) < k) CheckFailed
      (bindR (src_data s l 0 kPositive) (\<lambda>src.
       bindR (src_image (shape_at s src)) (\<lambda>(c, h, w).
       bindR (idxR (shape_at s src) 0) (\<lambda>n.
       bindR (conv_side h 0 k str) (\<lambda>ph. bindR (conv_side w 0 k str) (\<lambda>pw.
         reshape_both l [n, c, ph, pw] (upd_obj l (\<lambda>o1. o1\<lparr>lo_kernel := k, lo_stride := str, lo_pool := pooling_pool (conf lp),
           lo_width := w, lo_height := h, lo_channels := c, lo_batchsize := n, lo_pooled_height := ph, lo_pooled_width := pw\<rparr>) s)))))))))"

text \<open>The common part of the loss layers.\<close>

definition loss_shape :: "nat \<Rightarrow> real lstate \<Rightarrow> real lstate res" where
  "loss_shape l s =
     bindR (src_data s l 0 kPositive) (\<lambda>src.
     bindR (reshape (lo_data (objs s l)) (shape_at s src) s) (\<lambda>s1.
     let d = lo_data (objs s1 l) in
     bindR (idxR (shape_at s1 d) 0) (\<lambda>n.
     bindR (divR (count_at s1 d) n) (\<lambda>k. Inr (upd_obj l (\<lambda>o1. o1\<lparr>lo_batchsize := n, lo_dim := k\<rparr>) s1)))))"

definition SoftmaxLoss_Setup :: "real LayerProto \<Rightarrow> int \<Rightarrow> nat \<Rightarrow> real lstate \<Rightarrow> real lstate res" where
  "SoftmaxLoss_Setup lp np l s0 =
     bindR (Layer_Setup lp np l s0) (\<lambda>s.
     checkR (length (lo_srclayers (objs s l)) = 2) CheckFailed
     (bindR (loss_shape l s) (\<lambda>s1.
      bindR (reshape (lo_metric (objs s1 l)) [2] (upd_obj l (\<lambda>o1. o1\<lparr>lo_topk := softmaxloss_topk (conf lp)\<rparr>) s1)) (\<lambda>s2.
        Inr (upd_obj l (\<lambda>o1. o1\<lparr>lo_scale := softmaxloss_scale (conf lp)\<rparr>) s2)))))"

definition Output_Setup :: "real LayerProto \<Rightarrow> int \<Rightarrow> nat \<Rightarrow> real lstate \<Rightarrow> real lstate res" where
  "Output_Setup lp np l s0 =
     bindR (Layer_Setup lp np l s0) (\<lambda>s.
     checkR (length (lo_srclayers (objs s l)) = 1) CheckFailed
     (bindR (loss_shape l s) (\<lambda>s1.
        Inr (upd_obj l (\<lambda>o1. o1\<lparr>lo_topk := output_topk (conf lp), lo_scale := output_scale (conf lp), lo_path := output_path (conf lp)\<rparr>) s1))))"

text \<open>
  The visible layer of an RBM looks for the source that has it as a destination, by name, and takes the last one for the
  hidden layer; the data layer is the last of the others.
\<close>

definition find_hid :: "'f lstate \<Rightarrow> nat \<Rightarrow> int" where
  "find_hid s l =
     (let srcs = lo_srclayers (objs s l) in
      fold (\<lambda>i h. if list_ex (\<lambda>d. lo_name (objs s d) = lo_name (objs s l)) (lo_dstlayers (objs s (srcs ! i))) then int i else h)
        [0..<length srcs] (lo_hid_idx (objs s l)))"

definition find_data :: "int \<Rightarrow> 'f LayerObj \<Rightarrow> int" where
  "find_data hid o1 = fold (\<lambda>i d. if int i \<noteq> hid then int i else d) [0..<length (lo_srclayers o1)] (lo_data_idx o1)"

definition RBMVis_Setup :: "real LayerProto \<Rightarrow> int \<Rightarrow> nat \<Rightarrow> real lstate \<Rightarrow> real lstate res" where
  "RBMVis_Setup lp np l s0 =
     bindR (Layer_Setup lp np l s0) (\<lambda>s.
     checkR (length (lo_srclayers (objs s l)) = 2) CheckFailed
     (let hid = find_hid s l; dat = find_data hid (objs s l); m = rbmvis_num_output (conf lp) in
      bindR (src_data s l dat kPositive) (\<lambda>src.
      bindR (idxR (shape_at s src) 0) (\<lambda>n.
      bindR (divR (count_at s src) n) (\<lambda>k.
      let s1 = upd_obj l (\<lambda>o1. o1\<lparr>lo_hid_idx := hid, lo_data_idx := dat, lo_is_first_iteration_vis := True, lo_batchsize := n,
          lo_neg_batchsize := n, lo_vdim := k, lo_hdim := m\<rparr>) s in
      bindR (reshape (lo_data (objs s1 l)) [n, k] s1) (\<lambda>s2.
      bindR (reshape (lo_sample (objs s2 l)) [n, k] s2) (setup_weights lp [k, m] [k] l)))))))"

definition RBMHid_Setup :: "real LayerProto \<Rightarrow> int \<Rightarrow> nat \<Rightarrow> real lstate \<Rightarrow> real lstate res" where
  "RBMHid_Setup lp np l s0 =
     bindR (Layer_Setup lp np l s0) (\<lambda>s.
     checkR (length (lo_srclayers (objs s l)) = 1) CheckFailed
     (bindR (src_data s l 0 kPositive) (\<lambda>src.
      bindR (src_data s l 0 kNegative) (\<lambda>smp.
      bindR (idxR (shape_at s src) 0) (\<lambda>n.
      bindR (idxR (shape_at s smp) 0) (\<lambda>nn.
      bindR (divR (count_at s src) n) (\<lambda>k.
      let m = rbmhid_hid_dim (conf lp);
          s1 = upd_obj l (\<lambda>o1. o1\<lparr>lo_scale := 1, lo_batchsize := n, lo_neg_batchsize := nn, lo_vdim := k, lo_hdim := m\<rparr>) s in
      bindR (reshape (lo_data (objs s1 l)) [n, m] s1) (\<lambda>s2.
      bindR (reshape (lo_sample (objs s2 l)) [nn, m] s2) (\<lambda>s3.
      let (b, s4) = Param_create s3; (w, s5) = Param_create s4 in
      bindR (idxR (lp_param lp) 1) (\<lambda>p1.
      bindR (setup_param b p1 [m] (upd_obj l (\<lambda>o1. o1\<lparr>lo_weight := Some w, lo_bias := Some b\<rparr>) s5)) (\<lambda>s6.
      bindR (idxR (lp_param lp) 0) (\<lambda>p0. setup_param w p0 [k, m] s6))))))))))))"

section \<open>Layers that connect others\<close>

definition BridgeDst_Setup :: "real LayerProto \<Rightarrow> int \<Rightarrow> nat \<Rightarrow> real lstate \<Rightarrow> real lstate res" where
  "BridgeDst_Setup lp np l s0 =
     bindR (Layer_Setup lp np l s0) (\<lambda>s.
     checkR (length (lo_srclayers (objs s l)) = 1) CheckFailed
     (bindR (src_data s l 0 kPositive) (\<lambda>src. reshape_both l (shape_at s src) s)))"

definition Split_Setup :: "real LayerProto \<Rightarrow> int \<Rightarrow> nat \<Rightarrow> real lstate \<Rightarrow> real lstate res" where
  "Split_Setup lp np l s0 =
     bindR (Layer_Setup lp np l s0) (\<lambda>s.
     checkR (length (lo_srclayers (objs s l)) = 1) CheckFailed
     (bindR (src_data s l 0 kPositive) (\<lambda>src. reshape_both l (shape_at s src) s)))"

text \<open>The shape of one more source is joined to that of the sources before it.\<close>

definition concate_join :: "int \<Rightarrow> int list \<Rightarrow> int list \<Rightarrow> int list res" where
  "concate_join d0 sh src =
     foldR (\<lambda>sh j. bindR (idxR src (int j)) (\<lambda>x.
        if int j = d0 then bindR (intR (sh ! j + x)) (\<lambda>y. Inr (sh[j := y])) else checkR (sh ! j = x) CheckFailed (Inr sh)))
      sh [0..<length sh]"

definition Concate_Setup :: "real LayerProto \<Rightarrow> int \<Rightarrow> nat \<Rightarrow> real lstate \<Rightarrow> real lstate res" where
  "Concate_Setup lp np l s0 =
     bindR (Layer_Setup lp np l s0) (\<lambda>s.
     let d0 = (case lp_concate_dim lp of None \<Rightarrow> 0 | Some d \<Rightarrow> d); n = length (lo_srclayers (objs s l)) in
     checkR (1 < n) CheckFailed
     (bindR (src_data s l 0 kPositive) (\<lambda>src0.
      bindR (foldR (\<lambda>sh i. bindR (src_data s l (int i) kPositive) (\<lambda>src. concate_join d0 sh (shape_at s src))) (shape_at s src0) [1..<n]) (\<lambda>sh.
        reshape_both l sh s))))"

text \<open>\<open>resize\<close> of a vector of blobs.\<close>

definition resize_blobs :: "nat \<Rightarrow> nat list \<Rightarrow> 'f heap \<Rightarrow> nat list \<times> 'f heap" where
  "resize_blobs n bs h =
     (let k = n - length bs in (take n bs @ [nblob h..<nblob h + k], ((\<lambda>h. snd (Blob_new h)) ^^ k) h))"

definition slice_shape :: "int list \<Rightarrow> int \<Rightarrow> int \<Rightarrow> int \<Rightarrow> int list res" where
  "slice_shape sh d0 num i =
     bindR (idxR sh d0) (\<lambda>d. Inr (sh[nat d0 := d sdiv num + (if i = num - 1 then d smod num else 0)]))"

definition Slice_Setup :: "real LayerProto \<Rightarrow> int \<Rightarrow> nat \<Rightarrow> real lstate \<Rightarrow> real lstate res" where
  "Slice_Setup lp np l s0 =
     bindR (Layer_Setup lp np l s0) (\<lambda>s.
     let d0 = (case lp_slice_dim lp of None \<Rightarrow> 0 | Some d \<Rightarrow> d) in
     checkR (0 \<le> d0) CheckFailed
     (checkR (np = int (length (lo_dstlayers (objs s l)))) CheckFailed
      (bindR (src_data s l 0 kPositive) (\<lambda>src.
       bindR (reshape_both l (shape_at s src) (upd_obj l (\<lambda>o1. o1\<lparr>lo_slice_dim := d0, lo_slice_num := np\<rparr>) s)) (\<lambda>s1.
       let (dv, h1) = resize_blobs (nat np) (lo_datavec (objs s1 l)) (lmem s1);
           (gv, h2) = resize_blobs (nat np) (lo_gradvec (objs s1 l)) h1;
           s2 = upd_obj l (\<lambda>o1. o1\<lparr>lo_datavec := dv, lo_gradvec := gv\<rparr>) (s1\<lparr>lmem := h2\<rparr>);
           d = lo_data (objs s2 l) in
       checkR (count_at s2 d smod np = 0) CheckFailed
       (foldR (\<lambda>s i. bindR (slice_shape (shape_at s d) d0 np (int i)) (\<lambda>sh.
            bindR (reshape (dv ! i) sh s) (reshape (gv ! i) sh))) s2 [0..<nat np]))))))"

section \<open>Memory during Setup\<close>

text \<open>No two blobs share memory; a blob that has a shape has room for it.\<close>

definition neat :: "real heap \<Rightarrow> bool" where
  "neat h \<longleftrightarrow> wf_heap h \<and> (\<forall>b < nblob h. \<forall>c < nblob h. b \<noteq> c \<longrightarrow> separate h b c)"

definition sized :: "real heap \<Rightarrow> nat \<Rightarrow> int list \<Rightarrow> bool" where
  "sized h b sh \<longleftrightarrow> b < nblob h \<and> shape (blobs h b) = sh \<and> shape_count sh = Inr (bcount (blobs h b)) \<and> 0 < bcount (blobs h b) \<and>
     bdata (blobs h b) \<noteq> None"

text \<open>Shapes of positive dimensions whose product is an \<open>int\<close>.\<close>

definition shape_ok :: "int list \<Rightarrow> bool" where
  "shape_ok sh \<longleftrightarrow> (\<forall>d \<in> set sh. 0 < d) \<and> is_c_int (prod_list sh)"

lemma prod_list_ge_1: "(\<forall>d \<in> set sh. 0 < d) \<Longrightarrow> (1::int) \<le> prod_list sh"
proof (induction sh)
  case (Cons d sh)
  then show ?case using mult_mono [of 1 d 1 "prod_list sh"] by simp
qed simp

lemma shape_count_ok:
  assumes "shape_ok sh"
  shows "shape_count sh = Inr (prod_list sh)" and "0 < prod_list sh"
proof -
  have "foldR (\<lambda>c x. checkR (x \<noteq> 0) CheckFailed (checkR (is_c_int (c * x)) Undefined (Inr (c * x)))) a sh = Inr (a * prod_list sh)"
    if "0 < a" "\<forall>d \<in> set sh. 0 < d" "is_c_int (a * prod_list sh)" for a
    using that
  proof (induction sh arbitrary: a)
    case (Cons x sh)
    have p: "1 \<le> prod_list sh" using Cons.prems(2) prod_list_ge_1 by simp
    then have "a * x \<le> a * x * prod_list sh" using Cons.prems(1,2) mult_left_mono [OF p, of "a * x"] by simp
    moreover have "0 < a * x" using Cons.prems(1,2) by simp
    ultimately have "is_c_int (a * x)" using Cons.prems(3) by (simp add: is_c_int_def mult.assoc)
    then show ?case using Cons.IH [of "a * x"] Cons.prems by (simp add: mult.assoc)
  qed simp
  then show "shape_count sh = Inr (prod_list sh)" using assms by (simp add: shape_count_def shape_ok_def)
  show "0 < prod_list sh" using assms prod_list_ge_1 [of sh] by (simp add: shape_ok_def)
qed

lemma neat_Blob_new: "neat h \<Longrightarrow> neat (snd (Blob_new h)) \<and> nblob (snd (Blob_new h)) = Suc (nblob h)"
  using Blob_new_spec(1) [of h] by (auto simp: neat_def Blob_new_def separate_def less_Suc_eq split: option.splits)

lemma blobs_Blob_new: "c < nblob h \<Longrightarrow> blobs (snd (Blob_new h)) c = blobs h c"
  by (simp add: Blob_new_def)

lemma neat_Reshape:
  assumes "neat h" and "b < nblob h" and "shape_ok sh"
  shows "\<exists>h1. Reshape b sh h = Inr h1 \<and> neat h1 \<and> nblob h1 = nblob h \<and> sized h1 b sh \<and> (\<forall>c. c \<noteq> b \<longrightarrow> blobs h1 c = blobs h c)"
proof -
  have wf: "wf_heap h" using assms(1) by (simp add: neat_def)
  note cnt = shape_count_ok [OF assms(3)]
  obtain h1 where h1: "Reshape b sh h = Inr h1" "wf_heap h1" "nblob h1 = nblob h" "shape (blobs h1 b) = sh"
    "bcount (blobs h1 b) = prod_list sh" "bdata (blobs h1 b) \<noteq> None"
    using Reshape_spec [OF wf assms(2) cnt(1)] cnt(2) by auto
  have other: "blobs h1 c = blobs h c" if "c \<noteq> b" for c
    using h1(1) cnt(1) that by (auto simp: Reshape_def Let_def SyncedMemory_new_def upd_blob_def split: if_splits)
  have data: "bdata (blobs h1 b) = bdata (blobs h b) \<or> bdata (blobs h1 b) = Some (nsync h) \<and> sm_head (syncs h1 (nsync h)) = UNINITIALIZED"
    using h1(1) cnt(1) by (auto simp: Reshape_def Let_def SyncedMemory_new_def upd_blob_def split: if_splits)
  have old: "syncs h1 t = syncs h t" if "t < nsync h" for t
    using h1(1) cnt(1) that by (auto simp: Reshape_def Let_def SyncedMemory_new_def upd_blob_def split: if_splits)
  have lt: "t < nsync h" if "c < nblob h" "bdata (blobs h c) = Some t" for c t
    using wf that by (auto simp: wf_heap_def wf_blob_def)
  have "separate h1 c d" if cd: "c < nblob h" "d < nblob h" "c \<noteq> d" for c d
  proof -
    have s: "separate h c d" using assms(1) cd by (simp add: neat_def)
    show ?thesis
    proof (cases "bdata (blobs h1 b) = bdata (blobs h b)")
      case True
      then have "bdata (blobs h1 e) = bdata (blobs h e)" for e using other [of e] by (cases "e = b") simp_all
      then show ?thesis using s lt [OF cd(1)] lt [OF cd(2)] old by (auto simp: separate_def split: option.splits)
    next
      case False
      then have new: "bdata (blobs h1 b) = Some (nsync h)" "sm_head (syncs h1 (nsync h)) = UNINITIALIZED" using data by auto
      consider "c = b" "d \<noteq> b" | "d = b" "c \<noteq> b" | "c \<noteq> b" "d \<noteq> b" using cd(3) by auto
      then show ?thesis
      proof cases
        case 1
        then show ?thesis using new other [of d] lt [OF cd(2)] by (auto simp: separate_def split: option.splits)
      next
        case 2
        then show ?thesis using new other [of c] lt [OF cd(1)] by (auto simp: separate_def split: option.splits)
      next
        case 3
        then show ?thesis using s other [of c] other [of d] lt [OF cd(1)] lt [OF cd(2)] old by (auto simp: separate_def split: option.splits)
      qed
    qed
  qed
  then show ?thesis using h1 other cnt assms(2) by (auto simp: neat_def sized_def)
qed

lemma apart_sized: "neat h \<Longrightarrow> (\<And>b. b \<in> B \<Longrightarrow> \<exists>sh. sized h b sh) \<Longrightarrow> apart B h"
  unfolding apart_def neat_def sized_def by blast

lemma sized_cong: "sized h b sh \<Longrightarrow> blobs h1 b = blobs h b \<Longrightarrow> nblob h \<le> nblob h1 \<Longrightarrow> sized h1 b sh"
  by (simp add: sized_def)

lemma sized_mat: "sized h b (int n # r) \<Longrightarrow> bcount (blobs h b) = int (n * m) \<Longrightarrow> is_mat h b n m"
  by (cases n) (auto simp: sized_def is_mat_def)

section \<open>Objects during Setup\<close>

text \<open>The blobs that belong to a layer: its members and those of its parameters.\<close>

definition members :: "'f LayerObj \<Rightarrow> nat list" where
  "members o1 = [lo_data o1, lo_grad o1, lo_metric o1, lo_mask o1, lo_sample o1, lo_col_data o1, lo_col_grad o1, lo_norm o1, lo_mean o1] @
     lo_datavec o1 @ lo_gradvec o1 @ map snd (lo_datablobs o1)"

definition ptrs :: "'f LayerObj \<Rightarrow> nat list" where
  "ptrs o1 = (case lo_weight o1 of None \<Rightarrow> [] | Some a \<Rightarrow> [a]) @ (case lo_bias o1 of None \<Rightarrow> [] | Some a \<Rightarrow> [a])"

definition pblobs :: "'f Param \<Rightarrow> nat list" where
  "pblobs p = [pgrad p, phistory p] @ (case pdata p of None \<Rightarrow> [] | Some d \<Rightarrow> [d])"

definition owned :: "'f lstate \<Rightarrow> nat \<Rightarrow> nat list" where
  "owned s l = members (objs s l) @ concat (map (\<lambda>a. pblobs (lparams s a)) (ptrs (objs s l)))"

definition wf_net :: "real lstate \<Rightarrow> bool" where
  "wf_net s \<longleftrightarrow> neat (lmem s) \<and>
     (\<forall>l < nobj s. distinct (owned s l) \<and> set (owned s l) \<subseteq> {..<nblob (lmem s)} \<and> set (ptrs (objs s l)) \<subseteq> {..<nlparam s}) \<and>
     (\<forall>l < nobj s. \<forall>k < nobj s. l \<noteq> k \<longrightarrow> set (owned s l) \<inter> set (owned s k) = {})"

text \<open>What the Setup of layer \<open>l\<close> leaves alone: other objects and parameters, and the blobs that are not members of \<open>l\<close>.\<close>

definition leaves :: "nat \<Rightarrow> real lstate \<Rightarrow> real lstate \<Rightarrow> bool" where
  "leaves l s s1 \<longleftrightarrow> nobj s1 = nobj s \<and> nlparam s \<le> nlparam s1 \<and> nblob (lmem s) \<le> nblob (lmem s1) \<and>
     (\<forall>k. k \<noteq> l \<longrightarrow> objs s1 k = objs s k) \<and> (\<forall>a < nlparam s. lparams s1 a = lparams s a) \<and>
     lo_type (objs s1 l) = lo_type (objs s l) \<and> lo_srclayers (objs s1 l) = lo_srclayers (objs s l) \<and>
     lo_dstlayers (objs s1 l) = lo_dstlayers (objs s l) \<and> members (objs s1 l) = members (objs s l) \<and>
     (\<forall>b < nblob (lmem s). b \<notin> set (members (objs s l)) \<longrightarrow> blobs (lmem s1) b = blobs (lmem s) b)"

lemma leaves_refl: "leaves l s s"
  by (simp add: leaves_def)

lemma leaves_trans: "leaves l s s1 \<Longrightarrow> leaves l s1 s2 \<Longrightarrow> leaves l s s2"
  unfolding leaves_def by force

lemma wf_net_lmem:
  assumes "wf_net s" and "neat h" and "nblob h = nblob (lmem s)"
  shows "wf_net (s\<lparr>lmem := h\<rparr>)"
  using assms by (simp add: wf_net_def owned_def)

lemma wf_net_member: "wf_net s \<Longrightarrow> l < nobj s \<Longrightarrow> b \<in> set (members (objs s l)) \<Longrightarrow> b < nblob (lmem s)"
  by (auto simp: wf_net_def owned_def)

lemma okR_reshape:
  assumes "wf_net s" and "l < nobj s" and "b \<in> set (members (objs s l))" and "shape_ok sh"
  shows "okR (reshape b sh s) (\<lambda>s1. wf_net s1 \<and> leaves l s s1 \<and> s1 = s\<lparr>lmem := lmem s1\<rparr> \<and> sized (lmem s1) b sh \<and>
    nblob (lmem s1) = nblob (lmem s) \<and> (\<forall>c. c \<noteq> b \<longrightarrow> blobs (lmem s1) c = blobs (lmem s) c))"
proof -
  have n: "neat (lmem s)" using assms(1) by (simp add: wf_net_def)
  obtain h where h: "Reshape b sh (lmem s) = Inr h" "neat h" "nblob h = nblob (lmem s)" "sized h b sh" "\<forall>c. c \<noteq> b \<longrightarrow> blobs h c = blobs (lmem s) c"
    using neat_Reshape [OF n wf_net_member [OF assms(1-3)] assms(4)] by blast
  have "leaves l s (s\<lparr>lmem := h\<rparr>)" using h(3,5) assms(3) by (auto simp: leaves_def)
  then show ?thesis using h wf_net_lmem [OF assms(1) h(2,3)] by (simp add: reshape_def with_mem_def)
qed

text \<open>An update of other members.\<close>

definition keeps :: "('f LayerObj \<Rightarrow> 'f LayerObj) \<Rightarrow> bool" where
  "keeps f \<longleftrightarrow> (\<forall>o1. lo_type (f o1) = lo_type o1 \<and> lo_srclayers (f o1) = lo_srclayers o1 \<and> lo_dstlayers (f o1) = lo_dstlayers o1 \<and>
     lo_weight (f o1) = lo_weight o1 \<and> lo_bias (f o1) = lo_bias o1 \<and> members (f o1) = members o1)"

lemma upd_obj_simps [simp]:
  "lmem (upd_obj l f s) = lmem s" "nobj (upd_obj l f s) = nobj s" "lparams (upd_obj l f s) = lparams s" "nlparam (upd_obj l f s) = nlparam s"
  "objs (upd_obj l f s) l = f (objs s l)" "k \<noteq> l \<Longrightarrow> objs (upd_obj l f s) k = objs s k"
  by (simp_all add: upd_obj_def)

lemma upd_obj_keeps:
  assumes "wf_net s" and "keeps f"
  shows "wf_net (upd_obj l f s)" "leaves l s (upd_obj l f s)"
proof -
  have "owned (upd_obj l f s) k = owned s k" "ptrs (objs (upd_obj l f s) k) = ptrs (objs s k)" for k
    using assms(2) by (cases "k = l"; simp add: owned_def ptrs_def keeps_def)+
  then show "wf_net (upd_obj l f s)" using assms(1) by (simp add: wf_net_def)
  show "leaves l s (upd_obj l f s)" using assms(2) by (simp add: leaves_def keeps_def)
qed

lemma Param_Setup_sized:
  assumes "neat h" and "pgrad p < nblob h" and "phistory p < nblob h" and "shape_ok sh" and "pgrad p \<noteq> phistory p"
  shows "\<exists>h1. Param_Setup pr sh p h = Inr (p\<lparr>pdata := Some (nblob h), pproto := pr\<rparr>, h1) \<and> neat h1 \<and> nblob h1 = Suc (nblob h) \<and>
    sized h1 (nblob h) sh \<and> sized h1 (pgrad p) sh \<and> (\<forall>c < nblob h. c \<noteq> pgrad p \<and> c \<noteq> phistory p \<longrightarrow> blobs h1 c = blobs h c)"
proof -
  let ?g = "snd (Blob_new h)"
  have g: "neat ?g" "nblob ?g = Suc (nblob h)" "fst (Blob_new h) = nblob h" using neat_Blob_new [OF assms(1)] by (auto simp: Blob_new_def)
  obtain h1 where h1: "Reshape (nblob h) sh ?g = Inr h1" "neat h1" "nblob h1 = nblob ?g" "sized h1 (nblob h) sh" "\<forall>c. c \<noteq> nblob h \<longrightarrow> blobs h1 c = blobs ?g c"
    using neat_Reshape [OF g(1) _ assms(4), of "nblob h"] g(2) by auto
  obtain h2 where h2: "Reshape (pgrad p) sh h1 = Inr h2" "neat h2" "nblob h2 = nblob h1" "sized h2 (pgrad p) sh" "\<forall>c. c \<noteq> pgrad p \<longrightarrow> blobs h2 c = blobs h1 c"
    using neat_Reshape [OF h1(2) _ assms(4), of "pgrad p"] g(2) h1(3) assms(2) by auto
  obtain h3 where h3: "Reshape (phistory p) sh h2 = Inr h3" "neat h3" "nblob h3 = nblob h2" "\<forall>c. c \<noteq> phistory p \<longrightarrow> blobs h3 c = blobs h2 c"
    using neat_Reshape [OF h2(2) _ assms(4), of "phistory p"] g(2) h1(3) h2(3) assms(3) by auto
  have n: "nblob h3 = Suc (nblob h)" using g(2) h1(3) h2(3) h3(3) by simp
  have "sized h3 (nblob h) sh" "sized h3 (pgrad p) sh"
    using h1(4,3) h2(3,4,5) h3(3,4) assms(2,3,5) by (auto elim!: sized_cong)
  moreover have "\<forall>c < nblob h. c \<noteq> pgrad p \<and> c \<noteq> phistory p \<longrightarrow> blobs h3 c = blobs h c"
    using h1(5) h2(5) h3(4) by (simp add: blobs_Blob_new)
  moreover have "Param_Setup pr sh p h = Inr (p\<lparr>pdata := Some (nblob h), pproto := pr\<rparr>, h3)"
    using h1(1) h2(1) h3(1) g(3) by (simp add: Param_Setup_def Blob_new_shape_def case_prod_beta)
  ultimately show ?thesis using h3(2) n by blast
qed

text \<open>The weight and the bias of a layer: two new parameters with new blobs.\<close>

lemma pblobs_create:
  "Param_create s = (nlparam s, s1) \<Longrightarrow> pblobs (lparams s1 (nlparam s)) = [nblob (lmem s), Suc (nblob (lmem s))]"
  for s :: "real lstate"
  by (auto simp: Param_create_def Param_new_def Blob_new_def pblobs_def Let_def)

lemma setup_weights_eq:
  fixes s :: "real lstate"
  assumes "Param_Setup p0 wsh (fst (Param_new (lmem s))) (snd (Param_new (snd (Param_new (lmem s))))) = Inr (w, h1)"
    and "Param_Setup p1 bsh (fst (Param_new (snd (Param_new (lmem s))))) h1 = Inr (b, h2)"
    and "idxR (lp_param lp) 0 = Inr p0" and "idxR (lp_param lp) 1 = Inr p1"
  defines "a \<equiv> nlparam s"
  shows "setup_weights lp wsh bsh l s = Inr ((upd_obj l (\<lambda>o1. o1\<lparr>lo_weight := Some a, lo_bias := Some (Suc a)\<rparr>) s)
    \<lparr>lparams := (lparams s)(a := w, Suc a := b), nlparam := a + 2, lmem := h2\<rparr>)"
  using assms(1-4)
  by (simp add: setup_weights_def setup_param_def Param_create_def case_prod_beta Let_def upd_obj_def a_def fun_upd_twist)

lemma okR_setup_weights:
  assumes "wf_net s" and "l < nobj s" and "lo_weight (objs s l) = None" and "lo_bias (objs s l) = None"
    and "shape_ok wsh" and "shape_ok bsh" and "2 \<le> length (lp_param lp)"
  shows "okR (setup_weights lp wsh bsh l s) (\<lambda>s1. wf_net s1 \<and> leaves l s s1 \<and>
    objs s1 l = (objs s l)\<lparr>lo_weight := Some (nlparam s), lo_bias := Some (Suc (nlparam s))\<rparr> \<and>
    (\<forall>c < nblob (lmem s). blobs (lmem s1) c = blobs (lmem s) c) \<and>
    (\<exists>wd bd. pdata (lparams s1 (nlparam s)) = Some wd \<and> pdata (lparams s1 (Suc (nlparam s))) = Some bd \<and>
      sized (lmem s1) wd wsh \<and> sized (lmem s1) (pgrad (lparams s1 (nlparam s))) wsh \<and>
      sized (lmem s1) bd bsh \<and> sized (lmem s1) (pgrad (lparams s1 (Suc (nlparam s)))) bsh))"
proof -
  let ?h = "lmem s" and ?a = "nlparam s" and ?n = "nblob (lmem s)"
  let ?pw = "fst (Param_new ?h)" and ?hw = "snd (Param_new ?h)"
  let ?pb = "fst (Param_new ?hw)" and ?hb = "snd (Param_new ?hw)"
  have neat: "neat ?h" using assms(1) by (simp add: wf_net_def)
  have new: "snd (Param_new h) = snd (Blob_new (snd (Blob_new h)))" "pgrad (fst (Param_new h)) = nblob h"
    "phistory (fst (Param_new h)) = Suc (nblob h)" for h :: "real heap"
    by (simp_all add: Param_new_def Blob_new_def Let_def)
  have hw: "neat ?hw" "nblob ?hw = ?n + 2" "\<forall>c < ?n. blobs ?hw c = blobs ?h c"
    using neat_Blob_new [OF neat] neat_Blob_new [of "snd (Blob_new ?h)"] by (auto simp: new Blob_new_def)
  have hb: "neat ?hb" "nblob ?hb = ?n + 4" "\<forall>c < ?n. blobs ?hb c = blobs ?h c"
    using neat_Blob_new [OF hw(1)] neat_Blob_new [of "snd (Blob_new ?hw)"] hw(2,3) by (auto simp: new Blob_new_def)
  have pw: "pgrad ?pw = ?n" "phistory ?pw = ?n + 1" and pb: "pgrad ?pb = ?n + 2" "phistory ?pb = ?n + 3" using new hw(2) by auto
  let ?p0 = "lp_param lp ! 0" and ?p1 = "lp_param lp ! 1"
  have idx: "idxR (lp_param lp) 0 = Inr ?p0" "idxR (lp_param lp) 1 = Inr ?p1"
    using assms(7) by (auto simp: idxR_def neq_Nil_conv Suc_le_length_iff numeral_2_eq_2)
  obtain h1 where h1: "Param_Setup ?p0 wsh ?pw ?hb = Inr (?pw\<lparr>pdata := Some (?n + 4), pproto := ?p0\<rparr>, h1)" "neat h1" "nblob h1 = ?n + 5"
    "sized h1 (?n + 4) wsh" "sized h1 ?n wsh" "\<forall>c < ?n. blobs h1 c = blobs ?h c"
    using Param_Setup_sized [OF hb(1), of ?pw wsh ?p0] assms(5) pw hb(2,3) by auto
  obtain h2 where h2: "Param_Setup ?p1 bsh ?pb h1 = Inr (?pb\<lparr>pdata := Some (?n + 5), pproto := ?p1\<rparr>, h2)" "neat h2" "nblob h2 = ?n + 6"
    "sized h2 (?n + 5) bsh" "sized h2 (?n + 2) bsh" "\<forall>c < ?n + 5. c \<noteq> ?n + 2 \<and> c \<noteq> ?n + 3 \<longrightarrow> blobs h2 c = blobs h1 c"
    using Param_Setup_sized [OF h1(2), of ?pb bsh ?p1] assms(6) pb h1(3) by auto
  have sz: "sized h2 (?n + 4) wsh" "sized h2 ?n wsh" using h1(3-5) h2(3,6) by (auto elim!: sized_cong)
  define s1 where "s1 = (upd_obj l (\<lambda>o1. o1\<lparr>lo_weight := Some ?a, lo_bias := Some (Suc ?a)\<rparr>) s)
    \<lparr>lparams := (lparams s)(?a := ?pw\<lparr>pdata := Some (?n + 4), pproto := ?p0\<rparr>, Suc ?a := ?pb\<lparr>pdata := Some (?n + 5), pproto := ?p1\<rparr>),
      nlparam := ?a + 2, lmem := h2\<rparr>"
  have run: "setup_weights lp wsh bsh l s = Inr s1"
    unfolding s1_def by (rule setup_weights_eq [OF h1(1) h2(1) idx])
  have s1: "lmem s1 = h2" "nobj s1 = nobj s" "nlparam s1 = ?a + 2" "\<forall>k. k \<noteq> l \<longrightarrow> objs s1 k = objs s k"
    "objs s1 l = (objs s l)\<lparr>lo_weight := Some ?a, lo_bias := Some (Suc ?a)\<rparr>" "\<forall>a < ?a. lparams s1 a = lparams s a"
    by (simp_all add: s1_def upd_obj_def)
  have own_l: "owned s1 l = owned s l @ [?n, ?n + 1, ?n + 4, ?n + 2, ?n + 3, ?n + 5]" and ptr_l: "ptrs (objs s1 l) = [?a, Suc ?a]"
    using assms(3,4) pw pb by (simp_all add: owned_def ptrs_def pblobs_def members_def s1_def)
  have own_k: "owned s1 k = owned s k" "ptrs (objs s1 k) = ptrs (objs s k)" if "k < nobj s" "k \<noteq> l" for k
  proof -
    have "\<forall>a \<in> set (ptrs (objs s k)). lparams s1 a = lparams s a" using assms(1) s1(6) that(1) by (auto simp: wf_net_def)
    then show "owned s1 k = owned s k" "ptrs (objs s1 k) = ptrs (objs s k)" using s1(4) that(2) by (auto simp: owned_def intro!: arg_cong [of _ _ concat])
  qed
  have lt: "b < ?n" if "k < nobj s" "b \<in> set (owned s k)" for k b using assms(1) that by (auto simp: wf_net_def)
  have "wf_net s1"
    unfolding wf_net_def
  proof (intro conjI allI impI)
    show "neat (lmem s1)" using h2(2) s1(1) by simp
    fix k assume k: "k < nobj s1"
    show "distinct (owned s1 k)" "set (owned s1 k) \<subseteq> {..<nblob (lmem s1)}" "set (ptrs (objs s1 k)) \<subseteq> {..<nlparam s1}"
      using assms(1,2) k own_l own_k [of k] ptr_l s1(1-3) h2(3) lt [of k] by (cases "k = l"; force simp: wf_net_def)+
    fix j assume j: "j < nobj s1" "k \<noteq> j"
    show "set (owned s1 k) \<inter> set (owned s1 j) = {}"
      using assms(1,2) k j own_l own_k [of k] own_k [of j] s1(2) lt [of k] lt [of j] by (cases "k = l"; cases "j = l"; force simp: wf_net_def)
  qed
  moreover have "leaves l s s1" using s1 h1(3,6) h2(3,6) by (simp add: leaves_def members_def)
  ultimately show ?thesis using run s1 h1(6) h2(4,5,6) sz pw pb by (simp add: s1_def)
qed

end
