(* ===== verification/Parsers.thy ===== *)
theory Parsers
  imports LayerSetup "HOL-Library.Sublist"
begin

text \<open>
  The layers at the bottom of a net (\<open>src/src/neuralnet/layer.cc\<close>): \<open>ShardDataLayer\<close> reads batches of records from a shard, the parser
  layers \<open>LabelLayer\<close>, \<open>MnistLayer\<close> and \<open>RGBImageLayer\<close> turn the records of their source into floats. The file system and the
  protobuf messages in the files are arguments. An epoch follows an epoch without a gap: the batches of a data layer are
  consecutive pieces of the records of the shard, repeated forever.
\<close>

section \<open>Data layers\<close>

text \<open>
  What lies outside the program: whether a folder exists, the content of the file \<open>shard.dat\<close> in it, the record that protobuf
  parses from the value of a tuple, and the floats of a mean file, a message of Caffe's when the first argument is true.
\<close>

record env =
  has_folder :: "string \<Rightarrow> bool"
  shard_dat :: "string \<Rightarrow> bytes option"
  parse_Record :: "string \<Rightarrow> real Record"
  mean_data :: "bool \<Rightarrow> string \<Rightarrow> real list option"

definition Record_default :: "'f Record" where
  "Record_default = \<lparr>rec_shape = [], rec_label = 0, rec_pixel = [], rec_data = []\<rparr>"

definition upd_data :: "nat \<Rightarrow> ('f DataObj \<Rightarrow> 'f DataObj) \<Rightarrow> 'f lstate \<Rightarrow> 'f lstate" where
  "upd_data l f s = s\<lparr>ldata := (ldata s)(l := f (ldata s l))\<rparr>"

text \<open>\<open>Next(&key, &record)\<close>, which leaves the record alone when it returns false.\<close>

definition next_record :: "env \<Rightarrow> bytes \<Rightarrow> Shard \<Rightarrow> real Record \<Rightarrow> (bool \<times> real Record \<times> Shard) res" where
  "next_record w dat sh r =
     bindR (Next dat sh) (\<lambda>(t, sh1).
       case t of None \<Rightarrow> Inr (False, r, sh1) | Some (key, val) \<Rightarrow> Inr (True, parse_Record w val, sh1))"

text \<open>\<open>records_.resize\<close>, which throws an exception on a negative size.\<close>

definition resize_records :: "int \<Rightarrow> 'f Record list \<Rightarrow> 'f Record list res" where
  "resize_records n rs =
     checkR (0 \<le> n) OutOfRange (Inr (take (nat n) rs @ replicate (nat n - length rs) Record_default))"

definition ShardData_Setup :: "env \<Rightarrow> real LayerProto \<Rightarrow> int \<Rightarrow> nat \<Rightarrow> real lstate \<Rightarrow> real lstate res" where
  "ShardData_Setup w lp np l s0 =
     bindR (Layer_Setup lp np l s0) (\<lambda>s.
     let path = sharddata_path (conf lp); b = sharddata_batchsize (conf lp) in
     case DataShard_open (has_folder w path) (shard_dat w path) kRead 104857600 of
       None \<Rightarrow> Inl Blocked
     | Some r \<Rightarrow>
         bindR r (\<lambda>(sh, f).
         let dat = (case f of None \<Rightarrow> [] | Some c \<Rightarrow> c) in
         bindR (next_record w dat sh (da_sample (ldata s l))) (\<lambda>(ok, smp, sh1).
         bindR (if partition_dim lp = 0 then divR b np else Inr b) (\<lambda>n.
         bindR (resize_records n (da_records (ldata s l))) (\<lambda>rs.
           Inr (upd_data l (\<lambda>d. d\<lparr>da_shard := sh1, da_file := dat, da_sample := smp, da_batchsize := n, da_records := rs,
             da_random_skip := sharddata_random_skip (conf lp)\<rparr>) s))))))"

text \<open>
  \<open>rnd\<close> is the result of \<open>rand()\<close>. The skipped records are read into the sample; \<open>Count\<close>, whose result is logged, opens the file once
  more and changes nothing.
\<close>

definition skip_records :: "env \<Rightarrow> int \<Rightarrow> real DataObj \<Rightarrow> real DataObj res" where
  "skip_records w rnd d =
     (if da_random_skip d = 0 then Inr d
      else bindR (foldR (\<lambda>(r, sh) _. bindR (next_record w (da_file d) sh r) (\<lambda>(ok, r1, sh1). Inr (r1, sh1)))
             (da_sample d, da_shard d) [0..<nat (rnd smod da_random_skip d)]) (\<lambda>(r, sh).
             Inr (d\<lparr>da_sample := r, da_shard := sh, da_random_skip := 0\<rparr>)))"

text \<open>One record of the batch: at the end of the shard the reader starts again.\<close>

definition load_record :: "env \<Rightarrow> bytes \<Rightarrow> Shard \<Rightarrow> real Record \<Rightarrow> (real Record \<times> Shard) res" where
  "load_record w dat sh r =
     bindR (next_record w dat sh r) (\<lambda>(ok, r1, sh1).
       if ok then Inr (r1, sh1)
       else bindR (SeekToFirst sh1) (\<lambda>sh2.
            bindR (next_record w dat sh2 r1) (\<lambda>(ok2, r2, sh3). checkR ok2 CheckFailed (Inr (r2, sh3)))))"

fun load_records :: "env \<Rightarrow> bytes \<Rightarrow> Shard \<Rightarrow> real Record list \<Rightarrow> (real Record list \<times> Shard) res" where
  "load_records w dat sh [] = Inr ([], sh)"
| "load_records w dat sh (r # rs) =
     bindR (load_record w dat sh r) (\<lambda>(r1, sh1).
     bindR (load_records w dat sh1 rs) (\<lambda>(rs1, sh2). Inr (r1 # rs1, sh2)))"

definition ShardData_ComputeFeature :: "env \<Rightarrow> int \<Rightarrow> nat \<Rightarrow> real lstate \<Rightarrow> real lstate res" where
  "ShardData_ComputeFeature w rnd l s =
     bindR (skip_records w rnd (ldata s l)) (\<lambda>d.
     bindR (load_records w (da_file d) (da_shard d) (da_records d)) (\<lambda>(rs, sh).
       Inr (upd_data l (\<lambda>_. d\<lparr>da_records := rs, da_shard := sh\<rparr>) s)))"

text \<open>The input layer waits for a file; \<open>found\<close> is the record in it once it is there.\<close>

definition Input_Setup :: "real LayerProto \<Rightarrow> int \<Rightarrow> nat \<Rightarrow> real lstate \<Rightarrow> real lstate res" where
  "Input_Setup lp np l s0 =
     bindR (Layer_Setup lp np l s0) (\<lambda>s.
     bindR (resize_records 1 (da_records (ldata s l))) (\<lambda>rs.
       Inr (upd_obj l (\<lambda>o1. o1\<lparr>lo_path := input_path (conf lp)\<rparr>)
         (upd_data l (\<lambda>d. d\<lparr>da_sample := (da_sample d)\<lparr>rec_shape := rec_shape (da_sample d) @ [3, 32, 32]\<rparr>, da_batchsize := 1, da_records := rs\<rparr>) s))))"

definition Input_ComputeFeature :: "(string \<Rightarrow> real Record option) \<Rightarrow> nat \<Rightarrow> real lstate \<Rightarrow> real lstate res" where
  "Input_ComputeFeature found l s =
     (case found (lo_path (objs s l)) of
        None \<Rightarrow> Inl Blocked
      | Some r \<Rightarrow>
          checkR (da_records (ldata s l) \<noteq> []) OutOfRange
            (Inr (upd_data l (\<lambda>d. d\<lparr>da_records := (da_records d)[0 := r]\<rparr>) s)))"

section \<open>Parser layers\<close>

text \<open>\<open>static_cast<DataLayer*>(srclayers_[0])\<close>\<close>

definition src_dataobj :: "'f lstate \<Rightarrow> nat \<Rightarrow> 'f DataObj res" where
  "src_dataobj s l = bindR (src_of s l 0) (\<lambda>k. checkR (is_datalayer (lo_type (objs s k))) Undefined (Inr (ldata s k)))"

definition Label_Setup :: "real LayerProto \<Rightarrow> int \<Rightarrow> nat \<Rightarrow> real lstate \<Rightarrow> real lstate res" where
  "Label_Setup lp np l s0 =
     bindR (Layer_Setup lp np l s0) (\<lambda>s.
     checkR (length (lo_srclayers (objs s l)) = 1) CheckFailed
     (bindR (src_dataobj s l) (\<lambda>d. reshape (lo_data (objs s l)) [da_batchsize d] s)))"

text \<open>A float is written before its label is checked; the pointer runs over the floats \<open>xs\<close> of the blob.\<close>

definition Label_ParseRecords :: "real Record list \<Rightarrow> nat \<Rightarrow> real heap \<Rightarrow> real heap res" where
  "Label_ParseRecords recs b h =
     bindR (tensor b h) (\<lambda>(xs, h1).
     bindR (foldR (\<lambda>(i, xs) r.
         checkR (i < length xs) Undefined
           (checkR (rec_label r < 278) CheckFailed (Inr (i + 1, xs[i := real_of_int (rec_label r)])))) (0, xs) recs) (\<lambda>(n, ys).
     bindR (idxR (shape (blobs h1 b)) 0) (\<lambda>d.
       checkR (int n = d) CheckFailed (blob_write b ys h1))))"

definition Mnist_Setup :: "real LayerProto \<Rightarrow> int \<Rightarrow> nat \<Rightarrow> real lstate \<Rightarrow> real lstate res" where
  "Mnist_Setup lp np l s0 =
     bindR (Layer_Setup lp np l s0) (\<lambda>s.
     checkR (length (lo_srclayers (objs s l)) = 1) CheckFailed
     (bindR (src_dataobj s l) (\<lambda>d.
      let s1 = upd_obj l (\<lambda>o1. o1\<lparr>lo_norm_a := mnist_norm_a (conf lp), lo_norm_b := mnist_norm_b (conf lp)\<rparr>) s;
          n = da_batchsize d; r = mnist_resize (conf lp); sh = rec_shape (da_sample d); dim = int (length sh) in
      checkR (2 \<le> dim) CheckFailed
      (if r \<noteq> 0 then reshape (lo_data (objs s1 l)) [n, r, r] s1
       else bindR (idxR sh (dim - 1)) (\<lambda>x. bindR (idxR sh (dim - 2)) (\<lambda>y.
              checkR (x = y) CheckFailed (reshape (lo_data (objs s1 l)) [n, x, x] s1)))))))"

text \<open>The floats of one record: pixels are bytes without a sign; without pixels the floats of the record are taken.\<close>

definition mnist_record :: "real \<Rightarrow> real \<Rightarrow> nat \<Rightarrow> real Record \<Rightarrow> real list res" where
  "mnist_record a b n r =
     (let xs = (if rec_pixel r \<noteq> [] then map (\<lambda>c. real (of_char c)) (rec_pixel r) else rec_data r) in
      checkR (n \<le> length xs) Undefined (Inr (map (\<lambda>x. x / a - b) (take n xs))))"

definition Mnist_ParseRecords :: "real LayerObj \<Rightarrow> real Record list \<Rightarrow> nat \<Rightarrow> real heap \<Rightarrow> real heap res" where
  "Mnist_ParseRecords o1 recs b h =
     bindR (atR recs 0) (\<lambda>r0.
     bindR (idxR (rec_shape r0) (int (length (rec_shape r0)) - 1)) (\<lambda>n.
     bindR (idxR (shape (blobs h b)) 1) (\<lambda>d.
     checkR (n = d) CheckFailed
     (bindR (tensor b h) (\<lambda>(xs, h1).
      bindR (foldR (\<lambda>ys r.
          bindR (mnist_record (lo_norm_a o1) (lo_norm_b o1) (nat n * nat n) r) (\<lambda>zs.
            checkR (length ys + length zs \<le> length xs) Undefined (Inr (ys @ zs)))) [] recs) (\<lambda>ys.
        checkR (length ys = length xs) CheckFailed (blob_write b ys h1)))))))"

definition RGBImage_Setup :: "env \<Rightarrow> real LayerProto \<Rightarrow> int \<Rightarrow> nat \<Rightarrow> real lstate \<Rightarrow> real lstate res" where
  "RGBImage_Setup w lp np l s0 =
     bindR (Layer_Setup lp np l s0) (\<lambda>s.
     checkR (length (lo_srclayers (objs s l)) = 1) CheckFailed
     (let c = conf lp; crp = rgbimage_cropsize c;
          s1 = upd_obj l (\<lambda>o1. o1\<lparr>lo_scale := rgbimage_scale c, lo_cropsize := crp, lo_mirror := rgbimage_mirror c\<rparr>) s in
      bindR (src_dataobj s1 l) (\<lambda>d.
      let sh0 = da_batchsize d # rec_shape (da_sample d); sh = (if crp \<noteq> 0 then sh0[2 := crp, 3 := crp] else sh0) in
      checkR (length sh0 = 4) CheckFailed
      (bindR (reshape (lo_data (objs s1 l)) sh s1) (\<lambda>s2.
       bindR (reshape (lo_mean (objs s2 l)) (tl sh) s2) (\<lambda>s3.
       let m = lo_mean (objs s3 l) in
       case rgbimage_meanfile c of
         None \<Rightarrow> with_mem (blob_write m (replicate (nat (count_at s3 m)) 0)) s3
       | Some f \<Rightarrow>
           (case mean_data w (sublist ''binaryproto'' f) f of
              None \<Rightarrow> Inl CheckFailed
            | Some xs \<Rightarrow> checkR (count_at s3 m = int (length xs)) CheckFailed (with_mem (blob_write m xs) s3))))))))"

text \<open>
  One image. \<open>raw\<close> is the buffer for a raw image of \<open>c\<close> channels, \<open>h\<close> rows and \<open>w\<close> columns, \<open>img\<close> are the floats of \<open>data_\<close>, in which
  the image starts at \<open>off\<close>; what does not fit overwrites the images behind it. \<open>put\<close> writes pixels and subtracts the mean.
\<close>

definition rgb_floats :: "real Record \<Rightarrow> real list" where
  "rgb_floats r = (if rec_pixel r \<noteq> [] then map (\<lambda>c. real (of_char c)) (rec_pixel r) else rec_data r)"

definition put_floats :: "real list \<Rightarrow> nat \<Rightarrow> real list \<Rightarrow> real list \<Rightarrow> real list res" where
  "put_floats xs off ms buf1 =
     checkR (off + length xs \<le> length buf1 \<and> off + length ms \<le> length buf1) Undefined
       (let ys = take off buf1 @ xs @ drop (off + length xs) buf1 in
        Inr (take off ys @ map2 (-) (take (length ms) (drop off ys)) ms @ drop (off + length ms) ys))"

definition rgb_image :: "real LayerObj \<Rightarrow> Phase \<Rightarrow> nat \<Rightarrow> nat \<Rightarrow> nat \<Rightarrow> nat \<Rightarrow> nat \<Rightarrow> nat \<Rightarrow> real list \<Rightarrow>
    int list \<times> nat \<times> real list \<times> real list \<Rightarrow> real Record \<Rightarrow> (int list \<times> nat \<times> real list \<times> real list) res" where
  "rgb_image o1 ph c h w ic ih iw ms = (\<lambda>(rnds, rid, raw, img) r.
     let crp = lo_cropsize o1; do_crop = (0 < crp \<and> ph = kTrain); off = rid * (ic * ih * iw); k = nat crp in
     bindR (if lo_mirror o1 then bindR (atR rnds 0) (\<lambda>x. Inr (x smod 2 \<noteq> 0 \<and> ph = kTrain, tl rnds)) else Inr (False, rnds)) (\<lambda>(do_mirror, rnds1).
     if \<not> do_crop \<and> \<not> do_mirror then bindR (put_floats (rgb_floats r) off ms img) (\<lambda>img1. Inr (rnds1, rid + 1, raw, img1))
     else bindR (put_floats (rgb_floats r) 0 ms raw) (\<lambda>raw1.
       if do_crop then
         checkR (int h - crp \<noteq> 0) Undefined (bindR (atR rnds1 0) (\<lambda>a.
         checkR (int w - crp \<noteq> 0) Undefined (bindR (atR (tl rnds1) 0) (\<lambda>b.
         checkR (k \<le> h \<and> k \<le> w \<and> ic = c \<and> ih = k \<and> iw = k) CheckFailed
         (let cr = crop (nat (a smod (int h - crp))) (nat (b smod (int w - crp))) h k (ent w raw1);
              out = tab (c * k) k (if do_mirror then mirror k cr else cr) in
          Inr (tl (tl rnds1), rid + 1, raw1, take off img @ out @ drop (off + length out) img))))))
       else
         checkR (ic = c \<and> ih = h \<and> iw = w) CheckFailed
         (let out = tab (c * h) w (mirror w (ent w raw1)) in
          Inr (rnds1, rid + 1, raw1, take off img @ out @ drop (off + length out) img)))))"

text \<open>\<open>rnds\<close> are the results of \<open>rand()\<close>, as many as are drawn; \<open>raw0\<close> is the uninitialised buffer.\<close>

definition RGBImage_ParseRecords :: "real LayerObj \<Rightarrow> int list \<Rightarrow> (nat \<Rightarrow> real) \<Rightarrow> Phase \<Rightarrow> real Record list \<Rightarrow> real heap \<Rightarrow> real heap res" where
  "RGBImage_ParseRecords o1 rnds raw0 ph recs h =
     bindR (Tensor4 (lo_data o1) h) (\<lambda>(n, ic, ih, iw, img, h1).
     bindR (atR recs 0) (\<lambda>r0.
     bindR (idxR (rec_shape r0) 0) (\<lambda>c. bindR (idxR (rec_shape r0) 1) (\<lambda>y. bindR (idxR (rec_shape r0) 2) (\<lambda>x.
     bindR (blob_read (lo_mean o1) h1) (\<lambda>(ms, h2).
     checkR (length recs \<le> n) Undefined
     (bindR (foldR (rgb_image o1 ph (nat c) (nat y) (nat x) ic ih iw ms)
         (rnds, 0, map raw0 [0..<nat c * nat y * nat x], img) recs) (\<lambda>(_, _, _, img1).
       blob_write (lo_data o1) (if lo_scale o1 \<noteq> 0 then map (\<lambda>v. v * lo_scale o1) img1 else img1) h2))))))))"

text \<open>\<open>ParserLayer::ComputeFeature\<close>, with the methods of the classes.\<close>

definition Parser_ComputeFeature :: "int list \<Rightarrow> (nat \<Rightarrow> real) \<Rightarrow> Phase \<Rightarrow> nat \<Rightarrow> real lstate \<Rightarrow> real lstate res" where
  "Parser_ComputeFeature rnds raw0 ph l s =
     (let o1 = objs s l in
      checkR (length (lo_srclayers o1) = 1) CheckFailed
      (bindR (src_dataobj s l) (\<lambda>d.
       with_mem (\<lambda>h. case lo_type o1 of
          kLabel \<Rightarrow> Label_ParseRecords (da_records d) (lo_data o1) h
        | kMnist \<Rightarrow> Mnist_ParseRecords o1 (da_records d) (lo_data o1) h
        | kRGBImage \<Rightarrow> RGBImage_ParseRecords o1 rnds raw0 ph (da_records d) h
        | _ \<Rightarrow> Inl Undefined) s)))"

section \<open>Sources that start again\<close>

text \<open>
  The interface of a data layer: a source of tuples that can be read from the start again. \<open>fetch\<close> is one record of a batch; a state
  is at position \<open>i\<close> of the endless repetition of all tuples.
\<close>

definition fetch :: "('s \<Rightarrow> ('t option \<times> 's) res) \<Rightarrow> ('s \<Rightarrow> 's res) \<Rightarrow> 's \<Rightarrow> ('t \<times> 's) res" where
  "fetch nxt rewind s =
     bindR (nxt s) (\<lambda>(t, s1).
       case t of
         Some x \<Rightarrow> Inr (x, s1)
       | None \<Rightarrow> bindR (rewind s1) (\<lambda>s2. bindR (nxt s2) (\<lambda>(t2, s3). case t2 of Some x \<Rightarrow> Inr (x, s3) | None \<Rightarrow> Inl CheckFailed)))"

fun fetches :: "('s \<Rightarrow> ('t option \<times> 's) res) \<Rightarrow> ('s \<Rightarrow> 's res) \<Rightarrow> nat \<Rightarrow> 's \<Rightarrow> ('t list \<times> 's) res" where
  "fetches nxt rewind 0 s = Inr ([], s)"
| "fetches nxt rewind (Suc n) s =
     bindR (fetch nxt rewind s) (\<lambda>(x, s1). bindR (fetches nxt rewind n s1) (\<lambda>(xs, s2). Inr (x # xs, s2)))"

locale tuple_cycle = tuple_source +
  fixes opened :: "'s \<Rightarrow> bool"
    and rewind :: "'s \<Rightarrow> 's res"
    and whole :: "'t list"
  assumes nxt_opened: "opened s \<Longrightarrow> nxt s = Inr (r, s') \<Longrightarrow> opened s'"
    and rewind_holds: "opened s \<Longrightarrow> \<exists>s'. rewind s = Inr s' \<and> opened s' \<and> holds s' whole"
begin

definition stands :: "nat \<Rightarrow> 's \<Rightarrow> bool" where
  "stands i s \<longleftrightarrow> opened s \<and> (\<exists>r \<le> length whole. holds s (drop r whole) \<and> r mod length whole = i mod length whole)"

lemma stands_rewind: "opened s \<Longrightarrow> rewind s = Inr s' \<Longrightarrow> stands 0 s'"
  using rewind_holds [of s] by (auto simp: stands_def intro!: exI [of _ 0])

lemma nxt_stands:
  assumes "opened s" and "holds s (drop r whole)" and "r < length whole"
  shows "\<exists>s'. nxt s = Inr (Some (whole ! r), s') \<and> stands (Suc r) s'"
proof -
  have "drop r whole = whole ! r # drop (Suc r) whole" using assms(3) by (simp add: Cons_nth_drop_Suc)
  then obtain s' where s': "nxt s = Inr (Some (whole ! r), s')" "holds s' (drop (Suc r) whole)" using nxt_Cons assms(2) by metis
  then show ?thesis using nxt_opened [OF assms(1) s'(1)] assms(3) by (auto simp: stands_def intro!: exI [of _ "Suc r"])
qed

lemma stands_mod: "stands j s \<Longrightarrow> j mod length whole = i mod length whole \<Longrightarrow> stands i s"
  by (simp add: stands_def)

lemma fetch_stands:
  assumes "stands i s" and "whole \<noteq> []"
  shows "\<exists>s'. fetch nxt rewind s = Inr (whole ! (i mod length whole), s') \<and> stands (Suc i) s'"
proof -
  obtain r where r: "opened s" "r \<le> length whole" "holds s (drop r whole)" "r mod length whole = i mod length whole"
    using assms(1) by (auto simp: stands_def)
  show ?thesis
  proof (cases "r < length whole")
    case True
    then have i: "i mod length whole = r" using r(4) by simp
    obtain s' where "nxt s = Inr (Some (whole ! r), s')" "stands (Suc r) s'" using nxt_stands [OF r(1,3) True] by blast
    then show ?thesis using i r(4) by (auto simp: fetch_def mod_Suc intro: stands_mod)
  next
    case False
    then have "holds s []" and i: "i mod length whole = 0" using r(2,3,4) by auto
    then obtain s1 where s1: "nxt s = Inr (None, s1)" using nxt_Nil by blast
    obtain s2 where s2: "rewind s1 = Inr s2" "opened s2" "holds s2 (drop 0 whole)" using rewind_holds nxt_opened [OF r(1) s1] by auto
    obtain s3 where "nxt s2 = Inr (Some (whole ! 0), s3)" "stands (Suc 0) s3" using nxt_stands [OF s2(2,3)] assms(2) by auto
    then show ?thesis using s1 s2(1) i by (auto simp: fetch_def mod_Suc intro: stands_mod)
  qed
qed

lemma fetches_stands:
  assumes "stands i s" and "whole \<noteq> []"
  shows "\<exists>s'. fetches nxt rewind n s = Inr (map (\<lambda>j. whole ! ((i + j) mod length whole)) [0..<n], s') \<and> stands (i + n) s'"
  using assms(1)
proof (induction n arbitrary: i s)
  case (Suc n)
  obtain s1 where s1: "fetch nxt rewind s = Inr (whole ! (i mod length whole), s1)" "stands (Suc i) s1"
    using fetch_stands [OF Suc.prems assms(2)] by blast
  obtain s2 where s2: "fetches nxt rewind n s1 = Inr (map (\<lambda>j. whole ! ((Suc i + j) mod length whole)) [0..<n], s2)" "stands (Suc i + n) s2"
    using Suc.IH [OF s1(2)] by blast
  have "map (\<lambda>j. whole ! ((i + j) mod length whole)) [0..<Suc n] =
      whole ! (i mod length whole) # map (\<lambda>j. whole ! ((Suc i + j) mod length whole)) [0..<n]"
    by (simp add: upt_conv_Cons map_Suc_upt [symmetric] del: upt_Suc)
  then show ?case using s1(1) s2 by (simp del: upt_Suc)
qed simp

end

text \<open>The reader of a shard is such a source.\<close>

lemma PrepareNextField_keeps: "PrepareNextField n dat s = (b, s1) \<Longrightarrow> sh_mode s1 = sh_mode s \<and> capacity s1 = capacity s"
  by (auto simp: PrepareNextField_def stream_read_def Let_def split: if_splits)

lemma advance_keeps [simp]: "sh_mode (advance n s) = sh_mode s" "capacity (advance n s) = capacity s"
  by (simp_all add: advance_def)

abbreviation keeps_shard :: "Shard \<Rightarrow> Shard \<Rightarrow> bool" where
  "keeps_shard s s1 \<equiv> sh_mode s1 = sh_mode s \<and> capacity s1 = capacity s"

definition allR :: "('a \<Rightarrow> bool) \<Rightarrow> 'a res \<Rightarrow> bool" where
  "allR P m \<longleftrightarrow> (\<forall>x. m = Inr x \<longrightarrow> P x)"

lemma allR_simps [simp]: "allR P (Inl e)" "allR P (Inr x) \<longleftrightarrow> P x"
  by (simp_all add: allR_def)

lemma allR_bindR: "allR Q m \<Longrightarrow> (\<And>x. Q x \<Longrightarrow> allR P (f x)) \<Longrightarrow> allR P (bindR m f)"
  by (cases m) (simp_all add: bindR_def)

lemma allR_buf: "(\<And>x. allR P (f x)) \<Longrightarrow> allR P (bindR (buf_at n s) f)"
  by (auto simp: bindR_def allR_def split: sum.splits)

lemma allR_field:
  assumes "\<And>b s1. keeps_shard s s1 \<Longrightarrow> allR P (f b s1)"
  shows "allR P (case PrepareNextField n dat s of (b, s1) \<Rightarrow> f b s1)"
proof (cases "PrepareNextField n dat s")
  case (Pair b s1)
  then show ?thesis using assms [of s1 b] PrepareNextField_keeps [OF Pair] by simp
qed

lemma allR_next_len:
  assumes "\<And>v s1. keeps_shard s s1 \<Longrightarrow> allR P (f (v, s1))"
  shows "allR P (bindR (next_len dat s) f)"
proof -
  have "allR (\<lambda>(v, s1). keeps_shard s s1) (next_len dat s)"
    unfolding next_len_def by (rule allR_field) (auto simp: allR_def bindR_eq_Inr split: bool.split)
  then show ?thesis by (rule allR_bindR) (use assms in auto)
qed

lemma Next_key_keeps: "allR (\<lambda>(n, k, s1). keeps_shard s s1) (Next_key dat s)"
  unfolding Next_key_def
  by (auto intro!: allR_next_len allR_field allR_buf split: option.split bool.split)

lemma Next_keeps: "allR (\<lambda>(t, s1). keeps_shard s s1) (Next dat s)"
  unfolding Next_def
  by (rule allR_bindR [OF Next_key_keeps]) (auto intro!: allR_buf)

definition shard_of :: "bytes \<Rightarrow> int \<Rightarrow> (string \<times> string) list \<Rightarrow> Shard \<Rightarrow> bool" where
  "shard_of dat cap ts s \<longleftrightarrow> sh_mode s = kRead \<and> capacity s = cap \<and> 8 \<le> cap \<and> dat = concat (map enc_tuple ts) \<and> list_all (fits cap) ts"

interpretation shard_cycle: tuple_cycle "shard_holds dat" "Next dat" "shard_of dat cap ts" SeekToFirst ts for dat cap ts
proof unfold_locales
  fix s r s'
  assume "shard_of dat cap ts s" "Next dat s = Inr (r, s')"
  then show "shard_of dat cap ts s'" using Next_keeps [of s dat] by (simp add: shard_of_def)
next
  fix s
  assume s: "shard_of dat cap ts s"
  then show "\<exists>s'. SeekToFirst s = Inr s' \<and> shard_of dat cap ts s' \<and> shard_holds dat s' ts"
    by (auto simp: SeekToFirst_def shard_of_def shard_holds_def reader_inv_def remaining_def)
qed

section \<open>Batches\<close>

lemma next_record_eq:
  "Next dat sh = Inr (t, sh1) \<Longrightarrow> next_record w dat sh r =
     Inr (t \<noteq> None, case t of None \<Rightarrow> r | Some u \<Rightarrow> parse_Record w (snd u), sh1)"
  by (auto simp: next_record_def split: option.split prod.split)

lemma load_record_fetch:
  assumes "fetch (Next dat) SeekToFirst sh = Inr (t, sh1)"
  shows "load_record w dat sh r = Inr (parse_Record w (snd t), sh1)"
proof -
  obtain u sh2 where u: "Next dat sh = Inr (u, sh2)" using assms by (cases "Next dat sh") (auto simp: fetch_def)
  show ?thesis
  proof (cases u)
    case (Some v)
    then show ?thesis using assms u next_record_eq [OF u] by (simp add: fetch_def load_record_def)
  next
    case None
    then obtain sh3 where k: "SeekToFirst sh2 = Inr sh3" using assms u by (cases "SeekToFirst sh2") (auto simp: fetch_def)
    then obtain u2 sh4 where u2: "Next dat sh3 = Inr (u2, sh4)" using assms u None by (cases "Next dat sh3") (auto simp: fetch_def)
    then have "u2 = Some t \<and> sh4 = sh1" using assms u None k by (simp add: fetch_def split: option.splits)
    then show ?thesis using u None k next_record_eq [OF u] next_record_eq [OF u2] by (simp add: load_record_def)
  qed
qed

lemma load_records_fetches:
  "fetches (Next dat) SeekToFirst (length rs) sh = Inr (ts, sh1) \<Longrightarrow> load_records w dat sh rs = Inr (map (\<lambda>t. parse_Record w (snd t)) ts, sh1)"
proof (induction rs arbitrary: sh ts)
  case (Cons r rs)
  then obtain t sh2 us where "fetch (Next dat) SeekToFirst sh = Inr (t, sh2)" "fetches (Next dat) SeekToFirst (length rs) sh2 = Inr (us, sh1)" "ts = t # us"
    by (auto simp: bindR_eq_Inr)
  then show ?case using load_record_fetch Cons.IH by simp
qed simp

text \<open>A data layer that stands at the tuple \<open>i\<close>.\<close>

definition data_at :: "bytes \<Rightarrow> (string \<times> string) list \<Rightarrow> nat \<Rightarrow> nat \<Rightarrow> real DataObj \<Rightarrow> bool" where
  "data_at dat ts b i d \<longleftrightarrow> da_file d = dat \<and> da_random_skip d = 0 \<and> length (da_records d) = b \<and>
     shard_cycle.stands dat 104857600 ts i (da_shard d)"

definition nth_record :: "env \<Rightarrow> (string \<times> string) list \<Rightarrow> nat \<Rightarrow> real Record" where
  "nth_record w ts i = parse_Record w (snd (ts ! (i mod length ts)))"

lemma ComputeFeature_at:
  assumes "data_at dat ts b i (ldata s l)" and "ts \<noteq> []"
  shows "\<exists>s1. ShardData_ComputeFeature w rnd l s = Inr s1 \<and> data_at dat ts b (i + b) (ldata s1 l) \<and>
    da_records (ldata s1 l) = map (\<lambda>j. nth_record w ts (i + j)) [0..<b]"
proof -
  let ?d = "ldata s l"
  have d: "da_file ?d = dat" "da_random_skip ?d = 0" "length (da_records ?d) = b" "shard_cycle.stands dat 104857600 ts i (da_shard ?d)"
    using assms(1) by (simp_all add: data_at_def)
  obtain sh where sh: "fetches (Next dat) SeekToFirst b (da_shard ?d) = Inr (map (\<lambda>j. ts ! ((i + j) mod length ts)) [0..<b], sh)"
    "shard_cycle.stands dat 104857600 ts (i + b) sh"
    using shard_cycle.fetches_stands [OF d(4) assms(2)] by blast
  have "load_records w dat (da_shard ?d) (da_records ?d) = Inr (map (\<lambda>j. nth_record w ts (i + j)) [0..<b], sh)"
    using load_records_fetches [of dat "da_records ?d"] sh(1) d(3) by (simp add: nth_record_def comp_def)
  then show ?thesis
    using sh(2) d(1,2) by (simp add: ShardData_ComputeFeature_def skip_records_def upd_data_def data_at_def)
qed

fun load_batches :: "env \<Rightarrow> (nat \<Rightarrow> int) \<Rightarrow> nat \<Rightarrow> nat \<Rightarrow> real lstate \<Rightarrow> real lstate res" where
  "load_batches w rnd l 0 s = Inr s"
| "load_batches w rnd l (Suc n) s = bindR (load_batches w rnd l n s) (ShardData_ComputeFeature w (rnd n) l)"

lemma load_batches_at:
  assumes "data_at dat ts b i (ldata s l)" and "ts \<noteq> []"
  shows "\<exists>s1. load_batches w rnd l n s = Inr s1 \<and> data_at dat ts b (i + n * b) (ldata s1 l)"
proof (induction n)
  case 0
  then show ?case using assms(1) by simp
next
  case (Suc n)
  then obtain s1 where s1: "load_batches w rnd l n s = Inr s1" "data_at dat ts b (i + n * b) (ldata s1 l)" by blast
  show ?case using ComputeFeature_at [OF s1(2) assms(2), of w "rnd n"] s1(1) by (auto simp: algebra_simps)
qed

text \<open>
  C?. Setup reads the first record of the shard as the sample, and the batches that follow are consecutive pieces of the records
  that come after it, repeated forever: record \<open>j\<close> of batch \<open>n\<close> is tuple \<open>1 + n * b + j\<close> of the shard, counted in a circle. So no
  record is lost at the end of an epoch, and the first record is not trained on before the second epoch.
\<close>

theorem ShardData_batches:
  fixes lp :: "real LayerProto" and np :: int and w :: env
  defines "m \<equiv> (if partition_dim lp = 0 then sharddata_batchsize (conf lp) sdiv np else sharddata_batchsize (conf lp))"
  assumes "1 \<le> np" and "0 \<le> m" and "is_c_int m" and "sharddata_random_skip (conf lp) = 0"
    and "has_folder w (sharddata_path (conf lp))" and "shard_dat w (sharddata_path (conf lp)) = Some (concat (map enc_tuple ts))"
    and "ts \<noteq> []" and "list_all (fits 104857600) ts"
  shows "\<exists>s1. ShardData_Setup w lp np l s = Inr s1 \<and> da_sample (ldata s1 l) = nth_record w ts 0 \<and>
    (\<forall>n. \<exists>s2. load_batches w rnd l (Suc n) s1 = Inr s2 \<and>
      da_records (ldata s2 l) = map (\<lambda>j. nth_record w ts (1 + n * nat m + j)) [0..<nat m])"
proof -
  let ?dat = "concat (map enc_tuple ts)" and ?sh = "shard0 kRead 104857600"
  have o: "shard_of ?dat 104857600 ts ?sh" using assms(9) by (simp add: shard_of_def shard0_def)
  have "SeekToFirst ?sh = Inr ?sh" by (simp add: SeekToFirst_def shard0_def)
  then have st: "shard_cycle.stands ?dat 104857600 ts 0 ?sh" by (rule shard_cycle.stands_rewind [OF o])
  then obtain r where r: "r \<le> length ts" "shard_holds ?dat ?sh (drop r ts)" "r mod length ts = 0"
    by (auto simp: shard_cycle.stands_def)
  have h: "shard_holds ?dat ?sh (drop 0 ts)"
    using o by (auto simp: shard_of_def shard_holds_def reader_inv_def remaining_def shard0_def)
  obtain sh1 where sh1: "Next ?dat ?sh = Inr (Some (ts ! 0), sh1)" "shard_cycle.stands ?dat 104857600 ts 1 sh1"
    using shard_cycle.nxt_stands [OF o h] assms(8) by auto
  have smp: "next_record w ?dat ?sh r0 = Inr (True, nth_record w ts 0, sh1)" for r0
    using sh1(1) by (simp add: next_record_def nth_record_def split: prod.split)
  have m: "(if partition_dim lp = 0 then divR (sharddata_batchsize (conf lp)) np else Inr (sharddata_batchsize (conf lp))) = Inr m"
    using assms(2,4) by (simp add: divR_def intR_def m_def split: if_splits)
  obtain rs where rs: "resize_records m (da_records (ldata s l)) = Inr rs" "length rs = nat m"
    using assms(3) by (auto simp: resize_records_def)
  obtain s1 where s1: "ShardData_Setup w lp np l s = Inr s1" "ldata s1 l = (ldata s l)\<lparr>da_shard := sh1, da_file := ?dat,
      da_sample := nth_record w ts 0, da_batchsize := m, da_records := rs, da_random_skip := 0\<rparr>"
    using assms(2,5-7) smp m rs(1)
    by (simp add: ShardData_Setup_def Layer_Setup_def DataShard_open_def Let_def upd_data_def upd_obj_def kRead_def)
  have at1: "data_at ?dat ts (nat m) 1 (ldata s1 l)" using s1(2) sh1(2) rs(2) by (simp add: data_at_def)
  have "\<exists>s2. load_batches w rnd l (Suc n) s1 = Inr s2 \<and> da_records (ldata s2 l) = map (\<lambda>j. nth_record w ts (1 + n * nat m + j)) [0..<nat m]" for n
  proof -
    obtain s2 where s2: "load_batches w rnd l n s1 = Inr s2" "data_at ?dat ts (nat m) (1 + n * nat m) (ldata s2 l)"
      using load_batches_at [OF at1 assms(8)] by blast
    show ?thesis using ComputeFeature_at [OF s2(2) assms(8), of w "rnd n"] s2(1) by auto
  qed
  then show ?thesis using s1 by simp
qed

definition batch_demo_env :: env where
  "batch_demo_env = \<lparr>has_folder = (\<lambda>_. True), shard_dat = (\<lambda>_. Some (concat (map enc_tuple [(''a'', ''1''), (''b'', ''2''), (''c'', ''3'')]))),
     parse_Record = (\<lambda>v. Record_default\<lparr>rec_pixel := v\<rparr>), mean_data = (\<lambda>_ _. None)\<rparr>"

definition batch_demo_conf :: "real LayerProto" where
  "batch_demo_conf = LayerProto_default\<lparr>lp_conf := Some (LayerConf_default\<lparr>sharddata_batchsize := 2\<rparr>)\<rparr>"

theorem ShardData_batches_witness:
  "\<exists>s1. ShardData_Setup batch_demo_env batch_demo_conf 1 0 stack_demo = Inr s1 \<and> rec_pixel (da_sample (ldata s1 0)) = ''1'' \<and>
    (\<exists>s2. load_batches batch_demo_env (\<lambda>_. 0) 0 (Suc 1) s1 = Inr s2 \<and> map rec_pixel (da_records (ldata s2 0)) = [''1'', ''2''])"
proof -
  let ?ts = "[(''a'', ''1''), (''b'', ''2''), (''c'', ''3'')]"
  have c: "partition_dim batch_demo_conf = -1" "sharddata_batchsize (conf batch_demo_conf) = 2" "sharddata_random_skip (conf batch_demo_conf) = 0"
    by (simp_all add: batch_demo_conf_def partition_dim_def conf_def LayerProto_default_def LayerConf_default_def)
  have "\<exists>s1. ShardData_Setup batch_demo_env batch_demo_conf 1 0 stack_demo = Inr s1 \<and> da_sample (ldata s1 0) = nth_record batch_demo_env ?ts 0 \<and>
    (\<forall>n. \<exists>s2. load_batches batch_demo_env (\<lambda>_. 0) 0 (Suc n) s1 = Inr s2 \<and>
      da_records (ldata s2 0) = map (\<lambda>j. nth_record batch_demo_env ?ts (1 + n * nat 2 + j)) [0..<nat 2])"
    using ShardData_batches [of 1 batch_demo_conf batch_demo_env ?ts 0 stack_demo "\<lambda>_. 0"] c
    by (simp add: batch_demo_env_def is_c_int_def fits_def del: load_batches.simps)
  then obtain s1 where s1: "ShardData_Setup batch_demo_env batch_demo_conf 1 0 stack_demo = Inr s1"
      "da_sample (ldata s1 0) = nth_record batch_demo_env ?ts 0"
    and n: "\<And>n. \<exists>s2. load_batches batch_demo_env (\<lambda>_. 0) 0 (Suc n) s1 = Inr s2 \<and>
      da_records (ldata s2 0) = map (\<lambda>j. nth_record batch_demo_env ?ts (1 + n * nat 2 + j)) [0..<nat 2]"
    by blast
  obtain s2 where s2: "load_batches batch_demo_env (\<lambda>_. 0) 0 (Suc 1) s1 = Inr s2"
      "da_records (ldata s2 0) = map (\<lambda>j. nth_record batch_demo_env ?ts (1 + 1 * nat 2 + j)) [0..<nat 2]"
    using n [of 1] by blast
  have u: "[0..<nat 2] = [0, Suc 0]" by (simp add: numeral_2_eq_2)
  have "rec_pixel (da_sample (ldata s1 0)) = ''1''" "map rec_pixel (da_records (ldata s2 0)) = [''1'', ''2'']"
    unfolding s1(2) s2(2) u by (simp_all add: nth_record_def batch_demo_env_def)
  then show ?thesis using s1(1) s2(1) by (intro exI [of _ s1] conjI exI [of _ s2])
qed

section \<open>Cropped images in the test phase\<close>

text \<open>Without cropping and mirroring a raw image that is larger than a place in the blob cannot be written in the last place.\<close>

lemma rgb_images_overflow:
  assumes "length img = n * (ic * ih * iw)" and "recs \<noteq> []" and "rid + length recs = n" and "ph \<noteq> kTrain" and "\<not> lo_mirror o1"
    and "\<forall>r \<in> set recs. ic * ih * iw < length (rgb_floats r)"
  shows "foldR (rgb_image o1 ph c h w ic ih iw ms) (rnds, rid, raw, img) recs = Inl Undefined"
  using assms(1-3,6)
proof (induction recs arbitrary: rid img)
  case (Cons r recs)
  let ?p = "put_floats (rgb_floats r) (rid * (ic * ih * iw)) ms img"
  have step: "rgb_image o1 ph c h w ic ih iw ms (rnds, rid, raw, img) r = bindR ?p (\<lambda>img1. Inr (rnds, rid + 1, raw, img1))"
    using assms(4,5) by (simp add: rgb_image_def Let_def)
  show ?case
  proof (cases ?p)
    case (Inl e)
    then have "e = Undefined" by (auto simp: put_floats_def Let_def checkR_def split: if_splits)
    then show ?thesis using Inl step by simp
  next
    case (Inr img1)
    then have fit: "rid * (ic * ih * iw) + length (rgb_floats r) \<le> length img" "length img1 = length img"
      by (auto simp: put_floats_def Let_def checkR_def split: if_splits)
    have "recs \<noteq> []"
    proof
      assume "recs = []"
      then have "length img = rid * (ic * ih * iw) + ic * ih * iw" using Cons.prems(1,3) by auto
      then show False using fit(1) Cons.prems(4) by simp
    qed
    then show ?thesis using Cons.IH [of img1 "rid + 1"] Cons.prems fit(2) step Inr by simp
  qed
qed simp

text \<open>
  C?. A cropping image layer that is not training writes each raw image as a whole to its place in the blob, which has the size of a
  cropped image: a full batch of images with more pixels than the crop runs over the end of the blob.
\<close>

theorem RGBImage_test_overflows:
  assumes "ph \<noteq> kTrain" and "\<not> lo_mirror o1" and "Tensor4 (lo_data o1) h = Inr (n, ic, ih, iw, img, h1)"
    and "blob_read (lo_mean o1) h1 = Inr (ms, h2)" and "length recs = n" and "0 < n"
    and "\<forall>r \<in> set recs. rec_shape r = [c, y, x] \<and> length (rgb_floats r) = nat (c * y * x)" and "int (ic * ih * iw) < c * y * x"
  shows "RGBImage_ParseRecords o1 rnds raw0 ph recs h = Inl Undefined"
proof -
  have len: "length img = n * (ic * ih * iw)" using assms(3) by (auto simp: Tensor4_def bindR_eq_Inr checkR_def split: if_splits)
  obtain r0 rs where recs: "recs = r0 # rs" using assms(5,6) by (cases recs) auto
  have "ic * ih * iw < nat (c * y * x)" using assms(8) by linarith
  then have "\<forall>r \<in> set recs. ic * ih * iw < length (rgb_floats r)" using assms(7) by auto
  then have ov: "foldR (rgb_image o1 ph (nat c) (nat y) (nat x) ic ih iw ms) (rnds, 0, raw1, img) recs = Inl Undefined" for raw1
    using rgb_images_overflow [OF len, of recs 0] assms(1,2,5,6) by auto
  have r0: "rec_shape r0 = [c, y, x]" using assms(7) recs by simp
  have at0: "atR recs 0 = Inr r0" by (simp add: atR_def recs)
  show ?thesis
    using ov assms(3-5) r0 at0 by (simp add: RGBImage_ParseRecords_def idxR_def)
qed

theorem RGBImage_test_overflows_witness:
  "RGBImage_ParseRecords ((LayerObj0 kRGBImage 0 0 [] [])\<lparr>lo_cropsize := 1, lo_mean := 1\<rparr>) [] (\<lambda>_. 0) kTest
     [Record_default\<lparr>rec_shape := [1, 2, 2], rec_pixel := ''abcd''\<rparr>] (shaped_heap [([1, 1, 1, 1], [0]), ([1, 1, 1], [0])]) = Inl Undefined"
proof -
  let ?vs = "[([1, 1, 1, 1], [0]), ([1, 1, 1], [0])] :: (int list \<times> real list) list" and ?o = "(LayerObj0 kRGBImage 0 0 [] [])\<lparr>lo_cropsize := 1, lo_mean := 1\<rparr>"
  have "apart {..<length ?vs} (shaped_heap ?vs)" by (rule shaped_heap_apart(1)) (simp add: shape_count_def is_c_int_def)
  then have hold: "hold {..<length ?vs} (shaped_heap ?vs) (contents (shaped_heap ?vs)) (shaped_heap ?vs)" by (rule hold_start)
  have "is_img (shaped_heap ?vs) 0 1 1 1 1" by (simp add: is_img_def shaped_heap_def)
  then obtain img h1 where t: "Tensor4 0 (shaped_heap ?vs) = Inr (1, 1, 1, 1, img, h1)" "hold {..<length ?vs} (shaped_heap ?vs) (contents (shaped_heap ?vs)) h1"
    using okR_Tensor4 [OF hold, of 0 1 1 1 1] by (auto elim: okRE)
  obtain ms h2 where m: "blob_read 1 h1 = Inr (ms, h2)" using okR_read [OF t(2), of 1] by (auto elim: okRE)
  show ?thesis
    by (rule RGBImage_test_overflows [of kTest ?o _ 1 1 1 1 img h1 ms h2 _ 1 2 2])
      (use t(1) m in \<open>simp_all add: LayerObj0_def rgb_floats_def Record_default_def\<close>)
qed

section \<open>What the parsers write\<close>

lemma label_fold:
  assumes "\<forall>r \<in> set recs. rec_label r < 278" and "i + length recs \<le> length xs"
  shows "foldR (\<lambda>(i, xs) r. checkR (i < length xs) Undefined
      (checkR (rec_label r < 278) CheckFailed (Inr (Suc i, xs[i := real_of_int (rec_label r)])))) (i, xs) recs =
    Inr (i + length recs, take i xs @ map (\<lambda>r. real_of_int (rec_label r)) recs @ drop (i + length recs) xs)"
  using assms
proof (induction recs arbitrary: i xs)
  case (Cons r recs)
  then have i: "i < length xs" by simp
  then have "take (Suc i) (xs[i := real_of_int (rec_label r)]) = take i xs @ [real_of_int (rec_label r)]" by (simp add: take_Suc_conv_app_nth)
  then show ?case using Cons i by simp
qed simp

lemma mnist_fold:
  assumes "\<forall>r \<in> set recs. mnist_record a b n r = Inr (f r) \<and> length (f r) = n" and "length ys + length recs * n \<le> m"
  shows "foldR (\<lambda>ys r. bindR (mnist_record a b n r) (\<lambda>zs. checkR (length ys + length zs \<le> m) Undefined (Inr (ys @ zs)))) ys recs =
    Inr (ys @ concat (map f recs))"
  using assms
proof (induction recs arbitrary: ys)
  case (Cons r recs)
  then show ?case using Cons.IH [of "ys @ f r"] by (simp add: algebra_simps)
qed simp

definition batch_pixels :: "real LayerObj \<Rightarrow> nat \<Rightarrow> real Record list \<Rightarrow> real list" where
  "batch_pixels o1 n recs =
     concat (map (\<lambda>r. map (\<lambda>c. real (of_char c) / lo_norm_a o1 - lo_norm_b o1) (take (n * n) (rec_pixel r))) recs)"

lemma Mnist_parses:
  assumes "hold B h0 v h" and "b \<in> B" and "shape (blobs h0 b) = [int (length recs), int n, int n]"
    and "bcount (blobs h0 b) = int (length recs * n * n)" and "recs \<noteq> []"
    and "\<forall>r \<in> set recs. (\<exists>sh. rec_shape r = sh @ [int n]) \<and> rec_pixel r \<noteq> [] \<and> n * n \<le> length (rec_pixel r)"
  shows "okR (Mnist_ParseRecords o1 recs b h) (hold B h0 (v(b := batch_pixels o1 n recs)))"
proof -
  obtain r0 rs where recs: "recs = r0 # rs" using assms(5) by (cases recs) auto
  obtain sh where sh: "rec_shape r0 = sh @ [int n]" using assms(6) recs by auto
  have eq: "blobs h = blobs h0" using assms(1) by (simp add: hold_def)
  have at0: "atR recs 0 = Inr r0" "idxR (rec_shape r0) (int (length (rec_shape r0)) - 1) = Inr (int n)" "idxR (shape (blobs h b)) 1 = Inr (int n)"
    using recs sh by (simp_all add: atR_def idxR_def eq assms(3))
  let ?f = "\<lambda>r. map (\<lambda>c. real (of_char c) / lo_norm_a o1 - lo_norm_b o1) (take (n * n) (rec_pixel r))"
  have rc: "\<forall>r \<in> set recs. mnist_record (lo_norm_a o1) (lo_norm_b o1) (n * n) r = Inr (?f r) \<and> length (?f r) = n * n"
    using assms(6) by (auto simp: mnist_record_def Let_def take_map comp_def)
  have len: "length (v b) = length recs * (n * n)" using hold_length [OF assms(1,2)] assms(4) by (simp add: algebra_simps flip: of_nat_mult)
  have all: "length (concat (map ?f recs)) = length recs * (n * n)"
    using rc by (simp add: length_concat comp_def sum_list_triv cong: map_cong)
  have fold: "foldR (\<lambda>ys r. bindR (mnist_record (lo_norm_a o1) (lo_norm_b o1) (n * n) r) (\<lambda>zs. checkR (length ys + length zs \<le> length recs * (n * n)) Undefined (Inr (ys @ zs))))
      [] recs = Inr (concat (map ?f recs))"
    using mnist_fold [OF rc, of "[]"] by simp
  have "okR (blob_write b (concat (map ?f recs)) h1) (hold B h0 (v(b := batch_pixels o1 n recs)))" if "hold B h0 v h1" for h1
    using okR_write [OF that assms(2)] len all by (simp add: batch_pixels_def)
  then show ?thesis
    unfolding Mnist_ParseRecords_def at0 bindR_Inr
    by (simp, intro okR_seq [OF okR_tensor [OF assms(1,2)]]) (auto simp: fold len all)
qed

lemma Label_parses:
  assumes "hold B h0 v h" and "b \<in> B" and "shape (blobs h0 b) = [int (length recs)]" and "bcount (blobs h0 b) = int (length recs)"
    and "\<forall>r \<in> set recs. rec_label r < 278"
  shows "okR (Label_ParseRecords recs b h) (hold B h0 (v(b := map (\<lambda>r. real_of_int (rec_label r)) recs)))"
proof -
  have len: "length (v b) = length recs" using hold_length [OF assms(1,2)] assms(4) by simp
  have "idxR (shape (blobs h1 b)) 0 = Inr (int (length recs))" "okR (blob_write b (map (\<lambda>r. real_of_int (rec_label r)) recs) h1)
      (hold B h0 (v(b := map (\<lambda>r. real_of_int (rec_label r)) recs)))" if "hold B h0 v h1" for h1
    using okR_write [OF that assms(2)] len that assms(3) by (simp_all add: hold_def idxR_def)
  then show ?thesis
    unfolding Label_ParseRecords_def
    by (intro okR_seq [OF okR_tensor [OF assms(1,2)]]) (auto simp: label_fold [OF assms(5)] len)
qed

text \<open>
  C?. The parser layers turn a batch of records into floats: the image layer writes the pixels of all images one after the other,
  read as bytes without a sign and normalised, the label layer writes the labels, and no other blob changes.
\<close>

theorem Parsers_parse:
  assumes "recs = da_records (ldata s k)" and "recs \<noteq> []" and "is_datalayer (lo_type (objs s k))"
    and "lo_type (objs s l) = kMnist" and "lo_srclayers (objs s l) = [k]" and "lo_type (objs s m) = kLabel" and "lo_srclayers (objs s m) = [k]"
    and "apart B (lmem s)" and "lo_data (objs s l) \<in> B" and "lo_data (objs s m) \<in> B"
    and "shape (blobs (lmem s) (lo_data (objs s l))) = [int (length recs), int n, int n]" and "bcount (blobs (lmem s) (lo_data (objs s l))) = int (length recs * n * n)"
    and "shape (blobs (lmem s) (lo_data (objs s m))) = [int (length recs)]" and "bcount (blobs (lmem s) (lo_data (objs s m))) = int (length recs)"
    and "\<forall>r \<in> set recs. (\<exists>sh. rec_shape r = sh @ [int n]) \<and> rec_pixel r \<noteq> [] \<and> n * n \<le> length (rec_pixel r) \<and> rec_label r < 278"
  shows "(\<exists>h. Parser_ComputeFeature rnds raw0 ph l s = Inr (s\<lparr>lmem := h\<rparr>) \<and> contents h (lo_data (objs s l)) = batch_pixels (objs s l) n recs \<and>
      (\<forall>b \<in> B - {lo_data (objs s l)}. contents h b = contents (lmem s) b)) \<and>
    (\<exists>h. Parser_ComputeFeature rnds raw0 ph m s = Inr (s\<lparr>lmem := h\<rparr>) \<and> contents h (lo_data (objs s m)) = map (\<lambda>r. real_of_int (rec_label r)) recs \<and>
      (\<forall>b \<in> B - {lo_data (objs s m)}. contents h b = contents (lmem s) b))"
proof -
  note hold = hold_start [OF assms(8)]
  have src: "src_dataobj s l = Inr (ldata s k)" "src_dataobj s m = Inr (ldata s k)" using assms(3,5,7) by (simp_all add: src_dataobj_def src_of_def idxR_def)
  obtain h where h: "Mnist_ParseRecords (objs s l) recs (lo_data (objs s l)) (lmem s) = Inr h"
    "hold B (lmem s) ((contents (lmem s))(lo_data (objs s l) := batch_pixels (objs s l) n recs)) h"
    using okRE [OF Mnist_parses [OF hold assms(9,11,12,2), of "objs s l"]] assms(15) by blast
  obtain h1 where h1: "Label_ParseRecords recs (lo_data (objs s m)) (lmem s) = Inr h1"
    "hold B (lmem s) ((contents (lmem s))(lo_data (objs s m) := map (\<lambda>r. real_of_int (rec_label r)) recs)) h1"
    using okRE [OF Label_parses [OF hold assms(10,13,14)]] assms(15) by blast
  have "Parser_ComputeFeature rnds raw0 ph l s = Inr (s\<lparr>lmem := h\<rparr>)" "Parser_ComputeFeature rnds raw0 ph m s = Inr (s\<lparr>lmem := h1\<rparr>)"
    using src h(1) h1(1) assms(1,4-7) by (simp_all add: Parser_ComputeFeature_def Let_def with_mem_def)
  moreover have "contents h (lo_data (objs s l)) = batch_pixels (objs s l) n recs" "\<forall>b \<in> B - {lo_data (objs s l)}. contents h b = contents (lmem s) b"
    using h(2) assms(9) by (simp_all add: hold_def)
  moreover have "contents h1 (lo_data (objs s m)) = map (\<lambda>r. real_of_int (rec_label r)) recs" "\<forall>b \<in> B - {lo_data (objs s m)}. contents h1 b = contents (lmem s) b"
    using h1(2) assms(10) by (simp_all add: hold_def)
  ultimately show ?thesis by blast
qed

definition parse_demo :: "real lstate" where
  "parse_demo = \<lparr>objs = (\<lambda>l. if l = 0 then LayerObj0 kShardData 0 0 [] [1, 2]
        else if l = 1 then (LayerObj0 kMnist 0 0 [0] [])\<lparr>lo_norm_a := 2, lo_norm_b := 1\<rparr> else LayerObj0 kLabel 1 1 [0] []), nobj = 3,
     lparams = (\<lambda>a. demo_param 0 0), nlparam = 0, lmem = shaped_heap [([1, 1, 1], [0]), ([1], [0])],
     ldata = (\<lambda>_. DataObj0\<lparr>da_records := [\<lparr>rec_shape = [1, 1], rec_label = 7, rec_pixel = [CHR 0xFF], rec_data = []\<rparr>]\<rparr>)\<rparr>"

theorem Parsers_parse_witness:
  "(\<exists>h. Parser_ComputeFeature [] (\<lambda>_. 0) kTrain 1 parse_demo = Inr (parse_demo\<lparr>lmem := h\<rparr>) \<and> contents h 0 = [255 / 2 - 1]) \<and>
    (\<exists>h. Parser_ComputeFeature [] (\<lambda>_. 0) kTrain 2 parse_demo = Inr (parse_demo\<lparr>lmem := h\<rparr>) \<and> contents h 1 = [7])"
proof -
  let ?vs = "[([1, 1, 1], [0]), ([1], [0])] :: (int list \<times> real list) list"
  have m: "lmem parse_demo = shaped_heap ?vs" by (simp add: parse_demo_def)
  have a: "apart {..<length ?vs} (lmem parse_demo)" unfolding m by (rule shaped_heap_apart(1)) (simp add: shape_count_def is_c_int_def)
  show ?thesis
    using Parsers_parse [OF refl, of parse_demo 0 1 2 "{..<length ?vs}" 1 "[]" "\<lambda>_. 0" kTrain] a
    by (simp add: parse_demo_def LayerObj0_def is_datalayer_def shaped_heap_def batch_pixels_def) blast
qed

end
