(* ===== verification/Net.thy ===== *)
theory Net
  imports Parsers
begin

text \<open>
  From the graph of a net to its layers (\<open>src/src/neuralnet/neuralnet.cc\<close>): \<open>CreateNetFromGraph\<close> creates an object for every node,
  connects the objects as the nodes are connected, sets them up in the order of the graph, numbers and names the parameters, and
  lets parameters share their values, by name and among the replicas of a layer that is partitioned over the batch.
\<close>

section \<open>Creation\<close>

text \<open>
  The virtual call \<open>layer->Setup\<close>; \<open>prefetch\<close> stands for the method of the prefetch layer, which sets up layers of its own. Objects of
  the remaining class are never created.
\<close>

definition virtual_Setup :: "env \<Rightarrow> (real LayerProto \<Rightarrow> int \<Rightarrow> nat \<Rightarrow> real lstate \<Rightarrow> real lstate res) \<Rightarrow> real LayerProto \<Rightarrow> int \<Rightarrow> nat \<Rightarrow>
    real lstate \<Rightarrow> real lstate res" where
  "virtual_Setup w prefetch lp np l s =
     (case lo_type (objs s l) of
        kBridgeSrc \<Rightarrow> Layer_Setup lp np l s
      | kBridgeDst \<Rightarrow> BridgeDst_Setup lp np l s
      | kConvolution \<Rightarrow> Convolution_Setup lp np l s
      | kConcate \<Rightarrow> Concate_Setup lp np l s
      | kShardData \<Rightarrow> ShardData_Setup w lp np l s
      | kDropout \<Rightarrow> Dropout_Setup lp np l s
      | kInnerProduct \<Rightarrow> InnerProduct_Setup lp np l s
      | kInput \<Rightarrow> Input_Setup lp np l s
      | kLabel \<Rightarrow> Label_Setup lp np l s
      | kLMDBData \<Rightarrow> Inl CheckFailed
      | kLRN \<Rightarrow> LRN_Setup lp np l s
      | kMnist \<Rightarrow> Mnist_Setup lp np l s
      | kOutput \<Rightarrow> Output_Setup lp np l s
      | kPooling \<Rightarrow> Pooling_Setup lp np l s
      | kPrefetch \<Rightarrow> prefetch lp np l s
      | kReLU \<Rightarrow> ReLU_Setup lp np l s
      | kRGBImage \<Rightarrow> RGBImage_Setup w lp np l s
      | kSoftmaxLoss \<Rightarrow> SoftmaxLoss_Setup lp np l s
      | kSlice \<Rightarrow> Slice_Setup lp np l s
      | kSplit \<Rightarrow> Split_Setup lp np l s
      | kTanh \<Rightarrow> Tanh_Setup lp np l s
      | kRBMVis \<Rightarrow> RBMVis_Setup lp np l s
      | kRBMHid \<Rightarrow> RBMHid_Setup lp np l s)"

text \<open>The members of a net. \<open>raw\<close> are the uninitialised members of a new object.\<close>

record net =
  layers :: "nat list"
  net_name2layer :: "string \<rightharpoonup> nat"
  parserlayers :: "nat list"
  losslayers :: "nat list"
  datalayers :: "nat list"
  params :: "nat list"
  paramid2param :: "int \<rightharpoonup> nat"

definition net_new :: net where
  "net_new = \<lparr>layers = [], net_name2layer = Map.empty, parserlayers = [], losslayers = [], datalayers = [], params = [], paramid2param = Map.empty\<rparr>"

definition create_layer :: "real LayerObj \<Rightarrow> real ngraph \<Rightarrow> net \<times> real lstate \<Rightarrow> nat \<Rightarrow> (net \<times> real lstate) res" where
  "create_layer raw g = (\<lambda>(net, s) a.
     bindR (proto_of g a) (\<lambda>lp.
     bindR (factory_Create (lp_type lp)) (\<lambda>t.
       let (l, s1) = Layer_new raw t s in
       Inr (net\<lparr>layers := layers net @ [l], net_name2layer := (net_name2layer net)(node_name (nd (gr g) a) \<mapsto> l)\<rparr>, s1))))"

text \<open>The layers of some nodes, looked up by name; a name that is missing would give a null pointer.\<close>

fun layers_of :: "net \<Rightarrow> Graph \<Rightarrow> nat list \<Rightarrow> nat list res" where
  "layers_of net G [] = Inr []"
| "layers_of net G (a # as) =
     (case net_name2layer net (node_name (nd G a)) of
        None \<Rightarrow> Inl Undefined
      | Some l \<Rightarrow> bindR (layers_of net G as) (\<lambda>ls. Inr (l # ls)))"

definition connect_node :: "net \<Rightarrow> Graph \<Rightarrow> real lstate \<Rightarrow> nat \<Rightarrow> real lstate res" where
  "connect_node net G s a =
     bindR (layers_of net G [a]) (\<lambda>ls.
     bindR (layers_of net G (dstnodes (nd G a))) (\<lambda>ds.
     bindR (layers_of net G (srcnodes (nd G a))) (\<lambda>ss.
       Inr (upd_obj (hd ls) (\<lambda>o1. o1\<lparr>lo_dstlayers := ds, lo_srclayers := ss\<rparr>) s))))"

section \<open>Setup\<close>

definition GetParams :: "'f LayerObj \<Rightarrow> nat list res" where
  "GetParams o1 =
     (if lo_type o1 \<in> {kConvolution, kInnerProduct, kRBMVis, kRBMHid}
      then bindR (deref (lo_weight o1)) (\<lambda>a. bindR (deref (lo_bias o1)) (\<lambda>b. Inr [a, b])) else Inr [])"

definition upd_param :: "nat \<Rightarrow> ('f Param \<Rightarrow> 'f Param) \<Rightarrow> 'f lstate \<Rightarrow> 'f lstate" where
  "upd_param a f s = s\<lparr>lparams := (lparams s)(a := f (lparams s a))\<rparr>"

text \<open>A parameter without a name gets that of its layer and as many dollar signs as there are such parameters so far.\<close>

definition name_param :: "string \<Rightarrow> int \<times> string \<times> real lstate \<Rightarrow> nat \<Rightarrow> int \<times> string \<times> real lstate" where
  "name_param nm = (\<lambda>(i, suffix, s) a.
     let s1 = upd_param a (set_id i) s in
     if pp_name (pproto (lparams s1 a)) = [] then
       (i + 1, suffix @ ''$'', upd_param a (\<lambda>p. p\<lparr>pproto := (pproto p)\<lparr>pp_name := nm @ suffix\<rparr>\<rparr>) s1)
     else (i + 1, suffix, s1))"

text \<open>
  One turn of the loop over the nodes: the next id, the layers that share parameters by the name of their origin, and the state.
\<close>

definition setup_node :: "env \<Rightarrow> (real LayerProto \<Rightarrow> int \<Rightarrow> nat \<Rightarrow> real lstate \<Rightarrow> real lstate res) \<Rightarrow> int \<Rightarrow> net \<Rightarrow> real ngraph \<Rightarrow>
    int \<times> (string \<times> nat) list \<times> real lstate \<Rightarrow> nat \<Rightarrow> (int \<times> (string \<times> nat) list \<times> real lstate) res" where
  "setup_node w prefetch np net g = (\<lambda>(i, share, s) a.
     bindR (layers_of net (gr g) [a]) (\<lambda>ls.
     let l = hd ls in
     bindR (proto_of g a) (\<lambda>lp.
     bindR (virtual_Setup w prefetch lp np l s) (\<lambda>s1.
     bindR (layer_data (Suc (nobj s1)) s1 l None kPositive) (\<lambda>_.
     bindR (GetParams (objs s1 l)) (\<lambda>ps.
     let (i2, _, s2) = foldl (name_param (lo_name (objs s1 l))) (i, ''$'', s1) ps in
       Inr (i2, if partition_dim (layer_proto (objs s2 l)) = 0 then share @ [(origin (nd (gr g) a), l)] else share, s2)))))))"

section \<open>Sharing\<close>

text \<open>\<open>ShareFrom\<close> of the parameter \<open>a\<close>.\<close>

definition share_param :: "real lstate \<Rightarrow> nat \<times> nat \<Rightarrow> real lstate res" where
  "share_param s = (\<lambda>(a, b). bindR (ShareFrom (lparams s b) (lparams s a) (lmem s)) (\<lambda>p. Inr (upd_param a (\<lambda>_. p) s)))"

text \<open>The layers with the origin \<open>nm\<close>, in order, and the origins.\<close>

definition replicas :: "(string \<times> nat) list \<Rightarrow> string \<Rightarrow> nat list" where
  "replicas share nm = map snd (filter (\<lambda>e. fst e = nm) share)"

definition origins :: "(string \<times> nat) list \<Rightarrow> string list" where
  "origins share = remdups (map fst share)"

text \<open>The map from names to parameters: a later parameter of a name replaces an earlier one, the first replica replaces all.\<close>

definition note_params :: "real lstate \<Rightarrow> (string \<rightharpoonup> nat) \<Rightarrow> nat \<Rightarrow> (string \<rightharpoonup> nat) res" where
  "note_params s m l =
     bindR (GetParams (objs s l)) (\<lambda>ps. Inr (foldl (\<lambda>m a. m(pp_name (pproto (lparams s a)) \<mapsto> a)) m ps))"

definition share_replica :: "nat list \<Rightarrow> real lstate \<Rightarrow> nat \<Rightarrow> real lstate res" where
  "share_replica owner s l =
     bindR (GetParams (objs s l)) (\<lambda>ps.
       checkR (length ps = length owner) CheckFailed (foldR share_param s (zip ps owner)))"

definition share_group :: "(string \<times> nat) list \<Rightarrow> real lstate \<Rightarrow> string \<Rightarrow> real lstate res" where
  "share_group share s nm =
     (case replicas share nm of
        [] \<Rightarrow> Inl Undefined
      | l0 # ls \<Rightarrow> bindR (GetParams (objs s l0)) (\<lambda>owner. foldR (share_replica owner) s ls))"

text \<open>
  \<open>name2param\<close> is a hash map: \<open>order\<close> is the order in which it lists its entries. \<open>sort_names\<close> is the order of a \<open>map\<close> of strings.
\<close>

definition share_by_name :: "(string \<rightharpoonup> nat) \<Rightarrow> real lstate \<Rightarrow> nat \<Rightarrow> real lstate res" where
  "share_by_name m s a =
     (let from1 = pp_share_from (pproto (lparams s a)) in
      if from1 = [] then Inr s
      else case m from1 of None \<Rightarrow> Inl CheckFailed | Some b \<Rightarrow> share_param s (a, b))"

definition CreateNetFromGraph :: "env \<Rightarrow> (real LayerProto \<Rightarrow> int \<Rightarrow> nat \<Rightarrow> real lstate \<Rightarrow> real lstate res) \<Rightarrow> real LayerObj \<Rightarrow>
    ((string \<rightharpoonup> nat) \<Rightarrow> nat list) \<Rightarrow> (string list \<Rightarrow> string list) \<Rightarrow> real ngraph \<Rightarrow> int \<Rightarrow> real lstate \<Rightarrow> (net \<times> real lstate) res" where
  "CreateNetFromGraph w prefetch raw order sort_names g np s0 =
     bindR (foldR (create_layer raw g) (net_new, s0) (nodes_ids (gr g))) (\<lambda>(net, s1).
     bindR (foldR (connect_node net (gr g)) s1 (nodes_ids (gr g))) (\<lambda>s2.
     bindR (foldR (setup_node w prefetch np net g) (0, [], s2) (nodes_ids (gr g))) (\<lambda>(_, share, s3).
     bindR (foldR (note_params s3) Map.empty (layers net)) (\<lambda>m.
     bindR (foldR (note_params s3) m (map (\<lambda>nm. hd (replicas share nm)) (sort_names (origins share)))) (\<lambda>m1.
     bindR (foldR (share_by_name m1) s3 (order m1)) (\<lambda>s4.
     bindR (foldR (share_group share) s4 (sort_names (origins share))) (\<lambda>s5. Inr (net, s5))))))))"

section \<open>The net\<close>

definition prepare_layer :: "real lstate \<Rightarrow> net \<Rightarrow> nat \<Rightarrow> net res" where
  "prepare_layer s net l =
     (let t = lo_type (objs s l);
          n1 = net\<lparr>net_name2layer := (net_name2layer net)(lo_name (objs s l) \<mapsto> l),
                 parserlayers := parserlayers net @ (if is_parserlayer t then [l] else []),
                 losslayers := losslayers net @ (if is_losslayer t then [l] else []),
                 datalayers := datalayers net @ (if is_datalayer t then [l] else [])\<rparr> in
      bindR (GetParams (objs s l)) (\<lambda>ps.
        Inr (n1\<lparr>params := params n1 @ ps, paramid2param := foldl (\<lambda>m a. m(pp_id (pproto (lparams s a)) \<mapsto> a)) (paramid2param n1) ps\<rparr>)))"

definition PrepareDataStructures :: "real lstate \<Rightarrow> net \<Rightarrow> net res" where
  "PrepareDataStructures s net = foldR (prepare_layer s) (net_new\<lparr>layers := layers net\<rparr>) (layers net)"

definition NeuralNet_new :: "env \<Rightarrow> (real LayerProto \<Rightarrow> int \<Rightarrow> nat \<Rightarrow> real lstate \<Rightarrow> real lstate res) \<Rightarrow> real LayerObj \<Rightarrow>
    ((string \<rightharpoonup> nat) \<Rightarrow> nat list) \<Rightarrow> (string list \<Rightarrow> string list) \<Rightarrow> real LayerProto list \<Rightarrow> int \<Rightarrow> real lstate \<Rightarrow> (net \<times> real lstate) res option" where
  "NeuralNet_new w prefetch raw order sort_names ls np s =
     bindOR (CreateGraph ls np) (\<lambda>g.
       Some (bindR (CreateNetFromGraph w prefetch raw order sort_names g np s) (\<lambda>(net, s1).
         bindR (PrepareDataStructures s1 net) (\<lambda>net1. Inr (net1, s1)))))"

text \<open>Layers with the same name share their parameters, replicas of a layer of the other net by the last one.\<close>

definition share_layer :: "net \<Rightarrow> real lstate \<Rightarrow> nat \<Rightarrow> real lstate res" where
  "share_layer other s l =
     (case net_name2layer other (lo_name (objs s l)) of
        None \<Rightarrow> Inr s
      | Some k \<Rightarrow> bindR (GetParams (objs s k)) (\<lambda>owner. share_replica owner s l))"

definition ShareParamsFrom :: "net \<Rightarrow> net \<Rightarrow> real lstate \<Rightarrow> real lstate res" where
  "ShareParamsFrom net other s = foldR (share_layer other) s (layers net)"

section \<open>Replicas share their values\<close>

text \<open>What \<open>ShareFrom\<close> leaves in a parameter.\<close>

definition shared :: "'f Param \<Rightarrow> 'f Param \<Rightarrow> 'f Param" where
  "shared p q = p\<lparr>pproto := (pproto p)\<lparr>pp_owner := pp_owner (pproto q)\<rparr>, pdata := pdata q, slice_offset := slice_offset q,
     slice_size := slice_size q, slice_start := slice_start q, num_slices := num_slices q, pending_get := pending_get q,
     pending_put := pending_put q, pending_update := pending_update q\<rparr>"

definition same_shape :: "'f lstate \<Rightarrow> nat \<Rightarrow> nat \<Rightarrow> bool" where
  "same_shape s a b \<longleftrightarrow> (\<exists>d e. pdata (lparams s a) = Some d \<and> pdata (lparams s b) = Some e \<and> shape (blobs (lmem s) d) = shape (blobs (lmem s) e))"

lemma std_equal_same: "std_equal xs xs = Inr True"
  by (induction xs) simp_all

lemma share_param_ok: "same_shape s a b \<Longrightarrow> share_param s (a, b) = Inr (upd_param a (\<lambda>p. shared p (lparams s b)) s)"
  by (auto simp: share_param_def same_shape_def ShareFrom_def data_blob_def std_equal_same shared_def upd_param_def)

lemma share_params_ok:
  assumes "distinct (map fst ps)" and "set (map fst ps) \<inter> set (map snd ps) = {}" and "\<forall>(a, b) \<in> set ps. same_shape s a b"
  shows "foldR share_param s ps = Inr (s\<lparr>lparams := \<lambda>a. case map_of ps a of None \<Rightarrow> lparams s a | Some b \<Rightarrow> shared (lparams s a) (lparams s b)\<rparr>)"
  using assms
proof (induction ps arbitrary: s)
  case (Cons x ps)
  obtain a b where x: "x = (a, b)" by (cases x)
  let ?s = "upd_param a (\<lambda>p. shared p (lparams s b)) s"
  have a: "a \<notin> set (map fst ps)" "a \<notin> set (map snd ps)" using Cons.prems(1,2) x by auto
  have "same_shape ?s c d" if "(c, d) \<in> set ps" for c d
  proof -
    have "c \<noteq> a" "d \<noteq> a" using a that by force+
    then show ?thesis using Cons.prems(3) that x by (auto simp: same_shape_def upd_param_def)
  qed
  then have ih: "foldR share_param ?s ps =
      Inr (?s\<lparr>lparams := \<lambda>c. case map_of ps c of None \<Rightarrow> lparams ?s c | Some d \<Rightarrow> shared (lparams ?s c) (lparams ?s d)\<rparr>)"
    using Cons.IH [of ?s] Cons.prems(1,2) x by auto
  have "(case map_of ps c of None \<Rightarrow> lparams ?s c | Some d \<Rightarrow> shared (lparams ?s c) (lparams ?s d)) =
      (case map_of (x # ps) c of None \<Rightarrow> lparams s c | Some d \<Rightarrow> shared (lparams s c) (lparams s d))" for c
  proof (cases "map_of ps c")
    case None
    then show ?thesis using x by (simp add: upd_param_def)
  next
    case (Some d)
    then have "(c, d) \<in> set ps" by (rule map_of_SomeD)
    then have "c \<noteq> a" "d \<noteq> a" using a by force+
    then show ?thesis using Some x by (simp add: upd_param_def)
  qed
  moreover have "share_param s (a, b) = Inr ?s" using share_param_ok Cons.prems(3) x by auto
  ultimately show ?case using ih x by (simp add: upd_param_def cong: option.case_cong)
qed simp

text \<open>The parameters of a layer that has been set up.\<close>

definition params_of :: "'f lstate \<Rightarrow> nat \<Rightarrow> nat list" where
  "params_of s l = (case GetParams (objs s l) of Inl e \<Rightarrow> [] | Inr ps \<Rightarrow> ps)"

lemma share_replicas_flat:
  assumes "\<forall>l \<in> set ls. GetParams (objs s l) = Inr (params_of s l) \<and> length (params_of s l) = length owner"
  shows "foldR (share_replica owner) s ls = foldR share_param s (concat (map (\<lambda>l. zip (params_of s l) owner) ls))"
  using assms
proof (induction ls arbitrary: s)
  case (Cons l ls)
  have objs: "objs s1 = objs s" if "foldR share_param s ps = Inr s1" for ps s1
    using that
  proof (induction ps arbitrary: s)
    case (Cons p ps)
    obtain a b where p: "p = (a, b)" by (cases p)
    obtain s2 where s2: "share_param s p = Inr s2" "foldR share_param s2 ps = Inr s1" using Cons.prems by (auto simp: bindR_eq_Inr)
    have "objs s2 = objs s" using s2(1) p by (auto simp: share_param_def bindR_eq_Inr upd_param_def)
    then show ?case using Cons.IH s2(2) by simp
  qed simp
  have l: "share_replica owner s l = foldR share_param s (zip (params_of s l) owner)" using Cons.prems by (simp add: share_replica_def)
  show ?case
  proof (cases "foldR share_param s (zip (params_of s l) owner)")
    case (Inr s1)
    then have "params_of s1 = params_of s" "objs s1 = objs s" using objs by (auto simp: params_of_def)
    then show ?thesis using Cons.IH [of s1] Cons.prems l Inr by (simp add: foldR_append)
  qed (use l in \<open>simp add: foldR_append\<close>)
qed simp

text \<open>
  C?. The replicas of a layer share the values of the first one: after the last stage of \<open>CreateNetFromGraph\<close> each parameter of a
  replica has the data blob, the slices and the owner of the parameter in its place in the first replica, keeps a gradient blob of
  its own, and no other parameter, object or blob changes.
\<close>

theorem replicas_share:
  assumes "replicas share nm = l0 # ls" and "\<forall>l \<in> set (l0 # ls). GetParams (objs s l) = Inr (params_of s l)"
    and "distinct (concat (map (params_of s) (l0 # ls)))" and "\<forall>l \<in> set ls. length (params_of s l) = length (params_of s l0)"
    and "\<forall>l \<in> set ls. \<forall>(a, b) \<in> set (zip (params_of s l) (params_of s l0)). same_shape s a b"
  shows "\<exists>s1. share_group share s nm = Inr s1 \<and>
    (\<forall>l \<in> set ls. \<forall>(a, b) \<in> set (zip (params_of s l) (params_of s l0)). lparams s1 a = shared (lparams s a) (lparams s1 b)) \<and>
    (\<forall>a. a \<notin> set (concat (map (params_of s) ls)) \<longrightarrow> lparams s1 a = lparams s a) \<and>
    objs s1 = objs s \<and> lmem s1 = lmem s"
proof -
  let ?o = "params_of s l0"
  let ?ps = "concat (map (\<lambda>l. zip (params_of s l) ?o) ls)"
  let ?l = "\<lambda>a. case map_of ?ps a of None \<Rightarrow> lparams s a | Some b \<Rightarrow> shared (lparams s a) (lparams s b)"
  have fst: "map fst ?ps = concat (map (params_of s) ls)" using assms(4) by (simp add: map_concat comp_def cong: map_cong)
  have d: "distinct (map fst ?ps)" "set (map fst ?ps) \<inter> set ?o = {}" using assms(3) unfolding fst by auto
  have sub: "set (map snd ?ps) \<subseteq> set ?o" by (auto dest: set_zip_rightD)
  have run: "share_group share s nm =
      Inr (s\<lparr>lparams := ?l\<rparr>)"
    using share_params_ok [OF d(1), of s] d(2) sub assms(1,2,4,5) share_replicas_flat [of ls s ?o]
    by (auto simp: share_group_def)
  have old: "map_of ?ps b = None" if "b \<in> set ?o" for b using d(2) that unfolding map_of_eq_None_iff set_map by blast
  have "map_of ?ps a = Some b" if "l \<in> set ls" "(a, b) \<in> set (zip (params_of s l) ?o)" for l a b
    using that d(1) by (intro map_of_is_SomeI) auto
  then have new: "lparams s1 a = shared (lparams s a) (lparams s1 b)" if "lparams s1 = ?l" "l \<in> set ls" "(a, b) \<in> set (zip (params_of s l) ?o)" for s1 l a b
    using that old [OF set_zip_rightD [OF that(3)]] by simp
  have frame: "?l a = lparams s a" if "a \<notin> set (concat (map (params_of s) ls))" for a
  proof -
    have "a \<notin> set (map fst ?ps)" using that unfolding fst .
    then have "map_of ?ps a = None" unfolding map_of_eq_None_iff set_map by blast
    then show ?thesis by simp
  qed
  show ?thesis
  proof (intro exI conjI)
    show "share_group share s nm = Inr (s\<lparr>lparams := ?l\<rparr>)" by (rule run)
    show "\<forall>l \<in> set ls. \<forall>(a, b) \<in> set (zip (params_of s l) ?o). lparams (s\<lparr>lparams := ?l\<rparr>) a = shared (lparams s a) (lparams (s\<lparr>lparams := ?l\<rparr>) b)"
      using new [of "s\<lparr>lparams := ?l\<rparr>"] by auto
    show "\<forall>a. a \<notin> set (concat (map (params_of s) ls)) \<longrightarrow> lparams (s\<lparr>lparams := ?l\<rparr>) a = lparams s a" using frame by simp
  qed simp_all
qed

definition share_demo :: "real lstate" where
  "share_demo = \<lparr>objs = (\<lambda>l. (LayerObj0 kInnerProduct 0 1 [] [])\<lparr>lo_weight := Some (2 * l), lo_bias := Some (2 * l + 1)\<rparr>), nobj = 2,
     lparams = (\<lambda>a. (demo_param a (a + 10))\<lparr>pproto := (pproto (demo_param 0 0))\<lparr>pp_owner := int a\<rparr>\<rparr>), nlparam = 4,
     lmem = shaped_heap (replicate 14 ([1, 1], [0])), ldata = (\<lambda>_. DataObj0)\<rparr>"

theorem replicas_share_witness:
  "\<exists>s1. share_group [(''fc'', 0), (''fc'', 1)] share_demo ''fc'' = Inr s1 \<and> pdata (lparams s1 2) = Some 0 \<and> pgrad (lparams s1 2) = 12 \<and>
    pp_owner (pproto (lparams s1 3)) = 1 \<and> lparams s1 0 = lparams share_demo 0"
proof -
  have p: "params_of share_demo l = [2 * l, 2 * l + 1]" "GetParams (objs share_demo l) = Inr [2 * l, 2 * l + 1]" for l
    by (simp_all add: params_of_def GetParams_def share_demo_def LayerObj0_def deref_def)
  have sh: "same_shape share_demo a b" if "a < 4" "b < 4" for a b
    using that by (simp add: same_shape_def share_demo_def demo_param_def shaped_heap_def)
  obtain s1 where s1: "share_group [(''fc'', 0), (''fc'', 1)] share_demo ''fc'' = Inr s1"
    "\<forall>l \<in> set [1]. \<forall>(a, b) \<in> set (zip (params_of share_demo l) (params_of share_demo 0)). lparams s1 a = shared (lparams share_demo a) (lparams s1 b)"
    "\<forall>a. a \<notin> set (concat (map (params_of share_demo) [1])) \<longrightarrow> lparams s1 a = lparams share_demo a"
    using replicas_share [of "[(''fc'', 0), (''fc'', 1)]" "''fc''" 0 "[1]" share_demo] sh by (auto simp: replicas_def p)
  have "lparams s1 0 = lparams share_demo 0" "lparams s1 1 = lparams share_demo 1" using s1(3) by (simp_all add: p)
  moreover have "lparams s1 2 = shared (lparams share_demo 2) (lparams s1 0)" "lparams s1 3 = shared (lparams share_demo 3) (lparams s1 1)"
    using s1(2) by (simp_all add: p numeral_3_eq_3)
  ultimately show ?thesis using s1(1) by (auto simp: shared_def share_demo_def demo_param_def)
qed

section \<open>New objects are apart\<close>

lemma neat_news: "neat h \<Longrightarrow> neat (((\<lambda>h. snd (Blob_new h)) ^^ n) h) \<and> nblob (((\<lambda>h. snd (Blob_new h)) ^^ n) h) = nblob h + n"
  using neat_Blob_new by (induction n) auto

lemma wf_net_new:
  assumes "wf_net s"
  shows "wf_net (snd (Layer_new raw t s))" "fst (Layer_new raw t s) = nobj s" "nobj (snd (Layer_new raw t s)) = Suc (nobj s)"
proof -
  let ?s = "snd (Layer_new raw t s)" and ?n = "nblob (lmem s)"
  show "fst (Layer_new raw t s) = nobj s" "nobj ?s = Suc (nobj s)" by (simp_all add: Layer_new_def Let_def)
  have n: "neat (lmem ?s)" "nblob (lmem ?s) = ?n + 9" using assms neat_news [of "lmem s" 9] by (simp_all add: Layer_new_def Let_def wf_net_def)
  have old: "objs ?s k = objs s k" if "k < nobj s" for k using that by (simp add: Layer_new_def Let_def)
  have p: "lparams ?s = lparams s" "nlparam ?s = nlparam s" by (simp_all add: Layer_new_def Let_def)
  have o: "owned ?s k = owned s k" "ptrs (objs ?s k) = ptrs (objs s k)" if "k < nobj s" for k using old [OF that] p by (simp_all add: owned_def)
  have new: "owned ?s (nobj s) = [?n, ?n + 1, ?n + 2, ?n + 3, ?n + 4, ?n + 5, ?n + 6, ?n + 7, ?n + 8]" "ptrs (objs ?s (nobj s)) = []"
    by (simp_all add: Layer_new_def Let_def owned_def members_def ptrs_def)
  have lt: "set (owned s k) \<subseteq> {..<?n}" "set (ptrs (objs s k)) \<subseteq> {..<nlparam s}" if "k < nobj s" for k using assms that by (simp_all add: wf_net_def)
  show "wf_net ?s"
    unfolding wf_net_def
  proof (intro conjI allI impI)
    show "neat (lmem ?s)" by (rule n(1))
    fix k assume "k < nobj ?s"
    then have "k < nobj s \<or> k = nobj s" by (auto simp: Layer_new_def Let_def)
    then have k: "k < nobj s \<and> k \<noteq> nobj s \<or> k = nobj s" by auto
    show "distinct (owned ?s k)" using k assms o new(1) by (auto simp: wf_net_def)
    show "set (owned ?s k) \<subseteq> {..<nblob (lmem ?s)}" using k o new(1) lt(1) [of k] n(2) by fastforce
    show "set (ptrs (objs ?s k)) \<subseteq> {..<nlparam ?s}" using k lt(2) [of k] o(2) [of k] new(2) p(2) by auto
    fix j assume "j < nobj ?s" "k \<noteq> j"
    then have j: "j < nobj s \<and> j \<noteq> nobj s \<or> j = nobj s" by (auto simp: Layer_new_def Let_def)
    have "set (owned ?s (nobj s)) \<inter> set (owned s i) = {}" if "i < nobj s" for i using lt(1) [OF that] by (auto simp: new(1))
    then show "set (owned ?s k) \<inter> set (owned ?s j) = {}"
      using k j \<open>k \<noteq> j\<close> assms o by (elim disjE) (auto simp: wf_net_def)
  qed
qed

lemma wf_net_upd:
  assumes "wf_net s" and "\<And>o1. members (f o1) = members o1 \<and> lo_weight (f o1) = lo_weight o1 \<and> lo_bias (f o1) = lo_bias o1"
  shows "wf_net (upd_obj l f s)"
proof -
  have "owned (upd_obj l f s) k = owned s k" "ptrs (objs (upd_obj l f s) k) = ptrs (objs s k)" for k
    using assms(2) by (cases "k = l"; simp add: owned_def ptrs_def)+
  then show ?thesis using assms(1) by (simp add: wf_net_def)
qed

end
