(* ===== verification/Typing.thy ===== *)
theory Typing
  imports Net
begin

text \<open>
  Nets are typed by the shapes of their layers: from the configuration of a layer and the shape of its source follows the shape
  of its blobs, or the configuration is rejected. The \<open>Setup\<close> methods of a chain of layers whose shapes check succeed one after
  the other, and the net that they leave is wired in the way that the theorems on features and gradients ask for.
\<close>

section \<open>Sources\<close>

text \<open>Layers whose blobs are their own: no bridge, slice or prefetch layer, no layer of records or of an RBM.\<close>

definition plain :: "LayerType \<Rightarrow> bool" where
  "plain t \<longleftrightarrow> t \<notin> {kBridgeSrc, kSlice, kPrefetch, kRBMVis, kRBMHid} \<and> \<not> is_datalayer t"

definition has_grad :: "LayerType \<Rightarrow> bool" where
  "has_grad t \<longleftrightarrow> \<not> is_parserlayer t \<and> \<not> is_losslayer t"

lemma plain_getters:
  assumes "src_of s l i = Inr k" and "plain (lo_type (objs s k))"
  shows "src_data s l i ph = Inr (lo_data (objs s k))" and "src_mutable_data s l i ph = Inr (Some (lo_data (objs s k)))"
    and "src_mutable_grad s l i = Inr (if has_grad (lo_type (objs s k)) then Some (lo_grad (objs s k)) else None)"
    and "has_grad (lo_type (objs s k)) \<Longrightarrow> src_grad s l i = Inr (lo_grad (objs s k))"
  using assms
  by (auto simp: src_data_def src_mutable_data_def src_mutable_grad_def src_grad_def plain_def has_grad_def Let_def)

text \<open>The first source of \<open>l\<close> is \<open>k\<close>, whose data, and gradient where it has one, have the shape \<open>sh\<close>.\<close>

definition feeds :: "real lstate \<Rightarrow> nat \<Rightarrow> nat \<Rightarrow> int list \<Rightarrow> bool" where
  "feeds s k l sh \<longleftrightarrow> (\<exists>r. lo_srclayers (objs s l) = k # r) \<and> k < nobj s \<and> l < nobj s \<and> k \<noteq> l \<and> plain (lo_type (objs s k)) \<and>
     sized (lmem s) (lo_data (objs s k)) sh \<and>
     (has_grad (lo_type (objs s k)) \<longrightarrow> sized (lmem s) (lo_grad (objs s k)) sh)"

lemma feeds_src: "feeds s k l sh \<Longrightarrow> src_of s l 0 = Inr k"
  by (auto simp: feeds_def src_of_def idxR_def)

lemma feeds_leaves:
  assumes "feeds s k l sh" and "leaves l s s1" and "wf_net s"
  shows "feeds s1 k l sh"
proof -
  have k: "k < nobj s" "l < nobj s" "k \<noteq> l" using assms(1) by (auto simp: feeds_def)
  have "set (owned s k) \<inter> set (owned s l) = {}" using assms(3) k by (simp add: wf_net_def)
  then have "lo_data (objs s k) \<notin> set (members (objs s l))" "lo_grad (objs s k) \<notin> set (members (objs s l))"
    by (auto simp: owned_def members_def)
  then show ?thesis using assms(1,2) unfolding feeds_def leaves_def by (auto simp: sized_def)
qed

text \<open>The layer and its blobs as a link of a stack, read off the object.\<close>

definition weight_of :: "real lstate \<Rightarrow> nat option \<Rightarrow> nat" where
  "weight_of s p = (case p of None \<Rightarrow> 0 | Some a \<Rightarrow> (case pdata (lparams s a) of None \<Rightarrow> 0 | Some b \<Rightarrow> b))"

definition gweight_of :: "real lstate \<Rightarrow> nat option \<Rightarrow> nat" where
  "gweight_of s p = (case p of None \<Rightarrow> 0 | Some a \<Rightarrow> pgrad (lparams s a))"

definition input_of :: "real lstate \<Rightarrow> nat \<Rightarrow> nat" where
  "input_of s l = (case src_mutable_data s l 0 kPositive of Inr (Some b) \<Rightarrow> b | _ \<Rightarrow> 0)"

definition ginput_of :: "real lstate \<Rightarrow> nat \<Rightarrow> nat option" where
  "ginput_of s l = (case src_mutable_grad s l 0 of Inr g \<Rightarrow> g | Inl e \<Rightarrow> None)"

definition ginput0 :: "real lstate \<Rightarrow> nat \<Rightarrow> nat" where
  "ginput0 s l = (case ginput_of s l of None \<Rightarrow> 0 | Some g \<Rightarrow> g)"

definition link_of :: "(nat \<Rightarrow> real list) \<Rightarrow> real lstate \<Rightarrow> nat \<Rightarrow> link" where
  "link_of rs s l =
     (let o1 = objs s l; n = nat (lo_batchsize o1); c = nat (lo_channels o1); h = nat (lo_height o1); w = nat (lo_width o1);
          el = \<lparr>el_x = input_of s l, el_y = lo_data o1, el_gy = lo_grad o1, el_gx = ginput0 s l\<rparr>; cnt = nat (count_at s (lo_data o1)) in
      case lo_type o1 of
        kInnerProduct \<Rightarrow> Fc l n (nat (lo_vdim o1)) (nat (lo_hdim o1)) \<lparr>fc_x = input_of s l, fc_y = lo_data o1, fc_gy = lo_grad o1,
          fc_w = weight_of s (lo_weight o1), fc_b = weight_of s (lo_bias o1), fc_gw = gweight_of s (lo_weight o1),
          fc_gb = gweight_of s (lo_bias o1), fc_gx = ginput_of s l\<rparr>
      | kTanh \<Rightarrow> Stanh l cnt el
      | kDropout \<Rightarrow> Drop l cnt (rs l) (dropout_mask (lo_pdrop o1) cnt (rs l)) el (lo_mask o1)
      | kConvolution \<Rightarrow> Conv l (shape_of_conv o1 n c h w (nat (lo_num_filters o1))) \<lparr>cv_bx = input_of s l, cv_by = lo_data o1,
          cv_bgy = lo_grad o1, cv_bw = weight_of s (lo_weight o1), cv_bb = weight_of s (lo_bias o1), cv_bgw = gweight_of s (lo_weight o1),
          cv_bgb = gweight_of s (lo_bias o1), cv_bgx = ginput_of s l, cv_bcol = lo_col_data o1, cv_bgcol = lo_col_grad o1\<rparr>
      | kPooling \<Rightarrow> Pool l n c (lo_pool o1) (shape_of_pool o1 (n * c) h w) el
      | kLRN \<Rightarrow> Lrn l (shape_of_lrn o1 n c h w) \<lparr>lr_x = input_of s l, lr_y = lo_data o1, lr_gy = lo_grad o1, lr_gx = ginput0 s l,
          lr_norm = lo_norm o1\<rparr>
      | _ \<Rightarrow> Relu l cnt el)"

text \<open>The loss layer on top.\<close>

definition top_of :: "real lstate \<Rightarrow> nat \<Rightarrow> sm_top" where
  "top_of s l =
     (let o1 = objs s l in
      \<lparr>top_l = l, top_n = nat (lo_batchsize o1), top_m = nat (lo_dim o1), top_sc = lo_scale o1,
       top_c = \<lparr>sm_x = input_of s l, sm_lab = (case src_data s l 1 kPositive of Inr b \<Rightarrow> b | Inl e \<Rightarrow> 0), sm_p = lo_data o1, sm_gx = ginput0 s l\<rparr>\<rparr>)"

section \<open>The shapes of a net\<close>

text \<open>
  The shape that a layer gives to its blobs, for sources of shape \<open>sh\<close>; \<open>None\<close> where the configuration does not fit.
\<close>

definition fc_shape :: "real LayerProto \<Rightarrow> int \<Rightarrow> int list \<Rightarrow> int list option" where
  "fc_shape lp np sh =
     (let out = innerproduct_num_output (conf lp); m = (if 0 < partition_dim lp then out sdiv np else out) in
      case sh of
        [] \<Rightarrow> None
      | n # r \<Rightarrow> if shape_ok [n, m] \<and> shape_ok [prod_list r, m] \<and> is_c_int out \<and> is_c_int np \<and> 2 \<le> length (lp_param lp) then Some [n, m] else None)"

definition conv_shape_of :: "real LayerProto \<Rightarrow> int \<Rightarrow> int list \<Rightarrow> int list option" where
  "conv_shape_of lp np sh =
     (let k = conv_kernel (conf lp); p = conv_pad (conf lp); str = conv_stride (conf lp); nf = conv_num_filters (conf lp);
          f = (if 0 < partition_dim lp then nf sdiv np else nf) in
      case sh of
        [n, c, h, w] \<Rightarrow>
          let oh = (h + 2 * p - k) div str + 1; ow = (w + 2 * p - k) div str + 1 in
          if 0 < k \<and> 0 < str \<and> 0 \<le> p \<and> is_c_int (h + 2 * p) \<and> is_c_int (w + 2 * p) \<and> k \<le> h + 2 * p \<and> k \<le> w + 2 * p \<and>
             is_c_int nf \<and> is_c_int np \<and> shape_ok sh \<and> shape_ok [n, f, oh, ow] \<and> shape_ok [c * k * k, oh * ow] \<and> shape_ok [f, c * k * k] \<and>
             2 \<le> length (lp_param lp)
          then Some [n, f, oh, ow] else None
      | _ \<Rightarrow> None)"

definition pool_shape_of :: "real LayerProto \<Rightarrow> int list \<Rightarrow> int list option" where
  "pool_shape_of lp sh =
     (let k = pooling_kernel (conf lp); str = pooling_stride (conf lp) in
      case sh of
        [n, c, h, w] \<Rightarrow>
          let oh = (h - k) div str + 1; ow = (w - k) div str + 1 in
          if 0 < k \<and> 0 < str \<and> k \<le> h \<and> k \<le> w \<and> shape_ok sh \<and> shape_ok [n, c, oh, ow] then Some [n, c, oh, ow] else None
      | _ \<Rightarrow> None)"

definition lrn_shape_of :: "real LayerProto \<Rightarrow> int list \<Rightarrow> int list option" where
  "lrn_shape_of lp sh =
     (let k = lrn_local_size (conf lp) in
      case sh of [n, c, h, w] \<Rightarrow> if 0 < k \<and> odd k \<and> k \<le> c \<and> shape_ok sh then Some sh else None | _ \<Rightarrow> None)"

text \<open>Layers without weights write the gradient of their source, which so must have one (\<open>hg\<close>).\<close>

definition layer_shape :: "real LayerProto \<Rightarrow> LayerType \<Rightarrow> int \<Rightarrow> bool \<Rightarrow> int list \<Rightarrow> int list option" where
  "layer_shape lp t np hg sh =
     (case t of
        kInnerProduct \<Rightarrow> fc_shape lp np sh
      | kConvolution \<Rightarrow> conv_shape_of lp np sh
      | kPooling \<Rightarrow> if hg then pool_shape_of lp sh else None
      | kLRN \<Rightarrow> if hg then lrn_shape_of lp sh else None
      | kReLU \<Rightarrow> if hg \<and> shape_ok sh then Some sh else None
      | kTanh \<Rightarrow> if hg \<and> shape_ok sh then Some sh else None
      | kDropout \<Rightarrow> if hg \<and> shape_ok sh then Some sh else None
      | _ \<Rightarrow> None)"

text \<open>What Setup achieves for a layer of a stack; \<open>rs\<close> are the random numbers that dropout layers will draw.\<close>

definition wired :: "real lstate \<Rightarrow> nat \<Rightarrow> bool" where
  "wired s l \<longleftrightarrow> (\<forall>rs. nat (count_at s (lo_data (objs s l))) \<le> length (rs l) \<longrightarrow> lk_wired s (link_of rs s l)) \<and>
     (\<forall>rs. \<forall>b \<in> set (lk_own (link_of rs s l)). \<exists>sh. sized (lmem s) b sh)"

definition ready :: "real lstate \<Rightarrow> nat \<Rightarrow> int list \<Rightarrow> real lstate \<Rightarrow> bool" where
  "ready s l sh s1 \<longleftrightarrow> wf_net s1 \<and> leaves l s s1 \<and> sized (lmem s1) (lo_data (objs s1 l)) sh \<and> sized (lmem s1) (lo_grad (objs s1 l)) sh \<and>
     wired s1 l"

lemma Layer_Setup_ok:
  assumes "wf_net s" and "1 \<le> np" and "feeds s k l sh"
  obtains s1 where "Layer_Setup lp np l s = Inr s1" "wf_net s1" "leaves l s s1" "feeds s1 k l sh" "lmem s1 = lmem s"
    "objs s1 l = (objs s l)\<lparr>layer_proto := lp\<rparr>"
proof -
  have k: "keeps (\<lambda>o1. o1\<lparr>layer_proto := lp\<rparr>)" by (simp add: keeps_def members_def)
  show ?thesis
    by (rule that [of "upd_obj l (\<lambda>o1. o1\<lparr>layer_proto := lp\<rparr>) s"])
      (use upd_obj_keeps [OF assms(1) k] feeds_leaves [OF assms(3) _ assms(1)] assms(2) in \<open>simp_all add: Layer_Setup_def\<close>)
qed

lemma reshape_ok:
  assumes "wf_net s" and "l < nobj s" and "b \<in> set (members (objs s l))" and "shape_ok sh"
  shows "\<exists>h. reshape b sh s = Inr (s\<lparr>lmem := h\<rparr>) \<and> wf_net (s\<lparr>lmem := h\<rparr>) \<and> leaves l s (s\<lparr>lmem := h\<rparr>) \<and> sized h b sh \<and>
    (\<forall>c sh. c \<noteq> b \<longrightarrow> sized (lmem s) c sh \<longrightarrow> sized h c sh) \<and> (\<forall>c. c \<noteq> b \<longrightarrow> blobs h c = blobs (lmem s) c)"
proof -
  obtain s1 where s1: "reshape b sh s = Inr s1" "wf_net s1" "leaves l s s1" "s1 = s\<lparr>lmem := lmem s1\<rparr>" "sized (lmem s1) b sh"
    "nblob (lmem s1) = nblob (lmem s)" "\<forall>c. c \<noteq> b \<longrightarrow> blobs (lmem s1) c = blobs (lmem s) c"
    using okR_reshape [OF assms] by (auto elim: okRE)
  show ?thesis
    by (rule exI [of _ "lmem s1"]) (use s1(1-3,5-7) in \<open>simp_all flip: s1(4) add: sized_cong\<close>)
qed

lemma reshape_both_ok:
  assumes "wf_net s" and "l < nobj s" and "shape_ok sh"
  shows "\<exists>h. reshape_both l sh s = Inr (s\<lparr>lmem := h\<rparr>) \<and> wf_net (s\<lparr>lmem := h\<rparr>) \<and> leaves l s (s\<lparr>lmem := h\<rparr>) \<and>
    sized h (lo_data (objs s l)) sh \<and> sized h (lo_grad (objs s l)) sh"
proof -
  have m: "lo_data (objs s l) \<in> set (members (objs s l))" "lo_grad (objs s l) \<in> set (members (objs s l))" by (simp_all add: members_def)
  have ne: "lo_data (objs s l) \<noteq> lo_grad (objs s l)" using assms(1,2) by (auto simp: wf_net_def owned_def members_def)
  obtain h1 where h1: "reshape (lo_data (objs s l)) sh s = Inr (s\<lparr>lmem := h1\<rparr>)" "wf_net (s\<lparr>lmem := h1\<rparr>)" "leaves l s (s\<lparr>lmem := h1\<rparr>)"
    "sized h1 (lo_data (objs s l)) sh"
    using reshape_ok [OF assms(1,2) m(1) assms(3)] by blast
  obtain h2 where h2: "reshape (lo_grad (objs s l)) sh (s\<lparr>lmem := h1\<rparr>) = Inr (s\<lparr>lmem := h2\<rparr>)" "wf_net (s\<lparr>lmem := h2\<rparr>)"
    "leaves l (s\<lparr>lmem := h1\<rparr>) (s\<lparr>lmem := h2\<rparr>)" "sized h2 (lo_grad (objs s l)) sh" "sized h2 (lo_data (objs s l)) sh"
    using reshape_ok [OF h1(2) _ _ assms(3), of l "lo_grad (objs s l)"] assms(2) m(2) ne h1(4) by auto
  show ?thesis by (rule exI [of _ h2]) (use h1 h2 leaves_trans [OF h1(3) h2(3)] in \<open>simp add: reshape_both_def\<close>)
qed

lemma setup_weights_ok:
  assumes "wf_net s" and "l < nobj s" and "lo_weight (objs s l) = None" and "lo_bias (objs s l) = None"
    and "shape_ok wsh" and "shape_ok bsh" and "2 \<le> length (lp_param lp)"
  shows "\<exists>s1. setup_weights lp wsh bsh l s = Inr s1 \<and> wf_net s1 \<and> leaves l s s1 \<and>
    objs s1 l = (objs s l)\<lparr>lo_weight := Some (nlparam s), lo_bias := Some (Suc (nlparam s))\<rparr> \<and>
    (\<forall>c sh. sized (lmem s) c sh \<longrightarrow> sized (lmem s1) c sh) \<and>
    (\<exists>wd bd. pdata (lparams s1 (nlparam s)) = Some wd \<and> pdata (lparams s1 (Suc (nlparam s))) = Some bd \<and>
      sized (lmem s1) wd wsh \<and> sized (lmem s1) (pgrad (lparams s1 (nlparam s))) wsh \<and>
      sized (lmem s1) bd bsh \<and> sized (lmem s1) (pgrad (lparams s1 (Suc (nlparam s)))) bsh)"
proof -
  obtain s1 where s1: "setup_weights lp wsh bsh l s = Inr s1" "wf_net s1" "leaves l s s1"
    "objs s1 l = (objs s l)\<lparr>lo_weight := Some (nlparam s), lo_bias := Some (Suc (nlparam s))\<rparr>"
    "\<forall>c < nblob (lmem s). blobs (lmem s1) c = blobs (lmem s) c"
    "\<exists>wd bd. pdata (lparams s1 (nlparam s)) = Some wd \<and> pdata (lparams s1 (Suc (nlparam s))) = Some bd \<and>
      sized (lmem s1) wd wsh \<and> sized (lmem s1) (pgrad (lparams s1 (nlparam s))) wsh \<and>
      sized (lmem s1) bd bsh \<and> sized (lmem s1) (pgrad (lparams s1 (Suc (nlparam s)))) bsh"
    using okR_setup_weights [OF assms] by (auto elim: okRE)
  have "sized (lmem s) c sh \<Longrightarrow> sized (lmem s1) c sh" for c sh
    using s1(3,5) by (auto simp: leaves_def sized_def)
  then show ?thesis using s1 by blast
qed

lemma shape_count_prod: "shape_count sh = Inr c \<Longrightarrow> c = prod_list sh"
proof -
  have "foldR (\<lambda>c x. checkR (x \<noteq> 0) CheckFailed (checkR (is_c_int (c * x)) Undefined (Inr (c * x)))) a sh = Inr c \<Longrightarrow> c = a * prod_list sh" for a
  proof (induction sh arbitrary: a)
    case (Cons x sh)
    then have "c = a * x * prod_list sh" by (auto simp: res_simps)
    then show ?case by (simp add: mult.assoc)
  qed simp
  from this [of 1] show "shape_count sh = Inr c \<Longrightarrow> c = prod_list sh" by (simp add: shape_count_def)
qed

lemma sized_count: "sized h b sh \<Longrightarrow> bcount (blobs h b) = prod_list sh \<and> shape (blobs h b) = sh"
  using shape_count_prod by (auto simp: sized_def)

lemma shape_okD:
  assumes "shape_ok sh" and "d \<in> set sh"
  shows "0 < d" and "is_c_int d"
proof -
  show d: "0 < d" using assms by (simp add: shape_ok_def)
  obtain xs ys where sh: "sh = xs @ d # ys" using assms(2) by (meson split_list)
  have "1 \<le> prod_list xs * prod_list ys" using assms(1) sh mult_mono [of 1 "prod_list xs" 1 "prod_list ys"] prod_list_ge_1 [of xs] prod_list_ge_1 [of ys]
    by (simp add: shape_ok_def)
  then have "d * 1 \<le> d * (prod_list xs * prod_list ys)" using d by (intro mult_left_mono) simp_all
  also have "\<dots> = prod_list sh" by (simp add: sh)
  finally show "is_c_int d" using assms(1) d by (simp add: shape_ok_def is_c_int_def)
qed

lemma intR_ok: "is_c_int x \<Longrightarrow> intR x = Inr x"
  by (simp add: intR_def)

lemma divR_exact: "0 < n \<Longrightarrow> is_c_int k \<Longrightarrow> 0 \<le> k \<Longrightarrow> divR (n * k) n = Inr k"
  by (simp add: divR_def intR_def)

text \<open>The blobs of a source and of a layer that are told apart.\<close>

definition own_params :: "'f lstate \<Rightarrow> nat \<Rightarrow> nat list" where
  "own_params s l = concat (map (\<lambda>a. pblobs (lparams s a)) (ptrs (objs s l)))"

definition keys :: "'f LayerObj \<Rightarrow> nat list" where
  "keys o1 = [lo_data o1, lo_grad o1, lo_mask o1, lo_col_data o1, lo_col_grad o1, lo_norm o1]"

lemma distinct_keys: "distinct (members o1) \<Longrightarrow> distinct (keys o1) \<and> set (keys o1) \<subseteq> set (members o1)"
  by (simp add: members_def keys_def)

lemma owned_distinct:
  assumes "wf_net s" and "l < nobj s" and "k < nobj s" and "k \<noteq> l"
  shows "distinct ([lo_data (objs s k), lo_grad (objs s k)] @ keys (objs s l) @ own_params s l)"
proof -
  have w: "distinct (owned s l)" "distinct (owned s k)" "set (owned s k) \<inter> set (owned s l) = {}"
    using assms by (simp_all add: wf_net_def)
  have o: "owned s i = members (objs s i) @ own_params s i" for i by (simp add: owned_def own_params_def)
  have k: "distinct (keys (objs s l))" "distinct (keys (objs s k))" "set (keys (objs s l)) \<subseteq> set (members (objs s l))"
    "set (keys (objs s k)) \<subseteq> set (members (objs s k))"
    using distinct_keys w(1,2) by (auto simp: o)
  have d: "lo_data (objs s k) \<in> set (keys (objs s k))" "lo_grad (objs s k) \<in> set (keys (objs s k))" "lo_data (objs s k) \<noteq> lo_grad (objs s k)"
    using k(2) by (simp_all add: keys_def)
  have "distinct (keys (objs s l) @ own_params s l)" using w(1) k(1,3) by (auto simp: o)
  moreover have "lo_data (objs s k) \<notin> set (keys (objs s l) @ own_params s l)" "lo_grad (objs s k) \<notin> set (keys (objs s l) @ own_params s l)"
    using w(3) k(3,4) d(1,2) by (auto simp: o)
  ultimately show ?thesis using d(3) by simp
qed

lemma own_params_eq:
  assumes "lo_weight (objs s l) = Some a" and "lo_bias (objs s l) = Some b" and "pdata (lparams s a) = Some wd" and "pdata (lparams s b) = Some bd"
  shows "own_params s l = [pgrad (lparams s a), phistory (lparams s a), wd, pgrad (lparams s b), phistory (lparams s b), bd]"
  using assms by (simp add: own_params_def ptrs_def pblobs_def)

text \<open>The blobs of the source and of the layer, once the layer is set up.\<close>

lemma feeds_inputs:
  assumes "feeds s k l sh"
  shows "src_data s l 0 ph = Inr (lo_data (objs s k))" "src_mutable_data s l 0 ph = Inr (Some (lo_data (objs s k)))"
    "input_of s l = lo_data (objs s k)" "sized (lmem s) (lo_data (objs s k)) sh"
    "src_mutable_grad s l 0 = Inr (ginput_of s l)" "ginput_of s l = (if has_grad (lo_type (objs s k)) then Some (lo_grad (objs s k)) else None)"
    "has_grad (lo_type (objs s k)) \<Longrightarrow> sized (lmem s) (lo_grad (objs s k)) sh"
proof -
  note g = plain_getters [OF feeds_src [OF assms]]
  have p: "plain (lo_type (objs s k))" using assms by (simp add: feeds_def)
  show "src_data s l 0 ph = Inr (lo_data (objs s k))" "src_mutable_data s l 0 ph = Inr (Some (lo_data (objs s k)))" using g p by auto
  show "input_of s l = lo_data (objs s k)" using g p by (simp add: input_of_def)
  show "src_mutable_grad s l 0 = Inr (ginput_of s l)" "ginput_of s l = (if has_grad (lo_type (objs s k)) then Some (lo_grad (objs s k)) else None)"
    using g p by (simp_all add: ginput_of_def)
  show "sized (lmem s) (lo_data (objs s k)) sh" "has_grad (lo_type (objs s k)) \<Longrightarrow> sized (lmem s) (lo_grad (objs s k)) sh"
    using assms by (simp_all add: feeds_def)
qed

lemma sized_is_mat:
  assumes "sized h b (n # r)" and "0 < n"
  shows "is_mat h b (nat n) (nat (prod_list r))"
proof -
  have c: "bcount (blobs h b) = n * prod_list r" "shape (blobs h b) = n # r" "0 < bcount (blobs h b)"
    using sized_count [OF assms(1)] assms(1) by (auto simp: sized_def)
  then have "0 < prod_list r" using assms(2) by (simp add: zero_less_mult_iff)
  then show ?thesis using c assms(2) by (simp add: is_mat_def)
qed

lemma InnerProduct_ready:
  assumes "wf_net s" and "1 \<le> np" and "feeds s k l sh" and "lo_srclayers (objs s l) = [k]" and "lo_weight (objs s l) = None"
    and "lo_bias (objs s l) = None" and "lo_type (objs s l) = kInnerProduct" and "fc_shape lp np sh = Some sh'"
  shows "\<exists>s1. InnerProduct_Setup lp np l s = Inr s1 \<and> ready s l sh' s1"
proof -
  obtain n r where sh: "sh = n # r" using assms(8) by (auto simp: fc_shape_def Let_def split: list.splits)
  define out where "out = innerproduct_num_output (conf lp)"
  define m where "m = (if 0 < partition_dim lp then out sdiv np else out)"
  have c: "shape_ok [n, m]" "shape_ok [prod_list r, m]" "2 \<le> length (lp_param lp)" "sh' = [n, m]"
    using assms(8) sh by (auto simp: fc_shape_def Let_def m_def out_def split: if_splits)
  have pos: "0 < n" "0 < m" "0 < prod_list r" "is_c_int n" "is_c_int m" "is_c_int (prod_list r)" "shape_ok [m]"
    using shape_okD [OF c(1)] shape_okD [OF c(2)] by (auto simp: shape_ok_def)
  obtain s1 where s1: "Layer_Setup lp np l s = Inr s1" "wf_net s1" "leaves l s s1" "feeds s1 k l sh" "lmem s1 = lmem s"
    "objs s1 l = (objs s l)\<lparr>layer_proto := lp\<rparr>"
    by (rule Layer_Setup_ok [OF assms(1-3)])
  note in1 = feeds_inputs [OF s1(4)]
  have l: "l < nobj s1" "k < nobj s1" "k \<noteq> l" using s1(4) by (auto simp: feeds_def)
  let ?f = "\<lambda>o1. o1\<lparr>lo_batchsize := n, lo_vdim := prod_list r, lo_hdim := m\<rparr>"
  have kf: "keeps ?f" by (simp add: keeps_def members_def)
  define s2 where "s2 = upd_obj l ?f s1"
  have s2: "wf_net s2" "leaves l s1 s2" "objs s2 l = ?f (objs s1 l)" "l < nobj s2" using upd_obj_keeps [OF s1(2) kf] l by (simp_all add: s2_def)
  obtain h where h: "reshape_both l [n, m] s2 = Inr (s2\<lparr>lmem := h\<rparr>)" "wf_net (s2\<lparr>lmem := h\<rparr>)" "leaves l s2 (s2\<lparr>lmem := h\<rparr>)"
    "sized h (lo_data (objs s2 l)) [n, m]" "sized h (lo_grad (objs s2 l)) [n, m]"
    using reshape_both_ok [OF s2(1,4) c(1)] by blast
  let ?s3 = "s2\<lparr>lmem := h\<rparr>" and ?a = "nlparam s2"
  obtain s4 wd bd where s4: "setup_weights lp [prod_list r, m] [m] l ?s3 = Inr s4" "wf_net s4" "leaves l ?s3 s4"
    "objs s4 l = (objs s2 l)\<lparr>lo_weight := Some ?a, lo_bias := Some (Suc ?a)\<rparr>" "\<forall>c sh. sized h c sh \<longrightarrow> sized (lmem s4) c sh"
    "pdata (lparams s4 ?a) = Some wd" "pdata (lparams s4 (Suc ?a)) = Some bd"
    "sized (lmem s4) wd [prod_list r, m]" "sized (lmem s4) (pgrad (lparams s4 ?a)) [prod_list r, m]"
    "sized (lmem s4) bd [m]" "sized (lmem s4) (pgrad (lparams s4 (Suc ?a))) [m]"
    using setup_weights_ok [OF h(2), of l "[prod_list r, m]" "[m]" lp] s2(3,4) s1(6) assms(5,6) c(2,3) pos(7) by auto
  have dm: "(if 0 < partition_dim lp then divR (innerproduct_num_output (conf lp)) np else Inr (innerproduct_num_output (conf lp))) = Inr m"
    using pos(5) assms(2) by (auto simp: divR_def intR_def m_def out_def split: if_splits)
  have run: "InnerProduct_Setup lp np l s = Inr s4"
    using s1(1,6) in1(1) sized_count [OF in1(4)] assms(4) h(1) s4(1) pos(1,3,6) sh
    by (simp add: InnerProduct_Setup_def Let_def shape_at_def count_at_def idxR_def divR_exact dm s2_def [symmetric])
  have lv: "leaves l s s4" "leaves l s1 s4"
    using leaves_trans [OF leaves_trans [OF s2(2) h(3)] s4(3)] leaves_trans [OF s1(3)] by blast+
  have l4: "l < nobj s4" "k < nobj s4" "objs s4 k = objs s1 k" using lv(2) l by (auto simp: leaves_def)
  note in4 = feeds_inputs [OF feeds_leaves [OF s1(4) lv(2) s1(2)]]
  have y: "sized (lmem s4) (lo_data (objs s4 l)) [n, m]" "sized (lmem s4) (lo_grad (objs s4 l)) [n, m]" using h(4,5) s4(4,5) by simp_all
  have obj: "lo_batchsize (objs s4 l) = n" "lo_vdim (objs s4 l) = prod_list r" "lo_hdim (objs s4 l) = m" "lo_type (objs s4 l) = kInnerProduct"
    "lo_weight (objs s4 l) = Some ?a" "lo_bias (objs s4 l) = Some (Suc ?a)"
    using s4(4) s2(3) s1(6) assms(7) by simp_all
  have wts: "param_blob s4 (Some ?a) = Inr wd" "param_blob s4 (Some (Suc ?a)) = Inr bd" "param_grad s4 (Some p) = Inr (pgrad (lparams s4 p))" for p
    using s4(6,7) by (simp_all add: param_blob_def param_grad_def deref_def data_blob_def)
  have dist: "distinct ([lo_data (objs s4 k), lo_data (objs s4 l), lo_grad (objs s4 l), wd, bd, pgrad (lparams s4 ?a), pgrad (lparams s4 (Suc ?a))] @
      (case ginput_of s4 l of None \<Rightarrow> [] | Some g \<Rightarrow> [g]))"
    using owned_distinct [OF s4(2) l4(1,2) l(3)] unfolding own_params_eq [OF obj(5,6) s4(6,7)] keys_def in4(6) by auto
  have g: "\<forall>g \<in> set_option (ginput_of s4 l). is_mat (lmem s4) g (nat n) (nat (prod_list r))"
    using in4(6,7) sized_is_mat pos(1) sh by auto
  have mats: "is_mat (lmem s4) (lo_data (objs s4 k)) (nat n) (nat (prod_list r))" "is_mat (lmem s4) (lo_data (objs s4 l)) (nat n) (nat m)"
    "is_mat (lmem s4) (lo_grad (objs s4 l)) (nat n) (nat m)" "is_mat (lmem s4) wd (nat (prod_list r)) (nat m)"
    "is_mat (lmem s4) (pgrad (lparams s4 ?a)) (nat (prod_list r)) (nat m)"
    using sized_is_mat [OF in4(4) [unfolded sh] pos(1)] sized_is_mat [OF y(1) pos(1)] sized_is_mat [OF y(2) pos(1)]
      sized_is_mat [OF s4(8) pos(3)] sized_is_mat [OF s4(9) pos(3)] by simp_all
  have vecs: "bcount (blobs (lmem s4) bd) = m" "bcount (blobs (lmem s4) (pgrad (lparams s4 (Suc ?a)))) = m"
    using sized_count [OF s4(10)] sized_count [OF s4(11)] by simp_all
  let ?c = "\<lparr>fc_x = lo_data (objs s4 k), fc_y = lo_data (objs s4 l), fc_gy = lo_grad (objs s4 l), fc_w = wd, fc_b = bd,
    fc_gw = pgrad (lparams s4 ?a), fc_gb = pgrad (lparams s4 (Suc ?a)), fc_gx = ginput_of s4 l\<rparr>"
  have lk: "link_of rs s4 l = Fc l (nat n) (nat (prod_list r)) (nat m) ?c" for rs
    using obj in4(3) s4(6,7) by (simp add: link_of_def Let_def weight_of_def gweight_of_def)
  have "fc_wired (nat n) (nat (prod_list r)) (nat m) ?c l s4"
    unfolding fc_wired_def fc_list_def fc_blobs.simps obj(1,5,6) int_nat_eq
    by (intro conjI; (rule in4(2,5) wts mats vecs g dist refl | simp add: pos vecs less_imp_le))
  moreover have "\<exists>sh. sized (lmem s4) b sh" if "b \<in> set (lk_own (link_of rs s4 l))" for b rs
    using that y s4(8-11) by (auto simp: lk lk_own_def)
  ultimately have "wired s4 l" by (simp add: wired_def lk)
  then show ?thesis using run s4(2) lv(1) y c(4) by (auto simp: ready_def)
qed

text \<open>Layers that work on the blobs of the source element by element, or image by image.\<close>

lemma feeds_el:
  assumes "wf_net s" and "feeds s k l sh" and "has_grad (lo_type (objs s k))"
  shows "input_of s l = lo_data (objs s k)" "ginput0 s l = lo_grad (objs s k)" "src_mutable_data s l 0 kPositive = Inr (Some (lo_data (objs s k)))"
    "src_mutable_grad s l 0 = Inr (Some (lo_grad (objs s k)))" "src_data s l 0 kPositive = Inr (lo_data (objs s k))" "src_grad s l 0 = Inr (lo_grad (objs s k))"
    "distinct ([lo_data (objs s k), lo_grad (objs s k)] @ keys (objs s l))"
proof -
  note f = feeds_inputs [OF assms(2)] and g = plain_getters [OF feeds_src [OF assms(2)]]
  have k: "plain (lo_type (objs s k))" "k < nobj s" "l < nobj s" "k \<noteq> l" using assms(2) by (auto simp: feeds_def)
  show "input_of s l = lo_data (objs s k)" "ginput0 s l = lo_grad (objs s k)" "src_mutable_data s l 0 kPositive = Inr (Some (lo_data (objs s k)))"
    "src_mutable_grad s l 0 = Inr (Some (lo_grad (objs s k)))" "src_data s l 0 kPositive = Inr (lo_data (objs s k))" "src_grad s l 0 = Inr (lo_grad (objs s k))"
    using f(1,2,3,5,6) g(4) k(1) assms(3) by (simp_all add: ginput0_def)
  show "distinct ([lo_data (objs s k), lo_grad (objs s k)] @ keys (objs s l))" using owned_distinct [OF assms(1) k(3,2,4)] by simp
qed

lemma el_wired_of:
  assumes "wf_net s" and "feeds s k l sh" and "has_grad (lo_type (objs s k))" and "sized (lmem s) (lo_data (objs s l)) sh"
    and "sized (lmem s) (lo_grad (objs s l)) sh" and "shape_ok sh"
  shows "el_wired (nat (prod_list sh)) \<lparr>el_x = input_of s l, el_y = lo_data (objs s l), el_gy = lo_grad (objs s l), el_gx = ginput0 s l\<rparr> l s"
    and "count_at s (lo_data (objs s l)) = prod_list sh"
proof -
  note f = feeds_el [OF assms(1-3)]
  have "sized (lmem s) (lo_data (objs s k)) sh" "sized (lmem s) (lo_grad (objs s k)) sh" using assms(2,3) by (simp_all add: feeds_def)
  then have c: "bcount (blobs (lmem s) (lo_data (objs s k))) = prod_list sh" "bcount (blobs (lmem s) (lo_grad (objs s k))) = prod_list sh"
    "bcount (blobs (lmem s) (lo_data (objs s l))) = prod_list sh" "bcount (blobs (lmem s) (lo_grad (objs s l))) = prod_list sh"
    using assms(4,5) sized_count by blast+
  have "0 \<le> prod_list sh" using prod_list_ge_1 [of sh] assms(6) by (simp add: shape_ok_def)
  then show "el_wired (nat (prod_list sh)) \<lparr>el_x = input_of s l, el_y = lo_data (objs s l), el_gy = lo_grad (objs s l), el_gx = ginput0 s l\<rparr> l s"
    using f(7) by (simp add: el_wired_def el_list_def c f(1-4)) (auto simp: keys_def)
  show "count_at s (lo_data (objs s l)) = prod_list sh" using c by (simp add: count_at_def)
qed

text \<open>A run that changes only the memory: what it keeps of a source.\<close>

lemma feeds_lmem:
  assumes "feeds s k l sh" and "leaves l s (s\<lparr>lmem := h\<rparr>)" and "wf_net s"
  shows "feeds (s\<lparr>lmem := h\<rparr>) k l sh"
  by (rule feeds_leaves [OF assms])

lemma like_source_ok:
  assumes "wf_net s" and "feeds s k l sh" and "has_grad (lo_type (objs s k))" and "shape_ok sh"
    and "\<And>s1. feeds s1 k l sh \<Longrightarrow> wf_net s1 \<Longrightarrow> has_grad (lo_type (objs s1 k)) \<Longrightarrow> gsrc s1 = Inr (lo_grad (objs s1 k))"
  shows "\<exists>h. like_source l gsrc s = Inr (s\<lparr>lmem := h\<rparr>) \<and> wf_net (s\<lparr>lmem := h\<rparr>) \<and> leaves l s (s\<lparr>lmem := h\<rparr>) \<and>
    sized h (lo_data (objs s l)) sh \<and> sized h (lo_grad (objs s l)) sh"
proof -
  have l: "l < nobj s" using assms(2) by (simp add: feeds_def)
  obtain h where h: "reshape_both l sh s = Inr (s\<lparr>lmem := h\<rparr>)" "wf_net (s\<lparr>lmem := h\<rparr>)" "leaves l s (s\<lparr>lmem := h\<rparr>)"
    "sized h (lo_data (objs s l)) sh" "sized h (lo_grad (objs s l)) sh"
    using reshape_both_ok [OF assms(1) l assms(4)] by blast
  obtain h1 where h1: "reshape (lo_data (objs s l)) sh s = Inr (s\<lparr>lmem := h1\<rparr>)" "wf_net (s\<lparr>lmem := h1\<rparr>)" "leaves l s (s\<lparr>lmem := h1\<rparr>)"
    using reshape_ok [OF assms(1) l _ assms(4), of "lo_data (objs s l)"] by (auto simp: members_def)
  have f1: "feeds (s\<lparr>lmem := h1\<rparr>) k l sh" by (rule feeds_lmem [OF assms(2) h1(3) assms(1)])
  have "gsrc (s\<lparr>lmem := h1\<rparr>) = Inr (lo_grad (objs s k))" using assms(5) [OF f1 h1(2)] assms(3) by simp
  moreover have "shape_at s (lo_data (objs s k)) = sh" "shape_at (s\<lparr>lmem := h1\<rparr>) (lo_grad (objs s k)) = sh"
    using assms(2,3) f1 by (simp_all add: shape_at_def feeds_def sized_def)
  ultimately have "like_source l gsrc s = reshape_both l sh s"
    using feeds_el(5) [OF assms(1-3)] h1(1) by (simp add: like_source_def reshape_both_def)
  then show ?thesis using h by auto
qed

lemma like_source_ready:
  assumes "wf_net s" and "1 \<le> np" and "feeds s k l sh" and "has_grad (lo_type (objs s k))" and "shape_ok sh"
    and "lo_type (objs s l) \<in> {kReLU, kTanh}"
    and "\<And>s1. feeds s1 k l sh \<Longrightarrow> wf_net s1 \<Longrightarrow> has_grad (lo_type (objs s1 k)) \<Longrightarrow> gsrc s1 = Inr (lo_grad (objs s1 k))"
  shows "\<exists>s1. bindR (Layer_Setup lp np l s) (like_source l gsrc) = Inr s1 \<and> ready s l sh s1"
proof -
  obtain s1 where s1: "Layer_Setup lp np l s = Inr s1" "wf_net s1" "leaves l s s1" "feeds s1 k l sh" "lmem s1 = lmem s"
    "objs s1 l = (objs s l)\<lparr>layer_proto := lp\<rparr>"
    by (rule Layer_Setup_ok [OF assms(1-3)])
  have k: "k \<noteq> l" "objs s1 k = objs s k" using s1(3) assms(3) by (auto simp: leaves_def feeds_def)
  obtain h where h: "like_source l gsrc s1 = Inr (s1\<lparr>lmem := h\<rparr>)" "wf_net (s1\<lparr>lmem := h\<rparr>)"
    "leaves l s1 (s1\<lparr>lmem := h\<rparr>)" "sized h (lo_data (objs s1 l)) sh" "sized h (lo_grad (objs s1 l)) sh"
    using like_source_ok [OF s1(2,4) _ assms(5,7)] assms(4) k(2) by auto
  have f: "feeds (s1\<lparr>lmem := h\<rparr>) k l sh" by (rule feeds_lmem [OF s1(4) h(3) s1(2)])
  have p: "0 \<le> prod_list sh" using prod_list_ge_1 [of sh] assms(5) by (simp add: shape_ok_def)
  have "wired (s1\<lparr>lmem := h\<rparr>) l"
    using el_wired_of [OF h(2) f _ _ _ assms(5)] assms(4,6) k(2) h(4,5) s1(6) p by (auto simp: wired_def link_of_def Let_def lk_own_def)
  then show ?thesis using s1(1) h leaves_trans [OF s1(3) h(3)] by (auto simp: ready_def)
qed

lemma ReLU_ready:
  assumes "wf_net s" and "1 \<le> np" and "feeds s k l sh" and "has_grad (lo_type (objs s k))" and "shape_ok sh" and "lo_type (objs s l) = kReLU"
  shows "\<exists>s1. ReLU_Setup lp np l s = Inr s1 \<and> ready s l sh s1"
  unfolding ReLU_Setup_def
  by (rule like_source_ready [OF assms(1-5)]) (use assms(6) feeds_el(4) in \<open>auto simp: deref_def\<close>)

lemma Tanh_ready:
  assumes "wf_net s" and "1 \<le> np" and "feeds s k l sh" and "has_grad (lo_type (objs s k))" and "shape_ok sh" and "lo_type (objs s l) = kTanh"
  shows "\<exists>s1. Tanh_Setup lp np l s = Inr s1 \<and> ready s l sh s1"
  unfolding Tanh_Setup_def
  by (rule like_source_ready [OF assms(1-5)]) (use assms(6) feeds_el(6) in auto)

lemma Dropout_ready:
  assumes "wf_net s" and "1 \<le> np" and "feeds s k l sh" and "has_grad (lo_type (objs s k))" and "shape_ok sh" and "lo_type (objs s l) = kDropout"
  shows "\<exists>s1. Dropout_Setup lp np l s = Inr s1 \<and> ready s l sh s1"
proof -
  obtain s1 where s1: "Layer_Setup lp np l s = Inr s1" "wf_net s1" "leaves l s s1" "feeds s1 k l sh" "lmem s1 = lmem s"
    "objs s1 l = (objs s l)\<lparr>layer_proto := lp\<rparr>"
    by (rule Layer_Setup_ok [OF assms(1-3)])
  have k: "k \<noteq> l" "objs s1 k = objs s k" "l < nobj s1" using s1(3) assms(3) by (auto simp: leaves_def feeds_def)
  obtain h where h: "like_source l (\<lambda>s. bindR (src_mutable_grad s l 0) deref) s1 = Inr (s1\<lparr>lmem := h\<rparr>)" "wf_net (s1\<lparr>lmem := h\<rparr>)"
    "leaves l s1 (s1\<lparr>lmem := h\<rparr>)" "sized h (lo_data (objs s1 l)) sh" "sized h (lo_grad (objs s1 l)) sh"
    using like_source_ok [OF s1(2,4) _ assms(5), of "\<lambda>s. bindR (src_mutable_grad s l 0) deref"] assms(4) k(2) feeds_el(4) [of _ k l sh]
    by (auto simp: deref_def)
  let ?s2 = "s1\<lparr>lmem := h\<rparr>"
  have f2: "feeds ?s2 k l sh" by (rule feeds_lmem [OF s1(4) h(3) s1(2)])
  have keys: "distinct (keys (objs s1 l))" "lo_mask (objs s1 l) \<in> set (members (objs s1 l))"
    using feeds_el(7) [OF s1(2,4)] assms(4) k(2) by (auto simp: members_def)
  obtain h3 where h3: "reshape (lo_mask (objs s1 l)) sh ?s2 = Inr (?s2\<lparr>lmem := h3\<rparr>)" "wf_net (?s2\<lparr>lmem := h3\<rparr>)" "leaves l ?s2 (?s2\<lparr>lmem := h3\<rparr>)"
    "sized h3 (lo_mask (objs s1 l)) sh" "sized h3 (lo_data (objs s1 l)) sh" "sized h3 (lo_grad (objs s1 l)) sh"
    using reshape_ok [OF h(2) _ _ assms(5), of l "lo_mask (objs s1 l)"] h(4,5) k(3) keys by (auto simp: keys_def)
  let ?s3 = "s1\<lparr>lmem := h3\<rparr>" and ?f = "\<lambda>o1. o1\<lparr>lo_pdrop := dropout_ratio (conf lp)\<rparr>"
  have kf: "keeps ?f" by (simp add: keeps_def members_def)
  let ?s4 = "upd_obj l ?f ?s3"
  have s3: "wf_net ?s3" "leaves l ?s2 ?s3" using h3(2,3) by simp_all
  have s4: "wf_net ?s4" "leaves l ?s3 ?s4" using upd_obj_keeps [OF s3(1) kf] by simp_all
  have lv: "leaves l s1 ?s4" by (rule leaves_trans [OF leaves_trans [OF h(3) s3(2)] s4(2)])
  have f4: "feeds ?s4 k l sh" by (rule feeds_leaves [OF s1(4) lv s1(2)])
  have t: "lo_type (objs ?s4 l) = kDropout" "objs ?s4 k = objs s k" using assms(6) s1(6) k(1,2) by simp_all
  have g: "has_grad (lo_type (objs ?s4 k))" using assms(4) t(2) by simp
  have sz: "sized (lmem ?s4) (lo_data (objs ?s4 l)) sh" "sized (lmem ?s4) (lo_grad (objs ?s4 l)) sh" "sized (lmem ?s4) (lo_mask (objs ?s4 l)) sh"
    using h3(4-6) by simp_all
  note el = el_wired_of [OF s4(1) f4 g sz(1,2) assms(5)]
  have p: "0 \<le> prod_list sh" using prod_list_ge_1 [of sh] assms(5) by (simp add: shape_ok_def)
  have m: "bcount (blobs (lmem ?s4) (lo_mask (objs ?s4 l))) = prod_list sh" using sized_count [OF sz(3)] by simp
  have m1: "lo_mask (objs ?s4 l) \<notin> set [input_of ?s4 l, lo_data (objs ?s4 l), lo_grad (objs ?s4 l), ginput0 ?s4 l]"
    using feeds_el(1,2,7) [OF s4(1) f4 g] by (auto simp: keys_def)
  have "wired ?s4 l"
    unfolding wired_def
  proof (intro conjI allI impI ballI)
    fix rs :: "nat \<Rightarrow> real list" and b
    show "\<exists>sh. sized (lmem ?s4) b sh" if "b \<in> set (lk_own (link_of rs ?s4 l))"
      using that sz unfolding link_of_def Let_def t(1) LayerType.case lk_own_def by auto
    assume "nat (count_at ?s4 (lo_data (objs ?s4 l))) \<le> length (rs l)"
    then have "nat (prod_list sh) \<le> length (rs l)" by (simp only: el(2))
    then show "lk_wired ?s4 (link_of rs ?s4 l)"
      unfolding link_of_def Let_def t(1) LayerType.case lk_wired.simps do_wired_def el(2) using el(1) m m1 p
      by (simp only: el_list_def el_blobs.simps int_nat_eq if_True) simp
  qed
  moreover have "Dropout_Setup lp np l s = Inr ?s4"
    using s1(1) h(1) h3(1) feeds_inputs(1) [OF f2] f2 by (simp add: Dropout_Setup_def shape_at_def feeds_def sized_def)
  ultimately show ?thesis using s4(1) sz(1,2) leaves_trans [OF s1(3) lv] by (auto simp only: ready_def)
qed

section \<open>Layers of images\<close>

lemma sized_is_img:
  assumes "sized h b [n, c, y, x]" and "shape_ok [n, c, y, x]"
  shows "is_img h b (nat n) (nat c) (nat y) (nat x)"
proof -
  have p: "0 < n" "0 < c" "0 < y" "0 < x" using assms(2) by (simp_all add: shape_ok_def)
  have "bcount (blobs h b) = n * (c * (y * x))" "shape (blobs h b) = [n, c, y, x]" using sized_count [OF assms(1)] by simp_all
  then show ?thesis using p by (simp add: is_img_def algebra_simps)
qed

lemma reshape_more:
  assumes "wf_net s" and "feeds s k l sh" and "b \<in> set (members (objs s l))" and "shape_ok sh1"
  shows "\<exists>h. reshape b sh1 s = Inr (s\<lparr>lmem := h\<rparr>) \<and> wf_net (s\<lparr>lmem := h\<rparr>) \<and> leaves l s (s\<lparr>lmem := h\<rparr>) \<and> sized h b sh1 \<and>
    feeds (s\<lparr>lmem := h\<rparr>) k l sh \<and> (\<forall>c sh. c \<noteq> b \<longrightarrow> sized (lmem s) c sh \<longrightarrow> sized h c sh)"
proof -
  have l: "l < nobj s" using assms(2) by (simp add: feeds_def)
  then show ?thesis using reshape_ok [OF assms(1) l assms(3,4)] feeds_lmem [OF assms(2) _ assms(1)] by blast
qed

text \<open>A layer that updates its numbers and reshapes \<open>data_\<close> and \<open>grad_\<close>.\<close>

lemma update_reshape:
  assumes "wf_net s" and "1 \<le> np" and "feeds s k l sh" and "keeps f" and "shape_ok sh1"
  shows "\<exists>s1 h. Layer_Setup lp np l s = Inr s1 \<and> objs s1 l = (objs s l)\<lparr>layer_proto := lp\<rparr> \<and> feeds s1 k l sh \<and>
    reshape_both l sh1 (upd_obj l f s1) = Inr (upd_obj l f s1\<lparr>lmem := h\<rparr>) \<and> wf_net (upd_obj l f s1\<lparr>lmem := h\<rparr>) \<and>
    leaves l s (upd_obj l f s1\<lparr>lmem := h\<rparr>) \<and> feeds (upd_obj l f s1\<lparr>lmem := h\<rparr>) k l sh \<and>
    sized h (lo_data (objs s l)) sh1 \<and> sized h (lo_grad (objs s l)) sh1 \<and> objs s1 k = objs s k \<and> nobj s1 = nobj s"
proof -
  obtain s1 where s1: "Layer_Setup lp np l s = Inr s1" "wf_net s1" "leaves l s s1" "feeds s1 k l sh" "lmem s1 = lmem s"
    "objs s1 l = (objs s l)\<lparr>layer_proto := lp\<rparr>"
    by (rule Layer_Setup_ok [OF assms(1-3)])
  let ?s2 = "upd_obj l f s1"
  have s2: "wf_net ?s2" "leaves l s1 ?s2" using upd_obj_keeps [OF s1(2) assms(4)] by simp_all
  have l: "l < nobj ?s2" "k \<noteq> l" using s1(4) by (auto simp: feeds_def)
  obtain h where h: "reshape_both l sh1 ?s2 = Inr (?s2\<lparr>lmem := h\<rparr>)" "wf_net (?s2\<lparr>lmem := h\<rparr>)" "leaves l ?s2 (?s2\<lparr>lmem := h\<rparr>)"
    "sized h (lo_data (objs ?s2 l)) sh1" "sized h (lo_grad (objs ?s2 l)) sh1"
    using reshape_both_ok [OF s2(1) l(1) assms(5)] by blast
  have m: "lo_data (objs ?s2 l) = lo_data (objs s l)" "lo_grad (objs ?s2 l) = lo_grad (objs s l)"
    using assms(4) s1(6) by (simp_all add: keeps_def members_def)
  have lv: "leaves l s1 (?s2\<lparr>lmem := h\<rparr>)" by (rule leaves_trans [OF s2(2) h(3)])
  show ?thesis
    using s1(1,4,6) h(1,2,4,5) m leaves_trans [OF s1(3) lv] feeds_leaves [OF s1(4) lv s1(2)] s1(3) l(2)
    by (intro exI [of _ s1] exI [of _ h]) (auto simp: leaves_def)
qed

lemma LRN_wired:
  assumes "wf_net s" and "feeds s k l sh" and "has_grad (lo_type (objs s k))" and "sh = [n, c, y, x]" and "shape_ok sh"
    and "sized (lmem s) (lo_data (objs s l)) sh" "sized (lmem s) (lo_grad (objs s l)) sh" "sized (lmem s) (lo_norm (objs s l)) sh"
    and "lo_type (objs s l) = kLRN" "lo_batchsize (objs s l) = n" "lo_channels (objs s l) = c" "lo_height (objs s l) = y" "lo_width (objs s l) = x"
    and "0 < lo_lsize (objs s l)" "odd (lo_lsize (objs s l))" "lo_lsize (objs s l) \<le> c"
  shows "wired s l"
proof -
  note el = feeds_el [OF assms(1-3)]
  have szk: "sized (lmem s) (lo_data (objs s k)) sh" "sized (lmem s) (lo_grad (objs s k)) sh"
    using assms(2,3) unfolding feeds_def by blast+
  let ?c = "\<lparr>lr_x = lo_data (objs s k), lr_y = lo_data (objs s l), lr_gy = lo_grad (objs s l), lr_gx = lo_grad (objs s k),
    lr_norm = lo_norm (objs s l)\<rparr>" and ?z = "shape_of_lrn (objs s l) (nat n) (nat c) (nat y) (nat x)"
  have img: "\<forall>b \<in> set (lr_list ?c). is_img (lmem s) b (nat n) (nat c) (nat y) (nat x)"
    using assms(5-8) szk unfolding assms(4) lr_list_def lr_blobs.simps by (simp add: sized_is_img)
  have dist: "distinct (lr_list ?c)" using el(7) unfolding lr_list_def lr_blobs.simps keys_def by auto
  have "lr_wired ?z ?c l s"
    unfolding lr_wired_def using img dist el(3,4) assms(14-16) by (simp add: shape_of_lrn_def even_nat_iff nat_le_iff)
  moreover have "link_of rs s l = Lrn l ?z ?c" for rs
    using el(1,2) assms(9-13) by (simp add: link_of_def Let_def)
  ultimately show ?thesis using assms(6-8) by (auto simp: wired_def lk_own_def)
qed

lemma LRN_ready:
  assumes "wf_net s" and "1 \<le> np" and "feeds s k l sh" and "has_grad (lo_type (objs s k))" and "lrn_shape_of lp sh = Some sh'"
    and "lo_type (objs s l) = kLRN" and "lo_srclayers (objs s l) = [k]"
  shows "\<exists>s1. LRN_Setup lp np l s = Inr s1 \<and> ready s l sh' s1"
proof -
  obtain n c y x where sh: "sh = [n, c, y, x]" using assms(5) by (auto simp: lrn_shape_of_def Let_def split: list.splits)
  define z where "z = lrn_local_size (conf lp)"
  have z: "0 < z" "odd z" "z \<le> c" "shape_ok sh" "sh' = sh"
    using assms(5) sh by (auto simp: lrn_shape_of_def Let_def z_def split: if_splits)
  have p: "0 < n" "0 < c" "0 < y" "0 < x" using z(4) sh by (simp_all add: shape_ok_def)
  let ?f = "\<lambda>o1. o1\<lparr>lo_lsize := z, lo_knorm := lrn_knorm (conf lp), lo_alpha := lrn_alpha (conf lp), lo_beta := lrn_beta (conf lp)\<rparr>"
  have kf: "keeps ?f" by (simp add: keeps_def members_def)
  obtain s1 h where s1: "Layer_Setup lp np l s = Inr s1" "objs s1 l = (objs s l)\<lparr>layer_proto := lp\<rparr>" "feeds s1 k l sh"
    "reshape_both l sh (upd_obj l ?f s1) = Inr (upd_obj l ?f s1\<lparr>lmem := h\<rparr>)" "wf_net (upd_obj l ?f s1\<lparr>lmem := h\<rparr>)"
    "leaves l s (upd_obj l ?f s1\<lparr>lmem := h\<rparr>)" "feeds (upd_obj l ?f s1\<lparr>lmem := h\<rparr>) k l sh"
    "sized h (lo_data (objs s l)) sh" "sized h (lo_grad (objs s l)) sh" "objs s1 k = objs s k"
    using update_reshape [OF assms(1-3) kf z(4)] by blast
  let ?s2 = "upd_obj l ?f s1\<lparr>lmem := h\<rparr>"
  have o2: "objs ?s2 l = ?f ((objs s l)\<lparr>layer_proto := lp\<rparr>)" using s1(2) by simp
  have mem: "lo_norm (objs ?s2 l) \<in> set (members (objs ?s2 l))" by (simp add: members_def)
  have kl: "k \<noteq> l" using assms(3) by (auto simp: feeds_def)
  have g2: "has_grad (lo_type (objs ?s2 k))" using assms(4) s1(10) kl by simp
  have ne: "lo_norm (objs s l) \<noteq> lo_data (objs s l)" "lo_norm (objs s l) \<noteq> lo_grad (objs s l)"
    using feeds_el(7) [OF assms(1,3,4)] by (auto simp: keys_def)
  obtain h3 where h3: "reshape (lo_norm (objs ?s2 l)) sh ?s2 = Inr (?s2\<lparr>lmem := h3\<rparr>)" "wf_net (?s2\<lparr>lmem := h3\<rparr>)" "leaves l ?s2 (?s2\<lparr>lmem := h3\<rparr>)"
    "sized h3 (lo_norm (objs ?s2 l)) sh" "feeds (?s2\<lparr>lmem := h3\<rparr>) k l sh" "\<forall>b sh. b \<noteq> lo_norm (objs ?s2 l) \<longrightarrow> sized (lmem ?s2) b sh \<longrightarrow> sized h3 b sh"
    using reshape_more [OF s1(5,7) mem z(4)] by blast
  let ?g = "\<lambda>o1. o1\<lparr>lo_batchsize := n, lo_channels := c, lo_height := y, lo_width := x\<rparr>" and ?s3 = "upd_obj l ?f s1\<lparr>lmem := h3\<rparr>"
  have kg: "keeps ?g" by (simp add: keeps_def members_def)
  have s3: "wf_net ?s3" "leaves l ?s2 ?s3" "feeds ?s3 k l sh" using h3(2,3,5) by simp_all
  let ?s4 = "upd_obj l ?g ?s3"
  have s4: "wf_net ?s4" "leaves l ?s3 ?s4" using upd_obj_keeps [OF s3(1) kg] by simp_all
  have f4: "feeds ?s4 k l sh" by (rule feeds_leaves [OF s3(3) s4(2) s3(1)])
  have lv: "leaves l s ?s4" by (rule leaves_trans [OF leaves_trans [OF s1(6) s3(2)] s4(2)])
  have o4: "objs ?s4 l = ?g (?f ((objs s l)\<lparr>layer_proto := lp\<rparr>))" "objs ?s4 k = objs s k" using s1(2,10) kl by simp_all
  have g4: "has_grad (lo_type (objs ?s4 k))" using assms(4) o4(2) by simp
  have sz: "sized (lmem ?s4) (lo_data (objs ?s4 l)) sh" "sized (lmem ?s4) (lo_grad (objs ?s4 l)) sh" "sized (lmem ?s4) (lo_norm (objs ?s4 l)) sh"
    using h3(4,6) s1(2,8,9) ne by simp_all
  have w: "wired ?s4 l"
    by (rule LRN_wired [OF s4(1) f4 g4 sh z(4) sz]) (use o4(1) assms(6) z(1-3) in simp_all)
  have "z smod 2 = 1" using z(1,2) by (simp add: signed_modulo_int_def odd_iff_mod_2_eq_one)
  then have "LRN_Setup lp np l s = Inr ?s4"
    using s1(1,2,4) h3(1) feeds_inputs(1,4) [OF s1(3)] assms(7) sh
    by (simp add: LRN_Setup_def Let_def z_def [symmetric] shape_at_def sized_def idxR_def)
  then show ?thesis using s4(1) lv sz(1,2) w z(5) by (auto simp only: ready_def)
qed

lemma conv_side_ok:
  assumes "0 < str" and "0 < k" and "0 \<le> p" and "0 < d" and "k \<le> d + 2 * p" and "is_c_int (d + 2 * p)"
    and "is_c_int ((d + 2 * p - k) div str + 1)"
  shows "conv_side d p k str = Inr ((d + 2 * p - k) div str + 1)"
proof -
  let ?q = "(d + 2 * p - k) div str"
  have "?q \<le> d + 2 * p - k" "0 \<le> ?q" using assms(1,5) div_le_dividend [of "nat (d + 2 * p - k)" "nat str"]
    by (simp_all add: zdiv_mono2 pos_imp_zdiv_nonneg_iff int_div_less_self div_by_1 flip: nat_div_distrib)
  moreover have "(d + 2 * p - k) sdiv str = ?q" using assms(1,5) by (simp add: signed_divide_int_def sgn_if)
  ultimately show ?thesis using assms by (simp add: conv_side_def intR_def divR_def is_c_int_def)
qed

lemma out_size_nat:
  assumes "0 < str" and "0 < k" and "k \<le> d"
  shows "out_size (nat d) (nat k) (nat str) = nat ((d - k) div str + 1)"
proof -
  have "int (out_size (nat d) (nat k) (nat str)) = (d - k) div str + 1"
    using assms by (simp add: out_size_def zdiv_int of_nat_diff)
  then show ?thesis by linarith
qed

lemma src_image_4: "src_image [n, c, y, x] = Inr (c, y, x)"
  by (simp add: src_image_def Let_def idxR_def)

lemma Pooling_wired:
  assumes "wf_net s" and "feeds s k l sh" and "has_grad (lo_type (objs s k))" and "sh = [n, c, y, x]" and "shape_ok sh"
    and "sized (lmem s) (lo_data (objs s l)) sh'" "sized (lmem s) (lo_grad (objs s l)) sh'"
    and "sh' = [n, c, (y - kn) div str + 1, (x - kn) div str + 1]" and "shape_ok sh'"
    and "lo_type (objs s l) = kPooling" "lo_batchsize (objs s l) = n" "lo_channels (objs s l) = c" "lo_height (objs s l) = y" "lo_width (objs s l) = x"
    and "lo_kernel (objs s l) = kn" "lo_stride (objs s l) = str"
    and "0 < kn" "0 < str" "kn \<le> y" "kn \<le> x"
  shows "wired s l"
proof -
  note el = feeds_el [OF assms(1-3)]
  have szk: "sized (lmem s) (lo_data (objs s k)) sh" "sized (lmem s) (lo_grad (objs s k)) sh"
    using assms(2,3) unfolding feeds_def by blast+
  let ?c = "\<lparr>el_x = lo_data (objs s k), el_y = lo_data (objs s l), el_gy = lo_grad (objs s l), el_gx = lo_grad (objs s k)\<rparr>"
    and ?z = "shape_of_pool (objs s l) (nat n * nat c) (nat y) (nat x)"
  have o: "nat ((y - kn) div str + 1) = pl_oh ?z" "nat ((x - kn) div str + 1) = pl_ow ?z"
    using out_size_nat [OF assms(18,17)] assms(15,16,19,20) by (simp_all add: pl_oh_def pl_ow_def shape_of_pool_def)
  note i1 = sized_is_img [OF szk(1) [unfolded assms(4)] assms(5) [unfolded assms(4)]] sized_is_img [OF szk(2) [unfolded assms(4)] assms(5) [unfolded assms(4)]]
  note i2 = sized_is_img [OF assms(6) [unfolded assms(8)] assms(9) [unfolded assms(8)]] sized_is_img [OF assms(7) [unfolded assms(8)] assms(9) [unfolded assms(8)]]
  have dist: "distinct (el_list ?c)" using el(7) unfolding el_list_def el_blobs.simps keys_def by auto
  have z: "pl_h ?z = nat y" "pl_w ?z = nat x" "pl_ok ?z" using assms(15-20) by (simp_all add: shape_of_pool_def pl_ok_def nat_le_eq_zle)
  have "pl_wired (nat n) (nat c) ?z ?c l s"
    unfolding pl_wired_def z(1,2) el_blobs.simps
    by (intro conjI; (rule el(3,4) refl dist z(3) i1 i2 [unfolded o])) 
  moreover have "link_of rs s l = Pool l (nat n) (nat c) (lo_pool (objs s l)) ?z ?c" for rs
    using el(1,2) assms(10-14) by (simp add: link_of_def Let_def)
  ultimately show ?thesis using assms(6,7) by (auto simp: wired_def lk_own_def)
qed

lemma Pooling_ready:
  assumes "wf_net s" and "1 \<le> np" and "feeds s k l sh" and "has_grad (lo_type (objs s k))" and "pool_shape_of lp sh = Some sh'"
    and "lo_type (objs s l) = kPooling" and "lo_srclayers (objs s l) = [k]" and "lo_pad (objs s l) < pooling_kernel (conf lp)"
  shows "\<exists>s1. Pooling_Setup lp np l s = Inr s1 \<and> ready s l sh' s1"
proof -
  obtain n c y x where sh: "sh = [n, c, y, x]" using assms(5) by (auto simp: pool_shape_of_def Let_def split: list.splits)
  define kn str where "kn = pooling_kernel (conf lp)" and "str = pooling_stride (conf lp)"
  have z: "0 < kn" "0 < str" "kn \<le> y" "kn \<le> x" "shape_ok sh" "shape_ok sh'" "sh' = [n, c, (y - kn) div str + 1, (x - kn) div str + 1]"
    using assms(5) sh by (auto simp: pool_shape_of_def Let_def kn_def str_def split: if_splits)
  have p: "0 < n" "0 < c" "0 < y" "0 < x" "is_c_int y" "is_c_int x" using shape_okD [OF z(5)] sh by auto
  have side: "conv_side y 0 kn str = Inr ((y - kn) div str + 1)" "conv_side x 0 kn str = Inr ((x - kn) div str + 1)"
    using conv_side_ok [OF z(2,1), of 0] z(3,4) p shape_okD(2) [OF z(6)] z(7) by simp_all
  let ?f = "\<lambda>o1. o1\<lparr>lo_kernel := kn, lo_stride := str, lo_pool := pooling_pool (conf lp), lo_width := x, lo_height := y, lo_channels := c,
    lo_batchsize := n, lo_pooled_height := (y - kn) div str + 1, lo_pooled_width := (x - kn) div str + 1\<rparr>"
  have kf: "keeps ?f" by (simp add: keeps_def members_def)
  obtain s1 h where s1: "Layer_Setup lp np l s = Inr s1" "objs s1 l = (objs s l)\<lparr>layer_proto := lp\<rparr>" "feeds s1 k l sh"
    "reshape_both l sh' (upd_obj l ?f s1) = Inr (upd_obj l ?f s1\<lparr>lmem := h\<rparr>)" "wf_net (upd_obj l ?f s1\<lparr>lmem := h\<rparr>)"
    "leaves l s (upd_obj l ?f s1\<lparr>lmem := h\<rparr>)" "feeds (upd_obj l ?f s1\<lparr>lmem := h\<rparr>) k l sh"
    "sized h (lo_data (objs s l)) sh'" "sized h (lo_grad (objs s l)) sh'" "objs s1 k = objs s k"
    using update_reshape [OF assms(1-3) kf z(6)] by blast
  let ?s2 = "upd_obj l ?f s1\<lparr>lmem := h\<rparr>"
  have kl: "k \<noteq> l" using assms(3) by (auto simp: feeds_def)
  have g2: "has_grad (lo_type (objs ?s2 k))" using assms(4) s1(10) kl by simp
  have sz: "sized (lmem ?s2) (lo_data (objs ?s2 l)) sh'" "sized (lmem ?s2) (lo_grad (objs ?s2 l)) sh'" using s1(2,8,9) by simp_all
  have w: "wired ?s2 l"
    by (rule Pooling_wired [OF s1(5,7) g2 sh z(5) sz z(7,6)]) (use s1(2) assms(6) z(1-4) in simp_all)
  have "Pooling_Setup lp np l s = Inr ?s2"
    using s1(1,2,4) feeds_inputs(1,4) [OF s1(3)] assms(7,8) sh side z(7)
    by (simp add: Pooling_Setup_def Let_def kn_def [symmetric] str_def [symmetric] shape_at_def sized_def idxR_def src_image_4)
  then show ?thesis using s1(5,6) sz w by (auto simp only: ready_def)
qed

lemma sized_is_cube:
  assumes "sized h b [n, f, y, x]" and "shape_ok [n, f, y, x]"
  shows "is_cube h b (nat n) (nat f) (nat y * nat x)"
proof -
  have p: "0 < n" "0 < f" "0 < y" "0 < x" using assms(2) by (simp_all add: shape_ok_def)
  have "bcount (blobs h b) = n * (f * (y * x))" "shape (blobs h b) = [n, f, y, x]" using sized_count [OF assms(1)] by simp_all
  then show ?thesis using p by (simp add: is_cube_def algebra_simps)
qed

text \<open>The blobs of a layer with weights, all apart.\<close>

lemma weighted_distinct:
  assumes "wf_net s" and "feeds s k l sh" and "lo_weight (objs s l) = Some a" "lo_bias (objs s l) = Some b"
    and "pdata (lparams s a) = Some wd" "pdata (lparams s b) = Some bd"
  shows "distinct ([lo_data (objs s k), lo_data (objs s l), lo_grad (objs s l), wd, bd, pgrad (lparams s a), pgrad (lparams s b),
      lo_col_data (objs s l), lo_col_grad (objs s l)] @ (case ginput_of s l of None \<Rightarrow> [] | Some g \<Rightarrow> [g]))"
proof -
  have k: "k < nobj s" "l < nobj s" "k \<noteq> l" using assms(2) by (auto simp: feeds_def)
  show ?thesis
    using owned_distinct [OF assms(1) k(2,1,3)] unfolding own_params_eq [OF assms(3-6)] keys_def feeds_inputs(6) [OF assms(2)] by auto
qed

lemma weighted_params:
  assumes "lo_weight (objs s l) = Some a" "lo_bias (objs s l) = Some b" and "pdata (lparams s a) = Some wd" "pdata (lparams s b) = Some bd"
  shows "param_blob s (lo_weight (objs s l)) = Inr wd" "param_blob s (lo_bias (objs s l)) = Inr bd"
    "param_grad s (lo_weight (objs s l)) = Inr (pgrad (lparams s a))" "param_grad s (lo_bias (objs s l)) = Inr (pgrad (lparams s b))"
    "weight_of s (lo_weight (objs s l)) = wd" "weight_of s (lo_bias (objs s l)) = bd"
    "gweight_of s (lo_weight (objs s l)) = pgrad (lparams s a)" "gweight_of s (lo_bias (objs s l)) = pgrad (lparams s b)"
  using assms by (simp_all add: param_blob_def param_grad_def deref_def data_blob_def weight_of_def gweight_of_def)

lemma Convolution_wired:
  assumes "wf_net s" and "feeds s k l sh" and "sh = [n, c, y, x]" and "shape_ok sh"
    and "sized (lmem s) (lo_data (objs s l)) sh'" "sized (lmem s) (lo_grad (objs s l)) sh'"
    and "sh' = [n, f, (y + 2 * p - kn) div str + 1, (x + 2 * p - kn) div str + 1]" and "shape_ok sh'"
    and "sized (lmem s) (lo_col_data (objs s l)) [ch, cw]" "sized (lmem s) (lo_col_grad (objs s l)) [ch, cw]"
    and "ch = c * kn * kn" and "cw = ((y + 2 * p - kn) div str + 1) * ((x + 2 * p - kn) div str + 1)" and "0 < ch"
    and "lo_weight (objs s l) = Some a" "lo_bias (objs s l) = Some b" "pdata (lparams s a) = Some wd" "pdata (lparams s b) = Some bd"
    and "sized (lmem s) wd [f, ch]" "sized (lmem s) (pgrad (lparams s a)) [f, ch]" "sized (lmem s) bd [f]" "sized (lmem s) (pgrad (lparams s b)) [f]"
    and "lo_type (objs s l) = kConvolution" "lo_batchsize (objs s l) = n" "lo_channels (objs s l) = c" "lo_height (objs s l) = y" "lo_width (objs s l) = x"
    and "lo_kernel (objs s l) = kn" "lo_stride (objs s l) = str" "lo_pad (objs s l) = p" "lo_num_filters (objs s l) = f"
    and "0 < kn" "0 < str" "0 \<le> p" "kn \<le> y + 2 * p" "kn \<le> x + 2 * p"
  shows "wired s l"
proof -
  let ?o = "objs s l"
  note in1 = feeds_inputs [OF assms(2)] and wp = weighted_params [OF assms(14-17)]
  note dist = weighted_distinct [OF assms(1,2,14-17)]
  have pos: "0 < n" "0 < c" "0 < y" "0 < x" "0 < f" using assms(3,4,7,8) by (simp_all add: shape_ok_def)
  let ?c = "\<lparr>cv_bx = lo_data (objs s k), cv_by = lo_data ?o, cv_bgy = lo_grad ?o, cv_bw = wd, cv_bb = bd, cv_bgw = pgrad (lparams s a),
    cv_bgb = pgrad (lparams s b), cv_bgx = ginput_of s l, cv_bcol = lo_col_data ?o, cv_bgcol = lo_col_grad ?o\<rparr>"
    and ?z = "shape_of_conv ?o (nat n) (nat c) (nat y) (nat x) (nat f)"
  have z: "cv_n ?z = nat n" "cv_ch ?z = nat c" "cv_h ?z = nat y" "cv_w ?z = nat x" "cv_f ?z = nat f" "cv_k ?z = nat kn" "cv_p ?z = nat p" "cv_s ?z = nat str"
    using assms(27-29) by (simp_all add: shape_of_conv_def)
  have ok: "cv_ok ?z" using assms(31-35) pos by (simp add: cv_ok_def z nat_le_iff flip: nat_mult_distrib nat_add_distrib)
  have pad: "nat y + 2 * nat p = nat (y + 2 * p)" "nat x + 2 * nat p = nat (x + 2 * p)" using pos assms(33) by (simp_all add: nat_add_distrib nat_mult_distrib)
  have col: "cv_col ?z = nat ch" using pos assms(11,31) by (simp add: cv_col_def z nat_mult_distrib)
  have d: "(y + 2 * p - kn) div str \<ge> 0" "(x + 2 * p - kn) div str \<ge> 0" using assms(32,34,35) by (simp_all add: pos_imp_zdiv_nonneg_iff)
  have pix: "cv_pix ?z = nat ((y + 2 * p - kn) div str + 1) * nat ((x + 2 * p - kn) div str + 1)" "cv_pix ?z = nat cw"
    using out_size_nat [OF assms(32,31,34)] out_size_nat [OF assms(32,31,35)] d
    by (simp_all add: cv_pix_def z pad assms(12) nat_mult_distrib)
  have szk: "sized (lmem s) (lo_data (objs s k)) sh" using assms(2) by (simp add: feeds_def)
  have gx: "\<forall>g \<in> set_option (ginput_of s l). bcount (blobs (lmem s) g) = int (cv_n ?z * cv_rows ?z * cv_w ?z)"
    using in1(6,7) sized_count [of "lmem s" "lo_grad (objs s k)" sh] pos assms(3) by (auto simp: z cv_rows_def)
  have "cv_shapes ?z ?c (lmem s)"
    unfolding cv_shapes_def cv_blobs.simps
  proof (intro conjI gx)
    show "is_img (lmem s) (lo_data (objs s k)) (cv_n ?z) (cv_ch ?z) (cv_h ?z) (cv_w ?z)"
      unfolding z(1-5) using sized_is_img [OF szk [unfolded assms(3)]] assms(3,4) by simp
    show "is_cube (lmem s) (lo_data ?o) (cv_n ?z) (cv_f ?z) (cv_pix ?z)" "is_cube (lmem s) (lo_grad ?o) (cv_n ?z) (cv_f ?z) (cv_pix ?z)"
      unfolding z(1-5) pix(1) using sized_is_cube assms(5-8) by simp_all
    show "is_mat (lmem s) wd (cv_f ?z) (cv_col ?z)" "is_mat (lmem s) (pgrad (lparams s a)) (cv_f ?z) (cv_col ?z)"
      "is_mat (lmem s) (lo_col_data ?o) (cv_col ?z) (cv_pix ?z)" "is_mat (lmem s) (lo_col_grad ?o) (cv_col ?z) (cv_pix ?z)"
      unfolding z(1-5) col pix(2) using sized_is_mat [OF assms(18) pos(5)] sized_is_mat [OF assms(19) pos(5)] sized_is_mat [OF assms(9,13)] sized_is_mat [OF assms(10,13)]
      by simp_all
    show "bcount (blobs (lmem s) bd) = int (cv_f ?z)" "bcount (blobs (lmem s) (pgrad (lparams s b))) = int (cv_f ?z)"
      unfolding z(1-5) using sized_count [OF assms(20)] sized_count [OF assms(21)] pos by simp_all
  qed
  moreover have "distinct (cv_list ?c)" using dist unfolding cv_list_def cv_blobs.simps by simp
  ultimately have "cv_wired ?z ?c l s"
    unfolding cv_wired_def cv_blobs.simps z(1-5) using in1(2,3,5) wp(1-4) assms(23-26) pos ok by simp
  moreover have "link_of rs s l = Conv l ?z ?c" for rs
    using in1(3) wp(5-8) assms(22-26,30) by (simp add: link_of_def Let_def)
  ultimately show ?thesis using assms(5,6,9,10,18-21) by (auto simp: wired_def lk_own_def)
qed

lemma Convolution_ready:
  assumes "wf_net s" and "1 \<le> np" and "feeds s k l sh" and "lo_weight (objs s l) = None" and "lo_bias (objs s l) = None"
    and "lo_type (objs s l) = kConvolution" and "conv_shape_of lp np sh = Some sh'"
  shows "\<exists>s1. Convolution_Setup lp np l s = Inr s1 \<and> ready s l sh' s1"
proof -
  obtain n c y x where sh: "sh = [n, c, y, x]" using assms(7) by (auto simp: conv_shape_of_def Let_def split: list.splits)
  define kn p str nf where "kn = conv_kernel (conf lp)" and "p = conv_pad (conf lp)" and "str = conv_stride (conf lp)" and "nf = conv_num_filters (conf lp)"
  define f where "f = (if 0 < partition_dim lp then nf sdiv np else nf)"
  define oh ow where "oh = (y + 2 * p - kn) div str + 1" and "ow = (x + 2 * p - kn) div str + 1"
  note defs = kn_def p_def str_def nf_def f_def oh_def ow_def
  have z: "0 < kn" "0 < str" "0 \<le> p" "is_c_int (y + 2 * p)" "is_c_int (x + 2 * p)" "kn \<le> y + 2 * p" "kn \<le> x + 2 * p" "shape_ok sh"
    "sh' = [n, f, oh, ow]" "shape_ok [n, f, oh, ow]" "shape_ok [c * kn * kn, oh * ow]" "shape_ok [f, c * kn * kn]" "2 \<le> length (lp_param lp)"
    using assms(7) sh by (auto simp: conv_shape_of_def Let_def defs split: if_splits)
  have pos: "0 < n" "0 < c" "0 < y" "0 < x" "is_c_int f" "is_c_int oh" "is_c_int ow" "is_c_int (c * kn * kn)" "is_c_int (oh * ow)" "0 < c * kn * kn" "shape_ok [f]"
    using shape_okD [OF z(8)] shape_okD [OF z(10)] shape_okD [OF z(11)] sh by (auto simp: shape_ok_def)
  have "c * kn \<le> c * kn * kn" "0 < c * kn" using pos(2) z(1) by simp_all
  then have ck: "is_c_int (c * kn)" using pos(8) unfolding is_c_int_def by linarith
  have side: "conv_side y p kn str = Inr oh" "conv_side x p kn str = Inr ow"
    using conv_side_ok [OF z(2,1,3)] pos(3,4,6,7) z(4-7) by (simp_all add: oh_def ow_def)
  have df: "(if 0 < partition_dim lp then divR nf np else Inr nf) = Inr f"
    using pos(5) assms(2) by (auto simp: divR_def intR_def f_def split: if_splits)
  let ?f = "\<lambda>o1. o1\<lparr>lo_kernel := kn, lo_pad := p, lo_stride := str, lo_num_filters := f, lo_width := x, lo_height := y, lo_channels := c,
    lo_batchsize := n, lo_conv_height := oh, lo_conv_width := ow, lo_col_height := c * kn * kn, lo_col_width := oh * ow\<rparr>"
  have kf: "keeps ?f" by (simp add: keeps_def members_def)
  obtain s1 h where s1: "Layer_Setup lp np l s = Inr s1" "objs s1 l = (objs s l)\<lparr>layer_proto := lp\<rparr>" "feeds s1 k l sh"
    "reshape_both l sh' (upd_obj l ?f s1) = Inr (upd_obj l ?f s1\<lparr>lmem := h\<rparr>)" "wf_net (upd_obj l ?f s1\<lparr>lmem := h\<rparr>)"
    "leaves l s (upd_obj l ?f s1\<lparr>lmem := h\<rparr>)" "feeds (upd_obj l ?f s1\<lparr>lmem := h\<rparr>) k l sh"
    "sized h (lo_data (objs s l)) sh'" "sized h (lo_grad (objs s l)) sh'"
    using update_reshape [OF assms(1-3) kf z(10) [folded z(9)]] by blast
  define s2 where "s2 = upd_obj l ?f s1\<lparr>lmem := h\<rparr>"
  have s2: "wf_net s2" "leaves l s s2" "feeds s2 k l sh" "objs s2 l = ?f ((objs s l)\<lparr>layer_proto := lp\<rparr>)" "lmem s2 = h"
    using s1(2,5-7) by (simp_all add: s2_def)
  have l: "l < nobj s" "k < nobj s" "k \<noteq> l" using assms(3) by (auto simp: feeds_def)
  have ks: "distinct (keys (objs s l))" using owned_distinct [OF assms(1) l] by simp
  have keys: "lo_col_data (objs s l) \<noteq> lo_data (objs s l)" "lo_col_data (objs s l) \<noteq> lo_grad (objs s l)" "lo_col_grad (objs s l) \<noteq> lo_data (objs s l)"
    "lo_col_grad (objs s l) \<noteq> lo_grad (objs s l)" "lo_col_data (objs s l) \<noteq> lo_col_grad (objs s l)"
    using ks by (auto simp: keys_def)
  have mem: "lo_col_data (objs s2 l) \<in> set (members (objs s2 l))" "lo_col_grad (objs s2 l) \<in> set (members (objs s2 l))" by (simp_all add: members_def)
  obtain h3 where h3: "reshape (lo_col_data (objs s2 l)) [c * kn * kn, oh * ow] s2 = Inr (s2\<lparr>lmem := h3\<rparr>)" "wf_net (s2\<lparr>lmem := h3\<rparr>)"
    "leaves l s2 (s2\<lparr>lmem := h3\<rparr>)" "sized h3 (lo_col_data (objs s2 l)) [c * kn * kn, oh * ow]" "feeds (s2\<lparr>lmem := h3\<rparr>) k l sh"
    "\<forall>b sh. b \<noteq> lo_col_data (objs s2 l) \<longrightarrow> sized (lmem s2) b sh \<longrightarrow> sized h3 b sh"
    using reshape_more [OF s2(1,3) mem(1) z(11)] by blast
  let ?s3 = "s2\<lparr>lmem := h3\<rparr>"
  obtain h4 where h4: "reshape (lo_col_grad (objs s2 l)) [c * kn * kn, oh * ow] ?s3 = Inr (s2\<lparr>lmem := h4\<rparr>)" "wf_net (s2\<lparr>lmem := h4\<rparr>)"
    "leaves l ?s3 (s2\<lparr>lmem := h4\<rparr>)" "sized h4 (lo_col_grad (objs s2 l)) [c * kn * kn, oh * ow]" "feeds (s2\<lparr>lmem := h4\<rparr>) k l sh"
    "\<forall>b sh. b \<noteq> lo_col_grad (objs s2 l) \<longrightarrow> sized h3 b sh \<longrightarrow> sized h4 b sh"
    using reshape_more [OF h3(2,5) _ z(11), of "lo_col_grad (objs s2 l)"] mem(2) by auto
  have sz4: "sized h4 (lo_data (objs s2 l)) sh'" "sized h4 (lo_grad (objs s2 l)) sh'" "sized h4 (lo_col_data (objs s2 l)) [c * kn * kn, oh * ow]"
    using s1(8,9) s2(4,5) h3(4,6) h4(6) keys by simp_all
  let ?s4 = "s2\<lparr>lmem := h4\<rparr>" and ?a = "nlparam s2"
  have l4: "l < nobj ?s4" "lo_weight (objs ?s4 l) = None" "lo_bias (objs ?s4 l) = None" using h4(5) s2(4) assms(4,5) by (auto simp: feeds_def)
  obtain s5 wd bd where s5: "setup_weights lp [f, c * kn * kn] [f] l ?s4 = Inr s5" "wf_net s5" "leaves l ?s4 s5"
    "objs s5 l = (objs s2 l)\<lparr>lo_weight := Some ?a, lo_bias := Some (Suc ?a)\<rparr>" "\<forall>c sh. sized h4 c sh \<longrightarrow> sized (lmem s5) c sh"
    "pdata (lparams s5 ?a) = Some wd" "pdata (lparams s5 (Suc ?a)) = Some bd"
    "sized (lmem s5) wd [f, c * kn * kn]" "sized (lmem s5) (pgrad (lparams s5 ?a)) [f, c * kn * kn]"
    "sized (lmem s5) bd [f]" "sized (lmem s5) (pgrad (lparams s5 (Suc ?a))) [f]"
    using setup_weights_ok [OF h4(2) l4 z(12) pos(11) z(13)] by auto
  have lv: "leaves l s s5" by (rule leaves_trans [OF leaves_trans [OF leaves_trans [OF s2(2) h3(3)] h4(3)] s5(3)])
  have f5: "feeds s5 k l sh" by (rule feeds_leaves [OF h4(5) s5(3) h4(2)])
  have sz: "sized (lmem s5) (lo_data (objs s5 l)) sh'" "sized (lmem s5) (lo_grad (objs s5 l)) sh'"
    "sized (lmem s5) (lo_col_data (objs s5 l)) [c * kn * kn, oh * ow]" "sized (lmem s5) (lo_col_grad (objs s5 l)) [c * kn * kn, oh * ow]"
    using sz4 h4(4) s5(4,5) by simp_all
  have w: "wired s5 l"
    by (rule Convolution_wired [where kn = kn and p = p and str = str, OF s5(2) f5 sh z(8) sz(1,2) _ _ sz(3,4) refl _ pos(10) _ _ s5(6-11)])
      (use s5(4) s2(4) assms(6) z(1-3,6,7,9,10) in \<open>simp_all add: oh_def ow_def\<close>)
  have run: "reshape_both l [n, f, oh, ow] (upd_obj l ?f s1) = Inr s2" using s1(4) by (simp add: z(9) s2_def)
  have src: "src_data s1 l 0 kPositive = Inr (lo_data (objs s1 k))" "shape_at s1 (lo_data (objs s1 k)) = [n, c, y, x]"
    using feeds_inputs(1,4) [OF s1(3)] sh by (simp_all add: shape_at_def sized_def)
  have "Convolution_Setup lp np l s = Inr s5"
    unfolding Convolution_Setup_def s1(1) bindR_Inr Let_def defs(1-4) [symmetric] df src src_image_4
    using z(1) run h3(1) h4(1) s5(1) side pos(8,9) ck by (simp add: intR_def idxR_def)
  then show ?thesis using s5(2) lv sz(1,2) w by (auto simp only: ready_def)
qed

section \<open>One layer\<close>

text \<open>
  A layer that is not set up yet, with the one source \<open>k\<close>. \<open>pad_\<close> of a pooling layer is not initialised: it has to be smaller than the
  kernel by chance.
\<close>

definition fresh :: "real lstate \<Rightarrow> nat \<Rightarrow> nat \<Rightarrow> real LayerProto \<Rightarrow> bool" where
  "fresh s k l lp \<longleftrightarrow> lo_srclayers (objs s l) = [k] \<and> lo_weight (objs s l) = None \<and> lo_bias (objs s l) = None \<and> l < nobj s \<and>
     (lo_type (objs s l) = kPooling \<longrightarrow> lo_pad (objs s l) < pooling_kernel (conf lp))"

lemma layer_ready:
  assumes "wf_net s" and "1 \<le> np" and "feeds s k l sh" and "fresh s k l lp"
    and "layer_shape lp (lo_type (objs s l)) np (has_grad (lo_type (objs s k))) sh = Some sh'"
  shows "\<exists>s1. virtual_Setup w prefetch lp np l s = Inr s1 \<and> ready s l sh' s1"
  using assms InnerProduct_ready [OF assms(1-3), of lp sh'] Convolution_ready [OF assms(1-3), of lp sh'] Pooling_ready [OF assms(1-3), of lp sh']
    LRN_ready [OF assms(1-3), of lp sh'] ReLU_ready [OF assms(1-3), of lp] Tanh_ready [OF assms(1-3), of lp] Dropout_ready [OF assms(1-3), of lp]
  by (cases "lo_type (objs s l)") (simp_all add: virtual_Setup_def layer_shape_def fresh_def split: if_splits)

lemma layer_shape_type: "layer_shape lp t np hg sh = Some sh' \<Longrightarrow> plain t \<and> has_grad t"
  by (cases t) (auto simp: layer_shape_def plain_def has_grad_def is_datalayer_def is_parserlayer_def is_losslayer_def)

section \<open>Other layers stay as they are\<close>

lemma leaves_owned:
  assumes "leaves j s s1" and "wf_net s" and "l < nobj s" and "j < nobj s" and "l \<noteq> j"
  shows "objs s1 l = objs s l" "\<forall>a \<in> set (ptrs (objs s l)). lparams s1 a = lparams s a" "owned s1 l = owned s l"
    "\<forall>b \<in> set (owned s l). blobs (lmem s1) b = blobs (lmem s) b"
proof -
  have w: "set (owned s l) \<inter> set (owned s j) = {}" "set (owned s l) \<subseteq> {..<nblob (lmem s)}" "set (ptrs (objs s l)) \<subseteq> {..<nlparam s}"
    using assms(2-5) by (simp_all add: wf_net_def)
  show o: "objs s1 l = objs s l" and a: "\<forall>a \<in> set (ptrs (objs s l)). lparams s1 a = lparams s a" using assms(1,5) w(3) by (auto simp: leaves_def)
  show "owned s1 l = owned s l" using o a by (auto simp: owned_def intro!: arg_cong [of _ _ concat])
  have "set (members (objs s j)) \<subseteq> set (owned s j)" by (simp add: owned_def)
  then show "\<forall>b \<in> set (owned s l). blobs (lmem s1) b = blobs (lmem s) b" using assms(1) w(1,2) unfolding leaves_def by blast
qed

text \<open>The object, and the source as far as the getters show it.\<close>

lemma leaves_getters:
  assumes "leaves j s s1" and "feeds s k l sh" and "wf_net s" and "l \<noteq> j" and "k \<noteq> j"
  shows "src_mutable_data s1 l 0 kPositive = src_mutable_data s l 0 kPositive" "src_mutable_grad s1 l 0 = src_mutable_grad s l 0"
proof -
  have o: "objs s1 l = objs s l" "objs s1 k = objs s k" using assms(1,4,5) by (simp_all add: leaves_def)
  have k: "src_of s l 0 = Inr k" "plain (lo_type (objs s k))" using feeds_src [OF assms(2)] assms(2) by (simp_all add: feeds_def)
  then have "src_of s1 l 0 = Inr k" "plain (lo_type (objs s1 k))" using o by (simp_all add: src_of_def)
  from plain_getters [OF this] plain_getters [OF k] show "src_mutable_data s1 l 0 kPositive = src_mutable_data s l 0 kPositive"
    "src_mutable_grad s1 l 0 = src_mutable_grad s l 0" using o by simp_all
qed

fun lk_id :: "link \<Rightarrow> nat" where
  "lk_id (Fc l n k m c) = l" | "lk_id (Relu l n c) = l" | "lk_id (Stanh l n c) = l" | "lk_id (Drop l n us ms c k) = l"
| "lk_id (Conv l z c) = l" | "lk_id (Pool l n ch m z c) = l" | "lk_id (Lrn l z c) = l"

lemma lk_wired_cong:
  assumes "objs s1 (lk_id lk) = objs s (lk_id lk)"
    and "src_mutable_data s1 (lk_id lk) 0 kPositive = src_mutable_data s (lk_id lk) 0 kPositive" "src_mutable_grad s1 (lk_id lk) 0 = src_mutable_grad s (lk_id lk) 0"
    and "\<And>a. a \<in> set (ptrs (objs s (lk_id lk))) \<Longrightarrow> lparams s1 a = lparams s a" and "\<And>b. b \<in> lk_blobs lk \<Longrightarrow> blobs (lmem s1) b = blobs (lmem s) b"
  shows "lk_wired s1 lk = lk_wired s lk"
proof -
  have p: "param_blob s1 (lo_weight (objs s (lk_id lk))) = param_blob s (lo_weight (objs s (lk_id lk)))"
    "param_blob s1 (lo_bias (objs s (lk_id lk))) = param_blob s (lo_bias (objs s (lk_id lk)))"
    "param_grad s1 (lo_weight (objs s (lk_id lk))) = param_grad s (lo_weight (objs s (lk_id lk)))"
    "param_grad s1 (lo_bias (objs s (lk_id lk))) = param_grad s (lo_bias (objs s (lk_id lk)))"
    using assms(4) by (simp_all add: param_blob_def param_grad_def deref_def ptrs_def split: option.splits)
  show ?thesis
    using assms(1-3,5) p
    by (cases lk) (simp_all add: fc_wired_def el_wired_def do_wired_def cv_wired_def pl_wired_def lr_wired_def lk_blobs_def lk_own_def is_mat_def
        is_img_def is_cube_def el_list_def lr_list_def cv_shapes_def)
qed

lemma lk_id_link_of: "lk_id (link_of rs s l) = l"
  by (simp add: link_of_def Let_def split: LayerType.split)

lemma lk_wired_source:
  "lk_wired s lk \<Longrightarrow> src_mutable_data s (lk_id lk) 0 kPositive = Inr (Some (lk_x lk)) \<and> src_mutable_grad s (lk_id lk) 0 = Inr (lk_gx lk)"
  by (cases lk) (simp_all add: fc_wired_def el_wired_def do_wired_def cv_wired_def pl_wired_def lr_wired_def)

lemma lk_of_source:
  assumes "lk_wired s (link_of rs s l)"
  shows "lk_x (link_of rs s l) = input_of s l" "lk_gx (link_of rs s l) = ginput_of s l"
  using lk_wired_source [OF assms] by (simp_all add: lk_id_link_of input_of_def ginput_of_def)

lemma lk_of_own: "lk_y (link_of rs s l) = lo_data (objs s l)" "lk_gy (link_of rs s l) = lo_grad (objs s l)"
  by (simp_all add: link_of_def Let_def split: LayerType.split)

lemma lk_wired_own: "lk_wired s lk \<Longrightarrow> distinct (lk_own lk)"
  by (cases lk) (auto simp: lk_own_def fc_wired_def fc_list_def el_wired_def el_list_def do_wired_def cv_wired_def cv_list_def pl_wired_def lr_wired_def lr_list_def)

lemma own_owned:
  assumes "lk_wired s (link_of rs s l)"
  shows "set (lk_own (link_of rs s l)) \<subseteq> set (owned s l)"
proof -
  have w: "\<exists>a. lo_weight (objs s l) = Some a \<and> pdata (lparams s a) = Some (weight_of s (lo_weight (objs s l))) \<and>
      pgrad (lparams s a) = gweight_of s (lo_weight (objs s l))" "\<exists>a. lo_bias (objs s l) = Some a \<and> pdata (lparams s a) = Some (weight_of s (lo_bias (objs s l))) \<and>
      pgrad (lparams s a) = gweight_of s (lo_bias (objs s l))"
    if "lo_type (objs s l) \<in> {kInnerProduct, kConvolution}"
    using assms that
    by (auto simp: link_of_def Let_def fc_wired_def cv_wired_def param_blob_def deref_def data_blob_def weight_of_def gweight_of_def
        split: option.splits)
  show ?thesis
  proof (cases "lo_type (objs s l) \<in> {kInnerProduct, kConvolution}")
    case True
    obtain a b where "lo_weight (objs s l) = Some a" "pdata (lparams s a) = Some (weight_of s (lo_weight (objs s l)))"
      "pgrad (lparams s a) = gweight_of s (lo_weight (objs s l))" "lo_bias (objs s l) = Some b"
      "pdata (lparams s b) = Some (weight_of s (lo_bias (objs s l)))" "pgrad (lparams s b) = gweight_of s (lo_bias (objs s l))"
      using w [OF True] by blast
    then show ?thesis using True by (auto simp: link_of_def Let_def lk_own_def owned_def members_def ptrs_def pblobs_def)
  next
    case False
    then show ?thesis by (auto simp: link_of_def Let_def lk_own_def owned_def members_def split: LayerType.splits)
  qed
qed

text \<open>What is known of a layer that is set up: its source, its blobs, its wiring.\<close>

definition settled :: "real lstate \<Rightarrow> nat \<Rightarrow> nat \<Rightarrow> int list \<Rightarrow> int list \<Rightarrow> bool" where
  "settled s k l sh sh' \<longleftrightarrow> feeds s k l sh \<and> plain (lo_type (objs s l)) \<and> has_grad (lo_type (objs s l)) \<and>
     sized (lmem s) (lo_data (objs s l)) sh' \<and> sized (lmem s) (lo_grad (objs s l)) sh' \<and> wired s l"

lemma feeds_other:
  assumes "leaves j s s1" and "feeds s k l sh" and "wf_net s" and "j < nobj s" and "l \<noteq> j" and "k \<noteq> j"
  shows "feeds s1 k l sh"
proof -
  have kl: "k < nobj s" "l < nobj s" using assms(2) by (simp_all add: feeds_def)
  note o = leaves_owned [OF assms(1,3) kl(1) assms(4,6)] leaves_owned [OF assms(1,3) kl(2) assms(4,5)]
  have "lo_data (objs s k) \<in> set (owned s k)" "lo_grad (objs s k) \<in> set (owned s k)" by (simp_all add: owned_def members_def)
  moreover have "nobj s1 = nobj s" "nblob (lmem s) \<le> nblob (lmem s1)" using assms(1) by (simp_all add: leaves_def)
  ultimately show ?thesis using assms(2) o(1,4,5) by (auto simp: feeds_def sized_def)
qed

lemma link_of_leaves:
  assumes "leaves j s s1" and "feeds s k l sh" and "wf_net s" and "j < nobj s" and "l \<noteq> j" and "k \<noteq> j"
  shows "link_of rs s1 l = link_of rs s l"
proof -
  have l: "l < nobj s" using assms(2) by (simp add: feeds_def)
  note o = leaves_owned [OF assms(1,3) l assms(4,5)] and g = leaves_getters [OF assms(1,2,3,5,6)]
  have w: "weight_of s1 (lo_weight (objs s l)) = weight_of s (lo_weight (objs s l))" "weight_of s1 (lo_bias (objs s l)) = weight_of s (lo_bias (objs s l))"
    "gweight_of s1 (lo_weight (objs s l)) = gweight_of s (lo_weight (objs s l))" "gweight_of s1 (lo_bias (objs s l)) = gweight_of s (lo_bias (objs s l))"
    using o(2) by (auto simp: weight_of_def gweight_of_def ptrs_def split: option.split)
  have "lo_data (objs s l) \<in> set (owned s l)" by (simp add: owned_def members_def)
  then have "count_at s1 (lo_data (objs s l)) = count_at s (lo_data (objs s l))" using o(4) by (simp add: count_at_def)
  then show ?thesis using o(1) g w by (simp add: link_of_def Let_def input_of_def ginput_of_def ginput0_def split: LayerType.split)
qed

lemma settled_leaves:
  assumes "leaves j s s1" and "settled s k l sh sh'" and "wf_net s" and "j < nobj s" and "l \<noteq> j" and "k \<noteq> j"
  shows "settled s1 k l sh sh'"
proof -
  have f: "feeds s k l sh" and w: "wired s l" using assms(2) by (simp_all add: settled_def)
  have l: "l < nobj s" "k < nobj s" using f by (simp_all add: feeds_def)
  note o = leaves_owned [OF assms(1,3) l(1) assms(4,5)] and ok = leaves_owned [OF assms(1,3) l(2) assms(4,6)]
    and g = leaves_getters [OF assms(1) f assms(3,5,6)] and lk = link_of_leaves [OF assms(1) f assms(3-6)]
  have nb: "nblob (lmem s) \<le> nblob (lmem s1)" using assms(1) by (simp add: leaves_def)
  have sz: "sized (lmem s1) b sh1" if "sized (lmem s) b sh1" "b \<in> set (owned s l)" for b sh1 using that o(4) nb by (auto intro: sized_cong)
  have d: "lo_data (objs s l) \<in> set (owned s l)" "lo_grad (objs s l) \<in> set (owned s l)" by (simp_all add: owned_def members_def)
  have dk: "lo_data (objs s k) \<in> set (owned s k)" "lo_grad (objs s k) \<in> set (owned s k)" by (simp_all add: owned_def members_def)
  have own: "set (lk_own (link_of rs s l)) \<subseteq> set (owned s l)" for rs
  proof -
    have "lk_wired s (link_of (\<lambda>_. replicate (nat (count_at s (lo_data (objs s l)))) 0) s l)" using w by (simp add: wired_def)
    moreover have "lk_own (link_of rs s l) = lk_own (link_of (\<lambda>_. replicate (nat (count_at s (lo_data (objs s l)))) 0) s l)"
      by (simp add: link_of_def Let_def lk_own_def split: LayerType.split)
    ultimately show ?thesis using own_owned by simp
  qed
  have "lk_wired s1 (link_of rs s l)" if "lk_wired s (link_of rs s l)" for rs
  proof -
    have s: "lk_x (link_of rs s l) = lo_data (objs s k)" "set_option (lk_gx (link_of rs s l)) \<subseteq> {lo_grad (objs s k)}"
      using lk_of_source [OF that] feeds_inputs(3,6) [OF f] by auto
    have "\<forall>b \<in> lk_blobs (link_of rs s l). blobs (lmem s1) b = blobs (lmem s) b"
      using s own [of rs] o(4) ok(4) dk unfolding lk_blobs_def by auto
    then show ?thesis using lk_wired_cong [of s1 "link_of rs s l" s] that o(1,2) g by (simp add: lk_id_link_of)
  qed
  moreover have "nat (count_at s1 (lo_data (objs s l))) = nat (count_at s (lo_data (objs s l)))" using o(4) d by (simp add: count_at_def)
  ultimately have "wired s1 l" using w sz own unfolding wired_def lk o(1) by (metis subsetD)
  then show ?thesis using assms(2) o(1) sz d feeds_other [OF assms(1) f assms(3-6)] by (simp add: settled_def)
qed

section \<open>A chain of layers\<close>

definition setup_layers :: "env \<Rightarrow> (real LayerProto \<Rightarrow> int \<Rightarrow> nat \<Rightarrow> real lstate \<Rightarrow> real lstate res) \<Rightarrow> int \<Rightarrow>
    (nat \<times> real LayerProto) list \<Rightarrow> real lstate \<Rightarrow> real lstate res" where
  "setup_layers w prefetch np ls s = foldR (\<lambda>s (l, lp). virtual_Setup w prefetch lp np l s) s ls"

text \<open>The shape at the top of a chain whose source has a gradient if \<open>hg\<close>, and the chain itself: each layer reads the one before it.\<close>

fun chain_shape :: "real lstate \<Rightarrow> int \<Rightarrow> bool \<Rightarrow> int list \<Rightarrow> (nat \<times> real LayerProto) list \<Rightarrow> int list option" where
  "chain_shape s np hg sh [] = Some sh"
| "chain_shape s np hg sh ((l, lp) # ls) =
     (case layer_shape lp (lo_type (objs s l)) np hg sh of None \<Rightarrow> None | Some sh1 \<Rightarrow> chain_shape s np True sh1 ls)"

fun chain :: "real lstate \<Rightarrow> nat \<Rightarrow> (nat \<times> real LayerProto) list \<Rightarrow> bool" where
  "chain s k [] = True"
| "chain s k ((l, lp) # ls) \<longleftrightarrow> fresh s k l lp \<and> l \<noteq> k \<and> chain s l ls"

fun chain_settled :: "real lstate \<Rightarrow> nat \<Rightarrow> int list \<Rightarrow> nat list \<Rightarrow> int list \<Rightarrow> bool" where
  "chain_settled s k sh [] sh1 \<longleftrightarrow> sh1 = sh"
| "chain_settled s k sh (l # ls) sh1 \<longleftrightarrow> (\<exists>sh'. settled s k l sh sh' \<and> chain_settled s l sh' ls sh1)"

text \<open>The bottom of a chain, and what the Setup of layers \<open>L\<close> cannot change.\<close>

definition ground :: "real lstate \<Rightarrow> nat \<Rightarrow> int list \<Rightarrow> bool" where
  "ground s k sh \<longleftrightarrow> k < nobj s \<and> plain (lo_type (objs s k)) \<and> sized (lmem s) (lo_data (objs s k)) sh \<and>
     (has_grad (lo_type (objs s k)) \<longrightarrow> sized (lmem s) (lo_grad (objs s k)) sh)"

definition stable :: "nat set \<Rightarrow> (real lstate \<Rightarrow> bool) \<Rightarrow> bool" where
  "stable L P \<longleftrightarrow> (\<forall>s s1 j. j \<in> L \<and> wf_net s \<and> j < nobj s \<and> leaves j s s1 \<and> P s \<longrightarrow> P s1)"

lemma ground_feeds: "ground s k sh \<Longrightarrow> fresh s k l lp \<Longrightarrow> l \<noteq> k \<Longrightarrow> feeds s k l sh"
  by (auto simp: ground_def fresh_def feeds_def)

lemma stable_settled: "l \<notin> L \<Longrightarrow> k \<notin> L \<Longrightarrow> stable L (\<lambda>s. settled s k l sh sh')"
  unfolding stable_def using settled_leaves by blast

lemma leaves_type: "leaves j s s1 \<Longrightarrow> lo_type (objs s1 l) = lo_type (objs s l)"
  by (cases "l = j") (simp_all add: leaves_def)

lemma stable_type: "stable L (\<lambda>s. lo_type (objs s l) = t)"
  unfolding stable_def by (metis leaves_type)

lemma stable_object: "l \<notin> L \<Longrightarrow> stable L (\<lambda>s. objs s l = o1 \<and> nobj s = n)"
  unfolding stable_def leaves_def by metis

lemma stable_ground:
  assumes "k \<notin> L"
  shows "stable L (\<lambda>s. ground s k sh)"
  unfolding stable_def
proof (intro allI impI, elim conjE)
  fix s s1 j
  assume j: "j \<in> L" "wf_net s" "j < nobj s" "leaves j s s1" "ground s k sh"
  have k: "k < nobj s" "k \<noteq> j" using j(1,5) assms by (auto simp: ground_def)
  note o = leaves_owned [OF j(4,2) k(1) j(3) k(2)]
  have "lo_data (objs s k) \<in> set (owned s k)" "lo_grad (objs s k) \<in> set (owned s k)" by (simp_all add: owned_def members_def)
  moreover have "nobj s1 = nobj s" "nblob (lmem s) \<le> nblob (lmem s1)" using j(4) by (simp_all add: leaves_def)
  ultimately show "ground s1 k sh" using j(5) o(1,4) by (auto simp: ground_def sized_def)
qed

lemma chain_leaves:
  assumes "leaves j s s1" and "j \<notin> set (map fst ls)"
  shows "chain s1 k ls = chain s k ls"
  using assms
proof (induction s k ls rule: chain.induct)
  case (2 s k l lp ls)
  then have "objs s1 l = objs s l" "nobj s1 = nobj s" by (auto simp: leaves_def)
  then show ?case using 2 by (simp add: fresh_def)
qed simp

lemma chain_shape_leaves: "leaves j s s1 \<Longrightarrow> chain_shape s1 np hg sh ls = chain_shape s np hg sh ls"
proof (induction s np hg sh ls rule: chain_shape.induct)
  case (2 s np hg sh l lp ls)
  then have "lo_type (objs s1 l) = lo_type (objs s l)" using leaves_type by blast
  then show ?case using 2 by (simp split: option.split)
qed simp

lemma chain_ready:
  assumes "wf_net s" and "1 \<le> np" and "ground s k sh" and "chain s k ls" and "distinct (k # map fst ls)"
    and "chain_shape s np (has_grad (lo_type (objs s k))) sh ls = Some sh1"
  shows "\<exists>s1. setup_layers w prefetch np ls s = Inr s1 \<and> wf_net s1 \<and> chain_settled s1 k sh (map fst ls) sh1 \<and>
    (\<forall>P. stable (set (map fst ls)) P \<longrightarrow> P s \<longrightarrow> P s1)"
  using assms(1,3-6)
proof (induction ls arbitrary: s k sh)
  case Nil
  then show ?case by (simp add: setup_layers_def)
next
  case (Cons x ls)
  obtain l lp where x: "x = (l, lp)" by (cases x)
  have c: "fresh s k l lp" "l \<noteq> k" "chain s l ls" "distinct (l # map fst ls)" "k \<notin> set (map fst ls)" using Cons.prems(3,4) x by auto
  have f: "feeds s k l sh" by (rule ground_feeds [OF Cons.prems(2) c(1,2)])
  have l: "l < nobj s" using c(1) by (simp add: fresh_def)
  obtain sh' where sh': "layer_shape lp (lo_type (objs s l)) np (has_grad (lo_type (objs s k))) sh = Some sh'" "chain_shape s np True sh' ls = Some sh1"
    using Cons.prems(5) x by (auto split: option.splits)
  obtain s1 where s1: "virtual_Setup w prefetch lp np l s = Inr s1" "wf_net s1" "leaves l s s1" "sized (lmem s1) (lo_data (objs s1 l)) sh'"
    "sized (lmem s1) (lo_grad (objs s1 l)) sh'" "wired s1 l"
    using layer_ready [OF Cons.prems(1) assms(2) f c(1) sh'(1)] by (auto simp: ready_def)
  have t: "lo_type (objs s1 l) = lo_type (objs s l)" "nobj s1 = nobj s" using s1(3) by (simp_all add: leaves_def)
  have hg: "plain (lo_type (objs s1 l))" "has_grad (lo_type (objs s1 l))" using layer_shape_type [OF sh'(1)] t by simp_all
  have st: "settled s1 k l sh sh'" using feeds_leaves [OF f s1(3) Cons.prems(1)] hg s1(4-6) by (simp add: settled_def)
  have g: "ground s1 l sh'" using l t(2) hg s1(4,5) by (simp add: ground_def)
  have ch: "chain s1 l ls" "chain_shape s1 np (has_grad (lo_type (objs s1 l))) sh' ls = Some sh1"
    using chain_leaves [OF s1(3)] chain_shape_leaves [OF s1(3)] c(3,4) sh'(2) hg(2) by simp_all
  obtain s2 where s2: "setup_layers w prefetch np ls s1 = Inr s2" "wf_net s2" "chain_settled s2 l sh' (map fst ls) sh1"
    "\<And>P. stable (set (map fst ls)) P \<Longrightarrow> P s1 \<Longrightarrow> P s2"
    using Cons.IH [OF s1(2) g ch(1) c(4) ch(2)] by blast
  have "settled s2 k l sh sh'" using s2(4) [OF stable_settled st] c(4,5) by simp
  moreover have "P s2" if "stable (set (map fst (x # ls))) P" "P s" for P
  proof -
    have "P s1" using that Cons.prems(1) l s1(3) x unfolding stable_def by (metis list.set_intros(1) list.simps(9) fst_conv)
    moreover have "stable (set (map fst ls)) P" using that(1) by (auto simp: stable_def)
    ultimately show ?thesis using s2(4) by blast
  qed
  ultimately show ?case using s1(1) s2(1-3) x by (auto simp: setup_layers_def)
qed

section \<open>The loss on top\<close>

definition loss_ok :: "real LayerProto \<Rightarrow> int list \<Rightarrow> bool" where
  "loss_ok lp sh \<longleftrightarrow> shape_ok sh \<and>
     (case sh of [] \<Rightarrow> False | n # r \<Rightarrow> 0 \<le> softmaxloss_topk (conf lp) \<and> softmaxloss_topk (conf lp) \<le> prod_list r)"

lemma SoftmaxLoss_ready:
  assumes "wf_net s" and "1 \<le> np" and "feeds s k l sh" and "has_grad (lo_type (objs s k))" and "loss_ok lp sh" and "sh = n # r"
    and "lo_type (objs s l) = kSoftmaxLoss" and "lo_srclayers (objs s l) = [k, lab]"
    and "ground s lab [n]" and "lab \<noteq> l" and "lab \<noteq> k"
  shows "\<exists>s1. virtual_Setup w prefetch lp np l s = Inr s1 \<and> wf_net s1 \<and> leaves l s s1 \<and> sized (lmem s1) (lo_data (objs s1 l)) sh \<and>
    sm_wired (top_n (top_of s1 l)) (top_m (top_of s1 l)) (top_c (top_of s1 l)) l s1 \<and> top_sc (top_of s1 l) = lo_scale (objs s1 l) \<and>
    sm_x (top_c (top_of s1 l)) = lo_data (objs s1 k) \<and> sm_gx (top_c (top_of s1 l)) = lo_grad (objs s1 k) \<and>
    sm_lab (top_c (top_of s1 l)) = lo_data (objs s1 lab) \<and> sm_p (top_c (top_of s1 l)) = lo_data (objs s1 l) \<and> top_l (top_of s1 l) = l"
proof -
  have ok: "shape_ok sh" "0 \<le> softmaxloss_topk (conf lp)" "softmaxloss_topk (conf lp) \<le> prod_list r" using assms(5,6) by (auto simp: loss_ok_def)
  have "0 < prod_list sh" using ok(1) prod_list_ge_1 [of sh] by (simp add: shape_ok_def)
  then have p: "0 < n" "0 < prod_list r" "is_c_int (prod_list r)"
    using ok(1) assms(6) prod_list_ge_1 [of r] by (auto simp: shape_ok_def is_c_int_def intro: le_less_trans [of _ "n * prod_list r"])
  have l: "l < nobj s" "k \<noteq> l" "k < nobj s" using assms(3) by (auto simp: feeds_def)
  obtain s1 where s1: "Layer_Setup lp np l s = Inr s1" "wf_net s1" "leaves l s s1" "feeds s1 k l sh" "lmem s1 = lmem s"
    "objs s1 l = (objs s l)\<lparr>layer_proto := lp\<rparr>"
    by (rule Layer_Setup_ok [OF assms(1-3)])
  have mem: "lo_data (objs s1 l) \<in> set (members (objs s1 l))" by (simp add: members_def)
  obtain h where h: "reshape (lo_data (objs s1 l)) sh s1 = Inr (s1\<lparr>lmem := h\<rparr>)" "wf_net (s1\<lparr>lmem := h\<rparr>)" "leaves l s1 (s1\<lparr>lmem := h\<rparr>)"
    "sized h (lo_data (objs s1 l)) sh" "feeds (s1\<lparr>lmem := h\<rparr>) k l sh"
    using reshape_more [OF s1(2,4) mem ok(1)] by blast
  let ?s2 = "s1\<lparr>lmem := h\<rparr>" and ?f = "\<lambda>o1. o1\<lparr>lo_batchsize := n, lo_dim := prod_list r\<rparr>" and ?g = "\<lambda>o1. o1\<lparr>lo_topk := softmaxloss_topk (conf lp)\<rparr>"
  have kf: "keeps ?f" and kg: "keeps ?g" by (simp_all add: keeps_def members_def)
  let ?s3 = "upd_obj l ?f ?s2"
  let ?s4 = "upd_obj l ?g ?s3"
  have s3: "wf_net ?s3" "leaves l ?s2 ?s3" using upd_obj_keeps [OF h(2) kf] by simp_all
  have s4: "wf_net ?s4" "leaves l ?s3 ?s4" using upd_obj_keeps [OF s3(1) kg] by simp_all
  have l4: "l < nobj ?s4" using l(1) s1(3) by (simp add: leaves_def)
  have "distinct (members (objs s l))" using assms(1) l(1) by (simp add: wf_net_def owned_def)
  then have ne: "lo_data (objs s l) \<noteq> lo_metric (objs s l)" by (simp add: members_def)
  have m4: "lo_metric (objs ?s4 l) \<in> set (members (objs ?s4 l))" "lo_metric (objs ?s4 l) \<noteq> lo_data (objs ?s4 l)"
    using s1(6) ne [symmetric] by (simp_all add: members_def)
  have two: "shape_ok [2]" by (simp add: shape_ok_def is_c_int_def)
  obtain h5 where h5: "reshape (lo_metric (objs ?s4 l)) [2] ?s4 = Inr (?s4\<lparr>lmem := h5\<rparr>)" "wf_net (?s4\<lparr>lmem := h5\<rparr>)" "leaves l ?s4 (?s4\<lparr>lmem := h5\<rparr>)"
    "sized h5 (lo_data (objs ?s4 l)) sh"
    using reshape_ok [OF s4(1) l4 m4(1) two] h(4) m4(2) by auto
  let ?k = "\<lambda>o1. o1\<lparr>lo_scale := softmaxloss_scale (conf lp)\<rparr>"
  have kk: "keeps ?k" by (simp add: keeps_def members_def)
  let ?s6 = "upd_obj l ?k (?s4\<lparr>lmem := h5\<rparr>)"
  have s6: "wf_net ?s6" "leaves l (?s4\<lparr>lmem := h5\<rparr>) ?s6" using upd_obj_keeps [OF h5(2) kk] by simp_all
  have lv: "leaves l s ?s6"
    by (rule leaves_trans [OF s1(3) leaves_trans [OF h(3) leaves_trans [OF s3(2) leaves_trans [OF s4(2) leaves_trans [OF h5(3) s6(2)]]]]])
  have f6: "feeds ?s6 k l sh" by (rule feeds_leaves [OF assms(3) lv assms(1)])
  have lab6: "ground ?s6 lab [n]" using stable_ground [of lab "{l}" "[n]"] assms(1,9,10) l(1) lv unfolding stable_def by blast
  have o6: "objs ?s6 l = ?k (?g (?f ((objs s l)\<lparr>layer_proto := lp\<rparr>)))" "objs ?s6 k = objs s k" "objs ?s6 lab = objs s lab" "lmem ?s6 = h5"
    using s1(3,6) l(2) assms(10) by (simp_all add: leaves_def)
  have g6: "has_grad (lo_type (objs ?s6 k))" using assms(4) o6(2) by simp
  note el = feeds_el [OF s6(1) f6 g6]
  have szk: "sized h5 (lo_data (objs s k)) sh" "sized h5 (lo_grad (objs s k)) sh" using f6 g6 unfolding feeds_def o6 by simp_all
  have szl: "sized h5 (lo_data (objs s l)) sh" using h5(4) s1(6) by simp
  have src1: "src_of ?s6 l 1 = Inr lab" "plain (lo_type (objs ?s6 lab))" using o6(1) assms(8) lab6 by (simp_all add: src_of_def idxR_def ground_def)
  have lab: "src_data ?s6 l 1 kPositive = Inr (lo_data (objs s lab))" using plain_getters(1) [OF src1] o6(3) by simp
  have szlab: "sized h5 (lo_data (objs s lab)) [n]" using lab6 unfolding ground_def o6 by simp
  have c: "bcount (blobs h5 (lo_data (objs s k))) = n * prod_list r" "bcount (blobs h5 (lo_grad (objs s k))) = n * prod_list r"
    "bcount (blobs h5 (lo_data (objs s l))) = n * prod_list r" "bcount (blobs h5 (lo_data (objs s lab))) = n"
    "shape (blobs h5 (lo_grad (objs s k))) = shape (blobs h5 (lo_data (objs s l)))"
    using sized_count [OF szk(1)] sized_count [OF szk(2)] sized_count [OF szl] sized_count [OF szlab] assms(6) by simp_all
  have labo: "set (owned s lab) \<inter> set (owned s k) = {}" "set (owned s lab) \<inter> set (owned s l) = {}"
    using assms(1,9-11) l by (simp_all add: wf_net_def ground_def)
  have ins: "lo_data (objs s lab) \<in> set (owned s lab)" "lo_data (objs s k) \<in> set (owned s k)" "lo_grad (objs s k) \<in> set (owned s k)" "lo_data (objs s l) \<in> set (owned s l)"
    by (simp_all add: owned_def members_def)
  have dist: "distinct [lo_data (objs s k), lo_data (objs s lab), lo_data (objs s l), lo_grad (objs s k)]"
    using owned_distinct [OF assms(1) l(1,3,2)] labo ins by (auto simp: keys_def)
  have top: "top_of ?s6 l = \<lparr>top_l = l, top_n = nat n, top_m = nat (prod_list r), top_sc = softmaxloss_scale (conf lp),
      top_c = \<lparr>sm_x = lo_data (objs s k), sm_lab = lo_data (objs s lab), sm_p = lo_data (objs s l), sm_gx = lo_grad (objs s k)\<rparr>\<rparr>"
    unfolding top_of_def Let_def el(1,2) lab o6(1,2) by simp
  have "sm_wired (nat n) (nat (prod_list r)) \<lparr>sm_x = lo_data (objs s k), sm_lab = lo_data (objs s lab), sm_p = lo_data (objs s l), sm_gx = lo_grad (objs s k)\<rparr> l ?s6"
    unfolding sm_wired_def sm_list_def sm_blobs.simps el(3,4) lab o6 using dist c p ok(2,3) by simp
  moreover have "virtual_Setup w prefetch lp np l s = Inr ?s6"
  proof -
    have "loss_shape l s1 = Inr ?s3"
      using feeds_inputs(1,4) [OF s1(4)] h(1,4) p assms(6) sized_count [OF h(4)]
      by (simp add: loss_shape_def Let_def shape_at_def count_at_def sized_def idxR_def divR_exact)
    then show ?thesis using s1(1,6) h5(1) assms(7,8) by (simp add: virtual_Setup_def SoftmaxLoss_Setup_def)
  qed
  ultimately show ?thesis
    using s6(1) lv szl s1(6) unfolding top by (intro exI [of _ ?s6]) (simp add: o6 top)
qed

section \<open>A net that type checks is wired\<close>

lemma chain_linked:
  assumes "chain_settled s k sh ls sh1" and "\<forall>l \<in> set ls. lk_wired s (link_of rs s l)"
    and "sm_x (top_c u) = lo_data (objs s (last (k # ls)))" and "sm_gx (top_c u) = lo_grad (objs s (last (k # ls)))"
  shows "linked (map (link_of rs s) ls) u \<and> head_x (map (link_of rs s) ls) u = lo_data (objs s k) \<and>
    set_option (head_gx (map (link_of rs s) ls) u) \<subseteq> {lo_grad (objs s k)} \<and>
    (has_grad (lo_type (objs s k)) \<longrightarrow> head_gx (map (link_of rs s) ls) u = Some (lo_grad (objs s k))) \<and>
    (ls \<noteq> [] \<and> \<not> has_grad (lo_type (objs s k)) \<longrightarrow> head_gx (map (link_of rs s) ls) u = None)"
  using assms
proof (induction ls arbitrary: k sh)
  case (Cons l ls)
  obtain sh' where st: "settled s k l sh sh'" "chain_settled s l sh' ls sh1" using Cons.prems(1) by auto
  have f: "feeds s k l sh" "has_grad (lo_type (objs s l))" using st(1) by (simp_all add: settled_def)
  have w: "lk_wired s (link_of rs s l)" using Cons.prems(2) by simp
  note ih = Cons.IH [OF st(2)]
  have i: "linked (map (link_of rs s) ls) u" "head_x (map (link_of rs s) ls) u = lo_data (objs s l)"
    "head_gx (map (link_of rs s) ls) u = Some (lo_grad (objs s l))"
    using ih Cons.prems(2-4) f(2) by (simp_all split: if_splits)
  show ?case
    using i lk_of_source [OF w] feeds_inputs(3,6) [OF f(1)] by (simp add: lk_of_own)
qed simp

lemma settled_source: "settled s k l sh sh' \<Longrightarrow> k < nobj s \<and> l < nobj s \<and> wired s l"
  by (simp add: settled_def feeds_def)

lemma chain_settled_all: "chain_settled s k sh ls sh1 \<Longrightarrow> l \<in> set ls \<Longrightarrow> \<exists>k' sh1 sh2. settled s k' l sh1 sh2"
  by (induction ls arbitrary: k sh) auto

lemma distinct_owned_parts:
  assumes "wf_net s" and "distinct ls" and "\<forall>l \<in> set ls. l < nobj s \<and> distinct (f l) \<and> set (f l) \<subseteq> set (owned s l)"
  shows "distinct (concat (map f ls)) \<and> set (concat (map f ls)) \<subseteq> (\<Union>l \<in> set ls. set (owned s l))"
  using assms(2,3)
proof (induction ls)
  case (Cons l ls)
  have "set (owned s l) \<inter> set (owned s k) = {}" if "k \<in> set ls" for k
  proof -
    have "l \<noteq> k" "l < nobj s" "k < nobj s" using Cons.prems that by auto
    then show ?thesis using assms(1) by (simp add: wf_net_def)
  qed
  then have "set (f l) \<inter> set (concat (map f ls)) = {}" using Cons by fastforce
  then show ?case using Cons by auto
qed simp

lemma chain_settled_last: "chain_settled s k sh (ls @ [l]) sh1 \<Longrightarrow> \<exists>k' sh0. settled s k' l sh0 sh1"
  by (induction ls arbitrary: k sh) auto

lemma chain_settled_leaves:
  assumes "leaves j s s1" and "wf_net s" and "j < nobj s" and "j \<notin> set (k # ls)" and "chain_settled s k sh ls sh1"
  shows "chain_settled s1 k sh ls sh1"
  using assms(4,5)
proof (induction ls arbitrary: k sh)
  case (Cons l ls)
  then show ?case using settled_leaves [OF assms(1) _ assms(2,3)] by fastforce
qed simp

text \<open>What the layers of a stack keep apart.\<close>

lemma stack_distinct:
  assumes "wf_net s" and "distinct ([k] @ ls @ [lab, t])" and "\<forall>i \<in> {k, lab, t}. i < nobj s" and "\<forall>l \<in> set ls. l < nobj s \<and> lk_wired s (link_of rs s l)"
    and "head_x (map (link_of rs s) ls) u = lo_data (objs s k)" and "set_option (head_gx (map (link_of rs s) ls) u) \<subseteq> {lo_grad (objs s k)}"
    and "sm_lab (top_c u) = lo_data (objs s lab)" and "sm_p (top_c u) = lo_data (objs s t)"
  shows "distinct (stack_blobs (map (link_of rs s) ls) u)"
proof -
  define f where "f i = (if i \<in> set ls then lk_own (link_of rs s i) else
      if i = k then lo_data (objs s k) # (case head_gx (map (link_of rs s) ls) u of None \<Rightarrow> [] | Some g \<Rightarrow> [g]) else [lo_data (objs s i)])" for i
  have ne: "lo_data (objs s k) \<noteq> lo_grad (objs s k)" using assms(1,3) by (auto simp: wf_net_def owned_def members_def)
  have ks: "k \<notin> set ls" "lab \<notin> set ls" "t \<notin> set ls" "lab \<noteq> k" "t \<noteq> k" using assms(2) by auto
  have mem: "lo_data (objs s i) \<in> set (owned s i)" "lo_grad (objs s i) \<in> set (owned s i)" for i by (simp_all add: owned_def members_def)
  have "\<forall>l \<in> set ([k] @ ls @ [lab, t]). l < nobj s \<and> distinct (f l) \<and> set (f l) \<subseteq> set (owned s l)"
  proof
    fix l assume l: "l \<in> set ([k] @ ls @ [lab, t])"
    consider "l \<in> set ls" | "l = k" | "l \<in> {lab, t}" using l by auto
    then show "l < nobj s \<and> distinct (f l) \<and> set (f l) \<subseteq> set (owned s l)"
    proof cases
      case 1
      then show ?thesis using assms(4) lk_wired_own [of s "link_of rs s l"] own_owned [of s rs l] by (simp add: f_def)
    next
      case 2
      then show ?thesis using assms(3,6) ks(1) ne mem [of k] by (cases "head_gx (map (link_of rs s) ls) u") (auto simp: f_def)
    next
      case 3
      then show ?thesis using assms(3) ks mem by (auto simp: f_def)
    qed
  qed
  then have "distinct (concat (map f ([k] @ ls @ [lab, t])))" using distinct_owned_parts [OF assms(1,2)] by blast
  moreover have "map f ls = map (lk_own \<circ> link_of rs s) ls" by (simp add: f_def)
  moreover have "f lab = [sm_lab (top_c u)]" "f t = [sm_p (top_c u)]" "f k = head_x (map (link_of rs s) ls) u # (case head_gx (map (link_of rs s) ls) u of None \<Rightarrow> [] | Some g \<Rightarrow> [g])"
    using ks assms(5,7,8) by (auto simp: f_def)
  ultimately show ?thesis by (simp add: stack_blobs_def)
qed

text \<open>
  C?. Nets that type check do not go wrong. If the shapes of a chain of layers under a softmax loss fit together, as \<open>chain_shape\<close>
  computes them from the configurations, then the Setup methods of all layers succeed one after the other, and in the net that they
  leave the layers are wired to each other, the blobs and parameters have the sizes that features and gradients ask for and share no
  memory: the premise of \<open>backprop_correct\<close>.
\<close>

theorem typed_net_wired:
  fixes s :: "real lstate"
  assumes "wf_net s" and "1 \<le> np" and "ground s k sh" and "chain s k ls" and "distinct (k # map fst ls @ [lab, t])"
    and "chain_shape s np (has_grad (lo_type (objs s k))) sh ls = Some (n # r)" and "ls \<noteq> [] \<or> has_grad (lo_type (objs s k))"
    and "lo_type (objs s t) = kSoftmaxLoss" and "t < nobj s" and "lo_srclayers (objs s t) = [last (k # map fst ls), lab]"
    and "ground s lab [n]" and "loss_ok lt (n # r)"
  shows "\<exists>s1. setup_layers w prefetch np (ls @ [(t, lt)]) s = Inr s1 \<and>
    (\<forall>rs. (\<forall>l \<in> set (map fst ls). nat (count_at s1 (lo_data (objs s1 l))) \<le> length (rs l)) \<longrightarrow>
      stack_wired (map (link_of rs s1) (map fst ls)) (top_of s1 t) s1)"
proof -
  let ?L = "map fst ls" and ?k = "last (k # map fst ls)"
  have d: "distinct (k # ?L)" "t \<notin> set ?L" "lab \<notin> set ?L" "t \<noteq> k" "lab \<noteq> k" "lab \<noteq> t" using assms(5) by auto
  obtain s1 where s1: "setup_layers w prefetch np ls s = Inr s1" "wf_net s1" "chain_settled s1 k sh ?L (n # r)"
    "\<And>P. stable (set ?L) P \<Longrightarrow> P s \<Longrightarrow> P s1"
    using chain_ready [OF assms(1,2,3,4) d(1) assms(6), of w prefetch] by blast
  have o1: "objs s1 t = objs s t" "nobj s1 = nobj s" using s1(4) [OF stable_object [OF d(2)]] by auto
  have lab1: "ground s1 lab [n]" by (rule s1(4) [OF stable_ground [OF d(3)] assms(11)])
  have k1: "ground s1 k sh" using s1(4) [OF stable_ground assms(3)] d(1) by simp
  have top: "ground s1 ?k (n # r) \<and> has_grad (lo_type (objs s1 ?k))"
  proof (cases ls rule: rev_cases)
    case Nil
    then have "sh = n # r" using assms(6) by simp
    then show ?thesis using k1 Nil assms(7) s1(4) [OF stable_type refl, of k] by simp
  next
    case (snoc ls' x)
    then obtain k' sh1 where "settled s1 k' (fst x) sh1 (n # r)" using chain_settled_last s1(3) by fastforce
    then show ?thesis using snoc by (auto simp: settled_def ground_def feeds_def)
  qed
  have "?k \<in> set (k # ?L)" "t \<notin> set (k # ?L)" "lab \<notin> set (k # ?L)" using d last_in_set [of "k # ?L"] by auto
  then have kt: "?k \<noteq> t" "lab \<noteq> ?k" by metis+
  have f: "feeds s1 ?k t (n # r)" using top o1 assms(9,10) kt(1) by (auto simp: ground_def feeds_def)
  have ty: "lo_type (objs s1 t) = kSoftmaxLoss" "lo_srclayers (objs s1 t) = [?k, lab]" using o1 assms(8,10) by simp_all
  obtain s2 where s2: "virtual_Setup w prefetch lt np t s1 = Inr s2" "wf_net s2" "leaves t s1 s2" "sized (lmem s2) (lo_data (objs s2 t)) (n # r)"
    "sm_wired (top_n (top_of s2 t)) (top_m (top_of s2 t)) (top_c (top_of s2 t)) t s2" "top_sc (top_of s2 t) = lo_scale (objs s2 t)"
    "sm_x (top_c (top_of s2 t)) = lo_data (objs s2 ?k)" "sm_gx (top_c (top_of s2 t)) = lo_grad (objs s2 ?k)"
    "sm_lab (top_c (top_of s2 t)) = lo_data (objs s2 lab)" "sm_p (top_c (top_of s2 t)) = lo_data (objs s2 t)" "top_l (top_of s2 t) = t"
    using SoftmaxLoss_ready [OF s1(2) assms(2) f conjunct2 [OF top] assms(12) refl ty lab1 d(6) kt(2), of w prefetch] by blast
  have t1: "t < nobj s1" "t \<notin> set (k # ?L)" using assms(9) o1(2) d by auto
  have ch: "chain_settled s2 k sh ?L (n # r)" by (rule chain_settled_leaves [OF s2(3) s1(2) t1 s1(3)])
  have gr: "ground s2 i sh0" if "ground s1 i sh0" "i \<noteq> t" for i sh0
    using stable_ground [of i "{t}" sh0] that s1(2) t1(1) s2(3) unfolding stable_def by blast
  have g2: "ground s2 k sh" "ground s2 lab [n]" using gr k1 lab1 d(4,6) by auto
  have n2: "t < nobj s2" using t1(1) s2(3) by (simp add: leaves_def)
  have "stack_wired (map (link_of rs s2) ?L) (top_of s2 t) s2"
    if rs: "\<forall>l \<in> set ?L. nat (count_at s2 (lo_data (objs s2 l))) \<le> length (rs l)" for rs
  proof -
    have w: "\<forall>l \<in> set ?L. l < nobj s2 \<and> wired s2 l \<and> lk_wired s2 (link_of rs s2 l)"
      using chain_settled_all [OF ch] settled_source rs unfolding wired_def by blast
    note li = chain_linked [OF ch _ s2(7,8), of rs]
    have li: "linked (map (link_of rs s2) ?L) (top_of s2 t)" "head_x (map (link_of rs s2) ?L) (top_of s2 t) = lo_data (objs s2 k)"
      "set_option (head_gx (map (link_of rs s2) ?L) (top_of s2 t)) \<subseteq> {lo_grad (objs s2 k)}"
      "?L \<noteq> [] \<and> \<not> has_grad (lo_type (objs s2 k)) \<longrightarrow> head_gx (map (link_of rs s2) ?L) (top_of s2 t) = None"
      using li w by blast+
    have dist: "distinct (stack_blobs (map (link_of rs s2) ?L) (top_of s2 t))"
      by (rule stack_distinct [OF s2(2) _ _ _ li(2,3) s2(9,10)]) (use w g2 n2 assms(5) in \<open>auto simp: ground_def\<close>)
    have hg: "has_grad (lo_type (objs s2 k)) \<or> ?L \<noteq> []"
      using assms(7) s1(4) [OF stable_type refl, of k] leaves_type [OF s2(3)] by auto
    have "\<exists>sh. sized (lmem s2) b sh" if "b \<in> set (stack_blobs (map (link_of rs s2) ?L) (top_of s2 t))" for b
    proof -
      consider "b = lo_data (objs s2 k)" | "b \<in> set_option (head_gx (map (link_of rs s2) ?L) (top_of s2 t))"
        | l where "l \<in> set ?L" "b \<in> set (lk_own (link_of rs s2 l))" | "b = lo_data (objs s2 lab)" | "b = lo_data (objs s2 t)"
        using \<open>b \<in> _\<close> li(2) s2(9,10) unfolding stack_blobs_def by (auto split: option.splits)
      then show ?thesis
      proof cases
        case 2
        then have "has_grad (lo_type (objs s2 k))" "b = lo_grad (objs s2 k)" using li(3,4) hg by auto
        then show ?thesis using g2(1) by (auto simp: ground_def)
      next
        case 3
        then show ?thesis using w by (auto simp: wired_def)
      qed (use g2 s2(4) in \<open>auto simp: ground_def\<close>)
    qed
    then have "apart (set (stack_blobs (map (link_of rs s2) ?L) (top_of s2 t))) (lmem s2)"
      using apart_sized [of "lmem s2" "set (stack_blobs (map (link_of rs s2) ?L) (top_of s2 t))"] s2(2) by (simp add: wf_net_def)
    then show ?thesis using w li(1) dist s2(5,6,11) by (auto simp: stack_wired_def)
  qed
  moreover have "setup_layers w prefetch np (ls @ [(t, lt)]) s = Inr s2"
    using s1(1) s2(1) by (simp add: setup_layers_def foldR_append)
  ultimately show ?thesis by blast
qed

end
