(* ===== verification/Spec2Isabelle.thy ===== *)
theory Spec2Isabelle
  imports Common Msg Graph DataShard Cluster Blob Param Updater Socket Server Worker Trainer NeuralNet Layers Gradients Backprop ImageOps ImageLayers Stack LayerSetup Typing
begin

text \<open>
  A verification of SINGA, a system that trains neural networks on a cluster (\<open>src/src\<close> and
  \<open>src/include\<close>).

  \<^bold>\<open>The program.\<close> A job is a set of processes. Worker groups compute gradients of a net, server groups
  keep the parameters and apply the updates, and in every process a stub thread routes the messages
  between them. \<open>Cluster\<close> says which worker and server lives in which process. \<open>NeuralNet\<close> turns the
  configuration of a net into a graph of layers, partitioned over the workers of a group. \<open>Trainer\<close>
  creates the threads, cuts the parameters into slices and deals them out to the servers, and runs the
  stub. A \<open>Worker\<close> asks for put, get and update of its parameters (\<open>Param\<close> makes the messages), the
  stub splits every request into one message per slice, collects the gradients of the local workers, and
  a \<open>Server\<close> answers with the help of an \<open>Updater\<close>. Messages (\<open>Msg\<close>) travel through
  zeromq sockets (\<open>Socket\<close>); the floats lie in \<open>Blob\<close>s, which may share memory; training data comes from
  a \<open>DataShard\<close> file.

  \<^bold>\<open>The theories\<close>, each with the definitions of its part in the order of the code:

    \<^item> \<open>Prelude\<close>: failure as a value (\<open>error\<close>, \<open>res\<close>, \<open>bindR\<close>, \<open>foldR\<close>), C integers (\<open>c_int\<close>), \<open>printf\<close> and \<open>scanf\<close>
      of decimal numbers, segments of vectors, and the collections \<open>res_simps\<close> and \<open>vec_simps\<close>.
    \<^item> \<open>Common\<close> (\<open>utils/common.cc\<close>): the load balancers \<open>Slice\<close> and \<open>PartitionSlices\<close>, \<open>gcd\<close>, \<open>Metric\<close>. \<open>Slice\<close> cuts
      parameters into pieces that add up, none above the average load plus a tenth; when its last CHECK can fail and
      when \<open>PartitionSlices\<close> returns.
    \<^item> \<open>Msg\<close> (\<open>communication/msg\<close>): addresses, frames and the typed format frame, at the level of bytes
      and at that of fields; round trips and the refinement between the two levels, over a locale
      \<open>machine_repr\<close> for the encoding of floats and pointers.
    \<^item> \<open>Graph\<close> (\<open>utils/graph\<close>): nodes in a store; \<open>Sort\<close> is a topological sort that returns exactly on graphs without
      cycles. The locale \<open>multigraph\<close> states what the edge operations promise.
    \<^item> \<open>DataShard\<close> (\<open>utils/data_shard\<close>): the file of tuples with its buffer; what is inserted is read
      back, also after reopening for append. The locale \<open>tuple_source\<close> is what a reader relies on.
    \<^item> \<open>Cluster\<close> (\<open>utils/cluster\<close>): the topology and the table of process ids.
    \<^item> \<open>Blob\<close> (\<open>utils/blob\<close>): \<open>SyncedMemory\<close> and \<open>Blob<float>\<close> over a heap of blocks, so that two
      blobs can share their floats.
    \<^item> \<open>Param\<close> (\<open>utils/param\<close>): slices and every message of a parameter; put, get and update bring the right
      floats to the right place.
    \<^item> \<open>Updater\<close> (\<open>utils/updater\<close>): learning rates, SGD, Nesterov, AdaGrad, RMSProp.
    \<^item> \<open>Socket\<close> (\<open>communication/socket\<close>): dealers and the router with its buffer; it delivers the messages of a
      dealer in order. The locale \<open>store_forward\<close> is the contract.
    \<^item> \<open>Server\<close> (\<open>trainer/server\<close>): the handlers for put, get, update and synchronisation. The last update of a
      slice applies one step with the mean gradient and answers everyone; two groups that
      synchronise agree.
    \<^item> \<open>Worker\<close> (\<open>trainer/worker\<close>): initial values and checkpoints, requests, bridge layers, forward and
      backward passes, contrastive divergence, the loop of \<open>Run\<close>.
    \<^item> \<open>Trainer\<close> (\<open>trainer/trainer\<close>): slicing, the creation of workers and servers, resuming, and
      the stub with all its handlers, composed with \<open>Server\<close>.
    \<^item> \<open>NeuralNet\<close> (\<open>neuralnet/neuralnet\<close>): the configuration of a phase and the partitioned graph.

  \<^bold>\<open>Modelling.\<close> State is passed explicitly: records with the fields of the classes, heaps as functions from addresses
  where objects are shared. A run that stops is a value of \<open>error\<close>: \<open>CheckFailed\<close> for a failed \<open>CHECK\<close> or \<open>LOG(FATAL)\<close>,
  \<open>OutOfRange\<close> for the exception of \<open>at\<close>, \<open>Undefined\<close> for undefined behaviour of C++ (null pointers, indices outside a vector, division by
  zero), \<open>Blocked\<close> for a wait that no other thread ends. Loops that may run forever are partial functions into
  \<open>option\<close>, where \<open>None\<close> is a run that does not return; no fuel is used. \<open>int\<close> is the type \<open>int\<close>, with
  \<open>c_int\<close> and \<open>is_c_int\<close> where a product or a shift can leave 32 bits; unsigned sizes are \<open>nat\<close>. A \<open>float\<close> is an element of a
  type with the arithmetic operations; theorems on values instantiate it with the reals, so rounding is not
  modelled. Memory of a fresh object whose members are not set is an argument. Random numbers, \<open>powf\<close> and \<open>sqrtf\<close>, the clock, the
  results of system calls, zookeeper and zeromq are arguments too; a zeromq message is its list of
  frames with a cursor, and a socket the lists of messages it sent and received.

  \<^bold>\<open>Not modelled.\<close> Destructors and the memory they free; the GPU code, which the build leaves out; the
  encoding of protobuf messages; the threads themselves, since a handler is one atomic step and data races
  between threads are not described; the zookeeper client (\<open>utils/cluster_rt.cc\<close>); the LMDB layer
  (\<open>neuralnet/optional_layer.cc\<close>); \<open>trainer/tester.cc\<close>, a copy of the trainer that is not built; the command
  line; vendored code (mshadow, googletest, tinydir, t-SNE) and the web front end.
\<close>

end
